(* ===== verification/Prelude.thy ===== *)
theory Prelude
  imports Main "HOL-Library.Word"
begin

text \<open>
  The vocabulary the components share: the machine types of the source, the outcome of a
  C function that may spin forever or access memory outside an object, the copy of a block
  of bytes into an array, and the view of a circular array as a list. The collections
  \<open>outcome_simps\<close> and \<open>ring_simps\<close> gather the rewrite rules the component proofs use.
\<close>

named_theorems outcome_simps
named_theorems ring_simps

type_synonym u8 = "8 word"
type_synonym u16 = "16 word"
type_synonym u32 = "32 word"

section \<open>Outcomes\<close>

text \<open>
  \<open>Spin\<close> is the source's \<open>while(1);\<close>: the task never continues (the watchdog resets the
  board). The others are undefined in C: \<open>Overrun\<close> is an access outside an array,
  \<open>Confused\<close> an object read through a pointer to another type, \<open>NullDeref\<close> a null
  pointer followed, \<open>Freed\<close> a pointer to an object that was given back, \<open>BadShift\<close> a shift by
  the width of the operand or more.
\<close>

datatype halt = Spin | Overrun | Confused | NullDeref | Freed | BadShift

datatype 'a outcome = Ok 'a | Halt halt

primrec bind_outcome :: "'a outcome \<Rightarrow> ('a \<Rightarrow> 'b outcome) \<Rightarrow> 'b outcome" where
  "bind_outcome (Ok a) f = f a"
| "bind_outcome (Halt h) f = Halt h"

declare bind_outcome.simps [outcome_simps]

lemma bind_outcome_Ok_iff [outcome_simps]:
  "bind_outcome m f = Ok b \<longleftrightarrow> (\<exists>a. m = Ok a \<and> f a = Ok b)"
  by (cases m) auto

lemma bind_outcome_assoc:
  "bind_outcome (bind_outcome m f) g = bind_outcome m (\<lambda>a. bind_outcome (f a) g)"
  by (cases m) auto

section \<open>Copying bytes\<close>

text \<open>
  \<open>memcpy(&dst[d], &src[s], n)\<close>, with the bounds of both arrays checked.
\<close>

definition blit :: "'a list \<Rightarrow> nat \<Rightarrow> 'a list \<Rightarrow> nat \<Rightarrow> nat \<Rightarrow> 'a list" where
  "blit dst d src s n = take d dst @ take n (drop s src) @ drop (d + n) dst"

definition memcpy :: "'a list \<Rightarrow> nat \<Rightarrow> 'a list \<Rightarrow> nat \<Rightarrow> nat \<Rightarrow> 'a list outcome" where
  "memcpy dst d src s n =
     (if d + n \<le> length dst \<and> s + n \<le> length src then Ok (blit dst d src s n)
      else Halt Overrun)"

lemma memcpy_Ok [outcome_simps]:
  "d + n \<le> length dst \<Longrightarrow> s + n \<le> length src \<Longrightarrow> memcpy dst d src s n = Ok (blit dst d src s n)"
  by (simp add: memcpy_def)

lemma length_blit [simp]:
  "d + n \<le> length dst \<Longrightarrow> s + n \<le> length src \<Longrightarrow> length (blit dst d src s n) = length dst"
  by (simp add: blit_def)

lemma nth_blit:
  assumes "d + n \<le> length dst" and "s + n \<le> length src" and "i < length dst"
  shows "blit dst d src s n ! i = (if d \<le> i \<and> i < d + n then src ! (s + (i - d)) else dst ! i)"
proof -
  have "length (take n (drop s src)) = n" using assms(2) by simp
  with assms show ?thesis by (auto simp: blit_def nth_append)
qed

lemma blit_0: "n \<le> length src \<Longrightarrow> n \<le> length dst \<Longrightarrow> blit dst 0 src 0 n = take n src @ drop n dst"
  by (simp add: blit_def)

section \<open>Circular arrays\<close>

text \<open>The \<open>n\<close> elements of the circular array \<open>xs\<close> from index \<open>r\<close> on.\<close>

definition ring_slice :: "'a list \<Rightarrow> nat \<Rightarrow> nat \<Rightarrow> 'a list" where
  "ring_slice xs r n = map (\<lambda>i. xs ! ((r + i) mod length xs)) [0..<n]"

lemma length_ring_slice [simp, ring_simps]: "length (ring_slice xs r n) = n"
  by (simp add: ring_slice_def)

lemma nth_ring_slice [simp, ring_simps]:
  "i < n \<Longrightarrow> ring_slice xs r n ! i = xs ! ((r + i) mod length xs)"
  by (simp add: ring_slice_def)

lemma ring_slice_0 [simp, ring_simps]: "ring_slice xs r 0 = []"
  by (simp add: ring_slice_def)

lemma take_ring_slice: "m \<le> n \<Longrightarrow> take m (ring_slice xs r n) = ring_slice xs r m"
  by (rule nth_equalityI) auto

lemma drop_ring_slice:
  "m \<le> n \<Longrightarrow> drop m (ring_slice xs r n) = ring_slice xs ((r + m) mod length xs) (n - m)"
  by (rule nth_equalityI) (auto simp: mod_add_left_eq add.assoc)

lemma mod_once: "a < 2 * N \<Longrightarrow> a mod N = (if a < N then a else a - N)" for a N :: nat
  by (simp add: mod_if)

text \<open>
  Two ways to read a slice of an array of length \<open>N\<close>: in one piece, and in two pieces
  when it passes the end of the array.
\<close>

lemma ring_slice_linear:
  "r + n \<le> length xs \<Longrightarrow> ring_slice xs r n = take n (drop r xs)"
  by (rule nth_equalityI) auto

lemma ring_slice_wrap:
  assumes "r < length xs" and "length xs - r \<le> n" and "n \<le> length xs"
  shows "ring_slice xs r n = drop r xs @ take (n - (length xs - r)) xs"
  using assms by (intro nth_equalityI) (auto simp: nth_append mod_once add.commute)

text \<open>
  \<open>ring_stored xs w ys zs\<close>: the array \<open>zs\<close> is \<open>xs\<close> with \<open>ys\<close> stored circularly from
  index \<open>w\<close> on. Storing behind a slice extends the slice.
\<close>

definition ring_stored :: "'a list \<Rightarrow> nat \<Rightarrow> 'a list \<Rightarrow> 'a list \<Rightarrow> bool" where
  "ring_stored xs w ys zs \<longleftrightarrow>
     length zs = length xs \<and>
     (\<forall>i < length ys. zs ! ((w + i) mod length xs) = ys ! i) \<and>
     (\<forall>j < length xs. (\<forall>i < length ys. j \<noteq> (w + i) mod length xs) \<longrightarrow> zs ! j = xs ! j)"

lemma ring_index_apart:
  fixes r n i k N :: nat
  assumes "i < n" and "n + k < N"
  shows "(r + i) mod N \<noteq> (r + n + k) mod N"
proof
  assume "(r + i) mod N = (r + n + k) mod N"
  then have "(r + n + k - (r + i)) mod N = 0"
    using assms(1) by (metis add_leD1 mod_eq_dvd_iff_nat mod_0_imp_dvd dvd_imp_mod_0 less_imp_le_nat
        add.assoc nat_add_left_cancel_le trans_le_add1)
  moreover have "r + n + k - (r + i) = n + k - i" by simp
  ultimately show False using assms by simp
qed

lemma ring_stored_extend:
  assumes st: "ring_stored xs w ys zs" and w: "w = (r + n) mod length xs"
    and fits: "n + length ys \<le> length xs"
  shows "ring_slice zs r (n + length ys) = ring_slice xs r n @ ys"
proof (rule nth_equalityI)
  show "length (ring_slice zs r (n + length ys)) = length (ring_slice xs r n @ ys)" by simp
next
  fix i assume "i < length (ring_slice zs r (n + length ys))"
  then have i: "i < n + length ys" by simp
  then have pos: "0 < length xs" using fits by linarith
  have len: "length zs = length xs" using st by (simp add: ring_stored_def)
  show "ring_slice zs r (n + length ys) ! i = (ring_slice xs r n @ ys) ! i"
  proof (cases "i < n")
    case True
    have "(r + i) mod length xs \<noteq> (w + k) mod length xs" if "k < length ys" for k
      using ring_index_apart [of i n k "length xs" r] True that fits
      by (simp add: w mod_add_left_eq)
    then have "zs ! ((r + i) mod length xs) = xs ! ((r + i) mod length xs)"
      using st pos by (simp add: ring_stored_def)
    with i True len show ?thesis by (simp add: nth_append)
  next
    case False
    with i have k: "i - n < length ys" by simp
    then have "zs ! ((w + (i - n)) mod length xs) = ys ! (i - n)"
      using st by (simp add: ring_stored_def)
    moreover have "(w + (i - n)) mod length xs = (r + i) mod length xs"
      unfolding w mod_add_left_eq using False by simp
    ultimately show ?thesis using i False len by (simp add: nth_append)
  qed
qed

lemma ring_stored_blit:
  assumes "w + n \<le> length xs" and "s + n \<le> length src"
  shows "ring_stored xs w (take n (drop s src)) (blit xs w src s n)"
  unfolding ring_stored_def
proof (intro conjI allI impI)
  show "length (blit xs w src s n) = length xs" using assms by simp
next
  fix i assume "i < length (take n (drop s src))"
  then have "i < n" by simp
  with assms show "blit xs w src s n ! ((w + i) mod length xs) = take n (drop s src) ! i"
    by (simp add: nth_blit)
next
  fix j assume j: "j < length xs" and apart: "\<forall>i < length (take n (drop s src)). j \<noteq> (w + i) mod length xs"
  have "\<not> (w \<le> j \<and> j < w + n)"
  proof
    assume in_range: "w \<le> j \<and> j < w + n"
    then have "j - w < length (take n (drop s src))" using assms by auto
    with apart have "j \<noteq> (w + (j - w)) mod length xs" by blast
    with in_range j show False by simp
  qed
  with assms j show "blit xs w src s n ! j = xs ! j" by (auto simp: nth_blit)
qed

lemma ring_stored_append:
  assumes one: "ring_stored xs w ys zs" and two: "ring_stored zs ((w + length ys) mod length xs) ys' zs'"
    and fits: "length ys + length ys' \<le> length xs"
  shows "ring_stored xs w (ys @ ys') zs'"
  unfolding ring_stored_def
proof (intro conjI allI impI)
  have len: "length zs = length xs" using one by (simp add: ring_stored_def)
  show "length zs' = length xs" using two len by (simp add: ring_stored_def)
  have two': "zs' ! ((w + length ys + i) mod length xs) = ys' ! i" if "i < length ys'" for i
    using two that len by (simp add: ring_stored_def mod_add_left_eq)
  have keep: "zs' ! j = zs ! j"
    if "j < length xs" "\<And>i. i < length ys' \<Longrightarrow> j \<noteq> (w + length ys + i) mod length xs" for j
    using two that len by (simp add: ring_stored_def mod_add_left_eq)
  {
    fix i assume i: "i < length (ys @ ys')"
    show "zs' ! ((w + i) mod length xs) = (ys @ ys') ! i"
    proof (cases "i < length ys")
      case True
      have "0 < length xs" using fits True by linarith
      moreover have "(w + i) mod length xs \<noteq> (w + length ys + k) mod length xs"
        if "k < length ys'" for k
        using ring_index_apart [of i "length ys" k "length xs" w] True that fits by simp
      ultimately have "zs' ! ((w + i) mod length xs) = zs ! ((w + i) mod length xs)"
        by (intro keep) auto
      with one True show ?thesis by (simp add: ring_stored_def nth_append)
    next
      case False
      with i have "i - length ys < length ys'" by simp
      from two' [OF this] False show ?thesis by (simp add: nth_append)
    qed
  next
    fix j assume j: "j < length xs" and apart: "\<forall>i < length (ys @ ys'). j \<noteq> (w + i) mod length xs"
    have "zs' ! j = zs ! j"
      using j apart by (intro keep) (auto simp: add.assoc)
    moreover have "zs ! j = xs ! j"
      using one j apart by (simp add: ring_stored_def)
    ultimately show "zs' ! j = xs ! j" by simp
  }
qed

lemma ring_stored_update:
  "w < length xs \<Longrightarrow> ring_stored xs w [y] (xs[w := y])"
  by (auto simp: ring_stored_def nth_list_update)

lemma ring_stored_Nil: "ring_stored xs w [] xs"
  by (simp add: ring_stored_def)

section \<open>Delta lists\<close>

text \<open>
  A list of delays, each relative to the one before; \<open>sums\<close> is the list of the absolute times.
\<close>

fun sums :: "nat \<Rightarrow> nat list \<Rightarrow> nat list" where
  "sums t [] = []"
| "sums t (d # ds) = (t + d) # sums (t + d) ds"

lemma sums_append: "sums t (xs @ ys) = sums t xs @ sums (t + sum_list xs) ys"
  by (induction xs arbitrary: t) (auto simp: add.assoc)

lemma length_sums [simp]: "length (sums t ds) = length ds"
  by (induction ds arbitrary: t) auto

lemma sums_ge: "d \<in> set (sums t ds) \<Longrightarrow> t \<le> d"
  by (induction ds arbitrary: t) fastforce+

lemma sums_shift: "sums (t + k) ds = map (\<lambda>d. d + k) (sums t ds)"
proof (induction ds arbitrary: t)
  case (Cons d ds)
  from Cons.IH [of "t + d"] show ?case by (simp add: algebra_simps)
qed simp

lemma sums_from: "sums t ds = map (\<lambda>d. t + d) (sums 0 ds)"
  using sums_shift [of 0 t ds] by (simp add: add.commute)

lemma sums_merge: "sums t (case xs of [] \<Rightarrow> [] | x # xs \<Rightarrow> (x + d) # xs) = sums (t + d) xs"
  by (cases xs) (simp_all add: add.commute add.left_commute)

lemma sum_le_last: "xs \<noteq> [] \<Longrightarrow> last (sums t xs) = t + sum_list xs"
proof (induction xs arbitrary: t)
  case (Cons x xs)
  show ?case
  proof (cases "xs = []")
    case False
    then have "sums (t + x) xs \<noteq> []" by (metis length_sums length_0_conv)
    with Cons.IH [OF False, of "t + x"] show ?thesis by (simp add: add.assoc)
  qed simp
qed simp

section \<open>Words\<close>

lemma unat_add_small: "unat a + unat b < 2 ^ LENGTH('a) \<Longrightarrow> unat (a + b) = unat a + unat b"
  for a b :: "'a::len word"
  by (simp add: unat_word_ariths)

lemma unat_word_of_int_small:
  "0 \<le> k \<Longrightarrow> k < 2 ^ LENGTH('a) \<Longrightarrow> unat (word_of_int k :: 'a::len word) = nat k"
  by (simp add: unat_eq_nat_uint uint_word_of_int)

lemma unat_int_diff:
  fixes a :: "'a::len word"
  assumes "unat a \<le> k" and "k < 2 ^ LENGTH('a)"
  shows "unat (word_of_int (int k - uint a) :: 'a word) = k - unat a"
proof -
  have eq: "int k - uint a = int (k - unat a)" unfolding uint_nat using assms(1) by linarith
  have "unat (word_of_int (int (k - unat a)) :: 'a word) = nat (int (k - unat a))"
    using assms(2) by (intro unat_word_of_int_small) auto
  then show ?thesis unfolding eq by simp
qed

lemma unat_u8_le [simp]: "unat (n :: u8) \<le> 255"
  using unsigned_less [where 'a = nat, of n] by simp

lemma unat_ucast_u8 [simp]: "unat (ucast (n :: u8) :: u16) = unat n"
  unfolding unat_eq_nat_uint by (subst uint_up_ucast) (simp_all add: is_up)

lemma uint_less_numeral: "uint a < numeral k \<longleftrightarrow> unat a < numeral k" for a :: "'a::len word"
  unfolding uint_nat by (simp only: of_nat_less_numeral_iff)

end
