(* ===== verification/LwipApi.thy ===== *)
theory LwipApi
  imports Prelude
begin

text \<open>
  What the programs on top of lwIP see of it: its error codes and the raw interface of TCP.

  TCP is an argument: \<open>tcp_api\<close> is the record of the raw-API functions that are called, over an
  unknown state of the stack. \<open>tcp_stream_law\<close> is what the callers rely on: a \<open>tcp_write\<close> that
  returns \<open>ERR_OK\<close> has queued all its bytes behind those queued before, one that fails has queued
  none.
\<close>

section \<open>Error codes\<close>

datatype err_t = ERR_OK | ERR_MEM | ERR_BUF | ERR_TIMEOUT | ERR_RTE | ERR_INPROGRESS | ERR_VAL
  | ERR_WOULDBLOCK | ERR_USE | ERR_ALREADY | ERR_ISCONN | ERR_CONN | ERR_IF | ERR_ABRT | ERR_RST
  | ERR_CLSD | ERR_ARG

section \<open>The raw TCP interface\<close>

type_synonym pcb = nat

record 's tcp_api =
  tcp_sndbuf :: "'s \<Rightarrow> pcb \<Rightarrow> u16"
  tcp_write :: "'s \<Rightarrow> pcb \<Rightarrow> u8 list \<Rightarrow> bool \<Rightarrow> err_t \<times> 's"
  tcp_output :: "'s \<Rightarrow> pcb \<Rightarrow> 's"
  tcp_recved :: "'s \<Rightarrow> pcb \<Rightarrow> u16 \<Rightarrow> 's"
  tcp_close :: "'s \<Rightarrow> pcb \<Rightarrow> err_t \<times> 's"
  tcp_abort :: "'s \<Rightarrow> pcb \<Rightarrow> 's"
  tcp_new :: "'s \<Rightarrow> pcb option \<times> 's"
  tcp_bind :: "'s \<Rightarrow> pcb \<Rightarrow> err_t \<times> 's"
  tcp_connect :: "'s \<Rightarrow> pcb \<Rightarrow> u8 list \<Rightarrow> u16 \<Rightarrow> err_t \<times> 's"

definition tcp_stream_law :: "'s tcp_api \<Rightarrow> ('s \<Rightarrow> pcb \<Rightarrow> u8 list) \<Rightarrow> bool" where
  "tcp_stream_law io stream \<longleftrightarrow>
     (\<forall>s p data more e s'. tcp_write io s p data more = (e, s') \<longrightarrow>
        stream s' p = (if e = ERR_OK then stream s p @ data else stream s p)) \<and>
     (\<forall>s p. stream (tcp_output io s p) p = stream s p)"

end
