(* ===== verification/LwipPbuf.thy ===== *)
theory LwipPbuf
  imports LwipApi
begin

text \<open>
  The packet buffers of lwIP (\<open>src/lwip-2.0.3/src/core/pbuf.c\<close>), through which both clients and
  the servers get and send their data. A \<open>pbuf\<close> is an object with a reference count, an area of
  memory and a payload pointer into it; a packet is a chain of them. The store is the list of all
  objects ever allocated, an object that was given back being \<open>None\<close>, so that a pointer is an
  index into it, a pointer that is used after the object was given back is \<open>Halt Freed\<close>, and an
  address is never used twice. Loops that follow the links are partial functions, a loop that
  never ends being \<open>Halt Spin\<close>; \<open>pbuf_free\<close> gives back an object in each round and is total.

  The configuration is that of \<open>src/user/lwipopts.h\<close>: alignment 4, pool of 20 buffers of 512
  bytes, 10 buffers without memory of their own, Ethernet without padding, IPv4, fragmentation and
  with it custom pbufs. \<open>LWIP_ASSERT\<close> prints and goes on, \<open>LWIP_ERROR\<close> runs its handler.
\<close>

section \<open>Objects\<close>

datatype pbuf_layer = PBUF_TRANSPORT | PBUF_IP | PBUF_LINK | PBUF_RAW_TX | PBUF_RAW

datatype pbuf_type = PBUF_RAM | PBUF_ROM | PBUF_REF | PBUF_POOL

text \<open>
  \<open>area\<close> is the memory that follows the structure (RAM and POOL) or the memory it refers to (ROM
  and REF, empty until the owner sets it); \<open>payload\<close> is the distance of the payload pointer from
  its start. Of the flags only that of a custom pbuf matters here.
\<close>

record pbuf =
  pb_next :: "nat option"
  payload :: nat
  area :: "u8 list"
  tot_len :: u16
  len :: u16
  pb_type :: pbuf_type
  custom :: bool
  ref :: u16

type_synonym pbuf_store = "pbuf option list"

definition deref :: "pbuf_store \<Rightarrow> nat option \<Rightarrow> pbuf outcome" where
  "deref S p =
     (case p of None \<Rightarrow> Halt NullDeref
      | Some n \<Rightarrow>
          if n < length S then (case S ! n of None \<Rightarrow> Halt Freed | Some q \<Rightarrow> Ok q) else Halt Freed)"

definition set_pbuf :: "pbuf_store \<Rightarrow> nat option \<Rightarrow> pbuf \<Rightarrow> pbuf_store" where
  "set_pbuf S p q = (case p of None \<Rightarrow> S | Some n \<Rightarrow> S[n := Some q])"

text \<open>The memory behind the payload pointer, from the offset \<open>off\<close> on.\<close>

definition read_pbuf :: "pbuf \<Rightarrow> nat \<Rightarrow> nat \<Rightarrow> u8 list outcome" where
  "read_pbuf q off n =
     (if payload q + off + n \<le> length (area q) then Ok (take n (drop (payload q + off) (area q)))
      else Halt Overrun)"

definition write_pbuf :: "pbuf \<Rightarrow> nat \<Rightarrow> u8 list \<Rightarrow> nat \<Rightarrow> nat \<Rightarrow> pbuf outcome" where
  "write_pbuf q off src s n =
     bind_outcome (memcpy (area q) (payload q + off) src s n) (\<lambda>m. Ok (q\<lparr>area := m\<rparr>))"

definition loop_result :: "'a outcome option \<Rightarrow> 'a outcome" where
  "loop_result m = (case m of None \<Rightarrow> Halt Spin | Some r \<Rightarrow> r)"

section \<open>Giving back\<close>

definition live_count :: "pbuf_store \<Rightarrow> nat" where
  "live_count S = length (filter (\<lambda>x. x \<noteq> None) S)"

lemma live_count_release: "n < length S \<Longrightarrow> S ! n = Some q \<Longrightarrow> live_count (S[n := None]) < live_count S"
proof (induction S arbitrary: n)
  case (Cons x S)
  then show ?case by (cases n) (simp_all add: live_count_def)
qed simp

function free_loop :: "pbuf_store \<Rightarrow> nat option \<Rightarrow> u8 \<Rightarrow> (u8 \<times> pbuf_store) outcome" where
  "free_loop S None count = Ok (count, S)"
| "free_loop S (Some n) count =
     (if n < length S then
        (case S ! n of None \<Rightarrow> Halt Freed
         | Some q \<Rightarrow>
             if ref q - 1 = 0 then free_loop (S[n := None]) (pb_next q) (count + 1)
             else Ok (count, S[n := Some (q\<lparr>ref := ref q - 1\<rparr>)]))
      else Halt Freed)"
  by pat_completeness auto
termination
  by (relation "measure (\<lambda>(S, p, count). live_count S)") (simp_all add: live_count_release)

text \<open>
  A custom pbuf is given back by the function of its owner, the others to the pool they came
  from or to the heap; the object is gone in either case.
\<close>

definition pbuf_free :: "pbuf_store \<Rightarrow> nat option \<Rightarrow> (u8 \<times> pbuf_store) outcome" where
  "pbuf_free S p = free_loop S p 0"

definition pbuf_ref :: "pbuf_store \<Rightarrow> nat option \<Rightarrow> pbuf_store outcome" where
  "pbuf_ref S p =
     (if p = None then Ok S
      else bind_outcome (deref S p) (\<lambda>q. Ok (set_pbuf S p (q\<lparr>ref := ref q + 1\<rparr>))))"

section \<open>Allocation\<close>

definition LWIP_MEM_ALIGN_SIZE :: "nat \<Rightarrow> nat" where
  "LWIP_MEM_ALIGN_SIZE n = (n + 3) div 4 * 4"

definition SIZEOF_STRUCT_PBUF :: nat where
  "SIZEOF_STRUCT_PBUF = LWIP_MEM_ALIGN_SIZE 16"

definition PBUF_POOL_SIZE :: nat where
  "PBUF_POOL_SIZE = 20"

definition PBUF_POOL_BUFSIZE_ALIGNED :: nat where
  "PBUF_POOL_BUFSIZE_ALIGNED = LWIP_MEM_ALIGN_SIZE 512"

definition MEMP_NUM_PBUF :: nat where
  "MEMP_NUM_PBUF = 10"

fun layer_offset :: "pbuf_layer \<Rightarrow> nat" where
  "layer_offset PBUF_TRANSPORT = 0 + 14 + 20 + 20"
| "layer_offset PBUF_IP = 0 + 14 + 20"
| "layer_offset PBUF_LINK = 0 + 14"
| "layer_offset PBUF_RAW_TX = 0"
| "layer_offset PBUF_RAW = 0"

text \<open>
  The allocators: a pool gives out an element while fewer than its number are in use; whether the
  heap has room for a block, and what a new block holds, is up to the environment.
\<close>

record mem_env =
  heap_room :: "pbuf_store \<Rightarrow> u16 \<Rightarrow> bool"
  old_bytes :: "nat \<Rightarrow> nat \<Rightarrow> u8"

definition in_use :: "pbuf_type set \<Rightarrow> pbuf_store \<Rightarrow> nat" where
  "in_use ts S = length (filter (\<lambda>x. case x of None \<Rightarrow> False | Some q \<Rightarrow> pb_type q \<in> ts \<and> \<not> custom q) S)"

definition memp_malloc_pool :: "pbuf_store \<Rightarrow> bool" where
  "memp_malloc_pool S = (in_use {PBUF_POOL} S < PBUF_POOL_SIZE)"

definition memp_malloc_pbuf :: "pbuf_store \<Rightarrow> bool" where
  "memp_malloc_pbuf S = (in_use {PBUF_ROM, PBUF_REF} S < MEMP_NUM_PBUF)"

definition new_area :: "mem_env \<Rightarrow> pbuf_store \<Rightarrow> nat \<Rightarrow> u8 list" where
  "new_area E S n = map (old_bytes E (length S)) [0..<n]"

text \<open>
  The rest of a chain from the pool: \<open>p\<close> is its head, \<open>r\<close> its last buffer so far. When the pool
  is empty the whole chain is given back. (The flags of the head are set at the very end; memory
  of the pool never holds the flag of a custom pbuf.)
\<close>

function pool_tail ::
  "mem_env \<Rightarrow> pbuf_store \<Rightarrow> nat \<Rightarrow> nat \<Rightarrow> nat \<Rightarrow> (nat option \<times> pbuf_store) outcome" where
  "pool_tail E S p r rem_len =
     (if rem_len = 0 then Ok (Some p, S)
      else if \<not> memp_malloc_pool S then bind_outcome (pbuf_free S (Some p)) (\<lambda>(count, S). Ok (None, S))
      else
        let n = min (unat (word_of_nat rem_len :: u16)) PBUF_POOL_BUFSIZE_ALIGNED;
            q = \<lparr>pb_next = None, payload = 0, area = new_area E S PBUF_POOL_BUFSIZE_ALIGNED,
                 tot_len = word_of_nat rem_len, len = word_of_nat n, pb_type = PBUF_POOL,
                 custom = False, ref = 1\<rparr> in
        if n = 0 then Halt Spin
        else bind_outcome (deref S (Some r)) (\<lambda>rq.
          pool_tail E (set_pbuf S (Some r) (rq\<lparr>pb_next := Some (length S)\<rparr>) @ [Some q]) p (length S) (rem_len - n)))"
  by pat_completeness auto
termination
  by (relation "measure (\<lambda>(E, S, p, r, rem_len). rem_len)") auto

definition pbuf_alloc ::
  "mem_env \<Rightarrow> pbuf_store \<Rightarrow> pbuf_layer \<Rightarrow> u16 \<Rightarrow> pbuf_type \<Rightarrow> (nat option \<times> pbuf_store) outcome" where
  "pbuf_alloc E S layer length_arg type =
     (let offset = layer_offset layer;
          fresh = \<lparr>pb_next = None, payload = LWIP_MEM_ALIGN_SIZE (SIZEOF_STRUCT_PBUF + offset) - SIZEOF_STRUCT_PBUF,
                   area = [], tot_len = length_arg, len = length_arg, pb_type = type, custom = False, ref = 1\<rparr> in
      case type of
        PBUF_POOL \<Rightarrow>
          if \<not> memp_malloc_pool S then Ok (None, S)
          else
            let n = min (unat length_arg) (PBUF_POOL_BUFSIZE_ALIGNED - LWIP_MEM_ALIGN_SIZE offset) in
            pool_tail E (S @ [Some (fresh\<lparr>area := new_area E S PBUF_POOL_BUFSIZE_ALIGNED, len := word_of_nat n\<rparr>)])
              (length S) (length S) (unat length_arg - n)
      | PBUF_RAM \<Rightarrow>
          let alloc_len = word_of_nat (LWIP_MEM_ALIGN_SIZE (SIZEOF_STRUCT_PBUF + offset) +
                                       LWIP_MEM_ALIGN_SIZE (unat length_arg)) :: u16 in
          if unat alloc_len < LWIP_MEM_ALIGN_SIZE (unat length_arg) then Ok (None, S)
          else if \<not> heap_room E S alloc_len then Ok (None, S)
          else Ok (Some (length S), S @ [Some (fresh\<lparr>area := new_area E S (unat alloc_len - SIZEOF_STRUCT_PBUF)\<rparr>)])
      | _ \<Rightarrow>
          if \<not> memp_malloc_pbuf S then Ok (None, S)
          else Ok (Some (length S), S @ [Some (fresh\<lparr>payload := 0\<rparr>)]))"

text \<open>A custom pbuf around memory of its owner; \<open>None\<close> is a payload to be set later.\<close>

definition pbuf_alloced_custom ::
  "pbuf_store \<Rightarrow> pbuf_layer \<Rightarrow> u16 \<Rightarrow> pbuf_type \<Rightarrow> u8 list option \<Rightarrow> u16 \<Rightarrow> nat option \<times> pbuf_store" where
  "pbuf_alloced_custom S l length_arg type payload_mem payload_mem_len =
     (if LWIP_MEM_ALIGN_SIZE (layer_offset l) + unat length_arg > unat payload_mem_len then (None, S)
      else (Some (length S), S @ [Some \<lparr>pb_next = None,
        payload = (case payload_mem of None \<Rightarrow> 0 | Some m \<Rightarrow> LWIP_MEM_ALIGN_SIZE (layer_offset l)),
        area = (case payload_mem of None \<Rightarrow> [] | Some m \<Rightarrow> m),
        tot_len = length_arg, len = length_arg, pb_type = type, custom = True, ref = 1\<rparr>]))"

section \<open>Chains\<close>

partial_function (option) clen_loop :: "pbuf_store \<Rightarrow> nat option \<Rightarrow> u16 \<Rightarrow> u16 outcome option" where
  "clen_loop S p n =
     (if p = None then Some (Ok n)
      else case deref S p of Halt h \<Rightarrow> Some (Halt h) | Ok q \<Rightarrow> clen_loop S (pb_next q) (n + 1))"

definition pbuf_clen :: "pbuf_store \<Rightarrow> nat option \<Rightarrow> u16 outcome" where
  "pbuf_clen S p = loop_result (clen_loop S p 0)"

text \<open>The total of the tail is read again in each round.\<close>

partial_function (option) cat_loop :: "pbuf_store \<Rightarrow> nat option \<Rightarrow> nat option \<Rightarrow> pbuf_store outcome option" where
  "cat_loop S p t =
     (case deref S p of Halt h \<Rightarrow> Some (Halt h)
      | Ok q \<Rightarrow>
          (case deref S t of Halt h \<Rightarrow> Some (Halt h)
           | Ok tq \<Rightarrow>
               if pb_next q \<noteq> None then
                 cat_loop (set_pbuf S p (q\<lparr>tot_len := tot_len q + tot_len tq\<rparr>)) (pb_next q) t
               else Some (Ok (set_pbuf S p (q\<lparr>tot_len := tot_len q + tot_len tq, pb_next := t\<rparr>)))))"

definition pbuf_cat :: "pbuf_store \<Rightarrow> nat option \<Rightarrow> nat option \<Rightarrow> pbuf_store outcome" where
  "pbuf_cat S h t = (if h \<noteq> None \<and> t \<noteq> None then loop_result (cat_loop S h t) else Ok S)"

definition pbuf_chain :: "pbuf_store \<Rightarrow> nat option \<Rightarrow> nat option \<Rightarrow> pbuf_store outcome" where
  "pbuf_chain S h t = bind_outcome (pbuf_cat S h t) (\<lambda>S. pbuf_ref S t)"

definition pbuf_dechain :: "pbuf_store \<Rightarrow> nat option \<Rightarrow> (nat option \<times> pbuf_store) outcome" where
  "pbuf_dechain S p =
     bind_outcome (deref S p) (\<lambda>pq.
       let q = pb_next pq in
       if q \<noteq> None then
         bind_outcome (deref S q) (\<lambda>qq.
         let S = set_pbuf S q (qq\<lparr>tot_len := tot_len pq - len pq\<rparr>) in
         bind_outcome (deref S p) (\<lambda>pq.
         let S = set_pbuf S p (pq\<lparr>pb_next := None, tot_len := len pq\<rparr>) in
         bind_outcome (pbuf_free S q) (\<lambda>(tail_gone, S).
           Ok (if tail_gone > 0 then None else q, S))))
       else Ok (None, S))"

partial_function (option) realloc_loop ::
  "pbuf_store \<Rightarrow> nat option \<Rightarrow> u16 \<Rightarrow> u16 \<Rightarrow> (nat option \<times> u16 \<times> pbuf_store) outcome option" where
  "realloc_loop S q rem_len grow =
     (case deref S q of Halt h \<Rightarrow> Some (Halt h)
      | Ok qq \<Rightarrow>
          if rem_len > len qq then
            realloc_loop (set_pbuf S q (qq\<lparr>tot_len := tot_len qq + grow\<rparr>)) (pb_next qq) (rem_len - len qq) grow
          else Some (Ok (q, rem_len, S)))"

text \<open>
  Behind a trimmed block the memory belongs to the heap again, so the buffer keeps only what it
  asked for.
\<close>

definition pbuf_realloc :: "pbuf_store \<Rightarrow> nat option \<Rightarrow> u16 \<Rightarrow> pbuf_store outcome" where
  "pbuf_realloc S p new_len =
     bind_outcome (deref S p) (\<lambda>pq.
       if new_len \<ge> tot_len pq then Ok S
       else
         bind_outcome (loop_result (realloc_loop S p new_len (new_len - tot_len pq))) (\<lambda>(q, rem_len, S).
         bind_outcome (deref S q) (\<lambda>qq.
           let trimmed = (if pb_type qq = PBUF_RAM \<and> rem_len \<noteq> len qq \<and> \<not> custom qq
                          then qq\<lparr>area := take (payload qq + unat rem_len) (area qq)\<rparr> else qq);
               S = set_pbuf S q (trimmed\<lparr>len := rem_len, tot_len := rem_len\<rparr>) in
           bind_outcome (if pb_next qq \<noteq> None then pbuf_free S (pb_next qq) else Ok (0, S)) (\<lambda>(count, S).
           bind_outcome (deref S q) (\<lambda>qq. Ok (set_pbuf S q (qq\<lparr>pb_next := None\<rparr>)))))))"

section \<open>Headers\<close>

text \<open>
  The increment is a signed 16-bit number. Memory in front of a ROM or REF payload is reached
  only when forced; in front of the memory it refers to there is nothing.
\<close>

definition pbuf_header_impl :: "pbuf_store \<Rightarrow> nat option \<Rightarrow> u16 \<Rightarrow> bool \<Rightarrow> (u8 \<times> pbuf_store) outcome" where
  "pbuf_header_impl S p inc force =
     (if sint inc = 0 \<or> p = None then Ok (0, S)
      else bind_outcome (deref S p) (\<lambda>q.
        let magnitude = (if sint inc < 0 then - inc else inc);
            moved = q\<lparr>payload := nat (int (payload q) - sint inc), len := len q + inc, tot_len := tot_len q + inc\<rparr> in
        if sint inc < 0 \<and> magnitude > len q then Ok (1, S)
        else if pb_type q = PBUF_RAM \<or> pb_type q = PBUF_POOL then
          if int (payload q) - sint inc < 0 then Ok (1, S) else Ok (0, set_pbuf S p moved)
        else if sint inc < 0 \<and> magnitude \<le> len q then Ok (0, set_pbuf S p moved)
        else if sint inc > 0 \<and> force then
          if int (payload q) - sint inc < 0 then Halt Overrun else Ok (0, set_pbuf S p moved)
        else Ok (1, S)))"

definition pbuf_header :: "pbuf_store \<Rightarrow> nat option \<Rightarrow> u16 \<Rightarrow> (u8 \<times> pbuf_store) outcome" where
  "pbuf_header S p inc = pbuf_header_impl S p inc False"

definition pbuf_header_force :: "pbuf_store \<Rightarrow> nat option \<Rightarrow> u16 \<Rightarrow> (u8 \<times> pbuf_store) outcome" where
  "pbuf_header_force S p inc = pbuf_header_impl S p inc True"

section \<open>Copying\<close>

text \<open>Memory that a caller hands in is a list of bytes, and so never NULL.\<close>

text \<open>One round of \<open>pbuf_copy\<close>; a result of the whole function is the last component.\<close>

definition queue_head :: "pbuf_store \<Rightarrow> nat option \<Rightarrow> bool outcome" where
  "queue_head S p =
     (if p = None then Ok False
      else bind_outcome (deref S p) (\<lambda>q. Ok (len q = tot_len q \<and> pb_next q \<noteq> None)))"

definition copy_round ::
  "pbuf_store \<Rightarrow> nat option \<Rightarrow> nat option \<Rightarrow> u16 \<Rightarrow> u16 \<Rightarrow>
   (pbuf_store \<times> nat option \<times> nat option \<times> u16 \<times> u16 \<times> err_t option) outcome" where
  "copy_round S p_to p_from offset_to offset_from =
     bind_outcome (deref S p_to) (\<lambda>tq.
     bind_outcome (deref S p_from) (\<lambda>fq.
       let n = (if uint (len tq) - uint offset_to \<ge> uint (len fq) - uint offset_from
                then len fq - offset_from else len tq - offset_to) in
       bind_outcome (read_pbuf fq (unat offset_from) (unat n)) (\<lambda>data.
       bind_outcome (write_pbuf tq (unat offset_to) data 0 (unat n)) (\<lambda>tq'.
         let S = set_pbuf S p_to tq';
             offset_to = offset_to + n;
             offset_from = offset_from + n;
             (p_from, offset_from) = (if offset_from \<ge> len fq then (pb_next fq, 0) else (p_from, offset_from));
             at_end = (offset_to = len tq);
             (p_to, offset_to) = (if at_end then (pb_next tq, 0) else (p_to, offset_to)) in
         if at_end \<and> p_to = None \<and> p_from \<noteq> None
         then Ok (S, p_to, p_from, offset_to, offset_from, Some ERR_ARG)
         else
           bind_outcome (queue_head S p_from) (\<lambda>fb.
             if fb then Ok (S, p_to, p_from, offset_to, offset_from, Some ERR_VAL)
             else bind_outcome (queue_head S p_to) (\<lambda>tb.
               Ok (S, p_to, p_from, offset_to, offset_from, if tb then Some ERR_VAL else None)))))))"

partial_function (option) copy_loop ::
  "pbuf_store \<Rightarrow> nat option \<Rightarrow> nat option \<Rightarrow> u16 \<Rightarrow> u16 \<Rightarrow> (err_t \<times> pbuf_store) outcome option" where
  "copy_loop S p_to p_from offset_to offset_from =
     (case copy_round S p_to p_from offset_to offset_from of
        Halt h \<Rightarrow> Some (Halt h)
      | Ok (S, p_to, p_from, offset_to, offset_from, result) \<Rightarrow>
          (case result of Some e \<Rightarrow> Some (Ok (e, S))
           | None \<Rightarrow>
               if p_from \<noteq> None then copy_loop S p_to p_from offset_to offset_from
               else Some (Ok (ERR_OK, S))))"

definition pbuf_copy :: "pbuf_store \<Rightarrow> nat option \<Rightarrow> nat option \<Rightarrow> (err_t \<times> pbuf_store) outcome" where
  "pbuf_copy S p_to p_from =
     (if p_to = None \<or> p_from = None then Ok (ERR_ARG, S)
      else
        bind_outcome (deref S p_to) (\<lambda>tq. bind_outcome (deref S p_from) (\<lambda>fq.
          if tot_len tq \<ge> tot_len fq then loop_result (copy_loop S p_to p_from 0 0) else Ok (ERR_ARG, S))))"

text \<open>\<open>pbuf_copy_partial\<close>: the bytes stored from \<open>dataptr\<close> on are a result.\<close>

partial_function (option) partial_loop ::
  "pbuf_store \<Rightarrow> nat option \<Rightarrow> u16 \<Rightarrow> u16 \<Rightarrow> u16 \<Rightarrow> u8 list \<Rightarrow> (u16 \<times> u8 list) outcome option" where
  "partial_loop S p n offset copied_total data =
     (if n = 0 \<or> p = None then Some (Ok (copied_total, data))
      else case deref S p of Halt h \<Rightarrow> Some (Halt h)
      | Ok q \<Rightarrow>
          if offset \<noteq> 0 \<and> offset \<ge> len q then
            partial_loop S (pb_next q) n (offset - len q) copied_total data
          else
            let buf_copy_len = (if len q - offset > n then n else len q - offset) in
            (case read_pbuf q (unat offset) (unat buf_copy_len) of Halt h \<Rightarrow> Some (Halt h)
             | Ok bs \<Rightarrow>
                 partial_loop S (pb_next q) (n - buf_copy_len) 0 (copied_total + buf_copy_len) (data @ bs)))"

definition pbuf_copy_partial :: "pbuf_store \<Rightarrow> nat option \<Rightarrow> u16 \<Rightarrow> u16 \<Rightarrow> (u16 \<times> u8 list) outcome" where
  "pbuf_copy_partial S p n offset =
     (if p = None then Ok (0, []) else loop_result (partial_loop S p n offset 0 []))"

partial_function (option) skip_loop ::
  "pbuf_store \<Rightarrow> nat option \<Rightarrow> u16 \<Rightarrow> (nat option \<times> u16) outcome option" where
  "skip_loop S q offset_left =
     (if q = None then Some (Ok (q, offset_left))
      else case deref S q of Halt h \<Rightarrow> Some (Halt h)
      | Ok qq \<Rightarrow>
          if len qq \<le> offset_left then skip_loop S (pb_next qq) (offset_left - len qq)
          else Some (Ok (q, offset_left)))"

definition pbuf_skip :: "pbuf_store \<Rightarrow> nat option \<Rightarrow> u16 \<Rightarrow> (nat option \<times> u16) outcome" where
  "pbuf_skip S p in_offset = loop_result (skip_loop S p in_offset)"

partial_function (option) pbuf_take_loop ::
  "pbuf_store \<Rightarrow> nat option \<Rightarrow> u8 list \<Rightarrow> u16 \<Rightarrow> u16 \<Rightarrow> pbuf_store outcome option" where
  "pbuf_take_loop S p data total_copy_len copied_total =
     (if total_copy_len = 0 then Some (Ok S)
      else case deref S p of Halt h \<Rightarrow> Some (Halt h)
      | Ok q \<Rightarrow>
          let buf_copy_len = (if total_copy_len > len q then len q else total_copy_len) in
          (case write_pbuf q 0 data (unat copied_total) (unat buf_copy_len) of Halt h \<Rightarrow> Some (Halt h)
           | Ok q' \<Rightarrow>
               pbuf_take_loop (set_pbuf S p q') (pb_next q) data (total_copy_len - buf_copy_len)
                 (copied_total + buf_copy_len)))"

definition pbuf_take :: "pbuf_store \<Rightarrow> nat option \<Rightarrow> u8 list \<Rightarrow> u16 \<Rightarrow> (err_t \<times> pbuf_store) outcome" where
  "pbuf_take S p data n =
     (if p = None then Ok (ERR_ARG, S)
      else bind_outcome (deref S p) (\<lambda>q.
        if tot_len q < n then Ok (ERR_MEM, S)
        else bind_outcome (loop_result (pbuf_take_loop S p data n 0)) (\<lambda>S. Ok (ERR_OK, S))))"

definition pbuf_take_at ::
  "pbuf_store \<Rightarrow> nat option \<Rightarrow> u8 list \<Rightarrow> u16 \<Rightarrow> u16 \<Rightarrow> (err_t \<times> pbuf_store) outcome" where
  "pbuf_take_at S p data n offset =
     bind_outcome (pbuf_skip S p offset) (\<lambda>(q, target_offset).
       if q = None then Ok (ERR_MEM, S)
       else bind_outcome (deref S q) (\<lambda>qq.
         if unat (tot_len qq) \<ge> unat target_offset + unat n then
           let first_copy_len = min (len qq - target_offset) n in
           bind_outcome (write_pbuf qq (unat target_offset) data 0 (unat first_copy_len)) (\<lambda>qq'.
             let S = set_pbuf S q qq' in
             if n - first_copy_len > 0
             then pbuf_take S (pb_next qq) (drop (unat first_copy_len) data) (n - first_copy_len)
             else Ok (ERR_OK, S))
         else Ok (ERR_MEM, S)))"

definition pbuf_coalesce ::
  "mem_env \<Rightarrow> pbuf_store \<Rightarrow> nat option \<Rightarrow> pbuf_layer \<Rightarrow> (nat option \<times> pbuf_store) outcome" where
  "pbuf_coalesce E S p layer =
     bind_outcome (deref S p) (\<lambda>pq.
       if pb_next pq = None then Ok (p, S)
       else bind_outcome (pbuf_alloc E S layer (tot_len pq) PBUF_RAM) (\<lambda>(q, S).
         if q = None then Ok (p, S)
         else bind_outcome (pbuf_copy S q p) (\<lambda>(err, S).
           bind_outcome (pbuf_free S p) (\<lambda>(count, S). Ok (q, S)))))"

section \<open>Bytes\<close>

text \<open>\<open>-1\<close> is the result behind the end.\<close>

definition pbuf_try_get_at :: "pbuf_store \<Rightarrow> nat option \<Rightarrow> u16 \<Rightarrow> int outcome" where
  "pbuf_try_get_at S p offset =
     bind_outcome (pbuf_skip S p offset) (\<lambda>(q, q_idx).
       if q = None then Ok (- 1)
       else bind_outcome (deref S q) (\<lambda>qq.
         if len qq > q_idx then bind_outcome (read_pbuf qq (unat q_idx) 1) (\<lambda>bs. Ok (uint (hd bs)))
         else Ok (- 1)))"

definition pbuf_get_at :: "pbuf_store \<Rightarrow> nat option \<Rightarrow> u16 \<Rightarrow> u8 outcome" where
  "pbuf_get_at S p offset =
     bind_outcome (pbuf_try_get_at S p offset) (\<lambda>ret. Ok (if ret \<ge> 0 then word_of_int ret else 0))"

definition pbuf_put_at :: "pbuf_store \<Rightarrow> nat option \<Rightarrow> u16 \<Rightarrow> u8 \<Rightarrow> pbuf_store outcome" where
  "pbuf_put_at S p offset data =
     bind_outcome (pbuf_skip S p offset) (\<lambda>(q, q_idx).
       if q = None then Ok S
       else bind_outcome (deref S q) (\<lambda>qq.
         if len qq > q_idx then
           bind_outcome (write_pbuf qq (unat q_idx) [data] 0 1) (\<lambda>qq. Ok (set_pbuf S q qq))
         else Ok S))"

text \<open>The comparison of \<open>n\<close> more bytes, from the index \<open>i\<close> on.\<close>

fun memcmp_loop :: "pbuf_store \<Rightarrow> nat option \<Rightarrow> u16 \<Rightarrow> u16 \<Rightarrow> nat \<Rightarrow> u8 list \<Rightarrow> u16 outcome" where
  "memcmp_loop S q start i 0 s2 = Ok 0"
| "memcmp_loop S q start i (Suc n) [] = bind_outcome (pbuf_get_at S q (start + i)) (\<lambda>a. Halt Overrun)"
| "memcmp_loop S q start i (Suc n) (b # s2) =
     bind_outcome (pbuf_get_at S q (start + i)) (\<lambda>a.
       if a \<noteq> b then Ok (i + 1) else memcmp_loop S q start (i + 1) n s2)"

definition pbuf_memcmp :: "pbuf_store \<Rightarrow> nat option \<Rightarrow> u16 \<Rightarrow> u8 list \<Rightarrow> u16 \<Rightarrow> u16 outcome" where
  "pbuf_memcmp S p offset s2 n =
     bind_outcome (deref S p) (\<lambda>pq.
       if unat (tot_len pq) < unat offset + unat n then Ok 0xffff
       else bind_outcome (pbuf_skip S p offset) (\<lambda>(q, start). memcmp_loop S q start 0 (unat n) s2))"

partial_function (option) memfind_loop ::
  "pbuf_store \<Rightarrow> nat option \<Rightarrow> u8 list \<Rightarrow> u16 \<Rightarrow> u16 \<Rightarrow> u16 \<Rightarrow> u16 outcome option" where
  "memfind_loop S p mem mem_len i max_i =
     (if i \<le> max_i then
        (case pbuf_memcmp S p i mem mem_len of Halt h \<Rightarrow> Some (Halt h)
         | Ok d \<Rightarrow> if d = 0 then Some (Ok i) else memfind_loop S p mem mem_len (i + 1) max_i)
      else Some (Ok 0xffff))"

definition pbuf_memfind :: "pbuf_store \<Rightarrow> nat option \<Rightarrow> u8 list \<Rightarrow> u16 \<Rightarrow> u16 \<Rightarrow> u16 outcome" where
  "pbuf_memfind S p mem mem_len start_offset =
     bind_outcome (deref S p) (\<lambda>pq.
       if unat (tot_len pq) \<ge> unat mem_len + unat start_offset
       then loop_result (memfind_loop S p mem mem_len start_offset (tot_len pq - mem_len))
       else Ok 0xffff)"

text \<open>The string is given without its terminating zero.\<close>

definition pbuf_strstr :: "pbuf_store \<Rightarrow> nat option \<Rightarrow> u8 list option \<Rightarrow> u16 outcome" where
  "pbuf_strstr S p substr =
     (case substr of None \<Rightarrow> Ok 0xffff
      | Some s \<Rightarrow>
          if s = [] then Ok 0xffff
          else bind_outcome (deref S p) (\<lambda>pq.
            if tot_len pq = 0xffff \<or> length s \<ge> 0xffff then Ok 0xffff
            else pbuf_memfind S p s (word_of_nat (length s)) 0))"

end
