(* ===== verification/LwipIp.thy ===== *)
theory LwipIp
  imports LwipPbuf
begin

text \<open>
  The output side of IPv4 in lwIP (\<open>src/lwip-2.0.3/src/core/ipv4/ip4.c\<close>): the interfaces, the
  broadcast test of \<open>ip4_addr.c\<close>, the choice of an interface for a destination and the header in
  front of a packet. Addresses are 32-bit words as the little-endian processor holds them, their
  bytes in network order; 16-bit fields of headers are stored with the high byte first.

  The configuration is that of \<open>src/user/lwipopts.h\<close> over \<open>opt.h\<close>: IPv4 only, no options, no
  loopback, no forwarding, checksums by hardware (\<open>CHECKSUM_GEN_IP\<close> 0: the field is 0), with
  fragmentation. What lies below is an argument, \<open>net_env\<close>: the output function of an interface and
  \<open>ip4_frag\<close> are handed the packet and may change the buffers; the call and the bytes of the packet
  are appended to the trace \<open>events\<close>. The other modules a received packet goes to, TCP, ICMP and the
  reassembly, are functions of \<open>net_env\<close> as well.
\<close>

unbundle bit_operations_syntax

section \<open>Bytes in network order\<close>

definition be16_bytes :: "u16 \<Rightarrow> u8 list" where
  "be16_bytes x = [ucast (drop_bit 8 x), ucast x]"

definition be16_at :: "u8 list \<Rightarrow> nat \<Rightarrow> u16" where
  "be16_at bs i = push_bit 8 (ucast (bs ! i)) OR ucast (bs ! (i + 1))"

definition addr_bytes :: "u32 \<Rightarrow> u8 list" where
  "addr_bytes a = [ucast a, ucast (drop_bit 8 a), ucast (drop_bit 16 a), ucast (drop_bit 24 a)]"

definition addr_at :: "u8 list \<Rightarrow> nat \<Rightarrow> u32" where
  "addr_at bs i = ucast (bs ! i) OR push_bit 8 (ucast (bs ! (i + 1))) OR
     push_bit 16 (ucast (bs ! (i + 2))) OR push_bit 24 (ucast (bs ! (i + 3)))"

section \<open>Interfaces and addresses\<close>

text \<open>\<open>netif_num\<close> tells the interfaces apart, as their addresses in memory do.\<close>

record netif =
  netif_num :: nat
  netif_ip_addr :: u32
  netif_netmask :: u32
  netif_gw :: u32
  netif_mtu :: u16
  netif_flags :: u8

definition netif_is_up :: "netif \<Rightarrow> bool" where
  "netif_is_up n \<longleftrightarrow> netif_flags n AND 0x01 \<noteq> 0"

definition netif_is_link_up :: "netif \<Rightarrow> bool" where
  "netif_is_link_up n \<longleftrightarrow> netif_flags n AND 0x04 \<noteq> 0"

definition ip4_addr_netcmp :: "u32 \<Rightarrow> u32 \<Rightarrow> u32 \<Rightarrow> bool" where
  "ip4_addr_netcmp addr1 addr2 mask_arg \<longleftrightarrow> addr1 AND mask_arg = addr2 AND mask_arg"

definition ip4_addr_ismulticast :: "u32 \<Rightarrow> bool" where
  "ip4_addr_ismulticast addr \<longleftrightarrow> addr AND 0xf0 = 0xe0"

definition ip4_addr_isloopback :: "u32 \<Rightarrow> bool" where
  "ip4_addr_isloopback addr \<longleftrightarrow> addr AND 0xff = 127"

definition ip4_addr_isbroadcast_u32 :: "u32 \<Rightarrow> netif \<Rightarrow> bool" where
  "ip4_addr_isbroadcast_u32 addr n =
     (if NOT addr = 0 \<or> addr = 0 then True
      else if netif_flags n AND 0x02 = 0 then False
      else if addr = netif_ip_addr n then False
      else if ip4_addr_netcmp addr (netif_ip_addr n) (netif_netmask n) \<and>
              addr AND NOT (netif_netmask n) = 0xffffffff AND NOT (netif_netmask n) then True
      else False)"

section \<open>The surroundings\<close>

text \<open>
  What is known of the packet that is being received (\<open>ip_data\<close>): the interface it was accepted
  for, the length of its header, its addresses.
\<close>

record ip_globals =
  current_netif :: netif
  current_ip_header_tot_len :: u16
  current_src :: u32
  current_dest :: u32

record net_env =
  net_mem :: mem_env
  netif_list :: "netif list"
  netif_default :: "netif option"
  netif_output :: "netif \<Rightarrow> pbuf_store \<Rightarrow> nat option \<Rightarrow> u32 \<Rightarrow> (err_t \<times> pbuf_store) outcome"
  ip4_frag :: "netif \<Rightarrow> pbuf_store \<Rightarrow> nat option \<Rightarrow> u32 \<Rightarrow> (err_t \<times> pbuf_store) outcome"
  icmp_dest_unreach :: "pbuf_store \<Rightarrow> nat option \<Rightarrow> u8 \<Rightarrow> pbuf_store outcome"
  tcp_input :: "ip_globals \<Rightarrow> netif \<Rightarrow> pbuf_store \<Rightarrow> nat option \<Rightarrow> pbuf_store outcome"
  icmp_input :: "ip_globals \<Rightarrow> netif \<Rightarrow> pbuf_store \<Rightarrow> nat option \<Rightarrow> pbuf_store outcome"
  ip4_reass :: "pbuf_store \<Rightarrow> nat option \<Rightarrow> (nat option \<times> pbuf_store) outcome"
  MEMP_NUM_UDP_PCB :: nat

text \<open>
  \<open>Received fn arg pcb p addr port\<close> is the call of the receive callback \<open>fn\<close>, which owns the packet
  from then on.
\<close>

datatype net_event =
    Sent nat u32 "u8 list"
  | Fragmented nat u32 "u8 list"
  | Received nat "nat option" nat "nat option" u32 u16
  | Unreachable u8 "u8 list"

record ip_state =
  net_pbufs :: pbuf_store
  ip_id :: u16
  events :: "net_event list"

definition packet_bytes :: "pbuf_store \<Rightarrow> nat option \<Rightarrow> u8 list outcome" where
  "packet_bytes S p =
     bind_outcome (deref S p) (\<lambda>q.
     bind_outcome (pbuf_copy_partial S p (tot_len q) 0) (\<lambda>(n, bs). Ok bs))"

section \<open>Routing\<close>

definition usable :: "netif \<Rightarrow> bool" where
  "usable n \<longleftrightarrow> netif_is_up n \<and> netif_is_link_up n \<and> netif_ip_addr n \<noteq> 0"

fun route_loop :: "u32 \<Rightarrow> netif list \<Rightarrow> netif option" where
  "route_loop dest [] = None"
| "route_loop dest (n # ns) =
     (if usable n \<and> ip4_addr_netcmp dest (netif_ip_addr n) (netif_netmask n) then Some n
      else if usable n \<and> netif_flags n AND 0x02 = 0 \<and> dest = netif_gw n then Some n
      else route_loop dest ns)"

definition ip4_route :: "net_env \<Rightarrow> u32 \<Rightarrow> netif option" where
  "ip4_route E dest =
     (case route_loop dest (netif_list E) of
        Some n \<Rightarrow> Some n
      | None \<Rightarrow>
          (case netif_default E of
             None \<Rightarrow> None
           | Some n \<Rightarrow> if usable n then Some n else None))"

section \<open>Output\<close>

definition IP_HLEN :: u16 where
  "IP_HLEN = 20"

definition ip4_header :: "u8 \<Rightarrow> u16 \<Rightarrow> u16 \<Rightarrow> u8 \<Rightarrow> u8 \<Rightarrow> u32 \<Rightarrow> u32 \<Rightarrow> u8 list" where
  "ip4_header tos len_arg id_arg ttl proto src dest =
     [0x45, tos] @ be16_bytes len_arg @ be16_bytes id_arg @ be16_bytes 0 @ [ttl, proto] @ be16_bytes 0 @
     addr_bytes src @ addr_bytes dest"

text \<open>The end of \<open>ip4_output_if_src\<close>, from the test of the length on.\<close>

definition ip4_transmit :: "net_env \<Rightarrow> 'a ip_state_scheme \<Rightarrow> nat option \<Rightarrow> u32 \<Rightarrow> netif \<Rightarrow>
    (err_t \<times> 'a ip_state_scheme) outcome" where
  "ip4_transmit E N p dest n =
     bind_outcome (deref (net_pbufs N) p) (\<lambda>q.
     bind_outcome (packet_bytes (net_pbufs N) p) (\<lambda>bs.
       if netif_mtu n \<noteq> 0 \<and> tot_len q > netif_mtu n then
         bind_outcome (ip4_frag E n (net_pbufs N) p dest) (\<lambda>(err, S).
           Ok (err, N\<lparr>net_pbufs := S, events := events N @ [Fragmented (netif_num n) dest bs]\<rparr>))
       else
         bind_outcome (netif_output E n (net_pbufs N) p dest) (\<lambda>(err, S).
           Ok (err, N\<lparr>net_pbufs := S, events := events N @ [Sent (netif_num n) dest bs]\<rparr>))))"

text \<open>No destination (\<open>LWIP_IP_HDRINCL\<close>) means that the packet starts with its header.\<close>

definition ip4_output_if_src :: "net_env \<Rightarrow> 'a ip_state_scheme \<Rightarrow> nat option \<Rightarrow> u32 option \<Rightarrow> u32 option \<Rightarrow>
    u8 \<Rightarrow> u8 \<Rightarrow> u8 \<Rightarrow> netif \<Rightarrow> (err_t \<times> 'a ip_state_scheme) outcome" where
  "ip4_output_if_src E N p src dest ttl tos proto n =
     (case dest of
        Some d \<Rightarrow>
          bind_outcome (pbuf_header (net_pbufs N) p IP_HLEN) (\<lambda>(r, S).
            if r \<noteq> 0 then Ok (ERR_BUF, N\<lparr>net_pbufs := S\<rparr>)
            else
              bind_outcome (deref S p) (\<lambda>q.
              bind_outcome (write_pbuf q 0 (ip4_header tos (tot_len q) (ip_id N) ttl proto
                  (case src of None \<Rightarrow> 0 | Some s \<Rightarrow> s) d) 0 20) (\<lambda>q.
                ip4_transmit E (N\<lparr>net_pbufs := set_pbuf S p q, ip_id := ip_id N + 1\<rparr>) p d n)))
      | None \<Rightarrow>
          bind_outcome (deref (net_pbufs N) p) (\<lambda>q.
          bind_outcome (read_pbuf q 16 4) (\<lambda>bs.
            ip4_transmit E N p (addr_at bs 0) n)))"

definition ip4_output_if :: "net_env \<Rightarrow> 'a ip_state_scheme \<Rightarrow> nat option \<Rightarrow> u32 option \<Rightarrow> u32 option \<Rightarrow>
    u8 \<Rightarrow> u8 \<Rightarrow> u8 \<Rightarrow> netif \<Rightarrow> (err_t \<times> 'a ip_state_scheme) outcome" where
  "ip4_output_if E N p src dest ttl tos proto n =
     (let src_used = (if dest \<noteq> None \<and> (src = None \<or> src = Some 0) then Some (netif_ip_addr n) else src) in
      ip4_output_if_src E N p src_used dest ttl tos proto n)"

text \<open>The destination of \<open>ip4_output\<close> is looked up and so not \<open>NULL\<close>.\<close>

definition ip4_output :: "net_env \<Rightarrow> 'a ip_state_scheme \<Rightarrow> nat option \<Rightarrow> u32 option \<Rightarrow> u32 \<Rightarrow>
    u8 \<Rightarrow> u8 \<Rightarrow> u8 \<Rightarrow> (err_t \<times> 'a ip_state_scheme) outcome" where
  "ip4_output E N p src dest ttl tos proto =
     (case ip4_route E dest of
        None \<Rightarrow> Ok (ERR_RTE, N)
      | Some n \<Rightarrow> ip4_output_if E N p src (Some dest) ttl tos proto n)"

end
