(* ===== verification/LwipUdp.thy ===== *)
theory LwipUdp
  imports LwipIp
begin

text \<open>
  UDP in lwIP (\<open>src/lwip-2.0.3/src/core/udp.c\<close>), over which the MQTT-SN client talks to its gateway:
  the control blocks and their list, the choice of a local port, binding and connecting,
  demultiplexing of received datagrams and the header in front of sent ones.

  Control blocks live in a store like that of the packet buffers, where an address is never used
  twice and a block that was given back is \<open>None\<close>; they are linked through \<open>pcb_next\<close>, and
  \<open>udp_pcbs\<close> is the head of the list. Loops along the list are partial functions, one that never
  ends being \<open>Halt Spin\<close>. The configuration is IPv4 only, without \<open>SO_REUSE\<close>, UDP-Lite, multicast
  options, broadcast filters and statistics, and with checksums by hardware. Functions and user data
  of callbacks are numbers; \<open>MEMP_NUM_UDP_PCB\<close>, which the configuration sets to 1, is a number of the
  environment.
\<close>

unbundle bit_operations_syntax

section \<open>Control blocks\<close>

record udp_pcb =
  local_ip :: u32
  remote_ip :: u32
  so_options :: u8
  tos :: u8
  ttl :: u8
  pcb_next :: "nat option"
  udp_flags :: u8
  local_port :: u16
  remote_port :: u16
  recv_fn :: "nat option"
  recv_arg :: "nat option"

type_synonym pcb_store = "udp_pcb option list"

record net = ip_state +
  pcb_mem :: pcb_store
  udp_pcbs :: "nat option"
  udp_port :: u16

definition deref_pcb :: "pcb_store \<Rightarrow> nat option \<Rightarrow> udp_pcb outcome" where
  "deref_pcb M p =
     (case p of None \<Rightarrow> Halt NullDeref
      | Some n \<Rightarrow>
          if n < length M then (case M ! n of None \<Rightarrow> Halt Freed | Some b \<Rightarrow> Ok b) else Halt Freed)"

definition set_pcb :: "pcb_store \<Rightarrow> nat option \<Rightarrow> udp_pcb \<Rightarrow> pcb_store" where
  "set_pcb M p b = (case p of None \<Rightarrow> M | Some n \<Rightarrow> M[n := Some b])"

definition UDP_LOCAL_PORT_RANGE_START :: u16 where
  "UDP_LOCAL_PORT_RANGE_START = 0xc000"

definition UDP_LOCAL_PORT_RANGE_END :: u16 where
  "UDP_LOCAL_PORT_RANGE_END = 0xffff"

definition UDP_FLAGS_CONNECTED :: u8 where
  "UDP_FLAGS_CONNECTED = 0x04"

definition UDP_HLEN :: u16 where
  "UDP_HLEN = 8"

text \<open>The state of the module before its first use; \<open>udp_init\<close> does nothing in this configuration.\<close>

definition net_start :: "pbuf_store \<Rightarrow> net" where
  "net_start S = \<lparr>net_pbufs = S, ip_id = 0, events = [], pcb_mem = [], udp_pcbs = None,
     udp_port = UDP_LOCAL_PORT_RANGE_START\<rparr>"

section \<open>The list\<close>

text \<open>
  The search loop of the module: \<open>for (pcb = udp_pcbs; pcb != NULL; pcb = pcb->next)\<close> up to the
  first block with a property.
\<close>

partial_function (option) pcb_loop ::
  "pcb_store \<Rightarrow> (nat \<Rightarrow> udp_pcb \<Rightarrow> bool) \<Rightarrow> nat option \<Rightarrow> nat option outcome option" where
  "pcb_loop M P p =
     (case p of None \<Rightarrow> Some (Ok None)
      | Some n \<Rightarrow>
          (case deref_pcb M p of Halt h \<Rightarrow> Some (Halt h)
           | Ok b \<Rightarrow> if P n b then Some (Ok p) else pcb_loop M P (pcb_next b)))"

definition search_pcbs :: "net \<Rightarrow> (nat \<Rightarrow> udp_pcb \<Rightarrow> bool) \<Rightarrow> nat option outcome" where
  "search_pcbs N P = loop_result (pcb_loop (pcb_mem N) P (udp_pcbs N))"

section \<open>Ports\<close>

definition next_port :: "u16 \<Rightarrow> u16" where
  "next_port port = (if port = UDP_LOCAL_PORT_RANGE_END then UDP_LOCAL_PORT_RANGE_START else port + 1)"

function new_port_loop :: "net \<Rightarrow> u16 \<Rightarrow> (u16 \<times> net) outcome" where
  "new_port_loop N n =
     (let N = N\<lparr>udp_port := next_port (udp_port N)\<rparr> in
      bind_outcome (search_pcbs N (\<lambda>m b. local_port b = udp_port N)) (\<lambda>taken.
        if taken \<noteq> None then
          if unat n + 1 > unat (UDP_LOCAL_PORT_RANGE_END - UDP_LOCAL_PORT_RANGE_START) then Ok (0, N)
          else new_port_loop N (n + 1)
        else Ok (udp_port N, N)))"
  by pat_completeness auto
termination
proof (relation "measure (\<lambda>(N, n). 2 ^ 16 - unat n)")
  fix n :: u16
  assume "\<not> unat (UDP_LOCAL_PORT_RANGE_END - UDP_LOCAL_PORT_RANGE_START) < unat n + 1"
  then have "unat n < 16383" by (simp add: UDP_LOCAL_PORT_RANGE_END_def UDP_LOCAL_PORT_RANGE_START_def)
  then show "((N', n + 1), N, n) \<in> measure (\<lambda>(N, n). 2 ^ 16 - unat n)" for N N' :: net
    by (simp add: unat_add_small)
qed simp

declare new_port_loop.simps [simp del]

definition udp_new_port :: "net \<Rightarrow> (u16 \<times> net) outcome" where
  "udp_new_port N = new_port_loop N 0"

section \<open>Creating, binding, connecting\<close>

definition pcbs_in_use :: "pcb_store \<Rightarrow> nat" where
  "pcbs_in_use M = length (filter (\<lambda>x. x \<noteq> None) M)"

definition udp_new :: "net_env \<Rightarrow> net \<Rightarrow> nat option \<times> net" where
  "udp_new E N =
     (if pcbs_in_use (pcb_mem N) < MEMP_NUM_UDP_PCB E then
        (Some (length (pcb_mem N)), N\<lparr>pcb_mem := pcb_mem N @
           [Some \<lparr>local_ip = 0, remote_ip = 0, so_options = 0, tos = 0, ttl = 255, pcb_next = None,
                  udp_flags = 0, local_port = 0, remote_port = 0, recv_fn = None, recv_arg = None\<rparr>]\<rparr>)
      else (None, N))"

text \<open>The type of address has no meaning with IPv4 alone.\<close>

definition udp_new_ip_type :: "net_env \<Rightarrow> net \<Rightarrow> u8 \<Rightarrow> nat option \<times> net" where
  "udp_new_ip_type E N type = udp_new E N"

definition udp_bind :: "net \<Rightarrow> nat option \<Rightarrow> u32 option \<Rightarrow> u16 \<Rightarrow> (err_t \<times> net) outcome" where
  "udp_bind N pcb ipaddr port =
     (let ipaddr = (case ipaddr of None \<Rightarrow> 0 | Some a \<Rightarrow> a) in
      if pcb = None then Ok (ERR_VAL, N)
      else
        bind_outcome (search_pcbs N (\<lambda>m b. pcb = Some m)) (\<lambda>rebind.
        bind_outcome
          (if port = 0 then
             bind_outcome (udp_new_port N) (\<lambda>(port, N). Ok (if port = 0 then Some ERR_USE else None, port, N))
           else
             bind_outcome (search_pcbs N (\<lambda>m b. pcb \<noteq> Some m \<and> local_port b = port \<and> local_ip b = ipaddr)) (\<lambda>other.
               Ok (if other \<noteq> None then Some ERR_USE else None, port, N)))
          (\<lambda>(err, port, N).
            case err of Some e \<Rightarrow> Ok (e, N)
            | None \<Rightarrow>
                bind_outcome (deref_pcb (pcb_mem N) pcb) (\<lambda>b.
                  let b = b\<lparr>local_ip := ipaddr, local_port := port\<rparr> in
                  if rebind = None then
                    Ok (ERR_OK, N\<lparr>pcb_mem := set_pcb (pcb_mem N) pcb (b\<lparr>pcb_next := udp_pcbs N\<rparr>), udp_pcbs := pcb\<rparr>)
                  else Ok (ERR_OK, N\<lparr>pcb_mem := set_pcb (pcb_mem N) pcb b\<rparr>)))))"

definition udp_connect :: "net \<Rightarrow> nat option \<Rightarrow> u32 option \<Rightarrow> u16 \<Rightarrow> (err_t \<times> net) outcome" where
  "udp_connect N pcb ipaddr port =
     (case ipaddr of None \<Rightarrow> Ok (ERR_VAL, N)
      | Some a \<Rightarrow>
          if pcb = None then Ok (ERR_VAL, N)
          else
            bind_outcome (deref_pcb (pcb_mem N) pcb) (\<lambda>b.
            bind_outcome (if local_port b = 0 then udp_bind N pcb (Some (local_ip b)) (local_port b) else Ok (ERR_OK, N))
              (\<lambda>(err, N).
                if err \<noteq> ERR_OK then Ok (err, N)
                else
                  bind_outcome (deref_pcb (pcb_mem N) pcb) (\<lambda>b.
                    let N = N\<lparr>pcb_mem := set_pcb (pcb_mem N) pcb
                          (b\<lparr>remote_ip := a, remote_port := port, udp_flags := udp_flags b OR UDP_FLAGS_CONNECTED\<rparr>)\<rparr> in
                    bind_outcome (search_pcbs N (\<lambda>m b. pcb = Some m)) (\<lambda>active.
                      if active \<noteq> None then Ok (ERR_OK, N)
                      else
                        bind_outcome (deref_pcb (pcb_mem N) pcb) (\<lambda>b.
                          Ok (ERR_OK, N\<lparr>pcb_mem := set_pcb (pcb_mem N) pcb (b\<lparr>pcb_next := udp_pcbs N\<rparr>),
                                        udp_pcbs := pcb\<rparr>)))))))"

definition udp_disconnect :: "net \<Rightarrow> nat option \<Rightarrow> net outcome" where
  "udp_disconnect N pcb =
     bind_outcome (deref_pcb (pcb_mem N) pcb) (\<lambda>b.
       Ok (N\<lparr>pcb_mem := set_pcb (pcb_mem N) pcb
              (b\<lparr>remote_ip := 0, remote_port := 0, udp_flags := udp_flags b AND NOT UDP_FLAGS_CONNECTED\<rparr>)\<rparr>))"

definition udp_recv :: "net \<Rightarrow> nat option \<Rightarrow> nat option \<Rightarrow> nat option \<Rightarrow> net outcome" where
  "udp_recv N pcb fn arg =
     bind_outcome (deref_pcb (pcb_mem N) pcb) (\<lambda>b.
       Ok (N\<lparr>pcb_mem := set_pcb (pcb_mem N) pcb (b\<lparr>recv_fn := fn, recv_arg := arg\<rparr>)\<rparr>))"

text \<open>\<open>memp_free\<close> of a null pointer does nothing; a block is given back once.\<close>

definition memp_free_pcb :: "net \<Rightarrow> nat option \<Rightarrow> net outcome" where
  "memp_free_pcb N pcb =
     (case pcb of None \<Rightarrow> Ok N
      | Some n \<Rightarrow> bind_outcome (deref_pcb (pcb_mem N) pcb) (\<lambda>b. Ok (N\<lparr>pcb_mem := (pcb_mem N)[n := None]\<rparr>)))"

definition udp_remove :: "net \<Rightarrow> nat option \<Rightarrow> net outcome" where
  "udp_remove N pcb =
     bind_outcome
       (if udp_pcbs N = pcb then
          bind_outcome (deref_pcb (pcb_mem N) (udp_pcbs N)) (\<lambda>b. Ok (N\<lparr>udp_pcbs := pcb_next b\<rparr>))
        else
          bind_outcome (search_pcbs N (\<lambda>m b. pcb_next b \<noteq> None \<and> pcb_next b = pcb)) (\<lambda>pcb2.
            if pcb2 = None then Ok N
            else
              bind_outcome (deref_pcb (pcb_mem N) pcb) (\<lambda>b.
              bind_outcome (deref_pcb (pcb_mem N) pcb2) (\<lambda>b2.
                Ok (N\<lparr>pcb_mem := set_pcb (pcb_mem N) pcb2 (b2\<lparr>pcb_next := pcb_next b\<rparr>)\<rparr>)))))
       (\<lambda>N. memp_free_pcb N pcb)"

partial_function (option) addr_changed_loop ::
  "pcb_store \<Rightarrow> nat option \<Rightarrow> u32 \<Rightarrow> u32 \<Rightarrow> pcb_store outcome option" where
  "addr_changed_loop M p old_addr new_addr =
     (case p of None \<Rightarrow> Some (Ok M)
      | Some n \<Rightarrow>
          (case deref_pcb M p of Halt h \<Rightarrow> Some (Halt h)
           | Ok b \<Rightarrow>
               addr_changed_loop (if local_ip b = old_addr then set_pcb M p (b\<lparr>local_ip := new_addr\<rparr>) else M)
                 (pcb_next b) old_addr new_addr))"

definition udp_netif_ip_addr_changed :: "net \<Rightarrow> u32 option \<Rightarrow> u32 option \<Rightarrow> net outcome" where
  "udp_netif_ip_addr_changed N old_addr new_addr =
     (case (old_addr, new_addr) of
        (Some a, Some a') \<Rightarrow>
          if a \<noteq> 0 \<and> a' \<noteq> 0 then
            bind_outcome (loop_result (addr_changed_loop (pcb_mem N) (udp_pcbs N) a a')) (\<lambda>M. Ok (N\<lparr>pcb_mem := M\<rparr>))
          else Ok N
      | _ \<Rightarrow> Ok N)"

section \<open>Reception\<close>

definition udp_input_local_match :: "ip_globals \<Rightarrow> udp_pcb \<Rightarrow> netif \<Rightarrow> bool \<Rightarrow> bool" where
  "udp_input_local_match G b inp broadcast =
     (if broadcast then
        local_ip b = 0 \<or> current_dest G = 0xffffffff \<or>
        ip4_addr_netcmp (local_ip b) (current_dest G) (netif_netmask inp)
      else local_ip b = 0 \<or> local_ip b = current_dest G)"

definition remote_match :: "ip_globals \<Rightarrow> u16 \<Rightarrow> udp_pcb \<Rightarrow> bool" where
  "remote_match G src b \<longleftrightarrow> remote_port b = src \<and> (remote_ip b = 0 \<or> remote_ip b = current_src G)"

text \<open>
  The loop of \<open>udp_input\<close>, up to the first block that matches fully: that block, the one before it
  in the list, and the first unconnected block that matches locally.
\<close>

partial_function (option) input_loop ::
  "pcb_store \<Rightarrow> (udp_pcb \<Rightarrow> bool) \<Rightarrow> (udp_pcb \<Rightarrow> bool) \<Rightarrow> nat option \<Rightarrow> nat option \<Rightarrow> nat option \<Rightarrow>
   (nat option \<times> nat option \<times> nat option) outcome option" where
  "input_loop M loc_match rem_match pcb prev uncon_pcb =
     (case pcb of None \<Rightarrow> Some (Ok (None, prev, uncon_pcb))
      | Some n \<Rightarrow>
          (case deref_pcb M pcb of Halt h \<Rightarrow> Some (Halt h)
           | Ok b \<Rightarrow>
               let uncon_pcb = (if loc_match b \<and> udp_flags b AND UDP_FLAGS_CONNECTED = 0 \<and> uncon_pcb = None
                                then pcb else uncon_pcb) in
               if loc_match b \<and> rem_match b then Some (Ok (pcb, prev, uncon_pcb))
               else input_loop M loc_match rem_match (pcb_next b) pcb uncon_pcb))"

definition move_to_front :: "net \<Rightarrow> nat option \<Rightarrow> nat option \<Rightarrow> net outcome" where
  "move_to_front N prev pcb =
     bind_outcome (deref_pcb (pcb_mem N) pcb) (\<lambda>b.
     bind_outcome (deref_pcb (pcb_mem N) prev) (\<lambda>pb.
     let M = set_pcb (pcb_mem N) prev (pb\<lparr>pcb_next := pcb_next b\<rparr>) in
     bind_outcome (deref_pcb M pcb) (\<lambda>b.
       Ok (N\<lparr>pcb_mem := set_pcb M pcb (b\<lparr>pcb_next := udp_pcbs N\<rparr>), udp_pcbs := pcb\<rparr>))))"

definition free_packet_of :: "net \<Rightarrow> nat option \<Rightarrow> net outcome" where
  "free_packet_of N p = bind_outcome (pbuf_free (net_pbufs N) p) (\<lambda>(count, S). Ok (N\<lparr>net_pbufs := S\<rparr>))"

definition find_receiver :: "net \<Rightarrow> ip_globals \<Rightarrow> netif \<Rightarrow> bool \<Rightarrow> u16 \<Rightarrow> u16 \<Rightarrow> (nat option \<times> net) outcome" where
  "find_receiver N G inp broadcast src dest =
     bind_outcome (loop_result (input_loop (pcb_mem N)
         (\<lambda>b. local_port b = dest \<and> udp_input_local_match G b inp broadcast) (remote_match G src)
         (udp_pcbs N) None None)) (\<lambda>(pcb, prev, uncon_pcb).
       if pcb = None then Ok (uncon_pcb, N)
       else if prev \<noteq> None then bind_outcome (move_to_front N prev pcb) (\<lambda>N. Ok (pcb, N))
       else Ok (pcb, N))"

text \<open>
  The two halves of \<open>udp_input\<close>: the search for the block, and what is done with the datagram. The
  call of the callback is the last thing that happens.
\<close>

definition udp_deliver :: "net_env \<Rightarrow> net \<Rightarrow> ip_globals \<Rightarrow> nat option \<Rightarrow> netif \<Rightarrow> bool \<Rightarrow> u16 \<Rightarrow> nat option \<Rightarrow>
    net outcome" where
  "udp_deliver E N G p inp broadcast src pcb =
     (if pcb \<noteq> None \<or> netif_ip_addr inp = current_dest G then
        bind_outcome (pbuf_header (net_pbufs N) p (- UDP_HLEN)) (\<lambda>(r, S).
        let N = N\<lparr>net_pbufs := S\<rparr> in
        if r \<noteq> 0 then free_packet_of N p
        else
          (case pcb of
             Some n \<Rightarrow>
               bind_outcome (deref_pcb (pcb_mem N) pcb) (\<lambda>b.
                 (case recv_fn b of
                    Some fn \<Rightarrow> Ok (N\<lparr>events := events N @ [Received fn (recv_arg b) n p (current_src G) src]\<rparr>)
                  | None \<Rightarrow> free_packet_of N p))
           | None \<Rightarrow>
               if \<not> broadcast \<and> \<not> ip4_addr_ismulticast (current_dest G) then
                 bind_outcome (pbuf_header_force (net_pbufs N) p (current_ip_header_tot_len G + UDP_HLEN)) (\<lambda>(r, S).
                 bind_outcome (packet_bytes S p) (\<lambda>bs.
                 bind_outcome (icmp_dest_unreach E S p 3) (\<lambda>S.
                   free_packet_of (N\<lparr>net_pbufs := S, events := events N @ [Unreachable 3 bs]\<rparr>) p)))
               else free_packet_of N p))
      else free_packet_of N p)"

definition udp_input :: "net_env \<Rightarrow> net \<Rightarrow> ip_globals \<Rightarrow> nat option \<Rightarrow> netif \<Rightarrow> net outcome" where
  "udp_input E N G p inp =
     bind_outcome (deref (net_pbufs N) p) (\<lambda>q.
       if len q < UDP_HLEN then free_packet_of N p
       else
         bind_outcome (read_pbuf q 0 4) (\<lambda>udphdr.
         let broadcast = ip4_addr_isbroadcast_u32 (current_dest G) (current_netif G);
             src = be16_at udphdr 0;
             dest = be16_at udphdr 2 in
         bind_outcome (find_receiver N G inp broadcast src dest) (\<lambda>(pcb, N).
           udp_deliver E N G p inp broadcast src pcb)))"

section \<open>Sending\<close>

definition udp_header :: "u16 \<Rightarrow> u16 \<Rightarrow> u16 \<Rightarrow> u8 list" where
  "udp_header src dest len_arg = be16_bytes src @ be16_bytes dest @ be16_bytes len_arg @ be16_bytes 0"

text \<open>
  Room for the header: in front of the packet, or in a packet of its own that is chained in front of
  it. The result is the packet to be sent, \<open>None\<close> without memory.
\<close>

definition header_room :: "net_env \<Rightarrow> net \<Rightarrow> nat option \<Rightarrow> (nat option \<times> net) outcome" where
  "header_room E N p =
     bind_outcome (pbuf_header (net_pbufs N) p UDP_HLEN) (\<lambda>(r, S).
       if r \<noteq> 0 then
         bind_outcome (pbuf_alloc (net_mem E) S PBUF_IP UDP_HLEN PBUF_RAM) (\<lambda>(q, S).
           if q = None then Ok (None, N\<lparr>net_pbufs := S\<rparr>)
           else
             bind_outcome (deref S p) (\<lambda>pq.
             bind_outcome (if tot_len pq \<noteq> 0 then pbuf_chain S q p else Ok S) (\<lambda>S.
               Ok (q, N\<lparr>net_pbufs := S\<rparr>))))
       else Ok (p, N\<lparr>net_pbufs := S\<rparr>))"

text \<open>The rest of \<open>udp_sendto_if_src\<close>, for a block that has a port.\<close>

definition udp_send_bound :: "net_env \<Rightarrow> net \<Rightarrow> nat option \<Rightarrow> nat option \<Rightarrow> u32 option \<Rightarrow> u16 \<Rightarrow> netif \<Rightarrow>
    u32 option \<Rightarrow> (err_t \<times> net) outcome" where
  "udp_send_bound E N pcb p dst_ip dst_port n src_ip =
     bind_outcome (header_room E N p) (\<lambda>(q, N).
       if q = None then Ok (ERR_MEM, N)
       else
         bind_outcome (deref_pcb (pcb_mem N) pcb) (\<lambda>b.
         bind_outcome (deref (net_pbufs N) q) (\<lambda>qq.
         bind_outcome (write_pbuf qq 0 (udp_header (local_port b) dst_port (tot_len qq)) 0 8) (\<lambda>qq.
         bind_outcome (ip4_output_if_src E (N\<lparr>net_pbufs := set_pbuf (net_pbufs N) q qq\<rparr>) q src_ip dst_ip
             (ttl b) (tos b) 17 n) (\<lambda>(err, N).
           if q \<noteq> p then bind_outcome (free_packet_of N q) (\<lambda>N. Ok (err, N))
           else Ok (err, N))))))"

definition udp_sendto_if_src :: "net_env \<Rightarrow> net \<Rightarrow> nat option \<Rightarrow> nat option \<Rightarrow> u32 option \<Rightarrow> u16 \<Rightarrow> netif \<Rightarrow>
    u32 option \<Rightarrow> (err_t \<times> net) outcome" where
  "udp_sendto_if_src E N pcb p dst_ip dst_port n src_ip =
     (if pcb = None \<or> dst_ip = None then Ok (ERR_VAL, N)
      else
        bind_outcome (deref_pcb (pcb_mem N) pcb) (\<lambda>b.
        bind_outcome (if local_port b = 0 then udp_bind N pcb (Some (local_ip b)) (local_port b) else Ok (ERR_OK, N))
          (\<lambda>(err, N).
            if err \<noteq> ERR_OK then Ok (err, N)
            else udp_send_bound E N pcb p dst_ip dst_port n src_ip)))"

definition udp_sendto_if :: "net_env \<Rightarrow> net \<Rightarrow> nat option \<Rightarrow> nat option \<Rightarrow> u32 option \<Rightarrow> u16 \<Rightarrow> netif \<Rightarrow>
    (err_t \<times> net) outcome" where
  "udp_sendto_if E N pcb p dst_ip dst_port n =
     (if pcb = None \<or> dst_ip = None then Ok (ERR_VAL, N)
      else
        bind_outcome (deref_pcb (pcb_mem N) pcb) (\<lambda>b.
          if local_ip b = 0 \<or> ip4_addr_ismulticast (local_ip b) then
            udp_sendto_if_src E N pcb p dst_ip dst_port n (Some (netif_ip_addr n))
          else if local_ip b \<noteq> netif_ip_addr n then Ok (ERR_RTE, N)
          else udp_sendto_if_src E N pcb p dst_ip dst_port n (Some (local_ip b))))"

definition udp_sendto :: "net_env \<Rightarrow> net \<Rightarrow> nat option \<Rightarrow> nat option \<Rightarrow> u32 option \<Rightarrow> u16 \<Rightarrow> (err_t \<times> net) outcome" where
  "udp_sendto E N pcb p dst_ip dst_port =
     (case dst_ip of None \<Rightarrow> Ok (ERR_VAL, N)
      | Some d \<Rightarrow>
          if pcb = None then Ok (ERR_VAL, N)
          else
            (case ip4_route E d of None \<Rightarrow> Ok (ERR_RTE, N)
             | Some n \<Rightarrow> udp_sendto_if E N pcb p dst_ip dst_port n))"

definition udp_send :: "net_env \<Rightarrow> net \<Rightarrow> nat option \<Rightarrow> nat option \<Rightarrow> (err_t \<times> net) outcome" where
  "udp_send E N pcb p =
     (if pcb = None then Ok (ERR_VAL, N)
      else
        bind_outcome (deref_pcb (pcb_mem N) pcb) (\<lambda>b.
          udp_sendto E N pcb p (Some (remote_ip b)) (remote_port b)))"

end
