(* ===== verification/LwipUdpList.thy ===== *)
theory LwipUdpList
  imports LwipUdp
begin

text \<open>
  The list of UDP control blocks as a list of addresses: \<open>plist\<close> relates the links in the store to
  it, as a pointer structure is related to the sequence it represents. On a well-formed list the
  loops of \<open>udp.c\<close> are searches along that sequence, taking in a block puts its address in front,
  removing one and moving one to the front are the operations on sequences; and the search for a port
  finds the next free one in the cyclic order of the range, if there is any.
\<close>

section \<open>Lists in the store\<close>

abbreviation pcb_at :: "pcb_store \<Rightarrow> nat \<Rightarrow> udp_pcb" where
  "pcb_at M n \<equiv> the (M ! n)"

definition live_pcb :: "pcb_store \<Rightarrow> nat \<Rightarrow> bool" where
  "live_pcb M n \<longleftrightarrow> n < length M \<and> M ! n \<noteq> None"

fun plist :: "pcb_store \<Rightarrow> nat option \<Rightarrow> nat list \<Rightarrow> bool" where
  "plist M p [] \<longleftrightarrow> p = None"
| "plist M p (n # ns) \<longleftrightarrow> p = Some n \<and> live_pcb M n \<and> n \<notin> set ns \<and> plist M (pcb_next (pcb_at M n)) ns"

lemma nth_update: "xs[n := x] ! m = (if m = n \<and> n < length xs then x else xs ! m)"
  by (cases "n < length xs") (auto simp: nth_list_update list_update_beyond)

lemma deref_pcb_live [simp]: "live_pcb M n \<Longrightarrow> deref_pcb M (Some n) = Ok (pcb_at M n)"
  by (auto simp: deref_pcb_def live_pcb_def split: option.split)

lemma deref_pcb_dead [simp]: "\<not> live_pcb M n \<Longrightarrow> deref_pcb M (Some n) = Halt Freed"
  by (auto simp: deref_pcb_def live_pcb_def split: option.split)

lemma deref_pcb_Ok: "deref_pcb M p = Ok b \<longleftrightarrow> (\<exists>n. p = Some n \<and> live_pcb M n \<and> b = pcb_at M n)"
  by (auto simp: deref_pcb_def live_pcb_def split: option.splits if_splits)

lemma set_pcb_Some [simp]: "set_pcb M (Some n) b = M[n := Some b]"
  by (simp add: set_pcb_def)

lemma live_update [simp]: "live_pcb (M[n := Some b]) m \<longleftrightarrow> live_pcb M m \<or> (m = n \<and> n < length M)"
  by (auto simp: live_pcb_def nth_update)

lemma live_release [simp]: "live_pcb (M[n := None]) m \<longleftrightarrow> live_pcb M m \<and> m \<noteq> n"
  by (auto simp: live_pcb_def nth_update)

lemma live_extend [simp]: "live_pcb M n \<Longrightarrow> live_pcb (M @ xs) n"
  by (simp add: live_pcb_def nth_append)

lemma live_bound [simp]: "live_pcb M n \<Longrightarrow> n < length M"
  by (simp add: live_pcb_def)

lemma plist_live: "plist M p ns \<Longrightarrow> n \<in> set ns \<Longrightarrow> live_pcb M n"
  by (induction ns arbitrary: p) auto

lemma plist_distinct: "plist M p ns \<Longrightarrow> distinct ns"
  by (induction ns arbitrary: p) auto

lemma plist_cong:
  "(\<And>n. n \<in> set ns \<Longrightarrow> live_pcb M' n \<and> pcb_next (pcb_at M' n) = pcb_next (pcb_at M n)) \<Longrightarrow> plist M p ns \<Longrightarrow> plist M' p ns"
  by (induction ns arbitrary: p) auto

lemma plist_other [simp]: "n \<notin> set ns \<Longrightarrow> plist (M[n := x]) p ns = plist M p ns"
  by (induction ns arbitrary: p) (auto simp: live_pcb_def)

lemma plist_data:
  assumes "plist M p ns" and "pcb_next b = pcb_next (pcb_at M n)" shows "plist (M[n := Some b]) p ns"
  by (rule plist_cong [OF _ assms(1)])
    (use assms plist_live [OF assms(1)] in \<open>auto simp: nth_update dest: live_bound\<close>)

lemma plist_extend: "plist M p ns \<Longrightarrow> plist (M @ xs) p ns"
  by (rule plist_cong) (auto dest: plist_live simp: nth_append)

lemma pcb_loop_list: "plist M p ns \<Longrightarrow> pcb_loop M P p = Some (Ok (find (\<lambda>n. P n (pcb_at M n)) ns))"
  by (induction ns arbitrary: p) (simp_all add: pcb_loop.simps)

text \<open>A list in the middle of which \<open>prev\<close> stands in front of \<open>n\<close>.\<close>

lemma plist_append:
  "plist M p (ms @ n # ns) \<longleftrightarrow>
     plist M (Some n) (n # ns) \<and> distinct (ms @ n # ns) \<and> (\<forall>m \<in> set ms. live_pcb M m) \<and>
     (if ms = [] then p = Some n
      else p = Some (hd ms) \<and> (\<forall>i < length ms. pcb_next (pcb_at M (ms ! i)) = Some ((ms @ [n]) ! Suc i)))"
proof (induction ms arbitrary: p)
  case (Cons m ms)
  have "(\<forall>i < length (m # ms). pcb_next (pcb_at M ((m # ms) ! i)) = Some ((m # ms @ [n]) ! Suc i)) \<longleftrightarrow>
    pcb_next (pcb_at M m) = Some ((ms @ [n]) ! 0) \<and> (\<forall>i < length ms. pcb_next (pcb_at M (ms ! i)) = Some ((ms @ [n]) ! Suc i))"
    by (auto simp: less_Suc_eq_0_disj)
  then show ?case using Cons by (cases ms) (auto dest: plist_distinct)
qed (auto dest: plist_distinct)

text \<open>Taking \<open>n\<close> out of the list by the link of the block before it.\<close>

lemma plist_unlink:
  assumes "plist M p (ms @ m # n # ns)"
  shows "plist (M[m := Some ((pcb_at M m)\<lparr>pcb_next := pcb_next (pcb_at M n)\<rparr>)]) p (ms @ m # ns)"
  using assms
proof (induction ms arbitrary: p)
  case (Cons k ms)
  then show ?case by (auto simp: nth_update)
qed auto

lemma find_next:
  assumes "plist M p (ms @ m # n # ns)"
  shows "find (\<lambda>k. pcb_next (pcb_at M k) \<noteq> None \<and> pcb_next (pcb_at M k) = Some n) (ms @ m # n # ns) = Some m"
  using assms
proof (induction ms arbitrary: p)
  case (Cons k ms)
  then have "pcb_next (pcb_at M k) \<noteq> Some n" by (cases ms) auto
  with Cons.IH [of "pcb_next (pcb_at M k)"] Cons.prems show ?case by simp
qed simp

lemma find_next_absent:
  assumes "plist M p ns" and "n \<notin> set ns"
  shows "find (\<lambda>k. pcb_next (pcb_at M k) \<noteq> None \<and> pcb_next (pcb_at M k) = Some n) ns = None"
  using assms
proof (induction ns arbitrary: p)
  case (Cons k ns)
  then have "pcb_next (pcb_at M k) \<noteq> Some n" by (cases ns) auto
  with Cons.IH [of "pcb_next (pcb_at M k)"] Cons.prems show ?case by simp
qed simp

section \<open>Well-formed states\<close>

text \<open>
  The blocks in the list are those that have a port; \<open>ns\<close> is the list, and the last port that was
  given out is in the range.
\<close>

definition udp_wf :: "net \<Rightarrow> nat list \<Rightarrow> bool" where
  "udp_wf N ns \<longleftrightarrow> plist (pcb_mem N) (udp_pcbs N) ns \<and>
     (\<forall>n. live_pcb (pcb_mem N) n \<longrightarrow> (n \<in> set ns \<longleftrightarrow> local_port (pcb_at (pcb_mem N) n) \<noteq> 0)) \<and>
     UDP_LOCAL_PORT_RANGE_START \<le> udp_port N"

definition endpoint :: "udp_pcb \<Rightarrow> u32 \<times> u16" where
  "endpoint b = (local_ip b, local_port b)"

definition endpoints_apart :: "net \<Rightarrow> nat list \<Rightarrow> bool" where
  "endpoints_apart N ns \<longleftrightarrow> inj_on (\<lambda>n. endpoint (pcb_at (pcb_mem N) n)) (set ns)"

lemma search_list:
  "plist (pcb_mem N) (udp_pcbs N) ns \<Longrightarrow> search_pcbs N P = Ok (find (\<lambda>n. P n (pcb_at (pcb_mem N) n)) ns)"
  by (simp add: search_pcbs_def pcb_loop_list loop_result_def)

lemma find_member [simp]: "find ((=) m) ns = (if m \<in> set ns then Some m else None)"
  by (induction ns) auto

section \<open>The next free port\<close>

definition port_used :: "net \<Rightarrow> nat list \<Rightarrow> u16 \<Rightarrow> bool" where
  "port_used N ns port \<longleftrightarrow> (\<exists>n \<in> set ns. local_port (pcb_at (pcb_mem N) n) = port)"

lemma find_port_used:
  "(find (\<lambda>n. local_port (pcb_at (pcb_mem N) n) = port) ns \<noteq> None) = port_used N ns port"
  by (auto simp: port_used_def find_None_iff)

text \<open>After \<open>k\<close> steps from a port of the range.\<close>

lemma next_port_iter:
  assumes "UDP_LOCAL_PORT_RANGE_START \<le> port"
  shows "(next_port ^^ k) port = word_of_nat (49152 + (unat port - 49152 + k) mod 16384)"
proof (induction k)
  case 0
  have "49152 \<le> unat port" "unat port < 65536"
    using assms unsigned_less [where 'a = nat, of port] by (simp_all add: UDP_LOCAL_PORT_RANGE_START_def word_le_nat_alt)
  then have "49152 + (unat port - 49152) mod 16384 = unat port" by simp
  then show ?case by simp
next
  case (Suc k)
  let ?m = "(unat port - 49152 + k) mod 16384"
  have m: "?m < 16384" by simp
  have "next_port (word_of_nat (49152 + ?m)) = word_of_nat (49152 + Suc ?m mod 16384)"
  proof (cases "?m = 16383")
    case True
    then show ?thesis unfolding True by (simp add: next_port_def UDP_LOCAL_PORT_RANGE_END_def UDP_LOCAL_PORT_RANGE_START_def)
  next
    case False
    with m have lt: "?m < 16383" by linarith
    then have "unat (word_of_nat (49152 + ?m) :: u16) = 49152 + ?m" unfolding unat_of_nat by simp
    with lt have "unat (word_of_nat (49152 + ?m) :: u16) \<noteq> unat (65535 :: u16)" by simp
    then have "(word_of_nat (49152 + ?m) :: u16) \<noteq> 65535" by metis
    with lt show ?thesis by (simp add: next_port_def UDP_LOCAL_PORT_RANGE_END_def)
  qed
  then show ?case by (simp add: Suc.IH mod_Suc_eq)
qed

lemma port_used_port [simp]: "port_used (N\<lparr>udp_port := x\<rparr>) ns = port_used N ns"
  by (simp add: port_used_def fun_eq_iff)

lemma new_port_loop_step:
  assumes "plist (pcb_mem N) (udp_pcbs N) ns"
  shows "new_port_loop N n =
    (let N' = N\<lparr>udp_port := next_port (udp_port N)\<rparr> in
     if port_used N ns (next_port (udp_port N)) then if unat n \<ge> 16383 then Ok (0, N') else new_port_loop N' (n + 1)
     else Ok (next_port (udp_port N), N'))"
  by (subst new_port_loop.simps)
    (use assms in \<open>auto simp: Let_def search_list find_port_used [symmetric] UDP_LOCAL_PORT_RANGE_END_def
      UDP_LOCAL_PORT_RANGE_START_def\<close>)

definition port_after :: "net \<Rightarrow> nat \<Rightarrow> u16" where
  "port_after N k = (next_port ^^ k) (udp_port N)"

lemma port_after_simps [simp]:
  "port_after N 0 = udp_port N" "port_after (N\<lparr>udp_port := next_port (udp_port N)\<rparr>) k = port_after N (Suc k)"
  by (simp_all add: port_after_def funpow_swap1)

lemma port_after_Suc_0: "port_after N (Suc 0) = next_port (udp_port N)"
  by (simp add: port_after_def)

lemma new_port_loop_first:
  assumes "plist (pcb_mem N) (udp_pcbs N) ns" and "unat n \<le> 16383"
  shows "\<exists>k. 1 \<le> k \<and> k \<le> 16384 - unat n \<and> (\<forall>j. 1 \<le> j \<and> j < k \<longrightarrow> port_used N ns (port_after N j)) \<and>
    new_port_loop N n = Ok (if port_used N ns (port_after N k) then 0 else port_after N k, N\<lparr>udp_port := port_after N k\<rparr>) \<and>
    (port_used N ns (port_after N k) \<longrightarrow> k = 16384 - unat n)"
  using assms
proof (induction "16383 - unat n" arbitrary: N n)
  case 0
  then show ?case by (intro exI [of _ 1]) (simp add: new_port_loop_step port_after_Suc_0)
next
  case (Suc d)
  let ?N = "N\<lparr>udp_port := next_port (udp_port N)\<rparr>"
  have n: "unat (n + 1) = unat n + 1" using Suc.hyps(2) by (subst unat_add_small) simp_all
  show ?case
  proof (cases "port_used N ns (next_port (udp_port N))")
    case True
    have "d = 16383 - unat (n + 1)" "unat (n + 1) \<le> 16383" using Suc.hyps(2) n by simp_all
    from Suc.hyps(1) [OF this(1) _ this(2), of ?N] Suc.prems(1) obtain k where
      k: "1 \<le> k" "k \<le> 16384 - unat (n + 1)" "\<forall>j. 1 \<le> j \<and> j < k \<longrightarrow> port_used N ns (port_after N (Suc j))"
      "new_port_loop ?N (n + 1) = Ok (if port_used N ns (port_after N (Suc k)) then 0 else port_after N (Suc k),
         N\<lparr>udp_port := port_after N (Suc k)\<rparr>)"
      "port_used N ns (port_after N (Suc k)) \<longrightarrow> k = 16384 - unat (n + 1)"
      unfolding port_after_simps port_used_port by auto
    have "port_used N ns (port_after N j)" if "1 \<le> j" "j < Suc k" for j
      using k(3) that True by (cases j; cases "j = 1") (auto simp: port_after_Suc_0)
    moreover have "new_port_loop N n = new_port_loop ?N (n + 1)"
      unfolding new_port_loop_step [OF Suc.prems(1), of n] Let_def using Suc.hyps(2) True by auto
    ultimately show ?thesis using k Suc.hyps(2) n by (intro exI [of _ "Suc k"]) auto
  next
    case False
    then show ?thesis
      using Suc.prems(1) Suc.hyps(2) by (intro exI [of _ 1]) (simp add: new_port_loop_step port_after_Suc_0)
  qed
qed

text \<open>
  All ports of the range are tried: a free one is found if there is one, and otherwise the search
  ends.
\<close>

lemma udp_new_port_free:
  assumes "udp_wf N ns"
  obtains port where "udp_new_port N = Ok (if port_used N ns port then 0 else port, N\<lparr>udp_port := port\<rparr>)"
    "UDP_LOCAL_PORT_RANGE_START \<le> port" "port_used N ns port \<Longrightarrow> \<forall>x \<ge> UDP_LOCAL_PORT_RANGE_START. port_used N ns x"
proof -
  let ?p = "port_after N"
  have wf: "plist (pcb_mem N) (udp_pcbs N) ns" "UDP_LOCAL_PORT_RANGE_START \<le> udp_port N"
    using assms by (simp_all add: udp_wf_def)
  obtain k where k: "1 \<le> k" "k \<le> 16384" "\<forall>j. 1 \<le> j \<and> j < k \<longrightarrow> port_used N ns (?p j)"
    "udp_new_port N = Ok (if port_used N ns (?p k) then 0 else ?p k, N\<lparr>udp_port := ?p k\<rparr>)"
    "port_used N ns (?p k) \<longrightarrow> k = 16384"
    using new_port_loop_first [OF wf(1), of 0] by (auto simp: udp_new_port_def)
  have u: "unat (word_of_nat (49152 + m mod 16384) :: u16) = 49152 + m mod 16384" for m
    unfolding unat_of_nat by simp
  have range: "UDP_LOCAL_PORT_RANGE_START \<le> ?p k"
    unfolding port_after_def next_port_iter [OF wf(2)] word_le_nat_alt u by (simp add: UDP_LOCAL_PORT_RANGE_START_def)
  have "port_used N ns x" if "port_used N ns (?p k)" "UDP_LOCAL_PORT_RANGE_START \<le> x" for x
  proof -
    have all: "port_used N ns (?p j)" if "1 \<le> j" "j \<le> 16384" for j
      using k(3,5) \<open>port_used N ns (?p k)\<close> that by (cases "j = 16384") auto
    define a where "a = unat (udp_port N) - 49152"
    define b where "b = unat x - 49152"
    have ab: "a < 16384" "b < 16384" "unat x = 49152 + b"
      using wf(2) that(2) unsigned_less [where 'a = nat, of x] unsigned_less [where 'a = nat, of "udp_port N"]
      by (simp_all add: a_def b_def UDP_LOCAL_PORT_RANGE_START_def word_le_nat_alt)
    define j where "j = (if a < b then b - a else b + 16384 - a)"
    have j: "1 \<le> j" "j \<le> 16384" "(a + j) mod 16384 = b" using ab by (auto simp: j_def)
    have "?p j = x" unfolding port_after_def next_port_iter [OF wf(2)] a_def [symmetric] j(3) unfolding ab(3) [symmetric] by simp
    with all [OF j(1,2)] show ?thesis by simp
  qed
  with k(4) range show ?thesis by (intro that [of "?p k"]) auto
qed

end
