(* ===== verification/LwipIpInput.thy ===== *)
theory LwipIpInput
  imports LwipUdp
begin

text \<open>
  The input side of IPv4 in lwIP, \<open>ip4_input\<close> of \<open>src/lwip-2.0.3/src/core/ipv4/ip4.c\<close>, which hands a
  received packet to UDP, TCP or ICMP. As configured there is no forwarding, no \<open>IGMP\<close>, no
  \<open>AUTOIP\<close>, no raw interface, the checksum is checked by hardware, options are allowed, and fragments
  go to the reassembly. The function always returns \<open>ERR_OK\<close>; what it keeps in \<open>ip_data\<close> while it
  runs is an argument of the functions it calls.
\<close>

unbundle bit_operations_syntax

text \<open>The interface a packet is accepted for: first the one it came in on, then the others.\<close>

definition accepts :: "u32 \<Rightarrow> netif \<Rightarrow> bool" where
  "accepts dest n \<longleftrightarrow> netif_is_up n \<and> netif_ip_addr n \<noteq> 0 \<and>
     (dest = netif_ip_addr n \<or> ip4_addr_isbroadcast_u32 dest n)"

fun skip_inp :: "netif \<Rightarrow> netif list \<Rightarrow> netif list" where
  "skip_inp inp [] = []"
| "skip_inp inp (n # ns) = (if netif_num n = netif_num inp then ns else n # ns)"

lemma length_skip_inp: "length (skip_inp inp ns) \<le> length ns"
  by (cases ns) auto

function accept_loop :: "u32 \<Rightarrow> netif \<Rightarrow> netif list \<Rightarrow> netif option" where
  "accept_loop dest inp [] = None"
| "accept_loop dest inp (n # ns) = (if accepts dest n then Some n else accept_loop dest inp (skip_inp inp ns))"
  by pat_completeness auto
termination
  by (relation "measure (\<lambda>(dest, inp, ns). length ns)") (simp_all add: length_skip_inp less_Suc_eq_le)

definition accepting_netif :: "net_env \<Rightarrow> u32 \<Rightarrow> netif \<Rightarrow> netif option" where
  "accepting_netif E dest inp =
     (if ip4_addr_ismulticast dest then
        if netif_is_up inp \<and> netif_ip_addr inp \<noteq> 0 then Some inp else None
      else if accepts dest inp then Some inp
      else if ip4_addr_isloopback dest then None
      else accept_loop dest inp (skip_inp inp (netif_list E)))"

text \<open>
  The end of \<open>ip4_input\<close>: \<open>hlen\<close> is the length of the header of the packet that came in. A packet of
  an unknown protocol is shown to ICMP with its header and given back.
\<close>

definition ip4_unknown :: "net_env \<Rightarrow> net \<Rightarrow> nat option \<Rightarrow> u16 \<Rightarrow> nat \<Rightarrow> net outcome" where
  "ip4_unknown E N p hlen iphdr_pos =
     bind_outcome (pbuf_header_force (net_pbufs N) p hlen) (\<lambda>(r, S).
     bind_outcome (deref S p) (\<lambda>q.
     let S = set_pbuf S p (q\<lparr>payload := iphdr_pos\<rparr>) in
     bind_outcome (packet_bytes S p) (\<lambda>bs.
     bind_outcome (icmp_dest_unreach E S p 2) (\<lambda>S.
       free_packet_of (N\<lparr>net_pbufs := S, events := events N @ [Unreachable 2 bs]\<rparr>) p))))"

definition ip4_dispatch :: "net_env \<Rightarrow> net \<Rightarrow> nat option \<Rightarrow> netif \<Rightarrow> netif \<Rightarrow> u16 \<Rightarrow> u32 \<Rightarrow> u32 \<Rightarrow> net outcome" where
  "ip4_dispatch E N p inp n hlen src dest =
     bind_outcome (deref (net_pbufs N) p) (\<lambda>q.
     bind_outcome (read_pbuf q 0 20) (\<lambda>iphdr.
     let G = \<lparr>current_netif = n, current_ip_header_tot_len = ucast (iphdr ! 0 AND 0x0f) * 4,
              current_src = src, current_dest = dest\<rparr>;
         proto = iphdr ! 9 in
     bind_outcome (pbuf_header (net_pbufs N) p (- hlen)) (\<lambda>(r, S).
     let N = N\<lparr>net_pbufs := S\<rparr> in
       if proto = 17 then udp_input E N G p inp
       else if proto = 6 then bind_outcome (tcp_input E G inp S p) (\<lambda>S. Ok (N\<lparr>net_pbufs := S\<rparr>))
       else if proto = 1 then bind_outcome (icmp_input E G inp S p) (\<lambda>S. Ok (N\<lparr>net_pbufs := S\<rparr>))
       else if \<not> ip4_addr_isbroadcast_u32 dest n \<and> \<not> ip4_addr_ismulticast dest then
         ip4_unknown E N p hlen (payload q)
       else free_packet_of N p)))"

text \<open>The middle of \<open>ip4_input\<close>, for a packet whose lengths are right.\<close>

definition ip4_accept :: "net_env \<Rightarrow> net \<Rightarrow> nat option \<Rightarrow> netif \<Rightarrow> u16 \<Rightarrow> net outcome" where
  "ip4_accept E N p inp iphdr_hlen =
     bind_outcome (deref (net_pbufs N) p) (\<lambda>q.
     bind_outcome (read_pbuf q 0 20) (\<lambda>iphdr.
     let src = addr_at iphdr 12;
         dest = addr_at iphdr 16;
         n = accepting_netif E dest inp in
       if ip4_addr_isbroadcast_u32 src inp \<or> ip4_addr_ismulticast src then free_packet_of N p
       else
         (case n of
            None \<Rightarrow> free_packet_of N p
          | Some n \<Rightarrow>
              bind_outcome (if be16_at iphdr 6 AND 0x3fff \<noteq> 0 then ip4_reass E (net_pbufs N) p else Ok (p, net_pbufs N))
                (\<lambda>(p, S).
                  if p = None then Ok (N\<lparr>net_pbufs := S\<rparr>)
                  else ip4_dispatch E (N\<lparr>net_pbufs := S\<rparr>) p inp n iphdr_hlen src dest))))"

definition ip4_input :: "net_env \<Rightarrow> net \<Rightarrow> nat option \<Rightarrow> netif \<Rightarrow> net outcome" where
  "ip4_input E N p inp =
     bind_outcome (deref (net_pbufs N) p) (\<lambda>q.
     bind_outcome (read_pbuf q 0 4) (\<lambda>iphdr.
       if drop_bit 4 (iphdr ! 0) \<noteq> 4 then free_packet_of N p
       else
         let iphdr_hlen = ucast (iphdr ! 0 AND 0x0f) * 4;
             iphdr_len = be16_at iphdr 2 in
         bind_outcome (if iphdr_len < tot_len q then pbuf_realloc (net_pbufs N) p iphdr_len else Ok (net_pbufs N)) (\<lambda>S.
         let N = N\<lparr>net_pbufs := S\<rparr> in
         bind_outcome (deref S p) (\<lambda>q.
           if iphdr_hlen > len q \<or> iphdr_len > tot_len q \<or> iphdr_hlen < IP_HLEN then free_packet_of N p
           else ip4_accept E N p inp iphdr_hlen))))"

end
