(* ===== verification/LwipUdpOps.thy ===== *)
theory LwipUdpOps
  imports LwipUdpList LwipIpInput
begin

text \<open>
  The operations of \<open>udp.c\<close> on well-formed states: what each does to the list and to the endpoints,
  that it returns on a live control block, and that it keeps the list well-formed and the endpoints
  of different blocks apart.
\<close>

unbundle bit_operations_syntax

section \<open>What the rest of the stack leaves alone\<close>

definition udp_same :: "net \<Rightarrow> net \<Rightarrow> bool" where
  "udp_same N N' \<longleftrightarrow> pcb_mem N' = pcb_mem N \<and> udp_pcbs N' = udp_pcbs N \<and> udp_port N' = udp_port N"

lemma udp_same_simps [simp]:
  "udp_same N N" "udp_same N (N'\<lparr>net_pbufs := S\<rparr>) = udp_same N N'" "udp_same N (N'\<lparr>ip_id := i\<rparr>) = udp_same N N'"
  "udp_same N (N'\<lparr>events := ev\<rparr>) = udp_same N N'" "udp_same (N\<lparr>net_pbufs := S\<rparr>) N' = udp_same N N'"
  "udp_same (N\<lparr>ip_id := i\<rparr>) N' = udp_same N N'" "udp_same (N\<lparr>events := ev\<rparr>) N' = udp_same N N'"
  by (simp_all add: udp_same_def)

lemma udp_same_trans: "udp_same N N' \<Longrightarrow> udp_same N' N'' \<Longrightarrow> udp_same N N''"
  by (simp add: udp_same_def)

lemma udp_same_wf:
  "udp_same N N' \<Longrightarrow> udp_wf N' ns = udp_wf N ns" "udp_same N N' \<Longrightarrow> endpoints_apart N' ns = endpoints_apart N ns"
  by (simp_all add: udp_same_def udp_wf_def endpoints_apart_def)

lemma free_packet_same: "free_packet_of N p = Ok N' \<Longrightarrow> udp_same N N'"
  by (auto simp: free_packet_of_def outcome_simps)

lemma transmit_same: "ip4_transmit E N p d n = Ok (err, N') \<Longrightarrow> udp_same N N'"
  by (auto simp: ip4_transmit_def outcome_simps split: if_splits)

lemma output_same: "ip4_output_if_src E N p src dest hops service proto n = Ok (err, N') \<Longrightarrow> udp_same N N'"
  by (auto simp: ip4_output_if_src_def outcome_simps split: option.splits if_splits dest: transmit_same)

lemma header_room_same: "header_room E N p = Ok (q, N') \<Longrightarrow> udp_same N N'"
  by (auto simp: header_room_def outcome_simps split: if_splits)

section \<open>Binding\<close>

definition placed :: "net \<Rightarrow> nat list \<Rightarrow> nat \<Rightarrow> u32 \<Rightarrow> u16 \<Rightarrow> net" where
  "placed N ns n ip port =
     (let b = (pcb_at (pcb_mem N) n)\<lparr>local_ip := ip, local_port := port\<rparr> in
      if n \<in> set ns then N\<lparr>pcb_mem := (pcb_mem N)[n := Some b]\<rparr>
      else N\<lparr>pcb_mem := (pcb_mem N)[n := Some (b\<lparr>pcb_next := udp_pcbs N\<rparr>)], udp_pcbs := Some n\<rparr>)"

definition endpoint_taken :: "net \<Rightarrow> nat list \<Rightarrow> nat \<Rightarrow> u32 \<Rightarrow> u16 \<Rightarrow> bool" where
  "endpoint_taken N ns n ip port \<longleftrightarrow> (\<exists>m \<in> set ns. m \<noteq> n \<and> endpoint (pcb_at (pcb_mem N) m) = (ip, port))"

lemma udp_wf_port: "udp_wf N ns \<Longrightarrow> UDP_LOCAL_PORT_RANGE_START \<le> x \<Longrightarrow> udp_wf (N\<lparr>udp_port := x\<rparr>) ns"
  by (simp add: udp_wf_def)

lemma placed_wf:
  assumes "udp_wf N ns" and "live_pcb (pcb_mem N) n" and "port \<noteq> 0"
  shows "udp_wf (placed N ns n ip port) (List.insert n ns)"
proof (cases "n \<in> set ns")
  case True
  let ?b = "(pcb_at (pcb_mem N) n)\<lparr>local_ip := ip, local_port := port\<rparr>"
  have "plist ((pcb_mem N)[n := Some ?b]) (udp_pcbs N) ns"
    using assms(1) by (intro plist_data) (simp_all add: udp_wf_def)
  with assms True show ?thesis by (auto simp: placed_def udp_wf_def nth_update)
next
  case False
  with assms show ?thesis by (auto simp: placed_def udp_wf_def nth_update)
qed

lemma placed_block:
  assumes "live_pcb (pcb_mem N) n"
  shows "live_pcb (pcb_mem (placed N ns n ip port)) m = live_pcb (pcb_mem N) m"
    and "endpoint (pcb_at (pcb_mem (placed N ns n ip port)) m) = (if m = n then (ip, port) else endpoint (pcb_at (pcb_mem N) m))"
  using assms live_bound [OF assms] by (auto simp: placed_def Let_def nth_update endpoint_def)

lemma placed_apart:
  assumes "udp_wf N ns" and "live_pcb (pcb_mem N) n" and "endpoints_apart N ns" and "\<not> endpoint_taken N ns n ip port"
  shows "endpoints_apart (placed N ns n ip port) (List.insert n ns)"
proof -
  show ?thesis using assms(3,4) unfolding endpoints_apart_def inj_on_def placed_block(2) [OF assms(2)] by (auto simp: endpoint_taken_def)
qed

lemma endpoint_search:
  "(find (\<lambda>m. Some n \<noteq> Some m \<and> local_port (pcb_at (pcb_mem N) m) = port \<and> local_ip (pcb_at (pcb_mem N) m) = ip) ns \<noteq> None) =
   endpoint_taken N ns n ip port"
  by (auto simp: find_None_iff endpoint_taken_def endpoint_def)

lemma udp_bind_port:
  assumes "udp_wf N ns" and "port \<noteq> 0"
  shows "udp_bind N (Some n) a port =
    (let ip = (case a of None \<Rightarrow> 0 | Some a \<Rightarrow> a) in
     if endpoint_taken N ns n ip port then Ok (ERR_USE, N)
     else if live_pcb (pcb_mem N) n then Ok (ERR_OK, placed N ns n ip port) else Halt Freed)"
proof -
  have p: "plist (pcb_mem N) (udp_pcbs N) ns" using assms(1) by (simp add: udp_wf_def)
  show ?thesis
    using assms(2) unfolding udp_bind_def Let_def search_list [OF p] bind_outcome.simps endpoint_search
    by (cases "live_pcb (pcb_mem N) n"; cases "n \<in> set ns") (simp_all add: placed_def)
qed

lemma udp_bind_any:
  assumes "udp_wf N ns"
  obtains x where "UDP_LOCAL_PORT_RANGE_START \<le> x"
    "udp_bind N (Some n) a 0 =
      (if port_used N ns x then Ok (ERR_USE, N\<lparr>udp_port := x\<rparr>)
       else if live_pcb (pcb_mem N) n
       then Ok (ERR_OK, placed (N\<lparr>udp_port := x\<rparr>) ns n (case a of None \<Rightarrow> 0 | Some a \<Rightarrow> a) x) else Halt Freed)"
    "port_used N ns x \<Longrightarrow> \<forall>y \<ge> UDP_LOCAL_PORT_RANGE_START. port_used N ns y"
proof -
  have p: "plist (pcb_mem N) (udp_pcbs N) ns" using assms(1) by (simp add: udp_wf_def)
  obtain x where x: "udp_new_port N = Ok (if port_used N ns x then 0 else x, N\<lparr>udp_port := x\<rparr>)"
    "UDP_LOCAL_PORT_RANGE_START \<le> x" "port_used N ns x \<Longrightarrow> \<forall>y \<ge> UDP_LOCAL_PORT_RANGE_START. port_used N ns y"
    using udp_new_port_free [OF assms] by blast
  have "x \<noteq> 0" using x(2) by (auto simp: UDP_LOCAL_PORT_RANGE_START_def)
  then show ?thesis
    using x that [of x] unfolding udp_bind_def Let_def search_list [OF p] bind_outcome.simps x(1)
    by (cases "live_pcb (pcb_mem N) n"; cases "n \<in> set ns") (simp_all add: placed_def)
qed

section \<open>The invariant\<close>

definition udp_inv :: "net \<Rightarrow> bool" where
  "udp_inv N \<longleftrightarrow> (\<exists>ns. udp_wf N ns \<and> endpoints_apart N ns)"

lemma udp_inv_same: "udp_same N N' \<Longrightarrow> udp_inv N' = udp_inv N"
  by (simp add: udp_inv_def udp_same_wf)

lemma udp_inv_port: "udp_inv N \<Longrightarrow> UDP_LOCAL_PORT_RANGE_START \<le> x \<Longrightarrow> udp_inv (N\<lparr>udp_port := x\<rparr>)"
  by (auto simp: udp_inv_def endpoints_apart_def dest: udp_wf_port)

lemma udp_bind_inv:
  assumes "udp_wf N ns" and "endpoints_apart N ns" and "udp_bind N p a port = Ok (err, N')"
  shows "udp_inv N' \<and> (err = ERR_OK \<longrightarrow> (\<exists>n. p = Some n \<and> live_pcb (pcb_mem N') n \<and> local_port (pcb_at (pcb_mem N') n) \<noteq> 0))"
proof -
  have inv: "udp_inv N" using assms by (auto simp: udp_inv_def)
  have fin: "udp_inv (placed N ns n ip x) \<and> live_pcb (pcb_mem (placed N ns n ip x)) n \<and>
      local_port (pcb_at (pcb_mem (placed N ns n ip x)) n) \<noteq> 0"
    if "udp_wf N ns" "endpoints_apart N ns" "live_pcb (pcb_mem N) n" "x \<noteq> 0" "\<not> endpoint_taken N ns n ip x" for N n ip x
    using placed_wf [OF that(1,3,4), of ip] placed_apart [OF that(1,3,2,5)] that(3,4)
      placed_block [OF that(3), of ns ip x n] by (auto simp: udp_inv_def endpoint_def)
  show ?thesis
  proof (cases p)
    case None
    with assms(3) inv show ?thesis
      by (auto simp: udp_bind_def)
  next
    case (Some n)
    show ?thesis
    proof (cases "port = 0")
      case False
      from udp_bind_port [OF assms(1) False, of n a] assms(3) Some fin [OF assms(1,2)] inv False show ?thesis
        by (auto simp: Let_def split: if_splits)
    next
      case True
      obtain x where x: "UDP_LOCAL_PORT_RANGE_START \<le> x"
        "udp_bind N (Some n) a 0 = (if port_used N ns x then Ok (ERR_USE, N\<lparr>udp_port := x\<rparr>)
           else if live_pcb (pcb_mem N) n
           then Ok (ERR_OK, placed (N\<lparr>udp_port := x\<rparr>) ns n (case a of None \<Rightarrow> 0 | Some a \<Rightarrow> a) x) else Halt Freed)"
        using udp_bind_any [OF assms(1), of n a] by blast
      have "x \<noteq> 0" using x(1) by (auto simp: UDP_LOCAL_PORT_RANGE_START_def)
      moreover have "\<not> endpoint_taken (N\<lparr>udp_port := x\<rparr>) ns n ip x" if "\<not> port_used N ns x" for ip
        using that by (auto simp: endpoint_taken_def port_used_def endpoint_def)
      moreover have "udp_wf (N\<lparr>udp_port := x\<rparr>) ns" "endpoints_apart (N\<lparr>udp_port := x\<rparr>) ns"
        using assms(1,2) x(1) by (simp_all add: udp_wf_port endpoints_apart_def)
      ultimately show ?thesis
        using x(2) assms(3) Some True fin [of "N\<lparr>udp_port := x\<rparr>" n x] udp_inv_port [OF inv x(1)] by (auto split: if_splits)
    qed
  qed
qed

text \<open>Changing what is not the endpoint of a block, nor its link.\<close>

lemma data_inv:
  assumes "udp_wf N ns" and "live_pcb (pcb_mem N) n" and "pcb_next b = pcb_next (pcb_at (pcb_mem N) n)"
    and "endpoint b = endpoint (pcb_at (pcb_mem N) n)"
  shows "udp_wf (N\<lparr>pcb_mem := (pcb_mem N)[n := Some b]\<rparr>) ns"
    and "endpoints_apart (N\<lparr>pcb_mem := (pcb_mem N)[n := Some b]\<rparr>) ns = endpoints_apart N ns"
proof -
  have "local_port b = local_port (pcb_at (pcb_mem N) n)" using assms(4) by (simp add: endpoint_def)
  with assms show "udp_wf (N\<lparr>pcb_mem := (pcb_mem N)[n := Some b]\<rparr>) ns"
    unfolding udp_wf_def by (auto simp: plist_data nth_update)
  have "endpoint (pcb_at ((pcb_mem N)[n := Some b]) m) = endpoint (pcb_at (pcb_mem N) m)" for m
    using assms(4) by (simp add: nth_update)
  then show "endpoints_apart (N\<lparr>pcb_mem := (pcb_mem N)[n := Some b]\<rparr>) ns = endpoints_apart N ns"
    by (simp add: endpoints_apart_def)
qed

lemma data_udp_inv:
  assumes "udp_inv N" and "live_pcb (pcb_mem N) n" and "pcb_next b = pcb_next (pcb_at (pcb_mem N) n)"
    and "endpoint b = endpoint (pcb_at (pcb_mem N) n)"
  shows "udp_inv (N\<lparr>pcb_mem := (pcb_mem N)[n := Some b]\<rparr>)"
  using assms(1) data_inv [OF _ assms(2-4)] unfolding udp_inv_def by blast

lemma udp_recv_inv: "udp_inv N \<Longrightarrow> udp_recv N p fn arg = Ok N' \<Longrightarrow> udp_inv N'"
  by (auto simp: udp_recv_def outcome_simps deref_pcb_Ok endpoint_def intro!: data_udp_inv)

lemma udp_disconnect_inv: "udp_inv N \<Longrightarrow> udp_disconnect N p = Ok N' \<Longrightarrow> udp_inv N'"
  by (auto simp: udp_disconnect_def outcome_simps deref_pcb_Ok endpoint_def intro!: data_udp_inv)

lemma udp_new_inv:
  assumes "udp_inv N" and "udp_new E N = (p, N')" shows "udp_inv N'"
proof -
  obtain ns where ns: "udp_wf N ns" "endpoints_apart N ns" using assms(1) by (auto simp: udp_inv_def)
  have at: "pcb_at (pcb_mem N @ xs) n = pcb_at (pcb_mem N) n" if "n \<in> set ns" for n xs
    using plist_live [of "pcb_mem N" "udp_pcbs N" ns n] ns(1) that by (auto simp: udp_wf_def nth_append)
  have "udp_wf N' ns \<and> endpoints_apart N' ns"
  proof (cases "pcbs_in_use (pcb_mem N) < MEMP_NUM_UDP_PCB E")
    case True
    obtain b where b: "N' = N\<lparr>pcb_mem := pcb_mem N @ [Some b]\<rparr>" "local_port b = 0"
      using assms(2) True by (auto simp: udp_new_def)
    have "n \<in> set ns \<longleftrightarrow> local_port (pcb_at (pcb_mem N @ [Some b]) n) \<noteq> 0" if "live_pcb (pcb_mem N @ [Some b]) n" for n
    proof (cases "n < length (pcb_mem N)")
      case True
      with that have "live_pcb (pcb_mem N) n" by (auto simp: live_pcb_def nth_append)
      with True ns(1) show ?thesis by (auto simp: udp_wf_def nth_append)
    next
      case False
      with that have "n = length (pcb_mem N)" by (simp add: live_pcb_def)
      with b(2) False plist_live [of "pcb_mem N" "udp_pcbs N" ns n] ns(1) show ?thesis by (auto simp: udp_wf_def live_pcb_def)
    qed
    with ns at show ?thesis by (auto simp: b(1) udp_wf_def plist_extend endpoints_apart_def inj_on_def)
  qed (use assms(2) ns in \<open>auto simp: udp_new_def\<close>)
  then show ?thesis by (auto simp: udp_inv_def)
qed

lemma udp_inv_bind: "udp_inv N \<Longrightarrow> udp_bind N p a port = Ok (err, N') \<Longrightarrow> udp_inv N'"
  unfolding udp_inv_def [of N] using udp_bind_inv by blast

lemma udp_connect_inv:
  assumes "udp_inv N" and "udp_connect N p a port = Ok (err, N')" shows "udp_inv N'"
proof (cases "a = None \<or> p = None")
  case True
  with assms show ?thesis by (auto simp: udp_connect_def split: option.splits)
next
  case False
  then obtain ip n where n: "a = Some ip" "p = Some n" by auto
  obtain ns where ns: "udp_wf N ns" "endpoints_apart N ns" using assms(1) by (auto simp: udp_inv_def)
  obtain err' N1 where bind: "live_pcb (pcb_mem N) n"
    "(if local_port (pcb_at (pcb_mem N) n) = 0
      then udp_bind N (Some n) (Some (local_ip (pcb_at (pcb_mem N) n))) (local_port (pcb_at (pcb_mem N) n)) else Ok (ERR_OK, N)) = Ok (err', N1)"
    using assms(2) by (auto simp: udp_connect_def n outcome_simps deref_pcb_Ok)
  have 1: "udp_inv N1 \<and> (err' = ERR_OK \<longrightarrow> live_pcb (pcb_mem N1) n \<and> local_port (pcb_at (pcb_mem N1) n) \<noteq> 0)"
    using bind assms(1) udp_bind_inv [OF ns] n(2) by (fastforce split: if_splits)
  show ?thesis
  proof (cases "err' = ERR_OK")
    case False
    with bind 1 assms(2) show ?thesis unfolding udp_connect_def n option.case by (simp add: n)
  next
    case True
    let ?b = "(pcb_at (pcb_mem N1) n)\<lparr>remote_ip := ip, remote_port := port,
      udp_flags := udp_flags (pcb_at (pcb_mem N1) n) OR UDP_FLAGS_CONNECTED\<rparr>"
    let ?N = "N1\<lparr>pcb_mem := (pcb_mem N1)[n := Some ?b]\<rparr>"
    have 2: "live_pcb (pcb_mem N1) n" "local_port (pcb_at (pcb_mem N1) n) \<noteq> 0" "udp_inv N1" using 1 True by simp_all
    then have inv: "udp_inv ?N" by (intro data_udp_inv) (simp_all add: endpoint_def)
    then obtain ms where ms: "udp_wf ?N ms" by (auto simp: udp_inv_def)
    then have l: "plist (pcb_mem ?N) (udp_pcbs ?N) ms" by (simp add: udp_wf_def)
    have "n \<in> set ms" using ms 2 by (auto simp: udp_wf_def nth_update)
    then have "search_pcbs ?N (\<lambda>m b. p = Some m) = Ok (Some n)" using search_list [OF l] by (simp add: n)
    with bind 2 True assms(2) have "N' = ?N"
      unfolding udp_connect_def n option.case by (simp add: n Let_def)
    with inv show ?thesis by simp
  qed
qed

text \<open>A block that is on the list and is not the first stands behind another one.\<close>

lemma behind:
  assumes "plist M p ns" and "n \<in> set ns" and "p \<noteq> Some n"
  obtains ms m ks where "ns = ms @ m # n # ks"
proof -
  obtain ms ks where "ns = ms @ n # ks" using split_list [OF assms(2)] by blast
  with assms(1,3) that [of "butlast ms" "last ms" ks] show ?thesis by (cases "ms = []") (auto simp: append_butlast_last_id [symmetric] simp del: append_butlast_last_id)
qed

lemma removed_inv:
  assumes "udp_inv N" and "udp_remove N (Some n) = Ok N'" shows "udp_inv N'"
proof -
  obtain ns where ns: "udp_wf N ns" "endpoints_apart N ns" using assms(1) by (auto simp: udp_inv_def)
  then have l: "plist (pcb_mem N) (udp_pcbs N) ns" by (simp add: udp_wf_def)
  have out: "udp_inv (N\<lparr>pcb_mem := M[n := None], udp_pcbs := h\<rparr>)"
    if "plist M h (remove1 n ns)" "\<And>m. live_pcb M m = live_pcb (pcb_mem N) m"
      "\<And>m. m \<noteq> n \<Longrightarrow> endpoint (pcb_at M m) = endpoint (pcb_at (pcb_mem N) m)" for M h
  proof -
    have d: "distinct ns" "n \<notin> set (remove1 n ns)" using plist_distinct [OF l] by simp_all
    have "udp_wf (N\<lparr>pcb_mem := M[n := None], udp_pcbs := h\<rparr>) (remove1 n ns)"
      using that ns(1) d by (auto simp: udp_wf_def nth_update endpoint_def)
    moreover have "endpoints_apart (N\<lparr>pcb_mem := M[n := None], udp_pcbs := h\<rparr>) (remove1 n ns)"
      using that(3) ns(2) d by (auto simp: endpoints_apart_def inj_on_def nth_update)
    ultimately show ?thesis by (auto simp: udp_inv_def)
  qed
  show ?thesis
  proof (cases "udp_pcbs N = Some n")
    case True
    then obtain ks where ks: "ns = n # ks" "live_pcb (pcb_mem N) n" "plist (pcb_mem N) (pcb_next (pcb_at (pcb_mem N) n)) ks"
      using l by (cases ns) auto
    then have "N' = N\<lparr>pcb_mem := (pcb_mem N)[n := None], udp_pcbs := pcb_next (pcb_at (pcb_mem N) n)\<rparr>"
      using True assms(2) by (auto simp: udp_remove_def memp_free_pcb_def)
    with out [of "pcb_mem N" "pcb_next (pcb_at (pcb_mem N) n)"] ks show ?thesis by simp
  next
    case False
    show ?thesis
    proof (cases "n \<in> set ns")
      case True
      obtain ms m ks where eq: "ns = ms @ m # n # ks" using behind [OF l True False] .
      let ?M = "(pcb_mem N)[m := Some ((pcb_at (pcb_mem N) m)\<lparr>pcb_next := pcb_next (pcb_at (pcb_mem N) n)\<rparr>)]"
      have lv: "live_pcb (pcb_mem N) n" "live_pcb (pcb_mem N) m" using plist_live [OF l] by (simp_all add: eq)
      have d: "distinct ns" using plist_distinct [OF l] .
      have "N' = N\<lparr>pcb_mem := ?M[n := None]\<rparr>"
        using assms(2) False lv find_next [OF l [unfolded eq]]
        by (simp add: udp_remove_def memp_free_pcb_def search_list [OF l] eq)
      moreover have "remove1 n ns = ms @ m # ks" using d by (simp add: eq remove1_append)
      moreover have "live_pcb ?M k = live_pcb (pcb_mem N) k" "endpoint (pcb_at ?M k) = endpoint (pcb_at (pcb_mem N) k)" for k
        using lv by (auto simp: nth_update endpoint_def)
      ultimately show ?thesis using out [of ?M "udp_pcbs N"] plist_unlink [OF l [unfolded eq]] by simp
    next
      case out_of_list: False
      then have "N' = N\<lparr>pcb_mem := (pcb_mem N)[n := None]\<rparr>"
        using assms(2) False find_next_absent [OF l] by (auto simp: udp_remove_def memp_free_pcb_def search_list [OF l] outcome_simps)
      with out [of "pcb_mem N" "udp_pcbs N"] l out_of_list show ?thesis by (simp add: remove1_idem)
    qed
  qed
qed

lemma udp_remove_inv:
  assumes "udp_inv N" and "udp_remove N p = Ok N'" shows "udp_inv N'"
proof (cases p)
  case None
  obtain ns where "plist (pcb_mem N) (udp_pcbs N) ns" using assms(1) by (auto simp: udp_inv_def udp_wf_def)
  with assms None show ?thesis
    by (auto simp: udp_remove_def search_list memp_free_pcb_def deref_pcb_def find_None_iff outcome_simps split: if_splits)
next
  case (Some n)
  with assms show ?thesis by (simp add: removed_inv)
qed

end
