(* ===== verification/LwipUdpRun.thy ===== *)
theory LwipUdpRun
  imports LwipUdpOps
begin

text \<open>
  Demultiplexing on the list, and every way the state of UDP can be reached: the calls of
  applications in any order, received packets and whatever else happens to the buffers. In each
  reachable state the list is well-formed and no two blocks have the same local address and port.
\<close>

unbundle bit_operations_syntax

section \<open>Demultiplexing\<close>

definition unconnected :: "udp_pcb \<Rightarrow> bool" where
  "unconnected b \<longleftrightarrow> udp_flags b AND UDP_FLAGS_CONNECTED = 0"

lemma input_loop_none:
  assumes "plist M p ns" and "\<forall>n \<in> set ns. \<not> (L (pcb_at M n) \<and> R (pcb_at M n))"
  shows "\<exists>x. input_loop M L R p prev u =
    Some (Ok (None, x, if u = None then find (\<lambda>n. L (pcb_at M n) \<and> unconnected (pcb_at M n)) ns else u))"
  using assms
proof (induction ns arbitrary: p prev u)
  case (Cons n ns)
  let ?u = "if L (pcb_at M n) \<and> unconnected (pcb_at M n) \<and> u = None then Some n else u"
  have "input_loop M L R p prev u = input_loop M L R (pcb_next (pcb_at M n)) (Some n) ?u"
    using Cons.prems by (subst input_loop.simps) (auto simp: Let_def unconnected_def)
  with Cons.IH [of "pcb_next (pcb_at M n)" "Some n" ?u] Cons.prems show ?case by auto
qed (simp add: input_loop.simps)

lemma input_loop_some:
  assumes "plist M p (ms @ n # ks)" and "\<forall>m \<in> set ms. \<not> (L (pcb_at M m) \<and> R (pcb_at M m))"
    and "L (pcb_at M n)" and "R (pcb_at M n)"
  shows "\<exists>x. input_loop M L R p prev u = Some (Ok (Some n, if ms = [] then prev else Some (last ms), x))"
  using assms(1,2)
proof (induction ms arbitrary: p prev u)
  case Nil
  then show ?case using assms(3,4) by (subst input_loop.simps) (simp add: Let_def)
next
  case (Cons m ms)
  then show ?case by (subst input_loop.simps) (auto simp: Let_def)
qed

text \<open>The contract: a block that matches fully, otherwise the first unconnected one that matches locally.\<close>

definition receiver :: "pcb_store \<Rightarrow> nat list \<Rightarrow> (udp_pcb \<Rightarrow> bool) \<Rightarrow> (udp_pcb \<Rightarrow> bool) \<Rightarrow> nat option" where
  "receiver M ns L R =
     (case find (\<lambda>n. L (pcb_at M n) \<and> R (pcb_at M n)) ns of
        Some n \<Rightarrow> Some n
      | None \<Rightarrow> find (\<lambda>n. L (pcb_at M n) \<and> unconnected (pcb_at M n)) ns)"

definition fronted :: "pcb_store \<Rightarrow> nat list \<Rightarrow> (udp_pcb \<Rightarrow> bool) \<Rightarrow> (udp_pcb \<Rightarrow> bool) \<Rightarrow> nat list" where
  "fronted M ns L R =
     (case find (\<lambda>n. L (pcb_at M n) \<and> R (pcb_at M n)) ns of Some n \<Rightarrow> n # remove1 n ns | None \<Rightarrow> ns)"

definition same_data :: "pcb_store \<Rightarrow> pcb_store \<Rightarrow> bool" where
  "same_data M M' \<longleftrightarrow> length M' = length M \<and>
     (\<forall>n. live_pcb M' n = live_pcb M n \<and> (pcb_at M' n)\<lparr>pcb_next := None\<rparr> = (pcb_at M n)\<lparr>pcb_next := None\<rparr>)"

lemma same_data_field: "same_data M M' \<Longrightarrow> f ((pcb_at M' n)\<lparr>pcb_next := None\<rparr>) = f ((pcb_at M n)\<lparr>pcb_next := None\<rparr>)"
  by (simp add: same_data_def)

lemma same_data_fields:
  assumes "same_data M M'"
  shows "endpoint (pcb_at M' n) = endpoint (pcb_at M n)" "recv_fn (pcb_at M' n) = recv_fn (pcb_at M n)"
    "recv_arg (pcb_at M' n) = recv_arg (pcb_at M n)" "local_port (pcb_at M' n) = local_port (pcb_at M n)"
  using same_data_field [OF assms, of endpoint n] same_data_field [OF assms, of recv_fn n]
    same_data_field [OF assms, of recv_arg n] same_data_field [OF assms, of local_port n]
  by (simp_all add: endpoint_def)

lemma same_data_wf:
  assumes "same_data (pcb_mem N) M" and "plist M h ms" and "set ms = set ns" and "udp_wf N ns"
  shows "udp_wf (N\<lparr>pcb_mem := M, udp_pcbs := h\<rparr>) ms"
    and "endpoints_apart (N\<lparr>pcb_mem := M, udp_pcbs := h\<rparr>) ms = endpoints_apart N ns"
  using assms same_data_fields [OF assms(1)] by (auto simp: udp_wf_def endpoints_apart_def same_data_def)

lemma moved_to_front:
  assumes "plist (pcb_mem N) (udp_pcbs N) (ms @ m # n # ks)"
  obtains M where "move_to_front N (Some m) (Some n) = Ok (N\<lparr>pcb_mem := M, udp_pcbs := Some n\<rparr>)"
    "same_data (pcb_mem N) M" "plist M (Some n) (n # ms @ m # ks)"
proof -
  let ?M = "pcb_mem N"
  let ?M1 = "?M[m := Some ((pcb_at ?M m)\<lparr>pcb_next := pcb_next (pcb_at ?M n)\<rparr>)]"
  let ?M2 = "?M1[n := Some ((pcb_at ?M n)\<lparr>pcb_next := udp_pcbs N\<rparr>)]"
  have lv: "live_pcb ?M m" "live_pcb ?M n" using plist_live [OF assms] by simp_all
  have d: "distinct (ms @ m # n # ks)" using plist_distinct [OF assms] .
  have mn: "m \<noteq> n" using d by auto
  have "plist ?M2 (udp_pcbs N) (ms @ m # ks)" using plist_unlink [OF assms] d by simp
  then have "plist ?M2 (Some n) (n # ms @ m # ks)" using lv d mn by (auto simp: nth_update)
  moreover have "move_to_front N (Some m) (Some n) = Ok (N\<lparr>pcb_mem := ?M2, udp_pcbs := Some n\<rparr>)"
    using lv mn by (simp add: move_to_front_def Let_def nth_update)
  moreover have "same_data ?M ?M2" using lv by (auto simp: same_data_def nth_update)
  ultimately show ?thesis using that by blast
qed

lemma find_splitD:
  assumes "find P ns = Some n"
  obtains ms ks where "ns = ms @ n # ks" "P n" "\<forall>m \<in> set ms. \<not> P m"
proof -
  from assms obtain i where i: "i < length ns" "P (ns ! i)" "n = ns ! i" "\<forall>j < i. \<not> P (ns ! j)"
    by (auto simp: find_Some_iff)
  then have "ns = take i ns @ n # drop (Suc i) ns" by (simp add: id_take_nth_drop)
  moreover have "\<forall>m \<in> set (take i ns). \<not> P m" using i by (auto simp: in_set_conv_nth)
  ultimately show ?thesis using that i(2,3) by blast
qed

lemma find_receiver_list:
  fixes G inp bc src dest
  defines "L \<equiv> \<lambda>b. local_port b = dest \<and> udp_input_local_match G b inp bc" and "R \<equiv> remote_match G src"
  assumes "udp_wf N ns"
  obtains M h where "find_receiver N G inp bc src dest = Ok (receiver (pcb_mem N) ns L R, N\<lparr>pcb_mem := M, udp_pcbs := h\<rparr>)"
    "same_data (pcb_mem N) M" "plist M h (fronted (pcb_mem N) ns L R)" "set (fronted (pcb_mem N) ns L R) = set ns"
proof -
  have l: "plist (pcb_mem N) (udp_pcbs N) ns" using assms(3) by (simp add: udp_wf_def)
  have fr: "find_receiver N G inp bc src dest =
    bind_outcome (loop_result (input_loop (pcb_mem N) L R (udp_pcbs N) None None)) (\<lambda>(pcb, prev, uncon_pcb).
      if pcb = None then Ok (uncon_pcb, N)
      else if prev \<noteq> None then bind_outcome (move_to_front N prev pcb) (\<lambda>N. Ok (pcb, N)) else Ok (pcb, N))"
    by (simp add: find_receiver_def L_def R_def)
  have refl: "same_data (pcb_mem N) (pcb_mem N)" by (simp add: same_data_def)
  show ?thesis
  proof (cases "find (\<lambda>n. L (pcb_at (pcb_mem N) n) \<and> R (pcb_at (pcb_mem N) n)) ns")
    case None
    then obtain x where "input_loop (pcb_mem N) L R (udp_pcbs N) None None =
      Some (Ok (None, x, find (\<lambda>n. L (pcb_at (pcb_mem N) n) \<and> unconnected (pcb_at (pcb_mem N) n)) ns))"
      using input_loop_none [OF l, of L R None None] by (auto simp: find_None_iff)
    with None l refl show ?thesis
      by (intro that [where M = "pcb_mem N" and h = "udp_pcbs N"]) (simp_all add: fr loop_result_def receiver_def fronted_def)
  next
    case (Some n)
    obtain ms ks where s: "ns = ms @ n # ks" "L (pcb_at (pcb_mem N) n)" "R (pcb_at (pcb_mem N) n)"
      "\<forall>m \<in> set ms. \<not> (L (pcb_at (pcb_mem N) m) \<and> R (pcb_at (pcb_mem N) m))" using find_splitD [OF Some] by blast
    obtain x where x: "input_loop (pcb_mem N) L R (udp_pcbs N) None None =
      Some (Ok (Some n, if ms = [] then None else Some (last ms), x))"
      using input_loop_some [OF l [unfolded s(1)] s(4,2,3)] by blast
    have rem: "remove1 n ns = ms @ ks" "set (n # remove1 n ns) = set ns"
      using plist_distinct [OF l] by (auto simp: s(1) remove1_append)
    show ?thesis
    proof (cases "ms = []")
      case True
      with x Some l refl rem s(1) show ?thesis
        by (intro that [where M = "pcb_mem N" and h = "udp_pcbs N"]) (auto simp: fr loop_result_def receiver_def fronted_def)
    next
      case False
      then have "ns = butlast ms @ last ms # n # ks" by (simp add: s(1))
      with l obtain M where M: "move_to_front N (Some (last ms)) (Some n) = Ok (N\<lparr>pcb_mem := M, udp_pcbs := Some n\<rparr>)"
        "same_data (pcb_mem N) M" "plist M (Some n) (n # butlast ms @ last ms # ks)" using moved_to_front by metis
      have "butlast ms @ last ms # ks = remove1 n ns" unfolding rem(1) using False by simp
      with M False x Some rem(2) show ?thesis
        by (intro that [where M = M and h = "Some n"]) (simp_all add: fr loop_result_def receiver_def fronted_def)
    qed
  qed
qed

lemma find_receiver_inv:
  assumes "udp_inv N" and "find_receiver N G inp bc src dest = Ok (pcb, N')"
  shows "udp_inv N'" and "net_pbufs N' = net_pbufs N"
proof -
  obtain ns where ns: "udp_wf N ns" "endpoints_apart N ns" using assms(1) by (auto simp: udp_inv_def)
  let ?ms = "fronted (pcb_mem N) ns (\<lambda>b. local_port b = dest \<and> udp_input_local_match G b inp bc) (remote_match G src)"
  obtain M h where "N' = N\<lparr>pcb_mem := M, udp_pcbs := h\<rparr>" "same_data (pcb_mem N) M" "plist M h ?ms" "set ?ms = set ns"
    by (rule find_receiver_list [OF ns(1), of G inp bc src dest]) (use assms(2) in auto)
  with same_data_wf [of N M h ?ms ns] ns show "udp_inv N'" "net_pbufs N' = net_pbufs N" by (auto simp: udp_inv_def)
qed

lemma udp_deliver_same: "udp_deliver E N G p inp bc src pcb = Ok N' \<Longrightarrow> udp_same N N'"
  unfolding udp_deliver_def Let_def
  by (auto simp: outcome_simps split: if_split_asm option.split_asm dest!: free_packet_same)

lemma udp_input_inv:
  assumes "udp_inv N" and "udp_input E N G p inp = Ok N'" shows "udp_inv N'"
proof -
  have "udp_same N N' \<or> (\<exists>bc src dest pcb N1. find_receiver N G inp bc src dest = Ok (pcb, N1) \<and> udp_same N1 N')"
    using assms(2) unfolding udp_input_def Let_def
    by (auto simp: outcome_simps split: if_split_asm dest: free_packet_same udp_deliver_same)
  then show ?thesis using assms(1) find_receiver_inv(1) udp_inv_same by blast
qed

lemma ip4_unknown_same: "ip4_unknown E N p hlen k = Ok N' \<Longrightarrow> udp_same N N'"
  by (auto simp: ip4_unknown_def Let_def outcome_simps dest!: free_packet_same)

lemma udp_inv_pbufs [simp]:
  "udp_inv (N\<lparr>net_pbufs := S\<rparr>) = udp_inv N" "udp_inv (N\<lparr>events := ev\<rparr>) = udp_inv N" "udp_inv (N\<lparr>ip_id := i\<rparr>) = udp_inv N"
  by (rule udp_inv_same, simp)+

lemma free_packet_inv: "free_packet_of N p = Ok N' \<Longrightarrow> udp_inv N' = udp_inv N"
  by (rule udp_inv_same [OF free_packet_same])

lemma ip4_unknown_inv: "ip4_unknown E N p hlen k = Ok N' \<Longrightarrow> udp_inv N' = udp_inv N"
  by (rule udp_inv_same [OF ip4_unknown_same])

lemma ip4_dispatch_inv:
  assumes "udp_inv N" and "ip4_dispatch E N p inp n hlen src dest = Ok N'" shows "udp_inv N'"
proof -
  have N: "udp_inv (N\<lparr>net_pbufs := S\<rparr>)" for S using assms(1) by simp
  show ?thesis
    using assms unfolding ip4_dispatch_def Let_def bind_outcome_Ok_iff
    by (elim exE conjE) (auto simp: bind_outcome_Ok_iff split: if_split_asm prod.split_asm
      dest!: udp_input_inv [OF N] free_packet_inv ip4_unknown_inv)
qed

lemma ip4_accept_inv:
  assumes "udp_inv N" and "ip4_accept E N p inp hlen = Ok N'" shows "udp_inv N'"
proof -
  have N: "udp_inv (N\<lparr>net_pbufs := S\<rparr>)" for S using assms(1) by simp
  show ?thesis
    using assms unfolding ip4_accept_def Let_def bind_outcome_Ok_iff
    by (elim exE conjE) (auto simp: bind_outcome_Ok_iff split: if_split_asm option.split_asm
      dest: ip4_dispatch_inv [OF N] ip4_dispatch_inv [OF assms(1)] free_packet_inv)
qed

lemma ip4_input_inv:
  assumes "udp_inv N" and "ip4_input E N p inp = Ok N'" shows "udp_inv N'"
proof -
  have N: "udp_inv (N\<lparr>net_pbufs := S\<rparr>)" for S using assms(1) by simp
  show ?thesis
    using assms unfolding ip4_input_def Let_def bind_outcome_Ok_iff
    by (elim exE conjE) (auto simp: bind_outcome_Ok_iff split: if_split_asm
      dest: ip4_accept_inv [OF N] ip4_accept_inv [OF assms(1)] free_packet_inv)
qed

section \<open>Sending and changed addresses\<close>

lemma udp_send_bound_same: "udp_send_bound E N pcb p dst port n src = Ok (err, N') \<Longrightarrow> udp_same N N'"
  unfolding udp_send_bound_def bind_outcome_Ok_iff
  by (elim exE conjE)
    (auto simp: bind_outcome_Ok_iff udp_same_def split: if_split_asm prod.split_asm
      dest!: header_room_same output_same free_packet_same)

lemma udp_sendto_if_src_inv:
  assumes "udp_inv N" and "udp_sendto_if_src E N pcb p dst port n src = Ok (err, N')" shows "udp_inv N'"
proof (cases "pcb = None \<or> dst = None")
  case True
  with assms show ?thesis by (auto simp: udp_sendto_if_src_def)
next
  case False
  with assms(2) obtain b :: udp_pcb and e N1 where b:
    "(if local_port b = 0 then udp_bind N pcb (Some (local_ip b)) (local_port b) else Ok (ERR_OK, N)) = Ok (e, N1)"
    "(if e \<noteq> ERR_OK then Ok (e, N1) else udp_send_bound E N1 pcb p dst port n src) = Ok (err, N')"
    unfolding udp_sendto_if_src_def by (simp only: bind_outcome_Ok_iff if_False split_paired_Ex case_prod_conv) blast
  then have "udp_inv N1" using assms(1) udp_inv_bind by (auto split: if_split_asm)
  with b(2) udp_inv_same [OF udp_send_bound_same] show ?thesis by (auto split: if_split_asm)
qed

lemma udp_send_inv:
  assumes "udp_inv N"
  shows "udp_sendto_if E N pcb p dst port n = Ok (err, N') \<Longrightarrow> udp_inv N'"
    and "udp_sendto E N pcb p dst port = Ok (err, N') \<Longrightarrow> udp_inv N'"
    and "udp_send E N pcb p = Ok (err, N') \<Longrightarrow> udp_inv N'"
proof -
  have 1: "udp_sendto_if E N pcb p dst port n = Ok (err, N') \<Longrightarrow> udp_inv N'" for pcb p dst port n err N'
    using assms unfolding udp_sendto_if_def
    by (auto simp: bind_outcome_Ok_iff split: if_split_asm dest: udp_sendto_if_src_inv)
  have 2: "udp_sendto E N pcb p dst port = Ok (err, N') \<Longrightarrow> udp_inv N'" for pcb p dst port err N'
    using assms unfolding udp_sendto_def by (auto split: if_split_asm option.split_asm dest: 1)
  show "udp_sendto_if E N pcb p dst port n = Ok (err, N') \<Longrightarrow> udp_inv N'" by (rule 1)
  show "udp_sendto E N pcb p dst port = Ok (err, N') \<Longrightarrow> udp_inv N'" by (rule 2)
  show "udp_send E N pcb p = Ok (err, N') \<Longrightarrow> udp_inv N'"
    using assms unfolding udp_send_def by (auto simp: bind_outcome_Ok_iff split: if_split_asm dest: 2)
qed

lemma addr_changed_list:
  assumes "plist M p ns"
  shows "\<exists>M'. addr_changed_loop M p a a' = Some (Ok M') \<and> (\<forall>n. live_pcb M' n = live_pcb M n \<and>
    pcb_at M' n = (if n \<in> set ns \<and> local_ip (pcb_at M n) = a then (pcb_at M n)\<lparr>local_ip := a'\<rparr> else pcb_at M n))"
  using assms
proof (induction ns arbitrary: M p)
  case (Cons n ns)
  define M1 where "M1 = (if local_ip (pcb_at M n) = a then M[n := Some ((pcb_at M n)\<lparr>local_ip := a'\<rparr>)] else M)"
  have n: "p = Some n" "live_pcb M n" "n \<notin> set ns" "plist M (pcb_next (pcb_at M n)) ns" using Cons.prems by simp_all
  then have "plist M1 (pcb_next (pcb_at M n)) ns" by (simp add: M1_def)
  from Cons.IH [OF this] obtain M' where M': "addr_changed_loop M1 (pcb_next (pcb_at M n)) a a' = Some (Ok M')"
    "\<And>k. live_pcb M' k = live_pcb M1 k"
    "\<And>k. pcb_at M' k = (if k \<in> set ns \<and> local_ip (pcb_at M1 k) = a then (pcb_at M1 k)\<lparr>local_ip := a'\<rparr> else pcb_at M1 k)" by blast
  have "addr_changed_loop M p a a' = addr_changed_loop M1 (pcb_next (pcb_at M n)) a a'"
    using n by (subst addr_changed_loop.simps) (simp add: M1_def)
  moreover have "live_pcb M1 k = live_pcb M k"
    "pcb_at M1 k = (if k = n \<and> local_ip (pcb_at M n) = a then (pcb_at M n)\<lparr>local_ip := a'\<rparr> else pcb_at M k)" for k
    using n(2) by (auto simp: nth_update M1_def)
  ultimately show ?case using M' n(3) by (intro exI [of _ M']) auto
qed (simp add: addr_changed_loop.simps)

text \<open>No block with the old address has the port of one with the new address.\<close>

definition no_clash :: "net \<Rightarrow> u32 option \<Rightarrow> u32 option \<Rightarrow> bool" where
  "no_clash N a a' \<longleftrightarrow> (\<forall>m n. live_pcb (pcb_mem N) m \<and> live_pcb (pcb_mem N) n \<and> m \<noteq> n \<and>
     Some (local_ip (pcb_at (pcb_mem N) m)) = a \<and> Some (local_ip (pcb_at (pcb_mem N) n)) = a' \<longrightarrow>
     local_port (pcb_at (pcb_mem N) m) \<noteq> local_port (pcb_at (pcb_mem N) n) \<or> local_port (pcb_at (pcb_mem N) n) = 0)"

lemma udp_netif_ip_addr_changed_wf:
  assumes "udp_wf N ns"
  obtains M where "udp_netif_ip_addr_changed N a a' = Ok (N\<lparr>pcb_mem := M\<rparr>)" "udp_wf (N\<lparr>pcb_mem := M\<rparr>) ns"
    "no_clash N a a' \<Longrightarrow> endpoints_apart N ns \<Longrightarrow> endpoints_apart (N\<lparr>pcb_mem := M\<rparr>) ns"
proof (cases "a \<noteq> None \<and> a' \<noteq> None \<and> a \<noteq> Some 0 \<and> a' \<noteq> Some 0")
  case False
  then have "udp_netif_ip_addr_changed N a a' = Ok (N\<lparr>pcb_mem := pcb_mem N\<rparr>)"
    by (auto simp: udp_netif_ip_addr_changed_def split: option.split)
  with that [of "pcb_mem N"] assms show ?thesis by simp
next
  case True
  then obtain old new where a: "a = Some old" "a' = Some new" "old \<noteq> 0" "new \<noteq> 0" by auto
  have l: "plist (pcb_mem N) (udp_pcbs N) ns" using assms by (simp add: udp_wf_def)
  from addr_changed_list [OF l, of old new] obtain M where
    M: "addr_changed_loop (pcb_mem N) (udp_pcbs N) old new = Some (Ok M)"
    "\<And>n. live_pcb M n = live_pcb (pcb_mem N) n"
    "\<And>n. pcb_at M n = (if n \<in> set ns \<and> local_ip (pcb_at (pcb_mem N) n) = old
       then (pcb_at (pcb_mem N) n)\<lparr>local_ip := new\<rparr> else pcb_at (pcb_mem N) n)" by blast
  have "plist M (udp_pcbs N) ns" by (rule plist_cong [OF _ l]) (use plist_live [OF l] in \<open>auto simp: M(2,3)\<close>)
  then have "udp_wf (N\<lparr>pcb_mem := M\<rparr>) ns" using assms by (auto simp: udp_wf_def M(2,3))
  moreover have "endpoints_apart (N\<lparr>pcb_mem := M\<rparr>) ns" if "no_clash N a a'" "endpoints_apart N ns"
  proof -
    have "local_port (pcb_at (pcb_mem N) m) \<noteq> local_port (pcb_at (pcb_mem N) n)"
      if "m \<in> set ns" "n \<in> set ns" "m \<noteq> n" "local_ip (pcb_at (pcb_mem N) m) = old" "local_ip (pcb_at (pcb_mem N) n) = new" for m n
      using \<open>no_clash N a a'\<close> that plist_live [OF l] assms by (auto simp: no_clash_def a udp_wf_def)
    with that(2) show ?thesis
      by (auto simp: endpoints_apart_def inj_on_def endpoint_def M(3)) (metis+)?
  qed
  moreover have "udp_netif_ip_addr_changed N a a' = Ok (N\<lparr>pcb_mem := M\<rparr>)"
    using a M(1) by (simp add: udp_netif_ip_addr_changed_def loop_result_def)
  ultimately show ?thesis using that by blast
qed

section \<open>Runs\<close>

text \<open>
  Everything that happens to UDP: the calls of applications, received packets, and (\<open>other\<close>) any
  change of the buffers and of the trace by the rest of the system. A change of an address of an
  interface is taken up to a clash, see \<open>no_clash\<close>.
\<close>

inductive udp_reach :: "net_env \<Rightarrow> net \<Rightarrow> bool" for E where
  start: "udp_reach E (net_start S)"
| other: "udp_reach E N \<Longrightarrow> udp_reach E (N\<lparr>net_pbufs := S, ip_id := i, events := ev\<rparr>)"
| new: "udp_reach E N \<Longrightarrow> udp_new E N = (pcb, N') \<Longrightarrow> udp_reach E N'"
| bind: "udp_reach E N \<Longrightarrow> udp_bind N pcb a port = Ok (err, N') \<Longrightarrow> udp_reach E N'"
| connect: "udp_reach E N \<Longrightarrow> udp_connect N pcb a port = Ok (err, N') \<Longrightarrow> udp_reach E N'"
| disconnect: "udp_reach E N \<Longrightarrow> udp_disconnect N pcb = Ok N' \<Longrightarrow> udp_reach E N'"
| recv: "udp_reach E N \<Longrightarrow> udp_recv N pcb fn arg = Ok N' \<Longrightarrow> udp_reach E N'"
| remove: "udp_reach E N \<Longrightarrow> udp_remove N pcb = Ok N' \<Longrightarrow> udp_reach E N'"
| addr_changed: "udp_reach E N \<Longrightarrow> no_clash N a a' \<Longrightarrow> udp_netif_ip_addr_changed N a a' = Ok N' \<Longrightarrow> udp_reach E N'"
| input: "udp_reach E N \<Longrightarrow> ip4_input E N p inp = Ok N' \<Longrightarrow> udp_reach E N'"
| send: "udp_reach E N \<Longrightarrow> udp_send E N pcb p = Ok (err, N') \<Longrightarrow> udp_reach E N'"
| sendto: "udp_reach E N \<Longrightarrow> udp_sendto E N pcb p dst port = Ok (err, N') \<Longrightarrow> udp_reach E N'"
| sendto_if: "udp_reach E N \<Longrightarrow> udp_sendto_if E N pcb p dst port n = Ok (err, N') \<Longrightarrow> udp_reach E N'"
| sendto_if_src: "udp_reach E N \<Longrightarrow> udp_sendto_if_src E N pcb p dst port n src = Ok (err, N') \<Longrightarrow> udp_reach E N'"

lemma addr_changed_inv:
  assumes "udp_inv N" and "no_clash N a a'" and "udp_netif_ip_addr_changed N a a' = Ok N'" shows "udp_inv N'"
proof -
  obtain ns where ns: "udp_wf N ns" "endpoints_apart N ns" using assms(1) by (auto simp: udp_inv_def)
  show ?thesis by (rule udp_netif_ip_addr_changed_wf [OF ns(1), of a a']) (use assms(2,3) ns in \<open>auto simp: udp_inv_def\<close>)
qed

lemma udp_reach_inv: "udp_reach E N \<Longrightarrow> udp_inv N"
proof (induction rule: udp_reach.induct)
  case (start S)
  have "udp_wf (net_start S) []" by (simp add: udp_wf_def net_start_def live_pcb_def)
  then show ?case by (auto simp: udp_inv_def endpoints_apart_def)
qed (auto intro: udp_new_inv udp_inv_bind udp_connect_inv udp_disconnect_inv udp_recv_inv udp_remove_inv addr_changed_inv
  ip4_input_inv udp_send_inv udp_sendto_if_src_inv)

text \<open>Calls on a block that was not given back return.\<close>

lemma udp_bind_returns:
  assumes "udp_wf N ns" and "live_pcb (pcb_mem N) n"
  shows "\<exists>err N'. udp_bind N (Some n) a port = Ok (err, N') \<and> err \<in> {ERR_OK, ERR_USE}"
proof (cases "port = 0")
  case True
  show ?thesis by (rule udp_bind_any [OF assms(1), of n a]) (use True assms(2) in auto)
next
  case False
  with udp_bind_port [OF assms(1) False, of n a] assms(2) show ?thesis by (auto simp: Let_def)
qed

lemma udp_connect_returns:
  assumes "udp_inv N" and "live_pcb (pcb_mem N) n"
  shows "\<exists>r. udp_connect N (Some n) a port = Ok r"
proof (cases a)
  case None
  then show ?thesis by (simp add: udp_connect_def)
next
  case (Some ip)
  obtain ns where ns: "udp_wf N ns" "endpoints_apart N ns" using assms(1) by (auto simp: udp_inv_def)
  let ?b = "pcb_at (pcb_mem N) n"
  obtain err N1 where 1: "(if local_port ?b = 0 then udp_bind N (Some n) (Some (local_ip ?b)) (local_port ?b) else Ok (ERR_OK, N)) = Ok (err, N1)"
    using udp_bind_returns [OF ns(1) assms(2), of "Some (local_ip ?b)" "local_port ?b"] by (cases "local_port ?b = 0") fastforce+
  have 2: "udp_inv N1" "err = ERR_OK \<Longrightarrow> live_pcb (pcb_mem N1) n"
    using 1 udp_bind_inv [OF ns, of "Some n"] assms by (auto split: if_split_asm)
  show ?thesis
  proof (cases "err = ERR_OK")
    case False
    with 1 Some assms(2) show ?thesis by (simp add: udp_connect_def)
  next
    case True
    let ?c = "(pcb_at (pcb_mem N1) n)\<lparr>remote_ip := ip, remote_port := port,
      udp_flags := udp_flags (pcb_at (pcb_mem N1) n) OR UDP_FLAGS_CONNECTED\<rparr>"
    let ?N = "N1\<lparr>pcb_mem := (pcb_mem N1)[n := Some ?c]\<rparr>"
    have "udp_inv ?N" using 2 True by (intro data_udp_inv) (simp_all add: endpoint_def)
    then obtain ms where "plist (pcb_mem ?N) (udp_pcbs ?N) ms" by (auto simp: udp_inv_def udp_wf_def)
    from search_list [OF this, of "\<lambda>m b. n = m"] obtain x where "search_pcbs ?N (\<lambda>m b. n = m) = Ok x" by blast
    with 1 2(2) True Some assms(2) show ?thesis by (cases x) (simp_all add: udp_connect_def Let_def)
  qed
qed

lemma udp_remove_returns:
  assumes "udp_wf N ns" and "live_pcb (pcb_mem N) n"
  shows "\<exists>N'. udp_remove N (Some n) = Ok N' \<and> \<not> live_pcb (pcb_mem N') n"
proof -
  have l: "plist (pcb_mem N) (udp_pcbs N) ns" using assms(1) by (simp add: udp_wf_def)
  show ?thesis
  proof (cases "udp_pcbs N = Some n \<or> n \<notin> set ns")
    case True
    with find_next_absent [OF l, of n] assms(2) show ?thesis
      by (auto simp: udp_remove_def memp_free_pcb_def search_list [OF l])
  next
    case False
    then obtain ms m ks where eq: "ns = ms @ m # n # ks" using behind [OF l, of n] by blast
    have "live_pcb (pcb_mem N) m" using plist_live [OF l] by (simp add: eq)
    with False find_next [OF l [unfolded eq]] assms(2) show ?thesis
      by (simp add: udp_remove_def memp_free_pcb_def search_list [OF l] eq)
  qed
qed

end
