(* ===== verification/LwipPacket.thy ===== *)
theory LwipPacket
  imports LwipPbuf
begin

text \<open>
  Packets: a well-formed chain of pbufs as the list of its objects, and what the functions of
  \<open>pbuf.c\<close> do to such a list and to its contents. \<open>linked\<close> says that the links of the store run
  through the objects of the list, \<open>sized\<close> that each payload lies inside its memory and that the
  totals add up; the latter is the invariant that the header file states for \<open>tot_len\<close>.
\<close>

section \<open>Chains in the store\<close>

type_synonym chunks = "(nat \<times> pbuf) list"

definition data_of :: "pbuf \<Rightarrow> u8 list" where
  "data_of q = take (unat (len q)) (drop (payload q) (area q))"

definition contents :: "chunks \<Rightarrow> u8 list" where
  "contents qs = concat (map (\<lambda>(n, q). data_of q) qs)"

definition sound :: "pbuf \<Rightarrow> bool" where
  "sound q \<longleftrightarrow> payload q + unat (len q) \<le> length (area q)"

abbreviation addrs :: "chunks \<Rightarrow> nat set" where
  "addrs qs \<equiv> fst ` set qs"

fun linked :: "pbuf_store \<Rightarrow> nat option \<Rightarrow> chunks \<Rightarrow> bool" where
  "linked S p [] \<longleftrightarrow> p = None"
| "linked S p ((n, q) # qs) \<longleftrightarrow>
     p = Some n \<and> n < length S \<and> S ! n = Some q \<and> n \<notin> addrs qs \<and> linked S (pb_next q) qs"

fun sized :: "chunks \<Rightarrow> bool" where
  "sized [] \<longleftrightarrow> True"
| "sized ((n, q) # qs) \<longleftrightarrow> sound q \<and> unat (tot_len q) = unat (len q) + length (contents qs) \<and> sized qs"

definition packet :: "pbuf_store \<Rightarrow> nat option \<Rightarrow> chunks \<Rightarrow> bool" where
  "packet S p qs \<longleftrightarrow> linked S p qs \<and> sized qs"

lemma contents_simps [simp]:
  "contents [] = []" "contents ((n, q) # qs) = data_of q @ contents qs" "contents (qs @ qs') = contents qs @ contents qs'"
  by (simp_all add: contents_def)

lemma length_data_of [simp]: "sound q \<Longrightarrow> length (data_of q) = unat (len q)"
  by (simp add: data_of_def sound_def)

lemma packet_Nil [simp]: "packet S p [] \<longleftrightarrow> p = None"
  by (simp add: packet_def)

lemma packet_Cons: "packet S p ((n, q) # qs) \<longleftrightarrow>
    p = Some n \<and> n < length S \<and> S ! n = Some q \<and> n \<notin> addrs qs \<and> sound q \<and>
    unat (tot_len q) = unat (len q) + length (contents qs) \<and> packet S (pb_next q) qs"
  by (auto simp: packet_def)

lemma sized_append: "sized (qs @ qs') \<Longrightarrow> sized qs'"
  by (induction qs rule: sized.induct) auto

lemma sized_tot_len: "sized ((n, q) # qs) \<Longrightarrow> length (contents ((n, q) # qs)) = unat (tot_len q)"
  by simp

lemma deref_Some [simp]: "n < length S \<Longrightarrow> S ! n = Some q \<Longrightarrow> deref S (Some n) = Ok q"
  by (simp add: deref_def)

lemma set_pbuf_Some [simp]: "set_pbuf S (Some n) q = S[n := Some q]"
  by (simp add: set_pbuf_def)

lemma linked_update [simp]: "n \<notin> addrs qs \<Longrightarrow> linked (S[n := x]) p qs = linked S p qs"
  by (induction qs arbitrary: p) auto

lemma linked_append: "linked S p qs \<Longrightarrow> linked (S @ xs) p qs"
  by (induction qs arbitrary: p) (auto simp: nth_append)

lemma linked_live: "linked S p qs \<Longrightarrow> (n, q) \<in> set qs \<Longrightarrow> n < length S \<and> S ! n = Some q"
  by (induction qs arbitrary: p) auto

text \<open>The loops unfold along a packet.\<close>

lemmas pbuf_loops = clen_loop.simps skip_loop.simps partial_loop.simps pbuf_take_loop.simps

lemma read_sound:
  "sound q \<Longrightarrow> off + n \<le> unat (len q) \<Longrightarrow> read_pbuf q off n = Ok (take n (drop off (data_of q)))"
  by (auto simp: read_pbuf_def sound_def data_of_def take_drop drop_drop add.commute min_def)

section \<open>Reading\<close>

lemma skip_packet:
  assumes "packet S p qs"
  shows "if unat off < length (contents qs)
    then \<exists>pre n q post idx. qs = pre @ (n, q) # post \<and> skip_loop S p off = Some (Ok (Some n, idx)) \<and>
      unat off = length (contents pre) + unat idx \<and> unat idx < unat (len q)
    else skip_loop S p off = Some (Ok (None, off - word_of_nat (length (contents qs))))"
  using assms
proof (induction qs arbitrary: p off)
  case Nil
  then show ?case by (simp add: skip_loop.simps)
next
  case (Cons x qs)
  obtain n q where x: "x = (n, q)" by fastforce
  note pk = Cons.prems [unfolded x packet_Cons]
  show ?case
  proof (cases "len q \<le> off")
    case False
    then have "skip_loop S p off = Some (Ok (Some n, off))" using pk by (subst skip_loop.simps) simp
    with False pk show ?thesis by (force simp: x word_le_nat_alt)
  next
    case True
    then have step: "skip_loop S p off = skip_loop S (pb_next q) (off - len q)" using pk by (subst skip_loop.simps) simp
    have off: "unat (off - len q) = unat off - unat (len q)" using True by (simp add: unat_sub word_le_nat_alt)
    have le: "unat (len q) \<le> unat off" using True by (simp add: word_le_nat_alt)
    have IH: "if unat (off - len q) < length (contents qs)
      then \<exists>pre n q' post idx. qs = pre @ (n, q') # post \<and> skip_loop S p off = Some (Ok (Some n, idx)) \<and>
        unat (off - len q) = length (contents pre) + unat idx \<and> unat idx < unat (len q')
      else skip_loop S p off = Some (Ok (None, off - len q - word_of_nat (length (contents qs))))"
      using Cons.IH [of "pb_next q" "off - len q"] pk unfolding step by blast
    show ?thesis
    proof (cases "unat (off - len q) < length (contents qs)")
      case True
      with IH obtain pre m q' post idx where h: "qs = pre @ (m, q') # post" "skip_loop S p off = Some (Ok (Some m, idx))"
        "unat (off - len q) = length (contents pre) + unat idx" "unat idx < unat (len q')" by auto
      then have "x # qs = (x # pre) @ (m, q') # post" "unat off = length (contents (x # pre)) + unat idx"
        using pk off le by (simp_all add: x)
      moreover have "unat off < length (contents (x # qs))" using True pk off by (simp add: x)
      ultimately show ?thesis using h by metis
    next
      case False
      have "off - len q - word_of_nat (length (contents qs)) = off - word_of_nat (length (contents (x # qs)))"
        using pk by (simp add: x diff_diff_eq)
      moreover have "\<not> unat off < length (contents (x # qs))" using False pk off le by (simp add: x)
      ultimately show ?thesis using IH False by simp
    qed
  qed
qed

lemma get_at_packet:
  assumes "packet S p qs"
  shows "pbuf_get_at S p off = Ok (if unat off < length (contents qs) then contents qs ! unat off else 0)"
proof (cases "unat off < length (contents qs)")
  case False
  with skip_packet [OF assms, of off] show ?thesis
    by (simp add: pbuf_get_at_def pbuf_try_get_at_def pbuf_skip_def loop_result_def)
next
  case True
  with skip_packet [OF assms, of off] obtain pre n q post idx where
    h: "qs = pre @ (n, q) # post" "skip_loop S p off = Some (Ok (Some n, idx))"
    "unat off = length (contents pre) + unat idx" "unat idx < unat (len q)" by auto
  have q: "n < length S" "S ! n = Some q" "sound q"
    using assms linked_live [of S p qs n q] sized_append [of pre "(n, q) # post"] by (auto simp: packet_def h(1))
  have "contents qs ! unat off = data_of q ! unat idx"
    using h(3,4) q(3) by (simp add: h(1) nth_append)
  moreover have "read_pbuf q (unat idx) 1 = Ok [data_of q ! unat idx]"
    using read_sound [OF q(3), of "unat idx" 1] h(4) q(3) by (simp add: take_Suc_conv_app_nth [of 0] hd_drop_conv_nth take_Suc)
  ultimately show ?thesis
    using h(2,4) q True
    by (simp add: pbuf_get_at_def pbuf_try_get_at_def pbuf_skip_def loop_result_def word_less_nat_alt)
qed

text \<open>\<open>pbuf_copy_partial\<close> stores the bytes from the offset on, as many as there are.\<close>

lemma partial_loop_packet:
  "packet S p qs \<Longrightarrow>
   partial_loop S p n off c d =
     Some (Ok (c + word_of_nat (length (take (unat n) (drop (unat off) (contents qs)))),
               d @ take (unat n) (drop (unat off) (contents qs))))"
proof (induction qs arbitrary: p n off c d)
  case Nil
  then show ?case by (simp add: partial_loop.simps)
next
  case (Cons x qs)
  obtain m q where x: "x = (m, q)" by fastforce
  note pk = Cons.prems [unfolded x packet_Cons]
  consider "n = 0" | "n \<noteq> 0" "off \<noteq> 0" "len q \<le> off" | "n \<noteq> 0" "off = 0 \<or> off < len q" by force
  then show ?case
  proof cases
    case 1
    then show ?thesis by (simp add: partial_loop.simps)
  next
    case 2
    then have "partial_loop S p n off c d = partial_loop S (pb_next q) n (off - len q) c d"
      using pk by (subst partial_loop.simps) simp
    moreover have "unat (off - len q) = unat off - unat (len q)" using 2 by (simp add: unat_sub word_le_nat_alt)
    moreover have "drop (unat off) (contents (x # qs)) = drop (unat off - unat (len q)) (contents qs)"
      using 2 pk by (simp add: x word_le_nat_alt)
    ultimately show ?thesis using Cons.IH [of "pb_next q"] pk by simp
  next
    case 3
    define k where "k = (if len q - off > n then n else len q - off)"
    have le: "unat off \<le> unat (len q)" using 3 by (auto simp: word_less_nat_alt)
    then have sub: "unat (len q - off) = unat (len q) - unat off" by (simp add: unat_sub word_le_nat_alt)
    have k: "unat k = min (unat n) (unat (len q) - unat off)" by (auto simp: k_def word_less_nat_alt sub min_def)
    have nk: "unat (n - k) = unat n - unat k" using k by (simp add: unat_sub word_le_nat_alt)
    have rd: "read_pbuf q (unat off) (unat k) = Ok (take (unat k) (drop (unat off) (data_of q)))"
      using pk k le by (intro read_sound) auto
    have skip: "\<not> (off \<noteq> 0 \<and> len q \<le> off)" using 3 by auto
    have step: "partial_loop S p n off c d =
        partial_loop S (pb_next q) (n - k) 0 (c + k) (d @ take (unat k) (drop (unat off) (data_of q)))"
      using 3(1) pk skip rd unfolding k_def by (subst partial_loop.simps) (auto simp: Let_def)
    have all: "take (unat n) (drop (unat off) (contents (x # qs))) =
        take (unat k) (drop (unat off) (data_of q)) @ take (unat n - unat k) (contents qs)"
      using pk le k by (auto simp: x min_def)
    have "length (take (unat k) (drop (unat off) (data_of q))) = unat k" using pk k by simp
    then have "c + k + word_of_nat (length (take (unat n - unat k) (contents qs))) =
        c + word_of_nat (length (take (unat n) (drop (unat off) (contents (x # qs)))))"
      unfolding all by (simp add: add.assoc del: of_nat_diff)
    then show ?thesis unfolding step using Cons.IH [of "pb_next q"] pk by (simp add: nk all)
  qed
qed

lemma copy_partial_packet:
  assumes "packet S p qs"
  shows "pbuf_copy_partial S p n off =
    Ok (word_of_nat (length (take (unat n) (drop (unat off) (contents qs)))), take (unat n) (drop (unat off) (contents qs)))"
proof (cases qs)
  case Nil
  with assms show ?thesis by (simp add: pbuf_copy_partial_def)
next
  case (Cons x xs)
  then obtain n where "p = Some n" using assms by (cases x) (simp add: packet_def)
  then show ?thesis
    using partial_loop_packet [OF assms, of n off 0 "[]" for n] by (simp add: pbuf_copy_partial_def loop_result_def)
qed

lemma clen_packet:
  assumes "packet S p qs"
  shows "pbuf_clen S p = Ok (word_of_nat (length qs))"
proof -
  have "linked S p qs \<Longrightarrow> clen_loop S p n = Some (Ok (n + word_of_nat (length qs)))" for n
    by (induction qs arbitrary: p n) (auto simp: clen_loop.simps add.assoc)
  with assms show ?thesis by (simp add: pbuf_clen_def loop_result_def packet_def)
qed

section \<open>Giving back\<close>

definition release_all :: "pbuf_store \<Rightarrow> chunks \<Rightarrow> pbuf_store" where
  "release_all S qs = foldl (\<lambda>S (n, q). S[n := None]) S qs"

lemma release_all_simps [simp]:
  "release_all S [] = S" "release_all S ((n, q) # qs) = release_all (S[n := None]) qs"
  "length (release_all S qs) = length S"
proof -
  show "length (release_all S qs) = length S" by (induction qs arbitrary: S) (auto simp: release_all_def)
qed (simp_all add: release_all_def)

lemma release_all_nth: "m < length S \<Longrightarrow> release_all S qs ! m = (if m \<in> addrs qs then None else S ! m)"
  by (induction qs arbitrary: S) (force simp: nth_list_update)+

lemma release_all_other: "m \<notin> addrs qs \<Longrightarrow> release_all S qs ! m = S ! m"
  by (induction qs arbitrary: S) auto

text \<open>
  Giving up a chain releases the objects at its front that have no other reference, and takes one
  reference from the first that has; the number that were released is counted in 8 bits.
\<close>

definition sole :: "nat \<times> pbuf \<Rightarrow> bool" where
  "sole x \<longleftrightarrow> ref (snd x) = 1"

definition dropped :: "pbuf_store \<Rightarrow> chunks \<Rightarrow> pbuf_store" where
  "dropped S qs =
     (let S' = release_all S (takeWhile sole qs) in
      case dropWhile sole qs of [] \<Rightarrow> S' | (n, q) # rest \<Rightarrow> S'[n := Some (q\<lparr>ref := ref q - 1\<rparr>)])"

lemma free_linked:
  "linked S p qs \<Longrightarrow> free_loop S p c = Ok (c + word_of_nat (length (takeWhile sole qs)), dropped S qs)"
proof (induction qs arbitrary: S p c)
  case Nil
  then show ?case by (simp add: dropped_def)
next
  case (Cons x qs)
  obtain n q where x: "x = (n, q)" by fastforce
  have l: "p = Some n" "n < length S" "S ! n = Some q" "linked (S[n := None]) (pb_next q) qs"
    using Cons.prems by (simp_all add: x)
  have eq: "dropped S (x # qs) = (if ref q = 1 then dropped (S[n := None]) qs else S[n := Some (q\<lparr>ref := ref q - 1\<rparr>)])"
    by (simp add: dropped_def x sole_def)
  show ?case
    using Cons.IH [OF l(4), of "c + 1"] l by (simp add: eq) (simp add: x sole_def add.assoc)
qed

lemma free_packet:
  "linked S p qs \<Longrightarrow> pbuf_free S p = Ok (word_of_nat (length (takeWhile sole qs)), dropped S qs)"
  by (simp add: pbuf_free_def free_linked)

lemma dropped_sole: "(\<forall>x \<in> set qs. sole x) \<Longrightarrow> dropped S qs = release_all S qs"
  by (simp add: dropped_def takeWhile_eq_all_conv [THEN iffD2] dropWhile_eq_Nil_conv [THEN iffD2])

section \<open>Replacing the objects of a chain\<close>

definition set_all :: "pbuf_store \<Rightarrow> chunks \<Rightarrow> pbuf_store" where
  "set_all S qs = foldl (\<lambda>S (n, q). S[n := Some q]) S qs"

lemma set_all_simps [simp]:
  "set_all S [] = S" "set_all S ((n, q) # qs) = set_all (S[n := Some q]) qs" "set_all S (qs @ qs') = set_all (set_all S qs) qs'"
  "length (set_all S qs) = length S"
proof -
  show "length (set_all S qs) = length S" by (induction qs arbitrary: S) (auto simp: set_all_def)
qed (simp_all add: set_all_def)

lemma set_all_other: "m \<notin> addrs qs \<Longrightarrow> set_all S qs ! m = S ! m"
  by (induction qs arbitrary: S) auto

lemma linked_set_all_other: "addrs qs \<inter> addrs qs' = {} \<Longrightarrow> linked S p qs \<Longrightarrow> linked (set_all S qs') p qs"
  by (induction qs arbitrary: p) (auto simp: set_all_other)

lemma set_all_commute: "n \<notin> addrs qs \<Longrightarrow> set_all (S[n := x]) qs = (set_all S qs)[n := x]"
proof (induction qs arbitrary: S)
  case (Cons y qs)
  then show ?case by (cases y) (simp add: list_update_swap [of n])
qed simp

lemma set_all_same: "\<forall>(n, q) \<in> set qs. S ! n = Some q \<Longrightarrow> set_all S qs = S"
proof (induction qs)
  case (Cons y qs)
  obtain n q where y: "y = (n, q)" by fastforce
  have "S[n := Some q] = S" using Cons.prems list_update_id [of S n] by (simp add: y)
  with Cons show ?case by (simp add: y)
qed simp

text \<open>\<open>relink\<close>: the same objects in the same order, with the same links.\<close>

definition relink :: "chunks \<Rightarrow> chunks \<Rightarrow> bool" where
  "relink qs qs' \<longleftrightarrow> list_all2 (\<lambda>(n, q) (n', q'). n' = n \<and> pb_next q' = pb_next q) qs qs'"

lemma relink_Cons [simp]:
  "relink ((n, q) # qs) ((n', q') # qs') \<longleftrightarrow> n' = n \<and> pb_next q' = pb_next q \<and> relink qs qs'"
  "relink [] qs' \<longleftrightarrow> qs' = []" "relink (x # qs) [] \<longleftrightarrow> False"
  by (auto simp: relink_def)

lemma relink_addrs: "relink qs qs' \<Longrightarrow> map fst qs' = map fst qs"
  unfolding relink_def by (induction rule: list_all2_induct) auto

lemma relink_addr_set: "relink qs qs' \<Longrightarrow> addrs qs' = addrs qs"
  using relink_addrs [of qs qs'] by (metis list.set_map)

lemma linked_relink: "relink qs qs' \<Longrightarrow> linked S p qs \<Longrightarrow> linked (set_all S qs') p qs'"
proof (induction qs arbitrary: qs' p S)
  case (Cons x qs)
  obtain n q where x: "x = (n, q)" by fastforce
  from Cons.prems obtain q' rs where rs: "qs' = (n, q') # rs" "pb_next q' = pb_next q" "relink qs rs"
    by (cases qs') (auto simp: x)
  have n: "n \<notin> addrs rs" using Cons.prems relink_addr_set [OF rs(3)] by (simp add: x)
  have "linked (set_all (S[n := Some q']) rs) (pb_next q) rs"
    using Cons.prems by (intro Cons.IH [OF rs(3)]) (simp add: x)
  with Cons.prems n show ?case by (simp add: x rs(1,2) set_all_other)
qed simp

section \<open>Writing\<close>

definition refill :: "pbuf \<Rightarrow> u8 list \<Rightarrow> pbuf" where
  "refill q bs = q\<lparr>area := take (payload q) (area q) @ bs @ drop (payload q + length bs) (area q)\<rparr>"

lemma refill_simps [simp]:
  "len (refill q bs) = len q" "tot_len (refill q bs) = tot_len q" "pb_next (refill q bs) = pb_next q"
  "payload (refill q bs) = payload q" "ref (refill q bs) = ref q" "pb_type (refill q bs) = pb_type q"
  "custom (refill q bs) = custom q"
  by (simp_all add: refill_def)

lemma refill_data:
  assumes "sound q" and "length bs \<le> unat (len q)"
  shows "sound (refill q bs)" and "data_of (refill q bs) = bs @ drop (length bs) (data_of q)"
proof -
  show "sound (refill q bs)" using assms by (simp add: sound_def refill_def)
  have m: "min (length (area q)) (payload q) = payload q" using assms(1) by (simp add: sound_def)
  show "data_of (refill q bs) = bs @ drop (length bs) (data_of q)"
    using assms by (simp add: data_of_def refill_def sound_def m min_def drop_take add.commute)
qed

lemma write_refill:
  assumes "sound q" and "n \<le> unat (len q)" and "s + n \<le> length src"
  shows "write_pbuf q 0 src s n = Ok (refill q (take n (drop s src)))"
  using assms by (simp add: write_pbuf_def memcpy_def sound_def refill_def blit_def)

fun filled :: "chunks \<Rightarrow> u8 list \<Rightarrow> chunks" where
  "filled [] bs = []"
| "filled ((n, q) # qs) bs = (n, refill q (take (unat (len q)) bs)) # filled qs (drop (unat (len q)) bs)"

lemma filled_relink: "relink qs (filled qs bs)"
  by (induction qs bs rule: filled.induct) auto

lemma filled_Nil: "sized qs \<Longrightarrow> filled qs [] = qs"
  by (induction qs rule: sized.induct) (auto simp: refill_def)

lemma filled_contents:
  "sized qs \<Longrightarrow> length bs \<le> length (contents qs) \<Longrightarrow>
   sized (filled qs bs) \<and> contents (filled qs bs) = bs @ drop (length bs) (contents qs)"
proof (induction qs bs rule: filled.induct)
  case (2 n q qs bs)
  let ?k = "unat (len q)"
  have q: "sound q" "sized qs" using "2.prems" by simp_all
  have "length (drop ?k bs) \<le> length (contents qs)" using "2.prems" by simp
  from "2.IH" [OF q(2) this] have IH: "sized (filled qs (drop ?k bs))"
    "contents (filled qs (drop ?k bs)) = drop ?k bs @ drop (length bs - ?k) (contents qs)" by simp_all
  have d: "sound (refill q (take ?k bs))" "data_of (refill q (take ?k bs)) = take ?k bs @ drop (min (length bs) ?k) (data_of q)"
    using refill_data [OF q(1), of "take ?k bs"] by simp_all
  have "length (contents (filled qs (drop ?k bs))) = length (contents qs)" using IH(2) "2.prems" by simp
  moreover have "data_of (refill q (take ?k bs)) @ contents (filled qs (drop ?k bs)) = bs @ drop (length bs) (data_of q @ contents qs)"
    using q(1) by (auto simp: d(2) IH(2) min_def)
  ultimately show ?case using "2.prems" IH(1) d(1) by simp
qed simp

lemma pbuf_take_loop_packet:
  "packet S p qs \<Longrightarrow> unat n \<le> length (contents qs) \<Longrightarrow> unat c + unat n \<le> length d \<Longrightarrow> unat c + unat n < 65536 \<Longrightarrow>
   pbuf_take_loop S p d n c = Some (Ok (set_all S (filled qs (take (unat n) (drop (unat c) d)))))"
proof (induction qs arbitrary: S p n c)
  case Nil
  then have "n = 0" by (simp add: unat_eq_0)
  then show ?case by (simp add: pbuf_take_loop.simps)
next
  case (Cons x qs)
  obtain m q where x: "x = (m, q)" by fastforce
  note pk = Cons.prems(1) [unfolded x packet_Cons]
  show ?case
  proof (cases "n = 0")
    case True
    moreover have "set_all S (x # qs) = S"
      using linked_live [of S p "x # qs"] Cons.prems(1) by (intro set_all_same) (auto simp: packet_def)
    ultimately show ?thesis using filled_Nil [of "x # qs"] Cons.prems(1) by (simp add: pbuf_take_loop.simps packet_def)
  next
    case False
    define k where "k = (if n > len q then len q else n)"
    have k: "unat k = min (unat n) (unat (len q))" by (auto simp: k_def word_less_nat_alt min_def)
    have nk: "unat (n - k) = unat n - unat k" using k by (simp add: unat_sub word_le_nat_alt)
    have ck: "unat (c + k) = unat c + unat k" using Cons.prems(4) k by (intro unat_add_small) simp
    let ?q = "refill q (take (unat k) (drop (unat c) d))"
    have "write_pbuf q 0 d (unat c) (unat k) = Ok ?q" using pk k Cons.prems(3) by (intro write_refill) auto
    then have step: "pbuf_take_loop S p d n c = pbuf_take_loop (S[m := Some ?q]) (pb_next q) d (n - k) (c + k)"
      using False pk unfolding k_def by (subst pbuf_take_loop.simps) (simp add: Let_def)
    have IH: "pbuf_take_loop (S[m := Some ?q]) (pb_next q) d (n - k) (c + k) =
        Some (Ok (set_all (S[m := Some ?q]) (filled qs (take (unat n - unat k) (drop (unat c + unat k) d)))))"
      using Cons.IH [of "S[m := Some ?q]" "pb_next q" "n - k" "c + k"] pk Cons.prems(2-4) k
      by (simp add: nk ck packet_def x)
    have "take (unat (len q)) (take (unat n) (drop (unat c) d)) = take (unat k) (drop (unat c) d)"
      "drop (unat (len q)) (take (unat n) (drop (unat c) d)) = take (unat n - unat k) (drop (unat c + unat k) d)"
      by (auto simp: k min_def drop_take add.commute)
    then show ?thesis unfolding step IH by (simp add: x)
  qed
qed

lemma take_packet:
  assumes pk: "packet S p qs" and ne: "qs \<noteq> []" and d: "unat n \<le> length d"
  shows "pbuf_take S p d n = (if length (contents qs) < unat n then Ok (ERR_MEM, S)
    else Ok (ERR_OK, set_all S (filled qs (take (unat n) d))))"
proof -
  obtain m q rs where qs: "qs = (m, q) # rs" using ne by (cases qs) auto
  have q: "p = Some m" "deref S p = Ok q" "length (contents qs) = unat (tot_len q)"
    using pk by (auto simp: qs packet_Cons)
  have n: "unat n < 65536" using unsigned_less [where 'a = nat, of n] by simp
  show ?thesis
    using pbuf_take_loop_packet [OF pk, of n 0 d] d q n
    by (simp add: pbuf_take_def word_less_nat_alt loop_result_def)
qed

end
