(* ===== verification/LwipChain.thy ===== *)
theory LwipChain
  imports LwipPacket
begin

text \<open>
  How packets come to be and change: allocation, concatenation, shrinking, and headers that are
  hidden and revealed.
\<close>

section \<open>Concatenation\<close>

fun grown :: "u16 \<Rightarrow> nat option \<Rightarrow> chunks \<Rightarrow> chunks" where
  "grown k t [] = []"
| "grown k t [(n, q)] = [(n, q\<lparr>tot_len := tot_len q + k, pb_next := t\<rparr>)]"
| "grown k t ((n, q) # x # qs) = (n, q\<lparr>tot_len := tot_len q + k\<rparr>) # grown k t (x # qs)"

lemma grown_addrs [simp]: "map fst (grown k t qs) = map fst qs"
  by (induction k t qs rule: grown.induct) auto

lemma grown_addr_set [simp]: "addrs (grown k t qs) = addrs qs"
  using grown_addrs [of k t qs] by (metis list.set_map)

lemma data_of_fields [simp]:
  "data_of (q\<lparr>tot_len := k\<rparr>) = data_of q" "data_of (q\<lparr>pb_next := t\<rparr>) = data_of q" "data_of (q\<lparr>ref := r\<rparr>) = data_of q"
  "sound (q\<lparr>tot_len := k\<rparr>) = sound q" "sound (q\<lparr>pb_next := t\<rparr>) = sound q" "sound (q\<lparr>ref := r\<rparr>) = sound q"
  by (simp_all add: data_of_def sound_def)

lemma grown_contents [simp]: "contents (grown k t qs) = contents qs"
  by (induction k t qs rule: grown.induct) auto

lemma cat_loop_linked:
  "linked S p qs \<Longrightarrow> qs \<noteq> [] \<Longrightarrow> m \<notin> addrs qs \<Longrightarrow> m < length S \<Longrightarrow> S ! m = Some tq \<Longrightarrow>
   cat_loop S p (Some m) = Some (Ok (set_all S (grown (tot_len tq) (Some m) qs)))"
proof (induction "tot_len tq" "Some m" qs arbitrary: S p rule: grown.induct)
  case (2 n q)
  then show ?case by (subst cat_loop.simps) simp
next
  case (3 n q x qs)
  have q: "p = Some n" "n < length S" "S ! n = Some q" "n \<notin> addrs (x # qs)" "linked S (pb_next q) (x # qs)"
    using "3.prems"(1) by simp_all
  have nx: "pb_next q \<noteq> None" using q(5) by (cases x) simp
  let ?S = "S[n := Some (q\<lparr>tot_len := tot_len q + tot_len tq\<rparr>)]"
  have "cat_loop S p (Some m) = cat_loop ?S (pb_next q) (Some m)"
    using q nx "3.prems"(4,5) by (subst cat_loop.simps) simp
  moreover have "cat_loop ?S (pb_next q) (Some m) = Some (Ok (set_all ?S (grown (tot_len tq) (Some m) (x # qs))))"
  proof (rule "3.hyps")
    show "linked ?S (pb_next q) (x # qs)" using q(5) q(4) by (subst linked_update) simp_all
  qed (use "3.prems" in auto)
  ultimately show ?case by simp
qed simp

lemma linked_grown:
  "linked S p qs \<Longrightarrow> qs \<noteq> [] \<Longrightarrow> linked S t ts \<Longrightarrow> addrs qs \<inter> addrs ts = {} \<Longrightarrow>
   linked (set_all S (grown k t qs)) p (grown k t qs @ ts)"
proof (induction k t qs arbitrary: S p rule: grown.induct)
  case (3 k t n q x qs)
  let ?q = "q\<lparr>tot_len := tot_len q + k\<rparr>" and ?g = "grown k t (x # qs)"
  have "linked (set_all (S[n := Some ?q]) ?g) (pb_next q) (?g @ ts)"
    using "3.prems" by (intro "3.IH") simp_all
  moreover have "n \<notin> addrs (?g @ ts)" using "3.prems" by (simp only: set_append image_Un grown_addr_set) auto
  moreover have "set_all (S[n := Some ?q]) ?g ! n = Some ?q" using "3.prems" by (subst set_all_other) auto
  ultimately show ?case using "3.prems" by simp
qed auto

lemma sized_grown:
  "sized qs \<Longrightarrow> sized ts \<Longrightarrow> length (contents ts) = unat k \<Longrightarrow> length (contents qs) + unat k < 65536 \<Longrightarrow>
   sized (grown k t qs @ ts)"
proof (induction k t qs rule: grown.induct)
  case (2 k t n q)
  then show ?case by (simp add: unat_add_small)
next
  case (3 k t n q x qs)
  have "unat (tot_len q + k) = unat (tot_len q) + unat k" using "3.prems" by (intro unat_add_small) (cases x, simp)
  with 3 show ?case by simp
qed simp

lemma cat_packet:
  assumes p: "packet S h qs" and t: "packet S t ts" and ne: "qs \<noteq> []" "ts \<noteq> []"
    and disj: "addrs qs \<inter> addrs ts = {}" and small: "length (contents qs) + length (contents ts) < 65536"
  shows "pbuf_cat S h t = Ok (set_all S (grown (word_of_nat (length (contents ts))) t qs))"
    and "packet (set_all S (grown (word_of_nat (length (contents ts))) t qs)) h
      (grown (word_of_nat (length (contents ts))) t qs @ ts)"
proof -
  obtain m tq rest where ts: "ts = (m, tq) # rest" using ne(2) by (cases ts) auto
  have m: "t = Some m" "m < length S" "S ! m = Some tq" using t by (auto simp: ts packet_Cons)
  have len: "length (contents ts) = unat (tot_len tq)" using t by (auto simp: ts packet_Cons)
  then have k: "word_of_nat (length (contents ts)) = tot_len tq" by simp
  have "h \<noteq> None" using p ne(1) by (cases qs) (auto simp: packet_def)
  then show "pbuf_cat S h t = Ok (set_all S (grown (word_of_nat (length (contents ts))) t qs))"
    using cat_loop_linked [of S h qs m tq] p ne disj m unfolding k
    by (auto simp: pbuf_cat_def loop_result_def packet_def ts)
  show "packet (set_all S (grown (word_of_nat (length (contents ts))) t qs)) h
      (grown (word_of_nat (length (contents ts))) t qs @ ts)"
    using linked_grown [of S h qs t ts] sized_grown [of qs ts "tot_len tq" t] p t ne(1) disj small len
    unfolding k by (simp add: packet_def)
qed

section \<open>Shrinking\<close>

definition lowered :: "u16 \<Rightarrow> chunks \<Rightarrow> chunks" where
  "lowered g qs = map (\<lambda>(n, q). (n, q\<lparr>tot_len := tot_len q + g\<rparr>)) qs"

lemma lowered_simps [simp]:
  "lowered g [] = []" "lowered g ((n, q) # qs) = (n, q\<lparr>tot_len := tot_len q + g\<rparr>) # lowered g qs"
  "contents (lowered g qs) = contents qs" "relink qs (lowered g qs)" "addrs (lowered g qs) = addrs qs"
proof -
  show "contents (lowered g qs) = contents qs" by (induction qs) (auto simp: lowered_def)
  show "relink qs (lowered g qs)" by (induction qs) (auto simp: lowered_def)
  then show "addrs (lowered g qs) = addrs qs" by (rule relink_addr_set)
qed (simp_all add: lowered_def)

text \<open>The loop finds the object that is to be the last.\<close>

lemma realloc_loop_packet:
  "packet S p qs \<Longrightarrow> qs \<noteq> [] \<Longrightarrow> unat r \<le> length (contents qs) \<Longrightarrow>
   \<exists>pre n q post rem. qs = pre @ (n, q) # post \<and>
     realloc_loop S p r g = Some (Ok (Some n, rem, set_all S (lowered g pre))) \<and>
     unat r = length (contents pre) + unat rem \<and> unat rem \<le> unat (len q)"
proof (induction qs arbitrary: S p r)
  case (Cons x qs)
  obtain n q where x: "x = (n, q)" by fastforce
  note pk = Cons.prems(1) [unfolded x packet_Cons]
  show ?case
  proof (cases "r > len q")
    case False
    then have "realloc_loop S p r g = Some (Ok (Some n, r, S))" using pk by (subst realloc_loop.simps) simp
    then show ?thesis using False by (intro exI [of _ "[]"]) (simp add: x word_less_nat_alt)
  next
    case True
    let ?S = "S[n := Some (q\<lparr>tot_len := tot_len q + g\<rparr>)]"
    have step: "realloc_loop S p r g = realloc_loop ?S (pb_next q) (r - len q) g"
      using pk True by (subst realloc_loop.simps) simp
    have r: "unat (r - len q) = unat r - unat (len q)" "unat (len q) < unat r"
      using True by (simp_all add: unat_sub word_less_nat_alt word_le_nat_alt)
    have "packet ?S (pb_next q) qs" "qs \<noteq> []" "unat (r - len q) \<le> length (contents qs)"
      using pk Cons.prems(3) r by (auto simp: packet_def x)
    from Cons.IH [OF this] obtain pre m q' post rem where
      h: "qs = pre @ (m, q') # post" "realloc_loop S p r g = Some (Ok (Some m, rem, set_all ?S (lowered g pre)))"
      "unat (r - len q) = length (contents pre) + unat rem" "unat rem \<le> unat (len q')"
      unfolding step by blast
    show ?thesis
      using h r pk by (intro exI [of _ "x # pre"] exI [of _ m] exI [of _ q'] exI [of _ post] exI [of _ rem]) (simp add: x)
  qed
qed simp

fun linked_to :: "pbuf_store \<Rightarrow> nat option \<Rightarrow> chunks \<Rightarrow> nat option \<Rightarrow> bool" where
  "linked_to S p [] r \<longleftrightarrow> p = r"
| "linked_to S p ((n, q) # qs) r \<longleftrightarrow>
     p = Some n \<and> n < length S \<and> S ! n = Some q \<and> n \<notin> addrs qs \<and> linked_to S (pb_next q) qs r"

lemma linked_split: "linked S p (qs @ rs) \<longleftrightarrow> (\<exists>r. linked_to S p qs r \<and> linked S r rs \<and> addrs qs \<inter> addrs rs = {})"
proof (induction qs arbitrary: p)
  case (Cons x qs)
  obtain n q where x: "x = (n, q)" by fastforce
  show ?case by (simp add: x image_Un Cons.IH) blast
qed simp

lemma linked_to_update [simp]: "n \<notin> addrs qs \<Longrightarrow> linked_to (S[n := x]) p qs r = linked_to S p qs r"
  by (induction qs arbitrary: p) auto

lemma linked_to_frame:
  "linked_to S p qs r \<Longrightarrow> length S' = length S \<Longrightarrow> (\<forall>n \<in> addrs qs. S' ! n = S ! n) \<Longrightarrow> linked_to S' p qs r"
  by (induction qs arbitrary: p) auto

lemma linked_to_relink: "relink qs qs' \<Longrightarrow> linked_to S p qs r \<Longrightarrow> linked_to (set_all S qs') p qs' r"
proof (induction qs arbitrary: qs' p S)
  case (Cons x qs)
  obtain n q where x: "x = (n, q)" by fastforce
  from Cons.prems obtain q' rs where rs: "qs' = (n, q') # rs" "pb_next q' = pb_next q" "relink qs rs"
    by (cases qs') (auto simp: x)
  have n: "n \<notin> addrs rs" using Cons.prems relink_addr_set [OF rs(3)] by (simp add: x)
  have "linked_to (set_all (S[n := Some q']) rs) (pb_next q) rs r"
    using Cons.prems by (intro Cons.IH [OF rs(3)]) (simp add: x)
  with Cons.prems n show ?case by (simp add: x rs(1,2) set_all_other)
qed simp

lemma dropped_frame:
  assumes "m \<notin> addrs qs" shows "dropped S qs ! m = S ! m" "length (dropped S qs) = length S"
proof -
  have sub: "set (takeWhile sole qs) \<subseteq> set qs" "set (dropWhile sole qs) \<subseteq> set qs"
    using set_takeWhileD [of _ sole qs] set_dropWhileD [of _ sole qs] by blast+
  have "release_all S (takeWhile sole qs) ! m = S ! m" using assms sub(1) by (intro release_all_other) blast
  then show "dropped S qs ! m = S ! m"
    using assms sub(2)
    by (auto simp: dropped_def Let_def split: list.split prod.split) (metis fst_conv image_eqI nth_list_update_neq)
  show "length (dropped S qs) = length S" by (auto simp: dropped_def Let_def split: list.split)
qed

lemma dropped_cong:
  "length S' = length S \<Longrightarrow> m < length S \<Longrightarrow> S' ! m = S ! m \<Longrightarrow> dropped S' qs ! m = dropped S qs ! m"
proof -
  assume h: "length S' = length S" "m < length S" "S' ! m = S ! m"
  then have r: "release_all S' qs ! m = release_all S qs ! m" for qs by (simp add: release_all_nth)
  have "(release_all S' qs)[a := x] ! m = (release_all S qs)[a := x] ! m" for qs a x
    using r h by (cases "a = m") simp_all
  with r show ?thesis unfolding dropped_def Let_def by (cases "dropWhile sole qs") (auto simp only: list.case prod.case split: prod.split)
qed

lemma sized_lowered:
  assumes "sized (pre @ rest)" and "sized rest'" and "length (contents rest') + d = length (contents rest)"
  shows "sized (lowered (- word_of_nat d) pre @ rest')"
  using assms(1)
proof (induction pre)
  case Nil
  then show ?case using assms(2) by simp
next
  case (Cons x pre)
  obtain n q where x: "x = (n, q)" by fastforce
  have tot: "unat (tot_len q) = unat (len q) + length (contents pre) + length (contents rest)" and s: "sound q" "sized (pre @ rest)"
    using Cons.prems by (simp_all add: x)
  have "d < 65536" using tot assms(3) unsigned_less [where 'a = nat, of "tot_len q"] by simp
  then have d: "unat (word_of_nat d :: u16) = d" by (simp add: unat_of_nat)
  have "unat (tot_len q - word_of_nat d) = unat (tot_len q) - d"
    using tot assms(3) by (simp add: unat_sub word_le_nat_alt d)
  then show ?case using Cons.IH [OF s(2)] s(1) tot assms(3) by (simp add: x)
qed

definition cut_last :: "pbuf \<Rightarrow> u16 \<Rightarrow> pbuf" where
  "cut_last q rem =
     (if pb_type q = PBUF_RAM \<and> rem \<noteq> len q \<and> \<not> custom q then q\<lparr>area := take (payload q + unat rem) (area q)\<rparr> else q)
       \<lparr>len := rem, tot_len := rem\<rparr>"

lemma cut_last_data:
  assumes "sound q" and "unat rem \<le> unat (len q)"
  shows "sound (cut_last q rem)" and "data_of (cut_last q rem) = take (unat rem) (data_of q)"
    and "len (cut_last q rem) = rem" and "tot_len (cut_last q rem) = rem"
  using assms by (auto simp: cut_last_def sound_def data_of_def min_def drop_take add.commute)

text \<open>
  Shrinking a packet leaves its first bytes, in the same objects; those behind are given up, and
  no other object is touched.
\<close>

lemma realloc_packet:
  assumes pk: "packet S p qs" and ne: "qs \<noteq> []" and less: "unat new < length (contents qs)"
  shows "\<exists>S' pre last post. pbuf_realloc S p new = Ok S' \<and> packet S' p (pre @ [last]) \<and>
    contents (pre @ [last]) = take (unat new) (contents qs) \<and>
    map fst qs = map fst (pre @ [last] @ post) \<and> (\<forall>m. m \<notin> addrs qs \<longrightarrow> S' ! m = S ! m) \<and>
    set post \<subseteq> set qs \<and> (\<forall>m \<in> addrs post. S' ! m = dropped S post ! m)"
proof -
  obtain hn hq rs where hd: "qs = (hn, hq) # rs" using ne by (cases qs) auto
  have h: "deref S p = Ok hq" "length (contents qs) = unat (tot_len hq)" using pk by (auto simp: hd packet_Cons)
  define d where "d = length (contents qs) - unat new"
  have d: "unat (word_of_nat d :: u16) = d" "unat new + d = unat (tot_len hq)"
    using h(2) less unsigned_less [where 'a = nat, of "tot_len hq"] by (simp_all add: d_def unat_of_nat del: of_nat_diff)
  have g: "new - tot_len hq = - word_of_nat d"
  proof -
    have "tot_len hq = new + word_of_nat d" using arg_cong [OF d(2), of "word_of_nat :: nat \<Rightarrow> u16"] by simp
    then show ?thesis by simp
  qed
  from realloc_loop_packet [OF pk ne, of new "- word_of_nat d"] less obtain pre n q post rem where
    r: "qs = pre @ (n, q) # post" "realloc_loop S p new (- word_of_nat d) = Some (Ok (Some n, rem, set_all S (lowered (- word_of_nat d) pre)))"
    "unat new = length (contents pre) + unat rem" "unat rem \<le> unat (len q)" by auto
  define lo where "lo = lowered (- word_of_nat d) pre"
  let ?S1 = "set_all S lo" and ?q = "cut_last q rem"
  let ?S3 = "dropped (?S1[n := Some ?q]) post" and ?q' = "?q\<lparr>pb_next := None\<rparr>"
  have lk: "linked_to S p pre (Some n)" "n < length S" "S ! n = Some q" "n \<notin> addrs post" "linked S (pb_next q) post"
    "addrs pre \<inter> addrs ((n, q) # post) = {}"
    using pk unfolding packet_def r(1) linked_split by auto
  have lo: "addrs lo = addrs pre" "relink pre lo" "contents lo = contents pre" by (simp_all add: lo_def)
  have n: "?S1 ! n = Some q" "n \<notin> addrs lo" using lk(3,6) by (simp_all add: set_all_other lo)
  have post: "linked (?S1[n := Some ?q]) (pb_next q) post"
    using lk lo(1) by (simp, intro linked_set_all_other) auto
  have S3: "?S3 ! n = Some ?q" "length ?S3 = length S" using dropped_frame [OF lk(4)] lk(2) by simp_all
  have free: "(if pb_next q \<noteq> None then pbuf_free (?S1[n := Some ?q]) (pb_next q) else Ok (0, ?S1[n := Some ?q])) =
      Ok (word_of_nat (length (takeWhile sole post)), ?S3)"
    using free_packet [OF post] lk(5) by (cases post) (auto simp: dropped_def)
  have "pbuf_realloc S p new = Ok (?S3[n := Some ?q'])"
    using h less r(2) free S3 lk(2) n(1)
    by (simp add: pbuf_realloc_def word_le_nat_alt g loop_result_def lo_def [symmetric] cut_last_def [symmetric] Let_def
        split del: if_split cong: if_cong)
  moreover have "packet (?S3[n := Some ?q']) p (lo @ [(n, ?q')])"
  proof -
    have "linked_to ?S1 p lo (Some n)" using linked_to_relink [OF lo(2) lk(1)] .
    then have "linked_to (?S3[n := Some ?q']) p lo (Some n)"
    proof (rule linked_to_frame)
      show "\<forall>m \<in> addrs lo. ?S3[n := Some ?q'] ! m = ?S1 ! m"
        using n(2) lk(6) lo(1) by (metis (no_types, lifting) disjoint_iff dropped_frame(1) image_insert insert_iff list.simps(15) nth_list_update_neq)
    qed (simp add: dropped_frame(2) [OF lk(4)])
    moreover have "sized (lo @ [(n, ?q')])"
    proof -
      have q: "sound q" "sized (pre @ (n, q) # post)" using pk sized_append [of pre "(n, q) # post"] by (simp_all add: packet_def r(1))
      have c: "length (contents [(n, ?q')]) + d = length (contents ((n, q) # post))"
        using cut_last_data [OF q(1) r(4)] r(3,4) d(2) h(2) q(1) by (simp add: r(1))
      have "sized [(n, ?q')]" using cut_last_data [OF q(1) r(4)] by simp
      with q(2) show ?thesis using c unfolding lo_def by (rule sized_lowered)
    qed
    ultimately show ?thesis using lk(2) n(2) S3(2) unfolding packet_def linked_split by auto
  qed
  moreover have "contents (lo @ [(n, ?q')]) = take (unat new) (contents qs)"
    using cut_last_data(2) [of q rem] r pk sized_append [of pre "(n, q) # post"] lo(3) by (simp add: packet_def)
  moreover have "map fst qs = map fst (lo @ [(n, ?q')] @ post)" using relink_addrs [OF lo(2)] by (simp add: r(1))
  moreover have "?S3[n := Some ?q'] ! m = S ! m" if "m \<notin> addrs qs" for m
    using that dropped_frame(1) [of m post] by (simp add: r(1) set_all_other lo(1) image_Un)
  moreover have "?S3[n := Some ?q'] ! m = dropped S post ! m" if "m \<in> addrs post" for m
  proof -
    have m: "m < length S" "m \<noteq> n" "m \<notin> addrs lo" using that linked_live [OF lk(5)] lk(4,6) lo(1) by auto
    then have "dropped (?S1[n := Some ?q]) post ! m = dropped S post ! m"
      by (intro dropped_cong) (simp_all add: set_all_other)
    with m(2) show ?thesis by simp
  qed
  ultimately show ?thesis using r(1) by (intro exI [of _ "?S3[n := Some ?q']"] exI [of _ lo] exI [of _ "(n, ?q')"] exI [of _ post]) auto
qed

section \<open>Headers\<close>

lemma sint_of_nat_small: "k < 32768 \<Longrightarrow> sint (word_of_nat k :: u16) = int k"
  by (simp add: signed_of_nat signed_take_bit_int_eq_self)

lemma sint_minus_small: "k \<le> 32768 \<Longrightarrow> sint (- word_of_nat k :: u16) = - int k"
proof -
  assume k: "k \<le> 32768"
  have "sint (word_of_int (- int k) :: u16) = - int k"
    using k by (subst signed_of_int) (auto intro: signed_take_bit_int_eq_self)
  then show ?thesis by simp
qed

definition moved_on :: "pbuf \<Rightarrow> nat \<Rightarrow> pbuf" where
  "moved_on q k = q\<lparr>payload := payload q + k, len := len q - word_of_nat k, tot_len := tot_len q - word_of_nat k\<rparr>"

lemma hide_header:
  assumes pk: "packet S p ((n, q) # qs)" and k: "k \<le> unat (len q)" "k \<le> 32768"
  shows "pbuf_header S p (- word_of_nat k) = Ok (0, S[n := Some (moved_on q k)])"
    and "packet (S[n := Some (moved_on q k)]) p ((n, moved_on q k) # qs)"
    and "contents ((n, moved_on q k) # qs) = drop k (contents ((n, q) # qs))"
proof -
  note pk' = pk [unfolded packet_Cons]
  have k16: "unat (word_of_nat k :: u16) = k" using k(2) by (simp add: unat_of_nat)
  have lens: "unat (len q - word_of_nat k) = unat (len q) - k" "unat (tot_len q - word_of_nat k) = unat (tot_len q) - k"
    using k(1) pk' by (simp_all add: unat_sub word_le_nat_alt k16)
  show "pbuf_header S p (- word_of_nat k) = Ok (0, S[n := Some (moved_on q k)])"
  proof (cases "k = 0")
    case True
    then show ?thesis using pk' list_update_id [of S n] by (simp add: pbuf_header_def pbuf_header_impl_def moved_on_def)
  next
    case False
    then have "sint (- word_of_nat k :: u16) < 0" "- (- word_of_nat k :: u16) \<le> len q"
      using k by (simp_all add: sint_minus_small word_le_nat_alt k16)
    then show ?thesis
      using pk' k(2)
      by (simp add: pbuf_header_def pbuf_header_impl_def sint_minus_small moved_on_def nat_add_distrib Let_def not_less)
  qed
  have q: "sound (moved_on q k)" "data_of (moved_on q k) = drop k (data_of q)"
    using pk' k(1) lens(1) by (auto simp: moved_on_def sound_def data_of_def drop_take add.commute)
  show "packet (S[n := Some (moved_on q k)]) p ((n, moved_on q k) # qs)"
    using pk' q(1) k(1) lens by (simp add: packet_def moved_on_def)
  show "contents ((n, moved_on q k) # qs) = drop k (contents ((n, q) # qs))"
    using pk' k(1) q by simp
qed

lemma reveal_header:
  assumes pk: "packet S p ((n, q) # qs)" and type: "pb_type q \<in> {PBUF_RAM, PBUF_POOL}"
    and k: "k < 32768" "unat (tot_len q) + k < 65536"
  shows "pbuf_header S p (word_of_nat k) =
      (if k \<le> payload q then Ok (0, S[n := Some (q\<lparr>payload := payload q - k, len := len q + word_of_nat k,
         tot_len := tot_len q + word_of_nat k\<rparr>)]) else Ok (1, S))"
  using pk [unfolded packet_Cons] type k(1) list_update_id [of S n]
  by (cases "k = 0") (auto simp: pbuf_header_def pbuf_header_impl_def sint_of_nat_small nat_diff_distrib of_nat_diff)

end
