(* ===== verification/LwipSearch.thy ===== *)
theory LwipSearch
  imports LwipChain
begin

text \<open>
  Comparing and searching in a packet, and copying one packet into another.
\<close>

section \<open>Comparing\<close>

lemma packet_suffix: "packet S p (pre @ (n, q) # post) \<Longrightarrow> packet S (Some n) ((n, q) # post)"
  unfolding packet_def linked_split using sized_append [of pre "(n, q) # post"] by auto

lemma memcmp_loop_packet:
  "packet S q rs \<Longrightarrow> unat start + unat i + k \<le> length (contents rs) \<Longrightarrow> k \<le> length s2 \<Longrightarrow>
   length (contents rs) < 65536 \<Longrightarrow>
   \<exists>r. memcmp_loop S q start i k s2 = Ok r \<and>
     (if r = 0 then take k (drop (unat start + unat i) (contents rs)) = take k s2
      else \<exists>j < k. unat r = unat i + j + 1 \<and> contents rs ! (unat start + unat i + j) \<noteq> s2 ! j \<and>
        take j (drop (unat start + unat i) (contents rs)) = take j s2)"
proof (induction k arbitrary: i s2)
  case 0
  then show ?case by simp
next
  case (Suc k)
  obtain b s3 where s2: "s2 = b # s3" using Suc.prems(3) by (cases s2) auto
  have small: "unat (start + i) = unat start + unat i" "unat (i + 1) = unat i + 1"
    using Suc.prems by (simp_all add: unat_add_small)
  let ?c = "contents rs" and ?a = "unat start + unat i"
  have get: "pbuf_get_at S q (start + i) = Ok (?c ! ?a)"
    using get_at_packet [OF Suc.prems(1), of "start + i"] Suc.prems(2) by (simp add: small)
  have nth: "drop ?a ?c = ?c ! ?a # drop (Suc ?a) ?c" using Suc.prems(2) by (simp add: Cons_nth_drop_Suc)
  show ?case
  proof (cases "?c ! ?a = b")
    case False
    then show ?thesis
      using get small(2) by (intro exI [of _ "i + 1"]) (auto simp: s2 unat_eq_0 [symmetric])
  next
    case True
    have eqs: "unat (i + 1) = unat i + 1" "unat start + (unat i + 1) = Suc ?a" using small by simp_all
    have "Suc ?a + k \<le> length ?c" "k \<le> length s3" using Suc.prems(2,3) by (simp_all add: s2)
    with Suc.IH [OF Suc.prems(1), of "i + 1" s3, unfolded eqs] Suc.prems(4) obtain r where
      r: "memcmp_loop S q start (i + 1) k s3 = Ok r"
      "if r = 0 then take k (drop (Suc ?a) ?c) = take k s3
       else \<exists>j < k. unat r = unat i + 1 + j + 1 \<and> ?c ! (Suc ?a + j) \<noteq> s3 ! j \<and> take j (drop (Suc ?a) ?c) = take j s3"
      by blast
    have "memcmp_loop S q start i (Suc k) s2 = Ok r" using get True r(1) by (simp add: s2)
    moreover have "if r = 0 then take (Suc k) (drop ?a ?c) = take (Suc k) s2
       else \<exists>j < Suc k. unat r = unat i + j + 1 \<and> ?c ! (?a + j) \<noteq> s2 ! j \<and> take j (drop ?a ?c) = take j s2"
    proof (cases "r = 0")
      case True
      then show ?thesis using r(2) \<open>?c ! ?a = b\<close> by (simp add: nth s2)
    next
      case False
      with r(2) obtain j where "j < k" "unat r = unat i + 1 + j + 1" "?c ! (Suc ?a + j) \<noteq> s3 ! j"
        "take j (drop (Suc ?a) ?c) = take j s3" by auto
      then show ?thesis using False \<open>?c ! ?a = b\<close> by (auto simp: nth s2 intro!: exI [of _ "Suc j"])
    qed
    ultimately show ?thesis by blast
  qed
qed

lemma packet_total:
  assumes "packet S p qs" and "qs \<noteq> []"
  obtains q where "deref S p = Ok q" "length (contents qs) = unat (tot_len q)" "length (contents qs) < 65536"
proof -
  obtain m q rest where qs: "qs = (m, q) # rest" using assms(2) by (cases qs) auto
  have "deref S p = Ok q" "length (contents qs) = unat (tot_len q)" using assms(1) by (auto simp: qs packet_Cons)
  with that [of q] unsigned_less [where 'a = nat, of "tot_len q"] show ?thesis by simp
qed

lemma memcmp_short:
  assumes "packet S p qs" and "qs \<noteq> []" and "length (contents qs) < unat off + unat n"
  shows "pbuf_memcmp S p off s2 n = Ok 0xffff"
  by (rule packet_total [OF assms(1,2)]) (use assms(3) in \<open>simp add: pbuf_memcmp_def\<close>)

lemma memcmp_packet:
  assumes pk: "packet S p qs" and ne: "qs \<noteq> []" and s2: "unat n \<le> length s2"
    and fits: "unat off + unat n \<le> length (contents qs)"
  shows "\<exists>r. pbuf_memcmp S p off s2 n = Ok r \<and>
    (if r = 0 then take (unat n) (drop (unat off) (contents qs)) = take (unat n) s2
     else \<exists>j < unat n. unat r = j + 1 \<and> contents qs ! (unat off + j) \<noteq> s2 ! j \<and>
       take j (drop (unat off) (contents qs)) = take j s2)"
proof -
  obtain q where tot: "deref S p = Ok q" "length (contents qs) = unat (tot_len q)" "length (contents qs) < 65536"
    using packet_total [OF pk ne] .
  show ?thesis
  proof (cases "unat off < length (contents qs)")
    case True
    with skip_packet [OF pk, of off] obtain pre k x post idx where
      h: "qs = pre @ (k, x) # post" "skip_loop S p off = Some (Ok (Some k, idx))"
      "unat off = length (contents pre) + unat idx" by auto
    let ?rs = "(k, x) # post"
    have rs: "packet S (Some k) ?rs" using packet_suffix pk unfolding h(1) by blast
    have c: "contents qs = contents pre @ contents ?rs" by (simp add: h(1))
    have eq: "drop (unat off) (contents qs) = drop (unat idx) (contents ?rs)"
      "contents qs ! (unat off + j) = contents ?rs ! (unat idx + j)" for j
      unfolding c h(3) by (simp_all only: drop_append nth_append) (simp_all del: contents_simps)
    have cmp: "pbuf_memcmp S p off s2 n = memcmp_loop S (Some k) idx 0 (unat n) s2"
      using fits tot h(2) by (simp add: pbuf_memcmp_def pbuf_skip_def loop_result_def)
    have "unat idx + unat n \<le> length (contents ?rs)" "length (contents ?rs) < 65536"
      using fits tot(3) h(3) unfolding c by (simp_all del: contents_simps)
    with memcmp_loop_packet [OF rs, of idx 0 "unat n" s2, unfolded unsigned_0 add_0_right add_0_left] s2
    show ?thesis unfolding eq cmp by blast
  next
    case False
    with fits have "n = 0" by (simp add: unat_eq_0 [symmetric])
    moreover have "skip_loop S p off = Some (Ok (None, off - word_of_nat (length (contents qs))))"
      using skip_packet [OF pk, of off] False by simp
    ultimately show ?thesis
      using fits tot by (simp add: pbuf_memcmp_def pbuf_skip_def loop_result_def)
  qed
qed

section \<open>Searching\<close>

text \<open>The reference: the first index at which the bytes occur.\<close>

definition occurs_at :: "u8 list \<Rightarrow> u8 list \<Rightarrow> nat \<Rightarrow> bool" where
  "occurs_at c mem i \<longleftrightarrow> i + length mem \<le> length c \<and> take (length mem) (drop i c) = mem"

definition first_at :: "u8 list \<Rightarrow> u8 list \<Rightarrow> nat \<Rightarrow> nat option" where
  "first_at c mem start = find (occurs_at c mem) [start..<Suc (length c)]"

lemma first_at_step: "i \<le> length c \<Longrightarrow> first_at c mem i = (if occurs_at c mem i then Some i else first_at c mem (Suc i))"
  by (simp add: first_at_def upt_conv_Cons del: upt_Suc)

lemma first_at_end: "length c < i + length mem \<Longrightarrow> first_at c mem i = None"
  by (auto simp: first_at_def find_None_iff occurs_at_def)

lemma memfind_loop_packet:
  assumes pk: "packet S p qs" and ne: "qs \<noteq> []" and len: "length mem = unat ml" "unat ml \<le> length (contents qs)"
    "length (contents qs) < 65535" and max: "unat max_i = length (contents qs) - unat ml"
  shows "unat i \<le> Suc (unat max_i) \<Longrightarrow> memfind_loop S p mem ml i max_i =
    Some (Ok (case first_at (contents qs) mem (unat i) of None \<Rightarrow> 0xffff | Some j \<Rightarrow> word_of_nat j))"
proof (induction "Suc (unat max_i) - unat i" arbitrary: i)
  case 0
  then have "\<not> i \<le> max_i" "length (contents qs) < unat i + length mem" using max len by (simp_all add: word_le_nat_alt)
  then show ?case by (subst memfind_loop.simps) (simp add: first_at_end)
next
  case (Suc d)
  then have le: "i \<le> max_i" "unat i + unat ml \<le> length (contents qs)" using max len by (simp_all add: word_le_nat_alt)
  have "unat ml \<le> length mem" using len(1) by simp
  from memcmp_packet [OF pk ne this le(2)] obtain r where cmp: "pbuf_memcmp S p i mem ml = Ok r"
    "if r = 0 then take (unat ml) (drop (unat i) (contents qs)) = take (unat ml) mem
     else \<exists>j < unat ml. unat r = j + 1 \<and> contents qs ! (unat i + j) \<noteq> mem ! j \<and>
       take j (drop (unat i) (contents qs)) = take j mem" by blast
  have r: "r = 0 \<longleftrightarrow> occurs_at (contents qs) mem (unat i)"
  proof (cases "r = 0")
    case True
    then show ?thesis using cmp(2) len(1) le(2) by (simp add: occurs_at_def)
  next
    case False
    with cmp(2) obtain j where j: "j < unat ml" "contents qs ! (unat i + j) \<noteq> mem ! j" by auto
    then have "take (unat ml) (drop (unat i) (contents qs)) ! j \<noteq> mem ! j" using le(2) by simp
    then show ?thesis using False len(1) by (auto simp: occurs_at_def)
  qed
  have i1: "unat (i + 1) = Suc (unat i)" using le max len by (subst unat_add_small) simp_all
  have "memfind_loop S p mem ml (i + 1) max_i =
      Some (Ok (case first_at (contents qs) mem (unat (i + 1)) of None \<Rightarrow> 0xffff | Some j \<Rightarrow> word_of_nat j))"
    using Suc.hyps(2) Suc.prems le(1) by (intro Suc.hyps(1)) (simp_all add: i1 word_le_nat_alt)
  then show ?case
    using le cmp(1) r first_at_step [of "unat i" "contents qs" mem] by (subst memfind_loop.simps) (simp add: i1)
qed

lemma memfind_packet:
  assumes pk: "packet S p qs" and ne: "qs \<noteq> []" and len: "length mem = unat ml" "length (contents qs) < 65535"
  shows "pbuf_memfind S p mem ml start =
    Ok (case first_at (contents qs) mem (unat start) of None \<Rightarrow> 0xffff | Some j \<Rightarrow> word_of_nat j)"
proof -
  obtain q where tot: "deref S p = Ok q" "length (contents qs) = unat (tot_len q)" using packet_total [OF pk ne] .
  show ?thesis
  proof (cases "length (contents qs) \<ge> unat ml + unat start")
    case False
    then show ?thesis using tot len by (simp add: pbuf_memfind_def first_at_end)
  next
    case True
    have "unat (tot_len q - ml) = length (contents qs) - unat ml" using True tot by (simp add: unat_sub word_le_nat_alt)
    with memfind_loop_packet [OF pk ne len(1) _ len(2) this, of start] True tot show ?thesis
      by (simp add: pbuf_memfind_def loop_result_def)
  qed
qed

section \<open>Copying one packet into another\<close>

definition solid :: "chunks \<Rightarrow> bool" where
  "solid qs \<longleftrightarrow> (\<forall>(n, q) \<in> set qs. len q \<noteq> 0)"

definition refill_at :: "pbuf \<Rightarrow> nat \<Rightarrow> u8 list \<Rightarrow> pbuf" where
  "refill_at q a bs = q\<lparr>area := take (payload q + a) (area q) @ bs @ drop (payload q + a + length bs) (area q)\<rparr>"

lemma refill_at_simps [simp]:
  "len (refill_at q a bs) = len q" "tot_len (refill_at q a bs) = tot_len q" "pb_next (refill_at q a bs) = pb_next q"
  "payload (refill_at q a bs) = payload q" "ref (refill_at q a bs) = ref q"
  by (simp_all add: refill_at_def)

lemma refill_at_0: "refill_at q 0 bs = refill q bs"
  by (simp add: refill_at_def refill_def)

lemma refill_at_data:
  assumes "sound q" and "a + length bs \<le> unat (len q)"
  shows "sound (refill_at q a bs)" and "data_of (refill_at q a bs) = take a (data_of q) @ bs @ drop (a + length bs) (data_of q)"
proof -
  show "sound (refill_at q a bs)" using assms by (simp add: sound_def refill_at_def)
  let ?P = "take (payload q) (area q)" and ?D = "data_of q" and ?R = "drop (payload q + unat (len q)) (area q)"
  have A: "area q = ?P @ ?D @ ?R"
    by (simp add: data_of_def) (metis append_take_drop_id drop_drop add.commute)
  have P: "length ?P = payload q" "length ?D = unat (len q)" using assms(1) by (simp_all add: sound_def)
  have "area (refill_at q a bs) = ?P @ (take a ?D @ bs @ drop (a + length bs) ?D) @ ?R"
    unfolding refill_at_def using assms(2) P by (subst A, subst (3) A) (simp add: drop_append take_append)
  moreover have "length (take a ?D @ bs @ drop (a + length bs) ?D) = unat (len q)" using assms by simp
  ultimately show "data_of (refill_at q a bs) = take a (data_of q) @ bs @ drop (a + length bs) (data_of q)"
    using P(1) assms(2) by (simp add: data_of_def [of "refill_at q a bs"] min_absorb2)
qed

lemma refill_at_refill:
  assumes "sound q" and "a + length xs \<le> unat (len q)"
  shows "refill_at (refill_at q a xs) (a + length xs) ys = refill_at q a (xs @ ys)"
proof -
  have "payload q + a \<le> length (area q)" using assms by (simp add: sound_def)
  then show ?thesis by (simp add: refill_at_def ac_simps min_def)
qed

lemma write_refill_at:
  assumes "sound q" and "a + n \<le> unat (len q)" and "length bs = n"
  shows "write_pbuf q a bs 0 n = Ok (refill_at q a bs)"
  using assms by (simp add: write_pbuf_def memcpy_def sound_def refill_at_def blit_def add.assoc)

fun over :: "chunks \<Rightarrow> nat \<Rightarrow> u8 list \<Rightarrow> chunks" where
  "over [] a bs = []"
| "over ((n, q) # qs) a bs = (n, refill_at q a (take (unat (len q) - a) bs)) # filled qs (drop (unat (len q) - a) bs)"

lemma over_0: "over qs 0 bs = filled qs bs"
  by (cases qs) (auto simp: refill_at_0)

lemma append_take_drop: "take k xs @ drop k xs @ ys = xs @ ys"
  by (metis append_assoc append_take_drop_id)

lemma over_contents:
  assumes "sized qs" and "qs \<noteq> []" and "a \<le> unat (len (snd (hd qs)))" and "a + length bs \<le> length (contents qs)"
  shows "sized (over qs a bs)" and "contents (over qs a bs) = take a (contents qs) @ bs @ drop (a + length bs) (contents qs)"
proof -
  obtain n q rs where qs: "qs = (n, q) # rs" using assms(2) by (cases qs) auto
  have q: "sound q" "sized rs" "a \<le> unat (len q)" using assms(1,3) by (simp_all add: qs)
  let ?k = "unat (len q) - a"
  have d: "sound (refill_at q a (take ?k bs))"
    "data_of (refill_at q a (take ?k bs)) = take a (data_of q) @ take ?k bs @ drop (a + min (length bs) ?k) (data_of q)"
    using refill_at_data [OF q(1), of a "take ?k bs"] q(3) by simp_all
  have "length (drop ?k bs) \<le> length (contents rs)" using assms(4) q by (simp add: qs)
  from filled_contents [OF q(2) this] have r: "sized (filled rs (drop ?k bs))"
    "contents (filled rs (drop ?k bs)) = drop ?k bs @ drop (length bs - ?k) (contents rs)" by simp_all
  have len: "length (contents (filled rs (drop ?k bs))) = length (contents rs)" using r(2) assms(4) q by (simp add: qs)
  then show "sized (over qs a bs)" using assms(1) d(1) r(1) by (simp add: qs)
  show "contents (over qs a bs) = take a (contents qs) @ bs @ drop (a + length bs) (contents qs)"
    using q(1,3) by (auto simp: qs d(2) r(2) min_def append_take_drop add.commute)
qed

lemma queue_head_solid:
  assumes "packet S p qs" and "solid qs" shows "queue_head S p = Ok False"
proof (cases qs)
  case Nil
  with assms show ?thesis by (simp add: queue_head_def)
next
  case (Cons x rs)
  obtain n q where x: "x = (n, q)" by fastforce
  have pk: "p = Some n" "deref S p = Ok q" "unat (tot_len q) = unat (len q) + length (contents rs)" "packet S (pb_next q) rs"
    using assms(1) by (auto simp: Cons x packet_Cons)
  have "pb_next q = None" if "len q = tot_len q"
  proof (cases rs)
    case (Cons y ys)
    obtain m r where y: "y = (m, r)" by fastforce
    have "len r \<noteq> 0" "sound r" using assms(2) pk(4) by (simp_all add: \<open>qs = x # rs\<close> Cons y solid_def packet_Cons)
    then have "length (contents rs) \<noteq> 0" by (simp add: Cons y unat_eq_0)
    with pk(3) that show ?thesis by simp
  qed (use pk(4) in simp)
  with pk show ?thesis by (auto simp: queue_head_def)
qed

lemma copy_round_packet:
  assumes t: "packet S p_to ((m, tq) # ts)" and f: "packet S p_from ((k, fq) # fs)" and disj: "m \<noteq> k"
    and a: "unat a < unat (len tq)" and b: "unat b < unat (len fq)"
  defines "x \<equiv> min (unat (len tq) - unat a) (unat (len fq) - unat b)"
  defines "S1 \<equiv> S[m := Some (refill_at tq (unat a) (take x (drop (unat b) (data_of fq))))]"
    and "from_end \<equiv> unat (len fq) - unat b \<le> unat (len tq) - unat a"
    and "to_end \<equiv> unat (len tq) - unat a \<le> unat (len fq) - unat b"
  defines "p_from' \<equiv> (if from_end then pb_next fq else p_from)" and "p_to' \<equiv> (if to_end then pb_next tq else p_to)"
  assumes more: "to_end \<Longrightarrow> p_to' = None \<Longrightarrow> p_from' = None"
    and heads: "queue_head S1 p_from' = Ok False" "queue_head S1 p_to' = Ok False"
  shows "copy_round S p_to p_from a b = Ok (S1, p_to', p_from',
    if to_end then 0 else a + word_of_nat x, if from_end then 0 else b + word_of_nat x, None)"
proof -
  note t' = t [unfolded packet_Cons] and f' = f [unfolded packet_Cons]
  have x: "unat (word_of_nat x :: u16) = x" "x \<le> unat (len tq) - unat a" "x \<le> unat (len fq) - unat b"
    using unsigned_less [where 'a = nat, of "len tq"] by (auto simp: unat_of_nat x_def)
  have n: "(if uint (len tq) - uint a \<ge> uint (len fq) - uint b then len fq - b else len tq - a) = word_of_nat x"
  proof -
    have "unat (len fq - b) = unat (len fq) - unat b" "unat (len tq - a) = unat (len tq) - unat a"
      using a b by (simp_all add: unat_sub word_le_nat_alt)
    then have w: "len fq - b = word_of_nat (unat (len fq) - unat b)" "len tq - a = word_of_nat (unat (len tq) - unat a)"
      by (metis word_of_nat_eq_iff unat_of_nat of_nat_unat word_unat_eq_iff ucast_id)+
    have "uint (len tq) - uint a \<ge> uint (len fq) - uint b \<longleftrightarrow> from_end"
      unfolding from_end_def uint_nat using a b by linarith
    then show ?thesis unfolding w x_def from_end_def by (auto simp: min_def)
  qed
  have ab: "unat (a + word_of_nat x) = unat a + x" "unat (b + word_of_nat x) = unat b + x"
    using x a b unsigned_less [where 'a = nat, of "len tq"] unsigned_less [where 'a = nat, of "len fq"]
    by (simp_all add: unat_add_small)
  have ends: "b + word_of_nat x \<ge> len fq \<longleftrightarrow> from_end" "a + word_of_nat x = len tq \<longleftrightarrow> to_end"
    unfolding word_le_nat_alt word_unat_eq_iff ab from_end_def to_end_def using a b by (auto simp: x_def)
  have rd: "read_pbuf fq (unat b) x = Ok (take x (drop (unat b) (data_of fq)))"
    using f' b x by (intro read_sound) auto
  have wr: "write_pbuf tq (unat a) (take x (drop (unat b) (data_of fq))) 0 x =
      Ok (refill_at tq (unat a) (take x (drop (unat b) (data_of fq))))"
    using t' f' a x by (intro write_refill_at) auto
  show ?thesis
    unfolding copy_round_def using t' f' rd wr heads more
    by (cases from_end; cases to_end) (auto simp: n Let_def x ends S1_def [symmetric] p_from'_def p_to'_def)
qed

lemma refill_at_Nil: "refill_at q a [] = q"
  by (simp add: refill_at_def)

lemma over_Nil: "sized qs \<Longrightarrow> over qs a [] = qs"
  by (cases qs) (auto simp: refill_at_Nil filled_Nil)

lemma set_all_packet: "packet S p qs \<Longrightarrow> set_all S qs = S"
  using linked_live [of S p qs] by (intro set_all_same) (auto simp: packet_def)

lemma packet_update: "n \<notin> addrs qs \<Longrightarrow> packet (S[n := x]) p qs = packet S p qs"
  by (simp add: packet_def)

lemma solid_nonempty:
  assumes "packet S p qs" and "solid qs" and "qs \<noteq> []"
  obtains n q rs where "qs = (n, q) # rs" "0 < unat (len q)" "contents qs \<noteq> []"
proof -
  obtain n q rs where qs: "qs = (n, q) # rs" using assms(3) by (cases qs) auto
  have "len q \<noteq> 0" "sound q" using assms(1,2) by (simp_all add: qs solid_def packet_Cons)
  then have "0 < unat (len q)" "length (contents qs) \<noteq> 0" by (simp_all add: qs unat_eq_0 unat_gt_0)
  with that [OF qs] show ?thesis by auto
qed

text \<open>What is left of the target after a round, and of the bytes to be copied.\<close>

lemma over_step:
  assumes tq: "sound tq" and a: "a < unat (len tq)" and x: "x \<le> unat (len tq) - a" and src: "x \<le> length src"
  defines "tq' \<equiv> refill_at tq a (take x src)"
  shows "set_all S (over ((m, tq) # ts) a src) =
    set_all (S[m := Some tq']) (if x = unat (len tq) - a then over ts 0 (drop x src) else over ((m, tq') # ts) (a + x) (drop x src))"
proof (cases "x = unat (len tq) - a")
  case True
  then show ?thesis by (simp add: tq'_def over_0)
next
  case False
  have "refill_at tq' (a + length (take x src)) (take (unat (len tq) - (a + x)) (drop x src)) =
      refill_at tq a (take x src @ take (unat (len tq) - (a + x)) (drop x src))"
    unfolding tq'_def using tq a x src by (intro refill_at_refill) auto
  moreover have "take x src @ take (unat (len tq) - (a + x)) (drop x src) = take (unat (len tq) - a) src"
    using x by (simp add: take_add [symmetric] del: take_drop) (metis le_add_diff_inverse diff_diff_eq take_add)
  moreover have "x + (unat (len tq) - (a + x)) = unat (len tq) - a" using x a by linarith
  then have "drop (unat (len tq) - (a + x)) (drop x src) = drop (unat (len tq) - a) src" by (simp add: add.commute)
  ultimately show ?thesis using False src by (simp add: tq'_def)
qed

lemma copy_loop_packet:
  "packet S p_to ts \<Longrightarrow> packet S p_from fs \<Longrightarrow> solid ts \<Longrightarrow> solid fs \<Longrightarrow> addrs ts \<inter> addrs fs = {} \<Longrightarrow>
   fs \<noteq> [] \<Longrightarrow> ts \<noteq> [] \<Longrightarrow> unat a < unat (len (snd (hd ts))) \<Longrightarrow> unat b < unat (len (snd (hd fs))) \<Longrightarrow>
   unat a + (length (contents fs) - unat b) \<le> length (contents ts) \<Longrightarrow>
   copy_loop S p_to p_from a b = Some (Ok (ERR_OK, set_all S (over ts (unat a) (drop (unat b) (contents fs)))))"
proof (induction "length ts + length fs" arbitrary: S p_to p_from ts fs a b rule: less_induct)
  case less
  obtain m tq ts0 where ts: "ts = (m, tq) # ts0" using less.prems(7) by (cases ts) auto
  obtain k fq fs0 where fs: "fs = (k, fq) # fs0" using less.prems(6) by (cases fs) auto
  note t = less.prems(1) [unfolded ts packet_Cons] and f = less.prems(2) [unfolded fs packet_Cons]
  have ab: "unat a < unat (len tq)" "unat b < unat (len fq)" using less.prems(8,9) by (simp_all add: ts fs)
  have mk: "m \<noteq> k" "m \<notin> addrs fs" using less.prems(5) by (auto simp: ts fs)
  define x where "x = min (unat (len tq) - unat a) (unat (len fq) - unat b)"
  define src where "src = drop (unat b) (contents fs)"
  define tq' where "tq' = refill_at tq (unat a) (take x src)"
  define S1 where "S1 = S[m := Some tq']"
  define fe where "fe \<longleftrightarrow> unat (len fq) - unat b \<le> unat (len tq) - unat a"
  define te where "te \<longleftrightarrow> unat (len tq) - unat a \<le> unat (len fq) - unat b"
  have src_data: "take x src = take x (drop (unat b) (data_of fq))"
    using f ab(2) by (simp add: src_def fs x_def)
  have lsrc: "length src = length (contents fs) - unat b" by (simp add: src_def)
  have x: "x \<le> unat (len tq) - unat a" "x \<le> length src" "0 < x" using ab f by (simp_all add: x_def lsrc fs)
  define fs' where "fs' = (if fe then fs0 else fs)"
  define ts' where "ts' = (if te then ts0 else (m, tq') # ts0)"
  define a' where "a' = (if te then 0 else a + word_of_nat x)"
  define b' where "b' = (if fe then 0 else b + word_of_nat x)"
  have tq': "sound tq'" "len tq' = len tq" "tot_len tq' = tot_len tq" "pb_next tq' = pb_next tq"
    using refill_at_data(1) [of tq "unat a" "take x src"] t ab(1) x(1) by (simp_all add: tq'_def)
  have pf: "packet S1 (if fe then pb_next fq else p_from) fs'"
    using less.prems(2) f mk by (auto simp: S1_def fs'_def packet_update fs)
  have pt: "packet S1 (if te then pb_next tq else p_to) ts'"
    using t tq' by (simp add: S1_def ts'_def packet_Cons packet_update)
  have solid: "solid fs'" "solid ts'" "solid ((m, tq') # ts0)"
    using less.prems(3,4) tq'(2) by (auto simp: solid_def fs'_def ts'_def ts fs split: if_splits)
  have x16: "unat (word_of_nat x :: u16) = x"
    using x(1) unsigned_less [where 'a = nat, of "len tq"] by (simp add: unat_of_nat)
  have sums: "unat (a + word_of_nat x) = unat a + x" "unat (b + word_of_nat x) = unat b + x"
  proof -
    have "x \<le> unat (len fq) - unat b" by (simp add: x_def)
    then show "unat (a + word_of_nat x) = unat a + x" "unat (b + word_of_nat x) = unat b + x"
      using x(1) ab unsigned_less [where 'a = nat, of "len tq"] unsigned_less [where 'a = nat, of "len fq"]
      by (simp_all add: unat_add_small x16)
  qed
  have src': "drop x src = drop (unat b') (contents fs')"
    using f ab(2) sums(2) unfolding src_def b'_def fs'_def fs by (auto simp: fe_def x_def add.commute)
  have lenC: "length (contents ((m, tq) # ts0)) = unat (len tq) + length (contents ts0)" using t by simp
  have lent: "length (contents ts') = (if te then length (contents ts0) else unat (len tq) + length (contents ts0))"
    using tq' by (simp add: ts'_def)
  have fits: "unat a' + length (drop x src) \<le> length (contents ts')"
    using less.prems(10) ab(1) x sums(1) lenC unfolding lent lsrc [symmetric] a'_def ts by (auto simp: te_def x_def)
  have ts_ne: "ts' \<noteq> []" if ne: "fs' \<noteq> []"
  proof -
    obtain n q rs where q: "fs' = (n, q) # rs" "0 < unat (len q)" "contents fs' \<noteq> []"
      using solid_nonempty [OF pf solid(1) ne] .
    have "unat b' < length (contents fs')"
      using ab(2) f sums(2) q pf by (auto simp: b'_def fs'_def fs fe_def x_def)
    then have "drop x src \<noteq> []" unfolding src' by simp
    with fits show ?thesis by auto
  qed
  have next_none: "ts' = []" if "te" "(if te then pb_next tq else p_to) = None" using pt that by (cases ts') (auto simp: packet_def)
  have stop: "(if fe then pb_next fq else p_from) = None" if "te" "(if te then pb_next tq else p_to) = None"
    using next_none [OF that] ts_ne pf by (cases "fs' = []") simp_all
  have round: "copy_round S p_to p_from a b =
      Ok (S1, if te then pb_next tq else p_to, if fe then pb_next fq else p_from, a', b', None)"
    unfolding S1_def tq'_def src_data a'_def b'_def te_def fe_def
    unfolding x_def
  proof (rule copy_round_packet [OF less.prems(1) [unfolded ts] less.prems(2) [unfolded fs] mk(1) ab])
  qed (use stop queue_head_solid [OF pf solid(1)] queue_head_solid [OF pt solid(2)] in
      \<open>simp_all add: S1_def tq'_def src_data te_def fe_def x_def [symmetric]\<close>)
  have tgt: "set_all S (over ts (unat a) src) = set_all S1 (over ts' (unat a') (drop x src))"
    using over_step [of tq "unat a" x src S m ts0] t ab(1) x sums(1)
    by (auto simp: ts ts'_def S1_def tq'_def a'_def te_def x_def)
  show ?case
  proof (cases "fs' = []")
    case True
    then have "(if fe then pb_next fq else p_from) = None" using pf by simp
    moreover have "set_all S1 (over ts' (unat a') (drop x src)) = S1"
      using True pt set_all_packet [OF pt] by (simp add: src' over_Nil packet_def)
    ultimately show ?thesis
      using round by (subst copy_loop.simps) (simp add: tgt [unfolded src_def, folded src_def] src_def [symmetric])
  next
    case False
    obtain n q rs where q: "fs' = (n, q) # rs" "0 < unat (len q)" "contents fs' \<noteq> []"
      using solid_nonempty [OF pf solid(1) False] .
    have nn: "(if fe then pb_next fq else p_from) \<noteq> None" using pf q(1) by (simp add: packet_def)
    have "copy_loop S p_to p_from a b = copy_loop S1 (if te then pb_next tq else p_to) (if fe then pb_next fq else p_from) a' b'"
      using round nn by (subst copy_loop.simps) simp
    also have "\<dots> = Some (Ok (ERR_OK, set_all S1 (over ts' (unat a') (drop (unat b') (contents fs')))))"
    proof (rule less.hyps)
      show "length ts' + length fs' < length ts + length fs" by (auto simp: ts'_def fs'_def ts fs te_def fe_def)
      show "addrs ts' \<inter> addrs fs' = {}" using less.prems(5) by (auto simp: ts'_def fs'_def ts fs split: if_splits)
      show "unat b' < unat (len (snd (hd fs')))" using q ab(2) sums(2) by (auto simp: b'_def fs'_def fs fe_def x_def)
      show "unat a' < unat (len (snd (hd ts')))"
        by (rule solid_nonempty [OF pt solid(2) ts_ne [OF False]])
          (use ab(1) sums(1) tq'(2) in \<open>auto simp: a'_def ts'_def te_def x_def split: if_splits\<close>)
      show "unat a' + (length (contents fs') - unat b') \<le> length (contents ts')" using fits unfolding src' by simp
    qed (use pt pf solid ts_ne False in auto)
    finally show ?thesis unfolding src_def [symmetric] tgt src' .
  qed
qed

lemma copy_packet:
  assumes t: "packet S p_to ts" and f: "packet S p_from fs" and ne: "ts \<noteq> []" "fs \<noteq> []"
    and solid: "solid ts" "solid fs" and disj: "addrs ts \<inter> addrs fs = {}"
  shows "pbuf_copy S p_to p_from =
    (if length (contents fs) \<le> length (contents ts) then Ok (ERR_OK, set_all S (filled ts (contents fs))) else Ok (ERR_ARG, S))"
proof -
  obtain tq where tq: "deref S p_to = Ok tq" "length (contents ts) = unat (tot_len tq)" using packet_total [OF t ne(1)] .
  obtain fq where fq: "deref S p_from = Ok fq" "length (contents fs) = unat (tot_len fq)" using packet_total [OF f ne(2)] .
  obtain m k where some: "p_to = Some m" "p_from = Some k" using t f ne by (cases ts; cases fs) (auto simp: packet_def)
  have "unat (0 :: u16) < unat (len (snd (hd ts)))" by (rule solid_nonempty [OF t solid(1) ne(1)]) simp
  moreover have "unat (0 :: u16) < unat (len (snd (hd fs)))" by (rule solid_nonempty [OF f solid(2) ne(2)]) simp
  ultimately show ?thesis
    using copy_loop_packet [OF t f solid disj ne(2,1), of 0 0] tq fq some
    by (simp add: pbuf_copy_def word_le_nat_alt loop_result_def over_0)
qed

end
