(* ===== verification/LwipUdpPath.thy ===== *)
theory LwipUdpPath
  imports LwipUdpRun LwipSearch
begin

text \<open>
  The way of a datagram: the headers in front of a packet that is sent, and their removal from a
  packet that was received. A header is put in front of a packet either in the memory of its first
  buffer or in a buffer of its own; in both cases the packet handed to the interface consists of the
  bytes of the headers and of the data. On reception the headers are decoded, the end of a frame that
  was filled up is cut off, and the callback of the receiver gets the data.
\<close>

unbundle bit_operations_syntax

section \<open>Fields of headers\<close>

lemma be16_join: "push_bit 8 (ucast (ucast (drop_bit 8 x) :: u8)) OR ucast (ucast x :: u8) = x" for x :: u16
  by (rule bit_word_eqI) (auto simp: bit_simps)

lemma addr_join:
  "ucast (ucast a :: u8) OR push_bit 8 (ucast (ucast (drop_bit 8 a) :: u8)) OR
   push_bit 16 (ucast (ucast (drop_bit 16 a) :: u8)) OR push_bit 24 (ucast (ucast (drop_bit 24 a) :: u8)) = a" for a :: u32
proof (rule bit_word_eqI)
  fix n :: nat
  have "24 + (n - 24) = n \<or> n < 24" by linarith
  then show "bit (ucast (ucast a :: u8) OR push_bit 8 (ucast (ucast (drop_bit 8 a) :: u8)) OR
     push_bit 16 (ucast (ucast (drop_bit 16 a) :: u8)) OR push_bit 24 (ucast (ucast (drop_bit 24 a) :: u8)) :: u32) n = bit a n"
    if "n < LENGTH(32)" using that by (auto simp: bit_simps)
qed

lemma length_headers [simp]: "length (ip4_header t l i h pr s d) = 20" "length (udp_header sp dp l) = 8"
  by (simp_all add: ip4_header_def udp_header_def be16_bytes_def addr_bytes_def)

lemma ip4_header_fields:
  "(ip4_header t l i h pr s d @ r) ! 0 = 0x45" "be16_at (ip4_header t l i h pr s d @ r) 2 = l"
  "be16_at (ip4_header t l i h pr s d @ r) 6 = 0" "(ip4_header t l i h pr s d @ r) ! 9 = pr"
  "addr_at (ip4_header t l i h pr s d @ r) 12 = s" "addr_at (ip4_header t l i h pr s d @ r) 16 = d"
  using be16_join [of l] addr_join [of s] addr_join [of d]
  by (simp_all add: ip4_header_def be16_bytes_def be16_at_def addr_bytes_def addr_at_def eval_nat_numeral)

lemma udp_header_fields:
  "be16_at (udp_header sp dp l @ r) 0 = sp" "be16_at (udp_header sp dp l @ r) 2 = dp"
  using be16_join [of sp] be16_join [of dp]
  by (simp_all add: udp_header_def be16_bytes_def be16_at_def eval_nat_numeral)

section \<open>A header in front of a packet\<close>

definition widened :: "pbuf \<Rightarrow> nat \<Rightarrow> pbuf" where
  "widened q k = q\<lparr>payload := payload q - k, len := len q + word_of_nat k, tot_len := tot_len q + word_of_nat k\<rparr>"

definition headed :: "pbuf \<Rightarrow> u8 list \<Rightarrow> pbuf" where
  "headed q hdr = refill (widened q (length hdr)) hdr"

lemma headed_simps [simp]:
  "pb_next (headed q hdr) = pb_next q" "pb_type (headed q hdr) = pb_type q" "ref (headed q hdr) = ref q"
  "payload (headed q hdr) = payload q - length hdr" "tot_len (headed q hdr) = tot_len q + word_of_nat (length hdr)"
  by (simp_all add: headed_def widened_def)

lemma prepend_header:
  assumes pk: "packet S p ((k, q) # qs)" and type: "pb_type q \<in> {PBUF_RAM, PBUF_POOL}" and room: "length hdr \<le> payload q"
    and small: "length hdr < 32768" "length (contents ((k, q) # qs)) + length hdr < 65536"
  shows "pbuf_header S p (word_of_nat (length hdr)) = Ok (0, S[k := Some (widened q (length hdr))])"
    and "write_pbuf (widened q (length hdr)) 0 hdr 0 (length hdr) = Ok (headed q hdr)"
    and "packet (S[k := Some (headed q hdr)]) p ((k, headed q hdr) # qs)"
    and "contents ((k, headed q hdr) # qs) = hdr @ contents ((k, q) # qs)"
proof -
  let ?h = "length hdr" and ?w = "widened q (length hdr)"
  note pk' = pk [unfolded packet_Cons]
  have tot: "length (contents ((k, q) # qs)) = unat (tot_len q)" using pk' by simp
  have h: "unat (word_of_nat ?h :: u16) = ?h" using small(1) by (simp add: unat_of_nat)
  have "unat (tot_len q) + ?h < 65536" using small(2) unfolding tot .
  with reveal_header [OF pk type small(1)] room
  show "pbuf_header S p (word_of_nat ?h) = Ok (0, S[k := Some ?w])" by (simp add: widened_def)
  have lens: "unat (len ?w) = unat (len q) + ?h" "unat (tot_len ?w) = unat (tot_len q) + ?h"
    using pk' small(2) h by (simp_all add: widened_def unat_add_small)
  have w: "sound ?w" "drop ?h (data_of ?w) = data_of q"
    using pk' room lens(1) by (auto simp: sound_def data_of_def widened_def drop_take)
  show "write_pbuf ?w 0 hdr 0 ?h = Ok (headed q hdr)" using w(1) lens(1) by (simp add: write_refill headed_def)
  have d: "sound (headed q hdr)" "data_of (headed q hdr) = hdr @ data_of q"
    using refill_data [OF w(1), of hdr] lens(1) w(2) by (simp_all add: headed_def)
  have "len (headed q hdr) = len ?w" "tot_len (headed q hdr) = tot_len ?w" by (simp_all add: headed_def)
  with pk' d lens show "packet (S[k := Some (headed q hdr)]) p ((k, headed q hdr) # qs)" by (simp add: packet_def)
  show "contents ((k, headed q hdr) # qs) = hdr @ contents ((k, q) # qs)" by (simp add: d(2))
qed

lemma packet_bytes_contents:
  assumes "packet S p qs" and "qs \<noteq> []" shows "packet_bytes S p = Ok (contents qs)"
proof -
  obtain q where "deref S p = Ok q" "length (contents qs) = unat (tot_len q)" using packet_total [OF assms] .
  then show ?thesis by (simp add: packet_bytes_def copy_partial_packet [OF assms(1)])
qed

text \<open>
  What is relied on of the output function of an interface: it returns and leaves the packet a chain
  of the same buffers, with whatever in them; it does not give back what belongs to the caller.
\<close>

definition output_law :: "net_env \<Rightarrow> bool" where
  "output_law E \<longleftrightarrow> (\<forall>n S p d qs. packet S p qs \<longrightarrow>
     (\<exists>err S' qs'. netif_output E n S p d = Ok (err, S') \<and> linked S' p qs' \<and> map fst qs' = map fst qs))"

lemma transmit_frame:
  assumes "output_law E" and "packet (net_pbufs N) p qs" and "qs \<noteq> []"
    and "netif_mtu n = 0 \<or> length (contents qs) \<le> unat (netif_mtu n)"
  shows "\<exists>err S qs'. ip4_transmit E N p d n =
      Ok (err, N\<lparr>net_pbufs := S, events := events N @ [Sent (netif_num n) d (contents qs)]\<rparr>) \<and>
    linked S p qs' \<and> map fst qs' = map fst qs"
proof -
  obtain q where q: "deref (net_pbufs N) p = Ok q" "length (contents qs) = unat (tot_len q)" using packet_total [OF assms(2,3)] .
  obtain err S qs' where "netif_output E n (net_pbufs N) p d = Ok (err, S)" "linked S p qs'" "map fst qs' = map fst qs"
    using assms(1,2) unfolding output_law_def by blast
  moreover have "\<not> (netif_mtu n \<noteq> 0 \<and> tot_len q > netif_mtu n)"
    using assms(4) q(2) by (auto simp: word_less_nat_alt)
  ultimately show ?thesis
    using q(1) by (intro exI) (auto simp: ip4_transmit_def packet_bytes_contents [OF assms(2,3)])
qed

lemma output_frame:
  assumes law: "output_law E" and pk: "packet (net_pbufs N) p ((k, q) # qs)" and type: "pb_type q \<in> {PBUF_RAM, PBUF_POOL}"
    and room: "20 \<le> payload q" and small: "length (contents ((k, q) # qs)) + 20 < 65536"
    and mtu: "netif_mtu n = 0 \<or> length (contents ((k, q) # qs)) + 20 \<le> unat (netif_mtu n)"
  shows "\<exists>err N' qs'. ip4_output_if_src E N p (Some s) (Some d) hops service proto n = Ok (err, N') \<and>
    events N' = events N @ [Sent (netif_num n) d
      (ip4_header service (tot_len q + 20) (ip_id N) hops proto s d @ contents ((k, q) # qs))] \<and>
    linked (net_pbufs N') p qs' \<and> map fst qs' = k # map fst qs"
proof -
  let ?hdr = "ip4_header service (tot_len q + 20) (ip_id N) hops proto s d"
  have "length ?hdr \<le> payload q" "length ?hdr < 32768" "length (contents ((k, q) # qs)) + length ?hdr < 65536"
    using room small by simp_all
  note pre = prepend_header [OF pk type this]
  let ?N = "N\<lparr>net_pbufs := (net_pbufs N)[k := Some (headed q ?hdr)], ip_id := ip_id N + 1\<rparr>"
  have k: "p = Some k" "k < length (net_pbufs N)" using pk by (simp_all add: packet_Cons)
  have "packet (net_pbufs ?N) p ((k, headed q ?hdr) # qs)" using pre(3) by simp
  moreover have "netif_mtu n = 0 \<or> length (contents ((k, headed q ?hdr) # qs)) \<le> unat (netif_mtu n)"
    unfolding pre(4) using mtu by (simp add: ac_simps)
  ultimately obtain err S qs' where "ip4_transmit E ?N p d n =
      Ok (err, ?N\<lparr>net_pbufs := S, events := events ?N @ [Sent (netif_num n) d (contents ((k, headed q ?hdr) # qs))]\<rparr>)"
    "linked S p qs'" "map fst qs' = map fst ((k, headed q ?hdr) # qs)"
    using transmit_frame [OF law, of ?N p "(k, headed q ?hdr) # qs" n d] by blast
  moreover have "ip4_output_if_src E N p (Some s) (Some d) hops service proto n = ip4_transmit E ?N p d n"
    using pre(1,2) k by (simp add: ip4_output_if_src_def IP_HLEN_def widened_def)
  ultimately show ?thesis unfolding pre(4) by auto
qed

section \<open>Sending\<close>

definition udp_frame :: "udp_pcb \<Rightarrow> u16 \<Rightarrow> u32 \<Rightarrow> u32 \<Rightarrow> u16 \<Rightarrow> u8 list \<Rightarrow> u8 list" where
  "udp_frame b id_arg s d dport data =
     ip4_header (tos b) (word_of_nat (length data + 28)) id_arg (ttl b) 17 s d @
     udp_header (local_port b) dport (word_of_nat (length data + 8)) @ data"

text \<open>The packet with the header of UDP in its first buffer, which has room for that of IP.\<close>

lemma send_headed:
  fixes b :: udp_pcb and dport :: u16
  assumes law: "output_law E" and pk: "packet (net_pbufs N) (Some m) ((m, h) # rs)" and type: "pb_type h \<in> {PBUF_RAM, PBUF_POOL}"
    and room: "20 \<le> payload h" and len: "8 \<le> unat (len h)" and data: "drop 8 (contents ((m, h) # rs)) = data"
    and small: "length data + 28 < 65536" and mtu: "netif_mtu i = 0 \<or> length data + 28 \<le> unat (netif_mtu i)"
  defines "hdr \<equiv> udp_header (local_port b) dport (tot_len h)"
  shows "write_pbuf h 0 hdr 0 8 = Ok (refill h hdr)"
    and "\<exists>err N' qs'. ip4_output_if_src E (N\<lparr>net_pbufs := (net_pbufs N)[m := Some (refill h hdr)]\<rparr>) (Some m) (Some s) (Some d)
        (ttl b) (tos b) 17 i = Ok (err, N') \<and>
      events N' = events N @ [Sent (netif_num i) d (udp_frame b (ip_id N) s d dport data)] \<and> linked (net_pbufs N') (Some m) qs'"
proof -
  note pk' = pk [unfolded packet_Cons]
  have l: "length hdr = 8" by (simp add: hdr_def)
  show "write_pbuf h 0 hdr 0 8 = Ok (refill h hdr)" using write_refill [of h 8 0 hdr] pk' len l by simp
  have r: "sound (refill h hdr)" "data_of (refill h hdr) = hdr @ drop 8 (data_of h)"
    using refill_data [of h hdr] pk' len l by simp_all
  let ?N = "N\<lparr>net_pbufs := (net_pbufs N)[m := Some (refill h hdr)]\<rparr>"
  have c: "contents ((m, refill h hdr) # rs) = hdr @ data" using data r(2) pk' len by simp
  have "packet (net_pbufs ?N) (Some m) ((m, refill h hdr) # rs)" using pk' r(1) by (simp add: packet_def)
  moreover have "pb_type (refill h hdr) \<in> {PBUF_RAM, PBUF_POOL}" "20 \<le> payload (refill h hdr)" using type room by simp_all
  moreover have "length (contents ((m, refill h hdr) # rs)) + 20 < 65536"
    "netif_mtu i = 0 \<or> length (contents ((m, refill h hdr) # rs)) + 20 \<le> unat (netif_mtu i)"
    unfolding c using small mtu l by auto
  ultimately obtain err N' qs' where out: "ip4_output_if_src E ?N (Some m) (Some s) (Some d) (ttl b) (tos b) 17 i = Ok (err, N')"
    "events N' = events ?N @ [Sent (netif_num i) d (ip4_header (tos b) (tot_len (refill h hdr) + 20) (ip_id ?N) (ttl b) 17 s d @
       contents ((m, refill h hdr) # rs))]" "linked (net_pbufs N') (Some m) qs'"
    using output_frame [OF law] by blast
  have tot: "length data + 8 = unat (tot_len h)" using data pk' len by auto
  have t: "tot_len h = word_of_nat (length data + 8)" unfolding tot by simp
  then have t28: "tot_len h + 20 = word_of_nat (length data + 28)" by simp
  have "ip4_header (tos b) (tot_len (refill h hdr) + 20) (ip_id ?N) (ttl b) 17 s d @ contents ((m, refill h hdr) # rs) =
    udp_frame b (ip_id N) s d dport data"
    unfolding c refill_simps t28 by (simp add: udp_frame_def hdr_def t ac_simps)
  with out show "\<exists>err N' qs'. ip4_output_if_src E ?N (Some m) (Some s) (Some d) (ttl b) (tos b) 17 i = Ok (err, N') \<and>
      events N' = events N @ [Sent (netif_num i) d (udp_frame b (ip_id N) s d dport data)] \<and> linked (net_pbufs N') (Some m) qs'"
    by auto
qed

text \<open>
  Where the header goes: into the first buffer if there is room for both headers, into a buffer of
  its own if there is none for that of UDP and the heap gives one.
\<close>

definition in_place :: "pbuf \<Rightarrow> bool" where
  "in_place q \<longleftrightarrow> pb_type q \<in> {PBUF_RAM, PBUF_POOL} \<and> 28 \<le> payload q"

definition separate :: "net_env \<Rightarrow> pbuf_store \<Rightarrow> pbuf \<Rightarrow> bool" where
  "separate E S q \<longleftrightarrow> (pb_type q \<in> {PBUF_ROM, PBUF_REF} \<or> payload q < 8) \<and> heap_room (net_mem E) S 60"

lemma header_room_in_place:
  assumes pk: "packet (net_pbufs N) p ((k, q) # qs)" and q: "in_place q" and small: "length (contents ((k, q) # qs)) + 28 < 65536"
  shows "header_room E N p = Ok (p, N\<lparr>net_pbufs := (net_pbufs N)[k := Some (widened q 8)]\<rparr>)"
    and "packet ((net_pbufs N)[k := Some (widened q 8)]) p ((k, widened q 8) # qs)"
    and "drop 8 (contents ((k, widened q 8) # qs)) = contents ((k, q) # qs)" and "8 \<le> unat (len (widened q 8))"
proof -
  note pk' = pk [unfolded packet_Cons]
  have tot: "length (contents ((k, q) # qs)) = unat (tot_len q)" using pk' by simp
  have s8: "unat (tot_len q) + 8 < 65536" using small unfolding tot by simp
  have "pbuf_header (net_pbufs N) p (word_of_nat 8) = Ok (0, (net_pbufs N)[k := Some (widened q 8)])"
    using reveal_header [OF pk _ _ s8] q by (simp add: in_place_def widened_def)
  then show "header_room E N p = Ok (p, N\<lparr>net_pbufs := (net_pbufs N)[k := Some (widened q 8)]\<rparr>)"
    by (simp add: header_room_def UDP_HLEN_def)
  have lens: "unat (len (widened q 8)) = unat (len q) + 8" "unat (tot_len (widened q 8)) = unat (tot_len q) + 8"
    using pk' s8 by (simp_all add: widened_def unat_add_small)
  have w: "sound (widened q 8)" "drop 8 (data_of (widened q 8)) = data_of q"
    using pk' q lens(1) by (auto simp: sound_def data_of_def widened_def in_place_def drop_take)
  show "packet ((net_pbufs N)[k := Some (widened q 8)]) p ((k, widened q 8) # qs)"
    using pk' w(1) lens by (simp add: packet_def widened_def)
  show "drop 8 (contents ((k, widened q 8) # qs)) = contents ((k, q) # qs)" using w lens(1) by simp
  show "8 \<le> unat (len (widened q 8))" using lens(1) by simp
qed

text \<open>The header in a buffer of its own.\<close>

definition header_buf :: "net_env \<Rightarrow> pbuf_store \<Rightarrow> pbuf" where
  "header_buf E S = \<lparr>pb_next = None, payload = 36, area = new_area (net_mem E) S 44, tot_len = 8, len = 8,
     pb_type = PBUF_RAM, custom = False, ref = 1\<rparr>"

lemma header_buf_fields [simp]:
  "sound (header_buf E S)" "length (data_of (header_buf E S)) = 8" "len (header_buf E S) = 8" "tot_len (header_buf E S) = 8"
  "payload (header_buf E S) = 36" "pb_type (header_buf E S) = PBUF_RAM" "pb_next (header_buf E S) = None"
  by (simp_all add: header_buf_def sound_def data_of_def new_area_def)

lemma alloc_header:
  assumes "heap_room (net_mem E) S 60"
  shows "pbuf_alloc (net_mem E) S PBUF_IP UDP_HLEN PBUF_RAM = Ok (Some (length S), S @ [Some (header_buf E S)])"
  using assms by (simp add: pbuf_alloc_def UDP_HLEN_def LWIP_MEM_ALIGN_SIZE_def SIZEOF_STRUCT_PBUF_def header_buf_def)

lemma packet_append: "packet S p qs \<Longrightarrow> packet (S @ xs) p qs"
  by (simp add: packet_def linked_append)

lemma sint_8: "sint (8 :: u16) = 8"
  by simp

lemma no_room:
  assumes "packet S p ((k, q) # qs)" and "separate E S q"
  shows "pbuf_header S p UDP_HLEN = Ok (1, S)"
  using assms by (auto simp: packet_Cons separate_def pbuf_header_def pbuf_header_impl_def UDP_HLEN_def Let_def sint_8)

lemma header_room_separate:
  assumes pk: "packet (net_pbufs N) p ((k, q) # qs)" and q: "separate E (net_pbufs N) q"
    and small: "length (contents ((k, q) # qs)) + 28 < 65536"
  obtains S h rs where "header_room E N p = Ok (Some (length (net_pbufs N)), N\<lparr>net_pbufs := S\<rparr>)"
    "packet S (Some (length (net_pbufs N))) ((length (net_pbufs N), h) # rs)" "pb_type h = PBUF_RAM" "payload h = 36"
    "unat (len h) = 8" "drop 8 (contents ((length (net_pbufs N), h) # rs)) = contents ((k, q) # qs)"
proof -
  let ?S = "net_pbufs N" and ?m = "length (net_pbufs N)" and ?h = "header_buf E (net_pbufs N)"
  let ?S1 = "net_pbufs N @ [Some (header_buf E (net_pbufs N))]"
  note pk' = pk [unfolded packet_Cons]
  have tot: "length (contents ((k, q) # qs)) = unat (tot_len q)" using pk' by simp
  have room: "heap_room (net_mem E) ?S 60" using q by (simp add: separate_def)
  have p1: "packet ?S1 p ((k, q) # qs)" using packet_append [OF pk] .
  have hp: "packet ?S1 (Some ?m) [(?m, ?h)]" by (simp add: packet_Cons)
  have d: "deref ?S1 p = Ok q" using p1 by (simp add: packet_Cons)
  have hr: "header_room E N p = bind_outcome (if tot_len q \<noteq> 0 then pbuf_chain ?S1 (Some ?m) p else Ok ?S1)
      (\<lambda>S. Ok (Some ?m, N\<lparr>net_pbufs := S\<rparr>))"
    by (simp add: header_room_def no_room [OF pk q] alloc_header [OF room] d)
  show ?thesis
  proof (cases "tot_len q = 0")
    case True
    then have "contents ((k, q) # qs) = []" using tot by simp
    with True hr hp show ?thesis by (intro that [of ?S1 ?h "[]"]) simp_all
  next
    case False
    let ?g = "?h\<lparr>tot_len := 8 + tot_len q, pb_next := p\<rparr>"
    let ?S2 = "?S1[?m := Some ?g]"
    have k: "p = Some k" "k < ?m" using pk' by simp_all
    have disj: "addrs [(?m, ?h)] \<inter> addrs ((k, q) # qs) = {}"
      using pk linked_live [of ?S p "(k, q) # qs" ?m] by (auto simp: packet_def)
    have len: "length (contents [(?m, ?h)]) + length (contents ((k, q) # qs)) < 65536" using small by simp
    have w: "word_of_nat (length (contents ((k, q) # qs))) = tot_len q" unfolding tot by simp
    note cat = cat_packet [OF hp p1 _ _ disj len, simplified w grown.simps set_all_simps, simplified]
    have c1: "pbuf_cat ?S1 (Some ?m) p = Ok ?S2" using cat(1) by simp
    have c2: "packet ?S2 (Some ?m) ((?m, ?g) # (k, q) # qs)" using cat(2) by simp
    let ?S3 = "?S2[k := Some (q\<lparr>ref := ref q + 1\<rparr>)]"
    have "pbuf_chain ?S1 (Some ?m) p = Ok ?S3"
      using c2 k c1 unfolding pbuf_chain_def c1 by (simp add: pbuf_ref_def packet_Cons)
    moreover have "packet ?S3 (Some ?m) ((?m, ?g) # (k, q\<lparr>ref := ref q + 1\<rparr>) # qs)"
      using c2 k by (auto simp: packet_def nth_update)
    ultimately show ?thesis using hr False by (intro that [of ?S3 ?g "(k, q\<lparr>ref := ref q + 1\<rparr>) # qs"]) simp_all
  qed
qed

lemma send_bound:
  assumes law: "output_law E" and live: "live_pcb (pcb_mem N) n" and pk: "packet (net_pbufs N) p ((k, q) # qs)"
    and q: "in_place q \<or> separate E (net_pbufs N) q"
    and data: "contents ((k, q) # qs) = data" and small: "length data + 28 < 65536"
    and mtu: "netif_mtu i = 0 \<or> length data + 28 \<le> unat (netif_mtu i)"
  shows "\<exists>err N'. udp_send_bound E N (Some n) p (Some d) dport i (Some s) = Ok (err, N') \<and>
    events N' = events N @ [Sent (netif_num i) d (udp_frame (pcb_at (pcb_mem N) n) (ip_id N) s d dport data)]"
proof -
  let ?b = "pcb_at (pcb_mem N) n"
  have k: "p = Some k" "k < length (net_pbufs N)" using pk by (simp_all add: packet_Cons)
  have small': "length (contents ((k, q) # qs)) + 28 < 65536" using small unfolding data .
  have step: "udp_send_bound E N (Some n) p (Some d) dport i (Some s) =
      bind_outcome (ip4_output_if_src E (N\<lparr>net_pbufs := S[m := Some (refill h (udp_header (local_port ?b) dport (tot_len h)))]\<rparr>)
          (Some m) (Some s) (Some d) (ttl ?b) (tos ?b) 17 i) (\<lambda>(err, N).
        if Some m \<noteq> p then bind_outcome (free_packet_of N (Some m)) (\<lambda>N. Ok (err, N)) else Ok (err, N))"
    if "header_room E N p = Ok (Some m, N\<lparr>net_pbufs := S\<rparr>)" "packet S (Some m) ((m, h) # rs)"
      "write_pbuf h 0 (udp_header (local_port ?b) dport (tot_len h)) 0 8 = Ok (refill h (udp_header (local_port ?b) dport (tot_len h)))"
    for S m h rs
    using that(1,3) live that(2) [unfolded packet_Cons] by (simp add: udp_send_bound_def)
  from q show ?thesis
  proof
    assume q: "in_place q"
    note room = header_room_in_place [OF pk q small']
    let ?h = "widened q 8" and ?N = "N\<lparr>net_pbufs := (net_pbufs N)[k := Some (widened q 8)]\<rparr>"
    have t: "pb_type ?h \<in> {PBUF_RAM, PBUF_POOL}" "20 \<le> payload ?h" using q by (auto simp: in_place_def widened_def)
    have d: "drop 8 (contents ((k, ?h) # qs)) = data" using room(3) unfolding data .
    have "packet (net_pbufs ?N) (Some k) ((k, ?h) # qs)" using room(2) k(1) by simp
    note sent = send_headed [OF law this t room(4) d small mtu]
    have "header_room E N p = Ok (Some k, ?N)" "packet ((net_pbufs N)[k := Some ?h]) (Some k) ((k, ?h) # qs)"
      using room(1,2) k(1) by simp_all
    from step [OF this sent(1)] sent(2) [of ?b dport s d] k(1) show ?thesis by auto
  next
    assume q: "separate E (net_pbufs N) q"
    let ?m = "length (net_pbufs N)"
    obtain S h rs where room: "header_room E N p = Ok (Some ?m, N\<lparr>net_pbufs := S\<rparr>)" "packet S (Some ?m) ((?m, h) # rs)"
      "pb_type h = PBUF_RAM" "payload h = 36" "unat (len h) = 8" "drop 8 (contents ((?m, h) # rs)) = data"
      using header_room_separate [OF pk q small'] unfolding data by metis
    have t: "pb_type h \<in> {PBUF_RAM, PBUF_POOL}" "20 \<le> payload h" "8 \<le> unat (len h)" using room(3-5) by simp_all
    let ?N = "N\<lparr>net_pbufs := S\<rparr>"
    have "packet (net_pbufs ?N) (Some ?m) ((?m, h) # rs)" using room(2) by simp
    note sent = send_headed [OF law this t room(6) small mtu]
    obtain err N' qs' where out: "ip4_output_if_src E (?N\<lparr>net_pbufs := (net_pbufs ?N)[?m := Some (refill h (udp_header (local_port ?b) dport (tot_len h)))]\<rparr>)
        (Some ?m) (Some s) (Some d) (ttl ?b) (tos ?b) 17 i = Ok (err, N')"
      "events N' = events ?N @ [Sent (netif_num i) d (udp_frame ?b (ip_id ?N) s d dport data)]" "linked (net_pbufs N') (Some ?m) qs'"
      using sent(2) by blast
    have "\<exists>S. free_packet_of N' (Some ?m) = Ok (N'\<lparr>net_pbufs := S\<rparr>)"
      using free_packet [OF out(3)] by (auto simp: free_packet_of_def)
    with step [OF room(1,2) sent(1)] out k show ?thesis by auto
  qed
qed

section \<open>Reception\<close>

lemma field_of_head:
  assumes "packet S p ((k, q) # qs)" and "i + 1 < n" and "n \<le> unat (len q)"
  shows "be16_at (take n (data_of q)) i = be16_at (contents ((k, q) # qs)) i"
  using assms by (simp add: be16_at_def packet_Cons nth_append)

lemma read_head:
  assumes "packet S p ((k, q) # qs)" and "n \<le> unat (len q)" shows "read_pbuf q 0 n = Ok (take n (data_of q))"
  using assms by (simp add: read_pbuf_def packet_Cons sound_def data_of_def min_def)

text \<open>The block is bound to the destination of the datagram.\<close>

definition addressed :: "ip_globals \<Rightarrow> netif \<Rightarrow> u16 \<Rightarrow> udp_pcb \<Rightarrow> bool" where
  "addressed G inp dest b \<longleftrightarrow> local_port b = dest \<and>
     udp_input_local_match G b inp (ip4_addr_isbroadcast_u32 (current_dest G) (current_netif G))"

abbreviation receiver_of :: "net \<Rightarrow> nat list \<Rightarrow> ip_globals \<Rightarrow> netif \<Rightarrow> u16 \<Rightarrow> u16 \<Rightarrow> nat option" where
  "receiver_of N ns G inp src dest \<equiv> receiver (pcb_mem N) ns (addressed G inp dest) (remote_match G src)"

abbreviation fronted_of :: "net \<Rightarrow> nat list \<Rightarrow> ip_globals \<Rightarrow> netif \<Rightarrow> u16 \<Rightarrow> u16 \<Rightarrow> nat list" where
  "fronted_of N ns G inp src dest \<equiv> fronted (pcb_mem N) ns (addressed G inp dest) (remote_match G src)"

lemma udp_input_search:
  fixes G :: ip_globals
  assumes wf: "udp_wf N ns" and pk: "packet (net_pbufs N) p ((k, q) # qs)" and len: "8 \<le> unat (len q)"
    and src: "be16_at (contents ((k, q) # qs)) 0 = src" and dest: "be16_at (contents ((k, q) # qs)) 2 = dest"
  shows "\<exists>M h. udp_input E N G p inp =
      udp_deliver E (N\<lparr>pcb_mem := M, udp_pcbs := h\<rparr>) G p inp
        (ip4_addr_isbroadcast_u32 (current_dest G) (current_netif G)) src (receiver_of N ns G inp src dest) \<and>
    same_data (pcb_mem N) M \<and> udp_wf (N\<lparr>pcb_mem := M, udp_pcbs := h\<rparr>) (fronted_of N ns G inp src dest)"
proof -
  let ?bc = "ip4_addr_isbroadcast_u32 (current_dest G) (current_netif G)"
  have L: "(\<lambda>b. local_port b = dest \<and> udp_input_local_match G b inp ?bc) = addressed G inp dest"
    by (simp add: addressed_def fun_eq_iff)
  obtain M h where f: "find_receiver N G inp ?bc src dest = Ok (receiver_of N ns G inp src dest, N\<lparr>pcb_mem := M, udp_pcbs := h\<rparr>)"
    "same_data (pcb_mem N) M" "plist M h (fronted_of N ns G inp src dest)" "set (fronted_of N ns G inp src dest) = set ns"
    by (rule find_receiver_list [OF wf, of G inp ?bc src dest, unfolded L])
  have d: "deref (net_pbufs N) p = Ok q" using pk by (simp add: packet_Cons)
  have "\<not> len q < UDP_HLEN" using len by (simp add: UDP_HLEN_def word_less_nat_alt)
  moreover have "read_pbuf q 0 4 = Ok (take 4 (data_of q))" "be16_at (take 4 (data_of q)) 0 = src" "be16_at (take 4 (data_of q)) 2 = dest"
    using read_head [OF pk, of 4] field_of_head [OF pk, of 0 4] field_of_head [OF pk, of 2 4] len src dest by simp_all
  ultimately have "udp_input E N G p inp =
      udp_deliver E (N\<lparr>pcb_mem := M, udp_pcbs := h\<rparr>) G p inp ?bc src (receiver_of N ns G inp src dest)"
    using d f(1) by (simp add: udp_input_def)
  with f same_data_wf(1) [OF f(2,3,4) wf] show ?thesis by blast
qed

lemma udp_deliver_received:
  assumes pk: "packet (net_pbufs N) p ((k, q) # qs)" and len: "8 \<le> unat (len q)" and r: "live_pcb (pcb_mem N) r"
  shows "udp_deliver E N G p inp bc src (Some r) =
    (let S = (net_pbufs N)[k := Some (moved_on q 8)] in
     case recv_fn (pcb_at (pcb_mem N) r) of
       Some fn \<Rightarrow> Ok (N\<lparr>net_pbufs := S, events := events N @ [Received fn (recv_arg (pcb_at (pcb_mem N) r)) r p (current_src G) src]\<rparr>)
     | None \<Rightarrow> Ok (N\<lparr>net_pbufs := dropped S ((k, moved_on q 8) # qs)\<rparr>))"
proof -
  have 8: "- UDP_HLEN = - word_of_nat 8" by (simp add: UDP_HLEN_def)
  note h = hide_header [OF pk len, simplified]
  have "linked ((net_pbufs N)[k := Some (moved_on q 8)]) p ((k, moved_on q 8) # qs)" using h(2) by (simp add: packet_def)
  from free_packet [OF this] show ?thesis
    using h(1) r unfolding udp_deliver_def 8 by (simp add: Let_def free_packet_of_def split: option.split)
qed

lemma receiver_in_list: "receiver M ns L R = Some r \<Longrightarrow> r \<in> set ns"
  by (auto simp: receiver_def find_Some_iff split: option.split_asm)

lemma udp_input_received:
  fixes G :: ip_globals
  assumes wf: "udp_wf N ns" and pk: "packet (net_pbufs N) p ((k, q) # qs)" and len: "8 \<le> unat (len q)"
    and src: "be16_at (contents ((k, q) # qs)) 0 = src" and dest: "be16_at (contents ((k, q) # qs)) 2 = dest"
    and r: "receiver_of N ns G inp src dest = Some r" and fn: "recv_fn (pcb_at (pcb_mem N) r) = Some fn"
  shows "\<exists>N'. udp_input E N G p inp = Ok N' \<and>
    events N' = events N @ [Received fn (recv_arg (pcb_at (pcb_mem N) r)) r p (current_src G) src] \<and>
    packet (net_pbufs N') p ((k, moved_on q 8) # qs) \<and> udp_wf N' (fronted_of N ns G inp src dest) \<and>
    same_data (pcb_mem N) (pcb_mem N')"
proof -
  from udp_input_search [OF wf pk len src dest, of E G inp] r obtain M h where
    M: "udp_input E N G p inp = udp_deliver E (N\<lparr>pcb_mem := M, udp_pcbs := h\<rparr>) G p inp
      (ip4_addr_isbroadcast_u32 (current_dest G) (current_netif G)) src (Some r)"
    "same_data (pcb_mem N) M" "udp_wf (N\<lparr>pcb_mem := M, udp_pcbs := h\<rparr>) (fronted_of N ns G inp src dest)" by auto
  let ?N = "N\<lparr>pcb_mem := M, udp_pcbs := h\<rparr>"
  have "live_pcb (pcb_mem N) r" using plist_live [of "pcb_mem N" "udp_pcbs N" ns r] wf receiver_in_list [OF r] by (simp add: udp_wf_def)
  then have live: "live_pcb (pcb_mem ?N) r" using M(2) by (simp add: same_data_def)
  have pk1: "packet (net_pbufs ?N) p ((k, q) # qs)" using pk by simp
  let ?N' = "?N\<lparr>net_pbufs := (net_pbufs N)[k := Some (moved_on q 8)],
    events := events N @ [Received fn (recv_arg (pcb_at (pcb_mem N) r)) r p (current_src G) src]\<rparr>"
  have "udp_input E N G p inp = Ok ?N'"
    unfolding M(1) udp_deliver_received [OF pk1 len live] using fn same_data_fields(2,3) [OF M(2), of r] by (simp add: Let_def)
  moreover have "udp_wf ?N' (fronted_of N ns G inp src dest)" using M(3) by (simp add: udp_wf_def)
  moreover have "packet (net_pbufs ?N') p ((k, moved_on q 8) # qs)" using hide_header(2) [OF pk len] by simp
  ultimately show ?thesis using M(2) by (intro exI [of _ ?N']) simp
qed

text \<open>A frame that was filled up at its end, and the packet that is left of it.\<close>

lemma trimmed_frame:
  assumes pk: "packet S p ((k, q) # qs)" and c: "contents ((k, q) # qs) = frame @ pad" and l: "unat l = length frame"
    and one: "pad = [] \<or> qs = []" and n: "n \<le> length frame" "n \<le> unat (len q)"
  obtains S' q' where "(if l < tot_len q then pbuf_realloc S p l else Ok S) = Ok S'" "packet S' p ((k, q') # qs)"
    "contents ((k, q') # qs) = frame" "n \<le> unat (len q')" "tot_len q' = l"
proof -
  have tot: "unat (tot_len q) = length frame + length pad" using pk arg_cong [OF c, of length] by (simp add: packet_Cons)
  show ?thesis
  proof (cases "pad = []")
    case True
    with tot l have "tot_len q = l" by (simp add: word_unat_eq_iff)
    with pk c n True that [of S q] show ?thesis by simp
  next
    case False
    then have qs: "qs = []" using one by simp
    have less: "unat l < length (contents [(k, q)])" using c l False by (simp add: qs)
    obtain S' pre last post where r: "pbuf_realloc S p l = Ok S'" "packet S' p (pre @ [last])"
      "contents (pre @ [last]) = take (unat l) (contents [(k, q)])" "map fst [(k, q)] = map fst (pre @ [last] @ post)"
      using realloc_packet [OF pk [unfolded qs] _ less] by auto
    then have "pre = []" "fst last = k" by (cases pre; simp)+
    then obtain q' where last: "pre @ [last] = [(k, q')]" by (cases last) simp
    have c': "contents [(k, q')] = frame" using r(3) l c unfolding last by (simp add: qs)
    have q': "sound q'" "unat (tot_len q') = unat (len q')" using r(2) unfolding last by (simp_all add: packet_Cons)
    have "unat (len q') = length frame" using c' q'(1) by auto
    with q'(2) l have "tot_len q' = l" "n \<le> unat (len q')" using n(1) by (simp_all add: word_unat_eq_iff)
    moreover have "l < tot_len q" using tot l False by (simp add: word_less_nat_alt)
    ultimately show ?thesis using r(1,2) c' unfolding last by (intro that [of S' q']) (simp_all add: qs)
  qed
qed

text \<open>The fields of the header of IP, read from the first buffer.\<close>

lemma head_take:
  assumes "packet S p ((k, q) # qs)" and "n \<le> unat (len q)"
  shows "take n (data_of q) = take n (contents ((k, q) # qs))"
  using assms by (simp add: packet_Cons)

lemma ip4_header_taken:
  assumes "n \<in> {4, 20}"
  shows "take n (ip4_header t l i h pr s d @ r) ! 0 = 0x45" "be16_at (take n (ip4_header t l i h pr s d @ r)) 2 = l"
    "n = 20 \<Longrightarrow> be16_at (take n (ip4_header t l i h pr s d @ r)) 6 = 0"
    "n = 20 \<Longrightarrow> take n (ip4_header t l i h pr s d @ r) ! 9 = pr"
    "n = 20 \<Longrightarrow> addr_at (take n (ip4_header t l i h pr s d @ r)) 12 = s"
    "n = 20 \<Longrightarrow> addr_at (take n (ip4_header t l i h pr s d @ r)) 16 = d"
  using assms ip4_header_fields [of t l i h pr s d "[]"] by (auto simp: be16_at_def addr_at_def)

lemma ip4_dispatch_udp:
  assumes pk: "packet (net_pbufs N) p ((k, q) # qs)" and len: "28 \<le> unat (len q)"
    and c: "contents ((k, q) # qs) = ip4_header t l i h 17 s d @ dgram"
  shows "ip4_dispatch E N p inp n 20 src dest =
      udp_input E (N\<lparr>net_pbufs := (net_pbufs N)[k := Some (moved_on q 20)]\<rparr>)
        \<lparr>current_netif = n, current_ip_header_tot_len = 20, current_src = src, current_dest = dest\<rparr> p inp"
    and "packet ((net_pbufs N)[k := Some (moved_on q 20)]) p ((k, moved_on q 20) # qs)"
    and "contents ((k, moved_on q 20) # qs) = dgram" and "8 \<le> unat (len (moved_on q 20))"
proof -
  have len20: "20 \<le> unat (len q)" using len by simp
  note hide = hide_header [OF pk len20, simplified]
  have rd: "read_pbuf q 0 20 = Ok (take 20 (ip4_header t l i h 17 s d @ dgram))"
    unfolding c [symmetric] head_take [OF pk len20, symmetric] by (rule read_head [OF pk len20])
  show "ip4_dispatch E N p inp n 20 src dest =
      udp_input E (N\<lparr>net_pbufs := (net_pbufs N)[k := Some (moved_on q 20)]\<rparr>)
        \<lparr>current_netif = n, current_ip_header_tot_len = 20, current_src = src, current_dest = dest\<rparr> p inp"
    using pk hide(1) rd ip4_header_taken(1,4) [of 20 t l i h 17 s d dgram] unfolding packet_Cons
    by (simp add: ip4_dispatch_def)
  show "packet ((net_pbufs N)[k := Some (moved_on q 20)]) p ((k, moved_on q 20) # qs)" by (rule hide(2))
  show "contents ((k, moved_on q 20) # qs) = dgram" using hide_header(3) [OF pk len20] unfolding c by simp
  show "8 \<le> unat (len (moved_on q 20))" using len by (simp add: moved_on_def unat_sub word_le_nat_alt)
qed

lemma ip4_input_datagram:
  fixes E inp
  assumes wf: "udp_wf N ns" and pk: "packet (net_pbufs N) p ((k, q) # qs)" and len: "28 \<le> unat (len q)"
    and c: "contents ((k, q) # qs) = (ip4_header t l i h 17 s d @ udp_header sp dp l' @ data) @ pad"
    and l: "unat l = length data + 28" and one: "pad = [] \<or> qs = []"
    and to_us: "accepting_netif E d inp = Some n" and from_one: "\<not> ip4_addr_isbroadcast_u32 s inp" "\<not> ip4_addr_ismulticast s"
  defines "G \<equiv> \<lparr>current_netif = n, current_ip_header_tot_len = 20, current_src = s, current_dest = d\<rparr>"
  assumes r: "receiver_of N ns G inp sp dp = Some r" and fn: "recv_fn (pcb_at (pcb_mem N) r) = Some fn"
  shows "\<exists>N' qs'. ip4_input E N p inp = Ok N' \<and>
    events N' = events N @ [Received fn (recv_arg (pcb_at (pcb_mem N) r)) r p s sp] \<and>
    packet (net_pbufs N') p qs' \<and> contents qs' = data"
proof -
  let ?frame = "ip4_header t l i h 17 s d @ udp_header sp dp l' @ data"
  have fl: "unat l = length ?frame" "28 \<le> length ?frame" using l by simp_all
  obtain S' q' where tr: "(if l < tot_len q then pbuf_realloc (net_pbufs N) p l else Ok (net_pbufs N)) = Ok S'"
    "packet S' p ((k, q') # qs)" "contents ((k, q') # qs) = ?frame" "28 \<le> unat (len q')" "tot_len q' = l"
    using trimmed_frame [OF pk c fl(1) one fl(2) len] by blast
  let ?N = "N\<lparr>net_pbufs := S'\<rparr>"
  have len': "20 \<le> unat (len q')" "4 \<le> unat (len q)" using tr(4) len by simp_all
  have rd: "read_pbuf q' 0 20 = Ok (take 20 ?frame)"
    unfolding tr(3) [symmetric] head_take [OF tr(2) len'(1), symmetric] by (rule read_head [OF tr(2) len'(1)])
  have rd4: "read_pbuf q 0 4 = Ok (take 4 (?frame @ pad))"
    unfolding c [symmetric] head_take [OF pk len'(2), symmetric] by (rule read_head [OF pk len'(2)])
  have pk': "packet (net_pbufs ?N) p ((k, q') # qs)" using tr(2) by simp
  note disp = ip4_dispatch_udp [OF pk' tr(4,3)]
  have d: "deref (net_pbufs N) p = Ok q" "deref S' p = Ok q'" "p \<noteq> None" using pk tr(2) by (simp_all add: packet_Cons)
  have "ip4_input E N p inp = ip4_accept E ?N p inp 20"
    using d rd4 tr(1,5) len'(1) ip4_header_taken(1,2) [of 4 t l i h 17 s d "udp_header sp dp l' @ data @ pad"]
    by (simp add: ip4_input_def IP_HLEN_def word_less_nat_alt not_less)
  also have "\<dots> = ip4_dispatch E ?N p inp n 20 s d"
    using d(2,3) rd to_us from_one ip4_header_taken(3,5,6) [of 20 t l i h 17 s d "udp_header sp dp l' @ data"]
    by (auto simp: ip4_accept_def)
  finally have run: "ip4_input E N p inp = udp_input E (?N\<lparr>net_pbufs := S'[k := Some (moved_on q' 20)]\<rparr>) G p inp"
    using disp(1) [of E inp n s d] by (simp add: G_def)
  let ?M = "?N\<lparr>net_pbufs := S'[k := Some (moved_on q' 20)]\<rparr>"
  have "udp_wf ?M ns" "packet (net_pbufs ?M) p ((k, moved_on q' 20) # qs)" using wf disp(2) by (simp_all add: udp_wf_def)
  moreover have "be16_at (contents ((k, moved_on q' 20) # qs)) 0 = sp" "be16_at (contents ((k, moved_on q' 20) # qs)) 2 = dp"
    unfolding disp(3) by (rule udp_header_fields)+
  moreover have "receiver_of ?M ns G inp sp dp = Some r" "recv_fn (pcb_at (pcb_mem ?M) r) = Some fn" using r fn by simp_all
  ultimately obtain N' where N': "udp_input E ?M G p inp = Ok N'"
    "events N' = events ?M @ [Received fn (recv_arg (pcb_at (pcb_mem ?M) r)) r p (current_src G) sp]"
    "packet (net_pbufs N') p ((k, moved_on (moved_on q' 20) 8) # qs)"
    using udp_input_received [of ?M ns p k "moved_on q' 20" qs sp dp G inp r fn E] disp(4) by blast
  have "contents ((k, moved_on (moved_on q' 20) 8) # qs) = drop 8 (udp_header sp dp l' @ data)"
    using hide_header(3) [OF disp(2) disp(4)] unfolding disp(3) by simp
  with N' run show ?thesis by (intro exI [of _ N'] exI) (auto simp: G_def)
qed

end
