(* ===== verification/LwipUdpProps.thy ===== *)
theory LwipUdpProps
  imports LwipUdpPath
begin

text \<open>
  What UDP promises its users: endpoints that nobody else has, a local port whenever one is free, the
  right receiver for every datagram, datagrams that arrive as they were sent, and an error with
  nothing sent otherwise; and two properties of the endpoints that the comments of \<open>udp.c\<close> do not
  suggest.
\<close>

unbundle bit_operations_syntax

section \<open>Two hosts\<close>

text \<open>
  An example: an interface with the address 192.168.1.10 of a network of 256 addresses, a driver that
  takes every packet, and room for two control blocks.
\<close>

definition lan :: netif where
  "lan = \<lparr>netif_num = 0, netif_ip_addr = 0x0a01a8c0, netif_netmask = 0x00ffffff, netif_gw = 0x0101a8c0, netif_mtu = 1500,
     netif_flags = 0x0f\<rparr>"

definition host_on :: "netif \<Rightarrow> net_env" where
  "host_on n = \<lparr>net_mem = \<lparr>heap_room = \<lambda>S n. True, old_bytes = \<lambda>a i. 0\<rparr>, netif_list = [n], netif_default = Some n,
     netif_output = \<lambda>n S p d. Ok (ERR_OK, S), ip4_frag = \<lambda>n S p d. Ok (ERR_OK, S), icmp_dest_unreach = \<lambda>S p t. Ok S,
     tcp_input = \<lambda>G n S p. Ok S, icmp_input = \<lambda>G n S p. Ok S, ip4_reass = \<lambda>S p. Ok (p, S), MEMP_NUM_UDP_PCB = 2\<rparr>"

definition host :: net_env where
  "host = host_on lan"

lemma host_law: "output_law (host_on n)"
  by (auto simp: output_law_def host_on_def packet_def)

definition block :: udp_pcb where
  "block = \<lparr>local_ip = 0, remote_ip = 0, so_options = 0, tos = 0, ttl = 255, pcb_next = None, udp_flags = 0,
     local_port = 0, remote_port = 0, recv_fn = None, recv_arg = None\<rparr>"

text \<open>A block bound to port 1883 of any address, with a callback, and one bound to 1884.\<close>

definition two_blocks :: "pbuf_store \<Rightarrow> net" where
  "two_blocks S = (net_start S)\<lparr>udp_pcbs := Some 1, pcb_mem :=
     [Some (block\<lparr>local_port := 1883, recv_fn := Some 7\<rparr>),
      Some (block\<lparr>local_port := 1884, pcb_next := Some 0, remote_ip := 0x0a01a8c0, remote_port := 1883,
                  udp_flags := UDP_FLAGS_CONNECTED\<rparr>)]\<rparr>"

lemma two_blocks_wf: "udp_wf (two_blocks S) [1, 0]"
  by (auto simp: udp_wf_def two_blocks_def net_start_def live_pcb_def block_def UDP_LOCAL_PORT_RANGE_START_def nth_Cons'
      split: if_split_asm)


section \<open>Endpoints\<close>



text \<open>
  C21: \<open>udp_new_port\<close> returns after at most 16384 tries. It gives out the first port behind the last one,
  in the cyclic order of the dynamic range, that no block has, and 0 exactly when every port of the
  range is taken; nothing but the position of the search changes.
\<close>

theorem udp_new_port_finds:
  assumes "udp_wf N ns"
  shows "\<exists>k port. 1 \<le> k \<and> k \<le> 16384 \<and> port = word_of_nat (49152 + (unat (udp_port N) - 49152 + k) mod 16384) \<and>
    udp_new_port N = Ok (if port_used N ns port then 0 else port, N\<lparr>udp_port := port\<rparr>) \<and>
    (\<forall>j. 1 \<le> j \<and> j < k \<longrightarrow> port_used N ns (port_after N j)) \<and>
    (port_used N ns port \<longleftrightarrow> (\<forall>x \<ge> UDP_LOCAL_PORT_RANGE_START. port_used N ns x))"
proof -
  have wf: "plist (pcb_mem N) (udp_pcbs N) ns" "UDP_LOCAL_PORT_RANGE_START \<le> udp_port N"
    using assms by (simp_all add: udp_wf_def)
  obtain k where k: "1 \<le> k" "k \<le> 16384" "\<forall>j. 1 \<le> j \<and> j < k \<longrightarrow> port_used N ns (port_after N j)"
    "udp_new_port N = Ok (if port_used N ns (port_after N k) then 0 else port_after N k, N\<lparr>udp_port := port_after N k\<rparr>)"
    using new_port_loop_first [OF wf(1), of 0] by (auto simp: udp_new_port_def)
  obtain x where x: "udp_new_port N = Ok (if port_used N ns x then 0 else x, N\<lparr>udp_port := x\<rparr>)"
    "UDP_LOCAL_PORT_RANGE_START \<le> x" "port_used N ns x \<Longrightarrow> \<forall>y \<ge> UDP_LOCAL_PORT_RANGE_START. port_used N ns y"
    using udp_new_port_free [OF assms] by blast
  have "udp_port (N\<lparr>udp_port := x\<rparr>) = udp_port (N\<lparr>udp_port := port_after N k\<rparr>)" using k(4) x(1) by simp
  then have "x = port_after N k" by simp
  with k x next_port_iter [OF wf(2), of k] show ?thesis by (intro exI [of _ k] exI [of _ x]) (auto simp: port_after_def)
qed

theorem udp_new_port_finds_witness:
  "\<exists>port. udp_new_port (two_blocks []) = Ok (port, (two_blocks [])\<lparr>udp_port := port\<rparr>) \<and> port \<ge> 0xc000"
proof -
  let ?N = "two_blocks []"
  obtain k port where p: "port = word_of_nat (49152 + (unat (udp_port ?N) - 49152 + k) mod 16384)"
    "udp_new_port ?N = Ok (if port_used ?N [1, 0] port then 0 else port, ?N\<lparr>udp_port := port\<rparr>)"
    using udp_new_port_finds [OF two_blocks_wf [of "[]"]] by blast
  have "unat port = 49152 + (unat (udp_port ?N) - 49152 + k) mod 16384" unfolding p(1) unat_of_nat by simp
  then have ge: "port \<ge> 0xc000" by (simp add: word_le_nat_alt)
  then have "\<not> port_used ?N [1, 0] port" by (auto simp: port_used_def two_blocks_def block_def)
  with p(2) ge show ?thesis by auto
qed

section \<open>Receivers\<close>

text \<open>
  C20: A datagram goes to the first block in the list that is bound to its destination and whose remote
  address and port are its source, and if there is none to the first unconnected block bound to its
  destination; a block found by its source is moved to the front of the list, which stays
  well-formed. The callback of the receiver gets the packet without the header; without a callback,
  and without a receiver for a datagram that is not addressed to the interface, the packet is given
  back and nothing else happens.
\<close>

theorem udp_input_demultiplexes:
  assumes "udp_wf N ns" and "packet (net_pbufs N) p ((k, q) # qs)" and "8 \<le> unat (len q)"
    and "be16_at (contents ((k, q) # qs)) 0 = src" and "be16_at (contents ((k, q) # qs)) 2 = dest"
    and "receiver_of N ns G inp src dest \<noteq> None \<or> netif_ip_addr inp \<noteq> current_dest G"
  shows "\<exists>N'. udp_input E N G p inp = Ok N' \<and> udp_wf N' (fronted_of N ns G inp src dest) \<and>
    same_data (pcb_mem N) (pcb_mem N') \<and>
    (case receiver_of N ns G inp src dest of
       None \<Rightarrow> events N' = events N \<and> net_pbufs N' = dropped (net_pbufs N) ((k, q) # qs)
     | Some r \<Rightarrow>
         (case recv_fn (pcb_at (pcb_mem N) r) of
            None \<Rightarrow> events N' = events N \<and>
              net_pbufs N' = dropped ((net_pbufs N)[k := Some (moved_on q 8)]) ((k, moved_on q 8) # qs)
          | Some fn \<Rightarrow> events N' = events N @ [Received fn (recv_arg (pcb_at (pcb_mem N) r)) r p (current_src G) src] \<and>
              (\<exists>qs'. packet (net_pbufs N') p qs' \<and> contents qs' = drop 8 (contents ((k, q) # qs)))))"
proof -
  from udp_input_search [OF assms(1-5), of E G inp] obtain M h where
    M: "udp_input E N G p inp = udp_deliver E (N\<lparr>pcb_mem := M, udp_pcbs := h\<rparr>) G p inp
      (ip4_addr_isbroadcast_u32 (current_dest G) (current_netif G)) src (receiver_of N ns G inp src dest)"
    "same_data (pcb_mem N) M" "udp_wf (N\<lparr>pcb_mem := M, udp_pcbs := h\<rparr>) (fronted_of N ns G inp src dest)" by auto
  have wf: "udp_wf (N\<lparr>pcb_mem := M, udp_pcbs := h, net_pbufs := S\<rparr>) (fronted_of N ns G inp src dest)" for S
    using M(3) by (simp add: udp_wf_def)
  show ?thesis
  proof (cases "receiver_of N ns G inp src dest")
    case None
    have "linked (net_pbufs N) p ((k, q) # qs)" using assms(2) by (simp add: packet_def)
    from free_packet [OF this] show ?thesis
      using None assms(6) M wf by (simp add: udp_deliver_def free_packet_of_def)
  next
    case (Some r)
    have "live_pcb (pcb_mem N) r"
      using plist_live [of "pcb_mem N" "udp_pcbs N" ns r] assms(1) receiver_in_list [OF Some] by (simp add: udp_wf_def)
    then have live: "live_pcb M r" using M(2) by (simp add: same_data_def)
    have pk: "packet (net_pbufs (N\<lparr>pcb_mem := M, udp_pcbs := h\<rparr>)) p ((k, q) # qs)" using assms(2) by simp
    note del = udp_deliver_received [OF pk assms(3), of r E G inp "ip4_addr_isbroadcast_u32 (current_dest G) (current_netif G)" src]
    show ?thesis
    proof (cases "recv_fn (pcb_at (pcb_mem N) r)")
      case None
      with del Some M wf live same_data_fields(2) [OF M(2), of r] show ?thesis by (simp add: Let_def)
    next
      case (Some fn)
      with udp_input_received [OF assms(1-5) \<open>receiver_of N ns G inp src dest = Some r\<close> Some, of E]
        hide_header(3) [OF assms(2,3)] \<open>receiver_of N ns G inp src dest = Some r\<close>
      show ?thesis by (auto simp del: contents_simps)
    qed
  qed
qed

text \<open>The packet of the examples: 50 bytes of room and one buffer of the pool.\<close>

definition pool_packet :: "u8 list \<Rightarrow> pbuf" where
  "pool_packet bs = \<lparr>pb_next = None, payload = 50, area = replicate 50 0 @ bs, tot_len = word_of_nat (length bs),
     len = word_of_nat (length bs), pb_type = PBUF_POOL, custom = False, ref = 1\<rparr>"

lemma pool_packet_chain:
  assumes "length bs < 65536"
  shows "packet [Some (pool_packet bs)] (Some 0) [(0, pool_packet bs)]" "contents [(0, pool_packet bs)] = bs"
    "unat (len (pool_packet bs)) = length bs"
  using assms by (simp_all add: packet_Cons pool_packet_def sound_def data_of_def unat_of_nat)

definition to_1883 :: "u8 list" where
  "to_1883 = udp_header 50000 1883 11 @ [1, 2, 3]"

theorem udp_input_demultiplexes_witness:
  "\<exists>N'. udp_input host (two_blocks [Some (pool_packet to_1883)])
      \<lparr>current_netif = lan, current_ip_header_tot_len = 20, current_src = 0x0b01a8c0, current_dest = 0x0a01a8c0\<rparr> (Some 0) lan = Ok N' \<and>
    events N' = [Received 7 None 0 (Some 0) 0x0b01a8c0 50000]"
proof -
  let ?N = "two_blocks [Some (pool_packet to_1883)]"
  let ?G = "\<lparr>current_netif = lan, current_ip_header_tot_len = 20, current_src = 0x0b01a8c0, current_dest = 0x0a01a8c0\<rparr> :: ip_globals"
  have l: "length to_1883 = 11" by (simp add: to_1883_def)
  then have "length to_1883 < 65536" by simp
  note pk = pool_packet_chain [OF this]
  have pk': "packet (net_pbufs ?N) (Some 0) [(0, pool_packet to_1883)]" using pk(1) by (simp add: two_blocks_def net_start_def)
  have len: "8 \<le> unat (len (pool_packet to_1883))" unfolding pk(3) l by simp
  have f: "be16_at (contents [(0, pool_packet to_1883)]) 0 = 50000" "be16_at (contents [(0, pool_packet to_1883)]) 2 = 1883"
    unfolding pk(2) unfolding to_1883_def by (rule udp_header_fields)+
  have r: "receiver_of ?N [1, 0] ?G lan 50000 1883 = Some 0"
    by (simp add: receiver_def addressed_def remote_match_def udp_input_local_match_def unconnected_def two_blocks_def
        net_start_def block_def)
  have fn: "recv_fn (pcb_at (pcb_mem ?N) 0) = Some 7" "recv_arg (pcb_at (pcb_mem ?N) 0) = None" "events ?N = []"
    by (simp_all add: two_blocks_def net_start_def block_def)
  from udp_input_demultiplexes [OF two_blocks_wf pk' len f, of ?G lan host] r fn show ?thesis by auto
qed

section \<open>From host to host\<close>

text \<open>
  A received packet that carries a frame, maybe filled up at the end if it is in one buffer; both
  headers are in the first buffer.
\<close>

definition carries :: "net \<Rightarrow> nat option \<Rightarrow> u8 list \<Rightarrow> bool" where
  "carries N p frame \<longleftrightarrow> (\<exists>k q qs pad. packet (net_pbufs N) p ((k, q) # qs) \<and> 28 \<le> unat (len q) \<and>
     contents ((k, q) # qs) = frame @ pad \<and> (pad = [] \<or> qs = []))"

text \<open>A host that takes packets for \<open>d\<close> from \<open>s\<close>, with the block \<open>r\<close> for datagrams from \<open>sp\<close> to \<open>dp\<close>.\<close>

definition listens :: "net_env \<Rightarrow> net \<Rightarrow> netif \<Rightarrow> u32 \<Rightarrow> u16 \<Rightarrow> u32 \<Rightarrow> u16 \<Rightarrow> nat \<Rightarrow> nat \<Rightarrow> bool" where
  "listens E N inp s sp d dp r fn \<longleftrightarrow> \<not> ip4_addr_isbroadcast_u32 s inp \<and> \<not> ip4_addr_ismulticast s \<and>
     (\<exists>ns n. udp_wf N ns \<and> accepting_netif E d inp = Some n \<and> recv_fn (pcb_at (pcb_mem N) r) = Some fn \<and>
       receiver_of N ns \<lparr>current_netif = n, current_ip_header_tot_len = 20, current_src = s, current_dest = d\<rparr> inp sp dp = Some r)"

lemma frame_received:
  assumes "carries N p (udp_frame b i s d dp data)" and "length data + 28 < 65536" and "listens E N inp s (local_port b) d dp r fn"
  shows "\<exists>N' qs'. ip4_input E N p inp = Ok N' \<and>
    events N' = events N @ [Received fn (recv_arg (pcb_at (pcb_mem N) r)) r p s (local_port b)] \<and>
    packet (net_pbufs N') p qs' \<and> contents qs' = data"
proof -
  obtain k q qs pad where pk: "packet (net_pbufs N) p ((k, q) # qs)" "28 \<le> unat (len q)"
    "contents ((k, q) # qs) = udp_frame b i s d dp data @ pad" "pad = [] \<or> qs = []" using assms(1) by (auto simp: carries_def)
  obtain ns n where l: "\<not> ip4_addr_isbroadcast_u32 s inp" "\<not> ip4_addr_ismulticast s" "udp_wf N ns"
    "accepting_netif E d inp = Some n" "recv_fn (pcb_at (pcb_mem N) r) = Some fn"
    "receiver_of N ns \<lparr>current_netif = n, current_ip_header_tot_len = 20, current_src = s, current_dest = d\<rparr> inp (local_port b) dp = Some r"
    using assms(3) by (auto simp: listens_def)
  have "unat (word_of_nat (length data + 28) :: u16) = length data + 28" using assms(2) unfolding unat_of_nat by simp
  from ip4_input_datagram [OF l(3) pk(1,2) pk(3) [unfolded udp_frame_def] this pk(4) l(4,1,2,6,5)] show ?thesis .
qed

text \<open>
  C19: A datagram arrives as it was sent. \<open>udp_send\<close> on a connected and bound block, with room for the
  headers in the packet or in the heap, hands the interface of the route one frame; and whatever host
  that frame reaches, if it listens for the destination, its callback gets exactly the bytes that
  were sent, the address of the sending interface and the local port of the sender.
\<close>

theorem udp_datagram_arrives:
  assumes "output_law E" and "live_pcb (pcb_mem N) n" and "pcb_at (pcb_mem N) n = b" and "local_port b \<noteq> 0"
    and "ip4_route E (remote_ip b) = Some i" and "local_ip b \<in> {0, netif_ip_addr i}"
    and "packet (net_pbufs N) p ((k, q) # qs)" and "in_place q \<or> separate E (net_pbufs N) q"
    and "contents ((k, q) # qs) = data" and "length data + 28 < 65536"
    and "netif_mtu i = 0 \<or> length data + 28 \<le> unat (netif_mtu i)"
    and "frame = udp_frame b (ip_id N) (netif_ip_addr i) (remote_ip b) (remote_port b) data"
  shows "\<exists>err N'. udp_send E N (Some n) p = Ok (err, N') \<and>
    events N' = events N @ [Sent (netif_num i) (remote_ip b) frame] \<and>
    (\<forall>E2 N2 p2 inp r fn. carries N2 p2 frame \<and>
       listens E2 N2 inp (netif_ip_addr i) (local_port b) (remote_ip b) (remote_port b) r fn \<longrightarrow>
       (\<exists>N3 qs3. ip4_input E2 N2 p2 inp = Ok N3 \<and>
          events N3 = events N2 @ [Received fn (recv_arg (pcb_at (pcb_mem N2) r)) r p2 (netif_ip_addr i) (local_port b)] \<and>
          packet (net_pbufs N3) p2 qs3 \<and> contents qs3 = data))"
proof -
  have "udp_send E N (Some n) p = udp_send_bound E N (Some n) p (Some (remote_ip b)) (remote_port b) i (Some (netif_ip_addr i))"
    using assms(2-6) by (auto simp: udp_send_def udp_sendto_def udp_sendto_if_def udp_sendto_if_src_def)
  moreover obtain err N' where
    "udp_send_bound E N (Some n) p (Some (remote_ip b)) (remote_port b) i (Some (netif_ip_addr i)) = Ok (err, N')"
    "events N' = events N @ [Sent (netif_num i) (remote_ip b) frame]"
    using send_bound [OF assms(1,2,7-11), of "remote_ip b" "remote_port b" "netif_ip_addr i"] assms(3,12) by auto
  ultimately show ?thesis
    using frame_received [OF _ assms(10)] unfolding assms(12) by (intro exI [of _ err] exI [of _ N']) auto
qed

text \<open>
  The example: on a host with the address 192.168.1.11 block 1, connected to port 1883 of 192.168.1.10,
  sends three bytes; the frame reaches the host with that address, filled up with zeros.
\<close>

definition peer :: netif where
  "peer = lan\<lparr>netif_ip_addr := 0x0b01a8c0\<rparr>"

definition sent_frame :: "u8 list" where
  "sent_frame = udp_frame (pcb_at (pcb_mem (two_blocks [])) 1) 0 0x0b01a8c0 0x0a01a8c0 1883 [1, 2, 3]"

definition arrived :: net where
  "arrived = two_blocks [Some (pool_packet (sent_frame @ replicate 15 0))]"

lemma length_sent_frame: "length sent_frame = 31"
  by (simp add: sent_frame_def udp_frame_def)

lemma arrived_carries: "carries arrived (Some 0) sent_frame"
proof -
  have "length (sent_frame @ replicate 15 0) < 65536" by (simp add: length_sent_frame)
  note pk = pool_packet_chain [OF this]
  have "packet (net_pbufs arrived) (Some 0) [(0, pool_packet (sent_frame @ replicate 15 0))]"
    using pk(1) by (simp add: arrived_def two_blocks_def net_start_def)
  moreover have "28 \<le> unat (len (pool_packet (sent_frame @ replicate 15 0)))" unfolding pk(3) by (simp add: length_sent_frame)
  ultimately show ?thesis using pk(2) unfolding carries_def by blast
qed

lemma arrived_listens: "listens host arrived lan 0x0b01a8c0 1884 0x0a01a8c0 1883 0 7"
proof -
  have "udp_wf arrived [1, 0]" unfolding arrived_def by (rule two_blocks_wf)
  moreover have "accepting_netif host 0x0a01a8c0 lan = Some lan"
    by (simp add: accepting_netif_def ip4_addr_ismulticast_def accepts_def netif_is_up_def lan_def)
  moreover have "\<not> ip4_addr_isbroadcast_u32 0x0b01a8c0 lan" "\<not> ip4_addr_ismulticast 0x0b01a8c0"
    by (simp_all add: ip4_addr_isbroadcast_u32_def ip4_addr_ismulticast_def ip4_addr_netcmp_def lan_def)
  moreover have "receiver_of arrived [1, 0] \<lparr>current_netif = lan, current_ip_header_tot_len = 20, current_src = 0x0b01a8c0,
      current_dest = 0x0a01a8c0\<rparr> lan 1884 1883 = Some 0" "recv_fn (pcb_at (pcb_mem arrived) 0) = Some 7"
    by (simp_all add: receiver_def addressed_def remote_match_def udp_input_local_match_def unconnected_def arrived_def
        two_blocks_def net_start_def block_def)
  ultimately show ?thesis unfolding listens_def by blast
qed

theorem udp_datagram_arrives_witness:
  "(\<exists>err N'. udp_send (host_on peer) (two_blocks [Some (pool_packet [1, 2, 3])]) (Some 1) (Some 0) = Ok (err, N') \<and>
      events N' = [Sent 0 0x0a01a8c0 sent_frame]) \<and>
   (\<exists>N qs. ip4_input host arrived (Some 0) lan = Ok N \<and> events N = [Received 7 None 0 (Some 0) 0x0b01a8c0 1884] \<and>
      packet (net_pbufs N) (Some 0) qs \<and> contents qs = [1, 2, 3])"
proof -
  let ?N = "two_blocks [Some (pool_packet [1, 2, 3])]" and ?b = "pcb_at (pcb_mem (two_blocks [])) 1"
  have "length [1, 2, 3 :: u8] < 65536" by simp
  note pk = pool_packet_chain [OF this]
  have b: "live_pcb (pcb_mem ?N) 1" "pcb_at (pcb_mem ?N) 1 = ?b" "local_port ?b \<noteq> 0" "local_ip ?b \<in> {0, netif_ip_addr peer}"
    and f: "remote_ip ?b = 0x0a01a8c0" "remote_port ?b = 1883" "local_port ?b = 1884"
    by (simp_all add: two_blocks_def net_start_def live_pcb_def block_def)
  have route: "ip4_route (host_on peer) (remote_ip ?b) = Some peer"
    unfolding f by (simp add: ip4_route_def host_on_def peer_def lan_def usable_def netif_is_up_def netif_is_link_up_def
      ip4_addr_netcmp_def)
  have pk': "packet (net_pbufs ?N) (Some 0) [(0, pool_packet [1, 2, 3])]" using pk(1) by (simp add: two_blocks_def net_start_def)
  have room: "in_place (pool_packet [1, 2, 3]) \<or> separate (host_on peer) (net_pbufs ?N) (pool_packet [1, 2, 3])"
    by (simp add: in_place_def pool_packet_def)
  have ev: "events ?N = []" "events arrived = []" "recv_arg (pcb_at (pcb_mem arrived) 0) = None" "netif_num peer = 0"
    "netif_ip_addr peer = 0x0b01a8c0" "ip_id ?N = 0"
    by (simp_all add: two_blocks_def net_start_def arrived_def peer_def lan_def block_def)
  have frame: "sent_frame = udp_frame ?b (ip_id ?N) (netif_ip_addr peer) (remote_ip ?b) (remote_port ?b) [1, 2, 3]"
    unfolding ev f by (simp add: sent_frame_def)
  have small: "length [1, 2, 3 :: u8] + 28 < 65536" "netif_mtu peer = 0 \<or> length [1, 2, 3 :: u8] + 28 \<le> unat (netif_mtu peer)"
    by (simp_all add: peer_def lan_def)
  obtain err N' where sent: "udp_send (host_on peer) ?N (Some 1) (Some 0) = Ok (err, N')" "events N' = [] @ [Sent 0 0x0a01a8c0 sent_frame]"
    and all: "\<And>E2 N2 p2 inp r fn. carries N2 p2 sent_frame \<Longrightarrow> listens E2 N2 inp 0x0b01a8c0 1884 0x0a01a8c0 1883 r fn \<Longrightarrow>
      \<exists>N3 qs3. ip4_input E2 N2 p2 inp = Ok N3 \<and>
        events N3 = events N2 @ [Received fn (recv_arg (pcb_at (pcb_mem N2) r)) r p2 0x0b01a8c0 1884] \<and>
        packet (net_pbufs N3) p2 qs3 \<and> contents qs3 = [1, 2, 3]"
    using udp_datagram_arrives [OF host_law b(1,2,3) route b(4) pk' room pk(2) small frame] unfolding ev f by blast
  from all [OF arrived_carries arrived_listens] sent show ?thesis unfolding ev by simp
qed

section \<open>Errors\<close>

lemma udp_send_to_if:
  assumes "live_pcb (pcb_mem N) n" and "pcb_at (pcb_mem N) n = b" and "ip4_route E (remote_ip b) = Some i"
    and "local_ip b \<in> {0, netif_ip_addr i}"
  shows "udp_send E N (Some n) p =
    udp_sendto_if_src E N (Some n) p (Some (remote_ip b)) (remote_port b) i (Some (netif_ip_addr i))"
  using assms by (auto simp: udp_send_def udp_sendto_def udp_sendto_if_def)

lemma udp_send_to_bound:
  assumes "live_pcb (pcb_mem N) n" and "pcb_at (pcb_mem N) n = b" and "ip4_route E (remote_ip b) = Some i"
    and "local_ip b \<in> {0, netif_ip_addr i}" and "local_port b \<noteq> 0"
  shows "udp_send E N (Some n) p =
    udp_send_bound E N (Some n) p (Some (remote_ip b)) (remote_port b) i (Some (netif_ip_addr i))"
  unfolding udp_send_to_if [OF assms(1-4)] using assms by (simp add: udp_sendto_if_src_def)

lemma udp_send_no_port:
  assumes "udp_wf N ns" and "live_pcb (pcb_mem N) n" and "pcb_at (pcb_mem N) n = b" and "local_port b = 0"
    and "\<forall>x \<ge> UDP_LOCAL_PORT_RANGE_START. port_used N ns x"
  shows "\<exists>x. udp_sendto_if_src E N (Some n) p (Some d) dport i s = Ok (ERR_USE, N\<lparr>udp_port := x\<rparr>)"
proof -
  obtain x where "UDP_LOCAL_PORT_RANGE_START \<le> x"
    "udp_bind N (Some n) (Some (local_ip b)) 0 =
      (if port_used N ns x then Ok (ERR_USE, N\<lparr>udp_port := x\<rparr>)
       else if live_pcb (pcb_mem N) n
       then Ok (ERR_OK, placed (N\<lparr>udp_port := x\<rparr>) ns n (case Some (local_ip b) of None \<Rightarrow> 0 | Some a \<Rightarrow> a) x) else Halt Freed)"
    using udp_bind_any [OF assms(1), of n "Some (local_ip b)"] by blast
  with assms(2-5) show ?thesis by (auto simp: udp_sendto_if_src_def)
qed

lemma send_no_memory:
  assumes "packet (net_pbufs N) p ((k, q) # qs)" and "payload q < 8" and "\<not> heap_room (net_mem E) (net_pbufs N) 60"
  shows "udp_send_bound E N (Some n) p (Some d) dport i (Some s) = Ok (ERR_MEM, N)"
proof -
  have "pbuf_header (net_pbufs N) p UDP_HLEN = Ok (1, net_pbufs N)"
    using assms(1,2) by (auto simp: packet_Cons pbuf_header_def pbuf_header_impl_def UDP_HLEN_def Let_def sint_8)
  moreover have "pbuf_alloc (net_mem E) (net_pbufs N) PBUF_IP UDP_HLEN PBUF_RAM = Ok (None, net_pbufs N)"
    using assms(3) by (simp add: pbuf_alloc_def UDP_HLEN_def LWIP_MEM_ALIGN_SIZE_def SIZEOF_STRUCT_PBUF_def)
  ultimately show ?thesis by (simp add: udp_send_bound_def header_room_def)
qed

lemma send_no_ip_room:
  fixes dport :: u16
  assumes live: "live_pcb (pcb_mem N) n" and pk: "packet (net_pbufs N) p ((k, q) # qs)" and type: "pb_type q \<in> {PBUF_RAM, PBUF_POOL}"
    and room: "8 \<le> payload q" "payload q < 28" and small: "length (contents ((k, q) # qs)) + 28 < 65536"
  defines "hdr \<equiv> udp_header (local_port (pcb_at (pcb_mem N) n)) dport (tot_len q + 8)"
  shows "\<exists>N'. udp_send_bound E N (Some n) p (Some d) dport i (Some s) = Ok (ERR_BUF, N') \<and> events N' = events N \<and>
    packet (net_pbufs N') p ((k, headed q hdr) # qs) \<and> contents ((k, headed q hdr) # qs) = hdr @ contents ((k, q) # qs)"
proof -
  have l: "length hdr = 8" by (simp add: hdr_def)
  have "length hdr \<le> payload q" "length hdr < 32768" "length (contents ((k, q) # qs)) + length hdr < 65536"
    using room(1) small l by simp_all
  note pre = prepend_header [OF pk type this]
  let ?N = "N\<lparr>net_pbufs := (net_pbufs N)[k := Some (headed q hdr)]\<rparr>"
  have k: "p = Some k" "k < length (net_pbufs N)" using pk by (simp_all add: packet_Cons)
  have pk2: "packet (net_pbufs ?N) p ((k, headed q hdr) # qs)" using pre(3) by simp
  have tot: "unat (tot_len (headed q hdr)) + 20 < 65536"
    using pk2 small arg_cong [OF pre(4), of length] l by (simp add: packet_Cons)
  have "pbuf_header (net_pbufs ?N) p (word_of_nat 20) = Ok (1, net_pbufs ?N)"
    using reveal_header [OF pk2 _ _ tot] type room l by simp
  then have out: "ip4_output_if_src E ?N p (Some s) (Some d) hops service 17 i = Ok (ERR_BUF, ?N)" for hops service
    by (simp add: ip4_output_if_src_def IP_HLEN_def)
  have "header_room E N p = Ok (p, N\<lparr>net_pbufs := (net_pbufs N)[k := Some (widened q 8)]\<rparr>)"
    using pre(1) l by (simp add: header_room_def UDP_HLEN_def)
  moreover have "tot_len (widened q 8) = tot_len q + 8" by (simp add: widened_def)
  ultimately have "udp_send_bound E N (Some n) p (Some d) dport i (Some s) = Ok (ERR_BUF, ?N)"
    using live k out pre(2) l by (simp add: udp_send_bound_def hdr_def)
  with pk2 pre(4) show ?thesis by (intro exI [of _ ?N]) simp
qed

text \<open>
  C22: When a datagram cannot be sent, \<open>udp_send\<close> says why and nothing is sent: \<open>ERR_VAL\<close> without a
  block, \<open>ERR_RTE\<close> without a route or when the address of the block is no longer that of the
  interface, \<open>ERR_USE\<close> when the block has no port and all are taken, \<open>ERR_MEM\<close> when there is room for the
  header neither in the packet nor in the heap, and \<open>ERR_BUF\<close> when the packet has room for the header of
  UDP but not for that of IP, which leaves the former in the packet of the caller.
\<close>

theorem udp_send_fails:
  assumes "udp_wf N ns" and "live_pcb (pcb_mem N) n" and "pcb_at (pcb_mem N) n = b" and "packet (net_pbufs N) p ((k, q) # qs)"
    and "length (contents ((k, q) # qs)) + 28 < 65536"
  shows "udp_send E N None p = Ok (ERR_VAL, N) \<and>
    (ip4_route E (remote_ip b) = None \<longrightarrow> udp_send E N (Some n) p = Ok (ERR_RTE, N)) \<and>
    (\<forall>i. ip4_route E (remote_ip b) = Some i \<longrightarrow>
      (if local_ip b \<notin> {0, netif_ip_addr i} then
         \<not> ip4_addr_ismulticast (local_ip b) \<longrightarrow> udp_send E N (Some n) p = Ok (ERR_RTE, N)
       else if local_port b = 0 then
         (\<forall>x \<ge> UDP_LOCAL_PORT_RANGE_START. port_used N ns x) \<longrightarrow> (\<exists>x. udp_send E N (Some n) p = Ok (ERR_USE, N\<lparr>udp_port := x\<rparr>))
       else
         (payload q < 8 \<and> \<not> heap_room (net_mem E) (net_pbufs N) 60 \<longrightarrow> udp_send E N (Some n) p = Ok (ERR_MEM, N)) \<and>
         (pb_type q \<in> {PBUF_RAM, PBUF_POOL} \<and> 8 \<le> payload q \<and> payload q < 28 \<longrightarrow>
           (\<exists>N' q'. udp_send E N (Some n) p = Ok (ERR_BUF, N') \<and> events N' = events N \<and> packet (net_pbufs N') p ((k, q') # qs) \<and>
             contents ((k, q') # qs) = udp_header (local_port b) (remote_port b) (tot_len q + 8) @ contents ((k, q) # qs)))))"
proof -
  have away: "udp_send E N (Some n) p = Ok (ERR_RTE, N)"
    if "ip4_route E (remote_ip b) = Some i" "local_ip b \<notin> {0, netif_ip_addr i}" "\<not> ip4_addr_ismulticast (local_ip b)" for i
    using that assms(2,3) by (simp add: udp_send_def udp_sendto_def udp_sendto_if_def)
  have no_port: "\<exists>x. udp_send E N (Some n) p = Ok (ERR_USE, N\<lparr>udp_port := x\<rparr>)"
    if "ip4_route E (remote_ip b) = Some i" "local_ip b \<in> {0, netif_ip_addr i}" "local_port b = 0"
      "\<forall>x \<ge> UDP_LOCAL_PORT_RANGE_START. port_used N ns x" for i
    unfolding udp_send_to_if [OF assms(2,3) that(1,2)] by (rule udp_send_no_port [OF assms(1-3) that(3,4)])
  note bound = udp_send_to_bound [OF assms(2,3)]
  have mem: "udp_send E N (Some n) p = Ok (ERR_MEM, N)"
    if "ip4_route E (remote_ip b) = Some i" "local_ip b \<in> {0, netif_ip_addr i}" "local_port b \<noteq> 0" "payload q < 8"
      "\<not> heap_room (net_mem E) (net_pbufs N) 60" for i
    unfolding bound [OF that(1-3)] by (rule send_no_memory [OF assms(4) that(4,5)])
  have buf: "\<exists>N' q'. udp_send E N (Some n) p = Ok (ERR_BUF, N') \<and> events N' = events N \<and> packet (net_pbufs N') p ((k, q') # qs) \<and>
      contents ((k, q') # qs) = udp_header (local_port b) (remote_port b) (tot_len q + 8) @ contents ((k, q) # qs)"
    if "ip4_route E (remote_ip b) = Some i" "local_ip b \<in> {0, netif_ip_addr i}" "local_port b \<noteq> 0"
      "pb_type q \<in> {PBUF_RAM, PBUF_POOL}" "8 \<le> payload q" "payload q < 28" for i
    unfolding bound [OF that(1-3)]
    using send_no_ip_room [OF assms(2,4) that(4-6) assms(5), where dport = "remote_port b" and E = E and d = "remote_ip b" and i = i and s = "netif_ip_addr i",
      unfolded assms(3)]
    by blast
  have "udp_send E N None p = Ok (ERR_VAL, N)"
    "ip4_route E (remote_ip b) = None \<Longrightarrow> udp_send E N (Some n) p = Ok (ERR_RTE, N)"
    using assms(2,3) by (simp_all add: udp_send_def udp_sendto_def)
  with away no_port mem buf show ?thesis by (simp only: if_split) blast
qed

theorem udp_send_fails_witness:
  "\<exists>N'. udp_send (host_on peer) (two_blocks [Some ((pool_packet [1, 2, 3])\<lparr>payload := 10, area := replicate 10 0 @ [1, 2, 3]\<rparr>)])
      (Some 1) (Some 0) = Ok (ERR_BUF, N') \<and> events N' = []"
proof -
  let ?q = "(pool_packet [1, 2, 3])\<lparr>payload := 10, area := replicate 10 0 @ [1, 2, 3]\<rparr>"
  let ?N = "two_blocks [Some ?q]" and ?b = "pcb_at (pcb_mem (two_blocks [])) 1"
  have pk: "packet (net_pbufs ?N) (Some 0) [(0, ?q)]" "length (contents [(0, ?q)]) + 28 < 65536"
    by (simp_all add: two_blocks_def net_start_def packet_Cons pool_packet_def sound_def data_of_def)
  have b: "live_pcb (pcb_mem ?N) 1" "pcb_at (pcb_mem ?N) 1 = ?b" "local_port ?b \<noteq> 0" "local_ip ?b \<in> {0, netif_ip_addr peer}"
    and f: "remote_ip ?b = 0x0a01a8c0" and ev: "events ?N = []"
    by (simp_all add: two_blocks_def net_start_def live_pcb_def block_def)
  have "ip4_route (host_on peer) (remote_ip ?b) = Some peer"
    unfolding f by (simp add: ip4_route_def host_on_def peer_def lan_def usable_def netif_is_up_def netif_is_link_up_def
      ip4_addr_netcmp_def)
  moreover have "pb_type ?q \<in> {PBUF_RAM, PBUF_POOL}" "8 \<le> payload ?q" "payload ?q < 28" by (simp_all add: pool_packet_def)
  ultimately show ?thesis
    using udp_send_fails [OF two_blocks_wf b(1,2) pk, of "host_on peer"] b(3,4) unfolding ev by (metis (no_types, lifting))
qed

section \<open>What the comments do not say\<close>

text \<open>
  A port that another block has is refused only together with the same address: a block can be bound
  to a port of one address while another has the port of any address, or of another one.
\<close>

lemma udp_bind_shares_port:
  assumes "udp_wf N ns" and "live_pcb (pcb_mem N) n" and "port \<noteq> 0" and "m \<in> set ns" and "m \<noteq> n"
    and "local_port (pcb_at (pcb_mem N) m) = port" and "\<not> endpoint_taken N ns n ip port"
  shows "\<exists>N'. udp_bind N (Some n) (Some ip) port = Ok (ERR_OK, N') \<and> local_port (pcb_at (pcb_mem N') n) = port \<and>
    local_port (pcb_at (pcb_mem N') m) = port"
  using udp_bind_port [OF assms(1,3), of n "Some ip"] placed_block(2) [OF assms(2), of ns ip port n]
    placed_block(2) [OF assms(2), of ns ip port m] assms(2,5,6,7) by (auto simp: endpoint_def)

text \<open>
  A change of the address of an interface moves its blocks to the new address without a look at the
  blocks that are there already: two blocks can end with the same address and port, which
  \<open>udp_bind\<close> never allows, and only the first in the list gets datagrams.
\<close>

lemma addr_change_clashes:
  assumes "udp_wf N ns" and "m \<in> set ns" and "n \<in> set ns" and "m \<noteq> n" and "a \<noteq> 0" and "a' \<noteq> 0"
    and "endpoint (pcb_at (pcb_mem N) m) = (a, port)" and "endpoint (pcb_at (pcb_mem N) n) = (a', port)"
  shows "\<exists>N'. udp_netif_ip_addr_changed N (Some a) (Some a') = Ok N' \<and>
    endpoint (pcb_at (pcb_mem N') m) = endpoint (pcb_at (pcb_mem N') n)"
proof -
  have "plist (pcb_mem N) (udp_pcbs N) ns" using assms(1) by (simp add: udp_wf_def)
  from addr_changed_list [OF this, of a a'] obtain M where
    "addr_changed_loop (pcb_mem N) (udp_pcbs N) a a' = Some (Ok M)"
    "\<And>n. pcb_at M n = (if n \<in> set ns \<and> local_ip (pcb_at (pcb_mem N) n) = a
       then (pcb_at (pcb_mem N) n)\<lparr>local_ip := a'\<rparr> else pcb_at (pcb_mem N) n)" by blast
  with assms show ?thesis by (auto simp: udp_netif_ip_addr_changed_def loop_result_def endpoint_def)
qed

end
