(* ===== verification/ByteFifo.thy ===== *)
theory ByteFifo
  imports Prelude
begin

text \<open>
  The contract of a bounded queue of bytes, as its clients use it: a block of bytes is
  appended whole if it fits, and a given number of bytes is taken from the front. The
  clients store messages one after the other and read them back knowing only their
  lengths; \<open>frames_roundtrip\<close> shows, once for every implementation, that this returns the
  messages in order. \<open>None\<close> stands for an error return.
\<close>

fun put_frames :: "('q \<Rightarrow> u8 list \<Rightarrow> 'q option) \<Rightarrow> 'q \<Rightarrow> u8 list list \<Rightarrow> 'q option" where
  "put_frames put q [] = Some q"
| "put_frames put q (x # xs) =
     (case put q x of None \<Rightarrow> None | Some q' \<Rightarrow> put_frames put q' xs)"

fun get_frames ::
  "('q \<Rightarrow> nat \<Rightarrow> (u8 list \<times> 'q) option) \<Rightarrow> 'q \<Rightarrow> nat list \<Rightarrow> (u8 list list \<times> 'q) option" where
  "get_frames get q [] = Some ([], q)"
| "get_frames get q (n # ns) =
     (case get q n of None \<Rightarrow> None
      | Some (x, q') \<Rightarrow>
          (case get_frames get q' ns of None \<Rightarrow> None | Some (xs, q'') \<Rightarrow> Some (x # xs, q'')))"

locale byte_fifo =
  fixes inv :: "'q \<Rightarrow> bool"
    and bytes :: "'q \<Rightarrow> u8 list"
    and cap :: nat
    and put :: "'q \<Rightarrow> u8 list \<Rightarrow> 'q option"
    and get :: "'q \<Rightarrow> nat \<Rightarrow> (u8 list \<times> 'q) option"
  assumes put_law: "inv q \<Longrightarrow> xs \<noteq> [] \<Longrightarrow> length (bytes q) + length xs \<le> cap \<Longrightarrow>
      \<exists>q'. put q xs = Some q' \<and> inv q' \<and> bytes q' = bytes q @ xs"
    and put_full: "inv q \<Longrightarrow> cap < length (bytes q) + length xs \<Longrightarrow> put q xs = None"
    and get_law: "inv q \<Longrightarrow> 0 < n \<Longrightarrow> n \<le> length (bytes q) \<Longrightarrow>
      \<exists>q'. get q n = Some (take n (bytes q), q') \<and> inv q' \<and> bytes q' = drop n (bytes q)"
begin

lemma put_frames_bytes:
  "inv q \<Longrightarrow> (\<forall>x \<in> set xs. x \<noteq> []) \<Longrightarrow> length (bytes q) + length (concat xs) \<le> cap \<Longrightarrow>
   \<exists>q'. put_frames put q xs = Some q' \<and> inv q' \<and> bytes q' = bytes q @ concat xs"
proof (induction xs arbitrary: q)
  case Nil
  then show ?case by simp
next
  case (Cons x xs)
  then obtain q1 where q1: "put q x = Some q1" "inv q1" "bytes q1 = bytes q @ x"
    using put_law [of q x] by auto
  with Cons.IH [of q1] Cons.prems obtain q' where
    "put_frames put q1 xs = Some q'" "inv q'" "bytes q' = bytes q1 @ concat xs" by auto
  with q1 show ?case by simp
qed

lemma get_frames_bytes:
  "inv q \<Longrightarrow> (\<forall>x \<in> set xs. x \<noteq> []) \<Longrightarrow> bytes q = concat xs @ rest \<Longrightarrow>
   \<exists>q'. get_frames get q (map length xs) = Some (xs, q') \<and> inv q' \<and> bytes q' = rest"
proof (induction xs arbitrary: q)
  case Nil
  then show ?case by simp
next
  case (Cons x xs)
  then obtain q1 where q1: "get q (length x) = Some (x, q1)" "inv q1" "bytes q1 = concat xs @ rest"
    using get_law [of q "length x"] by auto
  with Cons.IH [of q1] Cons.prems obtain q' where
    "get_frames get q1 (map length xs) = Some (xs, q')" "inv q'" "bytes q' = rest" by auto
  with q1 show ?case by simp
qed

lemma frames_roundtrip:
  assumes "inv q" and "bytes q = []" and "\<forall>x \<in> set xs. x \<noteq> []" and "length (concat xs) \<le> cap"
  shows "\<exists>q' q''. put_frames put q xs = Some q' \<and>
           get_frames get q' (map length xs) = Some (xs, q'') \<and> inv q'' \<and> bytes q'' = []"
proof -
  from put_frames_bytes [OF assms(1,3)] assms(2,4) obtain q' where
    q': "put_frames put q xs = Some q'" "inv q'" "bytes q' = concat xs @ []" by auto
  from get_frames_bytes [OF q'(2) assms(3) q'(3)] q'(1) show ?thesis by auto
qed

end

end
