(* ===== verification/MqttRing.thy ===== *)
theory MqttRing
  imports ByteFifo LwipApi
begin

unbundle bit_operations_syntax

text \<open>
  The output side of the MQTT client (\<open>src/user/mqtt/mqtt.c\<close>, "Output ring buffer" and
  "Output message build helpers"): a ring of 256 bytes whose \<open>put\<close> and \<open>get\<close> indices run
  freely through all 16-bit values and are masked at each access, the functions that append
  the fields of a message to it, and \<open>mqtt_output_send\<close>, which hands its bytes to TCP.
\<close>

section \<open>The ring\<close>

definition MQTT_OUTPUT_RINGBUF_SIZE :: int where
  "MQTT_OUTPUT_RINGBUF_SIZE = 256"

definition MQTT_RINGBUF_IDX_MASK :: u16 where
  "MQTT_RINGBUF_IDX_MASK = word_of_int (MQTT_OUTPUT_RINGBUF_SIZE - 1)"

record mqtt_ringbuf_t =
  put :: u16
  get :: u16
  buf :: "u8 list"

definition mqtt_ringbuf_put :: "mqtt_ringbuf_t \<Rightarrow> u8 \<Rightarrow> mqtt_ringbuf_t" where
  "mqtt_ringbuf_put rb item =
     rb\<lparr>buf := (buf rb)[unat (put rb AND MQTT_RINGBUF_IDX_MASK) := item], put := put rb + 1\<rparr>"

definition mqtt_ringbuf_len :: "mqtt_ringbuf_t \<Rightarrow> u16" where
  "mqtt_ringbuf_len rb = put rb - get rb"

text \<open>The subtractions from the size are done in \<open>int\<close>.\<close>

definition mqtt_ringbuf_free :: "mqtt_ringbuf_t \<Rightarrow> int" where
  "mqtt_ringbuf_free rb = MQTT_OUTPUT_RINGBUF_SIZE - uint (mqtt_ringbuf_len rb)"

definition mqtt_ringbuf_linear_read_length :: "mqtt_ringbuf_t \<Rightarrow> int" where
  "mqtt_ringbuf_linear_read_length rb =
     min (uint (mqtt_ringbuf_len rb))
         (MQTT_OUTPUT_RINGBUF_SIZE - uint (get rb AND MQTT_RINGBUF_IDX_MASK))"

text \<open>The \<open>n\<close> bytes at the get pointer, as \<open>tcp_write\<close> reads them.\<close>

definition mqtt_ringbuf_get_ptr :: "mqtt_ringbuf_t \<Rightarrow> nat \<Rightarrow> u8 list outcome" where
  "mqtt_ringbuf_get_ptr rb n =
     (let i = unat (get rb AND MQTT_RINGBUF_IDX_MASK) in
      if i + n \<le> length (buf rb) then Ok (take n (drop i (buf rb))) else Halt Overrun)"

definition mqtt_ringbuf_advance_get_idx :: "mqtt_ringbuf_t \<Rightarrow> u16 \<Rightarrow> mqtt_ringbuf_t" where
  "mqtt_ringbuf_advance_get_idx rb len = rb\<lparr>get := get rb + len\<rparr>"

section \<open>Sending\<close>

definition mqtt_output_send ::
  "'s tcp_api \<Rightarrow> mqtt_ringbuf_t \<Rightarrow> pcb option \<Rightarrow> 's \<Rightarrow> (mqtt_ringbuf_t \<times> 's) outcome" where
  "mqtt_output_send io rb tpcb s =
     (case tpcb of None \<Rightarrow> Halt NullDeref
      | Some p \<Rightarrow>
         (let ringbuf_lin_len = word_of_int (mqtt_ringbuf_linear_read_length rb) :: u16;
              send_len = tcp_sndbuf io s p in
          if send_len = 0 \<or> ringbuf_lin_len = 0 then Ok (rb, s)
          else
            let (send_len, wrap) =
                  (if send_len > ringbuf_lin_len
                   then (ringbuf_lin_len, mqtt_ringbuf_len rb > ringbuf_lin_len)
                   else (send_len, False)) in
            bind_outcome (mqtt_ringbuf_get_ptr rb (unat send_len)) (\<lambda>data.
              let (err, s) = tcp_write io s p data wrap in
              bind_outcome
                (if err = ERR_OK \<and> wrap then
                   let rb = mqtt_ringbuf_advance_get_idx rb send_len;
                       send_len = word_of_int (min (uint (tcp_sndbuf io s p))
                                                   (mqtt_ringbuf_linear_read_length rb)) :: u16 in
                   bind_outcome (mqtt_ringbuf_get_ptr rb (unat send_len)) (\<lambda>data.
                     let (err, s) = tcp_write io s p data False in Ok (rb, send_len, err, s))
                 else Ok (rb, send_len, err, s))
                (\<lambda>(rb, send_len, err, s).
                   if err = ERR_OK
                   then Ok (mqtt_ringbuf_advance_get_idx rb send_len, tcp_output io s p)
                   else Ok (rb, s)))))"

section \<open>Building messages\<close>

definition mqtt_output_append_u8 :: "mqtt_ringbuf_t \<Rightarrow> u8 \<Rightarrow> mqtt_ringbuf_t" where
  "mqtt_output_append_u8 rb value = mqtt_ringbuf_put rb value"

definition mqtt_output_append_u16 :: "mqtt_ringbuf_t \<Rightarrow> u16 \<Rightarrow> mqtt_ringbuf_t" where
  "mqtt_output_append_u16 rb value =
     mqtt_ringbuf_put (mqtt_ringbuf_put rb (ucast (drop_bit 8 value))) (ucast (value AND 0xff))"

text \<open>Reading past the end of the caller's data is an overrun.\<close>

definition mqtt_output_append_buf ::
  "mqtt_ringbuf_t \<Rightarrow> u8 list \<Rightarrow> u16 \<Rightarrow> mqtt_ringbuf_t outcome" where
  "mqtt_output_append_buf rb data len =
     (if unat len \<le> length data then Ok (foldl mqtt_ringbuf_put rb (take (unat len) data))
      else Halt Overrun)"

definition mqtt_output_append_string ::
  "mqtt_ringbuf_t \<Rightarrow> u8 list \<Rightarrow> u16 \<Rightarrow> mqtt_ringbuf_t outcome" where
  "mqtt_output_append_string rb str len =
     (let rb = mqtt_ringbuf_put rb (ucast (drop_bit 8 len));
          rb = mqtt_ringbuf_put rb (ucast (len AND 0xff)) in
      if unat len \<le> length str then Ok (foldl mqtt_ringbuf_put rb (take (unat len) str))
      else Halt Overrun)"

lemma unat_drop_bit_7: "unat (drop_bit 7 r) = unat r div 128" for r :: u16
  by (simp add: drop_bit_eq_div unat_div_distrib)

lemma drop_bit_7_less: "drop_bit 7 r > 0 \<Longrightarrow> unat (drop_bit 7 r) < unat r" for r :: u16
proof -
  assume "drop_bit 7 r > 0"
  then have "unat (drop_bit 7 r) \<noteq> 0" by (simp add: word_less_nat_alt)
  moreover have "unat (drop_bit 7 r) = unat r div 128"
    by (rule unat_drop_bit_7)
  ultimately show ?thesis by simp
qed

text \<open>The \<open>do\<close> loop that encodes the remaining length.\<close>

function append_remaining_length :: "mqtt_ringbuf_t \<Rightarrow> u16 \<Rightarrow> mqtt_ringbuf_t" where
  "append_remaining_length rb r_length =
     (let rb = mqtt_output_append_u8 rb
                 (ucast ((r_length AND 0x7f) OR (if r_length \<ge> 128 then 0x80 else 0)));
          r_length = drop_bit 7 r_length in
      if r_length > 0 then append_remaining_length rb r_length else rb)"
  by pat_completeness auto
termination
  by (relation "measure (\<lambda>(rb, r). unat r)") (simp_all add: drop_bit_7_less)

declare append_remaining_length.simps [simp del]

definition mqtt_output_append_fixed_header ::
  "mqtt_ringbuf_t \<Rightarrow> u8 \<Rightarrow> u8 \<Rightarrow> u8 \<Rightarrow> u8 \<Rightarrow> u16 \<Rightarrow> mqtt_ringbuf_t" where
  "mqtt_output_append_fixed_header rb msg_type dup qos retain r_length =
     append_remaining_length
       (mqtt_output_append_u8 rb
          (push_bit 4 (msg_type AND 0x0f) OR push_bit 3 (dup AND 1) OR push_bit 1 (qos AND 3)
           OR (retain AND 1)))
       r_length"

text \<open>The \<open>do\<close> loop that counts the bytes of the remaining-length field.\<close>

function count_length_bytes :: "u16 \<Rightarrow> u16 \<Rightarrow> u16" where
  "count_length_bytes total_len r_length =
     (let total_len = total_len + 1; r_length = drop_bit 7 r_length in
      if r_length > 0 then count_length_bytes total_len r_length else total_len)"
  by pat_completeness auto
termination
  by (relation "measure (\<lambda>(t, r). unat r)") (simp_all add: drop_bit_7_less)

declare count_length_bytes.simps [simp del]

definition mqtt_output_check_space :: "mqtt_ringbuf_t \<Rightarrow> u16 \<Rightarrow> bool" where
  "mqtt_output_check_space rb r_length \<longleftrightarrow>
     uint (count_length_bytes (1 + r_length) r_length) \<le> mqtt_ringbuf_free rb"

section \<open>The ring as a list of bytes\<close>

definition rb_inv :: "mqtt_ringbuf_t \<Rightarrow> bool" where
  "rb_inv rb \<longleftrightarrow> length (buf rb) = 256 \<and> unat (mqtt_ringbuf_len rb) \<le> 256"

definition rb_bytes :: "mqtt_ringbuf_t \<Rightarrow> u8 list" where
  "rb_bytes rb = ring_slice (buf rb) (unat (get rb) mod 256) (unat (mqtt_ringbuf_len rb))"

named_theorems rb_simps

lemma length_rb_bytes [simp]: "length (rb_bytes rb) = unat (mqtt_ringbuf_len rb)"
  by (simp add: rb_bytes_def)

lemma unat_masked [simp]: "unat (x AND MQTT_RINGBUF_IDX_MASK) = unat x mod 256"
proof -
  have "x AND MQTT_RINGBUF_IDX_MASK = take_bit 8 x"
    by (simp add: MQTT_RINGBUF_IDX_MASK_def MQTT_OUTPUT_RINGBUF_SIZE_def take_bit_eq_mask mask_eq_decr_exp)
  then show ?thesis by (simp add: take_bit_eq_mod unat_mod_distrib)
qed

lemma uint_masked [simp]: "uint (x AND MQTT_RINGBUF_IDX_MASK) = int (unat x mod 256)"
  by (metis uint_nat unat_masked)

lemma mqtt_ringbuf_free_len:
  "mqtt_ringbuf_free rb = 256 - int (unat (mqtt_ringbuf_len rb))"
  by (simp add: mqtt_ringbuf_free_def MQTT_OUTPUT_RINGBUF_SIZE_def)

text \<open>Where the next byte goes.\<close>

lemma put_index:
  "unat (put rb) mod 256 = (unat (get rb) mod 256 + unat (mqtt_ringbuf_len rb)) mod 256"
proof -
  have "put rb = get rb + mqtt_ringbuf_len rb" by (simp add: mqtt_ringbuf_len_def)
  then have "unat (put rb) = (unat (get rb) + unat (mqtt_ringbuf_len rb)) mod 65536"
    by (simp add: unat_word_ariths)
  then show ?thesis by (simp add: mod_mod_cancel mod_add_left_eq)
qed

lemma unat_len_put:
  assumes "unat (mqtt_ringbuf_len rb) < 256"
  shows "unat (mqtt_ringbuf_len (mqtt_ringbuf_put rb x)) = unat (mqtt_ringbuf_len rb) + 1"
proof -
  have "mqtt_ringbuf_len (mqtt_ringbuf_put rb x) = mqtt_ringbuf_len rb + 1"
    by (simp add: mqtt_ringbuf_len_def mqtt_ringbuf_put_def)
  moreover have "unat (mqtt_ringbuf_len rb + 1) = unat (mqtt_ringbuf_len rb) + 1"
    using assms by (subst unat_add_small) simp_all
  ultimately show ?thesis by simp
qed

text \<open>
  \<open>appended rb xs rb'\<close>: \<open>rb'\<close> is a well-formed ring that holds the bytes of \<open>rb\<close> followed
  by \<open>xs\<close>.
\<close>

definition appended :: "mqtt_ringbuf_t \<Rightarrow> u8 list \<Rightarrow> mqtt_ringbuf_t \<Rightarrow> bool" where
  "appended rb xs rb' \<longleftrightarrow> rb_inv rb' \<and> get rb' = get rb \<and> rb_bytes rb' = rb_bytes rb @ xs"

lemma appended_Nil: "rb_inv rb \<Longrightarrow> appended rb [] rb"
  by (simp add: appended_def)

lemma appended_trans: "appended rb xs rb' \<Longrightarrow> appended rb' ys rb'' \<Longrightarrow> appended rb (xs @ ys) rb''"
  by (simp add: appended_def)

lemma appended_inv: "appended rb xs rb' \<Longrightarrow> rb_inv rb'"
  by (simp add: appended_def)

lemma appended_bytes: "appended rb xs rb' \<Longrightarrow> rb_bytes rb' = rb_bytes rb @ xs"
  by (simp add: appended_def)

lemma appended_length:
  "appended rb xs rb' \<Longrightarrow> length (rb_bytes rb') = length (rb_bytes rb) + length xs"
  by (simp only: appended_def length_append)

lemma mqtt_ringbuf_put_appended:
  assumes inv: "rb_inv rb" and room: "length (rb_bytes rb) + 1 \<le> 256"
  shows "appended rb [x] (mqtt_ringbuf_put rb x)"
proof -
  let ?n = "unat (mqtt_ringbuf_len rb)" and ?r = "unat (get rb) mod 256"
  let ?zs = "(buf rb)[unat (put rb) mod 256 := x]"
  have len: "length (buf rb) = 256" using inv by (simp add: rb_inv_def)
  have "?n < 256" using room by simp
  note n = unat_len_put [OF this, of x]
  have zs: "buf (mqtt_ringbuf_put rb x) = ?zs" "get (mqtt_ringbuf_put rb x) = get rb"
    by (simp_all add: mqtt_ringbuf_put_def)
  have st: "ring_stored (buf rb) (unat (put rb) mod 256) [x] ?zs"
    by (rule ring_stored_update) (simp add: len)
  have "ring_slice ?zs ?r (?n + length [x]) = ring_slice (buf rb) ?r ?n @ [x]"
    by (rule ring_stored_extend [OF st]) (use put_index [of rb] room in \<open>simp_all add: len\<close>)
  then show ?thesis
    using n zs room len by (simp add: appended_def rb_inv_def rb_bytes_def)
qed

lemma foldl_put_appended:
  "rb_inv rb \<Longrightarrow> length (rb_bytes rb) + length xs \<le> 256 \<Longrightarrow>
   appended rb xs (foldl mqtt_ringbuf_put rb xs)"
proof (induction xs arbitrary: rb)
  case Nil
  then show ?case by (simp add: appended_Nil)
next
  case (Cons x xs)
  then have one: "appended rb [x] (mqtt_ringbuf_put rb x)"
    by (intro mqtt_ringbuf_put_appended) simp_all
  moreover have "appended (mqtt_ringbuf_put rb x) xs (foldl mqtt_ringbuf_put (mqtt_ringbuf_put rb x) xs)"
    using Cons.prems appended_length [OF one]
    by (intro Cons.IH appended_inv [OF one]) simp
  ultimately show ?case using appended_trans by fastforce
qed

section \<open>The fields of a message\<close>

text \<open>
  The encodings of the protocol: a big-endian 16-bit number, a string with its length in
  front, and the remaining length in groups of seven bits, the lowest first.
\<close>

definition enc_u16 :: "nat \<Rightarrow> u8 list" where
  "enc_u16 n = [word_of_nat (n div 256), word_of_nat (n mod 256)]"

definition enc_string :: "u8 list \<Rightarrow> u8 list" where
  "enc_string xs = enc_u16 (length xs) @ xs"

fun enc_length :: "nat \<Rightarrow> u8 list" where
  "enc_length n =
     (if n < 128 then [word_of_nat n] else word_of_nat (n mod 128 + 128) # enc_length (n div 128))"

declare enc_length.simps [simp del]

text \<open>The first byte of a message.\<close>

definition ctl_byte :: "u8 \<Rightarrow> u8 \<Rightarrow> u8 \<Rightarrow> u8 \<Rightarrow> u8" where
  "ctl_byte msg_type dup qos retain =
     push_bit 4 (msg_type AND 0x0f) OR push_bit 3 (dup AND 1) OR push_bit 1 (qos AND 3)
     OR (retain AND 1)"

definition enc_header :: "u8 \<Rightarrow> nat \<Rightarrow> u8 list" where
  "enc_header b n = b # enc_length n"

lemma length_enc_u16 [simp]: "length (enc_u16 n) = 2"
  by (simp add: enc_u16_def)

lemma length_enc_string [simp]: "length (enc_string xs) = length xs + 2"
  by (simp add: enc_string_def)

lemma ucast_high_byte: "ucast (drop_bit 8 v) = (word_of_nat (unat v div 256) :: u8)" for v :: u16
  by (simp add: drop_bit_eq_div unat_div_distrib word_unat_eq_iff unat_of_nat unsigned_ucast_eq take_bit_eq_mod)

lemma ucast_low_byte: "ucast (v AND 0xff) = (word_of_nat (unat v mod 256) :: u8)" for v :: u16
proof -
  have "v AND 0xff = take_bit 8 v" by (simp add: take_bit_eq_mask mask_eq_decr_exp)
  then show ?thesis
    by (simp add: word_unat_eq_iff unat_of_nat unsigned_ucast_eq take_bit_eq_mod unat_mod_distrib)
qed

lemma mqtt_output_append_u8_appended:
  "rb_inv rb \<Longrightarrow> length (rb_bytes rb) + 1 \<le> 256 \<Longrightarrow> appended rb [x] (mqtt_output_append_u8 rb x)"
  unfolding mqtt_output_append_u8_def by (rule mqtt_ringbuf_put_appended)

lemma append_two: 
  "rb_inv rb \<Longrightarrow> length (rb_bytes rb) + 2 \<le> 256 \<Longrightarrow>
   appended rb [x, y] (mqtt_ringbuf_put (mqtt_ringbuf_put rb x) y)"
  using foldl_put_appended [of rb "[x, y]"] by simp

lemma mqtt_output_append_u16_appended:
  assumes "rb_inv rb" and "length (rb_bytes rb) + 2 \<le> 256"
  shows "appended rb (enc_u16 (unat v)) (mqtt_output_append_u16 rb v)"
  using append_two [OF assms] by (simp only: mqtt_output_append_u16_def enc_u16_def ucast_high_byte ucast_low_byte)

lemma mqtt_output_append_buf_appended:
  assumes "rb_inv rb" and "length (rb_bytes rb) + unat n \<le> 256" and "unat n \<le> length xs"
  shows "\<exists>rb'. mqtt_output_append_buf rb xs n = Ok rb' \<and> appended rb (take (unat n) xs) rb'"
  using foldl_put_appended [OF assms(1), of "take (unat n) xs"] assms
  by (simp add: mqtt_output_append_buf_def min_absorb2)

lemma mqtt_output_append_string_appended:
  assumes inv: "rb_inv rb" and room: "length (rb_bytes rb) + length xs + 2 \<le> 256" and n: "unat n = length xs"
  shows "\<exists>rb'. mqtt_output_append_string rb xs n = Ok rb' \<and> appended rb (enc_string xs) rb'"
proof -
  let ?rb = "mqtt_ringbuf_put (mqtt_ringbuf_put rb (ucast (drop_bit 8 n))) (ucast (n AND 0xff))"
  have two: "appended rb (enc_u16 (length xs)) ?rb"
    using append_two [OF inv] room by (simp add: enc_u16_def ucast_high_byte ucast_low_byte n)
  moreover have "appended ?rb xs (foldl mqtt_ringbuf_put ?rb xs)"
    using room appended_length [OF two] by (intro foldl_put_appended appended_inv [OF two]) simp
  ultimately have "appended rb (enc_string xs) (foldl mqtt_ringbuf_put ?rb xs)"
    unfolding enc_string_def by (rule appended_trans)
  then show ?thesis by (simp add: mqtt_output_append_string_def n)
qed

lemma length_byte:
  "ucast ((r AND 0x7f) OR (if r \<ge> 128 then 0x80 else 0)) =
   (word_of_nat (if unat r < 128 then unat r else unat r mod 128 + 128) :: u8)" for r :: u16
proof -
  have "r AND 0x7f = take_bit 7 r" by (simp add: take_bit_eq_mask mask_eq_decr_exp)
  then have low: "unat (r AND 0x7f) = unat r mod 128" by (simp add: take_bit_eq_mod unat_mod_distrib)
  have "(r AND 0x7f) AND 0x80 = 0" by (simp add: and.assoc)
  then have "(r AND 0x7f) OR 0x80 = (r AND 0x7f) + 0x80" by (simp add: disjunctive_add_eq_or)
  moreover have "unat ((r AND 0x7f) + 0x80) = unat r mod 128 + 128"
    by (subst unat_add_small) (simp_all add: low)
  ultimately show ?thesis
    using low by (auto simp: word_unat_eq_iff unat_of_nat unsigned_ucast_eq take_bit_eq_mod word_le_nat_alt)
qed

lemma length_enc_length_pos: "1 \<le> length (enc_length n)"
  by (simp add: enc_length.simps)

lemma append_remaining_length_appended:
  "rb_inv rb \<Longrightarrow> length (rb_bytes rb) + length (enc_length (unat r)) \<le> 256 \<Longrightarrow>
   appended rb (enc_length (unat r)) (append_remaining_length rb r)"
proof (induction rb r rule: append_remaining_length.induct)
  case (1 rb r)
  let ?b = "ucast ((r AND 0x7f) OR (if r \<ge> 128 then 0x80 else 0)) :: u8"
  let ?rb = "mqtt_output_append_u8 rb ?b"
  have one: "appended rb [?b] ?rb"
    using 1(2,3) length_enc_length_pos [of "unat r"] by (intro mqtt_output_append_u8_appended) linarith+
  show ?case
  proof (cases "drop_bit 7 r > 0")
    case True
    then have big: "\<not> unat r < 128" "unat (drop_bit 7 r) = unat r div 128"
      using unat_drop_bit_7 [of r] by (auto simp: word_less_nat_alt)
    have "appended ?rb (enc_length (unat (drop_bit 7 r))) (append_remaining_length ?rb (drop_bit 7 r))"
      using 1(3) big(1) appended_length [OF one]
      by (intro 1(1) refl True appended_inv [OF one]) (simp add: big enc_length.simps [of "unat r"])
    from appended_trans [OF one this] True big show ?thesis
      by (simp add: append_remaining_length.simps [of rb] Let_def length_byte enc_length.simps [of "unat r"])
  next
    case False
    then have "unat r < 128" using unat_drop_bit_7 [of r] by (simp add: word_less_nat_alt)
    with one False show ?thesis
      by (simp add: append_remaining_length.simps [of rb] Let_def length_byte enc_length.simps [of "unat r"])
  qed
qed

lemma mqtt_output_append_fixed_header_appended:
  assumes inv: "rb_inv rb" and room: "length (rb_bytes rb) + 1 + length (enc_length (unat r)) \<le> 256"
  shows "appended rb (enc_header (ctl_byte t d q n) (unat r)) (mqtt_output_append_fixed_header rb t d q n r)"
proof -
  let ?rb = "mqtt_output_append_u8 rb (ctl_byte t d q n)"
  have one: "appended rb [ctl_byte t d q n] ?rb"
    using inv room by (intro mqtt_output_append_u8_appended) simp_all
  moreover have "appended ?rb (enc_length (unat r)) (append_remaining_length ?rb r)"
    using room appended_length [OF one] by (intro append_remaining_length_appended appended_inv [OF one]) simp
  ultimately show ?thesis
    using appended_trans by (fastforce simp: mqtt_output_append_fixed_header_def enc_header_def ctl_byte_def)
qed

section \<open>The space check\<close>

lemma count_length_bytes_eq:
  "count_length_bytes t r = t + word_of_nat (length (enc_length (unat r)))"
proof (induction t r rule: count_length_bytes.induct)
  case (1 t r)
  show ?case
  proof (cases "drop_bit 7 r > 0")
    case True
    then have "\<not> unat r < 128" "unat (drop_bit 7 r) = unat r div 128"
      using unat_drop_bit_7 [of r] by (auto simp: word_less_nat_alt)
    with 1 [OF refl refl True] True show ?thesis
      by (simp add: count_length_bytes.simps [of t] Let_def enc_length.simps [of "unat r"])
  next
    case False
    then have "unat r < 128" using unat_drop_bit_7 [of r] by (simp add: word_less_nat_alt)
    with False show ?thesis
      by (simp add: count_length_bytes.simps [of t] Let_def enc_length.simps [of "unat r"])
  qed
qed

lemma length_enc_length:
  "n < 2097152 \<Longrightarrow> length (enc_length n) = (if n < 128 then 1 else if n < 16384 then 2 else 3)"
  by (auto simp: enc_length.simps [of n] enc_length.simps [of "n div 128"]
      enc_length.simps [of "n div 128 div 128"])

text \<open>
  The 16-bit total does not wrap up to a remaining length of 65531; there the check is exact.
\<close>

lemma mqtt_output_check_space_iff:
  assumes "unat r \<le> 65531"
  shows "mqtt_output_check_space rb r \<longleftrightarrow>
    length (rb_bytes rb) + 1 + length (enc_length (unat r)) + unat r \<le> 256"
proof -
  let ?L = "length (enc_length (unat r))"
  have L: "?L \<le> 3" using assms length_enc_length [of "unat r"] by simp
  have "unat (1 + r + word_of_nat ?L) = 1 + unat r + ?L"
    using assms L by (simp add: unat_word_ariths unat_of_nat)
  then have "uint (1 + r + word_of_nat ?L) = int (1 + unat r + ?L)" by (metis uint_nat)
  then have "mqtt_output_check_space rb r \<longleftrightarrow>
      int (1 + unat r + ?L) \<le> 256 - int (unat (mqtt_ringbuf_len rb))"
    unfolding mqtt_output_check_space_def count_length_bytes_eq mqtt_ringbuf_free_len by argo
  then show ?thesis unfolding length_rb_bytes by linarith
qed

section \<open>Handing bytes to TCP\<close>

lemma advance_bytes:
  assumes inv: "rb_inv rb" and k: "unat k \<le> length (rb_bytes rb)"
  shows "rb_inv (mqtt_ringbuf_advance_get_idx rb k)"
    and "rb_bytes (mqtt_ringbuf_advance_get_idx rb k) = drop (unat k) (rb_bytes rb)"
proof -
  let ?rb = "mqtt_ringbuf_advance_get_idx rb k"
  have "mqtt_ringbuf_len ?rb = mqtt_ringbuf_len rb - k"
    by (simp add: mqtt_ringbuf_len_def mqtt_ringbuf_advance_get_idx_def)
  then have len: "unat (mqtt_ringbuf_len ?rb) = unat (mqtt_ringbuf_len rb) - unat k"
    using k by (simp add: unat_sub word_le_nat_alt)
  have buf: "buf ?rb = buf rb" by (simp add: mqtt_ringbuf_advance_get_idx_def)
  show "rb_inv ?rb" using inv by (auto simp: rb_inv_def len buf)
  have "unat (get ?rb) = (unat (get rb) + unat k) mod 65536"
    by (simp add: mqtt_ringbuf_advance_get_idx_def unat_word_ariths)
  then have "unat (get ?rb) mod 256 = (unat (get rb) mod 256 + unat k) mod 256"
    by (simp add: mod_mod_cancel mod_add_left_eq)
  then show "rb_bytes ?rb = drop (unat k) (rb_bytes rb)"
    using inv k by (simp add: rb_bytes_def len buf drop_ring_slice rb_inv_def)
qed

lemma linear_read_length:
  "mqtt_ringbuf_linear_read_length rb = int (min (length (rb_bytes rb)) (256 - unat (get rb) mod 256))"
proof -
  have "int (256 - unat (get rb) mod 256) = 256 - int (unat (get rb) mod 256)"
    by (simp add: of_nat_diff)
  then show ?thesis
    by (simp only: mqtt_ringbuf_linear_read_length_def MQTT_OUTPUT_RINGBUF_SIZE_def
        uint_nat unat_masked length_rb_bytes of_nat_min)
qed

lemma unat_linear_read_length:
  assumes "rb_inv rb"
  shows "unat (word_of_int (mqtt_ringbuf_linear_read_length rb) :: u16) =
    min (length (rb_bytes rb)) (256 - unat (get rb) mod 256)"
  unfolding linear_read_length
  by (subst unat_word_of_int_small) (simp_all add: nat_int)

lemma get_ptr_bytes:
  assumes "rb_inv rb" and "k \<le> min (length (rb_bytes rb)) (256 - unat (get rb) mod 256)"
  shows "mqtt_ringbuf_get_ptr rb k = Ok (take k (rb_bytes rb))"
proof -
  have "unat (get rb) mod 256 + k \<le> 256" "k \<le> unat (mqtt_ringbuf_len rb)"
    using assms(2) by (auto simp: le_diff_conv2 less_imp_le)
  with assms(1) show ?thesis
    by (simp add: mqtt_ringbuf_get_ptr_def rb_bytes_def rb_inv_def take_ring_slice ring_slice_linear)
qed

text \<open>
  The send routine never leaves the ring or the buffer, keeps the ring well formed and
  neither loses, repeats nor reorders a byte, whatever TCP answers.
\<close>

lemma mqtt_output_send_run:
  assumes inv: "rb_inv rb"
  shows "\<exists>rb' s'. mqtt_output_send io rb (Some p) s = Ok (rb', s') \<and> rb_inv rb' \<and>
    (\<forall>stream. tcp_stream_law io stream \<longrightarrow>
       stream s' p @ rb_bytes rb' = stream s p @ rb_bytes rb)"
proof -
  let ?lin = "word_of_int (mqtt_ringbuf_linear_read_length rb) :: u16"
  let ?snd = "tcp_sndbuf io s p"
  show ?thesis
  proof (cases "?snd = 0 \<or> ?lin = 0")
    case True
    then show ?thesis using inv by (simp add: mqtt_output_send_def)
  next
    case False
    define n where "n = (if ?snd > ?lin then ?lin else ?snd)"
    define wrap where "wrap = (?snd > ?lin \<and> mqtt_ringbuf_len rb > ?lin)"
    have n: "unat n \<le> min (length (rb_bytes rb)) (256 - unat (get rb) mod 256)"
      unfolding unat_linear_read_length [OF inv, symmetric] n_def
      by (simp add: word_less_nat_alt)
    have pick: "(if ?snd > ?lin then (?lin, mqtt_ringbuf_len rb > ?lin) else (?snd, False)) = (n, wrap)"
      by (simp add: n_def wrap_def)
    let ?d1 = "take (unat n) (rb_bytes rb)"
    obtain e1 s1 where w1: "tcp_write io s p ?d1 wrap = (e1, s1)" by fastforce
    define rb1 where "rb1 = mqtt_ringbuf_advance_get_idx rb n"
    have rb1: "rb_inv rb1" "rb_bytes rb1 = drop (unat n) (rb_bytes rb)"
      using advance_bytes [OF inv, of n] n by (simp_all add: rb1_def)
    have start: "mqtt_output_send io rb (Some p) s =
      bind_outcome
        (if e1 = ERR_OK \<and> wrap then
           let send_len = word_of_int (min (uint (tcp_sndbuf io s1 p)) (mqtt_ringbuf_linear_read_length rb1)) :: u16 in
           bind_outcome (mqtt_ringbuf_get_ptr rb1 (unat send_len)) (\<lambda>data.
             let (err, s) = tcp_write io s1 p data False in Ok (rb1, send_len, err, s))
         else Ok (rb, n, e1, s1))
        (\<lambda>(rb, send_len, err, s).
           if err = ERR_OK
           then Ok (mqtt_ringbuf_advance_get_idx rb send_len, tcp_output io s p)
           else Ok (rb, s))"
      unfolding mqtt_output_send_def option.case Let_def pick
      using False w1 by (simp add: get_ptr_bytes [OF inv n] rb1_def)
    have law: "stream s1 p = (if e1 = ERR_OK then stream s p @ ?d1 else stream s p)"
      if "tcp_stream_law io stream" for stream
      using that w1 unfolding tcp_stream_law_def by blast
    have out: "stream (tcp_output io s2 p) p = stream s2 p" if "tcp_stream_law io stream" for stream s2
      using that unfolding tcp_stream_law_def by blast
    show ?thesis
    proof (cases "e1 = ERR_OK \<and> wrap")
      case False
      have str: "stream (tcp_output io s1 p) p @ rb_bytes rb1 = stream s p @ rb_bytes rb"
        if "tcp_stream_law io stream" "e1 = ERR_OK" for stream
        using law [OF that(1)] out [OF that(1), of s1] that(2) by (simp add: rb1(2))
      from False show ?thesis
        using start inv rb1(1) law str by (cases "e1 = ERR_OK") (simp_all add: rb1_def [symmetric])
    next
      case True
      let ?m = "word_of_int (min (uint (tcp_sndbuf io s1 p)) (mqtt_ringbuf_linear_read_length rb1)) :: u16"
      let ?d2 = "take (unat ?m) (rb_bytes rb1)"
      have "unat ?m = nat (min (uint (tcp_sndbuf io s1 p)) (mqtt_ringbuf_linear_read_length rb1))"
        using rb1(1) by (intro unat_word_of_int_small) (auto simp: linear_read_length min_less_iff_disj)
      then have "unat ?m \<le> nat (mqtt_ringbuf_linear_read_length rb1)"
        by (simp only: nat_mono min.cobounded2)
      then have m: "unat ?m \<le> min (length (rb_bytes rb1)) (256 - unat (get rb1) mod 256)"
        by (simp only: linear_read_length nat_int)
      obtain e2 s2 where w2: "tcp_write io s1 p ?d2 False = (e2, s2)" by fastforce
      have law2: "stream s2 p = (if e2 = ERR_OK then stream s1 p @ ?d2 else stream s1 p)"
        if "tcp_stream_law io stream" for stream
        using that w2 unfolding tcp_stream_law_def by blast
      have "mqtt_output_send io rb (Some p) s =
          (if e2 = ERR_OK then Ok (mqtt_ringbuf_advance_get_idx rb1 ?m, tcp_output io s2 p) else Ok (rb1, s2))"
        using start True w2 get_ptr_bytes [OF rb1(1) m] by (simp add: Let_def)
      moreover have rb2: "rb_inv (mqtt_ringbuf_advance_get_idx rb1 ?m)"
        "rb_bytes (mqtt_ringbuf_advance_get_idx rb1 ?m) = drop (unat ?m) (rb_bytes rb1)"
        using advance_bytes [OF rb1(1), of ?m] m by simp_all
      moreover have "stream s1 p @ rb_bytes rb1 = stream s p @ rb_bytes rb"
        if "tcp_stream_law io stream" for stream
        using law [OF that] True by (simp add: rb1(2))
      moreover have "stream (tcp_output io s2 p) p @ drop (unat ?m) (rb_bytes rb1) =
          stream s1 p @ rb_bytes rb1" if "tcp_stream_law io stream" "e2 = ERR_OK" for stream
        using law2 [OF that(1)] out [OF that(1), of s2] that(2) by simp
      moreover have "stream s2 p = stream s1 p" if "tcp_stream_law io stream" "e2 \<noteq> ERR_OK" for stream
        using law2 [OF that(1)] that(2) by simp
      ultimately show ?thesis
        using rb1(1) by (cases "e2 = ERR_OK") (simp_all, metis)
    qed
  qed
qed

section \<open>The ring as a byte queue\<close>

text \<open>
  A block is stored when the free space holds it, and read back in at most two linear parts, the way
  \<open>mqtt_output_send\<close> hands the ring to TCP.
\<close>

definition ring_store :: "mqtt_ringbuf_t \<Rightarrow> u8 list \<Rightarrow> mqtt_ringbuf_t option" where
  "ring_store rb xs =
     (if int (length xs) \<le> mqtt_ringbuf_free rb then
        (case mqtt_output_append_buf rb xs (word_of_nat (length xs)) of Ok rb' \<Rightarrow> Some rb' | Halt _ \<Rightarrow> None)
      else None)"

definition ring_fetch :: "mqtt_ringbuf_t \<Rightarrow> nat \<Rightarrow> (u8 list \<times> mqtt_ringbuf_t) option" where
  "ring_fetch rb n =
     (let k = min n (nat (mqtt_ringbuf_linear_read_length rb));
          rb1 = mqtt_ringbuf_advance_get_idx rb (word_of_nat k) in
      case (mqtt_ringbuf_get_ptr rb k, mqtt_ringbuf_get_ptr rb1 (n - k)) of
        (Ok xs, Ok ys) \<Rightarrow> Some (xs @ ys, mqtt_ringbuf_advance_get_idx rb1 (word_of_nat (n - k)))
      | _ \<Rightarrow> None)"

lemma ring_fits: "int (length xs) \<le> mqtt_ringbuf_free rb \<longleftrightarrow> length (rb_bytes rb) + length xs \<le> 256"
  unfolding mqtt_ringbuf_free_len length_rb_bytes by linarith

lemma ring_store_law:
  assumes "rb_inv rb" and "length (rb_bytes rb) + length xs \<le> 256"
  shows "\<exists>rb'. ring_store rb xs = Some rb' \<and> rb_inv rb' \<and> rb_bytes rb' = rb_bytes rb @ xs"
proof -
  have n: "unat (word_of_nat (length xs) :: u16) = length xs" using assms(2) by (simp add: unat_of_nat)
  from mqtt_output_append_buf_appended [OF assms(1), of "word_of_nat (length xs)" xs] assms(2)
  obtain rb' where "mqtt_output_append_buf rb xs (word_of_nat (length xs)) = Ok rb'" "appended rb xs rb'"
    by (auto simp: n)
  then show ?thesis
    using assms(2) by (simp add: ring_store_def ring_fits appended_def del: length_rb_bytes)
qed

lemma to_the_end: "(g + (256 - g mod 256)) mod 256 = (0 :: nat)"
proof -
  define q r where "q = g div 256" and "r = g mod 256"
  have "g = 256 * q + r" "r < 256" by (simp_all add: q_def r_def)
  then have "g + (256 - r) = 256 * (q + 1)" by simp
  then show ?thesis unfolding r_def by (simp only: mod_mult_self1_is_0)
qed

lemma ring_fetch_law:
  assumes inv: "rb_inv rb" and n: "n \<le> length (rb_bytes rb)"
  shows "\<exists>rb'. ring_fetch rb n = Some (take n (rb_bytes rb), rb') \<and> rb_inv rb' \<and> rb_bytes rb' = drop n (rb_bytes rb)"
proof -
  let ?lin = "min (length (rb_bytes rb)) (256 - unat (get rb) mod 256)"
  define k where "k = min n ?lin"
  define rb1 where "rb1 = mqtt_ringbuf_advance_get_idx rb (word_of_nat k)"
  have n256: "n \<le> 256" using n inv by (simp add: rb_inv_def)
  have small: "unat (word_of_nat m :: u16) = m" if "m \<le> n" for m using that n256 by (simp add: unat_of_nat)
  have k: "unat (word_of_nat k :: u16) = k" "k \<le> length (rb_bytes rb)" "unat (word_of_nat (n - k) :: u16) = n - k"
    by (rule small, simp add: k_def, simp add: k_def, rule small, simp)
  note rb1 = advance_bytes [OF inv, of "word_of_nat k", unfolded k(1), OF k(2), folded rb1_def]
  have "n - k \<le> 256 - unat (get rb1) mod 256"
  proof (cases "n = k")
    case False
    then have "k = 256 - unat (get rb) mod 256" using n by (auto simp: k_def)
    then have "(unat (get rb) + k) mod 256 = 0" by (simp only: to_the_end)
    moreover have "unat (get rb1) mod 256 = (unat (get rb) + k) mod 256"
      by (simp add: rb1_def mqtt_ringbuf_advance_get_idx_def unat_word_ariths k(1) mod_mod_cancel)
    ultimately show ?thesis using n256 by simp
  qed simp
  then have second: "mqtt_ringbuf_get_ptr rb1 (n - k) = Ok (take (n - k) (rb_bytes rb1))"
    using n k(2) rb1(2) by (intro get_ptr_bytes [OF rb1(1)]) (simp only: length_drop min.bounded_iff, simp)
  have first: "mqtt_ringbuf_get_ptr rb k = Ok (take k (rb_bytes rb))" by (rule get_ptr_bytes [OF inv]) (simp only: k_def min.cobounded2)
  have le: "unat (word_of_nat (n - k) :: u16) \<le> length (rb_bytes rb1)"
    unfolding k(3) rb1(2) using n by simp
  have "ring_fetch rb n = Some (take k (rb_bytes rb) @ take (n - k) (rb_bytes rb1),
      mqtt_ringbuf_advance_get_idx rb1 (word_of_nat (n - k)))"
    using first second unfolding ring_fetch_def linear_read_length nat_int k_def [symmetric] rb1_def [symmetric] Let_def by simp
  moreover have "take k (rb_bytes rb) @ take (n - k) (rb_bytes rb1) = take n (rb_bytes rb)"
    using k_def by (simp add: rb1(2) take_add [symmetric])
  moreover note advance_bytes [OF rb1(1) le, unfolded k(3) rb1(2)]
  ultimately show ?thesis using k_def by simp
qed

interpretation mqtt_ring: byte_fifo rb_inv rb_bytes 256 ring_store ring_fetch
proof unfold_locales
  fix rb and xs :: "u8 list"
  assume "rb_inv rb" and "256 < length (rb_bytes rb) + length xs"
  then show "ring_store rb xs = None" by (simp add: ring_store_def ring_fits del: length_rb_bytes)
qed (use ring_store_law ring_fetch_law in blast)+

end
