(* ===== verification/MqttRequests.thy ===== *)
theory MqttRequests
  imports MqttRing
begin

text \<open>
  The pending requests of the MQTT client (\<open>src/user/mqtt/mqtt.c\<close>, "Request queue"): four
  request objects, an object that points to itself being free, and the queue of those that
  wait for an answer, linked through \<open>next\<close>. A pointer is \<open>None\<close> (NULL) or the index of an
  object. The timeouts form a delta list: each object holds its timeout relative to the one
  before it. The loops that follow the links are partial functions; a loop that never ends
  is \<open>Halt Spin\<close>. The lemmas show that on a well-formed queue every loop ends, and what it
  does to the list of requests and to their absolute timeouts.
\<close>

section \<open>Operations\<close>

definition MQTT_REQ_MAX_IN_FLIGHT :: nat where
  "MQTT_REQ_MAX_IN_FLIGHT = 4"

definition MQTT_REQ_TIMEOUT :: u16 where
  "MQTT_REQ_TIMEOUT = 30"

record 'c mqtt_request_t =
  next_req :: "nat option"
  cb :: "'c option"
  arg :: u32
  pkt_id :: u16
  timeout_diff :: u16

type_synonym 'c req_objs = "'c mqtt_request_t list"
type_synonym 'c notice = "'c \<times> u32 \<times> err_t"

text \<open>The call \<open>r->cb(r->arg, err)\<close> behind its NULL test.\<close>

definition notify_req :: "'c mqtt_request_t \<Rightarrow> err_t \<Rightarrow> 'c notice list" where
  "notify_req r e = (case cb r of None \<Rightarrow> [] | Some c \<Rightarrow> [(c, arg r, e)])"

definition loop_outcome :: "'a option \<Rightarrow> 'a outcome" where
  "loop_outcome m = (case m of None \<Rightarrow> Halt Spin | Some a \<Rightarrow> Ok a)"

definition mqtt_create_request ::
  "'c req_objs \<Rightarrow> u16 \<Rightarrow> 'c option \<Rightarrow> u32 \<Rightarrow> nat option \<times> 'c req_objs" where
  "mqtt_create_request r_objs ident c a =
     (case find (\<lambda>n. next_req (r_objs ! n) = Some n) [0..<MQTT_REQ_MAX_IN_FLIGHT] of
        None \<Rightarrow> (None, r_objs)
      | Some n \<Rightarrow>
          (Some n, r_objs[n := (r_objs ! n)\<lparr>next_req := None, cb := c, arg := a, pkt_id := ident\<rparr>]))"

partial_function (option) append_loop ::
  "'c req_objs \<Rightarrow> nat option \<Rightarrow> u16 \<Rightarrow> nat option \<Rightarrow> (u16 \<times> nat option) option" where
  "append_loop objs iter time_before head =
     (case iter of None \<Rightarrow> Some (time_before, head)
      | Some i \<Rightarrow> append_loop objs (next_req (objs ! i)) (time_before + timeout_diff (objs ! i)) iter)"

definition mqtt_append_request ::
  "'c req_objs \<Rightarrow> nat option \<Rightarrow> nat \<Rightarrow> ('c req_objs \<times> nat option) outcome" where
  "mqtt_append_request objs tail r =
     bind_outcome (loop_outcome (append_loop objs tail 0 None)) (\<lambda>(time_before, head).
       let objs = objs[r := (objs ! r)\<lparr>timeout_diff := MQTT_REQ_TIMEOUT - time_before\<rparr>] in
       case head of None \<Rightarrow> Ok (objs, Some r)
       | Some h \<Rightarrow> Ok (objs[h := (objs ! h)\<lparr>next_req := Some r\<rparr>], tail))"

definition mqtt_delete_request :: "'c req_objs \<Rightarrow> nat option \<Rightarrow> 'c req_objs" where
  "mqtt_delete_request objs r =
     (case r of None \<Rightarrow> objs | Some n \<Rightarrow> objs[n := (objs ! n)\<lparr>next_req := Some n\<rparr>])"

partial_function (option) take_loop ::
  "'c req_objs \<Rightarrow> nat option \<Rightarrow> nat option \<Rightarrow> u16 \<Rightarrow> (nat option \<times> nat option) option" where
  "take_loop objs iter prev ident =
     (case iter of None \<Rightarrow> Some (None, prev)
      | Some i \<Rightarrow>
          if pkt_id (objs ! i) = ident then Some (iter, prev)
          else take_loop objs (next_req (objs ! i)) iter ident)"

definition mqtt_take_request ::
  "'c req_objs \<Rightarrow> nat option \<Rightarrow> u16 \<Rightarrow> (nat option \<times> 'c req_objs \<times> nat option) outcome" where
  "mqtt_take_request objs tail ident =
     bind_outcome (loop_outcome (take_loop objs tail None ident)) (\<lambda>(iter, prev).
       case iter of None \<Rightarrow> Ok (None, objs, tail)
       | Some i \<Rightarrow>
           let nxt = next_req (objs ! i);
               (objs, tail) =
                 (case prev of None \<Rightarrow> (objs, nxt)
                  | Some p \<Rightarrow> (objs[p := (objs ! p)\<lparr>next_req := nxt\<rparr>], tail));
               objs =
                 (case next_req (objs ! i) of None \<Rightarrow> objs
                  | Some n \<Rightarrow>
                      objs[n := (objs ! n)\<lparr>timeout_diff :=
                                  timeout_diff (objs ! n) + timeout_diff (objs ! i)\<rparr>]) in
           Ok (Some i, objs[i := (objs ! i)\<lparr>next_req := None\<rparr>], tail))"

partial_function (option) elapsed_loop ::
  "'c req_objs \<Rightarrow> nat option \<Rightarrow> u8 \<Rightarrow> 'c notice list \<Rightarrow>
     ('c req_objs \<times> nat option \<times> 'c notice list) option" where
  "elapsed_loop objs tail t log =
     (case tail of None \<Rightarrow> Some (objs, tail, log)
      | Some r \<Rightarrow>
          if t > 0 then
            if ucast t \<ge> timeout_diff (objs ! r) then
              elapsed_loop (mqtt_delete_request objs tail) (next_req (objs ! r))
                (t - ucast (timeout_diff (objs ! r)))
                (log @ notify_req (objs ! r) ERR_TIMEOUT)
            else
              Some (objs[r := (objs ! r)\<lparr>timeout_diff := timeout_diff (objs ! r) - ucast t\<rparr>], tail, log)
          else Some (objs, tail, log))"

definition mqtt_request_time_elapsed ::
  "'c req_objs \<Rightarrow> nat option \<Rightarrow> u8 \<Rightarrow> ('c req_objs \<times> nat option \<times> 'c notice list) outcome" where
  "mqtt_request_time_elapsed objs tail t = loop_outcome (elapsed_loop objs tail t [])"

partial_function (option) clear_loop :: "'c req_objs \<Rightarrow> nat option \<Rightarrow> 'c req_objs option" where
  "clear_loop objs iter =
     (case iter of None \<Rightarrow> Some objs
      | Some i \<Rightarrow> clear_loop (mqtt_delete_request objs iter) (next_req (objs ! i)))"

definition mqtt_clear_requests :: "'c req_objs \<Rightarrow> nat option \<Rightarrow> ('c req_objs \<times> nat option) outcome" where
  "mqtt_clear_requests objs tail =
     bind_outcome (loop_outcome (clear_loop objs tail)) (\<lambda>objs. Ok (objs, None))"

definition mqtt_init_requests :: "'c req_objs \<Rightarrow> 'c req_objs" where
  "mqtt_init_requests objs =
     foldl (\<lambda>objs n. objs[n := (objs ! n)\<lparr>next_req := Some n\<rparr>]) objs [0..<MQTT_REQ_MAX_IN_FLIGHT]"

section \<open>Queues in the object store\<close>

text \<open>
  \<open>seg objs p q r\<close>: following the links from \<open>p\<close> visits the objects \<open>q\<close> and arrives at \<open>r\<close>.
  The queue is the segment that ends in NULL.
\<close>

fun seg :: "'c req_objs \<Rightarrow> nat option \<Rightarrow> nat list \<Rightarrow> nat option \<Rightarrow> bool" where
  "seg objs p [] r \<longleftrightarrow> p = r"
| "seg objs p (n # q) r \<longleftrightarrow> p = Some n \<and> n < length objs \<and> seg objs (next_req (objs ! n)) q r"

abbreviation chain :: "'c req_objs \<Rightarrow> nat option \<Rightarrow> nat list \<Rightarrow> bool" where
  "chain objs p q \<equiv> seg objs p q None"

lemma seg_append: "seg objs p (q @ q') r \<longleftrightarrow> (\<exists>m. seg objs p q m \<and> seg objs m q' r)"
  by (induction q arbitrary: p) auto

lemma seg_update_other [simp]:
  "n \<notin> set q \<Longrightarrow> seg (objs[n := x]) p q r = seg objs p q r"
  by (induction q arbitrary: p) auto

lemma field_update: "f x = f (xs ! n) \<Longrightarrow> f (xs[n := x] ! m) = f (xs ! m)"
proof (cases "m = n")
  case True
  then show "f x = f (xs ! n) \<Longrightarrow> f (xs[n := x] ! m) = f (xs ! m)"
    by (cases "n < length xs") (simp_all add: list_update_beyond)
qed simp

lemma seg_update_fields:
  assumes "next_req x = next_req (objs ! n)"
  shows "seg (objs[n := x]) p q r = seg objs p q r"
  by (induction q arbitrary: p) (simp_all add: field_update [where f = next_req, OF assms])

lemma chain_None [simp]: "chain objs None q \<longleftrightarrow> q = []"
  by (cases q) auto

lemma seg_in_range: "seg objs p q r \<Longrightarrow> n \<in> set q \<Longrightarrow> n < length objs"
  by (induction q arbitrary: p) auto

lemma chain_unique: "chain objs p q \<Longrightarrow> chain objs p q' \<Longrightarrow> q = q'"
proof (induction q arbitrary: p q')
  case Nil
  then show ?case by simp
next
  case (Cons n q)
  then show ?case by (cases q') auto
qed

lemma chain_distinct: "chain objs p q \<Longrightarrow> distinct q"
proof (induction q arbitrary: p)
  case Nil
  then show ?case by simp
next
  case (Cons n q)
  have "n \<notin> set q"
  proof
    assume "n \<in> set q"
    then obtain q1 q2 where q: "q = q1 @ n # q2" by (meson split_list)
    with Cons.prems have "chain objs (Some n) (n # q2)" "chain objs (Some n) (n # q)"
      by (auto simp: seg_append)
    then have "n # q2 = n # q" by (rule chain_unique)
    with q show False by simp
  qed
  with Cons show ?case by auto
qed

lemma chain_not_self: "chain objs p q \<Longrightarrow> n \<in> set q \<Longrightarrow> next_req (objs ! n) \<noteq> Some n"
proof
  assume "chain objs p q" "n \<in> set q" and self: "next_req (objs ! n) = Some n"
  then obtain q1 q2 where "q = q1 @ n # q2" by (meson split_list)
  with \<open>chain objs p q\<close> have "chain objs (Some n) (n # q2)" by (auto simp: seg_append)
  with self have "chain objs (Some n) q2" "chain objs (Some n) (n # q2)" by simp_all
  then have "q2 = n # q2" by (rule chain_unique)
  then show False by simp
qed

section \<open>The queue as a list\<close>

text \<open>
  \<open>deltas\<close> is the delta list of the queue, \<open>deadlines\<close> the absolute timeouts. The delays of a
  well-formed queue add up to at most the request timeout.
\<close>

definition deltas :: "'c req_objs \<Rightarrow> nat list \<Rightarrow> nat list" where
  "deltas objs q = map (\<lambda>n. unat (timeout_diff (objs ! n))) q"

definition deadlines :: "'c req_objs \<Rightarrow> nat list \<Rightarrow> nat list" where
  "deadlines objs q = sums 0 (deltas objs q)"

definition queue_inv :: "'c req_objs \<Rightarrow> nat option \<Rightarrow> nat list \<Rightarrow> bool" where
  "queue_inv objs tail q \<longleftrightarrow>
     length objs = 4 \<and> chain objs tail q \<and> sum_list (deltas objs q) \<le> 30"

definition free_slot :: "'c req_objs \<Rightarrow> nat \<Rightarrow> bool" where
  "free_slot objs n \<longleftrightarrow> n < length objs \<and> next_req (objs ! n) = Some n"

lemma deltas_update_other [simp]: "n \<notin> set q \<Longrightarrow> deltas (objs[n := x]) q = deltas objs q"
  unfolding deltas_def by (intro map_cong refl) (metis nth_list_update_neq)

lemma deltas_update_link [simp]:
  "timeout_diff x = timeout_diff (objs ! n) \<Longrightarrow> deltas (objs[n := x]) q = deltas objs q"
  unfolding deltas_def by (simp add: field_update [where f = timeout_diff])

lemma deltas_append [simp]: "deltas objs (q @ q') = deltas objs q @ deltas objs q'"
  by (simp add: deltas_def)

lemma deltas_Cons [simp]: "deltas objs (n # q) = unat (timeout_diff (objs ! n)) # deltas objs q"
  by (simp add: deltas_def)

lemma deltas_Nil [simp]: "deltas objs [] = []"
  by (simp add: deltas_def)

lemma length_deltas [simp]: "length (deltas objs q) = length q"
  by (simp add: deltas_def)

lemma queue_inv_in_range: "queue_inv objs tail q \<Longrightarrow> n \<in> set q \<Longrightarrow> n < 4"
  unfolding queue_inv_def using seg_in_range by metis

lemma free_slot_not_queued: "queue_inv objs tail q \<Longrightarrow> free_slot objs n \<Longrightarrow> n \<notin> set q"
  unfolding queue_inv_def free_slot_def using chain_not_self by blast

section \<open>Creating and appending\<close>

lemma append_loop_chain:
  "chain objs p q \<Longrightarrow>
   append_loop objs p t h =
     Some (t + word_of_nat (sum_list (deltas objs q)), if q = [] then h else Some (last q))"
proof (induction q arbitrary: p t h)
  case Nil
  then show ?case by (simp add: append_loop.simps [of _ None])
next
  case (Cons n q)
  then show ?case by (simp add: append_loop.simps [of _ "Some n"] add.assoc)
qed

text \<open>What a request is about; no queue operation but the creation changes it.\<close>

definition req_item :: "'c mqtt_request_t \<Rightarrow> 'c option \<times> u32 \<times> u16" where
  "req_item r = (cb r, arg r, pkt_id r)"

definition same_items :: "'c req_objs \<Rightarrow> 'c req_objs \<Rightarrow> bool" where
  "same_items objs objs' \<longleftrightarrow>
     length objs' = length objs \<and> (\<forall>n. req_item (objs' ! n) = req_item (objs ! n))"

lemma same_items_refl [simp]: "same_items objs objs"
  by (simp add: same_items_def)

lemma same_items_trans: "same_items a b \<Longrightarrow> same_items b c \<Longrightarrow> same_items a c"
  by (simp add: same_items_def)

lemma same_items_update:
  "same_items a objs \<Longrightarrow> req_item x = req_item (objs ! n) \<Longrightarrow> same_items a (objs[n := x])"
  by (simp add: same_items_def field_update [where f = req_item])

lemma req_item_simps [simp]:
  "req_item (r\<lparr>next_req := x\<rparr>) = req_item r" "req_item (r\<lparr>timeout_diff := d\<rparr>) = req_item r"
  by (simp_all add: req_item_def)

lemma same_items_pkt_id: "same_items objs objs' \<Longrightarrow> pkt_id (objs' ! n) = pkt_id (objs ! n)"
proof -
  assume "same_items objs objs'"
  then have "req_item (objs' ! n) = req_item (objs ! n)" by (simp add: same_items_def)
  then show ?thesis by (simp add: req_item_def)
qed

lemma mqtt_create_request_None:
  assumes "length objs = 4"
  shows "fst (mqtt_create_request objs ident c a) = None \<longleftrightarrow> (\<forall>n. \<not> free_slot objs n)"
  using assms by (auto simp: mqtt_create_request_def MQTT_REQ_MAX_IN_FLIGHT_def free_slot_def
      find_None_iff find_Some_iff split: option.splits)

lemma mqtt_create_request_Some:
  assumes "mqtt_create_request objs ident c a = (Some n, objs')" and "length objs = 4"
  shows "free_slot objs n"
    and "objs' = objs[n := (objs ! n)\<lparr>next_req := None, cb := c, arg := a, pkt_id := ident\<rparr>]"
  using assms by (auto simp: mqtt_create_request_def MQTT_REQ_MAX_IN_FLIGHT_def free_slot_def
      find_Some_iff split: option.splits)

lemma mqtt_create_request_queue:
  assumes "mqtt_create_request objs ident c a = (Some n, objs')" and inv: "queue_inv objs tail q"
  shows "queue_inv objs' tail q" "n \<notin> set q" "n < 4" "next_req (objs' ! n) = None"
    "req_item (objs' ! n) = (c, a, ident)"
    "\<And>m. m \<noteq> n \<Longrightarrow> objs' ! m = objs ! m" "length objs' = 4"
proof -
  have len: "length objs = 4" using inv by (simp add: queue_inv_def)
  note new = mqtt_create_request_Some [OF assms(1) len]
  show out: "n \<notin> set q" using free_slot_not_queued [OF inv new(1)] .
  show "n < 4" using new(1) len by (simp add: free_slot_def)
  then show "queue_inv objs' tail q" "next_req (objs' ! n) = None" "req_item (objs' ! n) = (c, a, ident)"
      "\<And>m. m \<noteq> n \<Longrightarrow> objs' ! m = objs ! m" "length objs' = 4"
    using inv out len by (simp_all add: queue_inv_def new(2) req_item_def)
qed

lemma unat_word_of_nat_sum: "n \<le> 30 \<Longrightarrow> unat (30 - word_of_nat n :: u16) = 30 - n"
  by (simp add: unat_sub word_le_nat_alt unat_of_nat)

lemma mqtt_append_request_run:
  assumes inv: "queue_inv objs tail q" and r: "r \<notin> set q" "r < 4" "next_req (objs ! r) = None"
  shows "\<exists>objs' tail'. mqtt_append_request objs tail r = Ok (objs', tail') \<and>
    queue_inv objs' tail' (q @ [r]) \<and> same_items objs objs' \<and>
    deadlines objs' (q @ [r]) = deadlines objs q @ [30] \<and>
    (\<forall>m. m \<notin> set (q @ [r]) \<longrightarrow> objs' ! m = objs ! m)"
proof -
  let ?S = "sum_list (deltas objs q)"
  have len: "length objs = 4" and ch: "chain objs tail q" and S: "?S \<le> 30"
    using inv by (simp_all add: queue_inv_def)
  define d :: u16 where "d = 30 - word_of_nat ?S"
  have d: "unat d = 30 - ?S" using S by (simp add: d_def unat_word_of_nat_sum)
  define objs1 where "objs1 = objs[r := (objs ! r)\<lparr>timeout_diff := d\<rparr>]"
  have objs1: "length objs1 = 4" "chain objs1 tail q" "deltas objs1 q = deltas objs q"
    "objs1 ! r = (objs ! r)\<lparr>timeout_diff := d\<rparr>" "same_items objs objs1"
    "\<And>m. m \<noteq> r \<Longrightarrow> objs1 ! m = objs ! m"
    using len ch r by (simp_all add: objs1_def same_items_update)
  have start: "mqtt_append_request objs tail r =
      (if q = [] then Ok (objs1, Some r)
       else Ok (objs1[last q := (objs1 ! last q)\<lparr>next_req := Some r\<rparr>], tail))"
    using append_loop_chain [OF ch, of 0 None]
    by (simp add: mqtt_append_request_def loop_outcome_def MQTT_REQ_TIMEOUT_def d_def objs1_def Let_def)
  show ?thesis
  proof (cases q rule: rev_cases)
    case Nil
    then show ?thesis
      using start objs1 r d by (simp add: queue_inv_def deadlines_def)
  next
    case (snoc q0 h)
    let ?o = "objs1[h := (objs1 ! h)\<lparr>next_req := Some r\<rparr>]"
    have h: "h \<notin> set q0" "h < 4" "r \<noteq> h" "r \<notin> set q0"
      using chain_distinct [OF ch] queue_inv_in_range [OF inv] r snoc by auto
    have "seg objs1 tail q0 (Some h)" using objs1(2) snoc by (auto simp: seg_append)
    then have "chain ?o tail (q @ [r])"
      using h objs1(1,4) r(2,3) snoc by (auto simp: seg_append)
    moreover have "deltas ?o (q @ [r]) = deltas objs q @ [30 - ?S]"
      using objs1(3,4) d h by simp
    moreover have "same_items objs ?o" using objs1(5) by (simp add: same_items_update)
    ultimately have "queue_inv ?o tail (q @ [r]) \<and> same_items objs ?o \<and>
        deadlines ?o (q @ [r]) = deadlines objs q @ [30]"
      using S objs1(1) by (simp add: queue_inv_def deadlines_def sums_append)
    then show ?thesis using start snoc objs1(6) by simp
  qed
qed

section \<open>Taking a request\<close>

lemma take_loop_None:
  "chain objs p q \<Longrightarrow> \<forall>n \<in> set q. pkt_id (objs ! n) \<noteq> ident \<Longrightarrow>
   \<exists>prev'. take_loop objs p prev ident = Some (None, prev')"
proof (induction q arbitrary: p prev)
  case Nil
  then show ?case by (simp add: take_loop.simps [of _ None])
next
  case (Cons n q)
  then show ?case by (simp add: take_loop.simps [of _ "Some n"])
qed

lemma take_loop_Some:
  "chain objs p (q1 @ i # q2) \<Longrightarrow> \<forall>n \<in> set q1. pkt_id (objs ! n) \<noteq> ident \<Longrightarrow> pkt_id (objs ! i) = ident \<Longrightarrow>
   take_loop objs p prev ident = Some (Some i, if q1 = [] then prev else Some (last q1))"
proof (induction q1 arbitrary: p prev)
  case Nil
  then show ?case by (simp add: take_loop.simps [of _ "Some i"])
next
  case (Cons n q)
  then show ?case by (simp add: take_loop.simps [of _ "Some n"])
qed

lemma mqtt_take_request_None:
  assumes "queue_inv objs tail q" and "\<forall>n \<in> set q. pkt_id (objs ! n) \<noteq> ident"
  shows "mqtt_take_request objs tail ident = Ok (None, objs, tail)"
  using take_loop_None [of objs tail q ident None] assms
  by (auto simp: mqtt_take_request_def loop_outcome_def queue_inv_def)

text \<open>The two updates of the store on the way: the unlinking, and the shift of the timeout.\<close>

definition unlinked :: "'c req_objs \<Rightarrow> nat list \<Rightarrow> nat option \<Rightarrow> 'c req_objs" where
  "unlinked objs q1 nxt =
     (if q1 = [] then objs else objs[last q1 := (objs ! last q1)\<lparr>next_req := nxt\<rparr>])"

definition shifted :: "'c req_objs \<Rightarrow> nat option \<Rightarrow> u16 \<Rightarrow> 'c req_objs" where
  "shifted objs nxt d =
     (case nxt of None \<Rightarrow> objs
      | Some n \<Rightarrow> objs[n := (objs ! n)\<lparr>timeout_diff := timeout_diff (objs ! n) + d\<rparr>])"

lemma unlinked_seg:
  assumes "seg objs tail q1 (Some i)" and "distinct q1"
  shows "seg (unlinked objs q1 nxt) (if q1 = [] then nxt else tail) q1 nxt"
  using assms by (cases q1 rule: rev_cases) (auto simp: unlinked_def seg_append)

lemma unlinked_other: "m \<notin> set q1 \<Longrightarrow> unlinked objs q1 nxt ! m = objs ! m"
  by (cases q1 rule: rev_cases) (simp_all add: unlinked_def)

lemma unlinked_keeps:
  "length (unlinked objs q1 nxt) = length objs" "same_items objs (unlinked objs q1 nxt)"
  "deltas (unlinked objs q1 nxt) q = deltas objs q"
  "set q1 \<inter> set q2 = {} \<Longrightarrow> seg (unlinked objs q1 nxt) p q2 r = seg objs p q2 r"
  by (cases q1 rule: rev_cases; simp add: unlinked_def same_items_update)+

lemma shifted_keeps:
  "length (shifted objs nxt d) = length objs" "same_items objs (shifted objs nxt d)"
  "seg (shifted objs nxt d) p q r = seg objs p q r"
  "next_req (shifted objs nxt d ! n) = next_req (objs ! n)"
  "(case nxt of None \<Rightarrow> True | Some m \<Rightarrow> m \<notin> set q) \<Longrightarrow> deltas (shifted objs nxt d) q = deltas objs q"
  by (auto simp: shifted_def same_items_update seg_update_fields field_update [where f = next_req]
      split: option.splits)

lemma shifted_other: "nxt \<noteq> Some m \<Longrightarrow> shifted objs nxt d ! m = objs ! m"
  by (cases nxt) (simp_all add: shifted_def)

lemma shifted_deltas:
  assumes "chain objs nxt q" and "sum_list (deltas objs q) + unat d < 65536"
  shows "deltas (shifted objs nxt d) q = (case deltas objs q of [] \<Rightarrow> [] | x # xs \<Rightarrow> (x + unat d) # xs)"
proof (cases q)
  case Nil
  then show ?thesis by simp
next
  case (Cons n q3)
  then have "unat (timeout_diff (objs ! n) + d) = unat (timeout_diff (objs ! n)) + unat d"
    using assms(2) by (intro unat_add_small) simp
  moreover have "n \<notin> set q3" using chain_distinct [OF assms(1)] Cons by simp
  ultimately show ?thesis using assms(1) Cons by (simp add: shifted_def)
qed

lemma mqtt_take_request_eq:
  assumes ch: "chain objs tail (q1 @ i # q2)" and nxt: "nxt = next_req (objs ! i)"
    and first: "\<forall>n \<in> set q1. pkt_id (objs ! n) \<noteq> ident" "pkt_id (objs ! i) = ident"
  defines "objs2 \<equiv> shifted (unlinked objs q1 nxt) nxt (timeout_diff (objs ! i))"
  shows "mqtt_take_request objs tail ident =
    Ok (Some i, objs2[i := (objs2 ! i)\<lparr>next_req := None\<rparr>], if q1 = [] then nxt else tail)"
proof -
  have "i \<notin> set q1" using chain_distinct [OF ch] by auto
  then have "unlinked objs q1 nxt ! i = objs ! i" by (rule unlinked_other)
  then show ?thesis
    using take_loop_Some [OF ch first, of None] unfolding objs2_def shifted_def
    by (auto simp: mqtt_take_request_def loop_outcome_def Let_def nxt unlinked_def split: option.splits)
qed

lemma mqtt_take_request_Some:
  assumes inv: "queue_inv objs tail (q1 @ i # q2)"
    and first: "\<forall>n \<in> set q1. pkt_id (objs ! n) \<noteq> ident" "pkt_id (objs ! i) = ident"
  shows "\<exists>objs' tail'. mqtt_take_request objs tail ident = Ok (Some i, objs', tail') \<and>
    queue_inv objs' tail' (q1 @ q2) \<and> same_items objs objs' \<and> next_req (objs' ! i) = None \<and>
    deadlines objs' (q1 @ q2) =
      deadlines objs q1 @ drop (Suc (length q1)) (deadlines objs (q1 @ i # q2)) \<and>
    (\<forall>m. m \<notin> set (q1 @ i # q2) \<longrightarrow> objs' ! m = objs ! m)"
proof -
  let ?d = "timeout_diff (objs ! i)" and ?nxt = "next_req (objs ! i)"
  let ?o1 = "unlinked objs q1 ?nxt"
  let ?o2 = "shifted ?o1 ?nxt ?d"
  let ?o = "?o2[i := (?o2 ! i)\<lparr>next_req := None\<rparr>]" and ?t = "if q1 = [] then ?nxt else tail"
  have len: "length objs = 4" and ch: "chain objs tail (q1 @ i # q2)"
    and S: "sum_list (deltas objs (q1 @ i # q2)) \<le> 30"
    using inv by (simp_all add: queue_inv_def)
  have i: "i \<notin> set q1" "i \<notin> set q2" "i < 4" "set q1 \<inter> set q2 = {}" "distinct q1"
    using chain_distinct [OF ch] queue_inv_in_range [OF inv] by auto
  have q1: "seg objs tail q1 (Some i)" and q2: "chain objs ?nxt q2"
    using ch by (auto simp: seg_append)
  have nxt: "case ?nxt of None \<Rightarrow> True | Some m \<Rightarrow> m \<notin> set q1" "?nxt = None \<or> ?nxt \<in> Some ` set q2"
    using q2 i(4) by (cases q2; auto)+
  have "chain ?o ?t (q1 @ q2)"
    using unlinked_seg [OF q1 i(5), of ?nxt] q2 i by (auto simp: seg_append shifted_keeps unlinked_keeps)
  moreover have d1: "deltas ?o q1 = deltas objs q1"
    using i(1) nxt(1) by (simp add: shifted_keeps unlinked_keeps)
  moreover have d2: "deltas ?o q2 = (case deltas objs q2 of [] \<Rightarrow> [] | x # xs \<Rightarrow> (x + unat ?d) # xs)"
    using shifted_deltas [of ?o1 ?nxt q2 ?d] q2 i S by (simp add: unlinked_keeps)
  moreover have "sum_list (deltas ?o q2) \<le> unat ?d + sum_list (deltas objs q2)"
    unfolding d2 by (simp split: list.split)
  ultimately have "queue_inv ?o ?t (q1 @ q2)"
    using len S by (simp add: queue_inv_def shifted_keeps unlinked_keeps)
  moreover have "same_items objs ?o"
    using same_items_trans [OF unlinked_keeps(2) shifted_keeps(2)] by (rule same_items_update) simp
  moreover have "deadlines ?o (q1 @ q2) =
      deadlines objs q1 @ drop (Suc (length q1)) (deadlines objs (q1 @ i # q2))"
    using d1 d2 by (simp add: deadlines_def sums_append sums_merge)
  moreover have "?o ! m = objs ! m" if "m \<notin> set (q1 @ i # q2)" for m
  proof -
    have "?nxt \<noteq> Some m" using that nxt(2) by auto
    then show ?thesis using that by (simp add: shifted_other unlinked_other)
  qed
  ultimately show ?thesis
    using mqtt_take_request_eq [OF ch refl first] i(3) len by (auto simp: shifted_keeps unlinked_keeps)
qed

section \<open>Deleting, expiring and clearing\<close>

lemma mqtt_delete_request_keeps:
  "length (mqtt_delete_request objs r) = length objs" "same_items objs (mqtt_delete_request objs r)"
  "deltas (mqtt_delete_request objs r) q = deltas objs q"
  "r = Some n \<Longrightarrow> n < length objs \<Longrightarrow> free_slot (mqtt_delete_request objs r) n"
  "r = Some n \<Longrightarrow> n \<notin> set q \<Longrightarrow> seg (mqtt_delete_request objs r) p q r' = seg objs p q r'"
  "r \<noteq> Some m \<Longrightarrow> mqtt_delete_request objs r ! m = objs ! m"
  by (cases r; simp add: mqtt_delete_request_def same_items_update free_slot_def)+

lemma free_slot_delete: "free_slot objs m \<Longrightarrow> free_slot (mqtt_delete_request objs r) m"
  by (cases "r = Some m") (simp_all add: free_slot_def mqtt_delete_request_keeps [unfolded free_slot_def])

text \<open>
  Time passes: the requests that expire are the front of the queue, each is reported once with
  \<open>ERR_TIMEOUT\<close> and freed; none of them was due later, none of the others was due earlier, and
  what is left of their timeouts is exact.
\<close>

definition expires :: "'c req_objs \<Rightarrow> nat list \<Rightarrow> nat \<Rightarrow> nat list \<Rightarrow> nat list \<Rightarrow> 'c req_objs \<Rightarrow> bool" where
  "expires objs q t q1 q2 objs' \<longleftrightarrow>
     q = q1 @ q2 \<and> (\<forall>d \<in> set (deadlines objs q1). d \<le> t) \<and>
     (\<forall>d \<in> set (drop (length q1) (deadlines objs q)). t \<le> d) \<and>
     deadlines objs' q2 = map (\<lambda>d. d - t) (drop (length q1) (deadlines objs q)) \<and>
     (\<forall>n \<in> set q1. free_slot objs' n) \<and> (\<forall>m. m \<notin> set q \<longrightarrow> objs' ! m = objs ! m) \<and>
     same_items objs objs'"

lemma expires_none:
  assumes "length objs = 4" shows "expires objs q 0 [] q objs"
  by (simp add: expires_def deadlines_def)

lemma expires_early:
  assumes "t < unat (timeout_diff (objs ! n))" and "n \<notin> set q" and "n < length objs"
    and "unat d = unat (timeout_diff (objs ! n)) - t"
  shows "expires objs (n # q) t [] (n # q) (objs[n := (objs ! n)\<lparr>timeout_diff := d\<rparr>])"
proof -
  let ?D = "unat (timeout_diff (objs ! n))"
  have "sums (?D - t) ds = map (\<lambda>d. d - t) (sums ?D ds)" for ds
    using sums_from [of "?D - t" ds] sums_from [of ?D ds] assms(1) by (simp add: o_def)
  moreover have "\<forall>d \<in> set (sums ?D ds). t \<le> d" for ds
    using sums_ge [of _ ?D ds] assms(1) by fastforce
  ultimately show ?thesis
    using assms by (simp add: expires_def deadlines_def same_items_update)
qed

lemma expires_step:
  assumes ex: "expires (mqtt_delete_request objs (Some n)) q (t - D) q1 q2 objs'"
    and n: "n \<notin> set q" "n < length objs" and D: "D = unat (timeout_diff (objs ! n))" "D \<le> t"
  shows "expires objs (n # q) t (n # q1) q2 objs'"
proof -
  let ?o = "mqtt_delete_request objs (Some n)"
  have dl: "deadlines ?o q' = sums 0 (deltas objs q')" for q'
    by (simp add: deadlines_def mqtt_delete_request_keeps)
  have up: "deadlines objs (n # q') = D # map (\<lambda>d. D + d) (sums 0 (deltas objs q'))" for q'
    using sums_from [of D] by (simp add: deadlines_def D(1))
  have "objs' ! n = ?o ! n" using ex n(1) by (auto simp: expires_def)
  then have "free_slot objs' n"
    using mqtt_delete_request_keeps(4) [OF refl n(2)] ex
    by (simp add: free_slot_def expires_def same_items_def)
  moreover have "same_items objs objs'"
    using mqtt_delete_request_keeps(2) ex unfolding expires_def by (blast intro: same_items_trans)
  moreover have "objs' ! m = objs ! m" if "m \<notin> set (n # q)" for m
    using ex that mqtt_delete_request_keeps(6) [of "Some n" m objs] by (auto simp: expires_def)
  ultimately show ?thesis
    using ex D(2) unfolding expires_def up dl by (auto simp: drop_map le_diff_conv add.commute)
qed

lemma unat_sub_ucast: "unat d \<le> unat t \<Longrightarrow> unat (t - ucast d) = unat t - unat d" for t :: u8 and d :: u16
proof -
  assume le: "unat d \<le> unat t"
  then have "unat d < 256" using unat_u8_le [of t] by linarith
  then have "unat (ucast d :: u8) = unat d" by (simp add: unsigned_ucast_eq take_bit_eq_mod)
  with le show ?thesis by (simp add: unat_sub word_le_nat_alt)
qed

lemma elapsed_loop_run:
  "chain objs tail q \<Longrightarrow>
   \<exists>objs' q1 q2 tail'. elapsed_loop objs tail t log =
       Some (objs', tail', log @ concat (map (\<lambda>n. notify_req (objs ! n) ERR_TIMEOUT) q1)) \<and>
     chain objs' tail' q2 \<and> expires objs q (unat t) q1 q2 objs'"
proof (induction q arbitrary: objs tail t log)
  case Nil
  then show ?case
    by (simp add: elapsed_loop.simps [of _ None] expires_def deadlines_def)
next
  case (Cons n q)
  let ?D = "timeout_diff (objs ! n)" and ?o = "mqtt_delete_request objs (Some n)"
  have tail: "tail = Some n" "n < length objs" and ch: "chain objs (next_req (objs ! n)) q"
    using Cons.prems by simp_all
  have nq: "n \<notin> set q" using chain_distinct [OF Cons.prems] by simp
  consider "t = 0" | "t > 0" "ucast t \<ge> ?D" | "t > 0" "\<not> ucast t \<ge> ?D" 
    by (cases "t = 0") (auto simp: word_greater_zero_iff)
  then show ?case
  proof cases
    case 1
    then show ?thesis using Cons.prems tail
      by (intro exI [of _ objs] exI [of _ "[]"] exI [of _ "n # q"] exI [of _ "Some n"])
        (simp add: elapsed_loop.simps [of _ "Some n"] expires_def deadlines_def)
  next
    case 2
    then have le: "unat ?D \<le> unat t" by (simp add: word_le_nat_alt)
    have sub: "unat (t - ucast ?D) = unat t - unat ?D" using le by (rule unat_sub_ucast)
    have "chain ?o (next_req (objs ! n)) q" using ch nq by (simp add: mqtt_delete_request_keeps)
    from Cons.IH [OF this, of "t - ucast ?D" "log @ notify_req (objs ! n) ERR_TIMEOUT"]
    obtain objs' q1 q2 tail' where IH:
      "elapsed_loop ?o (next_req (objs ! n)) (t - ucast ?D) (log @ notify_req (objs ! n) ERR_TIMEOUT) =
         Some (objs', tail', (log @ notify_req (objs ! n) ERR_TIMEOUT) @
           concat (map (\<lambda>n. notify_req (?o ! n) ERR_TIMEOUT) q1))"
      "chain objs' tail' q2" "expires ?o q (unat t - unat ?D) q1 q2 objs'"
      unfolding sub by blast
    have "?o ! m = objs ! m" if "m \<in> set q1" for m
    proof -
      have "m \<in> set q" using that IH(3) by (auto simp: expires_def)
      then have "Some n \<noteq> Some m" using nq by auto
      then show ?thesis by (rule mqtt_delete_request_keeps)
    qed
    then have log: "concat (map (\<lambda>n. notify_req (?o ! n) ERR_TIMEOUT) q1) =
        concat (map (\<lambda>n. notify_req (objs ! n) ERR_TIMEOUT) q1)"
      by (intro arg_cong [where f = concat] map_cong) simp_all
    have "expires objs (n # q) (unat t) (n # q1) q2 objs'"
      using expires_step [OF IH(3) nq tail(2) refl le] .
    then show ?thesis
      using IH(1,2) 2 tail unfolding log
      by (intro exI [of _ objs'] exI [of _ "n # q1"] exI [of _ q2] exI [of _ tail'])
        (simp add: elapsed_loop.simps [of _ "Some n"])
  next
    case 3
    then have lt: "unat t < unat ?D" by (simp add: word_le_nat_alt)
    then have "unat (?D - ucast t) = unat ?D - unat t" by (simp add: unat_sub word_le_nat_alt)
    note expires_early [OF lt nq tail(2) this]
    with 3 Cons.prems tail show ?thesis
      by (intro exI [of _ "objs[n := (objs ! n)\<lparr>timeout_diff := ?D - ucast t\<rparr>]"] exI [of _ "[]"]
          exI [of _ "n # q"] exI [of _ "Some n"])
        (simp add: elapsed_loop.simps [of _ "Some n"] seg_update_fields)
  qed
qed

lemma deadlines_bound:
  "(\<forall>d \<in> set (deadlines objs q). d \<le> k) \<longleftrightarrow> sum_list (deltas objs q) \<le> k"
proof
  assume "\<forall>d \<in> set (deadlines objs q). d \<le> k"
  moreover have "q \<noteq> [] \<Longrightarrow> sum_list (deltas objs q) \<in> set (deadlines objs q)"
    using sum_le_last [of "deltas objs q" 0] last_in_set [of "deadlines objs q"]
    by (auto simp: deadlines_def length_greater_0_conv [symmetric] simp del: length_greater_0_conv)
  ultimately show "sum_list (deltas objs q) \<le> k" by (cases "q = []") auto
next
  have "d \<in> set (sums t ds) \<Longrightarrow> d \<le> t + sum_list ds" for d t ds
    by (induction ds arbitrary: t) fastforce+
  moreover assume "sum_list (deltas objs q) \<le> k"
  ultimately show "\<forall>d \<in> set (deadlines objs q). d \<le> k" by (fastforce simp: deadlines_def)
qed

lemma mqtt_request_time_elapsed_run:
  assumes inv: "queue_inv objs tail q"
  shows "\<exists>objs' q1 q2 tail'. mqtt_request_time_elapsed objs tail t =
       Ok (objs', tail', concat (map (\<lambda>n. notify_req (objs ! n) ERR_TIMEOUT) q1)) \<and>
     queue_inv objs' tail' q2 \<and> expires objs q (unat t) q1 q2 objs'"
proof -
  have ch: "chain objs tail q" and len: "length objs = 4"
    and dl: "\<forall>d \<in> set (deadlines objs q). d \<le> 30"
    using inv unfolding deadlines_bound by (simp_all add: queue_inv_def)
  from elapsed_loop_run [OF ch, of t "[]"] obtain objs' q1 q2 tail' where run:
    "elapsed_loop objs tail t [] = Some (objs', tail', concat (map (\<lambda>n. notify_req (objs ! n) ERR_TIMEOUT) q1))"
    "chain objs' tail' q2" and ex: "expires objs q (unat t) q1 q2 objs'"
    by (metis append_Nil)
  have "\<forall>d \<in> set (deadlines objs' q2). d \<le> 30"
    using ex dl by (auto simp: expires_def dest!: in_set_dropD)
  then have "queue_inv objs' tail' q2"
    using run(2) ex len unfolding deadlines_bound by (simp add: queue_inv_def expires_def same_items_def)
  with run(1) ex show ?thesis
    by (intro exI [of _ objs'] exI [of _ q1] exI [of _ q2] exI [of _ tail'])
      (simp add: mqtt_request_time_elapsed_def loop_outcome_def)
qed

lemma clear_loop_run:
  "chain objs p q \<Longrightarrow>
   \<exists>objs'. clear_loop objs p = Some objs' \<and> (\<forall>n \<in> set q. free_slot objs' n) \<and>
     (\<forall>m. m \<notin> set q \<longrightarrow> objs' ! m = objs ! m) \<and> same_items objs objs'"
proof (induction q arbitrary: objs p)
  case Nil
  then show ?case by (simp add: clear_loop.simps [of _ None])
next
  case (Cons n q)
  let ?o = "mqtt_delete_request objs (Some n)"
  have nq: "n \<notin> set q" using chain_distinct [OF Cons.prems] by simp
  then have "chain ?o (next_req (objs ! n)) q" using Cons.prems by (simp add: mqtt_delete_request_keeps)
  from Cons.IH [OF this] obtain objs' where IH: "clear_loop ?o (next_req (objs ! n)) = Some objs'"
    "\<forall>n \<in> set q. free_slot objs' n" "\<forall>m. m \<notin> set q \<longrightarrow> objs' ! m = ?o ! m" "same_items ?o objs'"
    by blast
  have "free_slot objs' n"
    using IH(3,4) nq mqtt_delete_request_keeps(4) [OF refl, of n objs] Cons.prems
    by (simp add: free_slot_def same_items_def)
  moreover have "same_items objs objs'"
    using mqtt_delete_request_keeps(2) IH(4) by (rule same_items_trans)
  moreover have "objs' ! m = objs ! m" if "m \<notin> set (n # q)" for m
    using IH(3) that mqtt_delete_request_keeps(6) [of "Some n" m objs] by auto
  ultimately show ?case
    using IH(1,2) Cons.prems by (intro exI [of _ objs']) (simp add: clear_loop.simps [of _ "Some n"])
qed

lemma mqtt_clear_requests_run:
  assumes "queue_inv objs tail q"
  shows "\<exists>objs'. mqtt_clear_requests objs tail = Ok (objs', None) \<and> queue_inv objs' None [] \<and>
    (\<forall>n \<in> set q. free_slot objs' n) \<and> (\<forall>m. m \<notin> set q \<longrightarrow> objs' ! m = objs ! m) \<and>
    same_items objs objs'"
proof -
  have "chain objs tail q" "length objs = 4" using assms by (simp_all add: queue_inv_def)
  with clear_loop_run [of objs tail q] show ?thesis
    by (auto simp: mqtt_clear_requests_def loop_outcome_def queue_inv_def same_items_def)
qed

lemma mqtt_init_requests_run:
  assumes "length objs = 4"
  shows "queue_inv (mqtt_init_requests objs) None []" "\<forall>n < 4. free_slot (mqtt_init_requests objs) n"
proof -
  have "mqtt_init_requests objs =
      objs[0 := (objs ! 0)\<lparr>next_req := Some 0\<rparr>, 1 := (objs ! 1)\<lparr>next_req := Some 1\<rparr>,
           2 := (objs ! 2)\<lparr>next_req := Some 2\<rparr>, 3 := (objs ! 3)\<lparr>next_req := Some 3\<rparr>]"
    by (simp add: mqtt_init_requests_def MQTT_REQ_MAX_IN_FLIGHT_def upt_rec numeral_2_eq_2 numeral_3_eq_3)
  with assms show "queue_inv (mqtt_init_requests objs) None []"
    "\<forall>n < 4. free_slot (mqtt_init_requests objs) n"
    by (auto simp: queue_inv_def free_slot_def nth_list_update less_Suc_eq numeral_eq_Suc)
qed

end
