(* ===== verification/LwipTimeouts.thy ===== *)
theory LwipTimeouts
  imports Prelude
begin

text \<open>
  The timeouts of lwIP (\<open>src/lwip-2.0.3/src/core/timeouts.c\<close>), from which the MQTT client
  takes its cyclic timer: a delta list of at most eight entries (the pool
  \<open>MEMP_SYS_TIMEOUT\<close>), each with the milliseconds between the entry before it and itself.
  The nodes are not shared, so the linked list is a list here. The clock \<open>sys_now\<close> is an
  argument. The lemmas relate the delta list to the absolute times at which its entries are due.
\<close>

section \<open>The list of timeouts\<close>

definition MEMP_NUM_SYS_TIMEOUT :: nat where
  "MEMP_NUM_SYS_TIMEOUT = 8"

record 'h sys_timeo =
  time :: u32
  h :: 'h
  t_arg :: u32

record 'h timeouts =
  next_timeout :: "'h sys_timeo list"
  timeouts_last_time :: u32

text \<open>
  The search for the place of a new entry. \<open>first\<close> is the delay of the head of the whole list.
\<close>

fun timeout_insert ::
  "u32 \<Rightarrow> u32 \<Rightarrow> 'h sys_timeo \<Rightarrow> 'h sys_timeo list \<Rightarrow> 'h sys_timeo list" where
  "timeout_insert msecs first new [] = []"
| "timeout_insert msecs first new [t] =
     (let new = new\<lparr>time := time new - time t\<rparr> in
      if time new > msecs then [t, new\<lparr>time := msecs + first\<rparr>] else [t, new])"
| "timeout_insert msecs first new (t # n # ts) =
     (let new = new\<lparr>time := time new - time t\<rparr> in
      if time n > time new then t # new # n\<lparr>time := time n - time new\<rparr> # ts
      else t # timeout_insert msecs first new (n # ts))"

definition sys_timeout :: "u32 \<Rightarrow> u32 \<Rightarrow> 'h \<Rightarrow> u32 \<Rightarrow> 'h timeouts \<Rightarrow> 'h timeouts" where
  "sys_timeout now msecs handler a T =
     (if length (next_timeout T) \<ge> MEMP_NUM_SYS_TIMEOUT then T
      else case next_timeout T of
        [] \<Rightarrow> T\<lparr>timeouts_last_time := now,
               next_timeout := [\<lparr>time = msecs + 0, h = handler, t_arg = a\<rparr>]\<rparr>
      | t # ts \<Rightarrow>
          let diff = now - timeouts_last_time T;
              new = \<lparr>time = msecs + diff, h = handler, t_arg = a\<rparr> in
          if time t > msecs then T\<lparr>next_timeout := new # t\<lparr>time := time t - msecs\<rparr> # ts\<rparr>
          else T\<lparr>next_timeout := timeout_insert msecs (time t) new (t # ts)\<rparr>)"

fun untimeout_list :: "'h \<Rightarrow> u32 \<Rightarrow> 'h sys_timeo list \<Rightarrow> 'h sys_timeo list" where
  "untimeout_list handler a [] = []"
| "untimeout_list handler a (t # ts) =
     (if h t = handler \<and> t_arg t = a
      then (case ts of [] \<Rightarrow> [] | n # ns \<Rightarrow> n\<lparr>time := time n + time t\<rparr> # ns)
      else t # untimeout_list handler a ts)"

definition sys_untimeout :: "'h \<Rightarrow> u32 \<Rightarrow> 'h timeouts \<Rightarrow> 'h timeouts" where
  "sys_untimeout handler a T = T\<lparr>next_timeout := untimeout_list handler a (next_timeout T)\<rparr>"

text \<open>
  \<open>sys_check_timeouts\<close> calls the handlers that are due; \<open>call\<close> stands for them and may change
  the list. A handler that keeps arming a timeout of 0 keeps the loop from ending (\<open>None\<close>).
\<close>

partial_function (option) check_loop ::
  "('h \<Rightarrow> u32 \<Rightarrow> 's \<times> 'h timeouts \<Rightarrow> ('s \<times> 'h timeouts) outcome) \<Rightarrow> u32 \<Rightarrow> 's \<Rightarrow> 'h timeouts \<Rightarrow>
   ('s \<times> 'h timeouts) outcome option" where
  "check_loop call diff s T =
     (case next_timeout T of
        [] \<Rightarrow> Some (Ok (s, T))
      | t # ts \<Rightarrow>
          if time t \<le> diff then
            (case call (h t) (t_arg t)
                    (s, T\<lparr>timeouts_last_time := timeouts_last_time T + time t, next_timeout := ts\<rparr>) of
               Halt x \<Rightarrow> Some (Halt x)
             | Ok sT \<Rightarrow> check_loop call (diff - time t) (fst sT) (snd sT))
          else Some (Ok (s, T)))"

definition sys_check_timeouts ::
  "('h \<Rightarrow> u32 \<Rightarrow> 's \<times> 'h timeouts \<Rightarrow> ('s \<times> 'h timeouts) outcome) \<Rightarrow> u32 \<Rightarrow> 's \<Rightarrow> 'h timeouts \<Rightarrow>
   ('s \<times> 'h timeouts) outcome option" where
  "sys_check_timeouts call now s T =
     (if next_timeout T = [] then Some (Ok (s, T))
      else check_loop call (now - timeouts_last_time T) s T)"

definition sys_restart_timeouts :: "u32 \<Rightarrow> 'h timeouts \<Rightarrow> 'h timeouts" where
  "sys_restart_timeouts now T = T\<lparr>timeouts_last_time := now\<rparr>"

definition sys_timeouts_sleeptime :: "u32 \<Rightarrow> 'h timeouts \<Rightarrow> u32" where
  "sys_timeouts_sleeptime now T =
     (case next_timeout T of
        [] \<Rightarrow> 0xffffffff
      | t # ts \<Rightarrow>
          let diff = now - timeouts_last_time T in
          if diff > time t then 0 else time t - diff)"

section \<open>Due times\<close>

text \<open>
  The entries with the times at which they are due, counted from \<open>timeouts_last_time\<close>.
\<close>

definition delays :: "'h sys_timeo list \<Rightarrow> nat list" where
  "delays ts = map (\<lambda>t. unat (time t)) ts"

definition due_from :: "nat \<Rightarrow> 'h sys_timeo list \<Rightarrow> (nat \<times> 'h \<times> u32) list" where
  "due_from k ts = zip (sums k (delays ts)) (map (\<lambda>t. (h t, t_arg t)) ts)"

definition due :: "'h timeouts \<Rightarrow> (nat \<times> 'h \<times> u32) list" where
  "due T = due_from 0 (next_timeout T)"

lemma due_from_Nil [simp]: "due_from k [] = []"
  by (simp add: due_from_def delays_def)

lemma due_from_Cons [simp]:
  "due_from k (t # ts) = (k + unat (time t), h t, t_arg t) # due_from (k + unat (time t)) ts"
  by (simp add: due_from_def delays_def)

lemma length_timeout_insert: "ts \<noteq> [] \<Longrightarrow> length (timeout_insert msecs first new ts) = Suc (length ts)"
  by (induction msecs first new ts rule: timeout_insert.induct) (auto simp: Let_def)

lemma length_untimeout: "length (untimeout_list handler a ts) \<le> length ts"
  by (induction ts) (auto split: list.split)

text \<open>The list never holds more entries than the pool has.\<close>

definition timeouts_inv :: "'h timeouts \<Rightarrow> bool" where
  "timeouts_inv T \<longleftrightarrow> length (next_timeout T) \<le> 8"

lemma timeouts_inv_sys_timeout [simp, intro]:
  "timeouts_inv T \<Longrightarrow> timeouts_inv (sys_timeout now msecs handler a T)"
  by (auto simp: timeouts_inv_def sys_timeout_def MEMP_NUM_SYS_TIMEOUT_def Let_def
      length_timeout_insert split: list.split)

lemma timeouts_inv_sys_untimeout [simp, intro]:
  "timeouts_inv T \<Longrightarrow> timeouts_inv (sys_untimeout handler a T)"
  using length_untimeout [of handler a "next_timeout T"]
  by (simp add: timeouts_inv_def sys_untimeout_def)

text \<open>How often a handler is armed.\<close>

definition times_armed :: "'h \<Rightarrow> u32 \<Rightarrow> 'h timeouts \<Rightarrow> nat" where
  "times_armed handler a T = length (filter (\<lambda>t. h t = handler \<and> t_arg t = a) (next_timeout T))"

lemma armed_sys_untimeout [simp]: "times_armed handler a (sys_untimeout handler a T) = times_armed handler a T - 1"
proof -
  have "length (filter (\<lambda>t. h t = handler \<and> t_arg t = a) (untimeout_list handler a ts)) =
      length (filter (\<lambda>t. h t = handler \<and> t_arg t = a) ts) - 1" for ts :: "'a sys_timeo list"
    by (induction ts) (auto split: list.split)
  then show ?thesis by (simp add: times_armed_def sys_untimeout_def)
qed

lemma armed_timeout_insert:
  "ts \<noteq> [] \<Longrightarrow> length (filter (\<lambda>t. h t = handler \<and> t_arg t = a) (timeout_insert msecs first new ts)) =
     length (filter (\<lambda>t. h t = handler \<and> t_arg t = a) (new # ts))"
  by (induction msecs first new ts rule: timeout_insert.induct) (auto simp: Let_def)

lemma armed_sys_timeout: "times_armed handler a (sys_timeout now msecs handler a T) \<le> times_armed handler a T + 1"
  by (auto simp: times_armed_def sys_timeout_def Let_def armed_timeout_insert split: list.split)

lemma armed_sys_timeout_room:
  "length (next_timeout T) < 8 \<Longrightarrow>
   times_armed handler a (sys_timeout now msecs handler a T) = times_armed handler a T + 1"
  by (auto simp: times_armed_def sys_timeout_def MEMP_NUM_SYS_TIMEOUT_def Let_def armed_timeout_insert split: list.split)

section \<open>Cancelling\<close>

fun remove_due :: "'h \<Rightarrow> u32 \<Rightarrow> (nat \<times> 'h \<times> u32) list \<Rightarrow> (nat \<times> 'h \<times> u32) list" where
  "remove_due handler a [] = []"
| "remove_due handler a (x # xs) = (if snd x = (handler, a) then xs else x # remove_due handler a xs)"

lemma untimeout_list_due:
  "k + sum_list (delays ts) < 2 ^ 32 \<Longrightarrow>
   due_from k (untimeout_list handler a ts) = remove_due handler a (due_from k ts)"
proof (induction ts arbitrary: k)
  case Nil
  then show ?case by simp
next
  case (Cons t ts)
  show ?case
  proof (cases "h t = handler \<and> t_arg t = a")
    case True
    have "unat (time n + time t) = unat (time n) + unat (time t)" if "ts = n # ns" for n ns
      using Cons.prems that by (intro unat_add_small) (simp add: delays_def)
    with True show ?thesis by (auto simp: ac_simps split: list.split)
  next
    case False
    with Cons show ?thesis by (auto simp: delays_def)
  qed
qed

section \<open>Arming\<close>

fun insert_due :: "nat \<Rightarrow> 'h \<times> u32 \<Rightarrow> (nat \<times> 'h \<times> u32) list \<Rightarrow> (nat \<times> 'h \<times> u32) list" where
  "insert_due m x [] = [(m, x)]"
| "insert_due m x (y # ys) = (if fst y > m then (m, x) # y # ys else y # insert_due m x ys)"

lemma timeout_insert_due:
  "ts \<noteq> [] \<Longrightarrow> k + unat (time (hd ts)) \<le> m \<Longrightarrow> unat (time new) = m - k \<Longrightarrow> m \<le> unat msecs \<Longrightarrow>
   due_from k (timeout_insert msecs first new ts) = insert_due m (h new, t_arg new) (due_from k ts)"
proof (induction msecs first new ts arbitrary: k rule: timeout_insert.induct)
  case (1 msecs first new)
  then show ?case by simp
next
  case (2 msecs first new t)
  then have "unat (time new - time t) = m - (k + unat (time t))"
    by (simp add: unat_sub word_le_nat_alt)
  moreover have "\<not> unat msecs < m - (k + unat (time t))" using 2(4) by linarith
  ultimately show ?case using 2 by (simp add: Let_def word_less_nat_alt)
next
  case (3 msecs first new t n ts)
  let ?new = "new\<lparr>time := time new - time t\<rparr>"
  have new: "unat (time ?new) = m - (k + unat (time t))"
    using 3(3,4) by (simp add: unat_sub word_le_nat_alt)
  show ?case
  proof (cases "time n > time ?new")
    case True
    then have "unat (time n - time ?new) = unat (time n) - unat (time ?new)"
      by (simp add: unat_sub word_le_nat_alt word_less_nat_alt)
    moreover have "m < k + unat (time t) + unat (time n)"
      using True new 3(3) by (simp add: word_less_nat_alt)
    ultimately show ?thesis using True new 3(3) by (simp add: Let_def word_less_nat_alt ac_simps)
  next
    case False
    then have "due_from (k + unat (time t)) (timeout_insert msecs first ?new (n # ts)) =
        insert_due m (h ?new, t_arg ?new) (due_from (k + unat (time t)) (n # ts))"
      using new 3(3,5) by (intro 3(1)) (auto simp: word_less_nat_alt not_less)
    with False new 3(3) show ?thesis by (simp add: Let_def word_less_nat_alt not_less)
  qed
qed

lemma insert_due_later: "insert_due m x (y # ys) = (m, x) # y # ys" if "fst y > m"
  using that by simp

text \<open>Armed at the moment the list was last brought up to date, an entry is due in \<open>msecs\<close>.\<close>

lemma sys_timeout_due:
  assumes now: "next_timeout T = [] \<or> now = timeouts_last_time T" and room: "length (next_timeout T) < 8"
  shows "due (sys_timeout now msecs handler a T) = insert_due (unat msecs) (handler, a) (due T)"
proof (cases "next_timeout T")
  case Nil
  then show ?thesis by (simp add: due_def sys_timeout_def MEMP_NUM_SYS_TIMEOUT_def)
next
  case (Cons t ts)
  show ?thesis
  proof (cases "time t > msecs")
    case True
    then have "unat (time t - msecs) = unat (time t) - unat msecs"
      by (simp add: unat_sub word_le_nat_alt word_less_nat_alt)
    with True Cons now room show ?thesis
      by (simp add: due_def sys_timeout_def MEMP_NUM_SYS_TIMEOUT_def Let_def word_less_nat_alt)
  next
    case False
    let ?new = "\<lparr>time = msecs, h = handler, t_arg = a\<rparr>"
    have "due_from 0 (timeout_insert msecs (time t) ?new (t # ts)) =
        insert_due (unat msecs) (h ?new, t_arg ?new) (due_from 0 (t # ts))"
      using False by (intro timeout_insert_due) (auto simp: word_less_nat_alt not_less)
    with False Cons now room show ?thesis
      by (simp add: due_def sys_timeout_def MEMP_NUM_SYS_TIMEOUT_def Let_def)
  qed
qed

text \<open>
  Armed later, in front of an entry that is due after \<open>msecs\<close>, it delays all the others by the
  time since the list was brought up to date.
\<close>

lemma due_from_shift: "due_from (k + j) ts = map (\<lambda>(d, x). (d + j, x)) (due_from k ts)"
proof (induction ts arbitrary: k)
  case (Cons t ts)
  from Cons.IH [of "k + unat (time t)"] show ?case by (simp add: ac_simps)
qed simp

lemma sys_timeout_delays:
  assumes "next_timeout T = t # ts" and "length (next_timeout T) < 8" and "time t > msecs"
    and diff: "diff = now - timeouts_last_time T" and small: "unat msecs + unat diff < 2 ^ 32"
  shows "due (sys_timeout now msecs handler a T) =
    (unat msecs + unat diff, handler, a) # map (\<lambda>(d, x). (d + unat diff, x)) (due T)"
proof -
  have "unat (time t - msecs) = unat (time t) - unat msecs" "unat msecs \<le> unat (time t)"
    using assms(3) by (simp_all add: unat_sub word_le_nat_alt word_less_nat_alt)
  moreover have "unat (msecs + diff) = unat msecs + unat diff"
    using small by (intro unat_add_small) simp
  ultimately show ?thesis
    using assms(1-4) due_from_shift [of "unat (time t)" "unat diff" ts]
    by (simp add: due_def sys_timeout_def MEMP_NUM_SYS_TIMEOUT_def Let_def ac_simps)
qed

section \<open>Running\<close>

text \<open>
  When the handlers arm nothing, the entries that are due are called in the order of their
  times, each once, and the others keep their times.
\<close>

fun called :: "nat \<Rightarrow> 'h sys_timeo list \<Rightarrow> 'h sys_timeo list" where
  "called k [] = []"
| "called k (t # ts) = (if unat (time t) \<le> k then t # called (k - unat (time t)) ts else [])"

lemma check_loop_quiet:
  assumes quiet: "\<And>hd a s T. call hd a (s, T) = Ok (f hd a s, T)"
  shows "\<exists>T'. check_loop call diff s T =
      Some (Ok (fold (\<lambda>t. f (h t) (t_arg t)) (called (unat diff) (next_timeout T)) s, T')) \<and>
    next_timeout T = called (unat diff) (next_timeout T) @ next_timeout T' \<and>
    timeouts_last_time T' =
      timeouts_last_time T + word_of_nat (sum_list (delays (called (unat diff) (next_timeout T))))"
proof (induction "next_timeout T" arbitrary: diff s T)
  case Nil
  then show ?case by (simp add: check_loop.simps delays_def Nil [symmetric])
next
  case (Cons t ts)
  let ?T = "T\<lparr>timeouts_last_time := timeouts_last_time T + time t, next_timeout := ts\<rparr>"
  show ?case
  proof (cases "time t \<le> diff")
    case True
    then have "unat (diff - time t) = unat diff - unat (time t)" by (simp add: unat_sub word_le_nat_alt)
    with Cons.hyps(1) [of ?T "diff - time t" "f (h t) (t_arg t) s"] True show ?thesis
      by (auto simp: check_loop.simps [of _ diff] quiet Cons.hyps(2) [symmetric] delays_def word_le_nat_alt add.assoc)
  next
    case False
    then show ?thesis
      by (simp add: check_loop.simps [of _ diff] Cons.hyps(2) [symmetric] delays_def word_le_nat_alt)
  qed
qed

section \<open>The host of the timeouts\<close>

text \<open>
  The contract between \<open>sys_check_timeouts\<close> and the program whose handlers it calls. \<open>inv\<close> is the
  program's invariant while \<open>diff\<close> milliseconds are still to be worked off. A handler that is due
  keeps it, and puts no entry in front that is due at once; then the loop ends.
\<close>

definition zeros :: "'h sys_timeo list \<Rightarrow> nat" where
  "zeros ts = length (takeWhile (\<lambda>t. time t = 0) ts)"

lemma zeros_simps [simp]:
  "zeros [] = 0" "zeros (t # ts) = (if time t = 0 then Suc (zeros ts) else 0)"
  by (simp_all add: zeros_def)

locale timeout_host =
  fixes call :: "'h \<Rightarrow> u32 \<Rightarrow> 's \<times> 'h timeouts \<Rightarrow> ('s \<times> 'h timeouts) outcome"
    and inv :: "u32 \<Rightarrow> 's \<times> 'h timeouts \<Rightarrow> bool"
  assumes call_law: "inv diff (s, T) \<Longrightarrow> next_timeout T = t # ts \<Longrightarrow> time t \<le> diff \<Longrightarrow>
    \<exists>s' T'. call (h t) (t_arg t) (s, T\<lparr>timeouts_last_time := timeouts_last_time T + time t, next_timeout := ts\<rparr>) =
        Ok (s', T') \<and> inv (diff - time t) (s', T') \<and> zeros (next_timeout T') \<le> zeros ts"
begin

lemma check_loop_ends:
  "inv diff (s, T) \<Longrightarrow> \<exists>diff' s' T'. check_loop call diff s T = Some (Ok (s', T')) \<and> inv diff' (s', T')"
proof (induction "(diff, zeros (next_timeout T))" arbitrary: diff s T
    rule: wf_induct_rule [OF wf_lex_prod [OF wf_measure [of unat] wf_less_than]])
  case (1 diff T s)
  show ?case
  proof (cases "next_timeout T")
    case Nil
    with 1(2) show ?thesis by (auto simp: check_loop.simps)
  next
    case (Cons t ts)
    let ?T = "T\<lparr>timeouts_last_time := timeouts_last_time T + time t, next_timeout := ts\<rparr>"
    show ?thesis
    proof (cases "time t \<le> diff")
      case False
      with 1(2) Cons show ?thesis by (auto simp: check_loop.simps)
    next
      case True
      from call_law [OF 1(2) Cons True] obtain s' T' where
        c: "call (h t) (t_arg t) (s, ?T) = Ok (s', T')" "inv (diff - time t) (s', T')" "zeros (next_timeout T') \<le> zeros ts"
        by blast
      have "unat (diff - time t) < unat diff \<or> diff - time t = diff \<and> zeros (next_timeout T') < zeros (next_timeout T)"
      proof (cases "time t = 0")
        case True
        then show ?thesis using c(3) Cons by simp
      next
        case False
        then have "0 < unat (time t)" by (simp add: unat_gt_0)
        then show ?thesis using \<open>time t \<le> diff\<close> by (simp add: unat_sub word_le_nat_alt)
      qed
      from 1(1) [OF _ c(2)] this obtain diff' s'' T'' where
        "check_loop call (diff - time t) s' T' = Some (Ok (s'', T''))" "inv diff' (s'', T'')" by auto
      then show ?thesis using True Cons c(1) by (auto simp: check_loop.simps [of call diff])
    qed
  qed
qed

end

text \<open>Arming a timeout puts no entry that is due at once in front, unless the 32-bit time wraps.\<close>

lemma zeros_timeout_insert:
  "0 < time new \<Longrightarrow> ts \<noteq> [] \<Longrightarrow> time (hd ts) \<le> time new \<Longrightarrow> msecs + first \<noteq> 0 \<Longrightarrow>
   zeros (timeout_insert msecs first new ts) \<le> zeros ts"
  by (induction msecs first new ts rule: timeout_insert.induct) (auto simp: Let_def not_less)

lemma zeros_sys_timeout:
  assumes ms: "0 < msecs" "unat msecs < 2 ^ 31" and small: "unat (t0 - timeouts_last_time T) + unat msecs < 2 ^ 32"
  shows "zeros (next_timeout (sys_timeout t0 msecs handler a T)) \<le> zeros (next_timeout T)"
proof (cases "next_timeout T")
  case Nil
  then show ?thesis using ms(1) by (simp add: sys_timeout_def MEMP_NUM_SYS_TIMEOUT_def word_greater_zero_iff)
next
  case (Cons t ts)
  define d where "d = t0 - timeouts_last_time T"
  let ?m = "msecs + d"
  have m: "unat ?m = unat msecs + unat d"
    using small unfolding d_def [symmetric] by (intro unat_add_small) simp
  then have "0 < ?m" using ms(1) by (simp add: word_less_nat_alt)
  moreover have "time t \<le> ?m" "msecs + time t \<noteq> 0" if "\<not> msecs < time t"
  proof -
    have le: "unat (time t) \<le> unat msecs" using that by (simp add: word_less_nat_alt)
    then show "time t \<le> ?m" using m by (simp add: word_le_nat_alt)
    have "unat (msecs + time t) = unat msecs + unat (time t)" using ms(2) le by (intro unat_add_small) simp
    then show "msecs + time t \<noteq> 0" using ms(1) by (auto simp: word_less_nat_alt)
  qed
  ultimately have "zeros (timeout_insert msecs (time t) \<lparr>time = ?m, h = handler, t_arg = a\<rparr> (t # ts)) \<le> zeros (t # ts)"
    if "\<not> msecs < time t" using that by (intro zeros_timeout_insert) simp_all
  note ins = this
  show ?thesis
  proof (cases "msecs < time t")
    case True
    then have "next_timeout (sys_timeout t0 msecs handler a T) \<in> {t # ts, \<lparr>time = ?m, h = handler, t_arg = a\<rparr> # t\<lparr>time := time t - msecs\<rparr> # ts}"
      using Cons by (simp add: sys_timeout_def Let_def flip: d_def)
    then show ?thesis using Cons \<open>0 < ?m\<close> by auto
  next
    case False
    then have "next_timeout (sys_timeout t0 msecs handler a T) \<in>
        {t # ts, timeout_insert msecs (time t) \<lparr>time = ?m, h = handler, t_arg = a\<rparr> (t # ts)}"
      using Cons by (simp add: sys_timeout_def Let_def flip: d_def)
    then show ?thesis using Cons ins [OF False] by (elim insertE) simp_all
  qed
qed

end
