(* ===== verification/MqttClient.thy ===== *)
theory MqttClient
  imports MqttRequests LwipTimeouts
begin

unbundle bit_operations_syntax

text \<open>
  The state of the MQTT client (\<open>src/lwip-2.0.3/src/include/lwip/apps/mqtt.h\<close>), its public
  functions (\<open>src/user/mqtt/mqtt.c\<close>, "Public API") and the application that uses it
  (\<open>src/user/MQTTClient.c\<close>). A function pointer is a constructor of a datatype whose values
  are the functions of the application, or \<open>None\<close> for NULL. The world holds the one client
  object, the state of TCP, lwIP's timeouts, the callbacks set on each connection, the
  application's variables and what it prints.

  \<open>LWIP_ASSERT\<close> prints and goes on in this port (\<open>arch/cc.h\<close>), so it has no effect here;
  \<open>LWIP_ERROR\<close> returns.
\<close>

section \<open>Protocol constants\<close>

datatype conn_state_t = TCP_DISCONNECTED | TCP_CONNECTING | MQTT_CONNECTING | MQTT_CONNECTED

datatype mqtt_message_type = MQTT_MSG_TYPE_CONNECT | MQTT_MSG_TYPE_CONNACK | MQTT_MSG_TYPE_PUBLISH
  | MQTT_MSG_TYPE_PUBACK | MQTT_MSG_TYPE_PUBREC | MQTT_MSG_TYPE_PUBREL | MQTT_MSG_TYPE_PUBCOMP
  | MQTT_MSG_TYPE_SUBSCRIBE | MQTT_MSG_TYPE_SUBACK | MQTT_MSG_TYPE_UNSUBSCRIBE
  | MQTT_MSG_TYPE_UNSUBACK | MQTT_MSG_TYPE_PINGREQ | MQTT_MSG_TYPE_PINGRESP
  | MQTT_MSG_TYPE_DISCONNECT

primrec msg_code :: "mqtt_message_type \<Rightarrow> u8" where
  "msg_code MQTT_MSG_TYPE_CONNECT = 1"
| "msg_code MQTT_MSG_TYPE_CONNACK = 2"
| "msg_code MQTT_MSG_TYPE_PUBLISH = 3"
| "msg_code MQTT_MSG_TYPE_PUBACK = 4"
| "msg_code MQTT_MSG_TYPE_PUBREC = 5"
| "msg_code MQTT_MSG_TYPE_PUBREL = 6"
| "msg_code MQTT_MSG_TYPE_PUBCOMP = 7"
| "msg_code MQTT_MSG_TYPE_SUBSCRIBE = 8"
| "msg_code MQTT_MSG_TYPE_SUBACK = 9"
| "msg_code MQTT_MSG_TYPE_UNSUBSCRIBE = 10"
| "msg_code MQTT_MSG_TYPE_UNSUBACK = 11"
| "msg_code MQTT_MSG_TYPE_PINGREQ = 12"
| "msg_code MQTT_MSG_TYPE_PINGRESP = 13"
| "msg_code MQTT_MSG_TYPE_DISCONNECT = 14"

definition MQTT_CTL_PACKET_TYPE :: "u8 \<Rightarrow> u8" where
  "MQTT_CTL_PACKET_TYPE fixed_hdr_byte0 = drop_bit 4 (fixed_hdr_byte0 AND 0xf0)"

definition MQTT_CTL_PACKET_QOS :: "u8 \<Rightarrow> u8" where
  "MQTT_CTL_PACKET_QOS fixed_hdr_byte0 = drop_bit 1 (fixed_hdr_byte0 AND 0x6)"

definition MQTT_CONNECT_FLAG_WILL_RETAIN :: u8 where "MQTT_CONNECT_FLAG_WILL_RETAIN = push_bit 5 1"
definition MQTT_CONNECT_FLAG_WILL :: u8 where "MQTT_CONNECT_FLAG_WILL = push_bit 2 1"
definition MQTT_CONNECT_FLAG_CLEAN_SESSION :: u8 where "MQTT_CONNECT_FLAG_CLEAN_SESSION = push_bit 1 1"

text \<open>Any byte a server sends is converted to the enumeration, so a status is a number.\<close>

type_synonym mqtt_connection_status_t = nat

definition MQTT_CONNECT_ACCEPTED :: mqtt_connection_status_t where "MQTT_CONNECT_ACCEPTED = 0"
definition MQTT_CONNECT_DISCONNECTED :: mqtt_connection_status_t where "MQTT_CONNECT_DISCONNECTED = 256"
definition MQTT_CONNECT_TIMEOUT :: mqtt_connection_status_t where "MQTT_CONNECT_TIMEOUT = 257"

definition MQTT_PORT :: u16 where "MQTT_PORT = 1883"
definition MQTT_VAR_HEADER_BUFFER_LEN :: nat where "MQTT_VAR_HEADER_BUFFER_LEN = 128"
definition MQTT_CYCLIC_TIMER_INTERVAL :: nat where "MQTT_CYCLIC_TIMER_INTERVAL = 5"
definition MQTT_CONNECT_TIMOUT :: nat where "MQTT_CONNECT_TIMOUT = 100"

section \<open>State\<close>

datatype mqtt_connection_cb_t = Mqtt_connection_cb
datatype mqtt_request_cb_t = Mqtt_sub_request_cb | Mqtt_pub_request_cb
datatype mqtt_incoming_publish_cb_t = Mqtt_incoming_publish_cb
datatype mqtt_incoming_data_cb_t = Mqtt_incoming_data_cb

record mqtt_connect_client_info_t =
  client_id :: "u8 list"
  client_user :: "u8 list option"
  client_pass :: "u8 list option"
  ci_keep_alive :: u16
  will_topic :: "u8 list option"
  will_msg :: "u8 list option"
  will_qos :: u8
  will_retain :: u8

record mqtt_client_t =
  cyclic_tick :: u16
  keep_alive :: u16
  server_watchdog :: u16
  pkt_id_seq :: u16
  inpub_pkt_id :: u16
  conn_state :: conn_state_t
  conn :: "pcb option"
  connect_arg :: u32
  connect_cb :: "mqtt_connection_cb_t option"
  pend_req_queue :: "nat option"
  req_list :: "mqtt_request_cb_t req_objs"
  inpub_arg :: u32
  data_cb :: "mqtt_incoming_data_cb_t option"
  pub_cb :: "mqtt_incoming_publish_cb_t option"
  msg_idx :: u32
  rx_buffer :: "u8 list"
  out_rb :: mqtt_ringbuf_t

datatype timer_handler = Mqtt_cyclic_timer | Other_timer nat
datatype tcp_hook = Recv_hook | Sent_hook | Err_hook | Poll_hook | Connected_hook

datatype printed =
    Incoming_publish "u8 list" u32
  | Incoming_data u16 u8
  | Payload_string "u8 list"
  | Ignoring_payload
  | Subscribe_result err_t
  | Publish_result err_t
  | Connected_msg
  | Subscribe_return err_t
  | Disconnected_msg mqtt_connection_status_t
  | Connecting_msg
  | Connect_return err_t
  | Publish_err err_t

record 's world =
  client :: mqtt_client_t
  tcp :: 's
  hooks :: "pcb \<Rightarrow> tcp_hook set"
  timers :: "timer_handler timeouts"
  now :: u32
  inpub_id :: int
  buildConnetSuccess :: bool
  console :: "printed list"

text \<open>The client object filled with zeros by \<open>memset\<close>.\<close>

definition zero_mqtt_client :: mqtt_client_t where
  "zero_mqtt_client =
     \<lparr>cyclic_tick = 0, keep_alive = 0, server_watchdog = 0, pkt_id_seq = 0, inpub_pkt_id = 0,
      conn_state = TCP_DISCONNECTED, conn = None, connect_arg = 0, connect_cb = None,
      pend_req_queue = None,
      req_list = replicate MQTT_REQ_MAX_IN_FLIGHT
        \<lparr>next_req = None, cb = None, arg = 0, pkt_id = 0, timeout_diff = 0\<rparr>,
      inpub_arg = 0, data_cb = None, pub_cb = None, msg_idx = 0,
      rx_buffer = replicate MQTT_VAR_HEADER_BUFFER_LEN 0,
      out_rb = \<lparr>put = 0, get = 0, buf = replicate (nat MQTT_OUTPUT_RINGBUF_SIZE) 0\<rparr>\<rparr>"

text \<open>The argument the timer and the TCP callbacks get: the address of the client.\<close>

definition CLIENT :: u32 where "CLIENT = 1"

definition print :: "printed \<Rightarrow> 's world \<Rightarrow> 's world" where
  "print x w = w\<lparr>console := console w @ [x]\<rparr>"

definition set_hooks :: "pcb \<Rightarrow> (tcp_hook set \<Rightarrow> tcp_hook set) \<Rightarrow> 's world \<Rightarrow> 's world" where
  "set_hooks p f w = w\<lparr>hooks := (hooks w)(p := f (hooks w p))\<rparr>"

section \<open>Publishing and subscribing\<close>

definition msg_generate_packet_id :: "mqtt_client_t \<Rightarrow> u16 \<times> mqtt_client_t" where
  "msg_generate_packet_id cl =
     (let cl = cl\<lparr>pkt_id_seq := pkt_id_seq cl + 1\<rparr>;
          cl = (if pkt_id_seq cl = 0 then cl\<lparr>pkt_id_seq := pkt_id_seq cl + 1\<rparr> else cl) in
      (pkt_id_seq cl, cl))"

text \<open>
  The common end of \<open>mqtt_publish\<close> and \<open>mqtt_sub_unsub\<close>: append the request to the queue and
  start the transmission.
\<close>

definition queue_and_send ::
  "'s tcp_api \<Rightarrow> nat \<Rightarrow> mqtt_ringbuf_t \<Rightarrow> mqtt_client_t \<Rightarrow> 's world \<Rightarrow> (err_t \<times> 's world) outcome" where
  "queue_and_send io r rb cl w =
     bind_outcome (mqtt_append_request (req_list cl) (pend_req_queue cl) r) (\<lambda>(objs, tail).
     bind_outcome (mqtt_output_send io rb (conn cl) (tcp w)) (\<lambda>(rb, s).
       Ok (ERR_OK, w\<lparr>client := cl\<lparr>req_list := objs, pend_req_queue := tail, out_rb := rb\<rparr>, tcp := s\<rparr>)))"

definition mqtt_publish ::
  "'s tcp_api \<Rightarrow> u8 list \<Rightarrow> u8 list option \<Rightarrow> u16 \<Rightarrow> u8 \<Rightarrow> u8 \<Rightarrow> mqtt_request_cb_t option \<Rightarrow> u32 \<Rightarrow>
   's world \<Rightarrow> (err_t \<times> 's world) outcome" where
  "mqtt_publish io topic payload payload_length qos retain c a w =
     (let cl = client w in
      if conn_state cl = TCP_DISCONNECTED then Ok (ERR_CONN, w)
      else if \<not> length topic \<le> 0xFFFF - 2 then Ok (ERR_ARG, w)
      else
      let topic_len = word_of_nat (length topic) :: u16;
          total_len = 2 + unat topic_len + unat payload_length in
      if \<not> total_len \<le> 0xFFFF then Ok (ERR_ARG, w)
      else
      let remaining_length = word_of_nat total_len :: u16;
          (remaining_length, ident, cl) =
            (if qos > 0
             then let (ident, cl) = msg_generate_packet_id cl in (remaining_length + 2, ident, cl)
             else (remaining_length, 0, cl));
          (r, objs) = mqtt_create_request (req_list cl) ident c a;
          cl = cl\<lparr>req_list := objs\<rparr> in
      case r of
        None \<Rightarrow> Ok (ERR_MEM, w\<lparr>client := cl\<rparr>)
      | Some n \<Rightarrow>
          if \<not> mqtt_output_check_space (out_rb cl) remaining_length
          then Ok (ERR_MEM, w\<lparr>client := cl\<lparr>req_list := mqtt_delete_request (req_list cl) r\<rparr>\<rparr>)
          else
            bind_outcome
              (mqtt_output_append_string
                 (mqtt_output_append_fixed_header (out_rb cl) (msg_code MQTT_MSG_TYPE_PUBLISH) 0 qos
                    retain remaining_length)
                 topic topic_len) (\<lambda>rb.
            let rb = (if qos > 0 then mqtt_output_append_u16 rb ident else rb) in
            bind_outcome
              (case payload of None \<Rightarrow> Ok rb
               | Some d \<Rightarrow> if payload_length > 0 then mqtt_output_append_buf rb d payload_length else Ok rb)
              (\<lambda>rb. queue_and_send io n rb cl w)))"

definition mqtt_sub_unsub ::
  "'s tcp_api \<Rightarrow> u8 list \<Rightarrow> u8 \<Rightarrow> mqtt_request_cb_t option \<Rightarrow> u32 \<Rightarrow> bool \<Rightarrow>
   's world \<Rightarrow> (err_t \<times> 's world) outcome" where
  "mqtt_sub_unsub io topic qos c a sub w =
     (let cl = client w in
      if \<not> length topic \<le> 0xFFFF - 2 then Ok (ERR_ARG, w)
      else
      let topic_len = word_of_nat (length topic) :: u16;
          total_len = unat topic_len + 2 + 2 + (if sub then 1 else 0) in
      if \<not> total_len \<le> 0xFFFF then Ok (ERR_ARG, w)
      else
      let remaining_length = word_of_nat total_len :: u16 in
      if conn_state cl = TCP_DISCONNECTED then Ok (ERR_CONN, w)
      else
      let (ident, cl) = msg_generate_packet_id cl;
          (r, objs) = mqtt_create_request (req_list cl) ident c a;
          cl = cl\<lparr>req_list := objs\<rparr> in
      case r of
        None \<Rightarrow> Ok (ERR_MEM, w\<lparr>client := cl\<rparr>)
      | Some n \<Rightarrow>
          if \<not> mqtt_output_check_space (out_rb cl) remaining_length
          then Ok (ERR_MEM, w\<lparr>client := cl\<lparr>req_list := mqtt_delete_request (req_list cl) r\<rparr>\<rparr>)
          else
            let rb = mqtt_output_append_fixed_header (out_rb cl)
                       (msg_code (if sub then MQTT_MSG_TYPE_SUBSCRIBE else MQTT_MSG_TYPE_UNSUBSCRIBE))
                       0 1 0 remaining_length;
                rb = mqtt_output_append_u16 rb ident in
            bind_outcome (mqtt_output_append_string rb topic topic_len) (\<lambda>rb.
            let rb = (if sub then mqtt_output_append_u8 rb (min qos 2) else rb) in
            queue_and_send io n rb cl w))"

definition mqtt_set_inpub_callback ::
  "mqtt_incoming_publish_cb_t option \<Rightarrow> mqtt_incoming_data_cb_t option \<Rightarrow> u32 \<Rightarrow>
   mqtt_client_t \<Rightarrow> mqtt_client_t" where
  "mqtt_set_inpub_callback p d a cl = cl\<lparr>data_cb := d, pub_cb := p, inpub_arg := a\<rparr>"

text \<open>\<open>mem_malloc\<close> may fail; the object is zeroed.\<close>

definition mqtt_client_new :: "bool \<Rightarrow> mqtt_client_t option" where
  "mqtt_client_new malloc_ok = (if malloc_ok then Some zero_mqtt_client else None)"

definition mqtt_client_is_connected :: "mqtt_client_t \<Rightarrow> bool" where
  "mqtt_client_is_connected cl \<longleftrightarrow> conn_state cl = MQTT_CONNECTED"

section \<open>Connecting\<close>

text \<open>The header of CONNECT and the lengths, or \<open>None\<close> for \<open>return ERR_VAL\<close>.\<close>

definition connect_lengths ::
  "mqtt_connect_client_info_t \<Rightarrow> (u8 \<times> u8 \<times> u8 \<times> u16 \<times> u16) option" where
  "connect_lengths ci =
     (let remaining_length = 2 + 4 + 1 + 1 + 2 :: u16;
          will =
            (case (will_topic ci, will_msg ci) of
               (Some wt, Some wm) \<Rightarrow>
                 (let flags = MQTT_CONNECT_FLAG_WILL OR push_bit 3 (will_qos ci AND 3)
                              OR (if will_retain ci \<noteq> 0 then MQTT_CONNECT_FLAG_WILL_RETAIN else 0) in
                  if \<not> length wt \<le> 0xFF then None
                  else if \<not> length wt > 0 then None
                  else if \<not> length wm \<le> 0xFF then None
                  else
                    let will_topic_len = word_of_nat (length wt) :: u8;
                        will_msg_len = word_of_nat (length wm) :: u8;
                        len = unat remaining_length + 2 + unat will_topic_len + 2 + unat will_msg_len in
                    if \<not> len \<le> 0xFFFF then None
                    else Some (flags, will_topic_len, will_msg_len, word_of_nat len :: u16))
             | _ \<Rightarrow> Some (0, 0, 0, remaining_length)) in
      case will of None \<Rightarrow> None
      | Some (flags, will_topic_len, will_msg_len, remaining_length) \<Rightarrow>
          let flags = flags OR MQTT_CONNECT_FLAG_CLEAN_SESSION in
          if \<not> length (client_id ci) \<le> 0xFFFF then None
          else
            let client_id_length = word_of_nat (length (client_id ci)) :: u16;
                len = unat remaining_length + 2 + unat client_id_length in
            if \<not> len \<le> 0xFFFF then None
            else Some (flags, will_topic_len, will_msg_len, client_id_length, word_of_nat len))"

definition ascii :: "string \<Rightarrow> u8 list" where
  "ascii s = map (\<lambda>c. word_of_nat (of_char c)) s"

text \<open>The CONNECT message.\<close>

definition append_connect ::
  "mqtt_ringbuf_t \<Rightarrow> mqtt_connect_client_info_t \<Rightarrow> u8 \<times> u8 \<times> u8 \<times> u16 \<times> u16 \<Rightarrow> mqtt_ringbuf_t outcome" where
  "append_connect rb ci = (\<lambda>(flags, will_topic_len, will_msg_len, client_id_length, remaining_length).
     let rb = mqtt_output_append_fixed_header rb (msg_code MQTT_MSG_TYPE_CONNECT) 0 0 0 remaining_length in
     bind_outcome (mqtt_output_append_string rb (ascii ''MQTT'') 4) (\<lambda>rb.
     let rb = mqtt_output_append_u8 rb 4;
         rb = mqtt_output_append_u8 rb flags;
         rb = mqtt_output_append_u16 rb (ci_keep_alive ci) in
     bind_outcome (mqtt_output_append_string rb (client_id ci) client_id_length) (\<lambda>rb.
     if flags AND MQTT_CONNECT_FLAG_WILL \<noteq> 0 then
       (case (will_topic ci, will_msg ci) of
          (Some wt, Some wm) \<Rightarrow>
            bind_outcome (mqtt_output_append_string rb wt (ucast will_topic_len)) (\<lambda>rb.
              mqtt_output_append_string rb wm (ucast will_msg_len))
        | _ \<Rightarrow> Halt NullDeref)
     else Ok rb)))"

definition mqtt_client_connect ::
  "'s tcp_api \<Rightarrow> u8 list \<Rightarrow> u16 \<Rightarrow> mqtt_connection_cb_t option \<Rightarrow> u32 \<Rightarrow> mqtt_connect_client_info_t \<Rightarrow>
   's world \<Rightarrow> (err_t \<times> 's world) outcome" where
  "mqtt_client_connect io ip_addr port c a ci w =
     (if conn_state (client w) \<noteq> TCP_DISCONNECTED then Ok (ERR_ISCONN, w)
      else
      let cl = zero_mqtt_client\<lparr>connect_arg := a, connect_cb := c, keep_alive := ci_keep_alive ci\<rparr>;
          cl = cl\<lparr>req_list := mqtt_init_requests (req_list cl)\<rparr>;
          w = w\<lparr>client := cl\<rparr> in
      case connect_lengths ci of
        None \<Rightarrow> Ok (ERR_VAL, w)
      | Some lens \<Rightarrow>
          if \<not> mqtt_output_check_space (out_rb cl) (snd (snd (snd (snd lens)))) then Ok (ERR_MEM, w)
          else
          case tcp_new io (tcp w) of
            (None, s) \<Rightarrow> Ok (ERR_MEM, w\<lparr>tcp := s\<rparr>)
          | (Some p, s) \<Rightarrow>
              let w = set_hooks p (\<lambda>_. {}) (w\<lparr>tcp := s\<rparr>);
                  fail = (\<lambda>err w. Ok (err, set_hooks p (\<lambda>_. {}) (w\<lparr>tcp := tcp_abort io (tcp w) p\<rparr>)));
                  (err, s) = tcp_bind io (tcp w) p;
                  w = w\<lparr>tcp := s\<rparr> in
              if err \<noteq> ERR_OK then fail err w
              else
              let (err, s) = tcp_connect io (tcp w) p ip_addr port;
                  w = w\<lparr>tcp := s\<rparr> in
              if err \<noteq> ERR_OK then fail err w
              else
              let w = set_hooks p (\<lambda>H. H \<union> {Connected_hook, Err_hook}) w in
              bind_outcome (append_connect (out_rb cl) ci lens) (\<lambda>rb.
                Ok (ERR_OK, w\<lparr>client := cl\<lparr>conn := Some p, conn_state := TCP_CONNECTING, out_rb := rb\<rparr>\<rparr>)))"

section \<open>The application\<close>

definition example_do_connect :: "'s tcp_api \<Rightarrow> 's world \<Rightarrow> 's world outcome" where
  "example_do_connect io w =
     bind_outcome
       (mqtt_client_connect io [192, 168, 45, 119] MQTT_PORT (Some Mqtt_connection_cb) 0
          \<lparr>client_id = ascii ''lwip_test'', client_user = Some (ascii ''fmsh''),
           client_pass = Some (ascii ''123456''), ci_keep_alive = 60,
           will_topic = None, will_msg = None, will_qos = 0, will_retain = 0\<rparr>
          (print Connecting_msg w))
       (\<lambda>(err, w). Ok (if err \<noteq> ERR_OK then print (Connect_return err) w else w))"

definition mqtt_connection_cb ::
  "'s tcp_api \<Rightarrow> u32 \<Rightarrow> mqtt_connection_status_t \<Rightarrow> 's world \<Rightarrow> 's world outcome" where
  "mqtt_connection_cb io a status w =
     (if status = MQTT_CONNECT_ACCEPTED then
        let w = (print Connected_msg w)\<lparr>buildConnetSuccess := True\<rparr>;
            w = w\<lparr>client := mqtt_set_inpub_callback (Some Mqtt_incoming_publish_cb)
                              (Some Mqtt_incoming_data_cb) a (client w)\<rparr> in
        bind_outcome (mqtt_sub_unsub io (ascii ''print_payload'') 1 (Some Mqtt_sub_request_cb) a True w)
          (\<lambda>(err, w). Ok (if err \<noteq> ERR_OK then print (Subscribe_return err) w else w))
      else
        example_do_connect io ((print (Disconnected_msg status) w)\<lparr>buildConnetSuccess := False\<rparr>))"

definition example_publish :: "'s tcp_api \<Rightarrow> u32 \<Rightarrow> 's world \<Rightarrow> 's world outcome" where
  "example_publish io a w =
     (let pub_payload = ascii ''PubSubHubLubJub'' in
      bind_outcome
        (mqtt_publish io (ascii ''pub_topic'') (Some pub_payload) (word_of_nat (length pub_payload)) 2 0
           (Some Mqtt_pub_request_cb) a w)
        (\<lambda>(err, w). Ok (if err \<noteq> ERR_OK then print (Publish_err err) w else w)))"

definition mqtt_sub_request_cb :: "err_t \<Rightarrow> 's world \<Rightarrow> 's world" where
  "mqtt_sub_request_cb result w = print (Subscribe_result result) w"

definition mqtt_pub_request_cb :: "err_t \<Rightarrow> 's world \<Rightarrow> 's world" where
  "mqtt_pub_request_cb result w = (if result \<noteq> ERR_OK then print (Publish_result result) w else w)"

text \<open>A call through a request callback pointer.\<close>

definition call_request_cb :: "mqtt_request_cb_t notice \<Rightarrow> 's world \<Rightarrow> 's world" where
  "call_request_cb = (\<lambda>(c, a, e) w.
     case c of Mqtt_sub_request_cb \<Rightarrow> mqtt_sub_request_cb e w
     | Mqtt_pub_request_cb \<Rightarrow> mqtt_pub_request_cb e w)"

definition mqtt_incoming_publish_cb :: "u8 list \<Rightarrow> u32 \<Rightarrow> 's world \<Rightarrow> 's world" where
  "mqtt_incoming_publish_cb topic tot_len w =
     (print (Incoming_publish topic tot_len) w)
       \<lparr>inpub_id := (if topic = ascii ''print_payload'' then 0
                     else if topic \<noteq> [] \<and> hd topic = word_of_nat (of_char (CHR ''A'')) then 1 else 2)\<rparr>"

text \<open>
  \<open>data\<close> points into the receive buffer \<open>rx\<close> at index \<open>i\<close>; \<open>%s\<close> reads up to the next zero byte.
\<close>

definition MQTT_DATA_FLAG_LAST :: u8 where "MQTT_DATA_FLAG_LAST = 1"

definition mqtt_incoming_data_cb ::
  "u8 list \<Rightarrow> nat \<Rightarrow> u16 \<Rightarrow> u8 \<Rightarrow> 's world \<Rightarrow> 's world outcome" where
  "mqtt_incoming_data_cb rx i len flags w =
     (let w = print (Incoming_data len flags) w in
      if flags AND MQTT_DATA_FLAG_LAST \<noteq> 0 then
        if inpub_id w = 0 then
          let k = int i + uint len - 1 in
          if \<not> (0 \<le> k \<and> k < int (length rx)) then Halt Overrun
          else if rx ! nat k = 0 then
            (if 0 \<in> set (drop i rx) then Ok (print (Payload_string (takeWhile (\<lambda>x. x \<noteq> 0) (drop i rx))) w)
             else Halt Overrun)
          else Ok w
        else if inpub_id w = 1 then Ok w
        else Ok (print Ignoring_payload w)
      else Ok w)"

end
