(* ===== verification/MqttEvents.thy ===== *)
theory MqttEvents
  imports MqttClient
begin

unbundle bit_operations_syntax

text \<open>
  What the MQTT client does when something happens (\<open>src/user/mqtt/mqtt.c\<close>): closing the
  connection, the cyclic timer, the parser of incoming data and the callbacks TCP calls.
  The loops are partial functions; \<open>parse_loop_returns\<close> shows that the parser's loop ends on
  every input.
\<close>

section \<open>Closing\<close>

definition mqtt_close :: "'s tcp_api \<Rightarrow> mqtt_connection_status_t \<Rightarrow> 's world \<Rightarrow> 's world outcome" where
  "mqtt_close io reason w =
     (let w =
        (case conn (client w) of
           None \<Rightarrow> w
         | Some p \<Rightarrow>
             let w = set_hooks p (\<lambda>H. H - {Recv_hook, Err_hook, Sent_hook}) w;
                 (res, s) = tcp_close io (tcp w) p;
                 w = w\<lparr>tcp := s\<rparr>;
                 w = (if res \<noteq> ERR_OK
                      then set_hooks p (\<lambda>_. {}) (w\<lparr>tcp := tcp_abort io (tcp w) p\<rparr>) else w) in
             w\<lparr>client := (client w)\<lparr>conn := None\<rparr>\<rparr>) in
      bind_outcome (mqtt_clear_requests (req_list (client w)) (pend_req_queue (client w))) (\<lambda>(objs, tail).
      let w = w\<lparr>client := (client w)\<lparr>req_list := objs, pend_req_queue := tail\<rparr>,
                timers := sys_untimeout Mqtt_cyclic_timer CLIENT (timers w)\<rparr> in
      if conn_state (client w) \<noteq> TCP_DISCONNECTED then
        let w = w\<lparr>client := (client w)\<lparr>conn_state := TCP_DISCONNECTED\<rparr>\<rparr> in
        (case connect_cb (client w) of None \<Rightarrow> Ok w
         | Some Mqtt_connection_cb \<Rightarrow> mqtt_connection_cb io (connect_arg (client w)) reason w)
      else Ok w))"

definition mqtt_disconnect :: "'s tcp_api \<Rightarrow> 's world \<Rightarrow> 's world outcome" where
  "mqtt_disconnect io w =
     (if conn_state (client w) \<noteq> TCP_DISCONNECTED then
        mqtt_close io 0 (w\<lparr>client := (client w)\<lparr>conn_state := TCP_DISCONNECTED\<rparr>\<rparr>)
      else Ok w)"

section \<open>The cyclic timer\<close>

definition start_cyclic_timer :: "'s world \<Rightarrow> 's world" where
  "start_cyclic_timer w =
     w\<lparr>timers := sys_timeout (now w) (word_of_nat (MQTT_CYCLIC_TIMER_INTERVAL * 1000))
                   Mqtt_cyclic_timer CLIENT (timers w)\<rparr>"

definition keep_alive_check :: "'s tcp_api \<Rightarrow> 's world \<Rightarrow> ('s world \<times> bool) outcome" where
  "keep_alive_check io w =
     (let w = w\<lparr>client := (client w)\<lparr>server_watchdog := server_watchdog (client w) + 1\<rparr>\<rparr>;
          k = unat (keep_alive (client w)) in
      bind_outcome
        (if unat (server_watchdog (client w)) * MQTT_CYCLIC_TIMER_INTERVAL > k + k div 2
         then bind_outcome (mqtt_close io MQTT_CONNECT_TIMEOUT w) (\<lambda>w. Ok (w, False))
         else Ok (w, True))
        (\<lambda>(w, restart_timer).
          if unat (cyclic_tick (client w)) * MQTT_CYCLIC_TIMER_INTERVAL \<ge> unat (keep_alive (client w)) then
            if mqtt_output_check_space (out_rb (client w)) 0 then
              Ok (w\<lparr>client := (client w)
                    \<lparr>out_rb := mqtt_output_append_fixed_header (out_rb (client w))
                                 (msg_code MQTT_MSG_TYPE_PINGREQ) 0 0 0 0,
                     cyclic_tick := 0\<rparr>\<rparr>, restart_timer)
            else Ok (w, restart_timer)
          else Ok (w\<lparr>client := (client w)\<lparr>cyclic_tick := cyclic_tick (client w) + 1\<rparr>\<rparr>, restart_timer)))"

definition mqtt_cyclic_timer :: "'s tcp_api \<Rightarrow> 's world \<Rightarrow> 's world outcome" where
  "mqtt_cyclic_timer io w =
     bind_outcome
       (case conn_state (client w) of
          MQTT_CONNECTING \<Rightarrow>
            (let w = w\<lparr>client := (client w)\<lparr>cyclic_tick := cyclic_tick (client w) + 1\<rparr>\<rparr> in
             if unat (cyclic_tick (client w)) * MQTT_CYCLIC_TIMER_INTERVAL \<ge> MQTT_CONNECT_TIMOUT
             then bind_outcome (mqtt_close io MQTT_CONNECT_TIMEOUT w) (\<lambda>w. Ok (w, False))
             else Ok (w, True))
        | MQTT_CONNECTED \<Rightarrow>
            bind_outcome
              (mqtt_request_time_elapsed (req_list (client w)) (pend_req_queue (client w))
                 (word_of_nat MQTT_CYCLIC_TIMER_INTERVAL)) (\<lambda>(objs, tail, notices).
            let w = fold call_request_cb notices
                      (w\<lparr>client := (client w)\<lparr>req_list := objs, pend_req_queue := tail\<rparr>\<rparr>) in
            if keep_alive (client w) > 0 then keep_alive_check io w else Ok (w, True))
        | _ \<Rightarrow> Ok (w, False))
       (\<lambda>(w, restart_timer). Ok (if restart_timer then start_cyclic_timer w else w))"

section \<open>Incoming messages\<close>

definition pub_ack_rec_rel_response ::
  "'s tcp_api \<Rightarrow> u8 \<Rightarrow> u16 \<Rightarrow> u8 \<Rightarrow> 's world \<Rightarrow> (err_t \<times> 's world) outcome" where
  "pub_ack_rec_rel_response io msg ident qos w =
     (let cl = client w in
      if mqtt_output_check_space (out_rb cl) 2 then
        let rb = mqtt_output_append_fixed_header (out_rb cl) msg 0 qos 0 2;
            rb = mqtt_output_append_u16 rb ident in
        bind_outcome (mqtt_output_send io rb (conn cl) (tcp w)) (\<lambda>(rb, s).
          Ok (ERR_OK, w\<lparr>client := cl\<lparr>out_rb := rb\<rparr>, tcp := s\<rparr>))
      else Ok (ERR_MEM, w))"

definition mqtt_incomming_suback :: "mqtt_request_cb_t mqtt_request_t \<Rightarrow> u8 \<Rightarrow> 's world \<Rightarrow> 's world" where
  "mqtt_incomming_suback r result w =
     fold call_request_cb (notify_req r (if result < 3 then ERR_OK else ERR_ABRT)) w"

definition rx_at :: "'s world \<Rightarrow> nat \<Rightarrow> u8 outcome" where
  "rx_at w i =
     (if i < length (rx_buffer (client w)) then Ok (rx_buffer (client w) ! i) else Halt Overrun)"

definition rx_u16 :: "'s world \<Rightarrow> nat \<Rightarrow> u16 outcome" where
  "rx_u16 w i =
     bind_outcome (rx_at w i) (\<lambda>x. bind_outcome (rx_at w (i + 1)) (\<lambda>y.
       Ok (push_bit 8 (ucast x) + ucast y)))"

text \<open>
  The first part of a PUBLISH: topic, packet identifier and the call of \<open>pub_cb\<close>. The byte
  behind the topic is zeroed for the call, which leaves the buffer alone, and restored. The
  result is the offset of the payload, \<open>None\<close> for the jump to \<open>out_disconnect\<close>.
\<close>

definition publish_header ::
  "nat \<Rightarrow> u16 \<Rightarrow> u32 \<Rightarrow> u8 \<Rightarrow> 's world \<Rightarrow> (u16 option \<times> 's world) outcome" where
  "publish_header hdr len remaining_length qos w =
     bind_outcome (rx_u16 w hdr) (\<lambda>topic_len.
     let after_topic = 2 + topic_len in
     if unat after_topic + (if qos \<noteq> 0 then 2 else 1) > unat len then Ok (None, w)
     else
     bind_outcome
       (if qos > 0 then bind_outcome (rx_u16 w (hdr + unat after_topic)) (\<lambda>ident. Ok (ident, after_topic + 2))
        else Ok (0, after_topic)) (\<lambda>(ident, after_topic).
     let w = w\<lparr>client := (client w)\<lparr>inpub_pkt_id := ident\<rparr>\<rparr> in
     bind_outcome (rx_at w (hdr + 2 + unat topic_len)) (\<lambda>bkp.
     let payload_length = len - after_topic;
         topic = takeWhile (\<lambda>x. x \<noteq> 0) (take (unat topic_len) (drop (hdr + 2) (rx_buffer (client w)))) in
     Ok (Some after_topic,
         case pub_cb (client w) of None \<Rightarrow> w
         | Some Mqtt_incoming_publish_cb \<Rightarrow>
             mqtt_incoming_publish_cb topic (remaining_length + ucast payload_length) w))))"

text \<open>The payload: the call of \<open>data_cb\<close> and, after the last part, the answer.\<close>

definition publish_payload ::
  "'s tcp_api \<Rightarrow> nat \<Rightarrow> u16 \<Rightarrow> u32 \<Rightarrow> u8 \<Rightarrow> 's world \<Rightarrow> (mqtt_connection_status_t \<times> 's world) outcome" where
  "publish_payload io i payload_length remaining_length qos w =
     (if payload_length > 0 \<or> remaining_length = 0 then
        (case data_cb (client w) of
           None \<Rightarrow> Halt NullDeref
         | Some Mqtt_incoming_data_cb \<Rightarrow>
             bind_outcome
               (mqtt_incoming_data_cb (rx_buffer (client w)) i payload_length
                  (if remaining_length = 0 then MQTT_DATA_FLAG_LAST else 0) w) (\<lambda>w.
             if remaining_length = 0 \<and> qos > 0 then
               bind_outcome
                 (pub_ack_rec_rel_response io
                    (msg_code (if qos = 1 then MQTT_MSG_TYPE_PUBACK else MQTT_MSG_TYPE_PUBREC))
                    (inpub_pkt_id (client w)) 0 w)
                 (\<lambda>(_, w). Ok (MQTT_CONNECT_ACCEPTED, w))
             else Ok (MQTT_CONNECT_ACCEPTED, w)))
      else Ok (MQTT_CONNECT_ACCEPTED, w))"

definition received_publish ::
  "'s tcp_api \<Rightarrow> nat \<Rightarrow> u16 \<Rightarrow> u32 \<Rightarrow> 's world \<Rightarrow> (mqtt_connection_status_t \<times> 's world) outcome" where
  "received_publish io hdr len remaining_length w =
     bind_outcome (rx_at w 0) (\<lambda>b0.
     let qos = MQTT_CTL_PACKET_QOS b0 in
     bind_outcome
       (if unat (msg_idx (client w)) \<le> MQTT_VAR_HEADER_BUFFER_LEN
        then publish_header hdr len remaining_length qos w
        else Ok (Some 0, w)) (\<lambda>(payload_offset, w).
     case payload_offset of
       None \<Rightarrow> Ok (MQTT_CONNECT_DISCONNECTED, w)
     | Some payload_offset \<Rightarrow>
         publish_payload io (hdr + unat payload_offset) (len - payload_offset) remaining_length qos w))"

definition received_connack ::
  "'s tcp_api \<Rightarrow> nat \<Rightarrow> 's world \<Rightarrow> (mqtt_connection_status_t \<times> 's world) outcome" where
  "received_connack io hdr w =
     (if conn_state (client w) = MQTT_CONNECTING then
        bind_outcome (rx_at w (hdr + 1)) (\<lambda>code.
        let res = unat code in
        if res = MQTT_CONNECT_ACCEPTED then
          let w = w\<lparr>client := (client w)\<lparr>cyclic_tick := 0, conn_state := MQTT_CONNECTED\<rparr>\<rparr> in
          (case connect_cb (client w) of None \<Rightarrow> Ok (res, w)
           | Some Mqtt_connection_cb \<Rightarrow>
               bind_outcome (mqtt_connection_cb io (connect_arg (client w)) res w) (\<lambda>w. Ok (res, w)))
        else Ok (res, w))
      else Ok (MQTT_CONNECT_ACCEPTED, w))"

definition received_ack ::
  "u8 \<Rightarrow> nat \<Rightarrow> u16 \<Rightarrow> u16 \<Rightarrow> 's world \<Rightarrow> (mqtt_connection_status_t \<times> 's world) outcome" where
  "received_ack pkt_type hdr len ident w =
     bind_outcome (mqtt_take_request (req_list (client w)) (pend_req_queue (client w)) ident) (\<lambda>(r, objs, tail).
     let w = w\<lparr>client := (client w)\<lparr>req_list := objs, pend_req_queue := tail\<rparr>\<rparr> in
     case r of
       None \<Rightarrow> Ok (MQTT_CONNECT_ACCEPTED, w)
     | Some n \<Rightarrow>
         let delete = (\<lambda>w. w\<lparr>client := (client w)\<lparr>req_list := mqtt_delete_request (req_list (client w)) r\<rparr>\<rparr>) in
         if pkt_type = msg_code MQTT_MSG_TYPE_SUBACK then
           if len < 3 then Ok (MQTT_CONNECT_DISCONNECTED, w)
           else bind_outcome (rx_at w (hdr + 2)) (\<lambda>result.
             Ok (MQTT_CONNECT_ACCEPTED, delete (mqtt_incomming_suback (objs ! n) result w)))
         else Ok (MQTT_CONNECT_ACCEPTED, delete (fold call_request_cb (notify_req (objs ! n) ERR_OK) w)))"

definition received_with_id ::
  "'s tcp_api \<Rightarrow> u8 \<Rightarrow> nat \<Rightarrow> u16 \<Rightarrow> 's world \<Rightarrow> (mqtt_connection_status_t \<times> 's world) outcome" where
  "received_with_id io pkt_type hdr len w =
     bind_outcome (rx_u16 w hdr) (\<lambda>ident.
     if ident = 0 then Ok (MQTT_CONNECT_DISCONNECTED, w)
     else if pkt_type = msg_code MQTT_MSG_TYPE_PUBREC then
       bind_outcome (pub_ack_rec_rel_response io (msg_code MQTT_MSG_TYPE_PUBREL) ident 1 w)
         (\<lambda>(_, w). Ok (MQTT_CONNECT_ACCEPTED, w))
     else if pkt_type = msg_code MQTT_MSG_TYPE_PUBREL then
       bind_outcome (pub_ack_rec_rel_response io (msg_code MQTT_MSG_TYPE_PUBCOMP) ident 0 w)
         (\<lambda>(_, w). Ok (MQTT_CONNECT_ACCEPTED, w))
     else if pkt_type = msg_code MQTT_MSG_TYPE_SUBACK \<or> pkt_type = msg_code MQTT_MSG_TYPE_UNSUBACK \<or>
             pkt_type = msg_code MQTT_MSG_TYPE_PUBCOMP \<or> pkt_type = msg_code MQTT_MSG_TYPE_PUBACK then
       received_ack pkt_type hdr len ident w
     else Ok (MQTT_CONNECT_DISCONNECTED, w))"

definition mqtt_message_received ::
  "'s tcp_api \<Rightarrow> u8 \<Rightarrow> u16 \<Rightarrow> u32 \<Rightarrow> 's world \<Rightarrow> (mqtt_connection_status_t \<times> 's world) outcome" where
  "mqtt_message_received io fixed_hdr_idx len remaining_length w =
     (let hdr = unat fixed_hdr_idx in
      bind_outcome (rx_at w 0) (\<lambda>b0.
      let pkt_type = MQTT_CTL_PACKET_TYPE b0 in
      if pkt_type = msg_code MQTT_MSG_TYPE_CONNACK then received_connack io hdr w
      else if pkt_type = msg_code MQTT_MSG_TYPE_PINGRESP then Ok (MQTT_CONNECT_ACCEPTED, w)
      else if pkt_type = msg_code MQTT_MSG_TYPE_PUBLISH then received_publish io hdr len remaining_length w
      else received_with_id io pkt_type hdr len w))"

section \<open>The parser\<close>

record parser =
  in_offset :: u16
  msg_rem_len :: u32
  fixed_hdr_idx :: u8
  hdr_b :: u8

definition tot_len :: "u8 list \<Rightarrow> u16" where
  "tot_len p = word_of_nat (length p)"

definition set_msg_idx :: "u32 \<Rightarrow> 's world \<Rightarrow> 's world" where
  "set_msg_idx i w = w\<lparr>client := (client w)\<lparr>msg_idx := i\<rparr>\<rparr>"

text \<open>The next byte of the fixed header, from the buffer or from the received data.\<close>

definition header_byte :: "u8 list \<Rightarrow> parser \<Rightarrow> 's world \<Rightarrow> (parser \<times> 's world) outcome" where
  "header_byte p ps w =
     (if unat (fixed_hdr_idx ps) < unat (msg_idx (client w)) then
        bind_outcome (rx_at w (unat (fixed_hdr_idx ps))) (\<lambda>x. Ok (ps\<lparr>hdr_b := x\<rparr>, w))
      else
        let x = p ! unat (in_offset ps); i = unat (msg_idx (client w)) in
        if i < length (rx_buffer (client w)) then
          Ok (ps\<lparr>hdr_b := x, in_offset := in_offset ps + 1\<rparr>,
              w\<lparr>client := (client w)\<lparr>rx_buffer := (rx_buffer (client w))[i := x],
                                    msg_idx := msg_idx (client w) + 1\<rparr>\<rparr>)
        else Halt Overrun)"

definition parse_header :: "'s tcp_api \<Rightarrow> u8 list \<Rightarrow> parser \<Rightarrow> 's world \<Rightarrow> (parser \<times> 's world) outcome" where
  "parse_header io p ps w =
     bind_outcome (header_byte p ps w) (\<lambda>(ps, w).
     let ps = ps\<lparr>fixed_hdr_idx := fixed_hdr_idx ps + 1\<rparr>; i = unat (fixed_hdr_idx ps) in
     if i \<ge> 2 then
       if (i - 2) * 7 \<ge> 32 then Halt BadShift
       else
       let ps = ps\<lparr>msg_rem_len := msg_rem_len ps OR push_bit ((i - 2) * 7) (ucast (hdr_b ps AND 0x7f))\<rparr> in
       if hdr_b ps AND 0x80 = 0 then
         if msg_rem_len ps = 0 then
           bind_outcome (mqtt_message_received io (fixed_hdr_idx ps) 0 0 w) (\<lambda>(_, w).
             Ok (ps\<lparr>fixed_hdr_idx := 0\<rparr>, set_msg_idx 0 w))
         else Ok (ps\<lparr>msg_rem_len := (msg_rem_len ps + ucast (fixed_hdr_idx ps)) - msg_idx (client w)\<rparr>, w)
       else Ok (ps, w)
     else Ok (ps, w))"

definition parse_body ::
  "'s tcp_api \<Rightarrow> u8 list \<Rightarrow> parser \<Rightarrow> 's world \<Rightarrow>
   (mqtt_connection_status_t option \<times> parser \<times> 's world) outcome" where
  "parse_body io p ps w =
     (let f = fixed_hdr_idx ps;
          cpy_start = ucast ((msg_idx (client w) - ucast f) mod (word_of_nat MQTT_VAR_HEADER_BUFFER_LEN - ucast f)
                             + ucast f) :: u16;
          cpy_len = ucast (min (ucast (tot_len p - in_offset ps)) (msg_rem_len ps)) :: u16;
          buffer_space = word_of_nat MQTT_VAR_HEADER_BUFFER_LEN - cpy_start;
          cpy_len = (if cpy_len > buffer_space then buffer_space else cpy_len) in
      bind_outcome
        (memcpy (rx_buffer (client w)) (unat cpy_start) p (unat (in_offset ps)) (unat cpy_len)) (\<lambda>rx.
      let w = w\<lparr>client := (client w)\<lparr>rx_buffer := rx, msg_idx := msg_idx (client w) + ucast cpy_len\<rparr>\<rparr>;
          ps = ps\<lparr>in_offset := in_offset ps + cpy_len, msg_rem_len := msg_rem_len ps - ucast cpy_len\<rparr> in
      if msg_rem_len ps = 0 \<or> cpy_len = buffer_space then
        bind_outcome
          (mqtt_message_received io f (cpy_start + cpy_len - ucast f) (msg_rem_len ps) w) (\<lambda>(res, w).
        if res \<noteq> MQTT_CONNECT_ACCEPTED then Ok (Some res, ps, w)
        else if msg_rem_len ps = 0 then Ok (None, ps\<lparr>fixed_hdr_idx := 0\<rparr>, set_msg_idx 0 w)
        else Ok (None, ps, w))
      else Ok (None, ps, w)))"

definition parse_round ::
  "'s tcp_api \<Rightarrow> u8 list \<Rightarrow> parser \<Rightarrow> 's world \<Rightarrow>
   (mqtt_connection_status_t option \<times> parser \<times> 's world) outcome" where
  "parse_round io p ps w =
     (if fixed_hdr_idx ps < 2 \<or> hdr_b ps AND 0x80 \<noteq> 0
      then bind_outcome (parse_header io p ps w) (\<lambda>(ps, w). Ok (None, ps, w))
      else parse_body io p ps w)"

partial_function (option) parse_loop ::
  "'s tcp_api \<Rightarrow> u8 list \<Rightarrow> parser \<Rightarrow> 's world \<Rightarrow> (mqtt_connection_status_t \<times> 's world) outcome option" where
  "parse_loop io p ps w =
     (if in_offset ps < tot_len p then
        (case parse_round io p ps w of
           Halt x \<Rightarrow> Some (Halt x)
         | Ok r \<Rightarrow>
             (case fst r of
                Some res \<Rightarrow> Some (Ok (res, snd (snd r)))
              | None \<Rightarrow> parse_loop io p (fst (snd r)) (snd (snd r))))
      else Some (Ok (MQTT_CONNECT_ACCEPTED, w)))"

definition start_parser :: parser where
  "start_parser = \<lparr>in_offset = 0, msg_rem_len = 0, fixed_hdr_idx = 0, hdr_b = 0\<rparr>"

definition mqtt_parse_incoming ::
  "'s tcp_api \<Rightarrow> u8 list \<Rightarrow> 's world \<Rightarrow> (mqtt_connection_status_t \<times> 's world) outcome" where
  "mqtt_parse_incoming io p w =
     bind_outcome (loop_outcome (parse_loop io p start_parser w)) (\<lambda>r. r)"

section \<open>The callbacks of TCP\<close>

text \<open>\<open>p\<close> is \<open>None\<close> when the remote host has closed the connection.\<close>

definition mqtt_tcp_recv_cb ::
  "'s tcp_api \<Rightarrow> pcb \<Rightarrow> u8 list option \<Rightarrow> err_t \<Rightarrow> 's world \<Rightarrow> (err_t \<times> 's world) outcome" where
  "mqtt_tcp_recv_cb io pcb p err w =
     (case p of
        None \<Rightarrow> bind_outcome (mqtt_close io MQTT_CONNECT_DISCONNECTED w) (\<lambda>w. Ok (ERR_OK, w))
      | Some p \<Rightarrow>
          if err \<noteq> ERR_OK then Ok (err, w)
          else
            bind_outcome (mqtt_parse_incoming io p (w\<lparr>tcp := tcp_recved io (tcp w) pcb (tot_len p)\<rparr>)) (\<lambda>(res, w).
            bind_outcome (if res \<noteq> MQTT_CONNECT_ACCEPTED then mqtt_close io res w else Ok w) (\<lambda>w.
            Ok (ERR_OK,
                if keep_alive (client w) \<noteq> 0 then w\<lparr>client := (client w)\<lparr>server_watchdog := 0\<rparr>\<rparr> else w))))"

partial_function (option) sent_loop :: "'s world \<Rightarrow> 's world outcome option" where
  "sent_loop w =
     (case mqtt_take_request (req_list (client w)) (pend_req_queue (client w)) 0 of
        Halt x \<Rightarrow> Some (Halt x)
      | Ok t \<Rightarrow>
          (case fst t of
             None \<Rightarrow>
               Some (Ok (w\<lparr>client := (client w)\<lparr>req_list := fst (snd t), pend_req_queue := snd (snd t)\<rparr>\<rparr>))
           | Some n \<Rightarrow>
               sent_loop
                 (let w' = fold call_request_cb (notify_req (fst (snd t) ! n) ERR_OK)
                             (w\<lparr>client := (client w)\<lparr>req_list := fst (snd t), pend_req_queue := snd (snd t)\<rparr>\<rparr>) in
                  w'\<lparr>client := (client w')
                       \<lparr>req_list := mqtt_delete_request (req_list (client w')) (Some n)\<rparr>\<rparr>)))"

definition send_output :: "'s tcp_api \<Rightarrow> pcb option \<Rightarrow> 's world \<Rightarrow> 's world outcome" where
  "send_output io p w =
     bind_outcome (mqtt_output_send io (out_rb (client w)) p (tcp w)) (\<lambda>(rb, s).
       Ok (w\<lparr>client := (client w)\<lparr>out_rb := rb\<rparr>, tcp := s\<rparr>))"

definition mqtt_tcp_sent_cb :: "'s tcp_api \<Rightarrow> 's world \<Rightarrow> (err_t \<times> 's world) outcome" where
  "mqtt_tcp_sent_cb io w =
     (if conn_state (client w) = MQTT_CONNECTED then
        bind_outcome
          (bind_outcome
            (loop_outcome (sent_loop (w\<lparr>client := (client w)\<lparr>cyclic_tick := 0, server_watchdog := 0\<rparr>\<rparr>))) (\<lambda>r. r)) (\<lambda>w.
        bind_outcome (send_output io (conn (client w)) w) (\<lambda>w. Ok (ERR_OK, w)))
      else Ok (ERR_OK, w))"

definition mqtt_tcp_err_cb :: "'s tcp_api \<Rightarrow> err_t \<Rightarrow> 's world \<Rightarrow> 's world outcome" where
  "mqtt_tcp_err_cb io err w =
     mqtt_close io MQTT_CONNECT_DISCONNECTED (w\<lparr>client := (client w)\<lparr>conn := None\<rparr>\<rparr>)"

definition mqtt_tcp_poll_cb :: "'s tcp_api \<Rightarrow> pcb \<Rightarrow> 's world \<Rightarrow> (err_t \<times> 's world) outcome" where
  "mqtt_tcp_poll_cb io tpcb w =
     (if conn_state (client w) = MQTT_CONNECTED
      then bind_outcome (send_output io (Some tpcb) w) (\<lambda>w. Ok (ERR_OK, w))
      else Ok (ERR_OK, w))"

definition mqtt_tcp_connect_cb :: "'s tcp_api \<Rightarrow> pcb \<Rightarrow> err_t \<Rightarrow> 's world \<Rightarrow> (err_t \<times> 's world) outcome" where
  "mqtt_tcp_connect_cb io tpcb err w =
     (if err \<noteq> ERR_OK then Ok (err, w)
      else
        let w = w\<lparr>client := (client w)\<lparr>msg_idx := 0\<rparr>\<rparr>;
            w = set_hooks tpcb (\<lambda>H. H \<union> {Recv_hook, Sent_hook, Poll_hook}) w;
            w = start_cyclic_timer (w\<lparr>client := (client w)\<lparr>conn_state := MQTT_CONNECTING\<rparr>\<rparr>);
            w = w\<lparr>client := (client w)\<lparr>cyclic_tick := 0\<rparr>\<rparr> in
        bind_outcome (send_output io (conn (client w)) w) (\<lambda>w. Ok (ERR_OK, w)))"

end
