(* ===== verification/MqttInv.thy ===== *)
theory MqttInv
  imports MqttEvents
begin

text \<open>
  The invariant of the MQTT client and its application, and that the public functions, the
  closing of a connection and the callbacks keep it. \<open>yields m P\<close> says that the
  computation \<open>m\<close> returns, without touching memory outside an object, and that its result
  satisfies \<open>P\<close>.
\<close>

section \<open>Total correctness\<close>

definition yields :: "'a outcome \<Rightarrow> ('a \<Rightarrow> bool) \<Rightarrow> bool" where
  "yields m P \<longleftrightarrow> (\<exists>x. m = Ok x \<and> P x)"

lemma yields_simps [simp]: "yields (Ok x) P \<longleftrightarrow> P x" "\<not> yields (Halt e) P"
  by (simp_all add: yields_def)

lemma yields_bind: "yields m Q \<Longrightarrow> (\<And>x. Q x \<Longrightarrow> yields (f x) P) \<Longrightarrow> yields (bind_outcome m f) P"
  by (auto simp: yields_def)

lemma yields_mono: "yields m Q \<Longrightarrow> (\<And>x. Q x \<Longrightarrow> P x) \<Longrightarrow> yields m P"
  by (auto simp: yields_def)

lemma yields_if: "(c \<Longrightarrow> yields a P) \<Longrightarrow> (\<not> c \<Longrightarrow> yields b P) \<Longrightarrow> yields (if c then a else b) P"
  by simp

section \<open>The invariant\<close>

text \<open>
  The ring, the receive buffer and the request queue are well formed, and there is a
  connection exactly when the client is not disconnected.
\<close>

definition core_inv :: "mqtt_client_t \<Rightarrow> bool" where
  "core_inv cl \<longleftrightarrow>
     rb_inv (out_rb cl) \<and> length (rx_buffer cl) = 128 \<and>
     (\<exists>q. queue_inv (req_list cl) (pend_req_queue cl) q) \<and>
     (conn cl = None \<longleftrightarrow> conn_state cl = TCP_DISCONNECTED)"

text \<open>
  The application is told of every change of the connection, and once connected its data
  callback is set.
\<close>

definition app_inv :: "mqtt_client_t \<Rightarrow> bool" where
  "app_inv cl \<longleftrightarrow>
     (conn_state cl \<noteq> TCP_DISCONNECTED \<longrightarrow> connect_cb cl \<noteq> None) \<and>
     (conn_state cl = MQTT_CONNECTED \<longrightarrow> data_cb cl \<noteq> None)"

text \<open>TCP calls back only for the connection the client holds.\<close>

definition hooks_inv :: "'s world \<Rightarrow> bool" where
  "hooks_inv w \<longleftrightarrow>
     (\<forall>p. hooks w p \<inter> {Recv_hook, Sent_hook, Err_hook} \<noteq> {} \<longrightarrow> conn (client w) = Some p)"

text \<open>Data is received and acknowledged only on an established connection.\<close>

definition recv_inv :: "'s world \<Rightarrow> bool" where
  "recv_inv w \<longleftrightarrow>
     (\<forall>p. hooks w p \<inter> {Recv_hook, Sent_hook} \<noteq> {} \<longrightarrow>
        conn_state (client w) \<in> {MQTT_CONNECTING, MQTT_CONNECTED})"

text \<open>The cyclic timer is armed at most once, and not before TCP is connected.\<close>

definition cyclic_timers :: "'s world \<Rightarrow> nat" where
  "cyclic_timers w = times_armed Mqtt_cyclic_timer CLIENT (timers w)"

definition timer_inv :: "'s world \<Rightarrow> bool" where
  "timer_inv w \<longleftrightarrow>
     timeouts_inv (timers w) \<and> cyclic_timers w \<le> 1 \<and>
     (conn_state (client w) \<in> {TCP_DISCONNECTED, TCP_CONNECTING} \<longrightarrow> cyclic_timers w = 0)"

definition mqtt_inv :: "'s world \<Rightarrow> bool" where
  "mqtt_inv w \<longleftrightarrow> core_inv (client w) \<and> app_inv (client w) \<and> hooks_inv w \<and> recv_inv w \<and> timer_inv w"

lemma core_inv_queue:
  "core_inv cl \<Longrightarrow> queue_inv objs tail q \<Longrightarrow> core_inv (cl\<lparr>req_list := objs, pend_req_queue := tail\<rparr>)"
  by (auto simp: core_inv_def)

lemma core_inv_out: "core_inv cl \<Longrightarrow> rb_inv rb \<Longrightarrow> core_inv (cl\<lparr>out_rb := rb\<rparr>)"
  by (simp add: core_inv_def)

lemma print_fields [simp]:
  "client (print x w) = client w" "tcp (print x w) = tcp w" "hooks (print x w) = hooks w"
  "timers (print x w) = timers w" "now (print x w) = now w"
  by (simp_all add: print_def)

section \<open>Publishing and subscribing\<close>

text \<open>
  A call that queues a request: the client keeps everything but the packet identifier, the
  request queue and the ring.
\<close>

definition request_frame :: "mqtt_client_t \<Rightarrow> mqtt_client_t \<Rightarrow> bool" where
  "request_frame cl cl' \<longleftrightarrow>
     cl' = cl\<lparr>pkt_id_seq := pkt_id_seq cl', req_list := req_list cl',
              pend_req_queue := pend_req_queue cl', out_rb := out_rb cl'\<rparr>"

definition api_frame :: "'s world \<Rightarrow> 's world \<Rightarrow> bool" where
  "api_frame w w' \<longleftrightarrow>
     w' = w\<lparr>client := client w', tcp := tcp w'\<rparr> \<and> request_frame (client w) (client w')"

lemma api_frame_refl [simp]: "api_frame w w"
  by (simp add: api_frame_def request_frame_def)

lemma msg_generate_packet_id_nonzero: "fst (msg_generate_packet_id cl) \<noteq> 0"
proof -
  have "(0 :: u16) + 1 \<noteq> 0" by simp
  then show ?thesis by (auto simp: msg_generate_packet_id_def Let_def)
qed

lemma msg_generate_packet_id_frame:
  "snd (msg_generate_packet_id cl) = cl\<lparr>pkt_id_seq := fst (msg_generate_packet_id cl)\<rparr>"
  by (simp add: msg_generate_packet_id_def Let_def)

lemma queue_and_send_run:
  assumes q: "queue_inv (req_list cl) (pend_req_queue cl) q" and r: "r \<notin> set q" "r < 4"
    "next_req (req_list cl ! r) = None" and rb: "rb_inv rb" and p: "conn cl = Some p"
  shows "yields (queue_and_send io r rb cl w) (\<lambda>(e, w'). e = ERR_OK \<and>
    w' = w\<lparr>client := cl\<lparr>req_list := req_list (client w'), pend_req_queue := pend_req_queue (client w'),
            out_rb := out_rb (client w')\<rparr>, tcp := tcp w'\<rparr> \<and>
    rb_inv (out_rb (client w')) \<and>
    queue_inv (req_list (client w')) (pend_req_queue (client w')) (q @ [r]) \<and>
    same_items (req_list cl) (req_list (client w')) \<and>
    deadlines (req_list (client w')) (q @ [r]) = deadlines (req_list cl) q @ [30] \<and>
    (\<forall>stream. tcp_stream_law io stream \<longrightarrow>
       stream (tcp w') p @ rb_bytes (out_rb (client w')) = stream (tcp w) p @ rb_bytes rb))"
proof -
  from mqtt_append_request_run [OF q r] obtain objs tail where app:
    "mqtt_append_request (req_list cl) (pend_req_queue cl) r = Ok (objs, tail)"
    "queue_inv objs tail (q @ [r])" "same_items (req_list cl) objs"
    "deadlines objs (q @ [r]) = deadlines (req_list cl) q @ [30]" by blast
  from mqtt_output_send_run [OF rb, of io p "tcp w"] obtain rb' s where snd:
    "mqtt_output_send io rb (Some p) (tcp w) = Ok (rb', s)" "rb_inv rb'"
    "\<forall>stream. tcp_stream_law io stream \<longrightarrow> stream s p @ rb_bytes rb' = stream (tcp w) p @ rb_bytes rb"
    by blast
  from app snd p show ?thesis by (simp add: queue_and_send_def)
qed

text \<open>
  \<open>mqtt_publish\<close> and \<open>mqtt_sub_unsub\<close> differ in the message they build; \<open>submit\<close> is the rest.
\<close>

definition submit ::
  "'s tcp_api \<Rightarrow> u16 \<Rightarrow> mqtt_request_cb_t option \<Rightarrow> u32 \<Rightarrow> u16 \<Rightarrow>
   (mqtt_ringbuf_t \<Rightarrow> mqtt_ringbuf_t outcome) \<Rightarrow> mqtt_client_t \<Rightarrow> 's world \<Rightarrow> (err_t \<times> 's world) outcome" where
  "submit io ident c a remaining_length build cl w =
     (let (r, objs) = mqtt_create_request (req_list cl) ident c a; cl = cl\<lparr>req_list := objs\<rparr> in
      case r of
        None \<Rightarrow> Ok (ERR_MEM, w\<lparr>client := cl\<rparr>)
      | Some n \<Rightarrow>
          if \<not> mqtt_output_check_space (out_rb cl) remaining_length
          then Ok (ERR_MEM, w\<lparr>client := cl\<lparr>req_list := mqtt_delete_request (req_list cl) r\<rparr>\<rparr>)
          else bind_outcome (build (out_rb cl)) (\<lambda>rb. queue_and_send io n rb cl w))"

text \<open>
  A request succeeds exactly when a request object is free and the message fits the ring. It
  is then behind all bytes accepted before, and waits at the end of the queue with the whole
  timeout; otherwise nothing is queued or sent.
\<close>

definition has_room :: "mqtt_client_t \<Rightarrow> u8 list \<Rightarrow> bool" where
  "has_room cl msg \<longleftrightarrow>
     (\<exists>n. free_slot (req_list cl) n) \<and> length (rb_bytes (out_rb cl)) + length msg \<le> 256"

definition accepted ::
  "'s tcp_api \<Rightarrow> pcb \<Rightarrow> 's world \<Rightarrow> u16 \<Rightarrow> mqtt_request_cb_t option \<Rightarrow> u32 \<Rightarrow> u8 list \<Rightarrow> 's world \<Rightarrow> bool" where
  "accepted io p w ident c a msg w' \<longleftrightarrow>
     (\<forall>stream. tcp_stream_law io stream \<longrightarrow>
        stream (tcp w') p @ rb_bytes (out_rb (client w')) =
        stream (tcp w) p @ rb_bytes (out_rb (client w)) @ msg) \<and>
     (\<exists>q n. queue_inv (req_list (client w)) (pend_req_queue (client w)) q \<and>
        queue_inv (req_list (client w')) (pend_req_queue (client w')) (q @ [n]) \<and>
        req_item (req_list (client w') ! n) = (c, a, ident) \<and>
        deadlines (req_list (client w')) (q @ [n]) = deadlines (req_list (client w)) q @ [30])"

definition refused :: "'s world \<Rightarrow> 's world \<Rightarrow> bool" where
  "refused w w' \<longleftrightarrow>
     tcp w' = tcp w \<and> out_rb (client w') = out_rb (client w) \<and>
     pend_req_queue (client w') = pend_req_queue (client w) \<and>
     (\<forall>n. free_slot (req_list (client w')) n \<longleftrightarrow> free_slot (req_list (client w)) n)"

lemma mqtt_create_request_fst_None:
  "fst (mqtt_create_request objs ident c a) = None \<Longrightarrow> snd (mqtt_create_request objs ident c a) = objs"
  by (auto simp: mqtt_create_request_def split: option.splits)

lemma request_frame_keeps:
  "request_frame cl cl' \<Longrightarrow> conn_state cl' = conn_state cl \<and> conn cl' = conn cl \<and>
     rx_buffer cl' = rx_buffer cl \<and> connect_cb cl' = connect_cb cl \<and> connect_arg cl' = connect_arg cl \<and>
     data_cb cl' = data_cb cl \<and> msg_idx cl' = msg_idx cl \<and> keep_alive cl' = keep_alive cl"
  unfolding request_frame_def by (drule arg_cong [where f = id]) (cases cl; cases cl'; simp)

lemma submit_run:
  assumes inv: "core_inv (client w)" and cl: "cl = (client w)\<lparr>pkt_id_seq := k\<rparr>" and p: "conn cl = Some p"
    and check: "mqtt_output_check_space (out_rb cl) remaining_length \<longleftrightarrow>
      length (rb_bytes (out_rb cl)) + length msg \<le> 256"
    and build: "\<And>rb. rb_inv rb \<Longrightarrow> length (rb_bytes rb) + length msg \<le> 256 \<Longrightarrow>
      \<exists>rb'. build rb = Ok rb' \<and> appended rb msg rb'"
  shows "yields (submit io ident c a remaining_length build cl w) (\<lambda>(e, w').
    api_frame w w' \<and> core_inv (client w') \<and> e = (if has_room (client w) msg then ERR_OK else ERR_MEM) \<and>
    (if has_room (client w) msg then accepted io p w ident c a msg w' else refused w w'))"
proof -
  from inv obtain q where q: "queue_inv (req_list cl) (pend_req_queue cl) q"
    by (auto simp: core_inv_def cl)
  then have len: "length (req_list cl) = 4" by (simp add: queue_inv_def)
  obtain r objs where create: "mqtt_create_request (req_list cl) ident c a = (r, objs)" by fastforce
  show ?thesis
  proof (cases r)
    case None
    with create have "objs = req_list cl" "\<forall>n. \<not> free_slot (req_list cl) n"
      using mqtt_create_request_fst_None [of "req_list cl" ident c a]
        mqtt_create_request_None [OF len, of ident c a] by simp_all
    then show ?thesis using create None inv
      by (simp add: submit_def cl has_room_def refused_def api_frame_def request_frame_def core_inv_def)
  next
    case (Some n)
    note new = mqtt_create_request_queue [OF create [unfolded Some] q]
    note slot = mqtt_create_request_Some [OF create [unfolded Some] len]
    let ?cl = "cl\<lparr>req_list := objs\<rparr>"
    have room: "has_room (client w) msg \<longleftrightarrow> mqtt_output_check_space (out_rb cl) remaining_length"
      using slot(1) check by (auto simp: has_room_def cl)
    show ?thesis
    proof (cases "mqtt_output_check_space (out_rb cl) remaining_length")
      case False
      let ?objs = "mqtt_delete_request objs (Some n)"
      have "queue_inv ?objs (pend_req_queue cl) q"
        using new(1,2) by (simp add: queue_inv_def mqtt_delete_request_keeps)
      moreover have "free_slot ?objs m \<longleftrightarrow> free_slot (req_list cl) m" for m
        using slot(1) new(6)
        by (cases "m = n") (auto simp: free_slot_def mqtt_delete_request_def slot(2) len)
      ultimately show ?thesis using False create Some inv room
        by (auto simp: submit_def cl refused_def api_frame_def request_frame_def core_inv_def)
    next
      case True
      then obtain rb where rb: "build (out_rb cl) = Ok rb" "appended (out_rb cl) msg rb"
        using build [of "out_rb cl"] inv check by (auto simp: core_inv_def cl)
      have start: "submit io ident c a remaining_length build cl w = queue_and_send io n rb ?cl w"
        using create Some True rb(1) by (simp add: submit_def)
      have dl: "deadlines objs q = deadlines (req_list cl) q"
        using new(2) by (simp add: deadlines_def slot(2))
      have "yields (queue_and_send io n rb ?cl w) (\<lambda>(e, w'). e = ERR_OK \<and>
          w' = w\<lparr>client := ?cl\<lparr>req_list := req_list (client w'), pend_req_queue := pend_req_queue (client w'),
                  out_rb := out_rb (client w')\<rparr>, tcp := tcp w'\<rparr> \<and>
          rb_inv (out_rb (client w')) \<and>
          queue_inv (req_list (client w')) (pend_req_queue (client w')) (q @ [n]) \<and>
          same_items (req_list ?cl) (req_list (client w')) \<and>
          deadlines (req_list (client w')) (q @ [n]) = deadlines (req_list ?cl) q @ [30] \<and>
          (\<forall>stream. tcp_stream_law io stream \<longrightarrow>
             stream (tcp w') p @ rb_bytes (out_rb (client w')) = stream (tcp w) p @ rb_bytes rb))"
        using new rb(2) p by (intro queue_and_send_run) (simp_all add: appended_def)
      then obtain w' where run: "queue_and_send io n rb ?cl w = Ok (ERR_OK, w')"
        and w': "w' = w\<lparr>client := ?cl\<lparr>req_list := req_list (client w'),
            pend_req_queue := pend_req_queue (client w'), out_rb := out_rb (client w')\<rparr>, tcp := tcp w'\<rparr>"
        and rb': "rb_inv (out_rb (client w'))"
        and q': "queue_inv (req_list (client w')) (pend_req_queue (client w')) (q @ [n])"
        and items: "same_items objs (req_list (client w'))"
        and dl': "deadlines (req_list (client w')) (q @ [n]) = deadlines objs q @ [30]"
        and str: "\<forall>stream. tcp_stream_law io stream \<longrightarrow>
             stream (tcp w') p @ rb_bytes (out_rb (client w')) = stream (tcp w) p @ rb_bytes rb"
        by (auto simp: yields_def)
      have acc: "accepted io p w ident c a msg w'"
        unfolding accepted_def
      proof (intro conjI exI)
        show "\<forall>stream. tcp_stream_law io stream \<longrightarrow>
          stream (tcp w') p @ rb_bytes (out_rb (client w')) =
          stream (tcp w) p @ rb_bytes (out_rb (client w)) @ msg"
          using str rb(2) by (simp add: appended_def cl)
        show "queue_inv (req_list (client w)) (pend_req_queue (client w)) q" using q by (simp add: cl)
        show "req_item (req_list (client w') ! n) = (c, a, ident)"
          using items new(5) by (simp add: same_items_def)
        show "deadlines (req_list (client w')) (q @ [n]) = deadlines (req_list (client w)) q @ [30]"
          using dl' dl by (simp add: cl)
      qed (rule q')
      have c': "client w' = ?cl\<lparr>req_list := req_list (client w'),
          pend_req_queue := pend_req_queue (client w'), out_rb := out_rb (client w')\<rparr>"
        using arg_cong [OF w', of client] by simp
      have cl': "client w' = (client w)\<lparr>pkt_id_seq := k, req_list := req_list (client w'),
          pend_req_queue := pend_req_queue (client w'), out_rb := out_rb (client w')\<rparr>"
        using c' by (simp add: cl)
      have "api_frame w w'"
      proof -
        have "pkt_id_seq (client w') = k" using arg_cong [OF cl', of pkt_id_seq] by simp
        then show ?thesis
          unfolding api_frame_def request_frame_def by (intro conjI w' [folded c']) (simp only: cl' [symmetric])
      qed
      moreover have "core_inv (client w')"
        using inv rb' q' by (subst cl') (auto simp: core_inv_def)
      ultimately show ?thesis
        using start run acc True room by simp
    qed
  qed
qed

text \<open>The bytes of the messages.\<close>

definition publish_ident :: "u8 \<Rightarrow> mqtt_client_t \<Rightarrow> u16" where
  "publish_ident qos cl = (if qos > 0 then fst (msg_generate_packet_id cl) else 0)"

definition publish_message :: "u16 \<Rightarrow> u8 list \<Rightarrow> u8 \<Rightarrow> u8 \<Rightarrow> u8 list \<Rightarrow> u8 list" where
  "publish_message ident topic qos retain payload =
     enc_header (ctl_byte 3 0 qos retain) (length topic + 2 + (if qos > 0 then 2 else 0) + length payload) @
     enc_string topic @ (if qos > 0 then enc_u16 (unat ident) else []) @ payload"

definition subscribe_message :: "bool \<Rightarrow> u16 \<Rightarrow> u8 list \<Rightarrow> u8 \<Rightarrow> u8 list" where
  "subscribe_message sub ident topic qos =
     enc_header (ctl_byte (if sub then 8 else 10) 0 1 0) (length topic + 4 + (if sub then 1 else 0)) @
     enc_u16 (unat ident) @ enc_string topic @ (if sub then [min qos 2] else [])"

definition payload_bytes :: "u8 list option \<Rightarrow> u16 \<Rightarrow> u8 list" where
  "payload_bytes payload n = (case payload of None \<Rightarrow> [] | Some d \<Rightarrow> take (unat n) d)"

definition build_publish ::
  "u16 \<Rightarrow> u8 list \<Rightarrow> u8 list option \<Rightarrow> u16 \<Rightarrow> u8 \<Rightarrow> u8 \<Rightarrow> u16 \<Rightarrow> mqtt_ringbuf_t \<Rightarrow> mqtt_ringbuf_t outcome" where
  "build_publish ident topic payload n qos retain rem rb =
     bind_outcome
       (mqtt_output_append_string (mqtt_output_append_fixed_header rb 3 0 qos retain rem) topic
          (word_of_nat (length topic))) (\<lambda>rb.
     let rb = (if qos > 0 then mqtt_output_append_u16 rb ident else rb) in
     case payload of None \<Rightarrow> Ok rb | Some d \<Rightarrow> if n > 0 then mqtt_output_append_buf rb d n else Ok rb)"

definition build_subscribe ::
  "bool \<Rightarrow> u16 \<Rightarrow> u8 list \<Rightarrow> u8 \<Rightarrow> u16 \<Rightarrow> mqtt_ringbuf_t \<Rightarrow> mqtt_ringbuf_t outcome" where
  "build_subscribe sub ident topic qos rem rb =
     bind_outcome
       (mqtt_output_append_string
          (mqtt_output_append_u16 (mqtt_output_append_fixed_header rb (if sub then 8 else 10) 0 1 0 rem) ident)
          topic (word_of_nat (length topic))) (\<lambda>rb.
     Ok (if sub then mqtt_output_append_u8 rb (min qos 2) else rb))"

lemma unat_of_nat_u16: "n < 65536 \<Longrightarrow> unat (word_of_nat n :: u16) = n"
  by (simp add: unat_of_nat)

lemma append_header_step:
  assumes "rb_inv rb" and "length (rb_bytes rb) + length (enc_header (ctl_byte t d q n) k) \<le> 256"
    and "k = unat r"
  shows "appended rb (enc_header (ctl_byte t d q n) k) (mqtt_output_append_fixed_header rb t d q n r)"
  using mqtt_output_append_fixed_header_appended [OF assms(1)] assms(2,3)
  by (simp add: enc_header_def)

lemma build_publish_run:
  assumes inv: "rb_inv rb" and topic: "length topic < 65536"
    and payload: "payload = None \<longrightarrow> n = 0" "\<forall>d. payload = Some d \<longrightarrow> unat n \<le> length d"
    and msg: "msg = publish_message ident topic qos retain (payload_bytes payload n)"
    and room: "length (rb_bytes rb) + length msg \<le> 256"
    and rem: "unat rem = length topic + 2 + (if qos > 0 then 2 else 0) + unat n"
  shows "\<exists>rb'. build_publish ident topic payload n qos retain rem rb = Ok rb' \<and> appended rb msg rb'"
proof -
  let ?pay = "payload_bytes payload n" and ?h = "ctl_byte 3 0 qos retain"
  let ?rem = "length topic + 2 + (if qos > 0 then 2 else 0) + length ?pay"
  have pay: "length ?pay = unat n" using payload by (auto simp: payload_bytes_def split: option.split)
  let ?id = "if qos > 0 then enc_u16 (unat ident) else []"
  have len: "length (rb_bytes rb) + length (enc_header ?h ?rem) + length (enc_string topic) + length ?id + length ?pay \<le> 256"
    using room by (simp add: msg publish_message_def)
  define rb1 where "rb1 = mqtt_output_append_fixed_header rb 3 0 qos retain rem"
  have one: "appended rb (enc_header ?h ?rem) rb1"
    unfolding rb1_def using inv len rem pay by (intro append_header_step) simp_all
  obtain rb2 where two: "mqtt_output_append_string rb1 topic (word_of_nat (length topic)) = Ok rb2"
      "appended rb1 (enc_string topic) rb2"
    using mqtt_output_append_string_appended [OF appended_inv [OF one], of topic "word_of_nat (length topic)"]
      len appended_length [OF one] topic by (auto simp: unat_of_nat_u16)
  define rb3 where "rb3 = (if qos > 0 then mqtt_output_append_u16 rb2 ident else rb2)"
  have three: "appended rb2 ?id rb3"
    unfolding rb3_def
    using len appended_length [OF one] appended_length [OF two(2)] appended_inv [OF two(2)]
    by (auto intro: mqtt_output_append_u16_appended appended_Nil)
  have "\<exists>rb4. (case payload of None \<Rightarrow> Ok rb3 | Some d \<Rightarrow> if n > 0 then mqtt_output_append_buf rb3 d n else Ok rb3) = Ok rb4
      \<and> appended rb3 ?pay rb4"
  proof (cases "n > 0")
    case True
    then obtain d where d: "payload = Some d" "unat n \<le> length d" using payload by (cases payload) auto
    have "length (rb_bytes rb3) + unat n \<le> 256"
      using len pay appended_length [OF one] appended_length [OF two(2)] appended_length [OF three] by simp
    from mqtt_output_append_buf_appended [OF appended_inv [OF three] this d(2)] d(1) True show ?thesis
      by (simp add: payload_bytes_def)
  next
    case False
    then have "n = 0" by (simp add: word_greater_zero_iff)
    then have "?pay = []" using pay by simp
    with False show ?thesis
      using appended_Nil [OF appended_inv [OF three]] by (cases payload) simp_all
  qed
  then obtain rb4 where four: "(case payload of None \<Rightarrow> Ok rb3 | Some d \<Rightarrow> if n > 0 then mqtt_output_append_buf rb3 d n else Ok rb3) = Ok rb4"
      "appended rb3 ?pay rb4" by blast
  have "appended rb msg rb4"
    using appended_trans [OF one appended_trans [OF two(2) appended_trans [OF three four(2)]]]
    by (simp add: msg publish_message_def)
  with two(1) four(1) show ?thesis
    by (simp add: build_publish_def rb1_def [symmetric] rb3_def [symmetric])
qed

lemma build_subscribe_run:
  assumes inv: "rb_inv rb" and topic: "length topic < 65536"
    and msg: "msg = subscribe_message sub ident topic qos" and room: "length (rb_bytes rb) + length msg \<le> 256"
    and rem: "unat rem = length topic + 4 + (if sub then 1 else 0)"
  shows "\<exists>rb'. build_subscribe sub ident topic qos rem rb = Ok rb' \<and> appended rb msg rb'"
proof -
  let ?h = "ctl_byte (if sub then 8 else 10) 0 1 0" and ?q = "if sub then [min qos 2] else []"
  have len: "length (rb_bytes rb) + length (enc_header ?h (unat rem)) + 2 + length (enc_string topic) + length ?q \<le> 256"
    using room by (simp add: msg subscribe_message_def rem)
  define rb1 where "rb1 = mqtt_output_append_fixed_header rb (if sub then 8 else 10) 0 1 0 rem"
  have one: "appended rb (enc_header ?h (unat rem)) rb1"
    unfolding rb1_def using inv len by (intro append_header_step) simp_all
  have two: "appended rb1 (enc_u16 (unat ident)) (mqtt_output_append_u16 rb1 ident)"
    using len appended_length [OF one] by (intro mqtt_output_append_u16_appended appended_inv [OF one]) simp
  obtain rb3 where three: "mqtt_output_append_string (mqtt_output_append_u16 rb1 ident) topic (word_of_nat (length topic)) = Ok rb3"
      "appended (mqtt_output_append_u16 rb1 ident) (enc_string topic) rb3"
    using mqtt_output_append_string_appended [OF appended_inv [OF two], of topic "word_of_nat (length topic)"]
      len appended_length [OF one] appended_length [OF two] topic by (auto simp: unat_of_nat_u16)
  have four: "appended rb3 ?q (if sub then mqtt_output_append_u8 rb3 (min qos 2) else rb3)"
    using len appended_length [OF one] appended_length [OF two] appended_length [OF three(2)]
      appended_inv [OF three(2)]
    by (auto intro: mqtt_output_append_u8_appended appended_Nil)
  have "appended rb msg (if sub then mqtt_output_append_u8 rb3 (min qos 2) else rb3)"
    using appended_trans [OF one appended_trans [OF two appended_trans [OF three(2) four]]]
    by (simp add: msg subscribe_message_def rem)
  with three(1) show ?thesis by (simp add: build_subscribe_def rb1_def [symmetric])
qed

section \<open>Publish and subscribe\<close>

lemma length_enc_header [simp]: "length (enc_header b n) = Suc (length (enc_length n))"
  by (simp add: enc_header_def)

lemma check_space_message:
  assumes "unat r \<le> 65531" and "length msg = unat r + Suc (length (enc_length (unat r)))"
  shows "mqtt_output_check_space rb r \<longleftrightarrow> length (rb_bytes rb) + length msg \<le> 256"
  unfolding mqtt_output_check_space_iff [OF assms(1)] assms(2) by linarith

lemma mqtt_publish_eq:
  assumes "conn_state (client w) \<noteq> TCP_DISCONNECTED" and len: "length topic + unat n \<le> 65527"
  shows "mqtt_publish io topic payload n qos retain c a w =
    (let ident = publish_ident qos (client w);
         rem = word_of_nat (length topic + 2 + (if qos > 0 then 2 else 0) + unat n);
         cl = (if qos > 0 then snd (msg_generate_packet_id (client w)) else client w) in
     submit io ident c a rem (build_publish ident topic payload n qos retain rem) cl w)"
proof -
  have t: "unat (word_of_nat (length topic) :: u16) = length topic" using len by (simp add: unat_of_nat)
  have r: "word_of_nat (Suc (Suc (length topic + unat n))) + 2 =
      (word_of_nat (length topic + 2 + 2 + unat n) :: u16)"
    by simp
  show ?thesis
    using assms t
    by (cases "qos > 0")
      (simp_all add: mqtt_publish_def submit_def build_publish_def publish_ident_def Let_def bind_outcome_assoc
        prod.case_distrib option.case_distrib r split: prod.split option.split)
qed

lemma mqtt_publish_run:
  assumes inv: "core_inv (client w)" and p: "conn (client w) = Some p"
    and len: "length topic + unat n \<le> 65527"
    and payload: "payload = None \<longrightarrow> n = 0" "\<forall>d. payload = Some d \<longrightarrow> unat n \<le> length d"
    and msg: "msg = publish_message (publish_ident qos (client w)) topic qos retain (payload_bytes payload n)"
  shows "yields (mqtt_publish io topic payload n qos retain c a w) (\<lambda>(e, w').
    api_frame w w' \<and> core_inv (client w') \<and> e = (if has_room (client w) msg then ERR_OK else ERR_MEM) \<and>
    (if has_room (client w) msg then accepted io p w (publish_ident qos (client w)) c a msg w' else refused w w'))"
proof -
  let ?id = "publish_ident qos (client w)"
  let ?rem = "word_of_nat (length topic + 2 + (if qos > 0 then 2 else 0) + unat n) :: u16"
  let ?cl = "if qos > 0 then snd (msg_generate_packet_id (client w)) else client w"
  have st: "conn_state (client w) \<noteq> TCP_DISCONNECTED" using inv p by (auto simp: core_inv_def)
  have rem: "unat ?rem = length topic + 2 + (if qos > 0 then 2 else 0) + unat n"
    using len by (intro unat_of_nat_u16) simp
  have pay: "length (payload_bytes payload n) = unat n"
    using payload by (auto simp: payload_bytes_def split: option.split)
  obtain k where cl: "?cl = (client w)\<lparr>pkt_id_seq := k\<rparr>"
  proof (cases "qos > 0")
    case True
    with that msg_generate_packet_id_frame [of "client w"] show ?thesis by simp
  next
    case False
    with that [of "pkt_id_seq (client w)"] show ?thesis by simp
  qed
  have "mqtt_output_check_space (out_rb ?cl) ?rem \<longleftrightarrow> length (rb_bytes (out_rb ?cl)) + length msg \<le> 256"
    using len pay by (intro check_space_message) (simp_all only: rem, simp_all add: msg publish_message_def)
  moreover have "\<exists>rb'. build_publish ?id topic payload n qos retain ?rem rb = Ok rb' \<and> appended rb msg rb'"
    if "rb_inv rb" "length (rb_bytes rb) + length msg \<le> 256" for rb
    using len that rem by (intro build_publish_run [OF _ _ payload msg]) simp_all
  moreover have "conn ?cl = Some p" using p by (simp add: cl)
  ultimately show ?thesis
    unfolding mqtt_publish_eq [OF st len] Let_def by (intro submit_run [OF inv cl])
qed

lemma mqtt_sub_unsub_eq:
  assumes "conn_state (client w) \<noteq> TCP_DISCONNECTED" and len: "length topic \<le> 65526"
  shows "mqtt_sub_unsub io topic qos c a sub w =
    (let ident = fst (msg_generate_packet_id (client w));
         rem = word_of_nat (length topic + 4 + (if sub then 1 else 0)) in
     submit io ident c a rem (build_subscribe sub ident topic qos rem) (snd (msg_generate_packet_id (client w))) w)"
proof -
  have t: "unat (word_of_nat (length topic) :: u16) = length topic" using len by (simp add: unat_of_nat)
  obtain ident cl where g: "msg_generate_packet_id (client w) = (ident, cl)" by fastforce
  obtain r objs where cr: "mqtt_create_request (req_list cl) ident c a = (r, objs)" by fastforce
  show ?thesis
    using assms t
    by (cases sub; cases r)
      (simp_all add: mqtt_sub_unsub_def submit_def build_subscribe_def Let_def bind_outcome_assoc g cr
        add.commute [of 4] add.commute [of 5])
qed

lemma mqtt_sub_unsub_run:
  assumes inv: "core_inv (client w)" and p: "conn (client w) = Some p" and len: "length topic \<le> 65526"
    and ident: "ident = fst (msg_generate_packet_id (client w))"
    and msg: "msg = subscribe_message sub ident topic qos"
  shows "yields (mqtt_sub_unsub io topic qos c a sub w) (\<lambda>(e, w').
    api_frame w w' \<and> core_inv (client w') \<and> e = (if has_room (client w) msg then ERR_OK else ERR_MEM) \<and>
    (if has_room (client w) msg then accepted io p w ident c a msg w' else refused w w'))"
proof -
  let ?rem = "word_of_nat (length topic + 4 + (if sub then 1 else 0)) :: u16"
  let ?cl = "snd (msg_generate_packet_id (client w))"
  have st: "conn_state (client w) \<noteq> TCP_DISCONNECTED" using inv p by (auto simp: core_inv_def)
  have rem: "unat ?rem = length topic + 4 + (if sub then 1 else 0)"
    using len by (intro unat_of_nat_u16) simp
  have cl: "?cl = (client w)\<lparr>pkt_id_seq := ident\<rparr>"
    unfolding ident by (rule msg_generate_packet_id_frame)
  have "mqtt_output_check_space (out_rb ?cl) ?rem \<longleftrightarrow> length (rb_bytes (out_rb ?cl)) + length msg \<le> 256"
    using len by (intro check_space_message) (simp_all only: rem, simp_all add: msg subscribe_message_def)
  moreover have "\<exists>rb'. build_subscribe sub ident topic qos ?rem rb = Ok rb' \<and> appended rb msg rb'"
    if "rb_inv rb" "length (rb_bytes rb) + length msg \<le> 256" for rb
    using len that rem by (intro build_subscribe_run [OF _ _ msg]) simp_all
  moreover have "conn ?cl = Some p" using p by (simp add: cl)
  ultimately show ?thesis
    unfolding mqtt_sub_unsub_eq [OF st len] Let_def ident [symmetric] by (intro submit_run [OF inv cl])
qed

end
