(* ===== verification/MqttConnect.thy ===== *)
theory MqttConnect
  imports MqttInv
begin

unbundle bit_operations_syntax

text \<open>
  Connecting and closing: the CONNECT message \<open>mqtt_client_connect\<close> puts into the ring, the
  invariant in every outcome of the TCP calls, and the same for the closing of a connection,
  from which the application connects again.
\<close>

section \<open>The CONNECT message\<close>

definition will_fields :: "mqtt_connect_client_info_t \<Rightarrow> (u8 list \<times> u8 list) option" where
  "will_fields ci = (case (will_topic ci, will_msg ci) of (Some wt, Some wm) \<Rightarrow> Some (wt, wm) | _ \<Rightarrow> None)"

definition connect_flags :: "mqtt_connect_client_info_t \<Rightarrow> u8" where
  "connect_flags ci =
     (if will_fields ci = None then 0
      else MQTT_CONNECT_FLAG_WILL OR push_bit 3 (will_qos ci AND 3)
           OR (if will_retain ci \<noteq> 0 then MQTT_CONNECT_FLAG_WILL_RETAIN else 0))
     OR MQTT_CONNECT_FLAG_CLEAN_SESSION"

definition will_length :: "mqtt_connect_client_info_t \<Rightarrow> nat" where
  "will_length ci = (case will_fields ci of None \<Rightarrow> 0 | Some (wt, wm) \<Rightarrow> 4 + length wt + length wm)"

definition connect_message :: "mqtt_connect_client_info_t \<Rightarrow> u8 list" where
  "connect_message ci =
     enc_header (ctl_byte 1 0 0 0) (12 + will_length ci + length (client_id ci)) @
     enc_string (ascii ''MQTT'') @ [4, connect_flags ci] @ enc_u16 (unat (ci_keep_alive ci)) @
     enc_string (client_id ci) @
     (case will_fields ci of None \<Rightarrow> [] | Some (wt, wm) \<Rightarrow> enc_string wt @ enc_string wm)"

definition will_ok :: "mqtt_connect_client_info_t \<Rightarrow> bool" where
  "will_ok ci \<longleftrightarrow>
     (case will_fields ci of None \<Rightarrow> True
      | Some (wt, wm) \<Rightarrow> 0 < length wt \<and> length wt \<le> 255 \<and> length wm \<le> 255)"

lemma connect_flags_will: "connect_flags ci AND MQTT_CONNECT_FLAG_WILL \<noteq> 0 \<longleftrightarrow> will_fields ci \<noteq> None"
proof -
  have "bit (connect_flags ci AND MQTT_CONNECT_FLAG_WILL) 2" if "will_fields ci \<noteq> None"
    using that by (auto simp: connect_flags_def MQTT_CONNECT_FLAG_WILL_def bit_simps)
  then have "connect_flags ci AND MQTT_CONNECT_FLAG_WILL \<noteq> 0" if "will_fields ci \<noteq> None"
    using that by (metis bit_0_eq bot_apply bot_bool_def)
  then show ?thesis
    by (auto simp: connect_flags_def MQTT_CONNECT_FLAG_WILL_def MQTT_CONNECT_FLAG_CLEAN_SESSION_def)
qed

lemma unat_of_nat_u8: "n < 256 \<Longrightarrow> unat (word_of_nat n :: u8) = n"
  by (simp add: unat_of_nat)

definition will_lens :: "mqtt_connect_client_info_t \<Rightarrow> u8 \<times> u8" where
  "will_lens ci =
     (case will_fields ci of None \<Rightarrow> (0, 0) | Some (wt, wm) \<Rightarrow> (word_of_nat (length wt), word_of_nat (length wm)))"

lemma connect_lengths_eq:
  assumes len: "length (client_id ci) \<le> 60000"
  shows "connect_lengths ci =
    (if will_ok ci
     then Some (connect_flags ci, fst (will_lens ci), snd (will_lens ci), word_of_nat (length (client_id ci)),
                word_of_nat (12 + will_length ci + length (client_id ci)))
     else None)"
proof (cases "will_fields ci")
  case None
  then have no: "will_topic ci = None \<or> will_msg ci = None"
    by (auto simp: will_fields_def split: option.splits)
  from None len no show ?thesis
    by (cases "will_topic ci"; cases "will_msg ci")
      (simp_all add: connect_lengths_def will_ok_def connect_flags_def will_lens_def will_length_def unat_of_nat Let_def)
next
  case (Some ws)
  then obtain wt wm where w: "will_topic ci = Some wt" "will_msg ci = Some wm" "ws = (wt, wm)"
    by (auto simp: will_fields_def split: option.splits)
  have "unat (14 + word_of_nat k + word_of_nat l :: u16) = 14 + k + l" if "k \<le> 255" "l \<le> 255" for k l
    using that by (simp add: unat_word_ariths unat_of_nat)
  with Some len w show ?thesis
    by (auto simp: connect_lengths_def will_ok_def connect_flags_def will_lens_def will_length_def unat_of_nat
        unat_of_nat_u8 Let_def or.assoc)
qed

lemma ascii_mqtt [simp]: "length (ascii s) = length s"
  by (simp add: ascii_def)

lemma append_connect_run:
  assumes inv: "rb_inv rb" and room: "length (rb_bytes rb) + length (connect_message ci) \<le> 256" and ok: "will_ok ci"
    and rem: "unat rem = 12 + will_length ci + length (client_id ci)"
    and n: "unat n = length (client_id ci)"
  shows "\<exists>rb'. append_connect rb ci (connect_flags ci, fst (will_lens ci), snd (will_lens ci), n, rem) = Ok rb' \<and>
    appended rb (connect_message ci) rb'"
proof -
  let ?w = "case will_fields ci of None \<Rightarrow> [] | Some (wt, wm) \<Rightarrow> enc_string wt @ enc_string wm"
  have len: "length (rb_bytes rb) + length (enc_header (ctl_byte 1 0 0 0) (unat rem)) +
      length (enc_string (ascii ''MQTT'')) + 4 + length (enc_string (client_id ci)) + length ?w \<le> 256"
    using room by (simp add: connect_message_def rem)
  define rb1 where "rb1 = mqtt_output_append_fixed_header rb 1 0 0 0 rem"
  have one: "appended rb (enc_header (ctl_byte 1 0 0 0) (unat rem)) rb1"
    unfolding rb1_def using inv len by (intro append_header_step) simp_all
  obtain rb2 where two: "mqtt_output_append_string rb1 (ascii ''MQTT'') 4 = Ok rb2"
      "appended rb1 (enc_string (ascii ''MQTT'')) rb2"
    using mqtt_output_append_string_appended [OF appended_inv [OF one], of "ascii ''MQTT''" 4]
      len appended_length [OF one] by auto
  have three: "appended rb2 [4] (mqtt_output_append_u8 rb2 4)"
    using len appended_length [OF one] appended_length [OF two(2)]
    by (intro mqtt_output_append_u8_appended appended_inv [OF two(2)]) simp
  have four: "appended (mqtt_output_append_u8 rb2 4) [connect_flags ci]
      (mqtt_output_append_u8 (mqtt_output_append_u8 rb2 4) (connect_flags ci))"
    using len appended_length [OF one] appended_length [OF two(2)] appended_length [OF three]
    by (intro mqtt_output_append_u8_appended appended_inv [OF three]) simp
  let ?rb5 = "mqtt_output_append_u16 (mqtt_output_append_u8 (mqtt_output_append_u8 rb2 4) (connect_flags ci)) (ci_keep_alive ci)"
  have five: "appended (mqtt_output_append_u8 (mqtt_output_append_u8 rb2 4) (connect_flags ci))
      (enc_u16 (unat (ci_keep_alive ci))) ?rb5"
    using len appended_length [OF one] appended_length [OF two(2)] appended_length [OF three] appended_length [OF four]
    by (intro mqtt_output_append_u16_appended appended_inv [OF four]) simp
  obtain rb6 where six: "mqtt_output_append_string ?rb5 (client_id ci) n = Ok rb6"
      "appended ?rb5 (enc_string (client_id ci)) rb6"
    using mqtt_output_append_string_appended [OF appended_inv [OF five], of "client_id ci" n] n
      len appended_length [OF one] appended_length [OF two(2)] appended_length [OF three] appended_length [OF four]
      appended_length [OF five] by auto
  note upto = appended_trans [OF one appended_trans [OF two(2) appended_trans [OF three
        appended_trans [OF four appended_trans [OF five six(2)]]]]]
  have start: "append_connect rb ci (connect_flags ci, fst (will_lens ci), snd (will_lens ci), n, rem) =
      (if will_fields ci \<noteq> None then
       (case (will_topic ci, will_msg ci) of
          (Some wt, Some wm) \<Rightarrow>
            bind_outcome (mqtt_output_append_string rb6 wt (ucast (fst (will_lens ci)))) (\<lambda>rb.
              mqtt_output_append_string rb wm (ucast (snd (will_lens ci))))
        | _ \<Rightarrow> Halt NullDeref)
     else Ok rb6)"
    using two(1) six(1) unfolding connect_flags_will [symmetric]
    by (simp add: append_connect_def rb1_def [symmetric] Let_def)
  have "\<exists>rb'. append_connect rb ci (connect_flags ci, fst (will_lens ci), snd (will_lens ci), n, rem) = Ok rb' \<and>
      appended rb6 ?w rb'"
  proof (cases "will_fields ci")
    case None
    then show ?thesis using start appended_Nil [OF appended_inv [OF six(2)]] by simp
  next
    case (Some ws)
    then obtain wt wm where w: "will_topic ci = Some wt" "will_msg ci = Some wm" "ws = (wt, wm)"
      by (auto simp: will_fields_def split: option.splits)
    have l: "unat (ucast (fst (will_lens ci)) :: u16) = length wt" "unat (ucast (snd (will_lens ci)) :: u16) = length wm"
      using Some w(3) ok by (simp_all add: will_lens_def will_ok_def unat_of_nat_u8)
    have room6: "length (rb_bytes rb6) + length (enc_string wt) + length (enc_string wm) \<le> 256"
      using len appended_length [OF upto] Some w(3) by simp
    then obtain rb7 where seven: "mqtt_output_append_string rb6 wt (ucast (fst (will_lens ci))) = Ok rb7"
        "appended rb6 (enc_string wt) rb7"
      using mqtt_output_append_string_appended [OF appended_inv [OF six(2)] _ l(1)] by auto
    then obtain rb8 where eight: "mqtt_output_append_string rb7 wm (ucast (snd (will_lens ci))) = Ok rb8"
        "appended rb7 (enc_string wm) rb8"
      using mqtt_output_append_string_appended [OF appended_inv [OF seven(2)] _ l(2)]
        room6 appended_length [OF seven(2)] by auto
    show ?thesis
      using start Some w seven(1) eight(1) appended_trans [OF seven(2) eight(2)] by simp
  qed
  with appended_trans [OF upto] show ?thesis
    by (fastforce simp: connect_message_def rem)
qed

section \<open>Connecting\<close>

text \<open>The client object a connection attempt starts from.\<close>

definition fresh_client :: "mqtt_connection_cb_t option \<Rightarrow> u32 \<Rightarrow> mqtt_connect_client_info_t \<Rightarrow> mqtt_client_t" where
  "fresh_client c a ci =
     zero_mqtt_client\<lparr>connect_arg := a, connect_cb := c, keep_alive := ci_keep_alive ci,
                 req_list := mqtt_init_requests (req_list zero_mqtt_client)\<rparr>"

lemma fresh_client_fields [simp]:
  "conn (fresh_client c a ci) = None" "conn_state (fresh_client c a ci) = TCP_DISCONNECTED"
  "connect_cb (fresh_client c a ci) = c" "connect_arg (fresh_client c a ci) = a"
  "data_cb (fresh_client c a ci) = None" "pend_req_queue (fresh_client c a ci) = None"
  "keep_alive (fresh_client c a ci) = ci_keep_alive ci" "msg_idx (fresh_client c a ci) = 0"
  "length (rx_buffer (fresh_client c a ci)) = 128"
  "req_list (fresh_client c a ci) = mqtt_init_requests (req_list zero_mqtt_client)"
  "cyclic_tick (fresh_client c a ci) = 0" "server_watchdog (fresh_client c a ci) = 0"
  by (simp_all add: fresh_client_def zero_mqtt_client_def MQTT_VAR_HEADER_BUFFER_LEN_def)

lemma zero_ring: "rb_inv (out_rb zero_mqtt_client)" "rb_bytes (out_rb zero_mqtt_client) = []"
proof -
  have "mqtt_ringbuf_len (out_rb zero_mqtt_client) = 0" by (simp add: mqtt_ringbuf_len_def zero_mqtt_client_def)
  then show "rb_inv (out_rb zero_mqtt_client)" "rb_bytes (out_rb zero_mqtt_client) = []"
    by (simp_all add: rb_inv_def rb_bytes_def zero_mqtt_client_def MQTT_OUTPUT_RINGBUF_SIZE_def)
qed

lemma fresh_ring [simp]: "out_rb (fresh_client c a ci) = out_rb zero_mqtt_client"
  by (simp add: fresh_client_def)

lemma fresh_queue: "queue_inv (req_list (fresh_client c a ci)) None []"
  "\<forall>n < 4. free_slot (req_list (fresh_client c a ci)) n"
proof -
  have "length (req_list zero_mqtt_client) = 4" by (simp add: zero_mqtt_client_def MQTT_REQ_MAX_IN_FLIGHT_def)
  from mqtt_init_requests_run [OF this] show "queue_inv (req_list (fresh_client c a ci)) None []"
    "\<forall>n < 4. free_slot (req_list (fresh_client c a ci)) n" by simp_all
qed

lemma core_inv_fresh: "core_inv (fresh_client c a ci)"
  unfolding core_inv_def using fresh_queue(1) [of c a ci] zero_ring(1) by auto

definition connect_room :: "mqtt_connect_client_info_t \<Rightarrow> bool" where
  "connect_room ci \<longleftrightarrow> will_ok ci \<and> length (connect_message ci) \<le> 256"

text \<open>What a connection attempt leaves behind, for every answer of TCP.\<close>

definition connect_post ::
  "mqtt_connection_cb_t option \<Rightarrow> u32 \<Rightarrow> mqtt_connect_client_info_t \<Rightarrow> 's world \<Rightarrow> err_t \<Rightarrow> 's world \<Rightarrow> bool" where
  "connect_post c a ci w e w' \<longleftrightarrow>
     core_inv (client w') \<and> hooks_inv w' \<and> timers w' = timers w \<and>
     (e = ERR_OK \<and> connect_room ci \<and>
        (\<exists>p rb. client w' = (fresh_client c a ci)\<lparr>conn := Some p, conn_state := TCP_CONNECTING, out_rb := rb\<rparr> \<and>
           hooks w' p = {Connected_hook, Err_hook} \<and> rb_bytes rb = connect_message ci)
      \<or> e \<noteq> ERR_OK \<and> client w' = fresh_client c a ci)"

lemma hooks_inv_none:
  "hooks_inv w \<Longrightarrow> conn (client w) = None \<Longrightarrow> hooks w p \<inter> {Recv_hook, Sent_hook, Err_hook} = {}"
  by (auto simp: hooks_inv_def)

lemma connect_fail_post:
  assumes "\<And>p. hooks w' p \<inter> {Recv_hook, Sent_hook, Err_hook} = {}" and "client w' = fresh_client c a ci"
    and "timers w' = timers w" and "e \<noteq> ERR_OK"
  shows "connect_post c a ci w e w'"
  using assms core_inv_fresh by (simp add: connect_post_def hooks_inv_def)

text \<open>The part of the attempt that follows \<open>tcp_new\<close>.\<close>

definition connect_tcp ::
  "'s tcp_api \<Rightarrow> u8 list \<Rightarrow> u16 \<Rightarrow> pcb \<Rightarrow> mqtt_connect_client_info_t \<Rightarrow> u8 \<times> u8 \<times> u8 \<times> u16 \<times> u16 \<Rightarrow>
   mqtt_client_t \<Rightarrow> 's world \<Rightarrow> (err_t \<times> 's world) outcome" where
  "connect_tcp io ip port p ci lens cl w =
     (let w = set_hooks p (\<lambda>_. {}) w;
          fail = (\<lambda>err w. Ok (err, set_hooks p (\<lambda>_. {}) (w\<lparr>tcp := tcp_abort io (tcp w) p\<rparr>)));
          (err, s) = tcp_bind io (tcp w) p;
          w = w\<lparr>tcp := s\<rparr> in
      if err \<noteq> ERR_OK then fail err w
      else
      let (err, s) = tcp_connect io (tcp w) p ip port;
          w = w\<lparr>tcp := s\<rparr> in
      if err \<noteq> ERR_OK then fail err w
      else
      let w = set_hooks p (\<lambda>H. H \<union> {Connected_hook, Err_hook}) w in
      bind_outcome (append_connect (out_rb cl) ci lens) (\<lambda>rb.
        Ok (ERR_OK, w\<lparr>client := cl\<lparr>conn := Some p, conn_state := TCP_CONNECTING, out_rb := rb\<rparr>\<rparr>)))"

lemma connect_tcp_run:
  assumes room: "connect_room ci" and w0: "client w0 = fresh_client c a ci" "timers w0 = timers w"
    and none: "\<And>p. hooks w0 p \<inter> {Recv_hook, Sent_hook, Err_hook} = {}"
    and rem: "unat rem = 12 + will_length ci + length (client_id ci)" and n: "unat n = length (client_id ci)"
  shows "yields (connect_tcp io ip port p ci (connect_flags ci, fst (will_lens ci), snd (will_lens ci), n, rem)
    (fresh_client c a ci) w0) (\<lambda>(e, w'). connect_post c a ci w e w')"
proof -
  let ?cl = "fresh_client c a ci"
  obtain e2 s2 where t2: "tcp_bind io (tcp w0) p = (e2, s2)" by fastforce
  obtain e3 s3 where t3: "tcp_connect io s2 p ip port = (e3, s3)" by fastforce
  obtain rb where rb: "append_connect (out_rb ?cl) ci (connect_flags ci, fst (will_lens ci), snd (will_lens ci), n, rem) = Ok rb"
      "appended (out_rb zero_mqtt_client) (connect_message ci) rb"
    using append_connect_run [OF zero_ring(1) _ _ rem n] room zero_ring(2) by (auto simp: connect_room_def)
  have "core_inv (?cl\<lparr>conn := Some p, conn_state := TCP_CONNECTING, out_rb := rb\<rparr>)"
    using core_inv_fresh [of c a ci] appended_inv [OF rb(2)] by (simp add: core_inv_def)
  moreover have "rb_bytes rb = connect_message ci"
    using appended_bytes [OF rb(2)] zero_ring(2) by simp
  ultimately show ?thesis
    using t2 t3 rb(1) room w0 none
    by (auto simp: connect_tcp_def Let_def set_hooks_def hooks_inv_def connect_post_def core_inv_fresh)
qed

lemma mqtt_client_connect_eq:
  assumes st: "conn_state (client w) = TCP_DISCONNECTED" and lens: "connect_lengths ci = Some lens"
  shows "mqtt_client_connect io ip port c a ci w =
    (let cl = fresh_client c a ci in
     if \<not> mqtt_output_check_space (out_rb cl) (snd (snd (snd (snd lens)))) then Ok (ERR_MEM, w\<lparr>client := cl\<rparr>)
     else case tcp_new io (tcp w) of (np, s) \<Rightarrow>
       (case np of None \<Rightarrow> Ok (ERR_MEM, w\<lparr>client := cl, tcp := s\<rparr>)
        | Some p \<Rightarrow> connect_tcp io ip port p ci lens cl (w\<lparr>client := cl, tcp := s\<rparr>)))"
proof -
  have cl: "zero_mqtt_client\<lparr>connect_arg := a, connect_cb := c, keep_alive := ci_keep_alive ci,
      req_list := mqtt_init_requests (req_list zero_mqtt_client)\<rparr> = fresh_client c a ci"
    by (simp add: fresh_client_def)
  obtain np s where t1: "tcp_new io (tcp w) = (np, s)" by fastforce
  show ?thesis
  proof (cases np)
    case None
    then show ?thesis using st by (simp add: mqtt_client_connect_def lens cl t1 Let_def)
  next
    case (Some p)
    obtain e2 s2 where t2: "tcp_bind io s p = (e2, s2)" by fastforce
    obtain e3 s3 where t3: "tcp_connect io s2 p ip port = (e3, s3)" by fastforce
    show ?thesis
      using st Some by (simp add: mqtt_client_connect_def connect_tcp_def lens cl t1 t2 t3 set_hooks_def Let_def)
  qed
qed

lemma mqtt_client_connect_run:
  assumes st: "conn_state (client w) = TCP_DISCONNECTED" "conn (client w) = None" and hk: "hooks_inv w"
    and len: "length (client_id ci) \<le> 60000"
  shows "yields (mqtt_client_connect io ip port c a ci w) (\<lambda>(e, w'). connect_post c a ci w e w')"
proof -
  let ?cl = "fresh_client c a ci"
  let ?rem = "word_of_nat (12 + will_length ci + length (client_id ci)) :: u16"
  let ?lens = "(connect_flags ci, fst (will_lens ci), snd (will_lens ci), word_of_nat (length (client_id ci)) :: u16, ?rem)"
  note none = hooks_inv_none [OF hk st(2)]
  have cl: "zero_mqtt_client\<lparr>connect_arg := a, connect_cb := c, keep_alive := ci_keep_alive ci,
      req_list := mqtt_init_requests (req_list (zero_mqtt_client\<lparr>connect_arg := a, connect_cb := c, keep_alive := ci_keep_alive ci\<rparr>))\<rparr> = ?cl"
    by (simp add: fresh_client_def)
  show ?thesis
  proof (cases "will_ok ci")
    case False
    then show ?thesis
      using st cl none by (auto simp: mqtt_client_connect_def Let_def connect_lengths_eq [OF len] intro!: connect_fail_post)
  next
    case True
    have wl: "will_length ci \<le> 514" using True by (auto simp: will_ok_def will_length_def split: option.splits)
    then have rem: "unat ?rem = 12 + will_length ci + length (client_id ci)"
      using len by (intro unat_of_nat_u16) simp
    have space: "mqtt_output_check_space (out_rb ?cl) ?rem \<longleftrightarrow> connect_room ci"
      using check_space_message [of ?rem "connect_message ci" "out_rb zero_mqtt_client"] wl len True zero_ring(2) rem
      by (auto simp: connect_room_def connect_message_def will_length_def split: option.splits)
    obtain np s1 where t1: "tcp_new io (tcp w) = (np, s1)" by fastforce
    have start: "mqtt_client_connect io ip port c a ci w =
      (if \<not> connect_room ci then Ok (ERR_MEM, w\<lparr>client := ?cl\<rparr>)
       else case np of None \<Rightarrow> Ok (ERR_MEM, w\<lparr>client := ?cl, tcp := s1\<rparr>)
       | Some p \<Rightarrow> connect_tcp io ip port p ci ?lens ?cl (w\<lparr>client := ?cl, tcp := s1\<rparr>))"
    proof -
      have "connect_lengths ci = Some ?lens" using True by (simp add: connect_lengths_eq [OF len])
      note mqtt_client_connect_eq [OF st(1) this, of io ip port c a, unfolded Let_def t1 snd_conv space prod.case]
      then show ?thesis .
    qed
    have "yields (connect_tcp io ip port p ci ?lens ?cl (w\<lparr>client := ?cl, tcp := s1\<rparr>)) (\<lambda>(e, w'). connect_post c a ci w e w')"
      if "connect_room ci" for p
      using that none len rem by (intro connect_tcp_run) (simp_all add: unat_of_nat_u16)
    then show ?thesis
      unfolding start using none by (auto split: option.split intro!: connect_fail_post)
  qed
qed

section \<open>The application's connection callback\<close>

lemma mqtt_inv_client:
  assumes "mqtt_inv w" and "core_inv cl" and "conn cl = conn (client w)" and "conn_state cl = conn_state (client w)"
    and "connect_cb cl = connect_cb (client w)" and "data_cb cl = data_cb (client w)"
  shows "mqtt_inv (w\<lparr>client := cl\<rparr>)"
  using assms by (simp add: mqtt_inv_def app_inv_def hooks_inv_def recv_inv_def timer_inv_def cyclic_timers_def)

lemma mqtt_inv_plain [simp]:
  "mqtt_inv (w\<lparr>tcp := s\<rparr>) = mqtt_inv w" "mqtt_inv (w\<lparr>console := x\<rparr>) = mqtt_inv w"
  "mqtt_inv (w\<lparr>inpub_id := y\<rparr>) = mqtt_inv w" "mqtt_inv (w\<lparr>buildConnetSuccess := z\<rparr>) = mqtt_inv w"
  "mqtt_inv (w\<lparr>now := t\<rparr>) = mqtt_inv w" "mqtt_inv (print p w) = mqtt_inv w"
  by (simp_all add: mqtt_inv_def hooks_inv_def recv_inv_def timer_inv_def cyclic_timers_def print_def)

lemma mqtt_inv_api:
  assumes inv: "mqtt_inv w" and fr: "api_frame w w'" and core: "core_inv (client w')"
  shows "mqtt_inv w'"
proof -
  have "mqtt_inv (w\<lparr>client := client w'\<rparr>)"
    using request_frame_keeps [of "client w" "client w'"] fr core
    by (intro mqtt_inv_client [OF inv]) (simp_all add: api_frame_def)
  then have "mqtt_inv (w\<lparr>client := client w', tcp := tcp w'\<rparr>)" by simp
  moreover have "w' = w\<lparr>client := client w', tcp := tcp w'\<rparr>" using fr by (simp add: api_frame_def)
  ultimately show ?thesis by metis
qed

text \<open>What the application may find when its callback reports the end of a connection.\<close>

definition disconnected :: "'s world \<Rightarrow> bool" where
  "disconnected w \<longleftrightarrow> conn_state (client w) = TCP_DISCONNECTED \<and> conn (client w) = None \<and>
     core_inv (client w) \<and> hooks_inv w \<and> timeouts_inv (timers w) \<and> cyclic_timers w = 0"

lemma disconnected_print [simp]:
  "disconnected (print x w) = disconnected w" "disconnected (w\<lparr>buildConnetSuccess := z\<rparr>) = disconnected w"
  by (simp_all add: disconnected_def hooks_inv_def cyclic_timers_def)

lemma recv_inv_none:
  "hooks_inv w \<Longrightarrow> (\<forall>p. conn (client w) = Some p \<longrightarrow> hooks w p \<inter> {Recv_hook, Sent_hook} = {}) \<Longrightarrow> recv_inv w"
  unfolding hooks_inv_def recv_inv_def by blast

lemma disconnected_inv: "disconnected w \<Longrightarrow> mqtt_inv w"
  by (simp add: disconnected_def mqtt_inv_def app_inv_def timer_inv_def recv_inv_none)

definition app_info :: mqtt_connect_client_info_t where
  "app_info = \<lparr>client_id = ascii ''lwip_test'', client_user = Some (ascii ''fmsh''),
     client_pass = Some (ascii ''123456''), ci_keep_alive = 60,
     will_topic = None, will_msg = None, will_qos = 0, will_retain = 0\<rparr>"

text \<open>A world in which a connection attempt is under way, or has failed at once.\<close>

definition reconnecting :: "'s world \<Rightarrow> bool" where
  "reconnecting w \<longleftrightarrow> mqtt_inv w \<and>
     (client w = fresh_client (Some Mqtt_connection_cb) 0 app_info \<or>
      (\<exists>p rb. client w = (fresh_client (Some Mqtt_connection_cb) 0 app_info)
                \<lparr>conn := Some p, conn_state := TCP_CONNECTING, out_rb := rb\<rparr> \<and>
              rb_bytes rb = connect_message app_info))"

lemma example_do_connect_run:
  assumes dis: "disconnected w"
  shows "yields (example_do_connect io w) (\<lambda>w'. reconnecting w' \<and> timers w' = timers w)"
proof -
  have post: "yields (mqtt_client_connect io [192, 168, 45, 119] MQTT_PORT (Some Mqtt_connection_cb) 0 app_info
      (print Connecting_msg w)) (\<lambda>(e, w'). connect_post (Some Mqtt_connection_cb) 0 app_info (print Connecting_msg w) e w')"
    using dis by (intro mqtt_client_connect_run) (auto simp: disconnected_def hooks_inv_def app_info_def)
  have "reconnecting w' \<and> timers w' = timers w"
    if "connect_post (Some Mqtt_connection_cb) 0 app_info (print Connecting_msg w) e w'" for e w'
  proof -
    have "recv_inv w'"
    proof (rule recv_inv_none)
      show "hooks_inv w'" using that by (simp add: connect_post_def)
      show "\<forall>p. conn (client w') = Some p \<longrightarrow> hooks w' p \<inter> {Recv_hook, Sent_hook} = {}"
        using that unfolding connect_post_def by (elim conjE disjE exE) simp_all
    qed
    with that dis show ?thesis
      by (auto simp: connect_post_def reconnecting_def mqtt_inv_def app_inv_def timer_inv_def cyclic_timers_def disconnected_def)
  qed
  then show ?thesis
    unfolding example_do_connect_def app_info_def [symmetric]
    by (intro yields_bind [OF post]) (auto simp: reconnecting_def)
qed

end
