(* ===== verification/MqttSafety.thy ===== *)
theory MqttSafety
  imports MqttConnect
begin

unbundle bit_operations_syntax

text \<open>
  Every callback of the MQTT client, and of the application behind it, returns and keeps the
  invariant, whatever TCP answers. For incoming data the exceptions are written out:
  \<open>publish_safe\<close> is what a PUBLISH has to satisfy.
\<close>

section \<open>Closing\<close>

lemma connection_lost_run:
  assumes "disconnected w" and "status \<noteq> MQTT_CONNECT_ACCEPTED"
  shows "yields (mqtt_connection_cb io a status w) (\<lambda>w'. reconnecting w' \<and> timers w' = timers w)"
proof -
  have "disconnected ((print (Disconnected_msg status) w)\<lparr>buildConnetSuccess := False\<rparr>)" using assms(1) by simp
  from example_do_connect_run [OF this, of io] assms(2) show ?thesis by (simp add: mqtt_connection_cb_def)
qed

text \<open>
  \<open>mqtt_close\<close> is also called with the connection already gone and with the state already
  changed, so it asks for less than the invariant.
\<close>

definition closable :: "'s world \<Rightarrow> bool" where
  "closable w \<longleftrightarrow>
     rb_inv (out_rb (client w)) \<and> length (rx_buffer (client w)) = 128 \<and>
     (\<exists>q. queue_inv (req_list (client w)) (pend_req_queue (client w)) q) \<and>
     (conn_state (client w) \<noteq> TCP_DISCONNECTED \<longrightarrow> connect_cb (client w) \<noteq> None) \<and>
     hooks_inv w \<and> timeouts_inv (timers w) \<and> cyclic_timers w \<le> 1"

lemma mqtt_inv_closable: "mqtt_inv w \<Longrightarrow> closable w"
  by (auto simp: mqtt_inv_def closable_def core_inv_def app_inv_def timer_inv_def)

definition cut :: "'s tcp_api \<Rightarrow> 's world \<Rightarrow> 's world" where
  "cut io w =
     (case conn (client w) of
        None \<Rightarrow> w
      | Some p \<Rightarrow>
          let w = set_hooks p (\<lambda>H. H - {Recv_hook, Err_hook, Sent_hook}) w;
              (res, s) = tcp_close io (tcp w) p;
              w = w\<lparr>tcp := s\<rparr>;
              w = (if res \<noteq> ERR_OK
                   then set_hooks p (\<lambda>_. {}) (w\<lparr>tcp := tcp_abort io (tcp w) p\<rparr>) else w) in
          w\<lparr>client := (client w)\<lparr>conn := None\<rparr>\<rparr>)"

lemma cut_fields:
  "client (cut io w) = (client w)\<lparr>conn := None\<rparr>" "timers (cut io w) = timers w" "now (cut io w) = now w"
  by (cases "conn (client w)"; auto simp: cut_def set_hooks_def Let_def split: prod.split)+

lemma cut_hooks: "hooks_inv w \<Longrightarrow> hooks (cut io w) p \<inter> {Recv_hook, Sent_hook, Err_hook} = {}"
  by (cases "conn (client w)") (auto simp: cut_def set_hooks_def hooks_inv_def Let_def split: prod.split)

text \<open>After closing, the client is disconnected, or the application has started to reconnect.\<close>

lemma mqtt_close_run:
  assumes cl: "closable w" and r: "reason \<noteq> MQTT_CONNECT_ACCEPTED \<or> conn_state (client w) = TCP_DISCONNECTED"
  shows "yields (mqtt_close io reason w) (\<lambda>w'. cyclic_timers w' = 0 \<and>
    (if conn_state (client w) = TCP_DISCONNECTED
     then disconnected w' \<and> (\<forall>n. free_slot (req_list (client w)) n \<longrightarrow> free_slot (req_list (client w')) n)
     else reconnecting w'))"
proof -
  let ?w = "cut io w"
  from cl obtain q where q: "queue_inv (req_list (client w)) (pend_req_queue (client w)) q"
    by (auto simp: closable_def)
  from mqtt_clear_requests_run [OF q] obtain objs where clr:
    "mqtt_clear_requests (req_list (client w)) (pend_req_queue (client w)) = Ok (objs, None)"
    "queue_inv objs None []" "\<forall>n \<in> set q. free_slot objs n"
    "\<forall>m. m \<notin> set q \<longrightarrow> objs ! m = req_list (client w) ! m" "same_items (req_list (client w)) objs" by blast
  define w1 where "w1 = ?w\<lparr>client := (client ?w)\<lparr>req_list := objs, pend_req_queue := None\<rparr>,
      timers := sys_untimeout Mqtt_cyclic_timer CLIENT (timers ?w)\<rparr>"
  have w1: "client w1 = (client w)\<lparr>conn := None, req_list := objs, pend_req_queue := None\<rparr>"
    "cyclic_timers w1 = 0" "timeouts_inv (timers w1)"
    "\<And>p. hooks w1 p \<inter> {Recv_hook, Sent_hook, Err_hook} = {}"
    using cl cut_hooks [of w io] by (simp_all add: w1_def cut_fields closable_def cyclic_timers_def)
  have start: "mqtt_close io reason w =
      (if conn_state (client w) \<noteq> TCP_DISCONNECTED then
        let w = w1\<lparr>client := (client w1)\<lparr>conn_state := TCP_DISCONNECTED\<rparr>\<rparr> in
        (case connect_cb (client w) of None \<Rightarrow> Ok w
         | Some Mqtt_connection_cb \<Rightarrow> mqtt_connection_cb io (connect_arg (client w)) reason w)
      else Ok w1)"
    unfolding mqtt_close_def cut_def [symmetric] by (simp add: cut_fields clr(1) w1_def Let_def)
  have free: "free_slot objs n" if "free_slot (req_list (client w)) n" for n
    using that clr(3-5) by (cases "n \<in> set q") (auto simp: free_slot_def same_items_def)
  show ?thesis
  proof (cases "conn_state (client w) = TCP_DISCONNECTED")
    case True
    then have "disconnected w1"
      using w1 cl clr(2) by (auto simp: disconnected_def core_inv_def hooks_inv_def closable_def)
    with True start w1(1,2) free show ?thesis by simp
  next
    case False
    let ?w2 = "w1\<lparr>client := (client w1)\<lparr>conn_state := TCP_DISCONNECTED\<rparr>\<rparr>"
    have "disconnected ?w2"
      using w1 cl clr(2) by (auto simp: disconnected_def core_inv_def hooks_inv_def closable_def cyclic_timers_def)
    from connection_lost_run [OF this, of reason io "connect_arg (client ?w2)"] r False
    have "yields (mqtt_connection_cb io (connect_arg (client ?w2)) reason ?w2)
        (\<lambda>w'. reconnecting w' \<and> timers w' = timers ?w2)" by simp
    moreover have "connect_cb (client ?w2) = Some Mqtt_connection_cb"
      using cl False w1(1) by (auto simp: closable_def) (metis mqtt_connection_cb_t.exhaust)
    ultimately show ?thesis
      using start False w1(2) by (auto simp: Let_def yields_def cyclic_timers_def)
  qed
qed

lemma mqtt_disconnect_run:
  assumes "mqtt_inv w"
  shows "yields (mqtt_disconnect io w) disconnected"
proof (cases "conn_state (client w) = TCP_DISCONNECTED")
  case True
  with assms show ?thesis
    by (simp add: mqtt_disconnect_def disconnected_def mqtt_inv_def core_inv_def timer_inv_def)
next
  case False
  let ?w = "w\<lparr>client := (client w)\<lparr>conn_state := TCP_DISCONNECTED\<rparr>\<rparr>"
  have "closable ?w"
    using mqtt_inv_closable [OF assms] by (simp add: closable_def hooks_inv_def cyclic_timers_def)
  from mqtt_close_run [OF this, of 0 io] False show ?thesis
    by (auto simp: mqtt_disconnect_def yields_def)
qed

lemma reconnecting_inv: "reconnecting w \<Longrightarrow> mqtt_inv w"
  by (simp add: reconnecting_def)

section \<open>Small steps that keep the invariant\<close>

lemma call_request_cb_fields [simp]:
  "client (call_request_cb x w) = client w" "tcp (call_request_cb x w) = tcp w"
  "hooks (call_request_cb x w) = hooks w" "timers (call_request_cb x w) = timers w"
  "mqtt_inv (call_request_cb x w) = mqtt_inv w"
  by (auto simp: call_request_cb_def mqtt_sub_request_cb_def mqtt_pub_request_cb_def
      split: prod.split mqtt_request_cb_t.split)

lemma fold_request_cb_fields [simp]:
  "client (fold call_request_cb ns w) = client w" "tcp (fold call_request_cb ns w) = tcp w"
  "hooks (fold call_request_cb ns w) = hooks w" "timers (fold call_request_cb ns w) = timers w"
  "mqtt_inv (fold call_request_cb ns w) = mqtt_inv w"
  by (induction ns arbitrary: w) auto

lemma core_inv_plain [simp]:
  "core_inv (cl\<lparr>cyclic_tick := x\<rparr>) = core_inv cl" "core_inv (cl\<lparr>server_watchdog := x\<rparr>) = core_inv cl"
  "core_inv (cl\<lparr>pkt_id_seq := x\<rparr>) = core_inv cl" "core_inv (cl\<lparr>inpub_pkt_id := x\<rparr>) = core_inv cl"
  "core_inv (cl\<lparr>msg_idx := i\<rparr>) = core_inv cl" "core_inv (cl\<lparr>data_cb := d\<rparr>) = core_inv cl"
  "core_inv (cl\<lparr>pub_cb := p\<rparr>) = core_inv cl" "core_inv (cl\<lparr>inpub_arg := a\<rparr>) = core_inv cl"
  by (simp_all add: core_inv_def)

lemma mqtt_inv_core: "mqtt_inv w \<Longrightarrow> core_inv (client w)"
  by (simp add: mqtt_inv_def)

text \<open>Updates of the client that concern neither the connection nor the callbacks.\<close>

definition quiet_update :: "(mqtt_client_t \<Rightarrow> mqtt_client_t) \<Rightarrow> mqtt_client_t \<Rightarrow> bool" where
  "quiet_update f cl \<longleftrightarrow>
     core_inv (f cl) \<and> conn (f cl) = conn cl \<and> conn_state (f cl) = conn_state cl \<and>
     connect_cb (f cl) = connect_cb cl \<and> data_cb (f cl) = data_cb cl"

lemma mqtt_inv_quiet:
  "mqtt_inv w \<Longrightarrow> quiet_update f (client w) \<Longrightarrow> mqtt_inv (w\<lparr>client := f (client w)\<rparr>)"
  unfolding quiet_update_def by (intro mqtt_inv_client) simp_all

lemma quiet_ticks:
  "core_inv cl \<Longrightarrow> quiet_update (\<lambda>c. c\<lparr>cyclic_tick := x\<rparr>) cl"
  "core_inv cl \<Longrightarrow> quiet_update (\<lambda>c. c\<lparr>server_watchdog := x\<rparr>) cl"
  "core_inv cl \<Longrightarrow> quiet_update (\<lambda>c. c\<lparr>msg_idx := i\<rparr>) cl"
  "core_inv cl \<Longrightarrow> quiet_update (\<lambda>c. c\<lparr>inpub_pkt_id := x\<rparr>) cl"
  by (simp_all add: quiet_update_def)

lemma quiet_queue:
  "core_inv cl \<Longrightarrow> queue_inv objs tail q \<Longrightarrow> quiet_update (\<lambda>c. c\<lparr>req_list := objs, pend_req_queue := tail\<rparr>) cl"
  by (simp add: quiet_update_def core_inv_queue)

lemma quiet_out: "core_inv cl \<Longrightarrow> rb_inv rb \<Longrightarrow> quiet_update (\<lambda>c. c\<lparr>out_rb := rb\<rparr>) cl"
  by (simp add: quiet_update_def core_inv_out)

lemma send_output_run:
  assumes "mqtt_inv w"
  shows "yields (send_output io (Some p) w) (\<lambda>w'. mqtt_inv w' \<and> rb_inv (out_rb (client w')) \<and>
    w' = w\<lparr>client := (client w)\<lparr>out_rb := out_rb (client w')\<rparr>, tcp := tcp w'\<rparr> \<and>
    (\<forall>stream. tcp_stream_law io stream \<longrightarrow>
       stream (tcp w') p @ rb_bytes (out_rb (client w')) = stream (tcp w) p @ rb_bytes (out_rb (client w))))"
proof -
  have "rb_inv (out_rb (client w))" using mqtt_inv_core [OF assms] by (simp add: core_inv_def)
  from mqtt_output_send_run [OF this, of io p "tcp w"] obtain rb s where
    "mqtt_output_send io (out_rb (client w)) (Some p) (tcp w) = Ok (rb, s)" "rb_inv rb"
    "\<forall>stream. tcp_stream_law io stream \<longrightarrow> stream s p @ rb_bytes rb = stream (tcp w) p @ rb_bytes (out_rb (client w))"
    by blast
  moreover have "mqtt_inv (w\<lparr>client := (client w)\<lparr>out_rb := rb\<rparr>\<rparr>)"
    using mqtt_inv_quiet [OF assms quiet_out [OF mqtt_inv_core [OF assms] \<open>rb_inv rb\<close>]] .
  ultimately show ?thesis by (simp add: send_output_def)
qed

section \<open>The cyclic timer\<close>

lemma start_cyclic_timer_inv:
  assumes "mqtt_inv w" and "cyclic_timers w = 0" and "conn_state (client w) \<in> {MQTT_CONNECTING, MQTT_CONNECTED}"
  shows "mqtt_inv (start_cyclic_timer w)"
  using assms armed_sys_timeout [of Mqtt_cyclic_timer CLIENT "now w" "word_of_nat (MQTT_CYCLIC_TIMER_INTERVAL * 1000)" "timers w"]
  by (auto simp: mqtt_inv_def start_cyclic_timer_def hooks_inv_def recv_inv_def timer_inv_def cyclic_timers_def)

text \<open>Sending a PINGREQ when the ring has room, or counting a tick.\<close>

definition ping :: "'s world \<Rightarrow> 's world" where
  "ping w =
     (if unat (cyclic_tick (client w)) * MQTT_CYCLIC_TIMER_INTERVAL \<ge> unat (keep_alive (client w)) then
        if mqtt_output_check_space (out_rb (client w)) 0 then
          w\<lparr>client := (client w)
              \<lparr>out_rb := mqtt_output_append_fixed_header (out_rb (client w)) (msg_code MQTT_MSG_TYPE_PINGREQ) 0 0 0 0,
               cyclic_tick := 0\<rparr>\<rparr>
        else w
      else w\<lparr>client := (client w)\<lparr>cyclic_tick := cyclic_tick (client w) + 1\<rparr>\<rparr>)"

lemma pingreq_appended:
  assumes "rb_inv rb" and "mqtt_output_check_space rb 0"
  shows "appended rb [0xC0, 0] (mqtt_output_append_fixed_header rb (msg_code MQTT_MSG_TYPE_PINGREQ) 0 0 0 0)"
proof -
  have "length (rb_bytes rb) + 1 + length (enc_length (unat (0 :: u16))) \<le> 256"
    using assms(2) by (simp add: mqtt_output_check_space_iff)
  from mqtt_output_append_fixed_header_appended [OF assms(1) this, of "msg_code MQTT_MSG_TYPE_PINGREQ" 0 0 0]
  show ?thesis by (simp add: enc_header_def enc_length.simps ctl_byte_def)
qed

lemma ping_inv:
  assumes "mqtt_inv w" shows "mqtt_inv (ping w)"
    and "cyclic_timers (ping w) = cyclic_timers w" and "conn_state (client (ping w)) = conn_state (client w)"
proof -
  let ?rb = "mqtt_output_append_fixed_header (out_rb (client w)) (msg_code MQTT_MSG_TYPE_PINGREQ) 0 0 0 0"
  have core: "core_inv (client w)" using assms by (rule mqtt_inv_core)
  have "rb_inv ?rb" if "mqtt_output_check_space (out_rb (client w)) 0"
    using appended_inv [OF pingreq_appended [OF _ that]] core by (simp add: core_inv_def)
  then have "quiet_update (\<lambda>c. c\<lparr>out_rb := ?rb, cyclic_tick := 0\<rparr>) (client w)"
    if "mqtt_output_check_space (out_rb (client w)) 0"
    using that core by (simp add: quiet_update_def core_inv_out)
  then show "mqtt_inv (ping w)"
    using mqtt_inv_quiet [OF assms] quiet_ticks(1) [OF core] assms by (auto simp: ping_def)
  show "cyclic_timers (ping w) = cyclic_timers w" "conn_state (client (ping w)) = conn_state (client w)"
    by (simp_all add: ping_def cyclic_timers_def)
qed

text \<open>
  The server is given up when nothing has arrived for one and a half keep-alive times.
\<close>

definition silent :: "mqtt_client_t \<Rightarrow> bool" where
  "silent cl \<longleftrightarrow> unat (server_watchdog cl + 1) * 5 > unat (keep_alive cl) + unat (keep_alive cl) div 2"

lemma keep_alive_check_eq:
  "keep_alive_check io w =
     (let w1 = w\<lparr>client := (client w)\<lparr>server_watchdog := server_watchdog (client w) + 1\<rparr>\<rparr> in
      if silent (client w)
      then bind_outcome (mqtt_close io MQTT_CONNECT_TIMEOUT w1) (\<lambda>w. Ok (ping w, False))
      else Ok (ping w1, True))"
  by (auto simp: keep_alive_check_def ping_def silent_def MQTT_CYCLIC_TIMER_INTERVAL_def Let_def bind_outcome_assoc
      intro!: arg_cong2 [where f = bind_outcome])

lemma keep_alive_check_run:
  assumes inv: "mqtt_inv w" and cy: "cyclic_timers w = 0" and st: "conn_state (client w) = MQTT_CONNECTED"
  shows "yields (keep_alive_check io w) (\<lambda>(w', restart). mqtt_inv w' \<and> cyclic_timers w' = 0 \<and>
    restart = (\<not> silent (client w)) \<and> (restart \<longrightarrow> conn_state (client w') = MQTT_CONNECTED))"
proof -
  let ?w = "w\<lparr>client := (client w)\<lparr>server_watchdog := server_watchdog (client w) + 1\<rparr>\<rparr>"
  have w: "mqtt_inv ?w" using mqtt_inv_quiet [OF inv quiet_ticks(2) [OF mqtt_inv_core [OF inv]]] .
  show ?thesis
  proof (cases "silent (client w)")
    case True
    have close: "yields (mqtt_close io MQTT_CONNECT_TIMEOUT ?w) (\<lambda>w'. cyclic_timers w' = 0 \<and> reconnecting w')"
      using mqtt_close_run [OF mqtt_inv_closable [OF w], of MQTT_CONNECT_TIMEOUT io] st
      by (simp add: MQTT_CONNECT_TIMEOUT_def MQTT_CONNECT_ACCEPTED_def)
    have "yields (bind_outcome (mqtt_close io MQTT_CONNECT_TIMEOUT ?w) (\<lambda>w. Ok (ping w, False)))
        (\<lambda>(w', restart). mqtt_inv w' \<and> cyclic_timers w' = 0 \<and> \<not> restart)"
      by (rule yields_bind [OF close]) (auto simp: ping_inv reconnecting_inv)
    then show ?thesis using True by (auto simp: keep_alive_check_eq Let_def yields_def)
  next
    case False
    then show ?thesis using ping_inv [OF w] cy st by (simp add: keep_alive_check_eq Let_def cyclic_timers_def)
  qed
qed

text \<open>The branch of the connected state, with the requests that time out.\<close>

lemma requests_expire_run:
  assumes inv: "mqtt_inv w" and q: "queue_inv (req_list (client w)) (pend_req_queue (client w)) q"
  shows "\<exists>objs tail q1 q2. mqtt_request_time_elapsed (req_list (client w)) (pend_req_queue (client w))
       (word_of_nat MQTT_CYCLIC_TIMER_INTERVAL) =
         Ok (objs, tail, concat (map (\<lambda>n. notify_req (req_list (client w) ! n) ERR_TIMEOUT) q1)) \<and>
     queue_inv objs tail q2 \<and> expires (req_list (client w)) q 5 q1 q2 objs \<and>
     mqtt_inv (w\<lparr>client := (client w)\<lparr>req_list := objs, pend_req_queue := tail\<rparr>\<rparr>)"
proof -
  have "unat (word_of_nat MQTT_CYCLIC_TIMER_INTERVAL :: u8) = 5" by (simp add: MQTT_CYCLIC_TIMER_INTERVAL_def)
  with mqtt_request_time_elapsed_run [OF q, of "word_of_nat MQTT_CYCLIC_TIMER_INTERVAL"]
  obtain objs q1 q2 tail where *:
    "mqtt_request_time_elapsed (req_list (client w)) (pend_req_queue (client w)) (word_of_nat MQTT_CYCLIC_TIMER_INTERVAL) =
       Ok (objs, tail, concat (map (\<lambda>n. notify_req (req_list (client w) ! n) ERR_TIMEOUT) q1))"
    "queue_inv objs tail q2" "expires (req_list (client w)) q 5 q1 q2 objs" by auto
  moreover have "mqtt_inv (w\<lparr>client := (client w)\<lparr>req_list := objs, pend_req_queue := tail\<rparr>\<rparr>)"
    using mqtt_inv_quiet [OF inv quiet_queue [OF mqtt_inv_core [OF inv] *(2)]] .
  ultimately show ?thesis by blast
qed

lemma mqtt_cyclic_timer_run:
  assumes inv: "mqtt_inv w" and cy: "cyclic_timers w = 0"
  shows "yields (mqtt_cyclic_timer io w) mqtt_inv"
proof -
  let ?P = "\<lambda>(w', restart). mqtt_inv w' \<and> cyclic_timers w' = 0 \<and>
    (restart \<longrightarrow> conn_state (client w') \<in> {MQTT_CONNECTING, MQTT_CONNECTED})"
  have tail: "yields m ?P \<Longrightarrow>
      yields (bind_outcome m (\<lambda>(w, restart_timer). Ok (if restart_timer then start_cyclic_timer w else w))) mqtt_inv"
    for m :: "('a world \<times> bool) outcome"
    by (erule yields_bind) (auto intro: start_cyclic_timer_inv)
  show ?thesis
  proof (cases "conn_state (client w)")
    case MQTT_CONNECTING
    let ?w = "w\<lparr>client := (client w)\<lparr>cyclic_tick := cyclic_tick (client w) + 1\<rparr>\<rparr>"
    have w: "mqtt_inv ?w" using mqtt_inv_quiet [OF inv quiet_ticks(1) [OF mqtt_inv_core [OF inv]]] .
    have close: "yields (mqtt_close io MQTT_CONNECT_TIMEOUT ?w) (\<lambda>w'. cyclic_timers w' = 0 \<and> reconnecting w')"
      using mqtt_close_run [OF mqtt_inv_closable [OF w], of MQTT_CONNECT_TIMEOUT io] MQTT_CONNECTING
      by (simp add: MQTT_CONNECT_TIMEOUT_def MQTT_CONNECT_ACCEPTED_def)
    have "yields (bind_outcome (mqtt_close io MQTT_CONNECT_TIMEOUT ?w) (\<lambda>w. Ok (w, False))) ?P"
      by (rule yields_bind [OF close]) (auto simp: reconnecting_inv)
    then show ?thesis
      unfolding mqtt_cyclic_timer_def using MQTT_CONNECTING w cy
      by (intro tail) (simp add: Let_def cyclic_timers_def)
  next
    case MQTT_CONNECTED
    from mqtt_inv_core [OF inv] obtain q where "queue_inv (req_list (client w)) (pend_req_queue (client w)) q"
      by (auto simp: core_inv_def)
    from requests_expire_run [OF inv this] obtain objs tl ns where el:
      "mqtt_request_time_elapsed (req_list (client w)) (pend_req_queue (client w)) (word_of_nat MQTT_CYCLIC_TIMER_INTERVAL) =
         Ok (objs, tl, ns)" "mqtt_inv (w\<lparr>client := (client w)\<lparr>req_list := objs, pend_req_queue := tl\<rparr>\<rparr>)" by blast
    let ?w = "fold call_request_cb ns (w\<lparr>client := (client w)\<lparr>req_list := objs, pend_req_queue := tl\<rparr>\<rparr>)"
    have "yields (keep_alive_check io ?w) ?P"
      using el(2) cy MQTT_CONNECTED
      by (intro yields_mono [OF keep_alive_check_run]) (auto simp: cyclic_timers_def)
    then show ?thesis
      unfolding mqtt_cyclic_timer_def using MQTT_CONNECTED el cy
      by (intro tail) (simp add: Let_def cyclic_timers_def)
  qed (use inv in \<open>simp_all add: mqtt_cyclic_timer_def\<close>)
qed

end
