(* ===== verification/MqttReceive.thy ===== *)
theory MqttReceive
  imports MqttSafety
begin

unbundle bit_operations_syntax

text \<open>
  Incoming data. \<open>guards F m P\<close> says that \<open>m\<close> returns a result that satisfies \<open>P\<close> or stops with
  one of the faults \<open>F\<close>. The handlers of all messages but PUBLISH always return; a PUBLISH
  returns under \<open>publish_safe\<close>. The parser's loop ends on every input.
\<close>

section \<open>States in which data arrives\<close>

definition online :: "'s world \<Rightarrow> bool" where
  "online w \<longleftrightarrow> mqtt_inv w \<and> conn_state (client w) \<in> {MQTT_CONNECTING, MQTT_CONNECTED}"

definition same_rx :: "'s world \<Rightarrow> 's world \<Rightarrow> bool" where
  "same_rx w w' \<longleftrightarrow> rx_buffer (client w') = rx_buffer (client w) \<and> msg_idx (client w') = msg_idx (client w)"

definition kept :: "'s world \<Rightarrow> 's world \<Rightarrow> bool" where
  "kept w w' \<longleftrightarrow> online w' \<and> same_rx w w'"

lemma same_rx_trans: "same_rx a b \<Longrightarrow> same_rx b c \<Longrightarrow> same_rx a c"
  by (simp add: same_rx_def)

lemma online_rx: "online w \<Longrightarrow> length (rx_buffer (client w)) = 128"
  by (simp add: online_def mqtt_inv_def core_inv_def)

lemma online_conn: "online w \<Longrightarrow> \<exists>p. conn (client w) = Some p"
  by (auto simp: online_def mqtt_inv_def core_inv_def)

lemma online_quiet:
  assumes "online w" and "quiet_update f (client w)"
  shows "online (w\<lparr>client := f (client w)\<rparr>)"
  using mqtt_inv_quiet [of w f] assms by (auto simp: online_def quiet_update_def)

lemma rx_at_Ok: "online w \<Longrightarrow> i < 128 \<Longrightarrow> rx_at w i = Ok (rx_buffer (client w) ! i)"
  by (simp add: rx_at_def online_rx)

definition rx_word :: "'s world \<Rightarrow> nat \<Rightarrow> u16" where
  "rx_word w i = push_bit 8 (ucast (rx_buffer (client w) ! i)) + ucast (rx_buffer (client w) ! (i + 1))"

lemma rx_u16_Ok: "online w \<Longrightarrow> i + 1 < 128 \<Longrightarrow> rx_u16 w i = Ok (rx_word w i)"
  by (simp add: rx_u16_def rx_at_Ok rx_word_def)

section \<open>Acknowledgements\<close>

lemma ack_message:
  assumes inv: "rb_inv rb" and room: "mqtt_output_check_space rb 2"
  shows "appended rb ([ctl_byte msg 0 qos 0, 2] @ enc_u16 (unat ident))
    (mqtt_output_append_u16 (mqtt_output_append_fixed_header rb msg 0 qos 0 2) ident)"
proof -
  have l: "enc_length 2 = [2]" by (simp add: enc_length.simps)
  have len: "length (rb_bytes rb) + 4 \<le> 256"
    using room mqtt_output_check_space_iff [of 2 rb] l by simp
  have one: "appended rb [ctl_byte msg 0 qos 0, 2] (mqtt_output_append_fixed_header rb msg 0 qos 0 2)"
    using mqtt_output_append_fixed_header_appended [OF inv, of 2 msg 0 qos 0] len by (simp add: l enc_header_def)
  moreover have "appended (mqtt_output_append_fixed_header rb msg 0 qos 0 2) (enc_u16 (unat ident))
      (mqtt_output_append_u16 (mqtt_output_append_fixed_header rb msg 0 qos 0 2) ident)"
    using len appended_length [OF one] by (intro mqtt_output_append_u16_appended appended_inv [OF one]) simp
  ultimately show ?thesis by (rule appended_trans)
qed

lemma pub_ack_rec_rel_response_run:
  assumes on: "online w" and p: "conn (client w) = Some p"
  shows "yields (pub_ack_rec_rel_response io msg ident qos w) (\<lambda>(e, w'). kept w w' \<and>
    req_list (client w') = req_list (client w) \<and> pend_req_queue (client w') = pend_req_queue (client w) \<and>
    (if mqtt_output_check_space (out_rb (client w)) 2
     then e = ERR_OK \<and> (\<forall>stream. tcp_stream_law io stream \<longrightarrow>
       stream (tcp w') p @ rb_bytes (out_rb (client w')) =
       stream (tcp w) p @ rb_bytes (out_rb (client w)) @ [ctl_byte msg 0 qos 0, 2] @ enc_u16 (unat ident))
     else e = ERR_MEM \<and> w' = w))"
proof (cases "mqtt_output_check_space (out_rb (client w)) 2")
  case False
  then show ?thesis using on by (simp add: pub_ack_rec_rel_response_def kept_def same_rx_def)
next
  case True
  let ?rb = "mqtt_output_append_u16 (mqtt_output_append_fixed_header (out_rb (client w)) msg 0 qos 0 2) ident"
  have core: "core_inv (client w)" using on by (simp add: online_def mqtt_inv_def)
  then have app: "appended (out_rb (client w)) ([ctl_byte msg 0 qos 0, 2] @ enc_u16 (unat ident)) ?rb"
    using True by (intro ack_message) (simp_all add: core_inv_def)
  from mqtt_output_send_run [OF appended_inv [OF app], of io p "tcp w"] obtain rb s where snd:
    "mqtt_output_send io ?rb (Some p) (tcp w) = Ok (rb, s)" "rb_inv rb"
    "\<forall>stream. tcp_stream_law io stream \<longrightarrow> stream s p @ rb_bytes rb = stream (tcp w) p @ rb_bytes ?rb" by blast
  have "online (w\<lparr>client := (client w)\<lparr>out_rb := rb\<rparr>\<rparr>)"
    using online_quiet [OF on quiet_out [OF core snd(2)]] .
  then have "online (w\<lparr>client := (client w)\<lparr>out_rb := rb\<rparr>, tcp := s\<rparr>)" by (simp add: online_def)
  with True snd(1,3) p appended_bytes [OF app] show ?thesis
    by (simp add: pub_ack_rec_rel_response_def kept_def same_rx_def)
qed

text \<open>
  An answer with the identifier of a pending request: the first such request leaves the
  queue, its callback is told the result, and its object is free again - unless a SUBACK is
  too short, when the object stays allocated.
\<close>

lemma online_queue: "online w \<Longrightarrow> \<exists>q. queue_inv (req_list (client w)) (pend_req_queue (client w)) q"
  by (simp add: online_def mqtt_inv_def core_inv_def)

lemma same_items_notify: "same_items objs objs' \<Longrightarrow> notify_req (objs' ! n) e = notify_req (objs ! n) e"
  by (auto simp: same_items_def notify_req_def req_item_def split: option.split)

lemma online_client_update:
  assumes "online w" and "queue_inv objs tail q"
  shows "online (w\<lparr>client := (client w)\<lparr>req_list := objs, pend_req_queue := tail\<rparr>\<rparr>)"
  using online_quiet [OF assms(1) quiet_queue [OF _ assms(2)]] assms(1)
  by (simp add: online_def mqtt_inv_def)

lemma online_req_list:
  assumes "online w" and "queue_inv objs (pend_req_queue (client w)) q"
  shows "online (w\<lparr>client := (client w)\<lparr>req_list := objs\<rparr>\<rparr>)"
proof -
  have "quiet_update (\<lambda>c. c\<lparr>req_list := objs\<rparr>) (client w)"
    using assms by (auto simp: quiet_update_def online_def mqtt_inv_def core_inv_def)
  from online_quiet [OF assms(1) this] show ?thesis .
qed

lemma received_ack_unknown:
  assumes on: "online w" and q: "queue_inv (req_list (client w)) (pend_req_queue (client w)) q"
    and none: "\<forall>n \<in> set q. pkt_id (req_list (client w) ! n) \<noteq> ident"
  shows "received_ack pkt_type hdr len ident w = Ok (MQTT_CONNECT_ACCEPTED, w)"
  using mqtt_take_request_None [OF q none] by (simp add: received_ack_def)

lemma queue_inv_distinct: "queue_inv objs tail q \<Longrightarrow> distinct q"
  unfolding queue_inv_def using chain_distinct by blast

lemma fold_console:
  "console (fold call_request_cb ns w) = console w @ concat (map (\<lambda>(c, a, e).
     case c of Mqtt_sub_request_cb \<Rightarrow> [Subscribe_result e]
     | Mqtt_pub_request_cb \<Rightarrow> if e \<noteq> ERR_OK then [Publish_result e] else []) ns)"
  by (induction ns arbitrary: w)
    (auto simp: call_request_cb_def mqtt_sub_request_cb_def mqtt_pub_request_cb_def print_def
      split: mqtt_request_cb_t.split)

lemma received_ack_known:
  assumes on: "online w" and q: "queue_inv (req_list (client w)) (pend_req_queue (client w)) (q1 @ n # q2)"
    and first: "\<forall>m \<in> set q1. pkt_id (req_list (client w) ! m) \<noteq> ident" "pkt_id (req_list (client w) ! n) = ident"
    and hdr: "hdr + 2 < 128" and long: "pkt_type = 9 \<longrightarrow> 3 \<le> len"
  shows "yields (received_ack pkt_type hdr len ident w) (\<lambda>(res, w'). res = MQTT_CONNECT_ACCEPTED \<and> kept w w' \<and>
    queue_inv (req_list (client w')) (pend_req_queue (client w')) (q1 @ q2) \<and>
    free_slot (req_list (client w')) n \<and> same_items (req_list (client w)) (req_list (client w')) \<and>
    deadlines (req_list (client w')) (q1 @ q2) = deadlines (req_list (client w)) q1 @
      drop (Suc (length q1)) (deadlines (req_list (client w)) (q1 @ n # q2)) \<and>
    console w' = console (fold call_request_cb (notify_req (req_list (client w) ! n)
      (if pkt_type = 9 \<and> \<not> rx_buffer (client w) ! (hdr + 2) < 3 then ERR_ABRT else ERR_OK)) w))"
proof -
  from mqtt_take_request_Some [OF q first] obtain objs tail where tk:
    "mqtt_take_request (req_list (client w)) (pend_req_queue (client w)) ident = Ok (Some n, objs, tail)"
    "queue_inv objs tail (q1 @ q2)" "same_items (req_list (client w)) objs"
    "deadlines objs (q1 @ q2) = deadlines (req_list (client w)) q1 @
      drop (Suc (length q1)) (deadlines (req_list (client w)) (q1 @ n # q2))" by blast
  let ?w = "w\<lparr>client := (client w)\<lparr>req_list := objs, pend_req_queue := tail\<rparr>\<rparr>"
  let ?e = "if pkt_type = 9 \<and> \<not> rx_buffer (client w) ! (hdr + 2) < 3 then ERR_ABRT else ERR_OK"
  let ?objs = "mqtt_delete_request objs (Some n)"
  let ?w1 = "fold call_request_cb (notify_req (req_list (client w) ! n) ?e) ?w"
  let ?w' = "?w1\<lparr>client := (client ?w1)\<lparr>req_list := ?objs\<rparr>\<rparr>"
  have run: "received_ack pkt_type hdr len ident w = Ok (MQTT_CONNECT_ACCEPTED, ?w')"
    using tk(1) hdr long online_rx [OF on]
    by (simp add: received_ack_def same_items_notify [OF tk(3)] mqtt_incomming_suback_def rx_at_def Let_def not_le [symmetric])
  have "n < 4" "n \<notin> set (q1 @ q2)"
    using queue_inv_in_range [OF q] queue_inv_distinct [OF q] by auto
  moreover have "length objs = 4" using tk(2) by (simp add: queue_inv_def)
  ultimately have q': "queue_inv ?objs tail (q1 @ q2)" and "free_slot ?objs n"
    using tk(2) by (simp_all add: queue_inv_def mqtt_delete_request_keeps)
  moreover have "deadlines ?objs (q1 @ q2) = deadlines objs (q1 @ q2)"
    by (simp add: deadlines_def mqtt_delete_request_keeps)
  moreover have "same_items (req_list (client w)) ?objs"
    using tk(3) mqtt_delete_request_keeps(2) by (rule same_items_trans)
  moreover have "online ?w'"
  proof (rule online_req_list)
    show "online ?w1" using online_client_update [OF on tk(2)] by (simp add: online_def)
    show "queue_inv ?objs (pend_req_queue (client ?w1)) (q1 @ q2)" using q' by simp
  qed
  moreover have "console (fold call_request_cb ns (w\<lparr>client := x\<rparr>)) = console (fold call_request_cb ns w)" for ns x
    by (simp add: fold_console)
  ultimately show ?thesis using run tk(4) by (simp add: kept_def same_rx_def)
qed

lemma received_ack_run:
  assumes on: "online w" and hdr: "hdr + 2 < 128"
  shows "yields (received_ack pkt_type hdr len ident w) (\<lambda>(res, w'). kept w w')"
proof -
  from online_queue [OF on] obtain q where q: "queue_inv (req_list (client w)) (pend_req_queue (client w)) q" by blast
  show ?thesis
  proof (cases "\<exists>n \<in> set q. pkt_id (req_list (client w) ! n) = ident")
    case False
    with received_ack_unknown [OF on q] on show ?thesis by (simp add: kept_def same_rx_def)
  next
    case True
    then obtain q1 n q2 where split: "q = q1 @ n # q2" "pkt_id (req_list (client w) ! n) = ident"
      "\<forall>m \<in> set q1. pkt_id (req_list (client w) ! m) \<noteq> ident"
      using split_list_first_prop [of q "\<lambda>n. pkt_id (req_list (client w) ! n) = ident"] by blast
    show ?thesis
    proof (cases "pkt_type = 9 \<and> \<not> 3 \<le> len")
      case False
      then have "pkt_type = 9 \<longrightarrow> 3 \<le> len" by blast
      from received_ack_known [OF on q [unfolded split(1)] split(3,2) hdr this] show ?thesis
        by (rule yields_mono) auto
    next
      case True
      from mqtt_take_request_Some [OF q [unfolded split(1)] split(3,2)] obtain objs tail where tk:
        "mqtt_take_request (req_list (client w)) (pend_req_queue (client w)) ident = Ok (Some n, objs, tail)"
        "queue_inv objs tail (q1 @ q2)" by blast
      with True online_client_update [OF on tk(2)] show ?thesis
        by (simp add: received_ack_def Let_def kept_def same_rx_def not_le)
    qed
  qed
qed

section \<open>CONNACK\<close>

text \<open>The application subscribes as soon as the connection is accepted.\<close>

lemma connection_accepted_run:
  assumes core: "core_inv (client w)" and st: "conn_state (client w) = MQTT_CONNECTED" and p: "conn (client w) = Some p"
    and cb: "connect_cb (client w) \<noteq> None" and hk: "hooks_inv w" and tm: "timer_inv w"
    and ident: "ident = fst (msg_generate_packet_id (client w))"
    and msg: "msg = subscribe_message True ident (ascii ''print_payload'') 1"
  shows "yields (mqtt_connection_cb io a MQTT_CONNECT_ACCEPTED w) (\<lambda>w'. kept w w' \<and>
    conn_state (client w') = MQTT_CONNECTED \<and> buildConnetSuccess w' \<and>
    data_cb (client w') = Some Mqtt_incoming_data_cb \<and>
    (has_room (client w) msg \<longrightarrow> (\<forall>stream. tcp_stream_law io stream \<longrightarrow>
        stream (tcp w') p @ rb_bytes (out_rb (client w')) =
        stream (tcp w) p @ rb_bytes (out_rb (client w)) @ msg)))"
proof -
  define w1 where "w1 = (print Connected_msg w)\<lparr>buildConnetSuccess := True,
      client := mqtt_set_inpub_callback (Some Mqtt_incoming_publish_cb) (Some Mqtt_incoming_data_cb) a (client w)\<rparr>"
  have cl1: "client w1 = (client w)\<lparr>data_cb := Some Mqtt_incoming_data_cb, pub_cb := Some Mqtt_incoming_publish_cb, inpub_arg := a\<rparr>"
    and tcp1: "tcp w1 = tcp w" and ok1: "buildConnetSuccess w1"
    by (simp_all add: w1_def mqtt_set_inpub_callback_def)
  have inv1: "mqtt_inv w1"
    using core st cb hk tm
    by (simp add: mqtt_inv_def app_inv_def hooks_inv_def recv_inv_def timer_inv_def cyclic_timers_def cl1) (simp add: w1_def)
  have ident1: "fst (msg_generate_packet_id (client w1)) = ident"
    by (simp add: ident cl1 msg_generate_packet_id_def Let_def)
  have room1: "has_room (client w1) msg = has_room (client w) msg" by (simp add: has_room_def cl1)
  have sub: "yields (mqtt_sub_unsub io (ascii ''print_payload'') 1 (Some Mqtt_sub_request_cb) a True w1) (\<lambda>(e, w').
      api_frame w1 w' \<and> core_inv (client w') \<and> e = (if has_room (client w1) msg then ERR_OK else ERR_MEM) \<and>
      (if has_room (client w1) msg then accepted io p w1 ident (Some Mqtt_sub_request_cb) a msg w' else refused w1 w'))"
    using mqtt_inv_core [OF inv1] p ident1 msg by (intro mqtt_sub_unsub_run) (simp_all add: cl1)
  have post: "kept w w' \<and> conn_state (client w') = MQTT_CONNECTED \<and> buildConnetSuccess w' \<and>
      data_cb (client w') = Some Mqtt_incoming_data_cb" if fr: "api_frame w1 w'" and "core_inv (client w')" for w'
  proof -
    have "request_frame (client w1) (client w')" using fr by (simp add: api_frame_def)
    note keeps = request_frame_keeps [OF this]
    have "w' = w1\<lparr>client := client w', tcp := tcp w'\<rparr>" using fr by (simp add: api_frame_def)
    from arg_cong [OF this, of buildConnetSuccess] ok1 have "buildConnetSuccess w'" by simp
    then show ?thesis
      using mqtt_inv_api [OF inv1 that] keeps st by (simp add: kept_def online_def same_rx_def cl1)
  qed
  have run: "mqtt_connection_cb io a MQTT_CONNECT_ACCEPTED w =
      bind_outcome (mqtt_sub_unsub io (ascii ''print_payload'') 1 (Some Mqtt_sub_request_cb) a True w1)
        (\<lambda>(err, w). Ok (if err \<noteq> ERR_OK then print (Subscribe_return err) w else w))"
    by (simp add: mqtt_connection_cb_def Let_def w1_def)
  have pr: "kept w (print x w') = kept w w'" "buildConnetSuccess (print x w') = buildConnetSuccess w'" for x w'
    by (simp_all add: kept_def online_def same_rx_def) (simp add: print_def)
  show ?thesis
    unfolding run
  proof (rule yields_bind [OF sub], clarify)
    fix e w'
    assume fr: "api_frame w1 w'" and core': "core_inv (client w')"
      and res: "if has_room (client w1) msg then accepted io p w1 ident (Some Mqtt_sub_request_cb) a msg w' else refused w1 w'"
    have "\<forall>stream. tcp_stream_law io stream \<longrightarrow>
        stream (tcp w') p @ rb_bytes (out_rb (client w')) = stream (tcp w) p @ rb_bytes (out_rb (client w)) @ msg"
      if "has_room (client w) msg"
      using res that room1 by (simp add: accepted_def tcp1 cl1)
    with post [OF fr core'] show "yields (Ok (if (if has_room (client w1) msg then ERR_OK else ERR_MEM) \<noteq> ERR_OK
         then print (Subscribe_return (if has_room (client w1) msg then ERR_OK else ERR_MEM)) w' else w'))
       (\<lambda>w'. kept w w' \<and> conn_state (client w') = MQTT_CONNECTED \<and> buildConnetSuccess w' \<and>
          data_cb (client w') = Some Mqtt_incoming_data_cb \<and>
          (has_room (client w) msg \<longrightarrow> (\<forall>stream. tcp_stream_law io stream \<longrightarrow>
             stream (tcp w') p @ rb_bytes (out_rb (client w')) = stream (tcp w) p @ rb_bytes (out_rb (client w)) @ msg)))"
      using room1 by (simp add: pr)
  qed
qed

lemma received_connack_run:
  assumes on: "online w" and hdr: "hdr + 1 < 128"
  shows "yields (received_connack io hdr w) (\<lambda>(res, w'). kept w w' \<and>
    (if conn_state (client w) = MQTT_CONNECTING
     then res = unat (rx_buffer (client w) ! (hdr + 1)) \<and>
       (if res = 0 then conn_state (client w') = MQTT_CONNECTED \<and> buildConnetSuccess w' else w' = w)
     else res = MQTT_CONNECT_ACCEPTED \<and> w' = w))"
proof (cases "conn_state (client w) = MQTT_CONNECTING")
  case False
  then show ?thesis using on by (simp add: received_connack_def kept_def same_rx_def)
next
  case True
  let ?c = "rx_buffer (client w) ! (hdr + 1)"
  show ?thesis
  proof (cases "unat ?c = 0")
    case False
    then show ?thesis using on True rx_at_Ok [OF on hdr]
      by (simp add: received_connack_def MQTT_CONNECT_ACCEPTED_def kept_def same_rx_def)
  next
    case zero: True
    let ?w = "w\<lparr>client := (client w)\<lparr>cyclic_tick := 0, conn_state := MQTT_CONNECTED\<rparr>\<rparr>"
    obtain p where p: "conn (client w) = Some p" using online_conn [OF on] by blast
    have inv: "mqtt_inv w" using on by (simp add: online_def)
    have "connect_cb (client w) = Some Mqtt_connection_cb"
      using inv True by (auto simp: mqtt_inv_def app_inv_def) (metis mqtt_connection_cb_t.exhaust)
    then have run: "received_connack io hdr w =
        bind_outcome (mqtt_connection_cb io (connect_arg (client w)) MQTT_CONNECT_ACCEPTED ?w)
          (\<lambda>w. Ok (MQTT_CONNECT_ACCEPTED, w))"
      using True zero rx_at_Ok [OF on hdr] by (simp add: received_connack_def MQTT_CONNECT_ACCEPTED_def Let_def)
    have post: "yields (mqtt_connection_cb io (connect_arg (client w)) MQTT_CONNECT_ACCEPTED ?w)
        (\<lambda>w'. kept ?w w' \<and> conn_state (client w') = MQTT_CONNECTED \<and> buildConnetSuccess w')"
      using inv p True
      by (intro yields_mono [OF connection_accepted_run [where p = p, OF _ _ _ _ _ _ refl refl]])
        (auto simp: mqtt_inv_def core_inv_def app_inv_def hooks_inv_def timer_inv_def cyclic_timers_def)
    show ?thesis
      unfolding run using True zero
      by (intro yields_bind [OF post]) (auto simp: kept_def same_rx_def MQTT_CONNECT_ACCEPTED_def)
  qed
qed

section \<open>PUBLISH\<close>

lemma mqtt_incoming_data_cb_run:
  assumes "i + unat len \<le> length rx" and "0 < i" and "flags AND MQTT_DATA_FLAG_LAST \<noteq> 0 \<longrightarrow> 0 < len"
  shows "yields (mqtt_incoming_data_cb rx i len flags w) (\<lambda>w'. w' = w\<lparr>console := console w'\<rparr>)"
proof (cases "flags AND MQTT_DATA_FLAG_LAST \<noteq> 0 \<and> inpub_id w = 0")
  case False
  then show ?thesis by (auto simp: mqtt_incoming_data_cb_def print_def Let_def)
next
  case True
  then have len: "0 < unat len" using assms(3) by (simp add: word_less_nat_alt)
  let ?k = "i + unat len - 1"
  have k: "int i + uint len - 1 = int ?k" using len unfolding uint_nat by linarith
  have kl: "?k < length rx" using assms(1) len by linarith
  have "0 \<in> set (drop i rx)" if "rx ! ?k = 0"
  proof -
    have "drop i rx ! (unat len - 1) = 0" using that assms(1) len by (simp add: nth_drop)
    moreover have "unat len - 1 < length (drop i rx)" using assms(1) len by simp
    ultimately show ?thesis by (metis nth_mem)
  qed
  with True kl show ?thesis
    unfolding mqtt_incoming_data_cb_def Let_def by (simp add: k print_def)
qed

definition publish_qos :: "'s world \<Rightarrow> u8" where
  "publish_qos w = MQTT_CTL_PACKET_QOS (rx_buffer (client w) ! 0)"

text \<open>Where the payload starts in the received part.\<close>

definition publish_offset :: "nat \<Rightarrow> 's world \<Rightarrow> nat" where
  "publish_offset hdr w =
     (if unat (msg_idx (client w)) \<le> 128
      then 2 + unat (rx_word w hdr) + (if publish_qos w > 0 then 2 else 0) else 0)"

text \<open>
  What a PUBLISH has to satisfy: the client is connected, the topic length does not wrap the
  16-bit offset, and the last part is not empty.
\<close>

definition publish_safe :: "nat \<Rightarrow> u16 \<Rightarrow> u32 \<Rightarrow> 's world \<Rightarrow> bool" where
  "publish_safe hdr len remaining_length w \<longleftrightarrow>
     conn_state (client w) = MQTT_CONNECTED \<and>
     (unat (msg_idx (client w)) \<le> 128 \<longrightarrow> unat (rx_word w hdr) < 65534) \<and>
     (remaining_length = 0 \<longrightarrow> unat len \<noteq> publish_offset hdr w)"

lemma publish_header_run:
  assumes on: "online w" and hdr: "0 < hdr" "hdr + 1 < 128" and len: "hdr + unat len \<le> 128"
    and topic: "unat (rx_word w hdr) < 65534"
  shows "yields (publish_header hdr len rem qos w) (\<lambda>(off, w'). kept w w' \<and>
    conn_state (client w') = conn_state (client w) \<and>
    (case off of None \<Rightarrow> w' = w
     | Some k \<Rightarrow> unat k = 2 + unat (rx_word w hdr) + (if qos > 0 then 2 else 0) \<and> unat k \<le> unat len))"
proof -
  let ?t = "rx_word w hdr"
  let ?w = "\<lambda>x. w\<lparr>client := (client w)\<lparr>inpub_pkt_id := x\<rparr>\<rparr>"
  have after: "unat (2 + ?t) = 2 + unat ?t" using topic by (simp add: unat_word_ariths)
  have on': "online (?w x)" for x
    using online_quiet [OF on quiet_ticks(4)] on by (simp add: online_def mqtt_inv_def)
  show ?thesis
  proof (cases "unat (2 + ?t) + (if qos \<noteq> 0 then 2 else 0) + (if qos \<noteq> 0 then 0 else 1) > unat len")
    case True
    then show ?thesis
      using rx_u16_Ok [OF on hdr(2)] on
      by (simp add: publish_header_def Let_def kept_def same_rx_def split: if_splits)
  next
    case False
    then have fit: "2 + unat ?t + (if qos \<noteq> 0 then 2 else 1) \<le> unat len" using after by (simp split: if_splits)
    define x where "x = (if qos > 0 then rx_word w (hdr + unat (2 + ?t)) else 0)"
    define k where "k = (if qos > 0 then (2 + ?t) + 2 else 2 + ?t)"
    have qos0: "(qos \<noteq> 0) = (qos > 0)" by (simp add: word_greater_zero_iff)
    have bound: "hdr + unat (2 + ?t) + 1 < 128" if "qos > 0" using fit len that qos0 after by simp
    have k: "unat k = 2 + unat ?t + (if qos > 0 then 2 else 0)" "unat k \<le> unat len"
    proof -
      have "unat (2 + ?t + 2) = 2 + unat ?t + 2" if "qos > 0"
        using fit that qos0 len by (subst unat_add_small) (simp_all add: after)
      then show "unat k = 2 + unat ?t + (if qos > 0 then 2 else 0)" by (simp add: k_def after)
      then show "unat k \<le> unat len" using fit qos0 by (simp split: if_splits)
    qed
    have id: "(if qos > 0 then bind_outcome (rx_u16 w (hdr + unat (2 + ?t))) (\<lambda>ident. Ok (ident, 2 + ?t + 2))
        else Ok (0, 2 + ?t)) = Ok (x, k)"
      using rx_u16_Ok [OF on bound] by (simp add: x_def k_def)
    have bkp: "rx_at (?w x) (hdr + 2 + unat ?t) = Ok (rx_buffer (client w) ! (hdr + 2 + unat ?t))"
      using fit len online_rx [OF on] by (simp add: rx_at_def split: if_splits)
    have test: "\<not> unat (2 + ?t) + (if qos \<noteq> 0 then 2 else 1) > unat len" using fit after by simp
    have run: "\<exists>tp n. publish_header hdr len rem qos w = Ok (Some k,
        case pub_cb (client w) of None \<Rightarrow> ?w x
        | Some Mqtt_incoming_publish_cb \<Rightarrow> mqtt_incoming_publish_cb tp n (?w x))"
      unfolding publish_header_def rx_u16_Ok [OF on hdr(2)] bind_outcome.simps Let_def if_not_P [OF test] id
        prod.case bkp by (auto simp: select_convs)
    have cb: "kept w (mqtt_incoming_publish_cb tp n (?w x))" "kept w (?w x)"
      "conn_state (client (mqtt_incoming_publish_cb tp n (?w x))) = conn_state (client w)" for tp n
      using on' [of x] by (auto simp: kept_def same_rx_def online_def mqtt_incoming_publish_cb_def)
    from run obtain tp n where eq: "publish_header hdr len rem qos w = Ok (Some k,
        case pub_cb (client w) of None \<Rightarrow> ?w x
        | Some Mqtt_incoming_publish_cb \<Rightarrow> mqtt_incoming_publish_cb tp n (?w x))" by blast
    show ?thesis
      unfolding eq using k cb by (simp split: option.split mqtt_incoming_publish_cb_t.split)
  qed
qed

lemma kept_console: "online w \<Longrightarrow> w' = w\<lparr>console := console w'\<rparr> \<Longrightarrow> kept w w' \<and> client w' = client w"
proof -
  assume on: "online w" and "w' = w\<lparr>console := console w'\<rparr>"
  then obtain x where "w' = w\<lparr>console := x\<rparr>" by blast
  with on show ?thesis by (simp add: kept_def same_rx_def online_def)
qed

text \<open>The delivery of one part of the payload, and the answer after the last.\<close>

lemma publish_payload_run:
  assumes on: "online w" and st: "conn_state (client w) = MQTT_CONNECTED"
    and i: "0 < i" "i + unat n \<le> 128" and last: "rem = 0 \<longrightarrow> 0 < n"
  shows "yields (publish_payload io i n rem qos w) (\<lambda>(res, w'). res = MQTT_CONNECT_ACCEPTED \<and> kept w w')"
proof -
  have data: "data_cb (client w) = Some Mqtt_incoming_data_cb"
    using on st by (auto simp: online_def mqtt_inv_def app_inv_def) (metis mqtt_incoming_data_cb_t.exhaust)
  obtain p where p: "conn (client w) = Some p" using online_conn [OF on] by blast
  have cb: "yields (mqtt_incoming_data_cb (rx_buffer (client w)) i n (if rem = 0 then MQTT_DATA_FLAG_LAST else 0) w)
      (\<lambda>w'. w' = w\<lparr>console := console w'\<rparr>)"
    using i last online_rx [OF on] by (intro mqtt_incoming_data_cb_run) (simp_all add: MQTT_DATA_FLAG_LAST_def)
  have ack: "yields (bind_outcome (pub_ack_rec_rel_response io msg (inpub_pkt_id (client w1)) 0 w1)
        (\<lambda>(_, w). Ok (MQTT_CONNECT_ACCEPTED, w))) (\<lambda>(res, w'). res = MQTT_CONNECT_ACCEPTED \<and> kept w w')"
    if "w1 = w\<lparr>console := console w1\<rparr>" for w1 msg
  proof -
    note k = kept_console [OF on that]
    then have "online w1" "conn (client w1) = Some p" using p by (simp_all add: kept_def)
    from pub_ack_rec_rel_response_run [OF this, of io msg "inpub_pkt_id (client w1)" 0]
    have "yields (pub_ack_rec_rel_response io msg (inpub_pkt_id (client w1)) 0 w1) (\<lambda>(e, w'). kept w1 w')"
      by (rule yields_mono) auto
    then show ?thesis
      by (rule yields_bind) (use k in \<open>auto simp: kept_def same_rx_def\<close>)
  qed
  show ?thesis
    unfolding publish_payload_def data option.case mqtt_incoming_data_cb_t.case
  proof (rule yields_if)
    show "yields (Ok (MQTT_CONNECT_ACCEPTED, w)) (\<lambda>(res, w'). res = MQTT_CONNECT_ACCEPTED \<and> kept w w')"
      using on by (simp add: kept_def same_rx_def)
  qed (rule yields_bind [OF cb], rule yields_if, erule ack, drule kept_console [OF on], simp)
qed

lemma received_publish_run:
  assumes on: "online w" and hdr: "0 < hdr" "hdr + 1 < 128" and len: "hdr + unat len \<le> 128"
    and safe: "publish_safe hdr len rem w"
  shows "yields (received_publish io hdr len rem w) (\<lambda>(res, w'). kept w w')"
proof -
  have b0: "rx_at w 0 = Ok (rx_buffer (client w) ! 0)" using rx_at_Ok [OF on, of 0] by simp
  let ?qos = "publish_qos w"
  have st: "conn_state (client w) = MQTT_CONNECTED" using safe by (simp add: publish_safe_def)
  have hd: "yields (if unat (msg_idx (client w)) \<le> MQTT_VAR_HEADER_BUFFER_LEN
        then publish_header hdr len rem ?qos w else Ok (Some 0, w))
      (\<lambda>(off, w'). kept w w' \<and> conn_state (client w') = MQTT_CONNECTED \<and>
        (case off of None \<Rightarrow> True | Some k \<Rightarrow> unat k = publish_offset hdr w \<and> unat k \<le> unat len))"
  proof (cases "unat (msg_idx (client w)) \<le> 128")
    case True
    then have "unat (rx_word w hdr) < 65534" using safe by (simp add: publish_safe_def)
    from publish_header_run [OF on hdr len this, of rem ?qos] True st show ?thesis
      by (simp add: MQTT_VAR_HEADER_BUFFER_LEN_def publish_offset_def)
        (erule yields_mono, auto simp: publish_offset_def split: option.splits)
  next
    case False
    then show ?thesis using on st
      by (simp add: MQTT_VAR_HEADER_BUFFER_LEN_def publish_offset_def kept_def same_rx_def)
  qed
  have rest: "yields (publish_payload io (hdr + unat k) (len - k) rem ?qos w') (\<lambda>(res, w''). kept w w'')"
    if k: "kept w w'" and st': "conn_state (client w') = MQTT_CONNECTED"
      and off: "unat k = publish_offset hdr w" "unat k \<le> unat len" for k w'
  proof -
    have n: "unat (len - k) = unat len - unat k" using off by (simp add: unat_sub word_le_nat_alt)
    have last: "rem = 0 \<longrightarrow> 0 < len - k"
      using safe off n by (auto simp: publish_safe_def word_less_nat_alt)
    have "yields (publish_payload io (hdr + unat k) (len - k) rem ?qos w')
        (\<lambda>(res, w''). res = MQTT_CONNECT_ACCEPTED \<and> kept w' w'')"
      using k st' hdr len off n last by (intro publish_payload_run) (simp_all add: kept_def)
    then show ?thesis
      by (rule yields_mono) (use k in \<open>auto simp: kept_def same_rx_def\<close>)
  qed
  show ?thesis
    unfolding received_publish_def b0 bind_outcome.simps Let_def publish_qos_def [symmetric]
    by (rule yields_bind [OF hd]) (use rest in \<open>auto split: option.splits\<close>)
qed

end
