(* ===== verification/MqttParse.thy ===== *)
theory MqttParse
  imports MqttReceive
begin

unbundle bit_operations_syntax

text \<open>
  The handler of a message of any type, the parser that feeds it, and the callbacks of TCP.
  The parser is total; with the faults a PUBLISH or a malformed header can cause set aside, it
  keeps the invariant on every input.
\<close>

section \<open>Messages\<close>

definition guards :: "halt set \<Rightarrow> 'a outcome \<Rightarrow> ('a \<Rightarrow> bool) \<Rightarrow> bool" where
  "guards F m P \<longleftrightarrow> (case m of Ok x \<Rightarrow> P x | Halt e \<Rightarrow> e \<in> F)"

lemma guards_simps [simp]: "guards F (Ok x) P = P x" "guards F (Halt e) P \<longleftrightarrow> e \<in> F"
  by (simp_all add: guards_def)

lemma guards_bind: "guards F m Q \<Longrightarrow> (\<And>x. Q x \<Longrightarrow> guards F (f x) P) \<Longrightarrow> guards F (bind_outcome m f) P"
  by (cases m) simp_all

lemma yields_guards: "yields m P \<Longrightarrow> guards F m P"
  by (auto simp: yields_def)

lemma guards_mono: "guards F m P \<Longrightarrow> F \<subseteq> G \<Longrightarrow> (\<And>x. P x \<Longrightarrow> Q x) \<Longrightarrow> guards G m Q"
  by (cases m) auto

lemma guards_if: "(c \<Longrightarrow> guards F a P) \<Longrightarrow> (\<not> c \<Longrightarrow> guards F b P) \<Longrightarrow> guards F (if c then a else b) P"
  by simp

lemma received_with_id_run:
  assumes on: "online w" and hdr: "hdr + 2 < 128"
  shows "yields (received_with_id io pkt_type hdr len w) (\<lambda>(res, w'). kept w w')"
proof -
  obtain p where p: "conn (client w) = Some p" using online_conn [OF on] by blast
  have id: "rx_u16 w hdr = Ok (rx_word w hdr)" using rx_u16_Ok [OF on] hdr by simp
  have resp: "yields (bind_outcome (pub_ack_rec_rel_response io msg ident qos w)
      (\<lambda>(_, w). Ok (MQTT_CONNECT_ACCEPTED, w))) (\<lambda>(res, w'). kept w w')" for msg ident qos
    by (rule yields_bind [OF pub_ack_rec_rel_response_run [OF on p]]) auto
  show ?thesis
    unfolding received_with_id_def id bind_outcome.simps
    using resp received_ack_run [OF on hdr] on by (auto simp: kept_def same_rx_def)
qed

lemma mqtt_message_received_run:
  assumes on: "online w" and hdr: "2 \<le> unat f" "unat f + 2 < 128" and len: "unat f + unat len \<le> 128"
    and safe: "MQTT_CTL_PACKET_TYPE (rx_buffer (client w) ! 0) = msg_code MQTT_MSG_TYPE_PUBLISH \<longrightarrow>
      publish_safe (unat f) len rem w"
  shows "yields (mqtt_message_received io f len rem w) (\<lambda>(res, w'). kept w w')"
proof -
  have b0: "rx_at w 0 = Ok (rx_buffer (client w) ! 0)" using rx_at_Ok [OF on, of 0] by simp
  have connack: "yields (received_connack io (unat f) w) (\<lambda>(res, w'). kept w w')"
    using hdr by (intro yields_mono [OF received_connack_run [OF on]]) auto
  show ?thesis
    unfolding mqtt_message_received_def Let_def b0 bind_outcome.simps
    using connack received_publish_run [OF on _ _ len, of rem io] hdr safe received_with_id_run [OF on hdr(2)] on
    by (auto simp: kept_def same_rx_def)
qed

text \<open>Without the condition on PUBLISH, two faults remain.\<close>

lemma mqtt_incoming_data_cb_guard:
  "guards {Overrun, NullDeref} (mqtt_incoming_data_cb rx i len flags w) (\<lambda>w'. w' = w\<lparr>console := console w'\<rparr>)"
  by (auto simp: mqtt_incoming_data_cb_def print_def Let_def)

lemma publish_payload_guard:
  assumes on: "online w"
  shows "guards {Overrun, NullDeref} (publish_payload io i n rem qos w) (\<lambda>(res, w'). kept w w')"
proof -
  have ack: "guards {Overrun, NullDeref} (bind_outcome (pub_ack_rec_rel_response io msg (inpub_pkt_id (client w1)) 0 w1)
        (\<lambda>(_, w). Ok (MQTT_CONNECT_ACCEPTED, w))) (\<lambda>(res, w'). kept w w')"
    if "kept w w1" for w1 msg
  proof -
    from that have on1: "online w1" by (simp add: kept_def)
    then obtain p where p: "conn (client w1) = Some p" using online_conn by blast
    show ?thesis
      by (rule yields_guards, rule yields_bind [OF pub_ack_rec_rel_response_run [OF on1 p]])
        (use that in \<open>auto simp: kept_def same_rx_def\<close>)
  qed
  have "guards {Overrun, NullDeref}
      (bind_outcome (mqtt_incoming_data_cb (rx_buffer (client w)) i n fl w) (\<lambda>w.
         if rem = 0 \<and> qos > 0 then
           bind_outcome (pub_ack_rec_rel_response io msg (inpub_pkt_id (client w)) 0 w)
             (\<lambda>(_, w). Ok (MQTT_CONNECT_ACCEPTED, w))
         else Ok (MQTT_CONNECT_ACCEPTED, w))) (\<lambda>(res, w'). kept w w')" for fl msg
  proof (rule guards_bind [OF mqtt_incoming_data_cb_guard])
    fix w1 :: "'a world"
    assume "w1 = w\<lparr>console := console w1\<rparr>"
    then have "kept w w1" using kept_console [OF on] by blast
    with ack show "guards {Overrun, NullDeref}
        (if rem = 0 \<and> qos > 0 then
           bind_outcome (pub_ack_rec_rel_response io msg (inpub_pkt_id (client w1)) 0 w1)
             (\<lambda>(_, w). Ok (MQTT_CONNECT_ACCEPTED, w))
         else Ok (MQTT_CONNECT_ACCEPTED, w1)) (\<lambda>(res, w'). kept w w')" by simp
  qed
  then show ?thesis
    using on by (auto simp: publish_payload_def kept_def same_rx_def split: option.split mqtt_incoming_data_cb_t.split)
qed

lemma rx_guard: "guards {Overrun, NullDeref} (rx_at w i) (\<lambda>_. True)" "guards {Overrun, NullDeref} (rx_u16 w i) (\<lambda>_. True)"
  by (simp_all add: rx_at_def rx_u16_def)

lemma publish_header_guard:
  assumes on: "online w"
  shows "guards {Overrun, NullDeref} (publish_header hdr len rem qos w) (\<lambda>(off, w'). kept w w')"
proof -
  have on': "online (w\<lparr>client := (client w)\<lparr>inpub_pkt_id := x\<rparr>\<rparr>)" for x
    using online_quiet [OF on quiet_ticks(4)] on by (simp add: online_def mqtt_inv_def)
  show ?thesis
    unfolding publish_header_def Let_def
    apply (rule guards_bind [OF rx_guard(2)])
    subgoal for t
      apply (cases "unat (2 + t) + (if qos \<noteq> 0 then 2 else 1) > unat len")
      subgoal using on by (simp add: kept_def same_rx_def)
      apply (simp only: if_False)
      apply (rule guards_bind [where Q = "\<lambda>_. True"])
      subgoal by (auto intro: guards_bind [OF rx_guard(2)])
      apply (simp only: split_beta)
      apply (rule guards_bind [OF rx_guard(1)])
      using on' by (auto simp: kept_def same_rx_def online_def mqtt_incoming_publish_cb_def
          split: option.split mqtt_incoming_publish_cb_t.split)
    done
qed

lemma mqtt_message_received_guard:
  assumes on: "online w" and hdr: "2 \<le> unat f" "unat f + 2 < 128"
  shows "guards {Overrun, NullDeref} (mqtt_message_received io f len rem w) (\<lambda>(res, w'). kept w w')"
proof -
  have b0: "rx_at w 0 = Ok (rx_buffer (client w) ! 0)" using rx_at_Ok [OF on, of 0] by simp
  have connack: "guards F (received_connack io (unat f) w) (\<lambda>(res, w'). kept w w')" for F
    using hdr by (intro yields_guards yields_mono [OF received_connack_run [OF on]]) auto
  have hd: "guards {Overrun, NullDeref} (if unat (msg_idx (client w)) \<le> MQTT_VAR_HEADER_BUFFER_LEN
      then publish_header (unat f) len rem qos w else Ok (Some 0, w)) (\<lambda>(off, w'). kept w w')" for qos
    using publish_header_guard [OF on] on by (simp add: kept_def same_rx_def)
  have rest: "guards {Overrun, NullDeref} (publish_payload io i n rem qos w1) (\<lambda>(res, w'). kept w w')"
    if "kept w w1" for i n qos w1
    using that by (intro guards_mono [OF publish_payload_guard]) (auto simp: kept_def same_rx_def)
  have pub: "guards {Overrun, NullDeref} (received_publish io (unat f) len rem w) (\<lambda>(res, w'). kept w w')"
    unfolding received_publish_def b0 bind_outcome.simps Let_def
    by (rule guards_bind [OF hd]) (use rest in \<open>auto split: option.splits\<close>)
  show ?thesis
    unfolding mqtt_message_received_def Let_def b0 bind_outcome.simps
    using connack pub yields_guards [OF received_with_id_run [OF on hdr(2)]] on
    by (auto simp: kept_def same_rx_def)
qed

section \<open>The parser's loop ends\<close>

text \<open>
  A bound on the rounds left: a round consumes data, or reads on in the header it has already
  stored, or completes a message without consuming data and is then ready for the next.
\<close>

definition parse_measure :: "u8 list \<Rightarrow> parser \<Rightarrow> 's world \<Rightarrow> nat" where
  "parse_measure p ps w =
     (unat (tot_len p) - unat (in_offset ps)) * 18 +
     (if fixed_hdr_idx ps = 0 \<and> msg_idx (client w) = 0 then 0 else 16 - unat (fixed_hdr_idx ps))"

lemma tot_len_le: "unat (tot_len p) \<le> length p"
  by (simp add: tot_len_def unat_of_nat)

lemma parse_measure_consume:
  assumes "unat (in_offset ps) + k \<le> unat (tot_len p)" and "0 < k"
    and "unat (in_offset ps') = unat (in_offset ps) + k"
  shows "parse_measure p ps' w' < parse_measure p ps w"
proof -
  let ?A = "unat (tot_len p) - unat (in_offset ps)" and ?B = "unat (tot_len p) - unat (in_offset ps')"
  have "?B + 1 \<le> ?A" using assms by linarith
  moreover have "parse_measure p ps' w' \<le> ?B * 18 + 16" "?A * 18 \<le> parse_measure p ps w"
    by (simp_all add: parse_measure_def)
  ultimately show ?thesis by linarith
qed

lemma unat_ucast_u32 [simp]: "unat (ucast (x :: u8) :: u32) = unat x" "unat (ucast (y :: u16) :: u32) = unat y"
  unfolding unat_eq_nat_uint by (subst uint_up_ucast; simp add: is_up)+

definition copy_start :: "parser \<Rightarrow> 's world \<Rightarrow> u16" where
  "copy_start ps w =
     ucast ((msg_idx (client w) - ucast (fixed_hdr_idx ps)) mod
            (word_of_nat MQTT_VAR_HEADER_BUFFER_LEN - ucast (fixed_hdr_idx ps)) + ucast (fixed_hdr_idx ps))"

definition copy_len :: "u8 list \<Rightarrow> parser \<Rightarrow> 's world \<Rightarrow> u16" where
  "copy_len p ps w =
     (let n = ucast (min (ucast (tot_len p - in_offset ps)) (msg_rem_len ps)) :: u16;
          space = word_of_nat MQTT_VAR_HEADER_BUFFER_LEN - copy_start ps w in
      if n > space then space else n)"

lemma copy_start_less:
  assumes "unat (fixed_hdr_idx ps) \<le> 6"
  shows "unat (copy_start ps w) < 128" "unat (fixed_hdr_idx ps) \<le> unat (copy_start ps w)"
proof -
  let ?f = "ucast (fixed_hdr_idx ps) :: u32" and ?m = "msg_idx (client w)"
  have f: "unat ?f = unat (fixed_hdr_idx ps)" by simp
  have d: "unat ((128 :: u32) - ?f) = 128 - unat (fixed_hdr_idx ps)"
    using assms by (simp add: unat_sub word_le_nat_alt f)
  let ?r = "(?m - ?f) mod (128 - ?f)"
  have r: "unat ?r < 128 - unat (fixed_hdr_idx ps)"
    using assms by (simp add: unat_mod_distrib d)
  have "unat (?r + ?f) = unat ?r + unat (fixed_hdr_idx ps)"
    using r assms by (subst unat_add_small) (simp_all add: f)
  then have "unat (copy_start ps w) = unat ?r + unat (fixed_hdr_idx ps)"
    using r by (simp add: copy_start_def MQTT_VAR_HEADER_BUFFER_LEN_def unsigned_ucast_eq take_bit_eq_mod)
  with r assms show "unat (copy_start ps w) < 128" "unat (fixed_hdr_idx ps) \<le> unat (copy_start ps w)" by simp_all
qed

lemma copy_len_bounds:
  assumes f: "unat (fixed_hdr_idx ps) \<le> 6" and io: "in_offset ps < tot_len p"
  shows "unat (in_offset ps) + unat (copy_len p ps w) \<le> unat (tot_len p)"
    and "unat (copy_start ps w) + unat (copy_len p ps w) \<le> 128"
    and "msg_rem_len ps \<noteq> 0 \<Longrightarrow> 0 < unat (copy_len p ps w)"
    and "unat (copy_len p ps w) \<le> unat (msg_rem_len ps)"
proof -
  define n :: u16 where "n = ucast (min (ucast (tot_len p - in_offset ps)) (msg_rem_len ps))"
  let ?d = "tot_len p - in_offset ps" and ?s = "word_of_nat MQTT_VAR_HEADER_BUFFER_LEN - copy_start ps w"
  have d: "unat ?d = unat (tot_len p) - unat (in_offset ps)"
    using io by (simp add: unat_sub word_le_nat_alt word_less_nat_alt)
  have mn: "unat (min (ucast ?d) (msg_rem_len ps)) = min (unat ?d) (unat (msg_rem_len ps))"
    by (simp add: min_def word_le_nat_alt)
  have "unat n = min (unat ?d) (unat (msg_rem_len ps))"
    unfolding n_def using mn unsigned_less [where 'a = nat, of ?d]
    by (simp add: unsigned_ucast_eq take_bit_eq_mod)
  moreover have s: "unat ?s = 128 - unat (copy_start ps w)"
    using copy_start_less(1) [OF f, of w] by (simp add: MQTT_VAR_HEADER_BUFFER_LEN_def unat_sub word_le_nat_alt)
  moreover have "unat (copy_len p ps w) = min (unat ?s) (unat n)"
    unfolding copy_len_def Let_def n_def [symmetric] by (simp add: min_def word_less_nat_alt not_less)
  ultimately have c: "unat (copy_len p ps w) = min (128 - unat (copy_start ps w)) (min (unat ?d) (unat (msg_rem_len ps)))"
    by simp
  show "unat (in_offset ps) + unat (copy_len p ps w) \<le> unat (tot_len p)"
    using c d io by (simp add: word_less_nat_alt)
  show "unat (copy_start ps w) + unat (copy_len p ps w) \<le> 128"
    using c copy_start_less(1) [OF f, of w] by simp
  show "unat (copy_len p ps w) \<le> unat (msg_rem_len ps)" using c by simp
  show "0 < unat (copy_len p ps w)" if "msg_rem_len ps \<noteq> 0"
  proof -
    have "0 < unat (msg_rem_len ps)" using that by (simp add: word_unat_eq_iff)
    then show ?thesis using c copy_start_less(1) [OF f, of w] d io by (simp add: word_less_nat_alt)
  qed
qed

lemma set_msg_idx_fields [simp]: "msg_idx (client (set_msg_idx k w)) = k"
  by (simp add: set_msg_idx_def)

lemma header_byte_progress:
  assumes "header_byte p ps w = Ok (ps1, w1)" and io: "in_offset ps < tot_len p"
  shows "fixed_hdr_idx ps1 = fixed_hdr_idx ps \<and>
    (in_offset ps1 = in_offset ps \<and> w1 = w \<and> unat (fixed_hdr_idx ps) < unat (msg_idx (client w)) \<or>
     unat (in_offset ps1) = unat (in_offset ps) + 1 \<and> unat (in_offset ps) + 1 \<le> unat (tot_len p))"
proof -
  have "unat (in_offset ps + 1) = unat (in_offset ps) + 1"
    using io unsigned_less [where 'a = nat, of "tot_len p"] by (subst unat_add_small) (simp_all add: word_less_nat_alt)
  then show ?thesis
    using assms by (auto simp: header_byte_def outcome_simps rx_at_def Let_def word_less_nat_alt split: if_splits)
qed

lemma parse_header_Ok:
  assumes "parse_header io p ps w = Ok (ps', w')" and f: "unat (fixed_hdr_idx ps) \<le> 6"
  shows "\<exists>ps1 w1. header_byte p ps w = Ok (ps1, w1) \<and> in_offset ps' = in_offset ps1 \<and>
    (fixed_hdr_idx ps' = 0 \<and> msg_idx (client w') = 0 \<or>
     fixed_hdr_idx ps' = fixed_hdr_idx ps1 + 1 \<and> unat (fixed_hdr_idx ps1 + 1) \<le> 6 \<and> w' = w1)"
proof -
  from assms(1) obtain ps1 w1 where h: "header_byte p ps w = Ok (ps1, w1)"
    by (auto simp: parse_header_def outcome_simps)
  have "unat (fixed_hdr_idx ps1 + 1) \<le> 6" if "\<not> (unat (fixed_hdr_idx ps1 + 1) - 2) * 7 \<ge> 32"
    using that by simp
  with assms(1) h show ?thesis
    by (auto simp: parse_header_def outcome_simps Let_def split: if_splits)
qed

lemma parse_header_progress:
  assumes run: "parse_header io p ps w = Ok (ps', w')" and f: "unat (fixed_hdr_idx ps) \<le> 6"
    and io: "in_offset ps < tot_len p"
  shows "unat (fixed_hdr_idx ps') \<le> 6 \<and> in_offset ps' \<le> tot_len p \<and> parse_measure p ps' w' < parse_measure p ps w"
proof -
  from parse_header_Ok [OF run f] obtain ps1 w1 where h: "header_byte p ps w = Ok (ps1, w1)"
    and off: "in_offset ps' = in_offset ps1"
    and res: "fixed_hdr_idx ps' = 0 \<and> msg_idx (client w') = 0 \<or>
      fixed_hdr_idx ps' = fixed_hdr_idx ps1 + 1 \<and> unat (fixed_hdr_idx ps1 + 1) \<le> 6 \<and> w' = w1" by blast
  note prog = header_byte_progress [OF h io]
  have six: "unat (fixed_hdr_idx ps') \<le> 6" using res by auto
  show ?thesis
  proof (cases "in_offset ps1 = in_offset ps")
    case False
    with prog have "unat (in_offset ps1) = unat (in_offset ps) + 1" "unat (in_offset ps) + 1 \<le> unat (tot_len p)" by auto
    with parse_measure_consume [of ps 1 p ps' w' w] off six show ?thesis by (simp add: word_le_nat_alt)
  next
    case True
    with prog have re: "w1 = w" "unat (fixed_hdr_idx ps) < unat (msg_idx (client w))" "fixed_hdr_idx ps1 = fixed_hdr_idx ps"
      by auto
    then have "msg_idx (client w) \<noteq> 0" by auto
    then have before: "parse_measure p ps w = (unat (tot_len p) - unat (in_offset ps)) * 18 + (16 - unat (fixed_hdr_idx ps))"
      by (simp add: parse_measure_def)
    have step: "unat (fixed_hdr_idx ps + 1) = unat (fixed_hdr_idx ps) + 1"
      using f by (subst unat_add_small) simp_all
    have "parse_measure p ps' w' < parse_measure p ps w"
      using res re step f unfolding before by (auto simp: parse_measure_def off True)
    with six io off True show ?thesis by simp
  qed
qed

lemma parse_body_eq:
  "parse_body io p ps w =
     bind_outcome
       (memcpy (rx_buffer (client w)) (unat (copy_start ps w)) p (unat (in_offset ps)) (unat (copy_len p ps w))) (\<lambda>rx.
     let n = copy_len p ps w;
         w1 = w\<lparr>client := (client w)\<lparr>rx_buffer := rx, msg_idx := msg_idx (client w) + ucast n\<rparr>\<rparr>;
         ps1 = ps\<lparr>in_offset := in_offset ps + n, msg_rem_len := msg_rem_len ps - ucast n\<rparr> in
     if msg_rem_len ps1 = 0 \<or> n = word_of_nat MQTT_VAR_HEADER_BUFFER_LEN - copy_start ps w then
       bind_outcome
         (mqtt_message_received io (fixed_hdr_idx ps) (copy_start ps w + n - ucast (fixed_hdr_idx ps)) (msg_rem_len ps1) w1)
         (\<lambda>(res, w2).
            if res \<noteq> MQTT_CONNECT_ACCEPTED then Ok (Some res, ps1, w2)
            else if msg_rem_len ps1 = 0 then Ok (None, ps1\<lparr>fixed_hdr_idx := 0\<rparr>, set_msg_idx 0 w2)
            else Ok (None, ps1, w2))
     else Ok (None, ps1, w1))"
  unfolding parse_body_def copy_len_def copy_start_def Let_def ..

lemma parse_body_progress:
  assumes run: "parse_body io p ps w = Ok (None, ps', w')" and f: "2 \<le> unat (fixed_hdr_idx ps)" "unat (fixed_hdr_idx ps) \<le> 6"
    and io: "in_offset ps < tot_len p"
  shows "unat (fixed_hdr_idx ps') \<le> 6 \<and> in_offset ps' \<le> tot_len p \<and> parse_measure p ps' w' < parse_measure p ps w"
proof -
  let ?n = "copy_len p ps w"
  note n = copy_len_bounds [OF f(2) io, of w]
  have off: "unat (in_offset ps + ?n) = unat (in_offset ps) + unat ?n"
    using n(1) unsigned_less [where 'a = nat, of "tot_len p"] by (intro unat_add_small) simp
  have cases: "in_offset ps' = in_offset ps + ?n \<and>
      (fixed_hdr_idx ps' = fixed_hdr_idx ps \<and> 0 < unat ?n \<or> fixed_hdr_idx ps' = 0 \<and> msg_idx (client w') = 0)"
  proof (cases "msg_rem_len ps = 0")
    case True
    then have "?n = 0" using n(4) by (simp add: word_unat_eq_iff)
    with True run show ?thesis
      by (auto simp: parse_body_eq outcome_simps Let_def split: if_splits)
  next
    case False
    with n(3) have "0 < unat ?n" by blast
    with run show ?thesis
      by (auto simp: parse_body_eq outcome_simps Let_def split: if_splits)
  qed
  have six: "unat (fixed_hdr_idx ps') \<le> 6" using cases f by auto
  show ?thesis
  proof (cases "0 < unat ?n")
    case True
    with parse_measure_consume [of ps "unat ?n" p ps' w' w] n(1) off cases six show ?thesis
      by (simp add: word_le_nat_alt)
  next
    case False
    then have "in_offset ps' = in_offset ps" "fixed_hdr_idx ps' = 0" "msg_idx (client w') = 0"
      using cases off by (auto simp: word_unat_eq_iff)
    moreover have "fixed_hdr_idx ps \<noteq> 0" using f(1) by auto
    moreover have "16 - unat (fixed_hdr_idx ps) > 0" using f(2) by linarith
    ultimately show ?thesis using io six by (simp add: parse_measure_def word_less_nat_alt word_le_nat_alt)
  qed
qed

lemma parse_round_progress:
  assumes run: "parse_round io p ps w = Ok (None, ps', w')" and f: "unat (fixed_hdr_idx ps) \<le> 6"
    and io: "in_offset ps < tot_len p"
  shows "unat (fixed_hdr_idx ps') \<le> 6 \<and> in_offset ps' \<le> tot_len p \<and> parse_measure p ps' w' < parse_measure p ps w"
proof (cases "fixed_hdr_idx ps < 2 \<or> hdr_b ps AND 0x80 \<noteq> 0")
  case True
  with run have "parse_header io p ps w = Ok (ps', w')" by (auto simp: parse_round_def outcome_simps)
  from parse_header_progress [OF this f io] show ?thesis .
next
  case False
  then have "2 \<le> unat (fixed_hdr_idx ps)" by (simp add: word_less_nat_alt)
  moreover have "parse_body io p ps w = Ok (None, ps', w')" using run False by (simp add: parse_round_def)
  ultimately show ?thesis using parse_body_progress [OF _ _ f io] by blast
qed

lemma parse_loop_returns:
  "unat (fixed_hdr_idx ps) \<le> 6 \<Longrightarrow> \<exists>r. parse_loop io p ps w = Some r"
proof (induction "parse_measure p ps w" arbitrary: ps w rule: less_induct)
  case less
  show ?case
  proof (cases "in_offset ps < tot_len p")
    case False
    then show ?thesis by (simp add: parse_loop.simps [of io p ps])
  next
    case True
    show ?thesis
    proof (cases "parse_round io p ps w")
      case (Halt e)
      then show ?thesis using True by (simp add: parse_loop.simps [of io p ps])
    next
      case (Ok r)
      obtain o1 ps' w' where r: "r = (o1, ps', w')" by (cases r)
      show ?thesis
      proof (cases o1)
        case None
        with Ok r parse_round_progress [of io p ps w ps' w'] less.prems True
        have "unat (fixed_hdr_idx ps') \<le> 6" "parse_measure p ps' w' < parse_measure p ps w" by auto
        with less.hyps [of ps' w'] Ok r None True show ?thesis by (simp add: parse_loop.simps [of io p ps])
      next
        case (Some res)
        with Ok r True show ?thesis by (simp add: parse_loop.simps [of io p ps])
      qed
    qed
  qed
qed

section \<open>The parser keeps the invariant\<close>

abbreviation faults :: "halt set" where
  "faults \<equiv> {Overrun, NullDeref, BadShift}"

lemma message_received_faults:
  "online w \<Longrightarrow> 2 \<le> unat f \<Longrightarrow> unat f \<le> 6 \<Longrightarrow>
   guards faults (mqtt_message_received io f len rem w) (\<lambda>(res, w'). kept w w')"
  by (rule guards_mono [OF mqtt_message_received_guard]) auto

lemma online_rx_update:
  assumes "online w" and "length rx = 128"
  shows "online (w\<lparr>client := (client w)\<lparr>rx_buffer := rx, msg_idx := i\<rparr>\<rparr>)"
proof -
  have "quiet_update (\<lambda>c. c\<lparr>rx_buffer := rx, msg_idx := i\<rparr>) (client w)"
    using assms by (auto simp: quiet_update_def online_def mqtt_inv_def core_inv_def)
  from online_quiet [OF assms(1) this] show ?thesis .
qed

lemma online_set_msg_idx: "online w \<Longrightarrow> online (set_msg_idx i w)"
  unfolding set_msg_idx_def by (rule online_quiet) (simp_all add: quiet_ticks online_def mqtt_inv_def)

lemma header_byte_guard:
  "online w \<Longrightarrow> guards faults (header_byte p ps w) (\<lambda>(ps1, w1). online w1 \<and> fixed_hdr_idx ps1 = fixed_hdr_idx ps)"
  by (auto simp: header_byte_def rx_at_def Let_def online_rx intro: online_rx_update)

lemma parse_header_guard:
  assumes on: "online w" and f: "unat (fixed_hdr_idx ps) \<le> 6"
  shows "guards faults (parse_header io p ps w) (\<lambda>(ps', w'). online w')"
  unfolding parse_header_def
proof (rule guards_bind [OF header_byte_guard [OF on]], clarify)
  fix ps1 :: parser and w1 :: "'a world"
  assume on1: "online w1" and eq: "fixed_hdr_idx ps1 = fixed_hdr_idx ps"
  have msg: "guards faults (bind_outcome (mqtt_message_received io i 0 0 w1)
      (\<lambda>(_, w). Ok (ps2, set_msg_idx 0 w))) (\<lambda>(ps', w'). online w')" if "2 \<le> unat i" "unat i \<le> 6" for i ps2
    by (rule guards_bind [OF message_received_faults [OF on1 that]]) (auto simp: kept_def online_set_msg_idx)
  show "guards faults
     (let ps = ps1\<lparr>fixed_hdr_idx := fixed_hdr_idx ps1 + 1\<rparr>; i = unat (fixed_hdr_idx ps) in
      if i \<ge> 2 then
        if (i - 2) * 7 \<ge> 32 then Halt BadShift
        else
        let ps = ps\<lparr>msg_rem_len := msg_rem_len ps OR push_bit ((i - 2) * 7) (ucast (hdr_b ps AND 0x7f))\<rparr> in
        if hdr_b ps AND 0x80 = 0 then
          if msg_rem_len ps = 0 then
            bind_outcome (mqtt_message_received io (fixed_hdr_idx ps) 0 0 w1) (\<lambda>(_, w).
              Ok (ps\<lparr>fixed_hdr_idx := 0\<rparr>, set_msg_idx 0 w))
          else Ok (ps\<lparr>msg_rem_len := (msg_rem_len ps + ucast (fixed_hdr_idx ps)) - msg_idx (client w1)\<rparr>, w1)
        else Ok (ps, w1)
      else Ok (ps, w1)) (\<lambda>(ps', w'). online w')"
    unfolding Let_def by (intro guards_if msg) (use on1 in auto)
qed

lemma parse_body_guard:
  assumes on: "online w" and f: "2 \<le> unat (fixed_hdr_idx ps)" "unat (fixed_hdr_idx ps) \<le> 6"
    and io: "in_offset ps < tot_len p"
  shows "guards faults (parse_body io p ps w) (\<lambda>(r, ps', w'). online w')"
proof -
  let ?n = "copy_len p ps w" and ?s = "copy_start ps w"
  note n = copy_len_bounds [OF f(2) io, of w]
  have len: "length (rx_buffer (client w)) = 128" using on by (rule online_rx)
  have src: "unat (in_offset ps) + unat ?n \<le> length p" using n(1) tot_len_le [of p] by linarith
  define rx where "rx = blit (rx_buffer (client w)) (unat ?s) p (unat (in_offset ps)) (unat ?n)"
  have cpy: "memcpy (rx_buffer (client w)) (unat ?s) p (unat (in_offset ps)) (unat ?n) = Ok rx"
    using n(2) len src by (simp add: memcpy_def rx_def)
  let ?w = "w\<lparr>client := (client w)\<lparr>rx_buffer := rx, msg_idx := msg_idx (client w) + ucast ?n\<rparr>\<rparr>"
  have on1: "online ?w"
    using n(2) len src by (intro online_rx_update [OF on]) (simp add: rx_def)
  have msg: "guards faults (bind_outcome (mqtt_message_received io (fixed_hdr_idx ps) l rem ?w)
      (\<lambda>(res, w2). if res \<noteq> MQTT_CONNECT_ACCEPTED then Ok (Some res, ps1, w2)
            else if rem = 0 then Ok (None, ps2, set_msg_idx 0 w2) else Ok (None, ps1, w2)))
      (\<lambda>(r, ps', w'). online w')" for l rem ps1 ps2
    by (rule guards_bind [OF message_received_faults [OF on1 f]]) (auto simp: kept_def online_set_msg_idx)
  show ?thesis
    unfolding parse_body_eq cpy bind_outcome.simps Let_def
    by (rule guards_if, rule msg) (use on1 in simp)
qed

lemma parse_round_guard:
  assumes "online w" and "unat (fixed_hdr_idx ps) \<le> 6" and "in_offset ps < tot_len p"
  shows "guards faults (parse_round io p ps w) (\<lambda>(r, ps', w'). online w')"
  unfolding parse_round_def
proof (rule guards_if)
  show "guards faults (bind_outcome (parse_header io p ps w) (\<lambda>(ps, w). Ok (None, ps, w))) (\<lambda>(r, ps', w'). online w')"
    by (rule guards_bind [OF parse_header_guard [OF assms(1,2)]]) auto
next
  assume "\<not> (fixed_hdr_idx ps < 2 \<or> hdr_b ps AND 0x80 \<noteq> 0)"
  then have "2 \<le> unat (fixed_hdr_idx ps)" by (simp add: word_less_nat_alt)
  then show "guards faults (parse_body io p ps w) (\<lambda>(r, ps', w'). online w')"
    using parse_body_guard assms by blast
qed

lemma parse_loop_guard:
  "unat (fixed_hdr_idx ps) \<le> 6 \<Longrightarrow> online w \<Longrightarrow>
   \<exists>r. parse_loop io p ps w = Some r \<and> guards faults r (\<lambda>(res, w'). online w')"
proof (induction "parse_measure p ps w" arbitrary: ps w rule: less_induct)
  case less
  show ?case
  proof (cases "in_offset ps < tot_len p")
    case False
    then show ?thesis using less.prems by (simp add: parse_loop.simps [of io p ps])
  next
    case True
    note g = parse_round_guard [OF less.prems(2,1) True, of io]
    show ?thesis
    proof (cases "parse_round io p ps w")
      case (Halt e)
      then show ?thesis using g True by (simp add: parse_loop.simps [of io p ps])
    next
      case (Ok r)
      obtain o1 ps' w' where r: "r = (o1, ps', w')" by (cases r)
      have on': "online w'" using g Ok r by simp
      show ?thesis
      proof (cases o1)
        case None
        with Ok r parse_round_progress [of io p ps w ps' w'] less.prems True
        have "unat (fixed_hdr_idx ps') \<le> 6" "parse_measure p ps' w' < parse_measure p ps w" by auto
        with less.hyps [of ps' w'] on' Ok r None True show ?thesis by (simp add: parse_loop.simps [of io p ps])
      next
        case (Some res)
        with Ok r True on' show ?thesis by (simp add: parse_loop.simps [of io p ps])
      qed
    qed
  qed
qed

lemma mqtt_parse_incoming_guard:
  assumes "online w"
  shows "guards faults (mqtt_parse_incoming io p w) (\<lambda>(res, w'). online w')"
  using parse_loop_guard [of start_parser w io p] assms
  by (auto simp: mqtt_parse_incoming_def loop_outcome_def start_parser_def)

section \<open>The callbacks of TCP\<close>

lemma close_online_run:
  assumes "online w" and "res \<noteq> MQTT_CONNECT_ACCEPTED"
  shows "yields (mqtt_close io res w) reconnecting"
  using mqtt_close_run [OF mqtt_inv_closable, of w res io] assms
  by (auto simp: online_def intro: yields_mono)

lemma watchdog_reset_inv:
  "mqtt_inv w \<Longrightarrow> mqtt_inv (if keep_alive (client w) \<noteq> 0 then w\<lparr>client := (client w)\<lparr>server_watchdog := 0\<rparr>\<rparr> else w)"
  using mqtt_inv_quiet [of w "\<lambda>c. c\<lparr>server_watchdog := 0\<rparr>"] quiet_ticks(2) [OF mqtt_inv_core, of w] by simp

lemma mqtt_tcp_recv_cb_guard:
  assumes on: "online w"
  shows "guards faults (mqtt_tcp_recv_cb io pcb p err w) (\<lambda>(e, w'). mqtt_inv w')"
proof (cases p)
  case None
  have "MQTT_CONNECT_DISCONNECTED \<noteq> MQTT_CONNECT_ACCEPTED"
    by (simp add: MQTT_CONNECT_DISCONNECTED_def MQTT_CONNECT_ACCEPTED_def)
  from close_online_run [OF on this, of io] None show ?thesis
    by (auto simp: mqtt_tcp_recv_cb_def yields_def reconnecting_inv)
next
  case (Some d)
  let ?w = "w\<lparr>tcp := tcp_recved io (tcp w) pcb (tot_len d)\<rparr>"
  have on': "online ?w" using on by (simp add: online_def)
  have close: "guards faults (if res \<noteq> MQTT_CONNECT_ACCEPTED then mqtt_close io res w1 else Ok w1) mqtt_inv"
    if "online w1" for res w1
    using that close_online_run [OF that, of res io]
    by (auto intro!: yields_guards intro: yields_mono simp: reconnecting_inv online_def)
  have "guards faults (bind_outcome (mqtt_parse_incoming io d ?w) (\<lambda>(res, w).
      bind_outcome (if res \<noteq> MQTT_CONNECT_ACCEPTED then mqtt_close io res w else Ok w) (\<lambda>w.
      Ok (ERR_OK, if keep_alive (client w) \<noteq> 0 then w\<lparr>client := (client w)\<lparr>server_watchdog := 0\<rparr>\<rparr> else w))))
      (\<lambda>(e, w'). mqtt_inv w')"
    by (rule guards_bind [OF mqtt_parse_incoming_guard [OF on']], clarify, rule guards_bind [OF close])
      (auto dest: watchdog_reset_inv)
  then show ?thesis using Some on by (simp add: mqtt_tcp_recv_cb_def online_def)
qed

text \<open>
  Everything sent: the requests that expect no answer are completed, one after the other.
\<close>

lemma sent_loop_run:
  "online w \<Longrightarrow> queue_inv (req_list (client w)) (pend_req_queue (client w)) q \<Longrightarrow>
   \<exists>w'. sent_loop w = Some (Ok w') \<and> kept w w' \<and> conn_state (client w') = conn_state (client w) \<and>
     queue_inv (req_list (client w')) (pend_req_queue (client w')) (filter (\<lambda>n. pkt_id (req_list (client w) ! n) \<noteq> 0) q)"
proof (induction q arbitrary: w rule: measure_induct_rule [where f = length])
  case (less q)
  note on = less.prems(1) and q = less.prems(2)
  show ?case
  proof (cases "\<exists>n \<in> set q. pkt_id (req_list (client w) ! n) = 0")
    case False
    then have "filter (\<lambda>n. pkt_id (req_list (client w) ! n) \<noteq> 0) q = q" by (simp add: filter_id_conv)
    moreover have "mqtt_take_request (req_list (client w)) (pend_req_queue (client w)) 0 =
        Ok (None, req_list (client w), pend_req_queue (client w))"
      using mqtt_take_request_None [OF q] False by blast
    ultimately show ?thesis using on q
      by (simp add: sent_loop.simps [of w] kept_def same_rx_def)
  next
    case True
    then obtain q1 n q2 where split: "q = q1 @ n # q2" "pkt_id (req_list (client w) ! n) = 0"
      "\<forall>m \<in> set q1. pkt_id (req_list (client w) ! m) \<noteq> 0"
      using split_list_first_prop [of q "\<lambda>n. pkt_id (req_list (client w) ! n) = 0"] by blast
    from mqtt_take_request_Some [OF q [unfolded split(1)] split(3,2)] obtain objs tail where tk:
      "mqtt_take_request (req_list (client w)) (pend_req_queue (client w)) 0 = Ok (Some n, objs, tail)"
      "queue_inv objs tail (q1 @ q2)" "same_items (req_list (client w)) objs" by blast
    define w1 where "w1 = fold call_request_cb (notify_req (objs ! n) ERR_OK)
        (w\<lparr>client := (client w)\<lparr>req_list := objs, pend_req_queue := tail\<rparr>\<rparr>)"
    define w2 where "w2 = w1\<lparr>client := (client w1)\<lparr>req_list := mqtt_delete_request objs (Some n)\<rparr>\<rparr>"
    have n: "n \<notin> set (q1 @ q2)" using queue_inv_distinct [OF q] split(1) by auto
    have q': "queue_inv (mqtt_delete_request objs (Some n)) tail (q1 @ q2)"
      using tk(2) n by (simp add: queue_inv_def mqtt_delete_request_keeps)
    have on1: "online w1" using online_client_update [OF on tk(2)] by (simp add: w1_def online_def)
    have cl1: "client w1 = (client w)\<lparr>req_list := objs, pend_req_queue := tail\<rparr>" by (simp add: w1_def)
    have on2: "online w2" unfolding w2_def using q' by (intro online_req_list [OF on1]) (simp add: cl1)
    have cl2: "client w2 = (client w)\<lparr>pend_req_queue := tail, req_list := mqtt_delete_request objs (Some n)\<rparr>"
      by (simp add: w2_def cl1)
    have items: "pkt_id (mqtt_delete_request objs (Some n) ! m) = pkt_id (req_list (client w) ! m)" for m
      using same_items_pkt_id [OF same_items_trans [OF tk(3) mqtt_delete_request_keeps(2)]] .
    have "sent_loop w = sent_loop w2"
      by (simp add: sent_loop.simps [of w] tk(1) w2_def cl1 Let_def) (simp add: w1_def)
    moreover from less.IH [of "q1 @ q2" w2] on2 q' split(1) obtain w' where
      "sent_loop w2 = Some (Ok w')" "kept w2 w'" "conn_state (client w') = conn_state (client w2)"
      "queue_inv (req_list (client w')) (pend_req_queue (client w'))
         (filter (\<lambda>n. pkt_id (req_list (client w2) ! n) \<noteq> 0) (q1 @ q2))"
      by (auto simp: cl2)
    ultimately show ?thesis
      using split by (intro exI [of _ w']) (simp add: kept_def same_rx_def cl2 items)
  qed
qed

lemma out_frame:
  assumes "w' = w\<lparr>client := (client w)\<lparr>out_rb := x\<rparr>, tcp := s\<rparr>"
  shows "conn_state (client w') = conn_state (client w)" "req_list (client w') = req_list (client w)"
    "pend_req_queue (client w') = pend_req_queue (client w)" "msg_idx (client w') = msg_idx (client w)" "hooks w' = hooks w"
  using assms by simp_all

lemma mqtt_tcp_sent_cb_run:
  assumes on: "online w" and st: "conn_state (client w) = MQTT_CONNECTED"
    and q: "queue_inv (req_list (client w)) (pend_req_queue (client w)) q"
  shows "yields (mqtt_tcp_sent_cb io w) (\<lambda>(e, w'). e = ERR_OK \<and> online w' \<and>
    queue_inv (req_list (client w')) (pend_req_queue (client w')) (filter (\<lambda>n. pkt_id (req_list (client w) ! n) \<noteq> 0) q))"
proof -
  let ?w = "w\<lparr>client := (client w)\<lparr>cyclic_tick := 0, server_watchdog := 0\<rparr>\<rparr>"
  have on1: "online ?w"
    using on by (intro online_quiet) (auto simp: quiet_update_def online_def mqtt_inv_def)
  from sent_loop_run [OF on1, of q] q obtain w1 where w1: "sent_loop ?w = Some (Ok w1)" "kept ?w w1"
    "queue_inv (req_list (client w1)) (pend_req_queue (client w1)) (filter (\<lambda>n. pkt_id (req_list (client w) ! n) \<noteq> 0) q)"
    by auto
  then have on2: "online w1" by (simp add: kept_def)
  obtain p where p: "conn (client w1) = Some p" using online_conn [OF on2] by blast
  have "mqtt_inv w1" using on2 by (simp add: online_def)
  from send_output_run [OF this, of io p] obtain w2 where w2: "send_output io (Some p) w1 = Ok w2" "mqtt_inv w2"
    "w2 = w1\<lparr>client := (client w1)\<lparr>out_rb := out_rb (client w2)\<rparr>, tcp := tcp w2\<rparr>"
    by (auto simp: yields_def)
  note out_frame [OF w2(3)]
  then show ?thesis
    using st w1 w2(1,2) p on2 by (simp add: mqtt_tcp_sent_cb_def loop_outcome_def online_def)
qed

lemma mqtt_tcp_poll_cb_run:
  assumes "mqtt_inv w"
  shows "yields (mqtt_tcp_poll_cb io p w) (\<lambda>(e, w'). e = ERR_OK \<and> mqtt_inv w')"
  using send_output_run [OF assms, of io p] assms by (auto simp: mqtt_tcp_poll_cb_def yields_def)

text \<open>TCP has freed the connection before it reports an error.\<close>

lemma mqtt_tcp_err_cb_run:
  assumes inv: "mqtt_inv w" and st: "conn_state (client w) \<noteq> TCP_DISCONNECTED" and p: "conn (client w) = Some p"
  shows "yields (mqtt_tcp_err_cb io err (set_hooks p (\<lambda>_. {}) w)) reconnecting"
proof -
  let ?w = "(set_hooks p (\<lambda>_. {}) w)\<lparr>client := (client w)\<lparr>conn := None\<rparr>\<rparr>"
  have "closable ?w"
    using mqtt_inv_closable [OF inv] p by (auto simp: closable_def hooks_inv_def set_hooks_def cyclic_timers_def)
  from mqtt_close_run [OF this, of MQTT_CONNECT_DISCONNECTED io] st
  have "yields (mqtt_close io MQTT_CONNECT_DISCONNECTED ?w) reconnecting"
    by (auto simp: MQTT_CONNECT_DISCONNECTED_def MQTT_CONNECT_ACCEPTED_def intro: yields_mono)
  moreover have "client (set_hooks p (\<lambda>_. {}) w) = client w" by (simp add: set_hooks_def)
  ultimately show ?thesis by (simp add: mqtt_tcp_err_cb_def)
qed

lemma mqtt_tcp_connect_cb_run:
  assumes inv: "mqtt_inv w" and st: "conn_state (client w) = TCP_CONNECTING" and p: "conn (client w) = Some p"
  shows "yields (mqtt_tcp_connect_cb io p ERR_OK w) (\<lambda>(e, w'). e = ERR_OK \<and> online w' \<and>
    conn_state (client w') = MQTT_CONNECTING \<and> msg_idx (client w') = 0 \<and>
    {Recv_hook, Sent_hook, Poll_hook} \<subseteq> hooks w' p \<and>
    (\<forall>stream. tcp_stream_law io stream \<longrightarrow>
       stream (tcp w') p @ rb_bytes (out_rb (client w')) = stream (tcp w) p @ rb_bytes (out_rb (client w))))"
proof -
  define w1 where "w1 = (set_hooks p (\<lambda>H. H \<union> {Recv_hook, Sent_hook, Poll_hook}) w)
      \<lparr>client := (client w)\<lparr>msg_idx := 0, conn_state := MQTT_CONNECTING\<rparr>\<rparr>"
  have "mqtt_inv w1"
    unfolding mqtt_inv_def
  proof (intro conjI)
    show "core_inv (client w1)" "app_inv (client w1)"
      using inv st p by (simp_all add: w1_def mqtt_inv_def core_inv_def app_inv_def)
    show "timer_inv w1"
      using inv st by (simp add: w1_def mqtt_inv_def timer_inv_def cyclic_timers_def set_hooks_def)
    show "recv_inv w1" by (simp add: recv_inv_def w1_def)
    show "hooks_inv w1"
      unfolding hooks_inv_def
    proof (intro allI impI)
      fix x assume x: "hooks w1 x \<inter> {Recv_hook, Sent_hook, Err_hook} \<noteq> {}"
      have "hooks w x \<inter> {Recv_hook, Sent_hook, Err_hook} \<noteq> {} \<longrightarrow> conn (client w) = Some x"
        using inv unfolding mqtt_inv_def hooks_inv_def by blast
      with x p show "conn (client w1) = Some x"
        by (cases "x = p") (simp_all add: w1_def set_hooks_def)
    qed
  qed
  moreover have "cyclic_timers w1 = 0"
    using inv st by (simp add: w1_def cyclic_timers_def mqtt_inv_def timer_inv_def set_hooks_def)
  ultimately have t: "mqtt_inv (start_cyclic_timer w1)"
    by (intro start_cyclic_timer_inv) (simp_all add: w1_def)
  define w2 where "w2 = (start_cyclic_timer w1)\<lparr>client := (client (start_cyclic_timer w1))\<lparr>cyclic_tick := 0\<rparr>\<rparr>"
  have inv2: "mqtt_inv w2"
    unfolding w2_def using mqtt_inv_quiet [OF t quiet_ticks(1) [OF mqtt_inv_core [OF t]]] .
  have cl2: "client w2 = (client w)\<lparr>msg_idx := 0, conn_state := MQTT_CONNECTING, cyclic_tick := 0\<rparr>" and tcp2: "tcp w2 = tcp w"
    by (simp_all add: w2_def start_cyclic_timer_def w1_def set_hooks_def)
  from send_output_run [OF inv2, of io p] obtain w3 where w3: "send_output io (Some p) w2 = Ok w3" "mqtt_inv w3"
    "w3 = w2\<lparr>client := (client w2)\<lparr>out_rb := out_rb (client w3)\<rparr>, tcp := tcp w3\<rparr>"
    "\<forall>stream. tcp_stream_law io stream \<longrightarrow>
       stream (tcp w3) p @ rb_bytes (out_rb (client w3)) = stream (tcp w2) p @ rb_bytes (out_rb (client w2))"
    by (auto simp: yields_def)
  have "conn_state (client w3) = MQTT_CONNECTING" "msg_idx (client w3) = 0"
    "{Recv_hook, Sent_hook, Poll_hook} \<subseteq> hooks w3 p"
    using out_frame [OF w3(3)] by (simp_all add: cl2) (simp add: w2_def w1_def start_cyclic_timer_def set_hooks_def)
  moreover have "mqtt_tcp_connect_cb io p ERR_OK w = bind_outcome (send_output io (conn (client w2)) w2) (\<lambda>w. Ok (ERR_OK, w))"
    by (simp add: mqtt_tcp_connect_cb_def Let_def w2_def w1_def start_cyclic_timer_def set_hooks_def)
  ultimately show ?thesis
    using w3(1,2,4) p by (simp add: online_def cl2 tcp2)
qed

end
