(* ===== verification/MqttRun.thy ===== *)
theory MqttRun
  imports MqttParse
begin

text \<open>
  The MQTT client at work: one step is a call of the application, a callback of TCP on a
  connection that has it set, or a timeout. Each step runs to completion, as all of them run
  in the one thread of lwIP. Every reachable state satisfies the invariant, and every step
  that the state allows returns - for received data, unless it is one of the malformed
  messages that the parser does not survive.
\<close>

section \<open>Steps\<close>

definition pop_timer :: "'s world \<Rightarrow> timer_handler sys_timeo list \<Rightarrow> u32 \<Rightarrow> 's world" where
  "pop_timer w ts d =
     w\<lparr>timers := (timers w)\<lparr>next_timeout := ts, timeouts_last_time := timeouts_last_time (timers w) + d\<rparr>\<rparr>"

inductive mqtt_step :: "'s tcp_api \<Rightarrow> 's world \<Rightarrow> 's world \<Rightarrow> bool" for io where
  Do_connect: "conn_state (client w) = TCP_DISCONNECTED \<Longrightarrow> example_do_connect io w = Ok w' \<Longrightarrow> mqtt_step io w w'"
| Do_publish: "example_publish io a w = Ok w' \<Longrightarrow> mqtt_step io w w'"
| Do_disconnect: "mqtt_disconnect io w = Ok w' \<Longrightarrow> mqtt_step io w w'"
| Connected: "Connected_hook \<in> hooks w p \<Longrightarrow> conn (client w) = Some p \<Longrightarrow> conn_state (client w) = TCP_CONNECTING \<Longrightarrow>
    mqtt_tcp_connect_cb io p ERR_OK w = Ok (e, w') \<Longrightarrow> mqtt_step io w w'"
| Received: "Recv_hook \<in> hooks w p \<Longrightarrow> mqtt_tcp_recv_cb io p d err w = Ok (e, w') \<Longrightarrow> mqtt_step io w w'"
| Sent: "Sent_hook \<in> hooks w p \<Longrightarrow> mqtt_tcp_sent_cb io w = Ok (e, w') \<Longrightarrow> mqtt_step io w w'"
| Polled: "Poll_hook \<in> hooks w p \<Longrightarrow> mqtt_tcp_poll_cb io p w = Ok (e, w') \<Longrightarrow> mqtt_step io w w'"
| Failed: "Err_hook \<in> hooks w p \<Longrightarrow> mqtt_tcp_err_cb io err (set_hooks p (\<lambda>_. {}) w) = Ok w' \<Longrightarrow> mqtt_step io w w'"
| Timer: "next_timeout (timers w) = t # ts \<Longrightarrow> h t = Mqtt_cyclic_timer \<Longrightarrow> t_arg t = CLIENT \<Longrightarrow>
    mqtt_cyclic_timer io (pop_timer w ts (time t)) = Ok w' \<Longrightarrow> mqtt_step io w w'"
| Other: "next_timeout (timers w) = t # ts \<Longrightarrow> h t = Other_timer k \<Longrightarrow> mqtt_step io w (pop_timer w ts (time t))"
| Arm_other: "mqtt_step io w (w\<lparr>timers := sys_timeout (now w) msecs (Other_timer k) a (timers w)\<rparr>)"
| Clock: "mqtt_step io w (w\<lparr>now := t\<rparr>)"
| Stack: "mqtt_step io w (w\<lparr>tcp := s\<rparr>)"

definition mqtt_start :: "'s world \<Rightarrow> bool" where
  "mqtt_start w \<longleftrightarrow> mqtt_client_new True = Some (client w) \<and> (\<forall>p. hooks w p = {}) \<and>
     timeouts_inv (timers w) \<and> cyclic_timers w = 0"

inductive mqtt_reachable :: "'s tcp_api \<Rightarrow> 's world \<Rightarrow> bool" for io where
  Start: "mqtt_start w \<Longrightarrow> mqtt_reachable io w"
| Step: "mqtt_reachable io w \<Longrightarrow> mqtt_step io w w' \<Longrightarrow> mqtt_reachable io w'"

section \<open>The invariant holds\<close>

lemma mqtt_start_inv:
  assumes "mqtt_start w" shows "mqtt_inv w"
proof -
  have cl: "client w = zero_mqtt_client" using assms by (simp add: mqtt_start_def mqtt_client_new_def)
  have "queue_inv (req_list zero_mqtt_client) None []"
    by (simp add: queue_inv_def zero_mqtt_client_def MQTT_REQ_MAX_IN_FLIGHT_def)
  moreover have "conn_state zero_mqtt_client = TCP_DISCONNECTED" "conn zero_mqtt_client = None" "pend_req_queue zero_mqtt_client = None"
    "length (rx_buffer zero_mqtt_client) = 128"
    by (simp_all add: zero_mqtt_client_def MQTT_VAR_HEADER_BUFFER_LEN_def)
  ultimately show ?thesis
    using assms zero_ring(1)
    by (auto simp: mqtt_inv_def core_inv_def app_inv_def hooks_inv_def recv_inv_def timer_inv_def mqtt_start_def cl)
qed

lemma hook_conn:
  assumes "mqtt_inv w" and "k \<in> hooks w p" and "k \<in> {Recv_hook, Sent_hook, Err_hook}"
  shows "conn (client w) = Some p" and "conn_state (client w) \<noteq> TCP_DISCONNECTED"
proof -
  show "conn (client w) = Some p" using assms unfolding mqtt_inv_def hooks_inv_def by blast
  then show "conn_state (client w) \<noteq> TCP_DISCONNECTED" using assms(1) by (auto simp: mqtt_inv_def core_inv_def)
qed

lemma hook_online:
  assumes "mqtt_inv w" and "k \<in> hooks w p" and "k \<in> {Recv_hook, Sent_hook}"
  shows "online w"
  using assms unfolding mqtt_inv_def recv_inv_def online_def by blast

lemma sent_callback_run:
  assumes on: "online w"
  shows "yields (mqtt_tcp_sent_cb io w) (\<lambda>(e, w'). mqtt_inv w')"
proof (cases "conn_state (client w) = MQTT_CONNECTED")
  case True
  from online_queue [OF on] obtain q where "queue_inv (req_list (client w)) (pend_req_queue (client w)) q" by blast
  from mqtt_tcp_sent_cb_run [OF on True this, of io] show ?thesis by (auto simp: online_def yields_def)
next
  case False
  with on show ?thesis by (simp add: mqtt_tcp_sent_cb_def online_def)
qed

lemma inv_disconnected: "mqtt_inv w \<Longrightarrow> conn_state (client w) = TCP_DISCONNECTED \<Longrightarrow> disconnected w"
  by (simp add: disconnected_def mqtt_inv_def core_inv_def timer_inv_def)

lemma example_publish_run:
  assumes inv: "mqtt_inv w"
  shows "yields (example_publish io a w) mqtt_inv"
proof (cases "conn (client w)")
  case None
  then have "conn_state (client w) = TCP_DISCONNECTED" using inv by (simp add: mqtt_inv_def core_inv_def)
  then show ?thesis using inv by (simp add: example_publish_def mqtt_publish_def Let_def)
next
  case (Some p)
  let ?pay = "ascii ''PubSubHubLubJub''"
  have n: "unat (word_of_nat (length ?pay) :: u16) = 15" by simp
  have pub: "yields (mqtt_publish io (ascii ''pub_topic'') (Some ?pay) (word_of_nat (length ?pay)) 2 0
      (Some Mqtt_pub_request_cb) a w) (\<lambda>(e, w'). mqtt_inv w')"
    using mqtt_inv_core [OF inv] Some n
    by (intro yields_mono [OF mqtt_publish_run [where p = p, OF _ _ _ _ _ refl]]) (auto intro: mqtt_inv_api [OF inv])
  show ?thesis
    unfolding example_publish_def Let_def by (rule yields_bind [OF pub]) auto
qed

lemma pop_timer_inv:
  assumes inv: "mqtt_inv w" and ts: "next_timeout (timers w) = t # ts"
  shows "mqtt_inv (pop_timer w ts d)"
    and "h t = Mqtt_cyclic_timer \<Longrightarrow> t_arg t = CLIENT \<Longrightarrow> cyclic_timers (pop_timer w ts d) = 0"
  using inv ts
  by (auto simp: pop_timer_def mqtt_inv_def hooks_inv_def recv_inv_def timer_inv_def timeouts_inv_def
      cyclic_timers_def times_armed_def split: if_splits)

lemma armed_other:
  "times_armed Mqtt_cyclic_timer a' (sys_timeout t0 msecs (Other_timer k) a T) = times_armed Mqtt_cyclic_timer a' T"
  by (auto simp: times_armed_def sys_timeout_def Let_def armed_timeout_insert split: list.split)

text \<open>Every step that is possible in a state that satisfies the invariant keeps it.\<close>

lemma yields_Ok: "yields m P \<Longrightarrow> m = Ok x \<Longrightarrow> P x"
  by (auto simp: yields_def)

lemma guards_Ok: "guards F m P \<Longrightarrow> m = Ok x \<Longrightarrow> P x"
  by (auto simp: guards_def)

lemma mqtt_step_inv:
  assumes "mqtt_step io w w'" and inv: "mqtt_inv w"
  shows "mqtt_inv w'"
  using assms(1)
proof cases
  case Do_connect
  with yields_Ok [OF example_do_connect_run [OF inv_disconnected [OF inv]]] reconnecting_inv show ?thesis by blast
next
  case Do_publish
  with yields_Ok [OF example_publish_run [OF inv]] show ?thesis by blast
next
  case Do_disconnect
  with yields_Ok [OF mqtt_disconnect_run [OF inv]] disconnected_inv show ?thesis by blast
next
  case (Connected p e)
  with yields_Ok [OF mqtt_tcp_connect_cb_run [OF inv]] show ?thesis by (fastforce simp: online_def)
next
  case (Received p d err e)
  with guards_Ok [OF mqtt_tcp_recv_cb_guard [OF hook_online [OF inv]]] show ?thesis by fastforce
next
  case (Sent p e)
  with yields_Ok [OF sent_callback_run [OF hook_online [OF inv]]] show ?thesis by fastforce
next
  case (Polled p e)
  with yields_Ok [OF mqtt_tcp_poll_cb_run [OF inv]] show ?thesis by fastforce
next
  case (Failed p err)
  then have "conn (client w) = Some p" "conn_state (client w) \<noteq> TCP_DISCONNECTED" using hook_conn [OF inv] by blast+
  with yields_Ok [OF mqtt_tcp_err_cb_run [OF inv]] Failed(2) reconnecting_inv show ?thesis by blast
next
  case (Timer t ts)
  note pop_timer_inv [OF inv Timer(1), of "time t"]
  with yields_Ok [OF mqtt_cyclic_timer_run] Timer show ?thesis by blast
next
  case (Other t ts k)
  with pop_timer_inv(1) [OF inv] show ?thesis by blast
next
  case (Arm_other msecs k a)
  with inv show ?thesis
    by (simp add: mqtt_inv_def hooks_inv_def recv_inv_def timer_inv_def cyclic_timers_def armed_other)
next
  case (Clock t)
  with inv show ?thesis by simp
next
  case (Stack s)
  with inv show ?thesis by simp
qed

lemma mqtt_reachable_inv: "mqtt_reachable io w \<Longrightarrow> mqtt_inv w"
  by (induction rule: mqtt_reachable.induct) (blast intro: mqtt_start_inv mqtt_step_inv)+

end
