(* ===== verification/MqttTimeouts.thy ===== *)
theory MqttTimeouts
  imports MqttRun
begin

text \<open>
  The MQTT client under lwIP's timeouts: \<open>sys_check_timeouts\<close> with the client's cyclic timer among
  the handlers it calls. The client is shown to be a \<open>timeout_host\<close>: its handler arms itself again at
  most once, five seconds ahead, so that the loop over the timeouts that are due comes to an end.
\<close>

section \<open>What the handler does to the clock\<close>

definition same_clock :: "'s world \<Rightarrow> 's world \<Rightarrow> bool" where
  "same_clock w w' \<longleftrightarrow> timers w' = timers w \<and> now w' = now w"

lemma same_clock_simps [simp]:
  "same_clock w w" "same_clock w (print x w') = same_clock w w'" "same_clock w (set_hooks p f w') = same_clock w w'"
  "same_clock w (w'\<lparr>client := c\<rparr>) = same_clock w w'" "same_clock w (w'\<lparr>tcp := s\<rparr>) = same_clock w w'"
  "same_clock w (w'\<lparr>buildConnetSuccess := b\<rparr>) = same_clock w w'"
  "same_clock (print x w) w' = same_clock w w'" "same_clock (w\<lparr>client := c\<rparr>) w' = same_clock w w'"
  "same_clock (w\<lparr>buildConnetSuccess := b\<rparr>) w' = same_clock w w'" "same_clock w (ping w') = same_clock w w'"
  by (simp_all add: same_clock_def print_def set_hooks_def ping_def)

lemma same_clock_cb [simp]:
  "same_clock w (call_request_cb x w') = same_clock w w'" "same_clock w (fold call_request_cb ns w') = same_clock w w'"
proof -
  show one: "same_clock w (call_request_cb x w') = same_clock w w'" for x w'
    by (auto simp: call_request_cb_def mqtt_sub_request_cb_def mqtt_pub_request_cb_def
        split: prod.split mqtt_request_cb_t.split)
  show "same_clock w (fold call_request_cb ns w') = same_clock w w'"
    by (induction ns arbitrary: w') (simp_all add: one)
qed

lemma connect_clock: "guards UNIV (mqtt_client_connect io ip port c a ci w) (\<lambda>(e, w'). same_clock w w')"
  by (auto simp: mqtt_client_connect_def Let_def guards_def bind_outcome_Ok_iff split: option.split prod.split outcome.split)

lemma do_connect_clock: "guards UNIV (example_do_connect io w) (same_clock w)"
  unfolding example_do_connect_def by (rule guards_bind [OF connect_clock]) auto

lemma close_clock:
  assumes "reason \<noteq> MQTT_CONNECT_ACCEPTED" and "cyclic_timers w = 0"
  shows "guards UNIV (mqtt_close io reason w) (same_clock w)"
proof -
  have untimeout: "sys_untimeout Mqtt_cyclic_timer CLIENT (timers w) = timers w"
  proof -
    have "untimeout_list hd a ts = ts" if "filter (\<lambda>t. h t = hd \<and> t_arg t = a) ts = []" for hd :: timer_handler and a ts
      using that by (induction ts) (auto split: if_splits)
    then show ?thesis using assms(2) by (simp add: cyclic_timers_def times_armed_def sys_untimeout_def)
  qed
  have cb: "guards UNIV (mqtt_connection_cb io a reason w') (same_clock w')" for a w'
    using do_connect_clock [of io "(print (Disconnected_msg reason) w')\<lparr>buildConnetSuccess := False\<rparr>"] assms(1)
    by (simp add: mqtt_connection_cb_def same_clock_def [abs_def] print_def)
  show ?thesis
    unfolding mqtt_close_def cut_def [symmetric]
    unfolding Let_def
  proof (rule guards_bind [where Q = "\<lambda>_. True"], goal_cases)
    case (2 x)
    have cb': "guards UNIV (mqtt_connection_cb io a reason w') (same_clock w)" if "same_clock w w'" for a w'
      using cb [of a w'] that by (auto simp: guards_def same_clock_def split: outcome.splits)
    have "same_clock w ((cut io w)\<lparr>timers := sys_untimeout Mqtt_cyclic_timer CLIENT (timers w)\<rparr>)"
      "same_clock w ((cut io w)\<lparr>client := c, timers := sys_untimeout Mqtt_cyclic_timer CLIENT (timers w)\<rparr>)" for c
      by (simp_all add: same_clock_def cut_fields untimeout)
    then show ?case by (auto simp: cut_fields intro!: cb' split: prod.split option.split mqtt_connection_cb_t.split)
  qed (simp add: guards_def split: outcome.split)
qed

text \<open>The handler either leaves the timeouts alone or arms itself once, five seconds ahead.\<close>

lemma mqtt_cyclic_timer_clock:
  assumes cy: "cyclic_timers w = 0"
  shows "guards UNIV (mqtt_cyclic_timer io w) (\<lambda>w'. now w' = now w \<and>
    timers w' \<in> {timers w, sys_timeout (now w) 5000 Mqtt_cyclic_timer CLIENT (timers w)})"
proof -
  let ?P = "\<lambda>(w', restart). same_clock w w'"
  have tail: "guards UNIV m ?P \<Longrightarrow>
      guards UNIV (bind_outcome m (\<lambda>(w, restart_timer). Ok (if restart_timer then start_cyclic_timer w else w)))
        (\<lambda>w'. now w' = now w \<and> timers w' \<in> {timers w, sys_timeout (now w) 5000 Mqtt_cyclic_timer CLIENT (timers w)})"
    for m :: "('a world \<times> bool) outcome"
    by (erule guards_bind) (auto simp: same_clock_def start_cyclic_timer_def MQTT_CYCLIC_TIMER_INTERVAL_def)
  have close: "guards UNIV (bind_outcome (mqtt_close io MQTT_CONNECT_TIMEOUT w1) (\<lambda>w. Ok (f w, False))) ?P"
    if "same_clock w w1" "\<And>w2. same_clock w (f w2) = same_clock w w2" for w1 f
  proof -
    have "guards UNIV (mqtt_close io MQTT_CONNECT_TIMEOUT w1) (same_clock w1)"
      using that(1) cy by (intro close_clock) (auto simp: cyclic_timers_def same_clock_def MQTT_CONNECT_TIMEOUT_def MQTT_CONNECT_ACCEPTED_def)
    then show ?thesis by (rule guards_bind) (use that in \<open>simp add: same_clock_def\<close>)
  qed
  have alive: "guards UNIV (keep_alive_check io w1) ?P" if "same_clock w w1" for w1
    unfolding keep_alive_check_eq using that close [of _ ping] by (simp add: Let_def)
  have conn: "guards UNIV
      (bind_outcome (mqtt_request_time_elapsed (req_list (client w)) (pend_req_queue (client w)) (word_of_nat MQTT_CYCLIC_TIMER_INTERVAL))
        (\<lambda>(objs, tail, notices).
          let w = fold call_request_cb notices (w\<lparr>client := (client w)\<lparr>req_list := objs, pend_req_queue := tail\<rparr>\<rparr>) in
          if keep_alive (client w) > 0 then keep_alive_check io w else Ok (w, True))) ?P"
    by (rule guards_bind [where Q = "\<lambda>_. True"])
      (auto simp: guards_def [of _ "mqtt_request_time_elapsed _ _ _"] Let_def alive split: outcome.split)
  show ?thesis
    unfolding mqtt_cyclic_timer_def
    by (rule tail) (use close [of _ "\<lambda>w. w"] conn in \<open>auto simp: Let_def split: conn_state_t.split\<close>)
qed

section \<open>The client as host\<close>

text \<open>
  The handlers of lwIP's timeouts: the client's own, and those of others, which the client does not
  know and which leave its state and the list alone.
\<close>

definition run_timeout ::
  "'s tcp_api \<Rightarrow> timer_handler \<Rightarrow> u32 \<Rightarrow> 's world \<times> timer_handler timeouts \<Rightarrow> ('s world \<times> timer_handler timeouts) outcome" where
  "run_timeout io handler a = (\<lambda>(w, T).
     if handler = Mqtt_cyclic_timer \<and> a = CLIENT
     then bind_outcome (mqtt_cyclic_timer io (w\<lparr>timers := T\<rparr>)) (\<lambda>w'. Ok (w', timers w'))
     else Ok (w, T))"

definition due_inv :: "u32 \<Rightarrow> 's world \<times> timer_handler timeouts \<Rightarrow> bool" where
  "due_inv diff = (\<lambda>(w, T). mqtt_inv (w\<lparr>timers := T\<rparr>) \<and> unat diff + 5000 < 2 ^ 32 \<and>
     (now w - timeouts_last_time T = diff \<or> length (next_timeout T) \<le> 1))"

lemma run_timeout_law:
  assumes inv: "due_inv diff (w, T)" and T: "next_timeout T = t # ts" and le: "time t \<le> diff"
  defines "T1 \<equiv> T\<lparr>timeouts_last_time := timeouts_last_time T + time t, next_timeout := ts\<rparr>"
  shows "\<exists>w' T'. run_timeout io (h t) (t_arg t) (w, T1) = Ok (w', T') \<and> due_inv (diff - time t) (w', T') \<and>
    zeros (next_timeout T') \<le> zeros ts"
proof -
  have d: "unat (diff - time t) \<le> unat diff" using le by (simp add: unat_sub word_le_nat_alt)
  have pop: "w\<lparr>timers := T1\<rparr> = pop_timer (w\<lparr>timers := T\<rparr>) ts (time t)" by (simp add: pop_timer_def T1_def)
  have inv1: "mqtt_inv (w\<lparr>timers := T1\<rparr>)"
    using pop_timer_inv(1) [of "w\<lparr>timers := T\<rparr>" t ts "time t"] inv T unfolding pop by (simp add: due_inv_def)
  have mode: "now w - timeouts_last_time T1 = diff - time t \<or> ts = []"
    using inv T by (auto simp: due_inv_def T1_def)
  then have due1: "due_inv (diff - time t) (w, T1)"
    using inv inv1 d by (auto simp: due_inv_def T1_def)
  show ?thesis
  proof (cases "h t = Mqtt_cyclic_timer \<and> t_arg t = CLIENT")
    case False
    with due1 show ?thesis by (auto simp: run_timeout_def T1_def)
  next
    case True
    have cy: "cyclic_timers (w\<lparr>timers := T1\<rparr>) = 0"
      using pop_timer_inv(2) [of "w\<lparr>timers := T\<rparr>" t ts "time t"] inv T True unfolding pop by (simp add: due_inv_def)
    from mqtt_cyclic_timer_run [OF inv1 cy, of io] mqtt_cyclic_timer_clock [OF cy, of io] obtain w' where
      w': "mqtt_cyclic_timer io (w\<lparr>timers := T1\<rparr>) = Ok w'" "mqtt_inv w'" "now w' = now w"
      "timers w' \<in> {T1, sys_timeout (now w) 5000 Mqtt_cyclic_timer CLIENT T1}"
      by (auto simp: yields_def)
    let ?S = "sys_timeout (now w) 5000 Mqtt_cyclic_timer CLIENT T1"
    have S: "zeros (next_timeout ?S) \<le> zeros ts \<and>
        (now w - timeouts_last_time ?S = diff - time t \<or> length (next_timeout ?S) \<le> 1)"
    proof (cases ts)
      case Nil
      then show ?thesis by (simp add: sys_timeout_def T1_def MEMP_NUM_SYS_TIMEOUT_def)
    next
      case (Cons u us)
      then have now: "now w - timeouts_last_time T1 = diff - time t" using mode by simp
      have "zeros (next_timeout ?S) \<le> zeros (next_timeout T1)"
        using inv d unfolding due_inv_def by (intro zeros_sys_timeout) (auto simp: now)
      moreover have "timeouts_last_time ?S = timeouts_last_time T1"
        using Cons by (simp add: sys_timeout_def T1_def Let_def)
      ultimately show ?thesis using now by (simp add: T1_def)
    qed
    have "due_inv (diff - time t) (w', timers w') \<and> zeros (next_timeout (timers w')) \<le> zeros ts"
      using w' S due1 inv d by (auto simp: due_inv_def T1_def)
    with w'(1) True show ?thesis by (auto simp: run_timeout_def)
  qed
qed

interpretation mqtt_timeouts: timeout_host "run_timeout io" due_inv for io
  by unfold_locales (rule run_timeout_law)

lemma sys_check_timeouts_ends:
  assumes inv: "mqtt_inv w" and late: "unat (now w - timeouts_last_time (timers w)) + 5000 < 2 ^ 32"
  shows "\<exists>w' T'. sys_check_timeouts (run_timeout io) (now w) w (timers w) = Some (Ok (w', T')) \<and> mqtt_inv (w'\<lparr>timers := T'\<rparr>)"
proof (cases "next_timeout (timers w) = []")
  case True
  with inv show ?thesis by (simp add: sys_check_timeouts_def)
next
  case False
  have "due_inv (now w - timeouts_last_time (timers w)) (w, timers w)" using assms by (simp add: due_inv_def)
  from mqtt_timeouts.check_loop_ends [OF this, of io] False show ?thesis
    by (fastforce simp: sys_check_timeouts_def due_inv_def)
qed

end
