(* ===== verification/MqttHeader.thy ===== *)
theory MqttHeader
  imports MqttParse
begin

unbundle bit_operations_syntax

text \<open>
  The fixed header: the parser reads back the remaining length that the client's own encoder
  writes, and a header with more length bytes than the protocol allows makes it shift by more
  than the width of a word.
\<close>

section \<open>Groups of seven bits\<close>

lemma continuation_bit: "x AND 0x80 = 0 \<longleftrightarrow> unat x < 128" for x :: u8
proof -
  have lt: "unat x < 256" using unsigned_less [where 'a = nat, of x] by simp
  have "x AND 0x80 = 0 \<longleftrightarrow> \<not> bit x 7" using and_exp_eq_0_iff_not_bit [of x 7] by simp
  also have "\<dots> \<longleftrightarrow> \<not> bit (unat x) 7" by (simp add: bit_unsigned_iff)
  also have "\<dots> \<longleftrightarrow> even (unat x div 128)" by (simp add: bit_iff_odd)
  also have "unat x div 128 = (if unat x < 128 then 0 else 1)"
    using lt by auto
  finally show ?thesis by simp
qed

lemma unat_low_bits: "unat (x AND 0x7f) = unat x mod 128" for x :: u8
proof -
  have "x AND 0x7f = take_bit 7 x" by (simp add: take_bit_eq_mask mask_eq_decr_exp)
  then show ?thesis by (simp add: take_bit_eq_mod unat_mod_distrib)
qed

lemma or_push_bit: "unat a < 2 ^ k \<Longrightarrow> a OR push_bit k b = a + push_bit k b" for a b :: u32
proof -
  assume a: "unat a < 2 ^ k"
  have "\<not> bit a i" if "k \<le> i" for i
  proof -
    have "unat a < 2 ^ i" using a that by (meson less_le_trans one_le_numeral power_increasing)
    then have "\<not> bit (unat a) i" by (simp add: bit_iff_odd)
    then show ?thesis by (simp add: bit_unsigned_iff)
  qed
  then have "a AND push_bit k b = 0" by (intro bit_word_eqI) (auto simp: bit_simps)
  then show ?thesis by (simp add: disjunctive_add_eq_or)
qed

text \<open>The contribution of one length byte.\<close>

lemma length_digit:
  fixes R :: u32 and x :: u8
  assumes "unat R < 2 ^ k" and "unat R + 2 ^ k * (unat x mod 128) < 2 ^ 32"
  shows "unat (R OR push_bit k (ucast (x AND 0x7f))) = unat R + 2 ^ k * (unat x mod 128)"
proof -
  have "unat (push_bit k (ucast (x AND 0x7f) :: u32)) = 2 ^ k * (unat x mod 128)"
  proof -
    have low: "unat (ucast (x AND 0x7f) :: u32) = unat x mod 128"
      by (simp add: unsigned_ucast_eq take_bit_eq_mod unat_low_bits)
    have "2 ^ k * (unat x mod 128) < 2 ^ 32" using assms(2) by linarith
    then show ?thesis
      unfolding unsigned_push_bit_eq low
      by (simp add: push_bit_eq_mult take_bit_eq_mod mult.commute)
  qed
  with assms show ?thesis by (simp add: or_push_bit unat_word_ariths)
qed

section \<open>Reading the header\<close>

text \<open>The parser in front of the header byte \<open>j\<close>, and the client that has stored \<open>j\<close> bytes.\<close>

definition at_byte :: "nat \<Rightarrow> u32 \<Rightarrow> u8 \<Rightarrow> parser" where
  "at_byte j R y = \<lparr>in_offset = word_of_nat j, msg_rem_len = R, fixed_hdr_idx = word_of_nat j, hdr_b = y\<rparr>"

definition stored :: "nat \<Rightarrow> u8 list \<Rightarrow> 's world \<Rightarrow> bool" where
  "stored j xs w \<longleftrightarrow> length (rx_buffer (client w)) = 128 \<and> msg_idx (client w) = word_of_nat j \<and>
     take j (rx_buffer (client w)) = take j xs"

definition store_byte :: "nat \<Rightarrow> u8 \<Rightarrow> 's world \<Rightarrow> 's world" where
  "store_byte j x w =
     w\<lparr>client := (client w)\<lparr>rx_buffer := (rx_buffer (client w))[j := x], msg_idx := word_of_nat (Suc j)\<rparr>\<rparr>"

lemma stored_next:
  assumes "stored j xs w" and "j < length xs" and "j < 128"
  shows "stored (Suc j) xs (store_byte j (xs ! j) w)"
  using assms by (simp add: stored_def store_byte_def take_Suc_conv_app_nth)

lemma header_byte_next:
  assumes st: "stored j p w" and j: "j < 128" and len: "j < length p" "length p < 65536"
  shows "header_byte p (at_byte j R y) w =
    Ok ((at_byte j R y)\<lparr>hdr_b := p ! j, in_offset := word_of_nat (Suc j)\<rparr>, store_byte j (p ! j) w)"
proof -
  have "unat (word_of_nat j :: u8) = j" "unat (word_of_nat j :: u16) = j" "unat (word_of_nat j :: u32) = j"
    using j by (simp_all add: unat_of_nat)
  then show ?thesis
    using st j by (simp add: header_byte_def stored_def store_byte_def at_byte_def Let_def add.commute)
qed

lemma unat_word_of_small: "n < 256 \<Longrightarrow> unat (word_of_nat n :: u8) = n"
  by (simp add: unat_of_nat)

lemma first_byte_round:
  assumes st: "stored 0 p w" and len: "0 < length p" "length p < 65536"
  shows "parse_loop io p (at_byte 0 0 0) w = parse_loop io p (at_byte 1 0 (p ! 0)) (store_byte 0 (p ! 0) w)"
proof -
  have "parse_header io p (at_byte 0 0 0) w = Ok (at_byte 1 0 (p ! 0), store_byte 0 (p ! 0) w)"
    using header_byte_next [OF st _ len, of 0 0] by (simp add: parse_header_def at_byte_def Let_def)
  moreover have "in_offset (at_byte 0 0 0) < tot_len p"
    using len by (simp add: at_byte_def tot_len_def word_less_nat_alt unat_of_nat)
  moreover have "fixed_hdr_idx (at_byte 0 0 0) < 2" by (simp add: at_byte_def)
  ultimately show ?thesis
    by (simp add: parse_loop.simps [of io p "at_byte 0 0 0"] parse_round_def)
qed

text \<open>A length byte that is not the last, and the last.\<close>

lemma length_byte_round:
  assumes st: "stored j p w" and j: "1 \<le> j" "j < 6" and len: "j < length p" "length p < 65536"
    and more: "j = 1 \<or> 128 \<le> unat y" and R': "R' = R OR push_bit ((j - 1) * 7) (ucast (p ! j AND 0x7f))"
    and go: "128 \<le> unat (p ! j) \<or> R' \<noteq> 0"
  shows "parse_loop io p (at_byte j R y) w = parse_loop io p (at_byte (Suc j) R' (p ! j)) (store_byte j (p ! j) w)"
proof -
  have jw: "unat (word_of_nat j :: u8) = j" "unat (word_of_nat (Suc j) :: u8) = Suc j"
    using j by (simp_all add: unat_of_nat del: of_nat_Suc)
  have s: "word_of_nat j + 1 = (word_of_nat (Suc j) :: u8)" by (simp add: add.commute)
  have u: "(ucast (word_of_nat (Suc j) :: u8) :: u32) = word_of_nat (Suc j)"
    using j by (simp add: word_unat_eq_iff jw(2) unat_of_nat del: of_nat_Suc)
  have j128: "j < 128" using j(2) by simp
  have sh: "\<not> 32 \<le> (Suc j - 2) * 7" "(Suc j - 2) * 7 = (j - 1) * 7" "2 \<le> Suc j" using j by auto
  have "parse_header io p (at_byte j R y) w = Ok (at_byte (Suc j) R' (p ! j), store_byte j (p ! j) w)"
    unfolding parse_header_def header_byte_next [OF st j128 len] bind_outcome.simps prod.case
    using sh go R' by (auto simp: at_byte_def s jw u Let_def continuation_bit store_byte_def simp del: of_nat_Suc)
  moreover have "in_offset (at_byte j R y) < tot_len p"
    using len by (simp add: at_byte_def tot_len_def word_less_nat_alt unat_of_nat)
  moreover have "fixed_hdr_idx (at_byte j R y) < 2 \<or> hdr_b (at_byte j R y) AND 0x80 \<noteq> 0"
    using more j by (auto simp: at_byte_def continuation_bit word_less_nat_alt jw)
  ultimately show ?thesis
    by (simp add: parse_loop.simps [of io p "at_byte j R y"] parse_round_def)
qed

text \<open>The client that has stored the first \<open>j\<close> bytes of the message.\<close>

definition with_bytes :: "nat \<Rightarrow> u8 list \<Rightarrow> 's world \<Rightarrow> 's world" where
  "with_bytes j p w =
     w\<lparr>client := (client w)\<lparr>rx_buffer := take j p @ drop j (rx_buffer (client w)), msg_idx := word_of_nat j\<rparr>\<rparr>"

lemma with_bytes_0: "msg_idx (client w) = 0 \<Longrightarrow> with_bytes 0 p w = w"
  by (simp add: with_bytes_def)

lemma stored_with_bytes:
  "length (rx_buffer (client w)) = 128 \<Longrightarrow> j \<le> length p \<Longrightarrow> j \<le> 128 \<Longrightarrow> stored j p (with_bytes j p w)"
  by (simp add: stored_def with_bytes_def)

lemma store_next_byte:
  assumes "length (rx_buffer (client w)) = 128" and "j < length p" and "j < 128"
  shows "store_byte j (p ! j) (with_bytes j p w) = with_bytes (Suc j) p w"
proof -
  let ?rx = "rx_buffer (client w)"
  have "drop j ?rx = ?rx ! j # drop (Suc j) ?rx" using assms by (simp add: Cons_nth_drop_Suc)
  then have "(take j p @ drop j ?rx)[j := p ! j] = take (Suc j) p @ drop (Suc j) ?rx"
    using assms by (simp add: list_update_append take_Suc_conv_app_nth)
  then show ?thesis by (simp add: store_byte_def with_bytes_def)
qed

lemma length_bytes_loop:
  assumes "p = pre @ enc_length m @ rest" and "length pre = j" and "1 \<le> j" and "j + length (enc_length m) \<le> 6"
    and "length p < 65536" and "j = 1 \<or> 128 \<le> unat y" and "length (rx_buffer (client w)) = 128"
    and "unat R < 2 ^ ((j - 1) * 7)" and "unat R + 2 ^ ((j - 1) * 7) * m < 2 ^ 32"
    and "0 < unat R + 2 ^ ((j - 1) * 7) * m"
  shows "\<exists>z. unat z < 128 \<and> parse_loop io p (at_byte j R y) (with_bytes j p w) =
    parse_loop io p (at_byte (j + length (enc_length m)) (word_of_nat (unat R + 2 ^ ((j - 1) * 7) * m)) z)
      (with_bytes (j + length (enc_length m)) p w)"
  using assms
proof (induction m arbitrary: pre j R y rule: enc_length.induct)
  case (1 m)
  note p = 1(2) and pre = 1(3) and j1 = 1(4) and jm = 1(5) and lp = 1(6) and y = 1(7) and rx = 1(8)
    and R = 1(9) and lt = 1(10) and pos = 1(11)
  let ?K = "2 ^ ((j - 1) * 7) :: nat" and ?d = "m mod 128"
  let ?R = "R OR push_bit ((j - 1) * 7) (ucast (p ! j AND 0x7f))"
  have j: "j < 6" "j < length p" using jm p pre length_enc_length_pos [of m] by auto
  have st: "stored j p (with_bytes j p w)" using j by (intro stored_with_bytes [OF rx]) auto
  note step = length_byte_round [OF st j1 j(1) j(2) lp y refl, of R io, unfolded store_next_byte [OF rx j(2) less_trans [OF j(1)], simplified]]
  show ?case
  proof (cases "m < 128")
    case True
    then have pj: "p ! j = word_of_nat m" and L: "length (enc_length m) = 1"
      using p pre by (simp_all add: enc_length.simps [of m] nth_append)
    have um: "unat (p ! j) = m" using True by (simp add: pj unat_of_nat)
    have R': "unat ?R = unat R + ?K * m" using length_digit [OF R, of "p ! j"] lt True by (simp add: um)
    then have "?R \<noteq> 0" using pos by auto
    moreover have "?R = word_of_nat (unat R + ?K * m)" unfolding R' [symmetric] by simp
    ultimately show ?thesis using step um True by (intro exI [of _ "p ! j"]) (simp add: L)
  next
    case False
    then have pj: "p ! j = word_of_nat (?d + 128)"
      and p': "p = (pre @ [p ! j]) @ enc_length (m div 128) @ rest"
      and L: "length (enc_length m) = Suc (length (enc_length (m div 128)))"
      using p pre by (simp_all add: enc_length.simps [of m] nth_append)
    have um: "unat (p ! j) = ?d + 128" by (simp add: pj unat_of_nat del: of_nat_add)
    have K: "?K * m = ?K * ?d + ?K * 128 * (m div 128)"
      by (metis add.commute mult.assoc distrib_left mult_div_mod_eq)
    have R': "unat ?R = unat R + ?K * ?d" using length_digit [OF R, of "p ! j"] lt K by (simp add: um)
    have K': "2 ^ ((Suc j - 1) * 7) = ?K * 128" using j1 by (cases j) (simp_all add: power_add)
    have sum: "unat ?R + 2 ^ ((Suc j - 1) * 7) * (m div 128) = unat R + ?K * m" using K R' K' by simp
    have "unat ?R < 2 ^ ((Suc j - 1) * 7)"
    proof -
      have "?K * ?d \<le> ?K * 127" by (intro mult_le_mono2) (simp add: mod_less_divisor less_Suc_eq_le [symmetric])
      then show ?thesis unfolding R' K' using R by linarith
    qed
    from 1(1) [OF False p' _ _ _ lp _ rx this, unfolded sum, OF _ _ _ _ lt pos, of "p ! j"]
    obtain z where "unat z < 128" "parse_loop io p (at_byte (Suc j) ?R (p ! j)) (with_bytes (Suc j) p w) =
      parse_loop io p (at_byte (Suc j + length (enc_length (m div 128))) (word_of_nat (unat R + ?K * m)) z)
        (with_bytes (Suc j + length (enc_length (m div 128))) p w)"
      using pre j1 jm L um by auto
    with step um show ?thesis by (auto simp: L)
  qed
qed

section \<open>A whole message\<close>

text \<open>
  From the start of a message the parser arrives behind the header with the remaining length
  that was encoded, and has stored the header.
\<close>

lemma parse_loop_header:
  assumes p: "p = enc_header c n @ rest" and n: "0 < n" "n < 2097152" and lp: "length p < 65536"
    and rx: "length (rx_buffer (client w)) = 128" and m0: "msg_idx (client w) = 0"
  shows "\<exists>z. unat z < 128 \<and> parse_loop io p start_parser w =
    parse_loop io p (at_byte (length (enc_header c n)) (word_of_nat n) z) (with_bytes (length (enc_header c n)) p w)"
proof -
  have st: "stored 0 p (with_bytes 0 p w)" by (rule stored_with_bytes [OF rx]) auto
  have p0: "0 < length p" by (simp add: p enc_header_def)
  have L: "1 + length (enc_length n) \<le> 6" using n length_enc_length [of n] by simp
  have "p = [c] @ enc_length n @ rest" by (simp add: p enc_header_def)
  from length_bytes_loop [OF this _ _ L lp _ rx, where R = 0 and y = "p ! 0" and io = io] n
  obtain z where "unat z < 128" "parse_loop io p (at_byte 1 0 (p ! 0)) (with_bytes 1 p w) =
      parse_loop io p (at_byte (1 + length (enc_length n)) (word_of_nat n) z) (with_bytes (1 + length (enc_length n)) p w)"
    by auto
  moreover have "parse_loop io p start_parser w = parse_loop io p (at_byte 1 0 (p ! 0)) (with_bytes 1 p w)"
    using first_byte_round [OF st p0 lp, of io] store_next_byte [OF rx p0]
    by (simp add: with_bytes_0 [OF m0] start_parser_def at_byte_def)
  ultimately show ?thesis by (auto simp: enc_header_def)
qed

text \<open>What the parser does with a handled message: it reads on, or reports the refusal.\<close>

definition message_result ::
  "(mqtt_connection_status_t \<times> 's world) outcome \<Rightarrow> (mqtt_connection_status_t \<times> 's world) outcome" where
  "message_result m =
     bind_outcome m (\<lambda>(res, w). Ok (res, if res = MQTT_CONNECT_ACCEPTED then set_msg_idx 0 w else w))"

lemma take_append_drop_memcpy:
  assumes "length rx = 128" and "k + n \<le> 128" and "length p = k + n"
  shows "memcpy (take k p @ drop k rx) k p k n = Ok (p @ drop (k + n) rx)"
  using assms by (simp add: memcpy_def blit_def add.commute flip: append_assoc)

lemma parse_body_whole:
  assumes rx: "length (rx_buffer (client w)) = 128" and len: "length p = k + n" "k + n \<le> 128" and pos: "0 < n" "0 < k"
  shows "parse_body io p (at_byte k (word_of_nat n) z) (with_bytes k p w) =
    (let ps = (at_byte k 0 z)\<lparr>in_offset := word_of_nat (k + n)\<rparr> in
     bind_outcome (mqtt_message_received io (word_of_nat k) (word_of_nat n) 0 (with_bytes (k + n) p w)) (\<lambda>(res, w).
       if res \<noteq> MQTT_CONNECT_ACCEPTED then Ok (Some res, ps, w)
       else Ok (None, ps\<lparr>fixed_hdr_idx := 0\<rparr>, set_msg_idx 0 w)))"
proof -
  have u: "(ucast (word_of_nat k :: u8) :: u32) = word_of_nat k" "(ucast (word_of_nat k :: u8) :: u16) = word_of_nat k"
    "(ucast (word_of_nat k :: u32) :: u16) = word_of_nat k" "(ucast (word_of_nat n :: u16) :: u32) = word_of_nat n"
    "(ucast (word_of_nat n :: u32) :: u16) = word_of_nat n"
    using len by (simp_all add: word_unat_eq_iff unat_of_nat unsigned_ucast_eq take_bit_eq_mod)
  have n: "tot_len p - word_of_nat k = word_of_nat n" by (simp add: tot_len_def len(1))
  have sp: "word_of_nat 128 - word_of_nat k = (word_of_nat (128 - k) :: u16)" using len by (simp add: of_nat_diff)
  have le: "\<not> (word_of_nat (128 - k) :: u16) < word_of_nat n"
    using len by (simp add: word_less_nat_alt unat_of_nat del: of_nat_diff)
  have un: "unat (word_of_nat k :: u16) = k" "unat (word_of_nat n :: u16) = n"
    using len by (simp_all add: unat_of_nat)
  have cp: "memcpy (take k p @ drop k (rx_buffer (client w))) k p k n = Ok (p @ drop (k + n) (rx_buffer (client w)))"
    using rx len by (intro take_append_drop_memcpy) auto
  have le': "\<not> (128 - word_of_nat k :: u16) < word_of_nat n" using le sp by simp
  show ?thesis
    using cp len
    by (simp add: parse_body_def at_byte_def with_bytes_def Let_def u n le' un MQTT_VAR_HEADER_BUFFER_LEN_def
        cong: if_cong)
qed

lemma parse_loop_whole:
  assumes rx: "length (rx_buffer (client w)) = 128" and len: "length p = k + n" "k + n \<le> 128" and pos: "0 < n" "2 \<le> k"
    and z: "unat z < 128"
  shows "loop_outcome (parse_loop io p (at_byte k (word_of_nat n) z) (with_bytes k p w)) = Ok (
    message_result (mqtt_message_received io (word_of_nat k) (word_of_nat n) 0 (with_bytes (k + n) p w)))"
proof -
  have k: "unat (word_of_nat k :: u8) = k" using len by (simp add: unat_of_nat)
  have in1: "in_offset (at_byte k (word_of_nat n) z) < tot_len p"
    using len pos by (simp add: at_byte_def tot_len_def word_less_nat_alt unat_of_nat del: of_nat_add)
  have body: "parse_round io p (at_byte k (word_of_nat n) z) (with_bytes k p w) =
      parse_body io p (at_byte k (word_of_nat n) z) (with_bytes k p w)"
    using pos z by (simp add: parse_round_def at_byte_def continuation_bit word_less_nat_alt k)
  let ?m = "mqtt_message_received io (word_of_nat k) (word_of_nat n) 0 (with_bytes (k + n) p w)"
  have stop: "parse_loop io p ps w' = Some (Ok (MQTT_CONNECT_ACCEPTED, w'))" if "in_offset ps = word_of_nat (k + n)" for ps w'
    using that len by (simp add: parse_loop.simps [of io p ps] tot_len_def)
  show ?thesis
  proof (cases ?m)
    case (Halt x)
    then show ?thesis using in1 pos
      by (simp add: parse_loop.simps [of io p "at_byte k (word_of_nat n) z"] body parse_body_whole [OF rx len]
          message_result_def loop_outcome_def Let_def)
  next
    case (Ok r)
    obtain res w' where r: "r = (res, w')" by (cases r)
    show ?thesis using in1 pos
      by (simp add: parse_loop.simps [of io p "at_byte k (word_of_nat n) z"] body parse_body_whole [OF rx len] stop
          message_result_def loop_outcome_def Let_def Ok r)
  qed
qed

lemma mqtt_parse_incoming_message:
  assumes p: "p = enc_header c n @ body" and n: "0 < n" "length body = n" "length p \<le> 128"
    and rx: "length (rx_buffer (client w)) = 128" and m0: "msg_idx (client w) = 0"
  shows "mqtt_parse_incoming io p w = message_result
    (mqtt_message_received io (word_of_nat (length (enc_header c n))) (word_of_nat n) 0 (with_bytes (length p) p w))"
proof -
  let ?k = "length (enc_header c n)"
  have len: "length p = ?k + n" and k: "2 \<le> ?k" and small: "n < 2097152" "length p < 65536"
    using p n length_enc_length_pos [of n] by (auto simp: enc_header_def)
  from parse_loop_header [OF p n(1) small rx m0] obtain z where z: "unat z < 128" "parse_loop io p start_parser w =
    parse_loop io p (at_byte ?k (word_of_nat n) z) (with_bytes ?k p w)" by blast
  from parse_loop_whole [OF rx len _ n(1) k z(1), of io] n(3) len
  show ?thesis by (simp add: mqtt_parse_incoming_def z(2))
qed

text \<open>
  The protocol allows four length bytes. The parser has no such bound: the sixth length byte
  is shifted by 35 bits in a 32-bit word.
\<close>

lemma long_length_shifts:
  assumes rx: "length (rx_buffer (client w)) = 128" and m0: "msg_idx (client w) = 0"
  shows "mqtt_parse_incoming io [0x30, 0x80, 0x80, 0x80, 0x80, 0x80, 0x01] w = Halt BadShift"
proof -
  let ?p = "[0x30, 0x80, 0x80, 0x80, 0x80, 0x80, 0x01] :: u8 list"
  have st: "stored j ?p (with_bytes j ?p w)" if "j \<le> 7" for j using that by (intro stored_with_bytes [OF rx]) auto
  have first: "parse_loop io ?p start_parser w = parse_loop io ?p (at_byte 1 0 (?p ! 0)) (with_bytes 1 ?p w)"
    using first_byte_round [OF st [of 0], of io] store_next_byte [OF rx, of 0 ?p]
    by (simp add: with_bytes_0 [OF m0] start_parser_def at_byte_def)
  have round: "parse_loop io ?p (at_byte j 0 y) (with_bytes j ?p w) = parse_loop io ?p (at_byte (Suc j) 0 0x80) (with_bytes (Suc j) ?p w)"
    if "j = 1 \<or> y = 0x80" "1 \<le> j" "j \<le> 5" for j y
  proof -
    have "?p ! j = 0x80" using that by (auto simp: numeral_eq_Suc le_Suc_eq)
    then show ?thesis
      using that length_byte_round [OF st [of j], where y = y and R = 0 and R' = 0 and io = io] store_next_byte [OF rx, of j ?p] by auto
  qed
  have i: "in_offset (at_byte 6 0 0x80) < tot_len ?p" by (simp add: at_byte_def tot_len_def)
  have "parse_round io ?p (at_byte 6 0 0x80) (with_bytes 6 ?p w) = Halt BadShift"
    using header_byte_next [OF st [of 6], where R = 0 and y = "0x80"] by (simp add: parse_round_def parse_header_def at_byte_def Let_def)
  then have "parse_loop io ?p (at_byte 6 0 0x80) (with_bytes 6 ?p w) = Some (Halt BadShift)"
    using i by (simp add: parse_loop.simps [of io ?p "at_byte 6 0 0x80"])
  then have "parse_loop io ?p start_parser w = Some (Halt BadShift)"
    unfolding first using round [of 1 "?p ! 0"] round [of 2 "0x80"] round [of 3 "0x80"] round [of 4 "0x80"] round [of 5 "0x80"] by (simp add: eval_nat_numeral)
  then show ?thesis by (simp add: mqtt_parse_incoming_def loop_outcome_def)
qed

end
