(* ===== verification/MqttProps.thy ===== *)
theory MqttProps
  imports MqttTimeouts MqttHeader
begin

unbundle bit_operations_syntax

text \<open>
  What the MQTT client promises. The examples run on \<open>sink_tcp\<close>, a stack that accepts every
  call and keeps the bytes it was given; the theorems hold for every stack.
\<close>

section \<open>A stack to run on\<close>

definition sink_tcp :: "u8 list tcp_api" where
  "sink_tcp =
     \<lparr>tcp_sndbuf = \<lambda>s p. 6432, tcp_write = \<lambda>s p data more. (ERR_OK, s @ data), tcp_output = \<lambda>s p. s,
      tcp_recved = \<lambda>s p n. s, tcp_close = \<lambda>s p. (ERR_OK, s), tcp_abort = \<lambda>s p. s,
      tcp_new = \<lambda>s. (Some 0, s), tcp_bind = \<lambda>s p. (ERR_OK, s), tcp_connect = \<lambda>s p ip port. (ERR_OK, s)\<rparr>"

definition idle_world :: "u8 list world" where
  "idle_world =
     \<lparr>client = zero_mqtt_client, tcp = [], hooks = \<lambda>_. {}, timers = \<lparr>next_timeout = [], timeouts_last_time = 0\<rparr>,
      now = 0, inpub_id = 0, buildConnetSuccess = False, console = []\<rparr>"

definition live_world :: "u8 list world" where
  "live_world = idle_world
     \<lparr>client := (fresh_client (Some Mqtt_connection_cb) 0 app_info)
        \<lparr>conn := Some 0, conn_state := MQTT_CONNECTED, data_cb := Some Mqtt_incoming_data_cb,
         pub_cb := Some Mqtt_incoming_publish_cb\<rparr>,
      hooks := \<lambda>p. if p = 0 then {Recv_hook, Sent_hook, Err_hook, Poll_hook} else {}\<rparr>"

lemma sink_stream: "tcp_stream_law sink_tcp (\<lambda>s p. s)"
  by (simp add: tcp_stream_law_def sink_tcp_def)

lemma idle_start: "mqtt_start idle_world"
  by (simp add: mqtt_start_def mqtt_client_new_def idle_world_def timeouts_inv_def cyclic_timers_def times_armed_def)

lemma live_core: "core_inv (client live_world)"
  using core_inv_fresh [of "Some Mqtt_connection_cb" 0 app_info] by (simp add: core_inv_def live_world_def)

lemma live_inv: "mqtt_inv live_world"
  using live_core
  by (auto simp: mqtt_inv_def app_inv_def hooks_inv_def recv_inv_def timer_inv_def timeouts_inv_def cyclic_timers_def
      times_armed_def live_world_def idle_world_def)

lemma live_online: "online live_world"
  using live_inv by (simp add: online_def live_world_def)

lemma live_queue: "queue_inv (req_list (client live_world)) (pend_req_queue (client live_world)) []"
  using fresh_queue(1) [of "Some Mqtt_connection_cb" 0 app_info] by (simp add: live_world_def)


lemma live_fields [simp]:
  "conn (client live_world) = Some 0" "conn_state (client live_world) = MQTT_CONNECTED"
  "msg_idx (client live_world) = 0" "length (rx_buffer (client live_world)) = 128" "tcp live_world = []"
  "rb_bytes (out_rb (client live_world)) = []"
proof -
  show "rb_bytes (out_rb (client live_world)) = []" using zero_ring(2) by (simp add: live_world_def fresh_client_def)
  show "length (rx_buffer (client live_world)) = 128" using live_core by (simp add: core_inv_def)
qed (simp_all add: live_world_def idle_world_def)

section \<open>Sending\<close>

text \<open>
  C12: Handing the output ring to TCP never leaves the ring, keeps it well formed and neither
  loses, repeats nor reorders a byte, whatever TCP accepts: what TCP has queued followed by what
  is left in the ring is what it was before.
\<close>

theorem mqtt_send_keeps_stream:
  assumes "rb_inv rb" and "tcp_stream_law io stream"
  shows "yields (mqtt_output_send io rb (Some p) s) (\<lambda>(rb', s'). rb_inv rb' \<and>
    stream s' p @ rb_bytes rb' = stream s p @ rb_bytes rb)"
  using mqtt_output_send_run [OF assms(1), of io p s] assms(2) by (auto simp: yields_def)

theorem mqtt_send_keeps_stream_witness:
  "yields (mqtt_output_send sink_tcp (out_rb zero_mqtt_client) (Some 0) [7]) (\<lambda>(rb', s'). rb_inv rb' \<and> s' @ rb_bytes rb' = [7])"
  using mqtt_send_keeps_stream [OF zero_ring(1) sink_stream, of 0 "[7]"] zero_ring(2) by simp






section \<open>Connecting\<close>

text \<open>What \<open>mqtt_client_connect\<close> returns, over the answers of TCP.\<close>

definition connect_error :: "'s tcp_api \<Rightarrow> u8 list \<Rightarrow> u16 \<Rightarrow> mqtt_connect_client_info_t \<Rightarrow> 's \<Rightarrow> err_t" where
  "connect_error io ip port ci s =
     (if \<not> will_ok ci then ERR_VAL
      else if length (connect_message ci) > 256 then ERR_MEM
      else case tcp_new io s of
        (None, s) \<Rightarrow> ERR_MEM
      | (Some p, s) \<Rightarrow>
          (case tcp_bind io s p of
             (e, s) \<Rightarrow> if e \<noteq> ERR_OK then e else fst (tcp_connect io s p ip port)))"

lemma length_connect_message:
  "length (connect_message ci) =
     1 + length (enc_length (12 + will_length ci + length (client_id ci))) + (12 + will_length ci + length (client_id ci))"
  by (simp add: connect_message_def enc_header_def will_length_def split: option.split)

lemma will_length_bound: "will_ok ci \<Longrightarrow> will_length ci \<le> 514"
  by (auto simp: will_ok_def will_length_def split: option.splits)

lemma connect_error_result:
  assumes st: "conn_state (client w) = TCP_DISCONNECTED" and len: "length (client_id ci) \<le> 60000"
    and res: "mqtt_client_connect io ip port c a ci w = Ok (e, w')"
  shows "e = connect_error io ip port ci (tcp w)"
proof (cases "will_ok ci")
  case False
  with res st show ?thesis by (simp add: mqtt_client_connect_def connect_lengths_eq [OF len] connect_error_def)
next
  case True
  let ?n = "12 + will_length ci + length (client_id ci)"
  have n: "unat (word_of_nat ?n :: u16) = ?n" using will_length_bound [OF True] len by (simp add: unat_of_nat_u16 del: of_nat_add)
  have rb: "rb_bytes (out_rb (fresh_client c a ci)) = []" using zero_ring(2) by (simp add: fresh_client_def)
  have room: "mqtt_output_check_space (out_rb (fresh_client c a ci)) (word_of_nat ?n) \<longleftrightarrow> length (connect_message ci) \<le> 256"
    using mqtt_output_check_space_iff [of "word_of_nat ?n" "out_rb (fresh_client c a ci)"] will_length_bound [OF True] len
    by (simp only: n rb length_connect_message) simp
  show ?thesis
    using res st True room
    by (auto simp: mqtt_client_connect_def connect_lengths_eq [OF len] connect_error_def fresh_client_def Let_def
        bind_outcome_Ok_iff set_hooks_def
        split: if_splits option.splits prod.splits)
qed


lemma app_message: "connect_message app_info =
  [0x10, 21, 0, 4] @ ascii ''MQTT'' @ [4, 2, 0, 60, 0, 9] @ ascii ''lwip_test''"
  by (simp add: connect_message_def app_info_def will_fields_def will_length_def connect_flags_def enc_header_def
      enc_length.simps enc_string_def enc_u16_def ctl_byte_def MQTT_CONNECT_FLAG_CLEAN_SESSION_def)

lemma sink_connects: "connect_error sink_tcp ip port app_info s = ERR_OK"
proof -
  have "will_ok app_info" by (simp add: will_ok_def will_fields_def app_info_def)
  moreover have "length (connect_message app_info) \<le> 256" by (simp add: app_message)
  ultimately show ?thesis by (simp add: connect_error_def sink_tcp_def)
qed


section \<open>The client at work\<close>

text \<open>The example stack takes the client through TCP's three-way handshake.\<close>

lemma sink_connecting:
  "\<exists>w p. mqtt_reachable sink_tcp w \<and> conn (client w) = Some p \<and> conn_state (client w) = TCP_CONNECTING \<and>
     Connected_hook \<in> hooks w p"
proof -
  have st: "conn_state (client idle_world) = TCP_DISCONNECTED" by (simp add: idle_world_def zero_mqtt_client_def)
  have dis: "disconnected idle_world" using inv_disconnected [OF mqtt_start_inv [OF idle_start] st] .
  let ?w = "print Connecting_msg idle_world"
  have inv: "conn_state (client ?w) = TCP_DISCONNECTED" "conn (client ?w) = None" "hooks_inv ?w"
    using dis disconnected_print(1) [of Connecting_msg idle_world] unfolding disconnected_def by blast+
  have len: "length (client_id app_info) \<le> 60000" by (simp add: app_info_def)
  let ?conn = "mqtt_client_connect sink_tcp [192, 168, 45, 119] MQTT_PORT (Some Mqtt_connection_cb) 0 app_info ?w"
  from mqtt_client_connect_run [OF inv len, of sink_tcp "[192, 168, 45, 119]" MQTT_PORT "Some Mqtt_connection_cb" 0]
  obtain e w where w: "?conn = Ok (e, w)" "connect_post (Some Mqtt_connection_cb) 0 app_info ?w e w"
    by (auto simp: yields_def)
  have e: "e = ERR_OK" using connect_error_result [OF inv(1) len w(1)] by (simp add: sink_connects)
  have "example_do_connect sink_tcp idle_world = Ok w"
    using w(1) e by (simp add: example_do_connect_def app_info_def)
  then have "mqtt_reachable sink_tcp w"
    using mqtt_reachable.Step [OF mqtt_reachable.Start [OF idle_start] mqtt_step.Do_connect [OF st]] by blast
  with w(2) e show ?thesis by (fastforce simp: connect_post_def)
qed

lemma sink_online:
  "\<exists>w p. mqtt_reachable sink_tcp w \<and> {Recv_hook, Sent_hook, Poll_hook} \<subseteq> hooks w p \<and> online w \<and> msg_idx (client w) = 0"
proof -
  obtain w p where w: "mqtt_reachable sink_tcp w" "conn (client w) = Some p" "conn_state (client w) = TCP_CONNECTING"
    "Connected_hook \<in> hooks w p" using sink_connecting by blast
  from mqtt_tcp_connect_cb_run [OF mqtt_reachable_inv [OF w(1)] w(3,2), of sink_tcp]
  obtain w' where w': "mqtt_tcp_connect_cb sink_tcp p ERR_OK w = Ok (ERR_OK, w')" "online w'" "msg_idx (client w') = 0"
    "{Recv_hook, Sent_hook, Poll_hook} \<subseteq> hooks w' p" by (auto simp: yields_def)
  have "mqtt_reachable sink_tcp w'"
    by (rule mqtt_reachable.Step [OF w(1) mqtt_step.Connected [OF w(4,2,3) w'(1)]])
  with w' show ?thesis by blast
qed

text \<open>
  C4: In every state the MQTT client can reach, over any behaviour of TCP, of the timers and of the
  application, its invariant holds and every call that does not bring in data returns and keeps
  it: publishing, disconnecting, the sent, poll and error callbacks of TCP and the cyclic timer.
  None of them overruns an array, follows a NULL pointer or loops.
\<close>

theorem mqtt_client_safe:
  assumes "mqtt_reachable io w"
  shows "mqtt_inv w \<and> yields (example_publish io a w) mqtt_inv \<and> yields (mqtt_disconnect io w) mqtt_inv \<and>
    (Sent_hook \<in> hooks w p \<longrightarrow> yields (mqtt_tcp_sent_cb io w) (\<lambda>(e, w'). mqtt_inv w')) \<and>
    yields (mqtt_tcp_poll_cb io p w) (\<lambda>(e, w'). mqtt_inv w') \<and>
    (Err_hook \<in> hooks w p \<longrightarrow> yields (mqtt_tcp_err_cb io err (set_hooks p (\<lambda>_. {}) w)) mqtt_inv) \<and>
    (next_timeout (timers w) = t # ts \<and> h t = Mqtt_cyclic_timer \<and> t_arg t = CLIENT \<longrightarrow>
       yields (mqtt_cyclic_timer io (pop_timer w ts (time t))) mqtt_inv)"
proof -
  have inv: "mqtt_inv w" using assms by (rule mqtt_reachable_inv)
  have sent: "yields (mqtt_tcp_sent_cb io w) (\<lambda>(e, w'). mqtt_inv w')" if "Sent_hook \<in> hooks w p"
    using sent_callback_run [OF hook_online [OF inv that]] by simp
  have err: "yields (mqtt_tcp_err_cb io err (set_hooks p (\<lambda>_. {}) w)) mqtt_inv" if "Err_hook \<in> hooks w p"
    by (rule yields_mono [OF mqtt_tcp_err_cb_run [OF inv hook_conn(2,1) [OF inv that]] reconnecting_inv]) simp_all
  have timer: "yields (mqtt_cyclic_timer io (pop_timer w ts (time t))) mqtt_inv"
    if "next_timeout (timers w) = t # ts" "h t = Mqtt_cyclic_timer" "t_arg t = CLIENT"
    using mqtt_cyclic_timer_run [OF pop_timer_inv [OF inv that(1)]] that by blast
  have "yields (mqtt_disconnect io w) mqtt_inv"
    by (rule yields_mono [OF mqtt_disconnect_run [OF inv] disconnected_inv])
  moreover have "yields (mqtt_tcp_poll_cb io p w) (\<lambda>(e, w'). mqtt_inv w')"
    by (rule yields_mono [OF mqtt_tcp_poll_cb_run [OF inv]]) auto
  ultimately show ?thesis using inv example_publish_run [OF inv] sent err timer by blast
qed

theorem mqtt_client_safe_witness:
  "\<exists>w p. Sent_hook \<in> hooks w p \<and> yields (example_publish sink_tcp 0 w) mqtt_inv \<and>
    yields (mqtt_tcp_sent_cb sink_tcp w) (\<lambda>(e, w'). mqtt_inv w')"
proof -
  obtain w p where "mqtt_reachable sink_tcp w" "Sent_hook \<in> hooks w p" using sink_online by blast
  with mqtt_client_safe [of sink_tcp w 0 p] show ?thesis by blast
qed

text \<open>
  C5: Whatever bytes the server sends, in whatever pieces, to a client in any state it can reach:
  the receive callback comes to an end. It either returns with the invariant kept - the
  connection possibly closed - or it stops at one of the three faults that malformed messages can
  cause, which are an access outside an array, a call through a callback pointer that is not set
  and a shift by more than the width of a word. It never loops.
\<close>

theorem mqtt_received_data:
  assumes "mqtt_reachable io w" and "Recv_hook \<in> hooks w p"
  shows "case mqtt_tcp_recv_cb io p d err w of
     Ok (e, w') \<Rightarrow> mqtt_inv w' | Halt f \<Rightarrow> f \<in> {Overrun, NullDeref, BadShift}"
  using mqtt_tcp_recv_cb_guard [OF hook_online [OF mqtt_reachable_inv [OF assms(1)] assms(2)], of io p d err]
  by (auto simp: guards_def split: outcome.split)

theorem mqtt_received_data_witness:
  "\<exists>w p. Recv_hook \<in> hooks w p \<and> (case mqtt_tcp_recv_cb sink_tcp p (Some [0xd0, 0]) ERR_OK w of
     Ok (e, w') \<Rightarrow> mqtt_inv w' | Halt f \<Rightarrow> f \<in> {Overrun, NullDeref, BadShift})"
proof -
  obtain w p where "mqtt_reachable sink_tcp w" "Recv_hook \<in> hooks w p" using sink_online by blast
  with mqtt_received_data [of sink_tcp w p "Some [0xd0, 0]" ERR_OK] show ?thesis by blast
qed



text \<open>
  C7: A complete message of any type is handled without a fault: the handler returns, and the
  connection stays up with the invariant kept. A PUBLISH is handled so when the client is
  connected, its topic length does not overflow the offset computation, and it has a payload.
\<close>

theorem mqtt_message_handled:
  assumes "online w" and "msg_idx (client w) = 0" and "p = enc_header c n @ body" and "0 < n" and "length body = n"
    and "length p \<le> 128"
    and "MQTT_CTL_PACKET_TYPE c = msg_code MQTT_MSG_TYPE_PUBLISH \<longrightarrow>
      publish_safe (length (enc_header c n)) (word_of_nat n) 0 (with_bytes (length p) p w)"
  shows "yields (mqtt_parse_incoming io p w) (\<lambda>(res, w'). online w')"
proof -
  let ?k = "length (enc_header c n)" and ?w = "with_bytes (length p) p w"
  have rx: "length (rx_buffer (client w)) = 128" using assms(1) by (rule online_rx)
  have n: "n < 128" using assms(3-6) by (simp add: enc_header_def)
  then have L: "length (enc_length n) = 1" by (simp add: enc_length.simps)
  then have k: "?k = 2" by (simp add: enc_header_def)
  have on: "online ?w"
    unfolding with_bytes_def using assms(1,6) rx by (intro online_rx_update) auto
  have b0: "rx_buffer (client ?w) ! 0 = c" using assms(3) by (simp add: with_bytes_def enc_header_def)
  have kn: "2 + n \<le> 128" "unat (word_of_nat n :: u16) = n"
    using assms(3,5,6) n by (simp_all add: L enc_header_def unat_of_nat)
  have "yields (mqtt_message_received io (word_of_nat ?k) (word_of_nat n) 0 ?w) (\<lambda>(res, w'). kept ?w w')"
    using assms(7) kn unfolding k by (intro mqtt_message_received_run [OF on]) (simp_all add: b0)
  then have "yields (message_result (mqtt_message_received io (word_of_nat ?k) (word_of_nat n) 0 ?w)) (\<lambda>(res, w'). online w')"
    unfolding message_result_def
    by (rule yields_bind) (auto simp: kept_def online_set_msg_idx)
  then show ?thesis using mqtt_parse_incoming_message [OF assms(3-6) rx assms(2)] by simp
qed

theorem mqtt_message_handled_witness:
  "yields (mqtt_parse_incoming sink_tcp [0x30, 4, 0, 1, 0x74, 9] live_world) (\<lambda>(res, w'). online w')"
proof -
  have "publish_safe (length (enc_header 0x30 4)) (word_of_nat 4) 0
      (with_bytes (length [0x30, 4, 0, 1, 0x74, 9 :: u8]) [0x30, 4, 0, 1, 0x74, 9] live_world)"
    by (simp add: publish_safe_def publish_offset_def publish_qos_def rx_word_def with_bytes_def enc_header_def
        enc_length.simps MQTT_CTL_PACKET_QOS_def)
  then show ?thesis
    using mqtt_message_handled [OF live_online live_fields(3), of "[0x30, 4, 0, 1, 0x74, 9]" "0x30" 4 "[0, 1, 0x74, 9]" sink_tcp]
    by (simp add: enc_header_def enc_length.simps)
qed

text \<open>
  The parser's loop ends on every input, for every state of the client and from every point of
  a header that it can be at.
\<close>

theorem mqtt_parser_terminates:
  assumes "unat (fixed_hdr_idx ps) \<le> 6"
  shows "\<exists>r. parse_loop io p ps w = Some r"
  using assms by (rule parse_loop_returns)

theorem mqtt_parser_terminates_witness:
  "\<exists>r. parse_loop sink_tcp (replicate 1000 0xff) start_parser idle_world = Some r"
  using mqtt_parser_terminates [of start_parser sink_tcp "replicate 1000 0xff" idle_world] by (simp add: start_parser_def)

section \<open>Requests\<close>


definition demo_requests :: "mqtt_request_cb_t req_objs" where
  "demo_requests =
     \<lparr>next_req = None, cb = Some Mqtt_pub_request_cb, arg = 7, pkt_id = 1, timeout_diff = 5\<rparr> #
     map (\<lambda>n. \<lparr>next_req = Some n, cb = None, arg = 0, pkt_id = 0, timeout_diff = 0\<rparr>) [1, 2, 3]"



section \<open>Answers of the server\<close>

text \<open>A message that consists of a packet identifier.\<close>

abbreviation ident_message :: "u8 \<Rightarrow> u16 \<Rightarrow> u8 list" where
  "ident_message c ident \<equiv> c # 2 # enc_u16 (unat ident)"

lemma rx_word_ident:
  assumes "take 4 (rx_buffer (client w)) = ident_message c ident"
  shows "rx_word w 2 = ident"
proof -
  have "rx_buffer (client w) ! k = ident_message c ident ! k" if "k < 4" for k
    using assms that by (metis nth_take)
  from this [of 2] this [of 3] have "rx_word w 2 =
      push_bit 8 (ucast (word_of_nat (unat ident div 256) :: u8)) + ucast (word_of_nat (unat ident mod 256) :: u8)"
    by (simp add: rx_word_def enc_u16_def numeral_3_eq_3 numeral_2_eq_2)
  moreover have "unat ident < 65536" using unsigned_less [where 'a = nat, of ident] by simp
  ultimately show ?thesis
    by (simp add: word_unat_eq_iff unat_word_ariths unsigned_push_bit_eq push_bit_eq_mult unsigned_ucast_eq take_bit_eq_mod unat_of_nat)
qed

lemma set_msg_idx_keeps [simp]:
  "req_list (client (set_msg_idx k w)) = req_list (client w)"
  "pend_req_queue (client (set_msg_idx k w)) = pend_req_queue (client w)"
  "out_rb (client (set_msg_idx k w)) = out_rb (client w)" "conn_state (client (set_msg_idx k w)) = conn_state (client w)"
  "conn (client (set_msg_idx k w)) = conn (client w)"
  "console (set_msg_idx k w) = console w" "tcp (set_msg_idx k w) = tcp w"
  "buildConnetSuccess (set_msg_idx k w) = buildConnetSuccess w"
  by (simp_all add: set_msg_idx_def)

lemma parse_ident_message:
  assumes on: "online w" and m0: "msg_idx (client w) = 0" and ident: "ident \<noteq> 0"
    and t: "MQTT_CTL_PACKET_TYPE c \<notin> {2, 3, 13}"
  shows "mqtt_parse_incoming io (ident_message c ident) w =
    message_result (received_with_id io (MQTT_CTL_PACKET_TYPE c) 2 2 (with_bytes 4 (ident_message c ident) w))"
    and "online (with_bytes 4 (ident_message c ident) w)"
    and "rx_u16 (with_bytes 4 (ident_message c ident) w) 2 = Ok ident"
proof -
  let ?p = "ident_message c ident"
  have rx: "length (rx_buffer (client w)) = 128" using on by (rule online_rx)
  show on': "online (with_bytes 4 ?p w)"
    unfolding with_bytes_def using on rx by (intro online_rx_update) auto
  have "take 4 (rx_buffer (client (with_bytes 4 ?p w))) = ?p" by (simp add: with_bytes_def enc_u16_def)
  from rx_word_ident [OF this] show "rx_u16 (with_bytes 4 ?p w) 2 = Ok ident" using rx_u16_Ok [OF on', of 2] by simp
  have b0: "rx_at (with_bytes 4 ?p w) 0 = Ok c" using rx_at_Ok [OF on', of 0] by (simp add: with_bytes_def)
  have "mqtt_parse_incoming io ?p w = message_result (mqtt_message_received io 2 2 0 (with_bytes 4 ?p w))"
    using mqtt_parse_incoming_message [of ?p c 2 "enc_u16 (unat ident)" w io] rx m0
    by (simp add: enc_header_def enc_length.simps eval_nat_numeral)
  then show "mqtt_parse_incoming io ?p w = message_result (received_with_id io (MQTT_CTL_PACKET_TYPE c) 2 2 (with_bytes 4 ?p w))"
    using t by (simp add: mqtt_message_received_def b0)
qed


definition pending_world :: "u8 list world" where
  "pending_world =
     live_world\<lparr>client := (client live_world)\<lparr>req_list := demo_requests, pend_req_queue := Some 0\<rparr>\<rparr>"


lemma pending_fields [simp]:
  "req_list (client pending_world) = demo_requests" "pend_req_queue (client pending_world) = Some 0"
  "msg_idx (client pending_world) = 0" "conn (client pending_world) = Some 0"
  by (simp_all add: pending_world_def)


text \<open>
  The handshake of QoS 2. A PUBREC is answered with a PUBREL and a PUBREL with a PUBCOMP, each
  with the identifier that was received and the flags MQTT requires, as long as the ring has room
  for four bytes: exactly these four bytes are appended to the bytes for TCP. Without room
  nothing is sent; the connection stays up either way.
\<close>

theorem mqtt_qos2_answered:
  assumes "online w" and "msg_idx (client w) = 0" and "ident \<noteq> 0" and "conn (client w) = Some p"
    and "tcp_stream_law io stream" and "(MQTT_CTL_PACKET_TYPE c, d) \<in> {(5, 0x62), (6, 0x70)}"
  shows "yields (mqtt_parse_incoming io (ident_message c ident) w) (\<lambda>(res, w').
    res = MQTT_CONNECT_ACCEPTED \<and> online w' \<and>
    stream (tcp w') p @ rb_bytes (out_rb (client w')) =
      stream (tcp w) p @ rb_bytes (out_rb (client w)) @
        (if length (rb_bytes (out_rb (client w))) + 4 \<le> 256 then ident_message d ident else []))"
proof -
  let ?w = "with_bytes 4 (ident_message c ident) w" and ?t = "MQTT_CTL_PACKET_TYPE c"
  have t: "?t \<notin> {2, 3, 13}" using assms(6) by auto
  note m = parse_ident_message [OF assms(1-3) t]
  have same: "conn (client ?w) = Some p" "out_rb (client ?w) = out_rb (client w)" "tcp ?w = tcp w"
    using assms(4) by (simp_all add: with_bytes_def)
  have room: "mqtt_output_check_space (out_rb (client w)) 2 \<longleftrightarrow> length (rb_bytes (out_rb (client w))) + 4 \<le> 256"
    by (simp add: mqtt_output_check_space_iff enc_length.simps)
  have d: "ctl_byte 6 0 1 0 = 0x62" "ctl_byte 7 0 0 0 = 0x70" by (simp_all add: ctl_byte_def)
  have "yields (pub_ack_rec_rel_response io msg ident q ?w) (\<lambda>(e, w'). kept ?w w' \<and>
    stream (tcp w') p @ rb_bytes (out_rb (client w')) = stream (tcp w) p @ rb_bytes (out_rb (client w)) @
      (if length (rb_bytes (out_rb (client w))) + 4 \<le> 256 then ident_message (ctl_byte msg 0 q 0) ident else []))" for msg q
    using assms(5)
    by (intro yields_mono [OF pub_ack_rec_rel_response_run [OF m(2) same(1), unfolded same(2,3) room]])
      (auto simp: same split: if_splits)
  note resp = this
  have ans: "yields (bind_outcome (pub_ack_rec_rel_response io msg ident q ?w) (\<lambda>(_, w). Ok (MQTT_CONNECT_ACCEPTED, w)))
    (\<lambda>(res, w'). res = MQTT_CONNECT_ACCEPTED \<and> kept ?w w' \<and>
    stream (tcp w') p @ rb_bytes (out_rb (client w')) = stream (tcp w) p @ rb_bytes (out_rb (client w)) @
      (if length (rb_bytes (out_rb (client w))) + 4 \<le> 256 then ident_message (ctl_byte msg 0 q 0) ident else []))" for msg q
    by (rule yields_bind [OF resp]) auto
  have "yields (received_with_id io ?t 2 2 ?w) (\<lambda>(res, w'). res = MQTT_CONNECT_ACCEPTED \<and> kept ?w w' \<and>
    stream (tcp w') p @ rb_bytes (out_rb (client w')) = stream (tcp w) p @ rb_bytes (out_rb (client w)) @
      (if length (rb_bytes (out_rb (client w))) + 4 \<le> 256 then ident_message d ident else []))"
    using assms(3,6) ans [of 6 1, unfolded d] ans [of 7 0, unfolded d]
    by (auto simp: received_with_id_def m(3) split del: if_split)
  then show ?thesis
    unfolding m(1) message_result_def by (rule yields_bind) (auto simp: kept_def online_set_msg_idx)
qed

theorem mqtt_qos2_answered_witness:
  "yields (mqtt_parse_incoming sink_tcp [0x50, 2, 0, 1] live_world) (\<lambda>(res, w').
    res = MQTT_CONNECT_ACCEPTED \<and> tcp w' @ rb_bytes (out_rb (client w')) = [0x62, 2, 0, 1])"
proof -
  have "MQTT_CTL_PACKET_TYPE 0x50 = 5" by (simp add: MQTT_CTL_PACKET_TYPE_def)
  moreover have "length (rb_bytes (out_rb (client live_world))) = 0" by (simp only: live_fields) simp
  ultimately have "yields (mqtt_parse_incoming sink_tcp (ident_message 0x50 1) live_world) (\<lambda>(res, w').
    res = MQTT_CONNECT_ACCEPTED \<and> tcp w' @ rb_bytes (out_rb (client w')) = ident_message 0x62 1)"
    by (intro yields_mono [OF mqtt_qos2_answered [OF live_online live_fields(3) _ live_fields(1) sink_stream, of 1 "0x50" "0x62"]])
      auto
  then show ?thesis by (simp add: enc_u16_def)
qed

text \<open>
  The answer to the CONNECT. While the client waits for it, a CONNACK with return code 0 makes
  it connected and tells the application; any other code is passed on to the receive callback,
  which closes the connection, and the client stays as it is. A second CONNACK is ignored.
\<close>

theorem mqtt_connack_handled:
  assumes "online w" and "msg_idx (client w) = 0"
  shows "yields (mqtt_parse_incoming io [0x20, 2, flags, code] w) (\<lambda>(res, w'). online w' \<and>
    (if conn_state (client w) = MQTT_CONNECTING
     then res = unat code \<and> (conn_state (client w') = MQTT_CONNECTED \<longleftrightarrow> code = 0) \<and> (code = 0 \<longrightarrow> buildConnetSuccess w')
     else res = MQTT_CONNECT_ACCEPTED \<and> conn_state (client w') = MQTT_CONNECTED))"
proof -
  let ?p = "[0x20, 2, flags, code]" and ?w = "with_bytes 4 [0x20, 2, flags, code] w"
  have rx: "length (rx_buffer (client w)) = 128" using assms(1) by (rule online_rx)
  have on: "online ?w" unfolding with_bytes_def using assms(1) rx by (intro online_rx_update) auto
  have same: "conn_state (client ?w) = conn_state (client w)" "rx_buffer (client ?w) ! 3 = code"
    "\<And>c. conn_state (client (with_bytes 4 [0x20, 2, flags, c] w)) = conn_state (client w)"
    by (simp_all add: with_bytes_def numeral_3_eq_3)
  have b0: "rx_at ?w 0 = Ok 0x20" using rx_at_Ok [OF on, of 0] by (simp add: with_bytes_def)
  have "mqtt_parse_incoming io ?p w = message_result (mqtt_message_received io 2 2 0 ?w)"
    using mqtt_parse_incoming_message [of ?p "0x20" 2 "[flags, code]" w io] rx assms(2)
    by (simp add: enc_header_def enc_length.simps eval_nat_numeral)
  also have "mqtt_message_received io 2 2 0 ?w = received_connack io 2 ?w"
    by (simp add: mqtt_message_received_def b0 MQTT_CTL_PACKET_TYPE_def)
  finally have eq: "mqtt_parse_incoming io ?p w = message_result (received_connack io 2 ?w)" .
  have st: "conn_state (client w) \<in> {MQTT_CONNECTING, MQTT_CONNECTED}" using assms(1) by (simp add: online_def)
  have code: "unat code = 0 \<longleftrightarrow> code = 0" by (simp add: unat_eq_0)
  show ?thesis
    unfolding eq message_result_def
    by (rule yields_bind [OF received_connack_run [OF on]])
      (use st code in \<open>auto simp: same kept_def online_set_msg_idx split: if_splits\<close>)
qed

theorem mqtt_connack_handled_witness:
  "\<exists>w. online w \<and> yields (mqtt_parse_incoming sink_tcp [0x20, 2, 0, 0] w) (\<lambda>(res, w').
    online w' \<and> conn_state (client w') = MQTT_CONNECTED)"
proof -
  obtain w :: "u8 list world" where w: "online w" "msg_idx (client w) = 0" using sink_online by blast
  from mqtt_connack_handled [OF w, of sink_tcp 0 0] obtain res w' where
    r: "mqtt_parse_incoming sink_tcp [0x20, 2, 0, 0] w = Ok (res, w')" "online w'"
    "if conn_state (client w) = MQTT_CONNECTING
     then res = unat (0 :: u8) \<and> (conn_state (client w') = MQTT_CONNECTED \<longleftrightarrow> (0 :: u8) = 0) \<and> ((0 :: u8) = 0 \<longrightarrow> buildConnetSuccess w')
     else res = MQTT_CONNECT_ACCEPTED \<and> conn_state (client w') = MQTT_CONNECTED"
    unfolding yields_def by blast
  from r(3) have "conn_state (client w') = MQTT_CONNECTED" by (auto split: if_splits)
  with w(1) r(1,2) show ?thesis by (intro exI [of _ w]) simp
qed

section \<open>Time\<close>




text \<open>
  A timeout armed when the list is empty or up to date is due exactly after the requested
  time, behind the entries that are due at the same moment, and no other timeout is moved.
\<close>

theorem sys_timeout_exact:
  assumes "next_timeout T = [] \<or> t = timeouts_last_time T" and "length (next_timeout T) < 8"
  shows "due (sys_timeout t msecs handler a T) = insert_due (unat msecs) (handler, a) (due T)"
  using assms by (rule sys_timeout_due)

theorem sys_timeout_exact_witness:
  "due (sys_timeout 3 5 (Other_timer 1) 9 \<lparr>next_timeout = [\<lparr>time = 4, h = Mqtt_cyclic_timer, t_arg = 0\<rparr>,
      \<lparr>time = 6, h = Mqtt_cyclic_timer, t_arg = 1\<rparr>], timeouts_last_time = 3\<rparr>) =
     [(4, Mqtt_cyclic_timer, 0), (5, Other_timer 1, 9), (10, Mqtt_cyclic_timer, 1)]"
  by (subst sys_timeout_exact) (simp_all add: due_def)

text \<open>
  C16: Cancelling a timeout removes the first entry with that handler and argument and moves no
  other timeout, as long as the delays in the list do not add up to more than 32 bits.
\<close>

theorem sys_untimeout_exact:
  assumes "sum_list (delays (next_timeout T)) < 2 ^ 32"
  shows "due (sys_untimeout handler a T) = remove_due handler a (due T)"
  using untimeout_list_due [of 0 "next_timeout T" handler a] assms by (simp add: due_def sys_untimeout_def)

theorem sys_untimeout_exact_witness:
  "due (sys_untimeout (Other_timer 1) 9 \<lparr>next_timeout = [\<lparr>time = 4, h = Other_timer 1, t_arg = 9\<rparr>,
      \<lparr>time = 6, h = Mqtt_cyclic_timer, t_arg = 1\<rparr>], timeouts_last_time = 3\<rparr>) = [(10, Mqtt_cyclic_timer, 1)]"
  by (subst sys_untimeout_exact) (simp_all add: due_def delays_def)



section \<open>Messages that are mishandled\<close>

lemma parse_publish:
  assumes "length (rx_buffer (client w)) = 128" and "msg_idx (client w) = 0" and "length body = n" "0 < n" "n < 126"
  shows "mqtt_parse_incoming io (0x30 # word_of_nat n # body) w =
    message_result (received_publish io 2 (word_of_nat n) 0 (with_bytes (Suc (Suc n)) (0x30 # word_of_nat n # body) w))"
proof -
  let ?p = "0x30 # word_of_nat n # body" and ?w = "with_bytes (Suc (Suc n)) (0x30 # word_of_nat n # body) w"
  have h: "enc_header 0x30 n = [0x30, word_of_nat n]" using assms(5) by (simp add: enc_header_def enc_length.simps)
  have b0: "rx_at ?w 0 = Ok 0x30" using assms by (simp add: rx_at_def with_bytes_def)
  have "mqtt_parse_incoming io ?p w = message_result (mqtt_message_received io 2 (word_of_nat n) 0 ?w)"
    using mqtt_parse_incoming_message [of ?p "0x30" n body w io] assms by (simp add: h)
  then show ?thesis by (simp add: mqtt_message_received_def b0 MQTT_CTL_PACKET_TYPE_def)
qed

text \<open>A PUBLISH that arrives before the CONNACK is handed to a callback that is not set yet.\<close>

lemma publish_before_connack:
  assumes "length (rx_buffer (client w)) = 128" and "msg_idx (client w) = 0"
    and "data_cb (client w) = None" and "pub_cb (client w) = None"
  shows "mqtt_parse_incoming io [0x30, 4, 0, 1, 0x74, 9] w = Halt NullDeref"
  using parse_publish [of w "[0, 1, 0x74, 9]" 4 io] assms
  by (simp add: received_publish_def publish_header_def publish_payload_def rx_u16_def rx_at_def with_bytes_def
      message_result_def Let_def MQTT_VAR_HEADER_BUFFER_LEN_def MQTT_CTL_PACKET_QOS_def)

text \<open>A topic length of 65534 wraps the 16-bit offset behind the topic and passes the length check.\<close>

lemma topic_length_wraps:
  assumes "length (rx_buffer (client w)) = 128" and "msg_idx (client w) = 0"
  shows "mqtt_parse_incoming io [0x30, 4, 0xff, 0xfe, 0x74, 9] w = Halt Overrun"
  using parse_publish [of w "[0xff, 0xfe, 0x74, 9]" 4 io] assms
  by (simp add: received_publish_def publish_header_def publish_payload_def rx_u16_def rx_at_def with_bytes_def
      message_result_def Let_def MQTT_VAR_HEADER_BUFFER_LEN_def MQTT_CTL_PACKET_QOS_def)

text \<open>A PUBLISH of QoS 0 without payload, which MQTT allows, is taken for malformed.\<close>

lemma empty_publish_refused:
  assumes "length (rx_buffer (client w)) = 128" and "msg_idx (client w) = 0"
  shows "\<exists>w'. mqtt_parse_incoming io [0x30, 3, 0, 1, 0x74] w = Ok (MQTT_CONNECT_DISCONNECTED, w')"
  using parse_publish [of w "[0, 1, 0x74]" 3 io] assms
  by (simp add: received_publish_def publish_header_def publish_payload_def rx_u16_def rx_at_def with_bytes_def
      message_result_def Let_def MQTT_VAR_HEADER_BUFFER_LEN_def MQTT_CTL_PACKET_QOS_def)

text \<open>The total of a message of 65533 bytes wraps to 1, and the empty ring is said to have room.\<close>

lemma check_space_wraps: "mqtt_output_check_space (out_rb zero_mqtt_client) 65533"
proof -
  have "length (enc_length 65533) = 3" by (simp add: length_enc_length)
  then have "count_length_bytes (1 + 65533) 65533 = 1" by (simp add: count_length_bytes_eq)
  then show ?thesis
    by (simp add: mqtt_output_check_space_def mqtt_ringbuf_free_def mqtt_ringbuf_len_def zero_mqtt_client_def MQTT_OUTPUT_RINGBUF_SIZE_def)
qed

end
