(* ===== verification/LwipAlloc.thy ===== *)
theory LwipAlloc
  imports LwipChain
begin

text \<open>
  Allocation of packets from the pool: either a packet of the requested length whose objects
  belong to the caller alone, or nothing at all.
\<close>

section \<open>Objects in use\<close>

lemma in_use_append: "in_use ts (S @ T) = in_use ts S + in_use ts T"
  by (simp add: in_use_def)

lemma in_use_single: "in_use ts [Some q] = (if pb_type q \<in> ts \<and> \<not> custom q then 1 else 0)"
  by (simp add: in_use_def)

lemma in_use_released: "in_use ts (replicate k None) = 0"
  by (simp add: in_use_def)

section \<open>Chains under construction\<close>

text \<open>
  The objects at the end of the store, one linked to the next; the totals count \<open>k\<close> bytes that are
  still to come.
\<close>

fun numbered :: "nat \<Rightarrow> pbuf list \<Rightarrow> chunks" where
  "numbered a [] = []"
| "numbered a (q # qs) = (a, q) # numbered (Suc a) qs"

fun due_bytes :: "nat \<Rightarrow> chunks \<Rightarrow> bool" where
  "due_bytes k [] \<longleftrightarrow> True"
| "due_bytes k ((n, q) # qs) \<longleftrightarrow> sound q \<and> unat (tot_len q) = unat (len q) + length (contents qs) + k \<and> due_bytes k qs"

lemma due_bytes_0: "due_bytes 0 qs = sized qs"
  by (induction "0 :: nat" qs rule: due_bytes.induct) auto

lemma due_bytes_snoc:
  "due_bytes (unat (len q) + k) qs \<Longrightarrow> sound q \<Longrightarrow> unat (tot_len q) = unat (len q) + k \<Longrightarrow> due_bytes k (qs @ [(n, q)])"
  by (induction "unat (len q) + k" qs rule: due_bytes.induct) auto

lemma numbered_append: "numbered a (xs @ ys) = numbered a xs @ numbered (a + length xs) ys"
  by (induction xs arbitrary: a) auto

lemma numbered_addrs: "addrs (numbered a qs) = {a..<a + length qs}"
  by (induction qs arbitrary: a) auto

lemma numbered_set: "(n, q) \<in> set (numbered a qs) \<Longrightarrow> q \<in> set qs"
  by (induction qs arbitrary: a) auto

text \<open>\<open>strung a qs\<close>: each object points to the next address, the last to nothing.\<close>

fun strung :: "nat \<Rightarrow> pbuf list \<Rightarrow> bool" where
  "strung a [] \<longleftrightarrow> True"
| "strung a [q] \<longleftrightarrow> pb_next q = None"
| "strung a (q # r # qs) \<longleftrightarrow> pb_next q = Some (Suc a) \<and> strung (Suc a) (r # qs)"

lemma linked_strung:
  "strung (length S) qs \<Longrightarrow> qs \<noteq> [] \<Longrightarrow> linked (S @ map Some qs) (Some (length S)) (numbered (length S) qs)"
proof (induction "length S" qs arbitrary: S rule: strung.induct)
  case (3 q r qs)
  from "3.hyps" [of "S @ [Some q]"] "3.prems"
  have "linked (S @ [Some q] @ map Some (r # qs)) (Some (Suc (length S))) (numbered (Suc (length S)) (r # qs))" by simp
  moreover have "length S \<notin> addrs (numbered (Suc (length S)) (r # qs))" unfolding numbered_addrs by simp
  ultimately show ?case using "3.prems" by (simp add: nth_append)
qed simp_all

lemma strung_snoc:
  "strung a (qs @ [r]) \<Longrightarrow> pb_next q = None \<Longrightarrow> strung a (qs @ [r\<lparr>pb_next := Some (a + Suc (length qs))\<rparr>, q])"
proof (induction qs arbitrary: a)
  case (Cons x qs)
  then show ?case using Cons.IH [of "Suc a"] by (cases qs) auto
qed simp

definition pool_objs :: "pbuf list \<Rightarrow> bool" where
  "pool_objs os \<longleftrightarrow> (\<forall>q \<in> set os. pb_type q = PBUF_POOL \<and> \<not> custom q \<and> ref q = 1)"

lemma in_use_pool: "pool_objs os \<Longrightarrow> in_use {PBUF_POOL} (map Some os) = length os"
  by (induction os) (auto simp: pool_objs_def in_use_def)

lemma release_numbered:
  "release_all (S @ map Some qs) (numbered (length S) qs) = S @ replicate (length qs) None"
proof (induction qs arbitrary: S)
  case (Cons q qs)
  have "(S @ Some q # map Some qs)[length S := None] = (S @ [None]) @ map Some qs" by simp
  with Cons [of "S @ [None]"] show ?case by (simp add: replicate_append_same [symmetric] del: list_update_append)
qed simp

text \<open>
  The loop either completes the chain or gives back all of it; it completes the chain exactly if
  the pool holds enough buffers of 512 bytes for the rest.
\<close>

definition more_bufs :: "nat \<Rightarrow> nat" where
  "more_bufs rem = (rem + 511) div 512"

declare pool_tail.simps [simp del]

lemma more_bufs_step: "0 < rem \<Longrightarrow> more_bufs rem = Suc (more_bufs (rem - min rem 512))"
proof (cases "rem \<le> 512")
  case True
  moreover assume "0 < rem"
  ultimately have "(rem + 511) div 512 = 1" by (intro div_nat_eqI) auto
  with True show ?thesis by (simp add: more_bufs_def)
next
  case False
  then show ?thesis using le_div_geq [of 512 "rem + 511"] by (simp add: more_bufs_def)
qed

lemma relinked_last:
  "due_bytes k (numbered a (os @ [r\<lparr>pb_next := t\<rparr>])) = due_bytes k (numbered a (os @ [r]))"
  "contents (numbered a (os @ [r\<lparr>pb_next := t\<rparr>])) = contents (numbered a (os @ [r]))"
proof -
  show c: "contents (numbered a (os @ [r\<lparr>pb_next := t\<rparr>])) = contents (numbered a (os @ [r]))" for a os
    by (simp add: numbered_append)
  show "due_bytes k (numbered a (os @ [r\<lparr>pb_next := t\<rparr>])) = due_bytes k (numbered a (os @ [r]))"
    by (induction os arbitrary: a) (simp_all add: c)
qed

definition pool_chain :: "nat \<Rightarrow> nat \<Rightarrow> pbuf list \<Rightarrow> bool" where
  "pool_chain a k os \<longleftrightarrow> os \<noteq> [] \<and> pool_objs os \<and> strung a os \<and> due_bytes k (numbered a os)"

lemma pool_chain_snoc:
  assumes c: "pool_chain a k (os @ [r])" and n: "unat (len q) + j = k" "unat (tot_len q) = k"
    and q: "sound q" "pool_objs [q]" "pb_next q = None"
  shows "pool_chain a j (os @ [r\<lparr>pb_next := Some (a + Suc (length os))\<rparr>] @ [q])"
proof -
  let ?r = "r\<lparr>pb_next := Some (a + Suc (length os))\<rparr>"
  have "due_bytes (unat (len q) + j) (numbered a (os @ [?r]))" unfolding relinked_last using c n by (simp add: pool_chain_def)
  then have "due_bytes j (numbered a ((os @ [?r]) @ [q]))"
    unfolding numbered_append [of a "os @ [?r]"] using n q(1) by (simp add: due_bytes_snoc)
  then show ?thesis
    using c q(2,3) strung_snoc [of a os r q] by (simp add: pool_chain_def pool_objs_def)
qed

lemma pool_chain_free:
  assumes "pool_chain (length S0) k os"
  shows "pbuf_free (S0 @ map Some os) (Some (length S0)) =
    Ok (word_of_nat (length os), S0 @ replicate (length os) None)"
proof -
  have sole: "\<forall>x \<in> set (numbered (length S0) os). sole x"
    using assms numbered_set [of _ _ "length S0" os] by (auto simp: pool_chain_def pool_objs_def sole_def)
  have "length (numbered a qs) = length qs" for a qs by (induction qs arbitrary: a) auto
  with sole assms show ?thesis
    by (subst free_packet [OF linked_strung])
      (simp_all add: pool_chain_def dropped_sole release_numbered takeWhile_eq_all_conv [THEN iffD2])
qed

lemma pool_tail_run:
  assumes "S = S0 @ map Some (os @ [r])" and "pool_chain (length S0) rem (os @ [r])" and "rem < 65536"
    and "in_use {PBUF_POOL} S \<le> 20"
  shows "if in_use {PBUF_POOL} S + more_bufs rem \<le> 20
    then \<exists>os'. pool_tail E S (length S0) (length S0 + length os) rem = Ok (Some (length S0), S0 @ map Some os') \<and>
      pool_chain (length S0) 0 os' \<and>
      length (contents (numbered (length S0) os')) = length (contents (numbered (length S0) (os @ [r]))) + rem
    else \<exists>k. pool_tail E S (length S0) (length S0 + length os) rem = Ok (None, S0 @ replicate k None)"
  using assms
proof (induction rem arbitrary: S os r rule: less_induct)
  case (less rem)
  show ?case
  proof (cases "rem = 0")
    case True
    with less.prems show ?thesis by (auto simp: more_bufs_def pool_tail.simps intro!: exI [of _ "os @ [r]"])
  next
    case nz: False
    show ?thesis
    proof (cases "memp_malloc_pool S")
      case False
      have "\<not> in_use {PBUF_POOL} S + more_bufs rem \<le> 20"
        using False nz more_bufs_step [of rem] by (simp add: memp_malloc_pool_def PBUF_POOL_SIZE_def)
      moreover have "pool_tail E S (length S0) (length S0 + length os) rem = Ok (None, S0 @ replicate (length (os @ [r])) None)"
        using False nz pool_chain_free [OF less.prems(2)] less.prems(1) by (subst pool_tail.simps) simp
      ultimately show ?thesis by (simp only: if_False) blast
    next
      case True
      define n where "n = min rem 512"
      define q where "q = \<lparr>pb_next = None, payload = 0, area = new_area E S PBUF_POOL_BUFSIZE_ALIGNED,
        tot_len = word_of_nat rem :: u16, len = word_of_nat n, pb_type = PBUF_POOL, custom = False, ref = 1\<rparr>"
      let ?r = "r\<lparr>pb_next := Some (length S0 + Suc (length os))\<rparr>"
      have rem: "unat (word_of_nat rem :: u16) = rem" "unat (word_of_nat n :: u16) = n" "n \<noteq> 0" "n \<le> 512" "n \<le> rem"
        using less.prems(3) nz by (auto simp: unat_of_nat n_def)
      have size: "PBUF_POOL_BUFSIZE_ALIGNED = 512" by (simp add: PBUF_POOL_BUFSIZE_ALIGNED_def LWIP_MEM_ALIGN_SIZE_def)
      have chain: "pool_chain (length S0) (rem - n) (os @ [?r] @ [q])"
        by (rule pool_chain_snoc [OF less.prems(2)])
          (use rem in \<open>simp_all add: q_def sound_def new_area_def size pool_objs_def\<close>)
      let ?S = "S0 @ map Some ((os @ [?r]) @ [q])"
      have step: "pool_tail E S (length S0) (length S0 + length os) rem =
          pool_tail E ?S (length S0) (length S0 + length (os @ [?r])) (rem - n)"
        using True nz rem unfolding size less.prems(1) q_def n_def
        by (subst pool_tail.simps) (auto simp: Let_def nth_append list_update_append size min_def)
      have pools: "in_use {PBUF_POOL} S = in_use {PBUF_POOL} S0 + Suc (length os)"
        "in_use {PBUF_POOL} ?S = in_use {PBUF_POOL} S0 + Suc (Suc (length os))"
        using in_use_pool [of "os @ [r]"] in_use_pool [of "os @ [?r] @ [q]"] less.prems(2) chain
        unfolding less.prems(1) in_use_append by (simp_all add: pool_chain_def)
      have use: "in_use {PBUF_POOL} ?S \<le> 20" using True pools by (simp add: memp_malloc_pool_def PBUF_POOL_SIZE_def)
      have len: "length (contents (numbered (length S0) ((os @ [?r]) @ [q]))) = length (contents (numbered (length S0) (os @ [r]))) + n"
        unfolding numbered_append [of _ "os @ [?r]"] contents_simps relinked_last
        using rem by (simp add: data_of_def q_def new_area_def size)
      have cnt: "in_use {PBUF_POOL} ?S + more_bufs (rem - n) = in_use {PBUF_POOL} S + more_bufs rem"
        using more_bufs_step [of rem] nz pools by (simp add: n_def)
      have "pool_chain (length S0) (rem - n) ((os @ [?r]) @ [q])" using chain by simp
      moreover have "rem - n < rem" "rem - n < 65536" and sum: "x + n + (rem - n) = x + rem" for x
        using rem less.prems(3) by simp_all
      ultimately show ?thesis using less.IH [OF _ refl _ _ use, of "rem - n"] unfolding step cnt len sum by blast
    qed
  qed
qed

section \<open>Allocation\<close>

definition head_room :: "pbuf_layer \<Rightarrow> nat" where
  "head_room layer = LWIP_MEM_ALIGN_SIZE (layer_offset layer)"

definition bufs_needed :: "pbuf_layer \<Rightarrow> nat \<Rightarrow> nat" where
  "bufs_needed layer n = Suc (more_bufs (n - min n (512 - head_room layer)))"

lemma head_room_simps [simp]:
  "head_room layer \<le> 56" "LWIP_MEM_ALIGN_SIZE (16 + layer_offset layer) = 16 + head_room layer"
  "SIZEOF_STRUCT_PBUF = 16" "PBUF_POOL_BUFSIZE_ALIGNED = 512"
  by (cases layer; simp add: head_room_def LWIP_MEM_ALIGN_SIZE_def SIZEOF_STRUCT_PBUF_def PBUF_POOL_BUFSIZE_ALIGNED_def)+

lemma alloc_pool:
  assumes use: "in_use {PBUF_POOL} S \<le> 20"
  shows "if in_use {PBUF_POOL} S + bufs_needed layer (unat n) \<le> 20
    then \<exists>os. pbuf_alloc E S layer n PBUF_POOL = Ok (Some (length S), S @ map Some os) \<and>
      pool_chain (length S) 0 os \<and> length (contents (numbered (length S) os)) = unat n
    else \<exists>k. pbuf_alloc E S layer n PBUF_POOL = Ok (None, S @ replicate k None)"
proof (cases "memp_malloc_pool S")
  case False
  then have "in_use {PBUF_POOL} S = 20" using use by (simp add: memp_malloc_pool_def PBUF_POOL_SIZE_def)
  moreover have "pbuf_alloc E S layer n PBUF_POOL = Ok (None, S @ replicate 0 None)"
    using False by (simp add: pbuf_alloc_def Let_def)
  moreover have "\<not> 20 + bufs_needed layer (unat n) \<le> 20" by (simp add: bufs_needed_def)
  ultimately show ?thesis by (simp only: if_False) blast
next
  case True
  define k where "k = min (unat n) (512 - head_room layer)"
  define q where "q = \<lparr>pb_next = None, payload = head_room layer, area = new_area E S 512, tot_len = n,
    len = word_of_nat k, pb_type = PBUF_POOL, custom = False, ref = 1\<rparr>"
  have n: "unat n < 65536" using unsigned_less [where 'a = nat, of n] by simp
  then have k: "unat (word_of_nat k :: u16) = k" "k \<le> unat n" "head_room layer + k \<le> 512"
    using le_trans [OF head_room_simps(1) [of layer], of 512] by (auto simp: unat_of_nat k_def)
  have pc: "pool_chain (length S) (unat n - k) ([] @ [q])"
    using k by (simp add: pool_chain_def pool_objs_def q_def sound_def new_area_def)
  have S: "in_use {PBUF_POOL} (S @ map Some ([] @ [q])) = Suc (in_use {PBUF_POOL} S)"
    by (simp add: in_use_append in_use_single q_def)
  have le: "in_use {PBUF_POOL} (S @ map Some ([] @ [q])) \<le> 20"
    using True unfolding S by (simp add: memp_malloc_pool_def PBUF_POOL_SIZE_def)
  have eq: "pbuf_alloc E S layer n PBUF_POOL =
      pool_tail E (S @ map Some ([] @ [q])) (length S) (length S + length ([] :: pbuf list)) (unat n - k)"
    using True by (simp add: pbuf_alloc_def Let_def k_def q_def head_room_def [symmetric] cong: pbuf.unfold_congs)
  have len: "length (contents (numbered (length S) ([] @ [q]))) = k"
    using k by (simp add: data_of_def q_def new_area_def)
  have cnt: "in_use {PBUF_POOL} (S @ map Some ([] @ [q])) + more_bufs (unat n - k) =
      in_use {PBUF_POOL} S + bufs_needed layer (unat n)"
    unfolding S by (simp add: bufs_needed_def k_def)
  have rest: "unat n - k < 65536" "k + (unat n - k) = unat n" using n k(2) by simp_all
  show ?thesis
    using pool_tail_run [OF refl pc rest(1) le, of E] unfolding eq cnt len rest(2) .
qed

lemma pool_packet:
  assumes "pool_chain (length S) 0 os"
  shows "packet (S @ map Some os) (Some (length S)) (numbered (length S) os)"
    and "\<forall>x \<in> set (numbered (length S) os). sole x"
  using assms linked_strung [of S os] numbered_set [of _ _ "length S" os]
  by (auto simp: pool_chain_def packet_def due_bytes_0 pool_objs_def sole_def)

text \<open>From the heap: the check for an overflow of the 16-bit size is exact.\<close>

lemma alloc_ram:
  "\<exists>q. pbuf_alloc E S layer n PBUF_RAM =
     (if 16 + head_room layer + LWIP_MEM_ALIGN_SIZE (unat n) < 65536 \<and>
         heap_room E S (word_of_nat (16 + head_room layer + LWIP_MEM_ALIGN_SIZE (unat n)))
      then Ok (Some (length S), S @ [Some q]) else Ok (None, S)) \<and>
     packet (S @ [Some q]) (Some (length S)) [(length S, q)] \<and> len q = n \<and> payload q = head_room layer \<and>
     pb_type q = PBUF_RAM \<and> ref q = 1"
proof -
  let ?total = "16 + head_room layer + LWIP_MEM_ALIGN_SIZE (unat n)"
  define q where "q = \<lparr>pb_next = None, payload = head_room layer, area = new_area E S (head_room layer + LWIP_MEM_ALIGN_SIZE (unat n)),
    tot_len = n, len = n, pb_type = PBUF_RAM, custom = False, ref = 1\<rparr>"
  have al: "unat n \<le> LWIP_MEM_ALIGN_SIZE (unat n)" "LWIP_MEM_ALIGN_SIZE (unat n) \<le> 65536"
    using unsigned_less [where 'a = nat, of n] by (simp_all add: LWIP_MEM_ALIGN_SIZE_def)
  have small: "unat (word_of_nat ?total :: u16) = ?total" if "?total < 65536"
    using that by (simp only: unat_of_nat) simp
  have big: "unat (word_of_nat ?total :: u16) < LWIP_MEM_ALIGN_SIZE (unat n)" if "\<not> ?total < 65536"
  proof -
    have "?total < 131072" using al(2) head_room_simps(1) [of layer] by linarith
    then have "?total mod 65536 = ?total - 65536" using that by (simp add: mod_if)
    then have "unat (word_of_nat ?total :: u16) = ?total - 65536" by (simp only: unat_of_nat) simp
    then show ?thesis using that head_room_simps(1) [of layer] by linarith
  qed
  have "pbuf_alloc E S layer n PBUF_RAM =
     (if ?total < 65536 \<and> heap_room E S (word_of_nat ?total) then Ok (Some (length S), S @ [Some q]) else Ok (None, S))"
  proof (cases "?total < 65536")
    case True
    then show ?thesis using small [OF True]
      by (simp add: pbuf_alloc_def Let_def q_def del: of_nat_add cong: pbuf.unfold_congs)
  next
    case False
    then show ?thesis using big [OF False] by (simp add: pbuf_alloc_def Let_def del: of_nat_add)
  qed
  moreover have "packet (S @ [Some q]) (Some (length S)) [(length S, q)]"
    using al(1) by (simp add: packet_Cons q_def sound_def new_area_def)
  ultimately show ?thesis by (intro exI [of _ q]) (simp add: q_def)
qed

end
