(* ===== verification/EchoServer.thy ===== *)
theory EchoServer
  imports LwipAlloc
begin

text \<open>
  The echo server of \<open>src/user/tcpecho_raw.c\<close>, on the packet buffers and the raw interface of TCP.
  The state is that of one connection: what \<open>tcp_arg\<close> was given (the structure, or \<open>None\<close> for
  NULL), whether the callbacks are set, the packet buffers of the whole stack, and the stack.
\<close>

section \<open>The program\<close>

datatype tcpecho_raw_states = ES_NONE | ES_ACCEPTED | ES_RECEIVED | ES_CLOSING

record tcpecho_raw_state =
  es_state :: tcpecho_raw_states
  retries :: u8
  es_pcb :: pcb
  es_p :: "nat option"

record 's echo =
  echo_arg :: "tcpecho_raw_state option"
  callbacks :: bool
  pbufs :: pbuf_store
  stack :: 's

definition tcpecho_raw_free :: "pbuf_store \<Rightarrow> tcpecho_raw_state option \<Rightarrow> pbuf_store outcome" where
  "tcpecho_raw_free S es =
     (case es of None \<Rightarrow> Ok S
      | Some e \<Rightarrow>
          if es_p e \<noteq> None then bind_outcome (pbuf_free S (es_p e)) (\<lambda>(count, S). Ok S) else Ok S)"

definition tcpecho_raw_close ::
  "'s tcp_api \<Rightarrow> pcb \<Rightarrow> tcpecho_raw_state option \<Rightarrow> 's echo \<Rightarrow> 's echo outcome" where
  "tcpecho_raw_close io tpcb es w =
     (let w = w\<lparr>echo_arg := None, callbacks := False\<rparr> in
      bind_outcome (tcpecho_raw_free (pbufs w) es) (\<lambda>S.
        Ok (w\<lparr>pbufs := S, stack := snd (tcp_close io (stack w) tpcb)\<rparr>)))"

text \<open>The loop of \<open>tcpecho_raw_send\<close>; on any error of \<open>tcp_write\<close> the buffer stays where it is.\<close>

partial_function (option) send_loop ::
  "'s tcp_api \<Rightarrow> pcb \<Rightarrow> nat option \<Rightarrow> pbuf_store \<Rightarrow> 's \<Rightarrow> (nat option \<times> pbuf_store \<times> 's) outcome option" where
  "send_loop io tpcb p S s =
     (if p = None then Some (Ok (p, S, s))
      else case deref S p of Halt h \<Rightarrow> Some (Halt h)
      | Ok q \<Rightarrow>
          if len q \<le> tcp_sndbuf io s tpcb then
            (case read_pbuf q 0 (unat (len q)) of Halt h \<Rightarrow> Some (Halt h)
             | Ok data \<Rightarrow>
                 (case tcp_write io s tpcb data False of (wr_err, s) \<Rightarrow>
                    if wr_err = ERR_OK then
                      (case bind_outcome (pbuf_ref S (pb_next q)) (\<lambda>S. pbuf_free S p) of Halt h \<Rightarrow> Some (Halt h)
                       | Ok (count, S) \<Rightarrow> send_loop io tpcb (pb_next q) S (tcp_recved io s tpcb (len q)))
                    else Some (Ok (p, S, s))))
          else Some (Ok (p, S, s)))"

definition tcpecho_raw_send :: "'s tcp_api \<Rightarrow> pcb \<Rightarrow> tcpecho_raw_state \<Rightarrow> 's echo \<Rightarrow> (tcpecho_raw_state \<times> 's echo) outcome" where
  "tcpecho_raw_send io tpcb e w =
     bind_outcome (loop_result (send_loop io tpcb (es_p e) (pbufs w) (stack w))) (\<lambda>(p, S, s).
       let e = e\<lparr>es_p := p\<rparr> in Ok (e, w\<lparr>echo_arg := Some e, pbufs := S, stack := s\<rparr>))"

definition tcpecho_raw_error :: "'s echo \<Rightarrow> 's echo outcome" where
  "tcpecho_raw_error w =
     bind_outcome (tcpecho_raw_free (pbufs w) (echo_arg w)) (\<lambda>S. Ok (w\<lparr>echo_arg := None, pbufs := S\<rparr>))"

definition banner_line :: "u8 list" where
  "banner_line = map (\<lambda>c. of_char c) ''Explorer STM32F407 TCP Server send data'' @ [13, 10]"

definition tcp_server_sendbuf :: "u8 list" where
  "tcp_server_sendbuf = concat (replicate 6 banner_line)"

definition tcpecho_raw_poll :: "'s tcp_api \<Rightarrow> mem_env \<Rightarrow> pcb \<Rightarrow> 's echo \<Rightarrow> (err_t \<times> 's echo) outcome" where
  "tcpecho_raw_poll io E tpcb w =
     (case echo_arg w of None \<Rightarrow> Ok (ERR_ABRT, w\<lparr>stack := tcp_abort io (stack w) tpcb\<rparr>)
      | Some e \<Rightarrow>
          bind_outcome (pbuf_alloc E (pbufs w) PBUF_TRANSPORT (word_of_nat (length tcp_server_sendbuf)) PBUF_POOL) (\<lambda>(p, S).
          bind_outcome (pbuf_take S p tcp_server_sendbuf (word_of_nat (length tcp_server_sendbuf))) (\<lambda>(err, S).
          bind_outcome (tcpecho_raw_send io tpcb (e\<lparr>es_p := p\<rparr>) (w\<lparr>pbufs := S\<rparr>)) (\<lambda>(e, w).
          bind_outcome (if es_p e \<noteq> None then pbuf_free (pbufs w) (es_p e) else Ok (0, pbufs w)) (\<lambda>(count, S).
            let w = w\<lparr>pbufs := S\<rparr> in
            if es_state e = ES_CLOSING
            then bind_outcome (tcpecho_raw_close io tpcb (Some e) w) (\<lambda>w. Ok (ERR_OK, w))
            else Ok (ERR_OK, w))))))"

definition tcpecho_raw_sent :: "'s tcp_api \<Rightarrow> pcb \<Rightarrow> 's echo \<Rightarrow> (err_t \<times> 's echo) outcome" where
  "tcpecho_raw_sent io tpcb w =
     (case echo_arg w of None \<Rightarrow> Halt NullDeref
      | Some e \<Rightarrow>
          let e = e\<lparr>retries := 0\<rparr>; w = w\<lparr>echo_arg := Some e\<rparr> in
          if es_p e \<noteq> None then bind_outcome (tcpecho_raw_send io tpcb e w) (\<lambda>(e, w). Ok (ERR_OK, w))
          else if es_state e = ES_CLOSING then bind_outcome (tcpecho_raw_close io tpcb (Some e) w) (\<lambda>w. Ok (ERR_OK, w))
          else Ok (ERR_OK, w))"

definition tcpecho_raw_recv ::
  "'s tcp_api \<Rightarrow> pcb \<Rightarrow> nat option \<Rightarrow> err_t \<Rightarrow> 's echo \<Rightarrow> (err_t \<times> 's echo) outcome" where
  "tcpecho_raw_recv io tpcb p err w =
     (if p = None then
        (case echo_arg w of None \<Rightarrow> Halt NullDeref
         | Some e \<Rightarrow>
             let e = e\<lparr>es_state := ES_CLOSING\<rparr>; w = w\<lparr>echo_arg := Some e\<rparr> in
             if es_p e = None then bind_outcome (tcpecho_raw_close io tpcb (Some e) w) (\<lambda>w. Ok (ERR_OK, w))
             else bind_outcome (tcpecho_raw_send io tpcb e w) (\<lambda>(e, w). Ok (ERR_OK, w)))
      else if err \<noteq> ERR_OK then bind_outcome (pbuf_free (pbufs w) p) (\<lambda>(count, S). Ok (err, w\<lparr>pbufs := S\<rparr>))
      else
        (case echo_arg w of None \<Rightarrow> Halt NullDeref
         | Some e \<Rightarrow>
             (case es_state e of
                ES_ACCEPTED \<Rightarrow>
                  bind_outcome (tcpecho_raw_send io tpcb (e\<lparr>es_state := ES_RECEIVED, es_p := p\<rparr>) w) (\<lambda>(e, w). Ok (ERR_OK, w))
              | ES_RECEIVED \<Rightarrow>
                  if es_p e = None
                  then bind_outcome (tcpecho_raw_send io tpcb (e\<lparr>es_p := p\<rparr>) w) (\<lambda>(e, w). Ok (ERR_OK, w))
                  else bind_outcome (pbuf_cat (pbufs w) (es_p e) p) (\<lambda>S. Ok (ERR_OK, w\<lparr>pbufs := S\<rparr>))
              | _ \<Rightarrow>
                  bind_outcome (deref (pbufs w) p) (\<lambda>q.
                  bind_outcome (pbuf_free (pbufs w) p) (\<lambda>(count, S).
                    Ok (ERR_OK, w\<lparr>pbufs := S, stack := tcp_recved io (stack w) tpcb (tot_len q)\<rparr>))))))"

text \<open>\<open>mem\<close> says whether the heap has room for the structure.\<close>

definition tcpecho_raw_accept :: "bool \<Rightarrow> pcb option \<Rightarrow> err_t \<Rightarrow> 's echo \<Rightarrow> err_t \<times> 's echo" where
  "tcpecho_raw_accept mem newpcb err w =
     (case newpcb of None \<Rightarrow> (ERR_VAL, w)
      | Some n \<Rightarrow>
          if err \<noteq> ERR_OK then (ERR_VAL, w)
          else if mem then
            (ERR_OK, w\<lparr>echo_arg := Some \<lparr>es_state = ES_ACCEPTED, retries = 0, es_pcb = n, es_p = None\<rparr>, callbacks := True\<rparr>)
          else (ERR_MEM, w))"

text \<open>\<open>listen\<close> stands for \<open>tcp_listen\<close>. When the port cannot be bound the control block is kept.\<close>

definition tcpecho_raw_init :: "'s tcp_api \<Rightarrow> ('s \<Rightarrow> pcb \<Rightarrow> pcb option \<times> 's) \<Rightarrow> 's \<Rightarrow> pcb option \<times> bool \<times> 's" where
  "tcpecho_raw_init io listen s =
     (case tcp_new io s of
        (None, s) \<Rightarrow> (None, False, s)
      | (Some p, s) \<Rightarrow>
          (case tcp_bind io s p of (err, s) \<Rightarrow>
             if err = ERR_OK then (case listen s p of (l, s) \<Rightarrow> (l, l \<noteq> None, s))
             else (Some p, False, s)))"

section \<open>Sending what is pending\<close>

text \<open>
  Beyond \<open>tcp_stream_law\<close>: opening the receive window and closing leave what was queued alone.
\<close>

definition echo_law :: "'s tcp_api \<Rightarrow> ('s \<Rightarrow> pcb \<Rightarrow> u8 list) \<Rightarrow> bool" where
  "echo_law io stream \<longleftrightarrow> tcp_stream_law io stream \<and>
     (\<forall>s p n. stream (tcp_recved io s p n) p = stream s p) \<and> (\<forall>s p. stream (snd (tcp_close io s p)) p = stream s p)"

definition owned :: "pbuf_store \<Rightarrow> nat option \<Rightarrow> chunks \<Rightarrow> bool" where
  "owned S p qs \<longleftrightarrow> packet S p qs \<and> (\<forall>x \<in> set qs. sole x)"

lemma chop_first:
  assumes "owned S (Some n) ((n, q) # qs)"
  shows "bind_outcome (pbuf_ref S (pb_next q)) (\<lambda>S. pbuf_free S (Some n)) = Ok (1, S[n := None])"
    and "owned (S[n := None]) (pb_next q) qs"
proof -
  note pk = assms [unfolded owned_def packet_Cons]
  show "owned (S[n := None]) (pb_next q) qs" using pk by (simp add: owned_def packet_def)
  show "bind_outcome (pbuf_ref S (pb_next q)) (\<lambda>S. pbuf_free S (Some n)) = Ok (1, S[n := None])"
  proof (cases qs)
    case Nil
    then have "linked S (Some n) [(n, q)]" "pb_next q = None" "sole (n, q)" using pk by (simp_all add: packet_def)
    then show ?thesis using free_packet [of S "Some n" "[(n, q)]"] by (simp add: pbuf_ref_def dropped_def)
  next
    case (Cons y rs)
    obtain m r where y: "y = (m, r)" by fastforce
    let ?r = "r\<lparr>ref := ref r + 1\<rparr>"
    have h: "pb_next q = Some m" "m < length S" "S ! m = Some r" "n \<noteq> m" "ref r = 1" "ref q = 1" "m \<notin> addrs rs"
      "linked S (pb_next r) rs" "n \<notin> addrs rs" "n < length S" "S ! n = Some q"
      using pk by (auto simp: Cons y packet_def sole_def)
    have "linked (S[m := Some ?r]) (Some n) ((n, q) # (m, ?r) # rs)" using h by simp
    from free_packet [OF this] have "pbuf_free (S[m := Some ?r]) (Some n) = Ok (1, S[m := Some ?r, n := None, m := Some (?r\<lparr>ref := ref ?r - 1\<rparr>)])"
      using h(5,6) by (simp add: sole_def dropped_def)
    moreover have "r\<lparr>ref := 1\<rparr> = r" using h(5) by (cases r) simp
    moreover have "S[m := Some ?r, n := None, m := Some r] = S[n := None]"
      using h(3,4) by (metis list_update_id list_update_overwrite list_update_swap)
    ultimately show ?thesis using h by (simp add: pbuf_ref_def)
  qed
qed

lemma send_loop_owned:
  assumes "owned S p qs" and law: "echo_law io stream"
  shows "\<exists>k p' s'. send_loop io tpcb p S s = Some (Ok (p', release_all S (take k qs), s')) \<and>
    owned (release_all S (take k qs)) p' (drop k qs) \<and> stream s' tpcb = stream s tpcb @ contents (take k qs)"
  using assms(1)
proof (induction qs arbitrary: S p s)
  case Nil
  then show ?case by (intro exI [of _ 0]) (simp add: owned_def send_loop.simps)
next
  case (Cons x qs)
  obtain n q where x: "x = (n, q)" by fastforce
  have p: "p = Some n" and pk: "n < length S" "S ! n = Some q" "sound q" using Cons.prems by (simp_all add: x owned_def packet_Cons)
  have stop: ?case if "send_loop io tpcb p S s = Some (Ok (p, S, s'))" "stream s' tpcb = stream s tpcb" for s'
    using that Cons.prems by (intro exI [of _ 0]) simp
  show ?case
  proof (cases "len q \<le> tcp_sndbuf io s tpcb")
    case False
    then show ?thesis using pk p by (intro stop [of s]) (subst send_loop.simps, simp_all)
  next
    case True
    obtain e s1 where w: "tcp_write io s tpcb (data_of q) False = (e, s1)" by fastforce
    have rd: "read_pbuf q 0 (unat (len q)) = Ok (data_of q)" using read_sound [OF pk(3), of 0 "unat (len q)"] pk(3) by simp
    have st: "stream s1 tpcb = (if e = ERR_OK then stream s tpcb @ data_of q else stream s tpcb)"
      using law w unfolding echo_law_def tcp_stream_law_def by blast
    show ?thesis
    proof (cases "e = ERR_OK")
      case False
      then show ?thesis using True pk p rd w st by (intro stop [of s1]) (subst send_loop.simps, simp_all)
    next
      case ok: True
      note chop = chop_first [OF Cons.prems [unfolded x p]]
      let ?s2 = "tcp_recved io s1 tpcb (len q)"
      have step: "send_loop io tpcb p S s = send_loop io tpcb (pb_next q) (S[n := None]) ?s2"
        using True pk p rd w ok chop(1) by (subst send_loop.simps) simp
      have s2: "stream ?s2 tpcb = stream s tpcb @ data_of q" using st ok law by (simp add: echo_law_def)
      from Cons.IH [OF chop(2), of ?s2] obtain k p' s' where
        "send_loop io tpcb p S s = Some (Ok (p', release_all (S[n := None]) (take k qs), s'))"
        "owned (release_all (S[n := None]) (take k qs)) p' (drop k qs)"
        "stream s' tpcb = stream s tpcb @ data_of q @ contents (take k qs)"
        unfolding step s2 append_assoc by blast
      then show ?thesis by (intro exI [of _ "Suc k"]) (simp add: x)
    qed
  qed
qed

section \<open>The callbacks\<close>

lemma release_frame: "m \<notin> addrs qs \<Longrightarrow> release_all S (take k qs) ! m = S ! m"
  by (rule release_all_other) (auto dest: in_set_takeD)

lemma owned_disjoint_release: "addrs qs \<inter> addrs fs = {} \<Longrightarrow> owned S p fs \<Longrightarrow> owned (release_all S qs) p fs"
proof (induction qs arbitrary: S)
  case (Cons x qs)
  then show ?case by (cases x) (auto simp: owned_def packet_def)
qed simp

text \<open>
  \<open>handed\<close>: after a callback the structure holds the rest of the bytes that were to be echoed, the
  others were given to TCP, their buffers were given back, and no other buffer was touched.
\<close>

definition handed ::
  "('s \<Rightarrow> pcb \<Rightarrow> u8 list) \<Rightarrow> pcb \<Rightarrow> 's echo \<Rightarrow> chunks \<Rightarrow> tcpecho_raw_states \<Rightarrow> 's echo \<Rightarrow> bool" where
  "handed stream tpcb w qs st w' \<longleftrightarrow>
     (\<exists>e qs'. echo_arg w' = Some e \<and> es_state e = st \<and> callbacks w' = callbacks w \<and> owned (pbufs w') (es_p e) qs' \<and>
        stream (stack w') tpcb @ contents qs' = stream (stack w) tpcb @ contents qs \<and>
        addrs qs' \<subseteq> addrs qs \<and> (\<forall>m \<in> addrs qs - addrs qs'. pbufs w' ! m = None) \<and>
        (\<forall>m. m \<notin> addrs qs \<longrightarrow> pbufs w' ! m = pbufs w ! m))"

lemma send_hands:
  assumes own: "owned (pbufs w) (es_p e) qs" and law: "echo_law io stream"
  shows "\<exists>e' w'. tcpecho_raw_send io tpcb e w = Ok (e', w') \<and> handed stream tpcb w qs (es_state e) w'"
proof -
  from send_loop_owned [OF own law, of tpcb "stack w"] obtain k p' s' where
    h: "send_loop io tpcb (es_p e) (pbufs w) (stack w) = Some (Ok (p', release_all (pbufs w) (take k qs), s'))"
    "owned (release_all (pbufs w) (take k qs)) p' (drop k qs)" "stream s' tpcb = stream (stack w) tpcb @ contents (take k qs)"
    by blast
  let ?e = "e\<lparr>es_p := p'\<rparr>" and ?w = "w\<lparr>echo_arg := Some (e\<lparr>es_p := p'\<rparr>), pbufs := release_all (pbufs w) (take k qs), stack := s'\<rparr>"
  have c: "contents (take k qs) @ contents (drop k qs) = contents qs"
    by (metis append_take_drop_id contents_simps(3))
  have "release_all (pbufs w) (take k qs) ! m = None" if "m \<in> addrs qs - addrs (drop k qs)" for m
  proof -
    have "m \<in> addrs (take k qs)" using that by (metis Diff_iff Un_iff append_take_drop_id image_Un set_append)
    moreover have "m < length (pbufs w)" using that linked_live [of "pbufs w" "es_p e" qs] own by (auto simp: owned_def packet_def)
    ultimately show ?thesis by (simp add: release_all_nth)
  qed
  then have "handed stream tpcb w qs (es_state e) ?w"
    using h(2,3) c set_drop_subset [of k qs] unfolding handed_def
    by (intro exI [of _ ?e] exI [of _ "drop k qs"]) (auto simp: release_frame)
  moreover have "tcpecho_raw_send io tpcb e w = Ok (?e, ?w)"
    using h(1) by (simp add: tcpecho_raw_send_def loop_result_def Let_def)
  ultimately show ?thesis by blast
qed

lemma owned_cat:
  assumes "owned S h qs" and "owned S t ts" and "qs \<noteq> []" "ts \<noteq> []" and "addrs qs \<inter> addrs ts = {}"
    and "length (contents qs) + length (contents ts) < 65536"
  shows "\<exists>S' qs'. pbuf_cat S h t = Ok S' \<and> owned S' h qs' \<and> contents qs' = contents qs @ contents ts \<and>
    addrs qs' = addrs qs \<union> addrs ts \<and> (\<forall>m. m \<notin> addrs qs \<longrightarrow> S' ! m = S ! m)"
proof -
  let ?g = "grown (word_of_nat (length (contents ts))) t qs"
  have "sole x" if "x \<in> set (grown k t qs)" "\<forall>x \<in> set qs. sole x" for x k qs
    using that by (induction k t qs rule: grown.induct) (auto simp: sole_def)
  then have "owned (set_all S ?g) h (?g @ ts)"
    using cat_packet(2) [of S h qs t ts] assms by (auto simp: owned_def)
  with cat_packet(1) [of S h qs t ts] assms show ?thesis
    by (intro exI [of _ "set_all S ?g"] exI [of _ "?g @ ts"]) (auto simp: owned_def image_Un set_all_other simp del: set_map)
qed

lemma free_owned: "owned S p qs \<Longrightarrow> pbuf_free S p = Ok (word_of_nat (length qs), release_all S qs)"
  using free_packet [of S p qs]
  by (simp add: owned_def packet_def dropped_sole takeWhile_eq_all_conv [THEN iffD2])

lemma handed_weaken:
  "handed stream tpcb w0 qs st w' \<Longrightarrow> pbufs w0 = pbufs w \<Longrightarrow> stack w0 = stack w \<Longrightarrow> callbacks w0 = callbacks w \<Longrightarrow>
   handed stream tpcb w qs st w'"
  by (simp add: handed_def)

lemma recv_hands:
  assumes law: "echo_law io stream" and arg: "echo_arg w = Some e" and st: "es_state e \<in> {ES_ACCEPTED, ES_RECEIVED}"
    and acc: "es_state e = ES_ACCEPTED \<Longrightarrow> es_p e = None" and own: "owned (pbufs w) (es_p e) qs"
    and new: "owned (pbufs w) p fs" "fs \<noteq> []" and disj: "addrs qs \<inter> addrs fs = {}"
    and small: "length (contents qs) + length (contents fs) < 65536"
  shows "\<exists>w'. tcpecho_raw_recv io tpcb p ERR_OK w = Ok (ERR_OK, w') \<and> handed stream tpcb w (qs @ fs) ES_RECEIVED w'"
proof -
  have p: "p \<noteq> None" using new by (cases fs) (auto simp: owned_def packet_def)
  show ?thesis
  proof (cases "es_p e = None")
    case True
    then have qs: "qs = []" using own by (cases qs) (auto simp: owned_def packet_def)
    have send: "\<exists>e'' w'. tcpecho_raw_send io tpcb e' w = Ok (e'', w') \<and> handed stream tpcb w fs (es_state e') w'"
      if "es_p e' = p" for e'
      using send_hands [of w e' fs io stream tpcb] that new(1) law by simp
    from st consider "es_state e = ES_ACCEPTED" | "es_state e = ES_RECEIVED" by blast
    then show ?thesis
    proof cases
      case 1
      then show ?thesis using p arg qs send [of "e\<lparr>es_state := ES_RECEIVED, es_p := p\<rparr>"] by (auto simp: tcpecho_raw_recv_def)
    next
      case 2
      then show ?thesis using p arg qs True send [of "e\<lparr>es_p := p\<rparr>"] by (auto simp: tcpecho_raw_recv_def)
    qed
  next
    case False
    then have "qs \<noteq> []" using own by (auto simp: owned_def)
    from owned_cat [OF own new(1) this new(2) disj small] obtain S' qs' where
      h: "pbuf_cat (pbufs w) (es_p e) p = Ok S'" "owned S' (es_p e) qs'" "contents qs' = contents qs @ contents fs"
      "addrs qs' = addrs qs \<union> addrs fs" "\<forall>m. m \<notin> addrs qs \<longrightarrow> S' ! m = pbufs w ! m" by blast
    have "es_state e = ES_RECEIVED" using st acc False by auto
    moreover from this have "handed stream tpcb w (qs @ fs) ES_RECEIVED (w\<lparr>pbufs := S'\<rparr>)"
      unfolding handed_def using arg h(2-5) by (intro exI [of _ e] exI [of _ qs']) (auto simp: image_Un)
    ultimately show ?thesis using p arg False h(1) by (auto simp: tcpecho_raw_recv_def)
  qed
qed

text \<open>A connection is closed only when nothing is pending.\<close>

definition closed :: "('s \<Rightarrow> pcb \<Rightarrow> u8 list) \<Rightarrow> pcb \<Rightarrow> 's echo \<Rightarrow> 's echo \<Rightarrow> bool" where
  "closed stream tpcb w w' \<longleftrightarrow> echo_arg w' = None \<and> \<not> callbacks w' \<and> pbufs w' = pbufs w \<and>
     stream (stack w') tpcb = stream (stack w) tpcb"

lemma close_closes:
  assumes "echo_law io stream" and "es_p e = None"
  shows "\<exists>w'. tcpecho_raw_close io tpcb (Some e) w = Ok w' \<and> closed stream tpcb w w'"
  using assms by (simp add: tcpecho_raw_close_def tcpecho_raw_free_def closed_def echo_law_def)

lemma sent_hands:
  assumes law: "echo_law io stream" and arg: "echo_arg w = Some e" and own: "owned (pbufs w) (es_p e) qs"
  shows "\<exists>w'. tcpecho_raw_sent io tpcb w = Ok (ERR_OK, w') \<and>
    (handed stream tpcb w qs (es_state e) w' \<or> qs = [] \<and> es_state e = ES_CLOSING \<and> closed stream tpcb w w')"
proof -
  let ?e = "e\<lparr>retries := 0\<rparr>" and ?w = "w\<lparr>echo_arg := Some (e\<lparr>retries := 0\<rparr>)\<rparr>"
  show ?thesis
  proof (cases "es_p e = None")
    case False
    then show ?thesis
      using send_hands [of ?w ?e qs io stream tpcb] own law arg handed_weaken [of stream tpcb ?w qs "es_state e" _ w]
      by (auto simp: tcpecho_raw_sent_def Let_def)
  next
    case True
    then have qs: "qs = []" using own by (cases qs) (auto simp: owned_def packet_def)
    show ?thesis
    proof (cases "es_state e = ES_CLOSING")
      case closing: True
      with close_closes [OF law, of ?e tpcb ?w] True qs arg show ?thesis
        by (auto simp: tcpecho_raw_sent_def Let_def closed_def)
    next
      case False
      then have "handed stream tpcb w qs (es_state e) ?w"
        using own qs unfolding handed_def by (intro exI [of _ ?e] exI [of _ "[]"]) (simp add: True)
      with False True arg show ?thesis by (simp add: tcpecho_raw_sent_def Let_def)
    qed
  qed
qed

lemma fin_hands:
  assumes law: "echo_law io stream" and arg: "echo_arg w = Some e" and own: "owned (pbufs w) (es_p e) qs"
  shows "\<exists>w'. tcpecho_raw_recv io tpcb None err w = Ok (ERR_OK, w') \<and>
    (handed stream tpcb w qs ES_CLOSING w' \<or> qs = [] \<and> closed stream tpcb w w')"
proof -
  let ?e = "e\<lparr>es_state := ES_CLOSING\<rparr>" and ?w = "w\<lparr>echo_arg := Some (e\<lparr>es_state := ES_CLOSING\<rparr>)\<rparr>"
  show ?thesis
  proof (cases "es_p e = None")
    case True
    then have "qs = []" using own by (cases qs) (auto simp: owned_def packet_def)
    with close_closes [OF law, of ?e tpcb ?w] True arg show ?thesis
      by (auto simp: tcpecho_raw_recv_def Let_def closed_def)
  next
    case False
    then show ?thesis
      using send_hands [of ?w ?e qs io stream tpcb] own law arg handed_weaken [of stream tpcb ?w qs ES_CLOSING _ w]
      by (auto simp: tcpecho_raw_recv_def Let_def)
  qed
qed

section \<open>A connection at work\<close>

text \<open>
  The events of a connection between accept and close, with the bytes that the server has to have
  echoed by then as a ghost: data, the end of the peer's data, data with an error, acknowledgements,
  the work of the stack, and that of other connections on their own packet buffers. The poll
  callback is left out. A packet that arrives is new, belongs to the receiver alone and is kept in
  bounds by the receive window. Data behind the end of the peer's data is thrown away.
\<close>

definition arrives :: "pbuf_store \<Rightarrow> nat option \<Rightarrow> chunks \<Rightarrow> pbuf_store \<Rightarrow> bool" where
  "arrives S p fs S' \<longleftrightarrow> (\<exists>os. S' = S @ os) \<and> owned S' p fs \<and> fs \<noteq> [] \<and> (\<forall>m \<in> addrs fs. length S \<le> m)"

definition pending :: "'s echo \<Rightarrow> chunks \<Rightarrow> bool" where
  "pending w qs \<longleftrightarrow> (case echo_arg w of None \<Rightarrow> qs = [] | Some e \<Rightarrow> owned (pbufs w) (es_p e) qs)"

definition closing :: "'s echo \<Rightarrow> bool" where
  "closing w \<longleftrightarrow> (case echo_arg w of None \<Rightarrow> True | Some e \<Rightarrow> es_state e \<notin> {ES_ACCEPTED, ES_RECEIVED})"

definition in_window :: "'s echo \<Rightarrow> chunks \<Rightarrow> bool" where
  "in_window w fs \<longleftrightarrow> (\<forall>qs. pending w qs \<longrightarrow> length (contents qs) + length (contents fs) < 65536)"

inductive echo_run :: "'s tcp_api \<Rightarrow> ('s \<Rightarrow> pcb \<Rightarrow> u8 list) \<Rightarrow> pcb \<Rightarrow> 's echo \<Rightarrow> u8 list \<Rightarrow> bool"
  for io stream tpcb where
  Accept: "tcpecho_raw_accept True (Some tpcb) ERR_OK w = (ERR_OK, w') \<Longrightarrow>
    echo_run io stream tpcb w' (stream (stack w) tpcb)"
| Data: "echo_run io stream tpcb w got \<Longrightarrow> callbacks w \<Longrightarrow> arrives (pbufs w) p fs S \<Longrightarrow> in_window w fs \<Longrightarrow>
    tcpecho_raw_recv io tpcb p ERR_OK (w\<lparr>pbufs := S\<rparr>) = Ok (e, w') \<Longrightarrow>
    echo_run io stream tpcb w' (if closing w then got else got @ contents fs)"
| End: "echo_run io stream tpcb w got \<Longrightarrow> callbacks w \<Longrightarrow> tcpecho_raw_recv io tpcb None err w = Ok (e, w') \<Longrightarrow>
    echo_run io stream tpcb w' got"
| Bad_data: "echo_run io stream tpcb w got \<Longrightarrow> callbacks w \<Longrightarrow> arrives (pbufs w) p fs S \<Longrightarrow> err \<noteq> ERR_OK \<Longrightarrow>
    tcpecho_raw_recv io tpcb p err (w\<lparr>pbufs := S\<rparr>) = Ok (e, w') \<Longrightarrow> echo_run io stream tpcb w' got"
| Sent: "echo_run io stream tpcb w got \<Longrightarrow> callbacks w \<Longrightarrow> tcpecho_raw_sent io tpcb w = Ok (e, w') \<Longrightarrow>
    echo_run io stream tpcb w' got"
| Stack: "echo_run io stream tpcb w got \<Longrightarrow> stream s tpcb = stream (stack w) tpcb \<Longrightarrow>
    echo_run io stream tpcb (w\<lparr>stack := s\<rparr>) got"
| Others: "echo_run io stream tpcb w got \<Longrightarrow> (\<And>qs. pending w qs \<Longrightarrow> pending (w\<lparr>pbufs := S\<rparr>) qs) \<Longrightarrow>
    echo_run io stream tpcb (w\<lparr>pbufs := S\<rparr>) got"

definition echo_inv :: "('s \<Rightarrow> pcb \<Rightarrow> u8 list) \<Rightarrow> pcb \<Rightarrow> 's echo \<Rightarrow> u8 list \<Rightarrow> bool" where
  "echo_inv stream tpcb w got \<longleftrightarrow>
     (\<exists>qs. pending w qs \<and> stream (stack w) tpcb @ contents qs = got) \<and>
     (callbacks w \<longleftrightarrow> echo_arg w \<noteq> None) \<and>
     (\<forall>e. echo_arg w = Some e \<longrightarrow> es_state e \<noteq> ES_NONE \<and> (es_state e = ES_ACCEPTED \<longrightarrow> es_p e = None))"

lemma handed_inv:
  assumes "handed stream tpcb w qs st w'" and "callbacks w" and "st \<in> {ES_RECEIVED, ES_CLOSING}"
  shows "echo_inv stream tpcb w' (stream (stack w) tpcb @ contents qs)"
  using assms by (fastforce simp: handed_def echo_inv_def pending_def)

lemma closed_inv: "closed stream tpcb w w' \<Longrightarrow> echo_inv stream tpcb w' (stream (stack w) tpcb)"
  by (simp add: closed_def echo_inv_def pending_def)

lemma owned_append: "owned S p qs \<Longrightarrow> owned (S @ os) p qs"
  by (simp add: owned_def packet_def linked_append)

text \<open>Each event is handled, and the invariant holds afterwards.\<close>

lemma echo_data:
  assumes law: "echo_law io stream" and inv: "echo_inv stream tpcb w got" and cb: "callbacks w"
    and arr: "arrives (pbufs w) p fs S" and win: "in_window w fs"
  shows "\<exists>w'. tcpecho_raw_recv io tpcb p ERR_OK (w\<lparr>pbufs := S\<rparr>) = Ok (ERR_OK, w') \<and>
    echo_inv stream tpcb w' (if closing w then got else got @ contents fs)"
proof -
  from inv cb obtain e qs where e: "echo_arg w = Some e" "owned (pbufs w) (es_p e) qs"
    "stream (stack w) tpcb @ contents qs = got" "es_state e \<noteq> ES_NONE" "es_state e = ES_ACCEPTED \<longrightarrow> es_p e = None"
    by (auto simp: echo_inv_def pending_def)
  obtain os where S: "S = pbufs w @ os" and new: "owned S p fs" "fs \<noteq> []" "\<forall>m \<in> addrs fs. length (pbufs w) \<le> m"
    using arr by (auto simp: arrives_def)
  have own: "owned S (es_p e) qs" using owned_append [OF e(2)] by (simp add: S)
  have disj: "addrs qs \<inter> addrs fs = {}"
    using new(3) linked_live [of "pbufs w" "es_p e" qs] e(2) by (fastforce simp: owned_def packet_def)
  let ?w = "w\<lparr>pbufs := S\<rparr>"
  show ?thesis
  proof (cases "es_state e \<in> {ES_ACCEPTED, ES_RECEIVED}")
    case True
    have small: "length (contents qs) + length (contents fs) < 65536" using win e(1,2) by (simp add: in_window_def pending_def)
    have "\<exists>w'. tcpecho_raw_recv io tpcb p ERR_OK ?w = Ok (ERR_OK, w') \<and> handed stream tpcb ?w (qs @ fs) ES_RECEIVED w'"
      by (rule recv_hands [OF law, of _ e]) (use e own new disj small True in simp_all)
    then obtain w' where
      w': "tcpecho_raw_recv io tpcb p ERR_OK ?w = Ok (ERR_OK, w')" "handed stream tpcb ?w (qs @ fs) ES_RECEIVED w'" by blast
    from handed_inv [OF w'(2)] cb e(3) have "echo_inv stream tpcb w' (got @ contents fs)" by auto
    with w'(1) True e(1) show ?thesis by (simp add: closing_def)
  next
    case False
    then have st: "es_state e = ES_CLOSING" using e(4) by (cases "es_state e") auto
    obtain n q rest where fs: "fs = (n, q) # rest" using new(2) by (cases fs) auto
    have p: "p = Some n" "deref S p = Ok q" using new(1) by (auto simp: fs owned_def packet_Cons)
    let ?w' = "?w\<lparr>pbufs := release_all S fs, stack := tcp_recved io (stack w) tpcb (tot_len q)\<rparr>"
    have "tcpecho_raw_recv io tpcb p ERR_OK ?w = Ok (ERR_OK, ?w')"
      using p st e(1) free_owned [OF new(1)] by (simp add: tcpecho_raw_recv_def)
    moreover have "echo_inv stream tpcb ?w' got"
    proof -
      have "owned (release_all S fs) (es_p e) qs" using disj own by (intro owned_disjoint_release) auto
      moreover have "stream (tcp_recved io (stack w) tpcb (tot_len q)) tpcb = stream (stack w) tpcb"
        using law by (simp add: echo_law_def)
      ultimately show ?thesis using e(1,3-5) cb by (auto simp: echo_inv_def pending_def)
    qed
    ultimately show ?thesis using False e(1) by (auto simp: closing_def)
  qed
qed

lemma echo_end:
  assumes law: "echo_law io stream" and inv: "echo_inv stream tpcb w got" and cb: "callbacks w"
  shows "\<exists>w'. tcpecho_raw_recv io tpcb None err w = Ok (ERR_OK, w') \<and> echo_inv stream tpcb w' got"
proof -
  from inv cb obtain e qs where e: "echo_arg w = Some e" "owned (pbufs w) (es_p e) qs" "stream (stack w) tpcb @ contents qs = got"
    by (auto simp: echo_inv_def pending_def)
  from fin_hands [OF law e(1,2), of tpcb err] obtain w' where
    "tcpecho_raw_recv io tpcb None err w = Ok (ERR_OK, w')"
    "handed stream tpcb w qs ES_CLOSING w' \<or> qs = [] \<and> closed stream tpcb w w'" by blast
  then show ?thesis using handed_inv [of stream tpcb w qs ES_CLOSING w'] closed_inv [of stream tpcb w w'] cb e(3) by auto
qed

lemma echo_sent:
  assumes law: "echo_law io stream" and inv: "echo_inv stream tpcb w got" and cb: "callbacks w"
  shows "\<exists>w'. tcpecho_raw_sent io tpcb w = Ok (ERR_OK, w') \<and> echo_inv stream tpcb w' got"
proof -
  from inv cb obtain e qs where e: "echo_arg w = Some e" "owned (pbufs w) (es_p e) qs"
    "stream (stack w) tpcb @ contents qs = got" "es_state e \<noteq> ES_NONE" "es_state e = ES_ACCEPTED \<longrightarrow> es_p e = None"
    by (auto simp: echo_inv_def pending_def)
  from sent_hands [OF law e(1,2), of tpcb] obtain w' where
    w': "tcpecho_raw_sent io tpcb w = Ok (ERR_OK, w')"
    "handed stream tpcb w qs (es_state e) w' \<or> qs = [] \<and> es_state e = ES_CLOSING \<and> closed stream tpcb w w'" by blast
  have "echo_inv stream tpcb w' got" if "es_state e = ES_ACCEPTED"
  proof -
    have "tcpecho_raw_sent io tpcb w = Ok (ERR_OK, w\<lparr>echo_arg := Some (e\<lparr>retries := 0\<rparr>)\<rparr>)"
      using that e(1,5) by (simp add: tcpecho_raw_sent_def Let_def)
    with w'(1) have "w' = w\<lparr>echo_arg := Some (e\<lparr>retries := 0\<rparr>)\<rparr>" by simp
    then show ?thesis using that e cb by (auto simp: echo_inv_def pending_def)
  qed
  then show ?thesis
    using w' handed_inv [of stream tpcb w qs "es_state e" w'] closed_inv [of stream tpcb w w'] cb e(3,4)
    by (cases "es_state e") auto
qed

lemma echo_bad_data:
  assumes inv: "echo_inv stream tpcb w got" and cb: "callbacks w" and arr: "arrives (pbufs w) p fs S" and err: "err \<noteq> ERR_OK"
  shows "\<exists>w'. tcpecho_raw_recv io tpcb p err (w\<lparr>pbufs := S\<rparr>) = Ok (err, w') \<and> echo_inv stream tpcb w' got"
proof -
  from inv cb obtain e qs where e: "echo_arg w = Some e" "owned (pbufs w) (es_p e) qs" by (auto simp: echo_inv_def pending_def)
  obtain os where S: "S = pbufs w @ os" and new: "owned S p fs" "fs \<noteq> []" "\<forall>m \<in> addrs fs. length (pbufs w) \<le> m"
    using arr by (auto simp: arrives_def)
  have p: "p \<noteq> None" using new by (cases fs) (auto simp: owned_def packet_def)
  have keep: "pending (w\<lparr>pbufs := release_all S fs\<rparr>) rs" if "pending w rs" for rs
  proof -
    have rs: "owned (pbufs w) (es_p e) rs" using that e(1) by (simp add: pending_def)
    then have "addrs fs \<inter> addrs rs = {}"
      using new(3) linked_live [of "pbufs w" "es_p e" rs] by (fastforce simp: owned_def packet_def)
    from owned_disjoint_release [OF this] owned_append [OF rs, of os] show ?thesis using e(1) by (simp add: pending_def S)
  qed
  have "tcpecho_raw_recv io tpcb p err (w\<lparr>pbufs := S\<rparr>) = Ok (err, w\<lparr>pbufs := release_all S fs\<rparr>)"
    using p err free_owned [OF new(1)] by (auto simp: tcpecho_raw_recv_def)
  moreover have "echo_inv stream tpcb (w\<lparr>pbufs := release_all S fs\<rparr>) got"
    using inv keep by (auto simp: echo_inv_def)
  ultimately show ?thesis by blast
qed

lemma echo_run_inv:
  assumes "echo_run io stream tpcb w got" and law: "echo_law io stream"
  shows "echo_inv stream tpcb w got"
  using assms(1)
proof induction
  case (Accept w w')
  then show ?case by (auto simp: tcpecho_raw_accept_def echo_inv_def pending_def owned_def intro!: exI [of _ "[]"])
next
  case (Data w got p fs S e w')
  with echo_data [OF law Data.IH, of p fs S] show ?case by auto
next
  case (End w got err e w')
  with echo_end [OF law End.IH, of err] show ?case by auto
next
  case (Bad_data w got p fs S err e w')
  with echo_bad_data [OF Bad_data.IH, of p fs S err io] show ?case by auto
next
  case (Sent w got e w')
  with echo_sent [OF law Sent.IH] show ?case by auto
next
  case (Stack w got s)
  then show ?case by (auto simp: echo_inv_def pending_def)
next
  case (Others w got S)
  then show ?case by (auto simp: echo_inv_def)
qed

section \<open>The poll callback\<close>

text \<open>
  The banner is put where the pending data was. When TCP does not take it the buffer is given back
  and the structure still points to it.
\<close>

lemma length_banner: "length tcp_server_sendbuf = 246"
proof -
  have "length banner_line = 41" by (simp add: banner_line_def)
  then show ?thesis by (simp add: tcp_server_sendbuf_def length_concat sum_list_replicate)
qed

lemma poll_alloc:
  assumes "memp_malloc_pool S"
  obtains q where "pbuf_alloc E S PBUF_TRANSPORT 246 PBUF_POOL = Ok (Some (length S), S @ [Some q])"
    "packet (S @ [Some q]) (Some (length S)) [(length S, q)]" "len q = 246" "ref q = 1"
proof
  let ?q = "\<lparr>pb_next = None, payload = head_room PBUF_TRANSPORT, area = new_area E S 512, tot_len = 246 :: u16,
    len = 246, pb_type = PBUF_POOL, custom = False, ref = 1\<rparr>"
  show "pbuf_alloc E S PBUF_TRANSPORT 246 PBUF_POOL = Ok (Some (length S), S @ [Some ?q])"
    using assms by (simp add: pbuf_alloc_def Let_def pool_tail.simps head_room_def LWIP_MEM_ALIGN_SIZE_def)
  show "packet (S @ [Some ?q]) (Some (length S)) [(length S, ?q)]"
    by (simp add: packet_Cons sound_def new_area_def head_room_def LWIP_MEM_ALIGN_SIZE_def)
qed simp_all

lemma poll_gives_back:
  assumes arg: "echo_arg w = Some e" and pool: "memp_malloc_pool (pbufs w)"
    and full: "unat (tcp_sndbuf io (stack w) tpcb) < 246"
  defines "n \<equiv> length (pbufs w)"
  defines "w' \<equiv> w\<lparr>echo_arg := Some (e\<lparr>es_p := Some n\<rparr>), pbufs := pbufs w @ [None]\<rparr>"
  shows "tcpecho_raw_poll io E tpcb w = (if es_state e = ES_CLOSING then Halt Freed else Ok (ERR_OK, w'))"
    and "tcpecho_raw_sent io tpcb w' = Halt Freed"
proof -
  have b: "(word_of_nat (length tcp_server_sendbuf) :: u16) = 246" by (simp add: length_banner)
  obtain q where q: "pbuf_alloc E (pbufs w) PBUF_TRANSPORT 246 PBUF_POOL = Ok (Some n, pbufs w @ [Some q])"
    "packet (pbufs w @ [Some q]) (Some n) [(n, q)]" "len q = 246" "ref q = 1"
    using poll_alloc [OF pool, of E] unfolding n_def by blast
  define q' where "q' = refill q (take 246 tcp_server_sendbuf)"
  have "length (contents [(n, q)]) = 246" using q(2,3) by (simp add: packet_Cons)
  then have take: "pbuf_take (pbufs w @ [Some q]) (Some n) tcp_server_sendbuf 246 = Ok (ERR_OK, pbufs w @ [Some q'])"
    using take_packet [OF q(2), of 246 tcp_server_sendbuf] q(3) by (simp add: length_banner n_def q'_def)
  have len: "len q' = 246" "ref q' = 1" using q(3,4) by (simp_all add: q'_def)
  have stop: "send_loop io tpcb (Some n) (pbufs w @ [Some q']) (stack w) = Some (Ok (Some n, pbufs w @ [Some q'], stack w))"
    using full len(1) by (subst send_loop.simps) (simp add: n_def word_le_nat_alt)
  have free: "pbuf_free (pbufs w @ [Some q']) (Some n) = Ok (1, pbufs w @ [None])" if "pb_next q' = None"
    using len(2) that by (simp add: pbuf_free_def n_def)
  have nx: "pb_next q' = None" using q(2) by (simp add: packet_Cons q'_def)
  have gone: "pbuf_free (pbufs w @ [None]) (Some n) = Halt Freed" by (simp add: pbuf_free_def n_def)
  show "tcpecho_raw_poll io E tpcb w = (if es_state e = ES_CLOSING then Halt Freed else Ok (ERR_OK, w'))"
    using arg q(1) take stop free [OF nx] gone
    by (simp add: tcpecho_raw_poll_def b tcpecho_raw_send_def loop_result_def Let_def w'_def
        tcpecho_raw_close_def tcpecho_raw_free_def)
  have "send_loop io tpcb (Some n) (pbufs w @ [None]) s = Some (Halt Freed)" for s
    by (subst send_loop.simps) (simp add: deref_def n_def)
  then show "tcpecho_raw_sent io tpcb w' = Halt Freed"
    by (simp add: tcpecho_raw_sent_def w'_def Let_def tcpecho_raw_send_def loop_result_def)
qed

end
