(* ===== verification/DemoServers.thy ===== *)
theory DemoServers
  imports EchoServer
begin

unbundle bit_operations_syntax

text \<open>
  The two other servers of the repository on packet buffers: the UDP responder of
  \<open>src/user/MQTT_SN_GateWay.c\<close>, which sends a datagram back with a zero behind it, and the TCP server
  of \<open>src/user/tcp_server_demo\<close>, which copies what it receives into a static buffer.
\<close>

section \<open>The UDP responder\<close>

text \<open>
  The state is the static array \<open>search_rsp_buf\<close> and the packet buffers. The answer is a buffer of
  its own whose payload pointer is set to the static array; its bytes, which \<open>udp_sendto\<close> is handed,
  are a result. That the address of the sender is kept in the control block, and how \<open>udp_sendto\<close>
  puts headers in front of the payload, is left out.
\<close>

definition SEARCH_RSP_SIZE :: nat where
  "SEARCH_RSP_SIZE = 100"

definition drv_UdpServer_recv ::
  "mem_env \<Rightarrow> nat option \<Rightarrow> u8 list \<times> pbuf_store \<Rightarrow> (u8 list \<times> u8 list \<times> pbuf_store) outcome" where
  "drv_UdpServer_recv E p = (\<lambda>(search_rsp_buf, S).
     bind_outcome (deref S p) (\<lambda>q.
     let n = unat (tot_len q) in
     bind_outcome (read_pbuf q 0 n) (\<lambda>pdata.
     bind_outcome (memcpy search_rsp_buf 0 pdata 0 n) (\<lambda>b.
     bind_outcome (memcpy b n [0] 0 1) (\<lambda>b.
     bind_outcome (pbuf_alloc E S PBUF_RAW (tot_len q + 1) PBUF_RAM) (\<lambda>(rsp, S).
     bind_outcome (deref S rsp) (\<lambda>rq.
     let rq = rq\<lparr>payload := 0, area := b\<rparr>; S = set_pbuf S rsp rq in
     bind_outcome (read_pbuf rq 0 (unat (len rq))) (\<lambda>sent.
     bind_outcome (pbuf_free S rsp) (\<lambda>(count, S).
     bind_outcome (pbuf_free S p) (\<lambda>(count, S). Ok (sent, b, S)))))))))))"

section \<open>The TCP server\<close>

definition TCP_SERVER_RX_BUFSIZE :: u32 where
  "TCP_SERVER_RX_BUFSIZE = 2000"

datatype tcp_server_states = ES_TCPSERVER_NONE | ES_TCPSERVER_ACCEPTED | ES_TCPSERVER_CLOSING

record tcp_server_struct =
  ts_state :: tcp_server_states
  ts_pcb :: pcb
  ts_p :: "nat option"

record 's server =
  srv_arg :: "tcp_server_struct option"
  srv_hooks :: bool
  tcp_server_flag :: u8
  tcp_server_recvbuf :: "u8 list"
  srv_pbufs :: pbuf_store
  srv_stack :: 's

text \<open>\<open>mem\<close> says whether the heap has room for the structure; the error argument is not looked at.\<close>

definition tcp_server_accept :: "bool \<Rightarrow> pcb \<Rightarrow> 's server \<Rightarrow> err_t \<times> 's server" where
  "tcp_server_accept mem newpcb w =
     (if mem then
        (ERR_OK, w\<lparr>srv_arg := Some \<lparr>ts_state = ES_TCPSERVER_ACCEPTED, ts_pcb = newpcb, ts_p = None\<rparr>, srv_hooks := True,
           tcp_server_flag := tcp_server_flag w OR 0x20\<rparr>)
      else (ERR_MEM, w))"

partial_function (option) recv_copy ::
  "pbuf_store \<Rightarrow> nat option \<Rightarrow> u8 list \<Rightarrow> u32 \<Rightarrow> u8 list outcome option" where
  "recv_copy S q recvbuf data_len =
     (if q = None then Some (Ok recvbuf)
      else case deref S q of Halt h \<Rightarrow> Some (Halt h)
      | Ok qq \<Rightarrow>
          let n = (if ucast (len qq) > TCP_SERVER_RX_BUFSIZE - data_len then unat (TCP_SERVER_RX_BUFSIZE - data_len)
                   else unat (len qq)) in
          (case bind_outcome (read_pbuf qq 0 n) (\<lambda>d. memcpy recvbuf (unat data_len) d 0 n) of
             Halt h \<Rightarrow> Some (Halt h)
           | Ok recvbuf \<Rightarrow>
               let data_len = data_len + ucast (len qq) in
               if data_len > TCP_SERVER_RX_BUFSIZE then Some (Ok recvbuf)
               else recv_copy S (pb_next qq) recvbuf data_len))"

definition tcp_server_recv ::
  "'s tcp_api \<Rightarrow> pcb \<Rightarrow> nat option \<Rightarrow> err_t \<Rightarrow> 's server \<Rightarrow> (err_t \<times> 's server) outcome" where
  "tcp_server_recv io tpcb p err w =
     (if p = None then
        (case srv_arg w of None \<Rightarrow> Halt NullDeref
         | Some e \<Rightarrow> Ok (ERR_OK, w\<lparr>srv_arg := Some (e\<lparr>ts_state := ES_TCPSERVER_CLOSING, ts_p := None\<rparr>)\<rparr>))
      else if err \<noteq> ERR_OK then
        bind_outcome (pbuf_free (srv_pbufs w) p) (\<lambda>(count, S). Ok (err, w\<lparr>srv_pbufs := S\<rparr>))
      else
        (case srv_arg w of None \<Rightarrow> Halt NullDeref
         | Some e \<Rightarrow>
             if ts_state e = ES_TCPSERVER_ACCEPTED then
               bind_outcome (loop_result (recv_copy (srv_pbufs w) p (map (\<lambda>b. 0) (tcp_server_recvbuf w)) 0)) (\<lambda>recvbuf.
               bind_outcome (deref (srv_pbufs w) p) (\<lambda>q.
               bind_outcome (pbuf_free (srv_pbufs w) p) (\<lambda>(count, S).
                 Ok (ERR_OK, w\<lparr>tcp_server_recvbuf := recvbuf, tcp_server_flag := tcp_server_flag w OR 0x40,
                   srv_stack := tcp_recved io (srv_stack w) tpcb (tot_len q), srv_pbufs := S\<rparr>))))
             else
               bind_outcome (deref (srv_pbufs w) p) (\<lambda>q.
               bind_outcome (pbuf_free (srv_pbufs w) p) (\<lambda>(count, S).
                 Ok (ERR_OK, w\<lparr>srv_arg := Some (e\<lparr>ts_p := None\<rparr>),
                   srv_stack := tcp_recved io (srv_stack w) tpcb (tot_len q), srv_pbufs := S\<rparr>)))))"

text \<open>The loop of \<open>tcp_server_senddata\<close> is that of the echo server.\<close>

definition tcp_server_senddata ::
  "'s tcp_api \<Rightarrow> pcb \<Rightarrow> tcp_server_struct \<Rightarrow> 's server \<Rightarrow> (tcp_server_struct \<times> 's server) outcome" where
  "tcp_server_senddata io tpcb e w =
     bind_outcome (loop_result (send_loop io tpcb (ts_p e) (srv_pbufs w) (srv_stack w))) (\<lambda>(p, S, s).
       let e = e\<lparr>ts_p := p\<rparr> in Ok (e, w\<lparr>srv_arg := Some e, srv_pbufs := S, srv_stack := s\<rparr>))"

definition tcp_server_error :: "'s server \<Rightarrow> 's server" where
  "tcp_server_error w = w\<lparr>srv_arg := None\<rparr>"

definition tcp_server_connection_close :: "'s tcp_api \<Rightarrow> pcb \<Rightarrow> 's server \<Rightarrow> 's server" where
  "tcp_server_connection_close io tpcb w =
     w\<lparr>srv_stack := snd (tcp_close io (srv_stack w) tpcb), srv_arg := None, srv_hooks := False,
       tcp_server_flag := tcp_server_flag w AND NOT 0x20\<rparr>"

definition tcp_server_poll :: "'s tcp_api \<Rightarrow> pcb \<Rightarrow> 's server \<Rightarrow> (err_t \<times> 's server) outcome" where
  "tcp_server_poll io tpcb w =
     (case srv_arg w of None \<Rightarrow> Ok (ERR_ABRT, w\<lparr>srv_stack := tcp_abort io (srv_stack w) tpcb\<rparr>)
      | Some e \<Rightarrow>
          if tcp_server_flag w AND 0x80 \<noteq> 0 then
            bind_outcome (tcp_server_senddata io tpcb e w) (\<lambda>(e, w).
            let w = w\<lparr>tcp_server_flag := tcp_server_flag w AND NOT 0x80\<rparr> in
            bind_outcome (if ts_p e \<noteq> None then pbuf_free (srv_pbufs w) (ts_p e) else Ok (0, srv_pbufs w)) (\<lambda>(count, S).
              Ok (ERR_OK, w\<lparr>srv_pbufs := S\<rparr>)))
          else if ts_state e = ES_TCPSERVER_CLOSING then Ok (ERR_OK, tcp_server_connection_close io tpcb w)
          else Ok (ERR_OK, w))"

definition tcp_server_sent :: "'s tcp_api \<Rightarrow> pcb \<Rightarrow> 's server \<Rightarrow> (err_t \<times> 's server) outcome" where
  "tcp_server_sent io tpcb w =
     (case srv_arg w of None \<Rightarrow> Halt NullDeref
      | Some e \<Rightarrow>
          if ts_p e \<noteq> None then bind_outcome (tcp_server_senddata io tpcb e w) (\<lambda>(e, w). Ok (ERR_OK, w))
          else Ok (ERR_OK, w))"

section \<open>What the responder does\<close>

lemma memcpy_front:
  assumes "length d \<le> length b" shows "memcpy b 0 d 0 (length d) = Ok (d @ drop (length d) b)"
  using assms by (simp add: memcpy_def blit_def)

lemma memcpy_one:
  assumes "n < length b" shows "memcpy b n [x] 0 1 = Ok (take n b @ [x] @ drop (Suc n) b)"
  using assms by (simp add: memcpy_def blit_def)

text \<open>A datagram in one buffer is sent back with a zero behind it if it is shorter than the array.\<close>

lemma responder_answers:
  assumes own: "owned S p [(n, q)]" and buf: "length buf = 100" and short: "length (data_of q) < 100"
    and room: "heap_room E S (word_of_nat (16 + LWIP_MEM_ALIGN_SIZE (Suc (length (data_of q)))))"
  shows "\<exists>buf' S'. drv_UdpServer_recv E p (buf, S) = Ok (data_of q @ [0], buf', S') \<and> length buf' = 100 \<and>
    length S' = Suc (length S) \<and> S' ! n = None \<and> S' ! length S = None \<and> (\<forall>m < length S. m \<noteq> n \<longrightarrow> S' ! m = S ! m)"
proof -
  let ?d = "data_of q" and ?n = "length S"
  have q: "p = Some n" "n < ?n" "S ! n = Some q" "sound q" "unat (tot_len q) = length ?d" "unat (len q) = length ?d" "ref q = 1"
    "pb_next q = None"
    using own by (auto simp: owned_def packet_Cons sole_def)
  have rd: "read_pbuf q 0 (length ?d) = Ok ?d" using read_sound [OF q(4), of 0 "length ?d"] q(6) by simp
  have len1: "unat (tot_len q + 1) = Suc (length ?d)" using short q(5) by (simp add: unat_add_small)
  let ?b = "?d @ [0] @ drop (Suc (length ?d)) buf"
  have mc1: "memcpy buf 0 ?d 0 (length ?d) = Ok (?d @ drop (length ?d) buf)"
    using short buf by (intro memcpy_front) simp
  have mc2: "memcpy (?d @ drop (length ?d) buf) (length ?d) [0] 0 1 = Ok ?b"
    using short buf by (subst memcpy_one) simp_all
  have hr: "head_room PBUF_RAW = 0" by (simp add: head_room_def LWIP_MEM_ALIGN_SIZE_def)
  have small: "16 + LWIP_MEM_ALIGN_SIZE (Suc (length ?d)) < 65536" using short by (simp add: LWIP_MEM_ALIGN_SIZE_def)
  from alloc_ram [of E S PBUF_RAW "tot_len q + 1", unfolded len1 hr add_0_right] obtain r where
    al: "pbuf_alloc E S PBUF_RAW (tot_len q + 1) PBUF_RAM =
      (if 16 + LWIP_MEM_ALIGN_SIZE (Suc (length ?d)) < 65536 \<and>
         heap_room E S (word_of_nat (16 + LWIP_MEM_ALIGN_SIZE (Suc (length ?d))))
       then Ok (Some ?n, S @ [Some r]) else Ok (None, S))"
    and pr: "packet (S @ [Some r]) (Some ?n) [(?n, r)]" and lr: "len r = tot_len q + 1" "ref r = 1" by blast
  have r: "pbuf_alloc E S PBUF_RAW (tot_len q + 1) PBUF_RAM = Ok (Some ?n, S @ [Some r])" "pb_next r = None"
  proof -
    show "pbuf_alloc E S PBUF_RAW (tot_len q + 1) PBUF_RAM = Ok (Some ?n, S @ [Some r])"
      unfolding al by (rule if_P) (rule conjI [OF small room])
    show "pb_next r = None" using pr by (simp add: packet_Cons)
  qed
  let ?r = "r\<lparr>payload := 0, area := ?b\<rparr>"
  have derefs: "deref S p = Ok q" "deref (S @ [Some r]) (Some ?n) = Ok r" using q(1-3) by simp_all
  have set_r: "set_pbuf (S @ [Some r]) (Some ?n) ?r = S @ [Some ?r]" by simp
  have sent: "read_pbuf ?r 0 (unat (len ?r)) = Ok (?d @ [0])"
    using short buf by (simp add: read_pbuf_def lr(1) len1)
  have f1: "pbuf_free (S @ [Some ?r]) (Some ?n) = Ok (1, S @ [None])" using r(2) lr(2) by (simp add: pbuf_free_def)
  have f2: "pbuf_free (S @ [None]) p = Ok (1, S[n := None] @ [None])"
    using q(1-3,7,8) by (simp add: pbuf_free_def nth_append list_update_append)
  have "drv_UdpServer_recv E p (buf, S) = Ok (?d @ [0], ?b, S[n := None] @ [None])"
    unfolding drv_UdpServer_recv_def prod.case Let_def derefs bind_outcome.simps q(5) rd mc1 mc2 r(1) set_r sent f1 f2 ..
  then show ?thesis using buf short q(2) by (auto simp: nth_append)
qed

text \<open>A datagram of 100 bytes or more leaves the array, whatever else holds.\<close>

lemma responder_overruns:
  assumes "packet S p ((n, q) # qs)" and "length buf = 100" and "100 \<le> unat (tot_len q)"
  shows "drv_UdpServer_recv E p (buf, S) = Halt Overrun"
proof -
  have q: "deref S p = Ok q" using assms(1) by (simp add: packet_Cons)
  show ?thesis
  proof (cases "read_pbuf q 0 (unat (tot_len q))")
    case (Ok d)
    then have "length d = unat (tot_len q)" by (auto simp: read_pbuf_def split: if_splits)
    with Ok q assms(2,3) show ?thesis
      by (cases "unat (tot_len q) = 100") (simp_all add: drv_UdpServer_recv_def memcpy_def Let_def)
  next
    case (Halt f)
    then have "f = Overrun" by (auto simp: read_pbuf_def split: if_splits)
    with Halt q show ?thesis by (simp add: drv_UdpServer_recv_def Let_def)
  qed
qed

section \<open>What the TCP server receives\<close>

lemma recv_copy_packet:
  "packet S p qs \<Longrightarrow> length b = 2000 \<Longrightarrow> unat dl \<le> 2000 \<Longrightarrow>
   recv_copy S p b dl = Some (Ok (take 2000 (take (unat dl) b @ contents qs @ drop (unat dl + length (contents qs)) b)))"
proof (induction qs arbitrary: p b dl)
  case Nil
  then show ?case by (simp add: recv_copy.simps)
next
  case (Cons x qs)
  obtain n q where x: "x = (n, q)" by fastforce
  note pk = Cons.prems(1) [unfolded x packet_Cons]
  let ?dl = "unat dl" and ?l = "unat (len q)"
  have S: "unat (TCP_SERVER_RX_BUFSIZE - dl) = 2000 - ?dl" using Cons.prems(3)
    by (simp add: TCP_SERVER_RX_BUFSIZE_def unat_sub word_le_nat_alt)
  have u: "unat (ucast (len q) :: u32) = ?l" unfolding unat_eq_nat_uint by (subst uint_up_ucast) (simp_all add: is_up)
  define k where "k = min ?l (2000 - ?dl)"
  have n: "(if ucast (len q) > TCP_SERVER_RX_BUFSIZE - dl then unat (TCP_SERVER_RX_BUFSIZE - dl) else ?l) = k"
    by (auto simp: word_less_nat_alt S u k_def)
  let ?b = "blit b ?dl (take k (data_of q)) 0 k"
  have rd: "read_pbuf q 0 k = Ok (take k (data_of q))" using read_sound [of q 0 k] pk by (simp add: k_def)
  have mc: "memcpy b ?dl (take k (data_of q)) 0 k = Ok ?b" using Cons.prems pk by (intro memcpy_Ok) (simp_all add: k_def)
  have b: "?b = take ?dl b @ take k (data_of q) @ drop (?dl + k) b" "length ?b = 2000"
    using Cons.prems pk by (simp_all add: blit_def k_def)
  have dl: "unat (dl + ucast (len q)) = ?dl + ?l"
    using Cons.prems(3) unsigned_less [where 'a = nat, of "len q"] by (subst unat_add_small) (simp_all add: u)
  have gt: "dl + ucast (len q) > TCP_SERVER_RX_BUFSIZE \<longleftrightarrow> ?dl + ?l > 2000"
    unfolding word_less_nat_alt dl by (simp add: TCP_SERVER_RX_BUFSIZE_def)
  have step: "recv_copy S p b dl = (if ?dl + ?l > 2000 then Some (Ok ?b) else recv_copy S (pb_next q) ?b (dl + ucast (len q)))"
    using pk rd mc by (subst recv_copy.simps) (simp add: n gt Let_def split del: if_split)
  show ?case
  proof (cases "?dl + ?l > 2000")
    case True
    then have k: "k = 2000 - ?dl" "2000 - ?dl \<le> ?l" by (simp_all add: k_def)
    then show ?thesis unfolding step using True b(1) Cons.prems pk by (simp add: x)
  next
    case False
    then have k: "k = ?l" by (simp add: k_def)
    have "recv_copy S (pb_next q) ?b (dl + ucast (len q)) =
        Some (Ok (take 2000 (take (?dl + ?l) ?b @ contents qs @ drop (?dl + ?l + length (contents qs)) ?b)))"
      using Cons.IH [of "pb_next q" ?b "dl + ucast (len q)"] pk b(2) False by (simp add: dl)
    then show ?thesis unfolding step using False b Cons.prems pk k by (simp add: x ac_simps)
  qed
qed

end
