(* ===== verification/LwipProps.thy ===== *)
theory LwipProps
  imports LwipSearch DemoServers
begin

text \<open>
  What the packet buffers of lwIP promise to the programs that use them, and what the echo server
  makes of it. The examples are on a chain of two buffers with three bytes.
\<close>

section \<open>An example\<close>

definition demo_a :: pbuf where
  "demo_a = \<lparr>pb_next = Some 1, payload = 1, area = [9, 1, 2, 8], tot_len = 3, len = 2, pb_type = PBUF_POOL,
     custom = False, ref = 1\<rparr>"

definition demo_b :: pbuf where
  "demo_b = \<lparr>pb_next = None, payload = 0, area = [3, 7], tot_len = 1, len = 1, pb_type = PBUF_POOL,
     custom = False, ref = 1\<rparr>"

definition demo :: pbuf_store where
  "demo = [Some demo_a, Some demo_b, Some (demo_b\<lparr>area := [4]\<rparr>)]"

definition demo_env :: mem_env where
  "demo_env = \<lparr>heap_room = \<lambda>S n. True, old_bytes = \<lambda>a i. 0\<rparr>"

lemma demo_packet: "packet demo (Some 0) [(0, demo_a), (1, demo_b)]" "contents [(0, demo_a), (1, demo_b)] = [1, 2, 3]"
  "packet demo (Some 2) [(2, demo_b\<lparr>area := [4]\<rparr>)]" "contents [(2, demo_b\<lparr>area := [4]\<rparr>)] = [4]"
  by (simp_all add: packet_Cons demo_def demo_a_def demo_b_def sound_def data_of_def)

section \<open>Packets\<close>

text \<open>
  C36: A packet is the list of its bytes to those who read it, whatever pieces it consists of: the
  total length in its first buffer is the number of the bytes, \<open>pbuf_get_at\<close> gives the byte at an
  offset and 0 behind the end, and \<open>pbuf_copy_partial\<close> gives the bytes from an offset on, as many as
  were asked for and are there. All of them end without leaving a buffer.
\<close>

theorem pbuf_reads_bytes:
  assumes "packet S p ((n, q) # qs)" and "d = contents ((n, q) # qs)"
  shows "deref S p = Ok q \<and> unat (tot_len q) = length d \<and>
    pbuf_get_at S p off = Ok (if unat off < length d then d ! unat off else 0) \<and>
    pbuf_copy_partial S p k off = Ok (word_of_nat (length (take (unat k) (drop (unat off) d))), take (unat k) (drop (unat off) d)) \<and>
    pbuf_clen S p = Ok (word_of_nat (Suc (length qs)))"
  using get_at_packet [OF assms(1), of off] copy_partial_packet [OF assms(1), of k off] clen_packet [OF assms(1)]
    assms [unfolded packet_Cons] by simp

theorem pbuf_reads_bytes_witness:
  "pbuf_get_at demo (Some 0) 2 = Ok 3 \<and> pbuf_copy_partial demo (Some 0) 5 1 = Ok (2, [2, 3])"
  using pbuf_reads_bytes [OF demo_packet(1) refl, of 2 5] pbuf_reads_bytes [OF demo_packet(1) refl, of 1 5]
  unfolding demo_packet(2) by simp

text \<open>
  C37: What \<open>pbuf_take\<close> stores \<open>pbuf_copy_partial\<close> reads back. Data that does not fit is refused with
  \<open>ERR_MEM\<close> and nothing is written; otherwise the data is spread over the buffers, the bytes behind
  it stay, the chain is well formed as before, and no other buffer is touched.
\<close>

theorem pbuf_take_roundtrip:
  assumes "packet S p qs" and "qs \<noteq> []" and "unat k \<le> length data"
  shows "if length (contents qs) < unat k then pbuf_take S p data k = Ok (ERR_MEM, S)
    else \<exists>S' qs'. pbuf_take S p data k = Ok (ERR_OK, S') \<and> packet S' p qs' \<and> map fst qs' = map fst qs \<and>
      contents qs' = take (unat k) data @ drop (unat k) (contents qs) \<and>
      pbuf_copy_partial S' p k 0 = Ok (k, take (unat k) data) \<and> (\<forall>m. m \<notin> addrs qs \<longrightarrow> S' ! m = S ! m)"
proof (cases "length (contents qs) < unat k")
  case True
  then show ?thesis using take_packet [OF assms] by simp
next
  case False
  let ?d = "take (unat k) data" and ?qs = "filled qs (take (unat k) data)"
  let ?S = "set_all S ?qs"
  have len: "length ?d = unat k" using assms(3) by simp
  have c: "sized ?qs" "contents ?qs = ?d @ drop (unat k) (contents qs)"
    using filled_contents [of qs ?d] assms(1) False len by (simp_all add: packet_def)
  then have pk: "packet ?S p ?qs"
    using linked_relink [OF filled_relink, of S p qs ?d] assms(1) by (simp add: packet_def)
  have "pbuf_copy_partial ?S p k 0 = Ok (k, ?d)"
    unfolding copy_partial_packet [OF pk] c(2) using len by simp
  moreover have "?S ! m = S ! m" if "m \<notin> addrs qs" for m
    using that relink_addr_set [OF filled_relink, of qs ?d] by (intro set_all_other) simp
  ultimately show ?thesis
    using False take_packet [OF assms] pk c(2) relink_addrs [OF filled_relink, of qs ?d] by auto
qed

theorem pbuf_take_roundtrip_witness:
  "\<exists>S. pbuf_take demo (Some 0) [5, 6, 7] 2 = Ok (ERR_OK, S) \<and> pbuf_copy_partial S (Some 0) 2 0 = Ok (2, [5, 6]) \<and>
     pbuf_take demo (Some 0) [5, 6, 7, 8] 4 = Ok (ERR_MEM, demo)"
  using pbuf_take_roundtrip [OF demo_packet(1), of 2 "[5, 6, 7]"] pbuf_take_roundtrip [OF demo_packet(1), of 4 "[5, 6, 7, 8]"]
  unfolding demo_packet(2) by auto

text \<open>
  Allocation from the pool. If the pool has enough free buffers, \<open>pbuf_alloc\<close> returns a new
  well-formed packet of exactly the requested length whose buffers belong to the caller alone, and
  the buffers of others are unchanged; otherwise it returns NULL and every buffer it had already
  taken is given back.
\<close>

theorem pbuf_alloc_pool:
  assumes "in_use {PBUF_POOL} S \<le> 20"
  shows "if in_use {PBUF_POOL} S + bufs_needed layer (unat n) \<le> 20
    then \<exists>T qs. pbuf_alloc E S layer n PBUF_POOL = Ok (Some (length S), S @ T) \<and> owned (S @ T) (Some (length S)) qs \<and>
      length (contents qs) = unat n \<and> addrs qs = {length S..<length (S @ T)}
    else \<exists>k. pbuf_alloc E S layer n PBUF_POOL = Ok (None, S @ replicate k None)"
proof (cases "in_use {PBUF_POOL} S + bufs_needed layer (unat n) \<le> 20")
  case True
  from alloc_pool [OF assms, of layer n E] obtain os where
    "pbuf_alloc E S layer n PBUF_POOL = Ok (Some (length S), S @ map Some os)" "pool_chain (length S) 0 os"
    "length (contents (numbered (length S) os)) = unat n"
    using True by auto
  with pool_packet [of S os] show ?thesis
    unfolding if_P [OF True] owned_def
    by (intro exI [of _ "map Some os"] exI [of _ "numbered (length S) os"]) (simp add: numbered_addrs)
next
  case False
  with alloc_pool [OF assms, of layer n E] show ?thesis by simp
qed

theorem pbuf_alloc_pool_witness:
  "\<exists>T qs. pbuf_alloc demo_env [] PBUF_TRANSPORT 1000 PBUF_POOL = Ok (Some 0, T) \<and> length (contents qs) = 1000 \<and> owned T (Some 0) qs"
  using pbuf_alloc_pool [of "[]" PBUF_TRANSPORT 1000 demo_env]
  by (auto simp: in_use_def bufs_needed_def more_bufs_def head_room_def LWIP_MEM_ALIGN_SIZE_def)

text \<open>
  C38: \<open>pbuf_free\<close> gives back exactly the buffers at the front of a chain that nobody else holds and
  takes one reference from the first buffer that is still held; everything behind that, and every
  other buffer, is as before. The result is the number of buffers that were given back, counted in
  8 bits.
\<close>

theorem pbuf_free_releases:
  assumes "linked S p (own @ rest)" and "\<forall>x \<in> set own. ref (snd x) = 1" and "rest \<noteq> [] \<Longrightarrow> ref (snd (hd rest)) \<noteq> 1"
    and "m < length S"
  shows "\<exists>S'. pbuf_free S p = Ok (word_of_nat (length own), S') \<and> length S' = length S \<and>
    S' ! m = (if m \<in> addrs own then None
      else if rest \<noteq> [] \<and> m = fst (hd rest) then Some ((snd (hd rest))\<lparr>ref := ref (snd (hd rest)) - 1\<rparr>)
      else S ! m)"
proof -
  have own: "\<forall>x \<in> set own. sole x" using assms(2) by (simp add: sole_def)
  have tw: "takeWhile sole (own @ rest) = own" "dropWhile sole (own @ rest) = rest"
  proof -
    have "takeWhile sole rest = [] \<and> dropWhile sole rest = rest" using assms(3) by (cases rest) (auto simp: sole_def)
    with own show "takeWhile sole (own @ rest) = own" "dropWhile sole (own @ rest) = rest"
      by (simp_all add: takeWhile_append2 dropWhile_append2)
  qed
  have apart: "fst (hd rest) \<notin> addrs own" if "rest \<noteq> []"
    using assms(1) that unfolding linked_split by (cases rest) auto
  show ?thesis
  proof (cases rest)
    case Nil
    then show ?thesis
      unfolding free_packet [OF assms(1)] dropped_def tw using assms(4) by (simp add: release_all_nth)
  next
    case (Cons y ys)
    then show ?thesis
      unfolding free_packet [OF assms(1)] dropped_def tw using assms(4) apart
      by (cases y) (simp add: release_all_nth nth_list_update)
  qed
qed

theorem pbuf_free_releases_witness:
  "pbuf_free demo (Some 0) = Ok (2, [None, None, Some (demo_b\<lparr>area := [4]\<rparr>)])"
proof -
  let ?own = "[(0, demo_a), (1, demo_b)]"
  have l: "linked demo (Some 0) (?own @ [])" using demo_packet(1) by (simp add: packet_def)
  have r: "\<forall>x \<in> set ?own. ref (snd x) = 1" by (simp add: demo_a_def demo_b_def)
  have len: "length demo = 3" by (simp add: demo_def)
  note f = pbuf_free_releases [OF l r]
  from f [of 0] f [of 1] f [of 2] len obtain S where S: "pbuf_free demo (Some 0) = Ok (2, S)" "length S = 3"
    "S ! 0 = None" "S ! 1 = None" "S ! 2 = demo ! 2" by auto
  then have "S = [None, None, demo ! 2]"
    by (intro nth_equalityI) (auto simp: less_Suc_eq numeral_3_eq_3 numeral_2_eq_2)
  with S(1) show ?thesis by (simp add: demo_def)
qed

text \<open>
  \<open>pbuf_cat\<close> on two packets that share no buffer yields one well-formed packet with the bytes of
  the first followed by those of the second and with all totals right, as long as the sum fits into
  16 bits; only buffers of the first packet change, and none changes hands.
\<close>

theorem pbuf_cat_joins:
  assumes "owned S h qs" and "owned S t ts" and "qs \<noteq> []" and "ts \<noteq> []" and "addrs qs \<inter> addrs ts = {}"
    and "length (contents qs) + length (contents ts) < 65536"
  shows "\<exists>S' rs. pbuf_cat S h t = Ok S' \<and> owned S' h rs \<and> contents rs = contents qs @ contents ts \<and>
    addrs rs = addrs qs \<union> addrs ts \<and> (\<forall>m. m \<notin> addrs qs \<longrightarrow> S' ! m = S ! m)"
  using assms by (rule owned_cat)

theorem pbuf_cat_joins_witness:
  "\<exists>S rs. pbuf_cat demo (Some 0) (Some 2) = Ok S \<and> owned S (Some 0) rs \<and> contents rs = [1, 2, 3, 4]"
proof -
  have "owned demo (Some 0) [(0, demo_a), (1, demo_b)]" "owned demo (Some 2) [(2, demo_b\<lparr>area := [4]\<rparr>)]"
    using demo_packet by (simp_all add: owned_def sole_def demo_a_def demo_b_def)
  from pbuf_cat_joins [OF this] show ?thesis unfolding demo_packet(2,4) by auto
qed

text \<open>
  \<open>pbuf_realloc\<close> to a smaller length leaves a well-formed packet with exactly the first bytes, in
  the first buffers of the old one; the buffers behind are given up as by \<open>pbuf_free\<close>, and buffers
  of other packets are not touched.
\<close>

theorem pbuf_realloc_shrinks:
  assumes "packet S p qs" and "qs \<noteq> []" and "unat new < length (contents qs)"
  shows "\<exists>S' pre last post. pbuf_realloc S p new = Ok S' \<and> packet S' p (pre @ [last]) \<and>
    contents (pre @ [last]) = take (unat new) (contents qs) \<and> map fst qs = map fst (pre @ [last] @ post) \<and>
    (\<forall>m. m \<notin> addrs qs \<longrightarrow> S' ! m = S ! m) \<and> set post \<subseteq> set qs \<and> (\<forall>m \<in> addrs post. S' ! m = dropped S post ! m)"
  using assms by (rule realloc_packet)

theorem pbuf_realloc_shrinks_witness:
  "\<exists>S qs. pbuf_realloc demo (Some 0) 1 = Ok S \<and> packet S (Some 0) qs \<and> contents qs = [1]"
proof -
  have "unat (1 :: u16) < length (contents [(0, demo_a), (1, demo_b)])" unfolding demo_packet(2) by simp
  from pbuf_realloc_shrinks [OF demo_packet(1) _ this] obtain S pre last where
    "pbuf_realloc demo (Some 0) 1 = Ok S" "packet S (Some 0) (pre @ [last])"
    "contents (pre @ [last]) = take (unat (1 :: u16)) [1, 2, 3]" unfolding demo_packet(2) by blast
  then show ?thesis by (intro exI [of _ S] exI [of _ "pre @ [last]"]) simp
qed

text \<open>
  Hiding a header with \<open>pbuf_header\<close> leaves a well-formed packet without its first bytes, and
  revealing it again restores the packet bit for bit, in buffers that hold their own memory.
\<close>

theorem pbuf_header_roundtrip:
  assumes "packet S p ((n, q) # qs)" and "k \<le> unat (len q)" and "k < 32768" and "pb_type q \<in> {PBUF_RAM, PBUF_POOL}"
  shows "\<exists>S' q'. pbuf_header S p (- word_of_nat k) = Ok (0, S') \<and> packet S' p ((n, q') # qs) \<and>
    contents ((n, q') # qs) = drop k (contents ((n, q) # qs)) \<and> pbuf_header S' p (word_of_nat k) = Ok (0, S)"
proof -
  let ?q = "moved_on q k"
  have k: "k \<le> 32768" using assms(3) by simp
  note h = hide_header [OF assms(1,2) k]
  have q: "n < length S" "S ! n = Some q" "unat (len q) \<le> unat (tot_len q)" using assms(1) by (simp_all add: packet_Cons)
  have "unat (word_of_nat k :: u16) = k" using assms(3) by (simp add: unat_of_nat)
  then have tot: "unat (tot_len ?q) + k < 65536"
    using q(3) assms(2) unsigned_less [where 'a = nat, of "tot_len q"]
    by (simp add: moved_on_def unat_sub word_le_nat_alt)
  have "?q\<lparr>payload := payload ?q - k, len := len ?q + word_of_nat k, tot_len := tot_len ?q + word_of_nat k\<rparr> = q"
    by (simp add: moved_on_def)
  moreover have "S[n := Some ?q, n := Some q] = S" using q(2) list_update_id [of S n] by simp
  ultimately have "pbuf_header (S[n := Some ?q]) p (word_of_nat k) = Ok (0, S)"
    using reveal_header [OF h(2) _ assms(3) tot] assms(4) by (simp add: moved_on_def)
  with h show ?thesis by blast
qed

theorem pbuf_header_roundtrip_witness:
  "\<exists>S. pbuf_header demo (Some 0) (- 1) = Ok (0, S) \<and> pbuf_header S (Some 0) 1 = Ok (0, demo)"
  using pbuf_header_roundtrip [OF demo_packet(1), of 1] by (auto simp: demo_a_def)

text \<open>
  C39: \<open>pbuf_memfind\<close> is the search on the bytes of the packet: it returns the first offset, from the
  given one on, at which the bytes occur, across the borders of buffers, and \<open>0xFFFF\<close> if there is
  none.
\<close>

theorem pbuf_memfind_finds:
  assumes "packet S p qs" and "qs \<noteq> []" and "length mem = unat k" and "length (contents qs) < 65535"
  shows "pbuf_memfind S p mem k start =
    Ok (case first_at (contents qs) mem (unat start) of None \<Rightarrow> 0xffff | Some j \<Rightarrow> word_of_nat j)"
  using assms by (rule memfind_packet)

theorem pbuf_memfind_finds_witness:
  "pbuf_memfind demo (Some 0) [2, 3] 2 0 = Ok 1 \<and> pbuf_memfind demo (Some 0) [3, 2] 2 0 = Ok 0xffff"
  using pbuf_memfind_finds [OF demo_packet(1), of "[2, 3]" 2 0] pbuf_memfind_finds [OF demo_packet(1), of "[3, 2]" 2 0]
  unfolding demo_packet(2) by (simp add: first_at_def occurs_at_def upt_rec)

lemma linked_bound: "linked S p qs \<Longrightarrow> n \<in> addrs qs \<Longrightarrow> n < length S"
  using linked_live [of S p qs n] by force

text \<open>
  \<open>pbuf_coalesce\<close> on a chain of two or more buffers, none of them empty, that belongs to the
  caller: with room in the heap the result is one new buffer with the same bytes, and all buffers of
  the chain are given back; without it the chain itself is returned, untouched.
\<close>

theorem pbuf_coalesce_copies:
  assumes own: "owned S p (x # y # qs)" and solid: "solid (x # y # qs)" and c: "c = contents (x # y # qs)"
    and "room = 16 + head_room layer + LWIP_MEM_ALIGN_SIZE (length c)"
  shows "if room < 65536 \<and> heap_room E S (word_of_nat room)
    then \<exists>S' q. pbuf_coalesce E S p layer = Ok (Some (length S), S') \<and> owned S' (Some (length S)) [(length S, q)] \<and>
      contents [(length S, q)] = c \<and> (\<forall>m \<in> addrs (x # y # qs). S' ! m = None)
    else pbuf_coalesce E S p layer = Ok (p, S)"
proof -
  let ?qs = "x # y # qs" and ?n = "length S"
  obtain m pq where x: "x = (m, pq)" by fastforce
  have pk: "packet S p ?qs" using own by (simp add: owned_def)
  obtain k where "pb_next pq = Some k" using pk unfolding x packet_Cons by (cases y) (auto simp: packet_def)
  then have p: "p = Some m" "deref S p = Ok pq" "pb_next pq = Some k" "unat (tot_len pq) = length c"
    using pk unfolding c x packet_Cons by auto
  obtain q where q: "pbuf_alloc E S layer (tot_len pq) PBUF_RAM =
      (if room < 65536 \<and> heap_room E S (word_of_nat room) then Ok (Some ?n, S @ [Some q]) else Ok (None, S))"
    "packet (S @ [Some q]) (Some ?n) [(?n, q)]" "len q = tot_len pq" "ref q = 1"
    using alloc_ram [of E S layer "tot_len pq"] unfolding p(4) assms(4) by blast
  show ?thesis
  proof (cases "room < 65536 \<and> heap_room E S (word_of_nat room)")
    case False
    show ?thesis unfolding if_not_P [OF False] using q(1) p False by (auto simp: pbuf_coalesce_def)
  next
    case True
    have own': "owned (S @ [Some q]) p ?qs" using owned_append [OF own] by simp
    have less: "\<forall>k \<in> addrs ?qs. k < length S" using linked_bound [of S p ?qs] pk unfolding packet_def by blast
    obtain k r rs where "?qs = (k, r) # rs" "0 < unat (len r)" "contents ?qs \<noteq> []" using solid_nonempty [OF pk solid] by blast
    then have c0: "length c \<noteq> 0" by (simp add: c)
    have cq: "length (contents [(?n, q)]) = length c" using q(2,3) p(4) by (simp add: packet_Cons)
    let ?q = "refill q c" and ?S1 = "S @ [Some (refill q c)]"
    have fill: "set_all (S @ [Some q]) (filled [(?n, q)] c) = ?S1" using q(3) p(4) by simp
    have "pbuf_copy (S @ [Some q]) (Some ?n) p = Ok (ERR_OK, ?S1)"
    proof -
      have "solid [(?n, q)]" using c0 p(4) q(3) by (auto simp: solid_def)
      moreover have "addrs [(?n, q)] \<inter> addrs ?qs = {}" using less by auto
      ultimately show ?thesis
        using copy_packet [OF q(2), of p ?qs] own' solid cq fill by (simp add: owned_def c del: contents_simps)
    qed
    moreover have own1: "owned ?S1 p ?qs" using owned_append [OF own] by simp
    ultimately have co: "pbuf_coalesce E S p layer = Ok (Some ?n, release_all ?S1 ?qs)"
      using True p q(1) free_owned [OF own1] by (simp add: pbuf_coalesce_def)
    have data: "sound ?q" "data_of ?q = c"
      using refill_data [of q c] q(2,3) p(4) by (simp_all add: packet_Cons)
    have "owned ?S1 (Some ?n) [(?n, ?q)]"
      using q(2-4) data by (simp add: owned_def packet_Cons sole_def)
    then have "owned (release_all ?S1 ?qs) (Some ?n) [(?n, ?q)]"
      using less by (intro owned_disjoint_release) auto
    moreover have "release_all ?S1 ?qs ! k = None" if "k \<in> addrs ?qs" for k
      using less that by (subst release_all_nth) (auto simp: less_SucI)
    ultimately show ?thesis
      unfolding if_P [OF True] using co data(2)
      by (intro exI [of _ "release_all ?S1 ?qs"] exI [of _ ?q]) simp
  qed
qed

theorem pbuf_coalesce_copies_witness:
  "\<exists>S q. pbuf_coalesce demo_env demo (Some 0) PBUF_RAW = Ok (Some 3, S) \<and> contents [(3, q)] = [1, 2, 3] \<and> S ! 0 = None"
proof -
  have "owned demo (Some 0) [(0, demo_a), (1, demo_b)]" "solid [(0, demo_a), (1, demo_b)]" "length demo = 3"
    using demo_packet(1) by (simp_all add: owned_def sole_def solid_def demo_a_def demo_b_def demo_def)
  with pbuf_coalesce_copies [of demo "Some 0" "(0, demo_a)" "(1, demo_b)" "[]" "[1, 2, 3]" _ PBUF_RAW demo_env]
  show ?thesis
    unfolding demo_packet(2) by (force simp: head_room_def LWIP_MEM_ALIGN_SIZE_def demo_env_def)
qed

section \<open>The echo server\<close>


text \<open>A stack that takes everything, and a connection on it that has received three bytes.\<close>

definition echo_tcp :: "u8 list tcp_api" where
  "echo_tcp =
     \<lparr>tcp_sndbuf = \<lambda>s p. 1000, tcp_write = \<lambda>s p data more. (ERR_OK, s @ data), tcp_output = \<lambda>s p. s,
      tcp_recved = \<lambda>s p n. s, tcp_close = \<lambda>s p. (ERR_OK, s), tcp_abort = \<lambda>s p. s,
      tcp_new = \<lambda>s. (Some 0, s), tcp_bind = \<lambda>s p. (ERR_OK, s), tcp_connect = \<lambda>s p ip port. (ERR_OK, s)\<rparr>"

definition accepted_conn :: "u8 list echo" where
  "accepted_conn =
     \<lparr>echo_arg = Some \<lparr>es_state = ES_ACCEPTED, retries = 0, es_pcb = 0, es_p = None\<rparr>, callbacks = True, pbufs = [], stack = []\<rparr>"





text \<open>
  The poll callback breaks the connection. When it runs while TCP has no room for its banner, the
  structure is left pointing to a buffer that was given back: the next acknowledgement makes the
  server read a buffer that is no longer its own, and on a connection that is closing the callback
  gives the buffer back twice.
\<close>

theorem echo_poll_dangles:
  assumes "echo_arg w = Some e" and "memp_malloc_pool (pbufs w)" and "unat (tcp_sndbuf io (stack w) tpcb) < 246"
  shows "if es_state e = ES_CLOSING then tcpecho_raw_poll io E tpcb w = Halt Freed
    else \<exists>w'. tcpecho_raw_poll io E tpcb w = Ok (ERR_OK, w') \<and> tcpecho_raw_sent io tpcb w' = Halt Freed"
  using poll_gives_back [OF assms] by simp

theorem echo_poll_dangles_witness:
  "\<exists>w'. tcpecho_raw_poll (echo_tcp\<lparr>tcp_sndbuf := \<lambda>s p. 100\<rparr>) demo_env 0 accepted_conn = Ok (ERR_OK, w') \<and>
     tcpecho_raw_sent (echo_tcp\<lparr>tcp_sndbuf := \<lambda>s p. 100\<rparr>) 0 w' = Halt Freed"
  using echo_poll_dangles [of accepted_conn "\<lparr>es_state = ES_ACCEPTED, retries = 0, es_pcb = 0, es_p = None\<rparr>"
      "echo_tcp\<lparr>tcp_sndbuf := \<lambda>s p. 100\<rparr>" 0 demo_env]
  by (simp add: accepted_conn_def echo_tcp_def memp_malloc_pool_def in_use_def PBUF_POOL_SIZE_def)

section \<open>The other servers\<close>

text \<open>
  The UDP responder answers a datagram of fewer than 100 bytes that lies in one buffer with the
  same bytes and a zero, and gives back both the datagram and the buffer of the answer; no other
  buffer is touched. A datagram of 100 bytes or more makes it write behind its static array or, when
  the datagram is split, read behind the first buffer.
\<close>

theorem udp_responder_bounds:
  assumes "owned S p ((n, q) # qs)" and "length buf = 100" and "d = contents ((n, q) # qs)"
    and "heap_room E S (word_of_nat (16 + LWIP_MEM_ALIGN_SIZE (Suc (length d))))"
  shows "(length d < 100 \<and> qs = [] \<longrightarrow>
      (\<exists>buf' S'. drv_UdpServer_recv E p (buf, S) = Ok (d @ [0], buf', S') \<and> length buf' = 100 \<and>
        S' ! n = None \<and> S' ! length S = None \<and> (\<forall>m < length S. m \<noteq> n \<longrightarrow> S' ! m = S ! m))) \<and>
    (100 \<le> length d \<longrightarrow> drv_UdpServer_recv E p (buf, S) = Halt Overrun)"
proof (intro conjI impI)
  assume "length d < 100 \<and> qs = []"
  then show "\<exists>buf' S'. drv_UdpServer_recv E p (buf, S) = Ok (d @ [0], buf', S') \<and> length buf' = 100 \<and>
      S' ! n = None \<and> S' ! length S = None \<and> (\<forall>m < length S. m \<noteq> n \<longrightarrow> S' ! m = S ! m)"
    using responder_answers [of S p n q buf E] assms by auto
next
  assume "100 \<le> length d"
  moreover have "packet S p ((n, q) # qs)" "length d = unat (tot_len q)" using assms(1,3) by (auto simp: owned_def packet_Cons)
  ultimately show "drv_UdpServer_recv E p (buf, S) = Halt Overrun" using responder_overruns [of S p n q qs buf E] assms(2) by simp
qed

theorem udp_responder_bounds_witness:
  "\<exists>buf' S'. drv_UdpServer_recv demo_env (Some 2) (replicate 100 0, demo) = Ok ([4, 0], buf', S')"
proof -
  let ?q = "demo_b\<lparr>area := [4]\<rparr>"
  have "owned demo (Some 2) [(2, ?q)]" using demo_packet(3) by (simp add: owned_def sole_def demo_b_def)
  from udp_responder_bounds [OF this _ refl, of "replicate 100 0" demo_env]
  show ?thesis unfolding demo_packet(4) by (auto simp: demo_env_def)
qed

text \<open>
  The TCP server never writes behind its receive buffer. Data that arrives on an accepted
  connection, in a chain of any number of buffers and of any length, is copied as far as the buffer
  of 2000 bytes goes, the rest of the buffer is zero, the flag for new data is set, and the packet is
  given back.
\<close>

theorem tcp_server_receives:
  assumes "srv_arg w = Some e" and "ts_state e = ES_TCPSERVER_ACCEPTED" and "owned (srv_pbufs w) p qs" and "qs \<noteq> []"
    and "length (tcp_server_recvbuf w) = 2000"
  shows "\<exists>w'. tcp_server_recv io tpcb p ERR_OK w = Ok (ERR_OK, w') \<and>
    tcp_server_recvbuf w' = take 2000 (contents qs @ replicate 2000 0) \<and>
    tcp_server_flag w' = or (tcp_server_flag w) 0x40 \<and> srv_pbufs w' = release_all (srv_pbufs w) qs \<and> srv_arg w' = Some e"
proof -
  have pk: "packet (srv_pbufs w) p qs" using assms(3) by (simp add: owned_def)
  obtain q where q: "deref (srv_pbufs w) p = Ok q" using packet_total [OF pk assms(4)] by blast
  obtain n where p: "p = Some n" using pk assms(4) by (cases qs) (auto simp: packet_def)
  have zero: "map (\<lambda>b. 0) (tcp_server_recvbuf w) = (replicate 2000 0 :: u8 list)"
    using assms(5) by (simp add: map_replicate_const)
  have "recv_copy (srv_pbufs w) p (replicate 2000 0) 0 = Some (Ok (take 2000 (contents qs @ replicate 2000 0)))"
    using recv_copy_packet [OF pk, of "replicate 2000 0" 0] by (simp add: min_def)
  then show ?thesis
    using assms(1,2) q p free_owned [OF assms(3)] by (simp add: tcp_server_recv_def zero loop_result_def)
qed

theorem tcp_server_receives_witness:
  "\<exists>w'. tcp_server_recv echo_tcp 0 (Some 0) ERR_OK
      \<lparr>srv_arg = Some \<lparr>ts_state = ES_TCPSERVER_ACCEPTED, ts_pcb = 0, ts_p = None\<rparr>, srv_hooks = True, tcp_server_flag = 0x20,
       tcp_server_recvbuf = replicate 2000 9, srv_pbufs = demo, srv_stack = []\<rparr> = Ok (ERR_OK, w') \<and>
    take 4 (tcp_server_recvbuf w') = [1, 2, 3, 0]"
proof -
  let ?w = "\<lparr>srv_arg = Some \<lparr>ts_state = ES_TCPSERVER_ACCEPTED, ts_pcb = 0, ts_p = None\<rparr>, srv_hooks = True, tcp_server_flag = 0x20,
       tcp_server_recvbuf = replicate 2000 9, srv_pbufs = demo, srv_stack = ([] :: u8 list)\<rparr>"
  have "owned (srv_pbufs ?w) (Some 0) [(0, demo_a), (1, demo_b)]"
    using demo_packet(1) by (simp add: owned_def sole_def demo_a_def demo_b_def)
  from tcp_server_receives [OF _ _ this, of _ echo_tcp 0] obtain w' where
    "tcp_server_recv echo_tcp 0 (Some 0) ERR_OK ?w = Ok (ERR_OK, w')"
    "tcp_server_recvbuf w' = take 2000 ([1, 2, 3] @ replicate 2000 0)" unfolding demo_packet(2) by auto
  then show ?thesis by auto
qed

end
