(* ===== verification/LwipHeap.thy ===== *)
theory LwipHeap
  imports LwipPbuf
begin

text \<open>
  The heap of lwIP (\<open>src/lwip-2.0.3/src/core/mem.c\<close>), from which \<open>pbuf_alloc\<close> and the servers take
  their memory, in the configuration of \<open>src/user/lwipopts.h\<close>: 15 kB, alignment 4, no pools and no
  freeing from interrupts. The heap is the array of bytes it is in the code: every block starts with
  a \<open>struct mem\<close> of 8 bytes whose fields are the first five of them, and lies between that
  structure and the next one. Pointers into the heap are offsets; \<open>mem_size_t\<close> is a word of 16 bits.
  Statistics, the mutex and the checks that only print are left out.
\<close>

section \<open>Structures in memory\<close>

definition MIN_SIZE_ALIGNED :: nat where
  "MIN_SIZE_ALIGNED = LWIP_MEM_ALIGN_SIZE 12"

definition SIZEOF_STRUCT_MEM :: nat where
  "SIZEOF_STRUCT_MEM = LWIP_MEM_ALIGN_SIZE 6"

definition MEM_SIZE_ALIGNED :: nat where
  "MEM_SIZE_ALIGNED = LWIP_MEM_ALIGN_SIZE (1024 * 15)"

record struct_mem =
  mem_next :: u16
  mem_prev :: u16
  mem_used :: u8

definition read_u16 :: "u8 list \<Rightarrow> nat \<Rightarrow> u16" where
  "read_u16 R p = word_of_nat (unat (R ! p) + 256 * unat (R ! Suc p))"

definition mem_at :: "u8 list \<Rightarrow> nat \<Rightarrow> struct_mem outcome" where
  "mem_at R p =
     (if p + SIZEOF_STRUCT_MEM \<le> length R
      then Ok \<lparr>mem_next = read_u16 R p, mem_prev = read_u16 R (p + 2), mem_used = R ! (p + 4)\<rparr>
      else Halt Overrun)"

definition put_mem :: "u8 list \<Rightarrow> nat \<Rightarrow> struct_mem \<Rightarrow> u8 list" where
  "put_mem R p m =
     R[p := word_of_nat (unat (mem_next m) mod 256), Suc p := word_of_nat (unat (mem_next m) div 256),
       p + 2 := word_of_nat (unat (mem_prev m) mod 256), p + 3 := word_of_nat (unat (mem_prev m) div 256),
       p + 4 := mem_used m]"

text \<open>An assignment to fields of the structure at \<open>p\<close>.\<close>

definition set_mem :: "u8 list \<Rightarrow> nat \<Rightarrow> (struct_mem \<Rightarrow> struct_mem) \<Rightarrow> u8 list outcome" where
  "set_mem R p f = bind_outcome (mem_at R p) (\<lambda>m. Ok (put_mem R p (f m)))"

section \<open>The program\<close>

text \<open>\<open>ram\<close> is the memory from its first aligned address on; \<open>ram_end\<close> is \<open>MEM_SIZE_ALIGNED\<close>.\<close>

record mem_heap =
  ram :: "u8 list"
  lfree :: nat

definition mem_init :: "u8 list \<Rightarrow> mem_heap outcome" where
  "mem_init R =
     bind_outcome (set_mem R 0 (\<lambda>m. \<lparr>mem_next = word_of_nat MEM_SIZE_ALIGNED, mem_prev = 0, mem_used = 0\<rparr>)) (\<lambda>R.
     bind_outcome (set_mem R MEM_SIZE_ALIGNED
       (\<lambda>m. \<lparr>mem_next = word_of_nat MEM_SIZE_ALIGNED, mem_prev = word_of_nat MEM_SIZE_ALIGNED, mem_used = 1\<rparr>)) (\<lambda>R.
       Ok \<lparr>ram = R, lfree = 0\<rparr>))"

definition plug_forward :: "mem_heap \<Rightarrow> nat \<Rightarrow> mem_heap outcome" where
  "plug_forward h mem =
     bind_outcome (mem_at (ram h) mem) (\<lambda>m.
     let nmem = unat (mem_next m) in
     bind_outcome (mem_at (ram h) nmem) (\<lambda>n.
       if mem \<noteq> nmem \<and> mem_used n = 0 \<and> nmem \<noteq> MEM_SIZE_ALIGNED then
         bind_outcome (set_mem (ram h) mem (\<lambda>m. m\<lparr>mem_next := mem_next n\<rparr>)) (\<lambda>R.
         bind_outcome (set_mem R (unat (mem_next n)) (\<lambda>x. x\<lparr>mem_prev := word_of_nat mem\<rparr>)) (\<lambda>R.
           Ok \<lparr>ram = R, lfree = (if lfree h = nmem then mem else lfree h)\<rparr>))
       else Ok h))"

definition plug_backward :: "mem_heap \<Rightarrow> nat \<Rightarrow> mem_heap outcome" where
  "plug_backward h mem =
     bind_outcome (mem_at (ram h) mem) (\<lambda>m.
     let pmem = unat (mem_prev m) in
     bind_outcome (mem_at (ram h) pmem) (\<lambda>p.
       if pmem \<noteq> mem \<and> mem_used p = 0 then
         bind_outcome (set_mem (ram h) pmem (\<lambda>p. p\<lparr>mem_next := mem_next m\<rparr>)) (\<lambda>R.
         bind_outcome (set_mem R (unat (mem_next m)) (\<lambda>x. x\<lparr>mem_prev := word_of_nat pmem\<rparr>)) (\<lambda>R.
           Ok \<lparr>ram = R, lfree = (if lfree h = mem then pmem else lfree h)\<rparr>))
       else Ok h))"

definition plug_holes :: "mem_heap \<Rightarrow> nat \<Rightarrow> mem_heap outcome" where
  "plug_holes h mem = bind_outcome (plug_forward h mem) (\<lambda>h. plug_backward h mem)"

text \<open>
  \<open>rmem\<close> is a pointer, \<open>None\<close> being NULL, as its distance from the start of the heap. A pointer that
  is not into the heap is ignored.
\<close>

definition mem_free :: "mem_heap \<Rightarrow> int option \<Rightarrow> mem_heap outcome" where
  "mem_free h rmem =
     (case rmem of None \<Rightarrow> Ok h
      | Some r \<Rightarrow>
          if r < 0 \<or> r \<ge> int MEM_SIZE_ALIGNED then Ok h
          else if r < int SIZEOF_STRUCT_MEM then Halt Overrun
          else
            let mem = nat r - SIZEOF_STRUCT_MEM in
            bind_outcome (set_mem (ram h) mem (\<lambda>m. m\<lparr>mem_used := 0\<rparr>)) (\<lambda>R.
              plug_holes \<lparr>ram = R, lfree = (if mem < lfree h then mem else lfree h)\<rparr> mem))"

text \<open>The size asked for, rounded up in 16 bits, and at least the minimum.\<close>

definition block_size :: "u16 \<Rightarrow> u16" where
  "block_size n =
     (let n = word_of_nat (LWIP_MEM_ALIGN_SIZE (unat n)) in
      if unat n < MIN_SIZE_ALIGNED then word_of_nat MIN_SIZE_ALIGNED else n)"

text \<open>A free block at \<open>ptr2\<close> between \<open>ptr\<close> and \<open>next\<close>.\<close>

definition link_free :: "u8 list \<Rightarrow> u16 \<Rightarrow> u16 \<Rightarrow> u16 \<Rightarrow> u8 list outcome" where
  "link_free R ptr ptr2 next_arg =
     bind_outcome (set_mem R (unat ptr2) (\<lambda>m. \<lparr>mem_next = next_arg, mem_prev = ptr, mem_used = 0\<rparr>)) (\<lambda>R.
     bind_outcome (set_mem R (unat ptr) (\<lambda>m. m\<lparr>mem_next := ptr2\<rparr>)) (\<lambda>R.
       if unat next_arg \<noteq> MEM_SIZE_ALIGNED
       then set_mem R (unat next_arg) (\<lambda>m. m\<lparr>mem_prev := ptr2\<rparr>) else Ok R))"

definition mem_trim :: "mem_heap \<Rightarrow> int \<Rightarrow> u16 \<Rightarrow> (int option \<times> mem_heap) outcome" where
  "mem_trim h rmem newsize =
     (let newsize = block_size newsize in
      if unat newsize > MEM_SIZE_ALIGNED then Ok (None, h)
      else if rmem < 0 \<or> rmem \<ge> int MEM_SIZE_ALIGNED then Ok (Some rmem, h)
      else if rmem < int SIZEOF_STRUCT_MEM then Halt Overrun
      else
        let ptr = word_of_nat (nat rmem - SIZEOF_STRUCT_MEM) :: u16 in
        bind_outcome (mem_at (ram h) (unat ptr)) (\<lambda>m.
        let old = mem_next m - ptr - word_of_nat SIZEOF_STRUCT_MEM in
        if newsize > old then Ok (None, h)
        else if newsize = old then Ok (Some rmem, h)
        else
          let ptr2 = ptr + word_of_nat SIZEOF_STRUCT_MEM + newsize in
          bind_outcome (mem_at (ram h) (unat (mem_next m))) (\<lambda>m2.
            if mem_used m2 = 0 then
              bind_outcome (link_free (ram h) ptr ptr2 (mem_next m2)) (\<lambda>R.
                Ok (Some rmem, \<lparr>ram = R, lfree = (if lfree h = unat (mem_next m) then unat ptr2 else lfree h)\<rparr>))
            else if unat newsize + SIZEOF_STRUCT_MEM + MIN_SIZE_ALIGNED \<le> unat old then
              bind_outcome (link_free (ram h) ptr ptr2 (mem_next m)) (\<lambda>R.
                Ok (Some rmem, \<lparr>ram = R, lfree = (if unat ptr2 < lfree h then unat ptr2 else lfree h)\<rparr>))
            else Ok (Some rmem, h))))"

text \<open>The search for the lowest free block, from \<open>cur\<close> on.\<close>

partial_function (option) lowest_free :: "u8 list \<Rightarrow> nat \<Rightarrow> nat outcome option" where
  "lowest_free R cur =
     (case mem_at R cur of Halt e \<Rightarrow> Some (Halt e)
      | Ok m \<Rightarrow>
          if mem_used m \<noteq> 0 \<and> cur \<noteq> MEM_SIZE_ALIGNED then lowest_free R (unat (mem_next m))
          else Some (Ok cur))"

text \<open>
  The free block at \<open>ptr\<close>, which is big enough, is taken, and split if the rest can hold a block. The
  arithmetic on its size is in 32 bits.
\<close>

definition take_block :: "mem_heap \<Rightarrow> u16 \<Rightarrow> struct_mem \<Rightarrow> u16 \<Rightarrow> (nat option \<times> mem_heap) outcome" where
  "take_block h ptr m size_arg =
     bind_outcome
       (if (ucast (mem_next m) - (ucast ptr + word_of_nat SIZEOF_STRUCT_MEM) :: u32)
             \<ge> ucast size_arg + word_of_nat SIZEOF_STRUCT_MEM + word_of_nat MIN_SIZE_ALIGNED
        then link_free (ram h) ptr (ptr + word_of_nat SIZEOF_STRUCT_MEM + size_arg) (mem_next m)
        else Ok (ram h)) (\<lambda>R.
     bind_outcome (set_mem R (unat ptr) (\<lambda>m. m\<lparr>mem_used := 1\<rparr>)) (\<lambda>R.
     bind_outcome (if unat ptr = lfree h then loop_result (lowest_free R (unat ptr)) else Ok (lfree h)) (\<lambda>l.
       Ok (Some (unat ptr + SIZEOF_STRUCT_MEM), \<lparr>ram = R, lfree = l\<rparr>))))"

partial_function (option) malloc_loop ::
  "mem_heap \<Rightarrow> u16 \<Rightarrow> u16 \<Rightarrow> (nat option \<times> mem_heap) outcome option" where
  "malloc_loop h size_arg ptr =
     (if unat ptr < MEM_SIZE_ALIGNED - unat size_arg then
        (case mem_at (ram h) (unat ptr) of Halt e \<Rightarrow> Some (Halt e)
         | Ok m \<Rightarrow>
             if mem_used m = 0 \<and> (ucast (mem_next m) - (ucast ptr + word_of_nat SIZEOF_STRUCT_MEM) :: u32) \<ge> ucast size_arg
             then Some (take_block h ptr m size_arg)
             else malloc_loop h size_arg (mem_next m))
      else Some (Ok (None, h)))"

definition mem_malloc :: "mem_heap \<Rightarrow> u16 \<Rightarrow> (nat option \<times> mem_heap) outcome" where
  "mem_malloc h size_arg =
     (if size_arg = 0 then Ok (None, h)
      else if unat (block_size size_arg) > MEM_SIZE_ALIGNED then Ok (None, h)
      else loop_result (malloc_loop h (block_size size_arg) (word_of_nat (lfree h))))"

text \<open>The product is computed in 32 bits and passed on in 16.\<close>

definition mem_calloc :: "mem_heap \<Rightarrow> u16 \<Rightarrow> u16 \<Rightarrow> (nat option \<times> mem_heap) outcome" where
  "mem_calloc h count size_arg =
     bind_outcome (mem_malloc h (count * size_arg)) (\<lambda>(p, h).
       case p of None \<Rightarrow> Ok (None, h)
       | Some q \<Rightarrow>
           let n = unat count * unat size_arg in
           bind_outcome (memcpy (ram h) q (replicate n 0) 0 n) (\<lambda>R. Ok (Some q, h\<lparr>ram := R\<rparr>)))"

end
