(* ===== verification/LwipBlocks.thy ===== *)
theory LwipBlocks
  imports LwipHeap
begin

text \<open>
  The blocks of the heap of lwIP: which lists of blocks the bytes of the heap stand for, and how
  each operation of \<open>mem.c\<close> changes the list.
\<close>

section \<open>Reading what was written\<close>

lemma heap_consts [simp]: "SIZEOF_STRUCT_MEM = 8" "MIN_SIZE_ALIGNED = 12" "MEM_SIZE_ALIGNED = 15360"
  by (simp_all add: SIZEOF_STRUCT_MEM_def MIN_SIZE_ALIGNED_def MEM_SIZE_ALIGNED_def LWIP_MEM_ALIGN_SIZE_def)

lemma unat_u16: "n < 65536 \<Longrightarrow> unat (word_of_nat n :: u16) = n"
  by (simp add: unat_of_nat)

lemma length_put_mem [simp]: "length (put_mem R p m) = length R"
  by (simp add: put_mem_def)

lemma nth_put_mem: "i < p \<or> p + 5 \<le> i \<Longrightarrow> put_mem R p m ! i = R ! i"
  by (auto simp: put_mem_def nth_list_update)

lemma u16_bytes:
  "word_of_nat (unat (word_of_nat (unat w mod 256) :: u8) + 256 * unat (word_of_nat (unat w div 256) :: u8)) = (w :: u16)"
proof -
  have "unat w div 256 < 256" using unsigned_less [where 'a = nat, of w] by simp
  then have "unat (word_of_nat (unat w div 256) :: u8) = unat w div 256" by (simp add: unat_of_nat)
  moreover have "unat (word_of_nat (unat w mod 256) :: u8) = unat w mod 256" by (simp add: unat_of_nat)
  ultimately show ?thesis by (simp only: mod_mult_div_eq) simp
qed

lemma nth_put_mem_same:
  assumes "p + 8 \<le> length R"
  shows "put_mem R p m ! p = word_of_nat (unat (mem_next m) mod 256)" "put_mem R p m ! Suc p = word_of_nat (unat (mem_next m) div 256)"
    "put_mem R p m ! (p + 2) = word_of_nat (unat (mem_prev m) mod 256)"
    "put_mem R p m ! Suc (p + 2) = word_of_nat (unat (mem_prev m) div 256)" "put_mem R p m ! (p + 4) = mem_used m"
  using assms by (simp_all add: put_mem_def nth_list_update)

lemma mem_at_put_same: "p + 8 \<le> length R \<Longrightarrow> mem_at (put_mem R p m) p = Ok m"
  unfolding mem_at_def read_u16_def by (simp only: length_put_mem nth_put_mem_same u16_bytes) simp

text \<open>\<open>R'\<close> differs from \<open>R\<close> only in the structures at the positions in \<open>ps\<close>.\<close>

definition same_but :: "nat set \<Rightarrow> u8 list \<Rightarrow> u8 list \<Rightarrow> bool" where
  "same_but ps R R' \<longleftrightarrow> length R' = length R \<and> (\<forall>i. (\<forall>p \<in> ps. i < p \<or> p + 5 \<le> i) \<longrightarrow> R' ! i = R ! i)"

lemma same_but_refl: "same_but ps R R"
  by (simp add: same_but_def)

lemma same_but_put: "p \<in> ps \<Longrightarrow> same_but ps R (put_mem R p m)"
  by (auto simp: same_but_def nth_put_mem)

lemma same_but_trans: "same_but ps R R' \<Longrightarrow> same_but qs R' R'' \<Longrightarrow> same_but (ps \<union> qs) R R''"
  by (simp add: same_but_def)

lemma same_but_mono: "same_but ps R R' \<Longrightarrow> ps \<subseteq> qs \<Longrightarrow> same_but qs R R'"
  by (auto simp: same_but_def)

lemma mem_at_same_but:
  assumes "same_but ps R R'" and "\<forall>p \<in> ps. q + 5 \<le> p \<or> p + 5 \<le> q"
  shows "mem_at R' q = mem_at R q"
proof -
  have "R' ! (q + k) = R ! (q + k)" if "k < 5" for k
  proof -
    have "\<forall>p \<in> ps. q + k < p \<or> p + 5 \<le> q + k" using assms(2) that by fastforce
    then show ?thesis using assms(1) by (simp add: same_but_def)
  qed
  from this [of 0] this [of 1] this [of 2] this [of 3] this [of 4]
  have "R' ! q = R ! q" "R' ! Suc q = R ! Suc q" "R' ! (q + 2) = R ! (q + 2)" "R' ! Suc (q + 2) = R ! Suc (q + 2)"
    "R' ! (q + 4) = R ! (q + 4)" by (simp_all add: numeral_eq_Suc)
  then show ?thesis using assms(1) unfolding mem_at_def read_u16_def same_but_def by (simp only:)
qed

lemma set_mem_Ok: "mem_at R p = Ok m \<Longrightarrow> set_mem R p f = Ok (put_mem R p (f m))"
  by (simp add: set_mem_def)

lemma mem_at_fits: "mem_at R p = Ok m \<Longrightarrow> p + 8 \<le> length R"
  by (simp add: mem_at_def split: if_splits)

section \<open>Blocks\<close>

text \<open>A block is the size of its data and whether it is in use.\<close>

type_synonym blk = "nat \<times> bool"

fun blocks_at :: "u8 list \<Rightarrow> nat \<Rightarrow> nat \<Rightarrow> blk list \<Rightarrow> bool" where
  "blocks_at R pr p [] = True"
| "blocks_at R pr p ((n, u) # bs) =
     (mem_at R p = Ok \<lparr>mem_next = word_of_nat (p + 8 + n), mem_prev = word_of_nat pr, mem_used = (if u then 1 else 0)\<rparr> \<and>
      12 \<le> n \<and> 4 dvd n \<and> blocks_at R p (p + 8 + n) bs)"

fun after :: "nat \<Rightarrow> blk list \<Rightarrow> nat" where
  "after p [] = p"
| "after p ((n, u) # bs) = after (p + 8 + n) bs"

fun before :: "nat \<Rightarrow> nat \<Rightarrow> blk list \<Rightarrow> nat" where
  "before pr p [] = pr"
| "before pr p ((n, u) # bs) = before p (p + 8 + n) bs"

fun first_free :: "nat \<Rightarrow> blk list \<Rightarrow> nat" where
  "first_free p [] = p"
| "first_free p ((n, u) # bs) = (if u then first_free (p + 8 + n) bs else p)"

text \<open>The memory of the blocks in use: start and size.\<close>

fun areas :: "nat \<Rightarrow> blk list \<Rightarrow> (nat \<times> nat) set" where
  "areas p [] = {}"
| "areas p ((n, u) # bs) = (if u then {(p + 8, n)} else {}) \<union> areas (p + 8 + n) bs"

definition tidy :: "blk list \<Rightarrow> bool" where
  "tidy = successively (\<lambda>a b. snd a \<or> snd b)"

definition tail_at :: "u8 list \<Rightarrow> nat \<Rightarrow> nat \<Rightarrow> blk list \<Rightarrow> bool" where
  "tail_at R pr p bs \<longleftrightarrow> blocks_at R pr p bs \<and> after p bs = 15360 \<and>
     (\<exists>x. mem_at R 15360 = Ok \<lparr>mem_next = 15360, mem_prev = x, mem_used = 1\<rparr>)"

definition heap_ok :: "mem_heap \<Rightarrow> blk list \<Rightarrow> bool" where
  "heap_ok h bs \<longleftrightarrow> tail_at (ram h) 0 0 bs \<and> tidy bs \<and> lfree h = first_free 0 bs"

lemma after_ge: "p \<le> after p bs"
  by (induction p bs rule: after.induct) simp_all

lemma after_append [simp]: "after p (as @ bs) = after (after p as) bs"
  by (induction p as rule: after.induct) simp_all

lemma blocks_at_append: "blocks_at R pr p (as @ bs) \<longleftrightarrow> blocks_at R pr p as \<and> blocks_at R (before pr p as) (after p as) bs"
  by (induction R pr p as rule: blocks_at.induct) auto

lemma areas_append: "areas p (as @ bs) = areas p as \<union> areas (after p as) bs"
  by (induction p as rule: areas.induct) auto

lemma first_free_append:
  "first_free p (as @ bs) = (if \<forall>b \<in> set as. snd b then first_free (after p as) bs else first_free p as)"
  by (induction p as rule: first_free.induct) auto

lemma first_free_all: "\<forall>b \<in> set as. snd b \<Longrightarrow> first_free p as = after p as"
  by (induction p as rule: first_free.induct) auto

lemma first_free_ge: "p \<le> first_free p bs"
  by (induction p bs rule: first_free.induct) auto

lemma first_free_le: "first_free p as \<le> after p as"
proof (induction p as rule: first_free.induct)
  case (2 p n u bs)
  then show ?case using after_ge [of "p + 8 + n" bs] by auto
qed simp

lemma first_free_less: "\<not> (\<forall>b \<in> set as. snd b) \<Longrightarrow> first_free p as < after p as"
proof (induction p as rule: first_free.induct)
  case (2 p n u bs)
  then show ?case using after_ge [of "p + 8 + n" bs] by auto
qed simp

lemma areas_range: "(a, k) \<in> areas p bs \<Longrightarrow> p + 8 \<le> a \<and> a + k \<le> after p bs"
proof (induction p bs rule: areas.induct)
  case (2 p n u bs)
  then show ?case using after_ge [of "p + 8 + n" bs] by (auto split: if_splits)
qed simp

lemma tail_at_append:
  "tail_at R pr p (as @ bs) \<longleftrightarrow> blocks_at R pr p as \<and> tail_at R (before pr p as) (after p as) bs"
  by (auto simp: tail_at_def blocks_at_append)

lemma tail_at_Cons:
  "tail_at R pr p ((n, u) # bs) \<longleftrightarrow>
     mem_at R p = Ok \<lparr>mem_next = word_of_nat (p + 8 + n), mem_prev = word_of_nat pr, mem_used = (if u then 1 else 0)\<rparr> \<and>
     12 \<le> n \<and> 4 dvd n \<and> tail_at R p (p + 8 + n) bs"
  by (auto simp: tail_at_def)

lemma tail_at_le: "tail_at R pr p bs \<Longrightarrow> p \<le> 15360 \<and> 15368 \<le> length R"
  using after_ge [of p bs] mem_at_fits [of R 15360] by (auto simp: tail_at_def)

lemma blocks_at_same_but:
  assumes "same_but ps R R'" and "\<forall>q \<in> ps. q + 5 \<le> p \<or> after p bs \<le> q"
  shows "blocks_at R pr p bs \<Longrightarrow> blocks_at R' pr p bs"
  using assms(2)
proof (induction bs arbitrary: pr p)
  case (Cons b bs)
  obtain n u where b: "b = (n, u)" by fastforce
  have "\<forall>q \<in> ps. p + 5 \<le> q \<or> q + 5 \<le> p" using Cons(3) after_ge [of "p + 8 + n" bs] by (auto simp: b)
  moreover have "\<forall>q \<in> ps. q + 5 \<le> p + 8 + n \<or> after (p + 8 + n) bs \<le> q" using Cons(3) by (auto simp: b)
  ultimately show ?case using Cons mem_at_same_but [OF assms(1), of p] by (simp add: b)
qed simp

lemma tail_at_same_but:
  assumes "same_but ps R R'" and "\<forall>q \<in> ps. q + 5 \<le> p" and "tail_at R pr p bs"
  shows "tail_at R' pr p bs"
proof -
  have "\<forall>q \<in> ps. 15360 + 5 \<le> q \<or> q + 5 \<le> 15360" using assms(2) tail_at_le [OF assms(3)] by fastforce
  then show ?thesis
    using assms(3) blocks_at_same_but [OF assms(1)] mem_at_same_but [OF assms(1)] assms(2)
    by (auto simp: tail_at_def)
qed

text \<open>Another predecessor for the rest of the heap.\<close>

lemma relink_tail:
  assumes "tail_at R pr p bs"
  shows "\<exists>R'. set_mem R p (\<lambda>x. x\<lparr>mem_prev := word_of_nat pr'\<rparr>) = Ok R' \<and> tail_at R' pr' p bs \<and> same_but {p} R R'"
proof (cases bs)
  case Nil
  then show ?thesis using assms mem_at_fits [of R 15360]
    by (auto simp: tail_at_def set_mem_def mem_at_put_same same_but_put)
next
  case (Cons b cs)
  obtain n u where b: "b = (n, u)" by fastforce
  note t = assms [unfolded Cons b tail_at_Cons]
  let ?R = "put_mem R p \<lparr>mem_next = word_of_nat (p + 8 + n), mem_prev = word_of_nat pr', mem_used = (if u then 1 else 0)\<rparr>"
  have same: "same_but {p} R ?R" by (simp add: same_but_put)
  have "tail_at ?R p (p + 8 + n) cs" by (rule tail_at_same_but [OF same]) (use t in simp_all)
  then show ?thesis using t same mem_at_fits [of R p] by (simp add: set_mem_def Cons b tail_at_Cons mem_at_put_same)
qed

lemma relink_tail_inner:
  assumes "tail_at R pr p bs"
  shows "\<exists>R'. (if unat (word_of_nat p :: u16) \<noteq> 15360 then set_mem R (unat (word_of_nat p :: u16)) (\<lambda>x. x\<lparr>mem_prev := word_of_nat pr'\<rparr>)
      else Ok R) = Ok R' \<and> tail_at R' pr' p bs \<and> same_but {p} R R'"
proof (cases "p = 15360")
  case True
  moreover have "bs = []"
  proof (cases bs)
    case (Cons b cs)
    obtain n u where "b = (n, u)" by fastforce
    then show ?thesis using assms after_ge [of "p + 8 + n" cs] True by (simp add: tail_at_def Cons)
  qed
  ultimately show ?thesis using assms by (simp add: tail_at_def unat_u16 same_but_refl)
next
  case False
  moreover have "unat (word_of_nat p :: u16) = p" using tail_at_le [OF assms] by (simp add: unat_u16)
  ultimately show ?thesis using relink_tail [OF assms] by simp
qed

text \<open>A free block of size \<open>k\<close> in front of the rest of the heap, behind a block that starts at \<open>p\<close>.\<close>

lemma link_free_tail:
  assumes m: "mem_at R p = Ok m" and t: "tail_at R pr (p + 8 + s + 8 + k) cs" and k: "12 \<le> k" "4 dvd k" and "12 \<le> s"
  shows "\<exists>R'. link_free R (word_of_nat p) (word_of_nat (p + 8 + s)) (word_of_nat (p + 8 + s + 8 + k)) = Ok R' \<and>
    mem_at R' p = Ok (m\<lparr>mem_next := word_of_nat (p + 8 + s)\<rparr>) \<and> tail_at R' p (p + 8 + s) ((k, False) # cs) \<and>
    same_but {p, p + 8 + s, p + 8 + s + 8 + k} R R'"
proof -
  let ?q = "p + 8 + s" and ?e = "p + 8 + s + 8 + k"
  note le = tail_at_le [OF t]
  have u: "unat (word_of_nat p :: u16) = p" "unat (word_of_nat ?q :: u16) = ?q"
    using le by (simp_all add: unat_u16 del: of_nat_add)
  let ?m2 = "\<lparr>mem_next = word_of_nat ?e, mem_prev = word_of_nat p, mem_used = 0\<rparr>"
  let ?m = "m\<lparr>mem_next := word_of_nat ?q\<rparr>"
  let ?R1 = "put_mem R ?q ?m2" and ?R2 = "put_mem (put_mem R ?q ?m2) p ?m"
  have s1: "same_but {?q} R ?R1" and s2: "same_but {p} ?R1 ?R2" by (simp_all add: same_but_put)
  note s12 = same_but_trans [OF s1 s2]
  have "\<exists>m. mem_at R ?q = Ok m" using le by (simp add: mem_at_def)
  moreover have m1: "mem_at ?R1 p = Ok m" using mem_at_same_but [OF s1, of p] m by simp
  moreover have t2: "tail_at ?R2 pr ?e cs" by (rule tail_at_same_but [OF s12 _ t]) simp
  moreover obtain R3 where R3: "(if unat (word_of_nat ?e :: u16) \<noteq> 15360
      then set_mem ?R2 (unat (word_of_nat ?e :: u16)) (\<lambda>x. x\<lparr>mem_prev := word_of_nat ?q\<rparr>) else Ok ?R2) = Ok R3"
    "tail_at R3 ?q ?e cs" "same_but {?e} ?R2 R3" using relink_tail_inner [OF t2, of ?q] by blast
  ultimately have "link_free R (word_of_nat p) (word_of_nat ?q) (word_of_nat ?e) = Ok R3"
    by (auto simp: link_free_def u set_mem_def simp del: of_nat_add)
  moreover have "mem_at ?R2 p = Ok ?m" "mem_at ?R1 ?q = Ok ?m2" using le by (simp_all add: mem_at_put_same)
  then have "mem_at R3 p = Ok ?m" "mem_at R3 ?q = Ok ?m2"
    using mem_at_same_but [OF R3(3), of p] mem_at_same_but [OF R3(3), of ?q] mem_at_same_but [OF s2, of ?q] assms(5) k by simp_all
  moreover have "same_but {p, ?q, ?e} R R3" by (rule same_but_mono [OF same_but_trans [OF s12 R3(3)]]) auto
  ultimately show ?thesis using R3(2) k by (auto simp: tail_at_Cons)
qed

lemma lowest_free_tail: "tail_at R pr p bs \<Longrightarrow> lowest_free R p = Some (Ok (first_free p bs))"
proof (induction bs arbitrary: pr p)
  case Nil
  then show ?case by (subst lowest_free.simps) (auto simp: tail_at_def)
next
  case (Cons b bs)
  obtain n u where b: "b = (n, u)" by fastforce
  note t = Cons.prems [unfolded b tail_at_Cons]
  have "p + 8 + n \<le> 15360" using tail_at_le [of R p "p + 8 + n" bs] t by simp
  then have "unat (word_of_nat (p + 8 + n) :: u16) = p + 8 + n" "p \<noteq> 15360" by (simp_all add: unat_u16 del: of_nat_add)
  then show ?case using t Cons.IH [of p "p + 8 + n"] by (subst lowest_free.simps) (simp add: b del: of_nat_add)
qed

section \<open>Allocation\<close>

lemma heap_split:
  assumes "heap_ok h (as @ (n, u) # cs)"
  shows "blocks_at (ram h) 0 0 as" and "tail_at (ram h) (before 0 0 as) (after 0 as) ((n, u) # cs)"
    and "after 0 as + 8 + n \<le> 15360"
    and "mem_at (ram h) (after 0 as) =
      Ok \<lparr>mem_next = word_of_nat (after 0 as + 8 + n), mem_prev = word_of_nat (before 0 0 as), mem_used = (if u then 1 else 0)\<rparr>"
    and "tail_at (ram h) (after 0 as) (after 0 as + 8 + n) cs" and "12 \<le> n" and "4 dvd n"
  using assms tail_at_le [of "ram h" "after 0 as" "after 0 as + 8 + n" cs]
  by (simp_all add: heap_ok_def tail_at_append tail_at_Cons)

text \<open>Blocks in front of a change are not affected by it.\<close>

lemma heap_rebuild:
  assumes "heap_ok h (as @ bs)" and "same_but ps (ram h) R" and "\<forall>q \<in> ps. after 0 as \<le> q"
    and "tail_at R (before 0 0 as) (after 0 as) cs" and "tidy (as @ cs)"
  shows "heap_ok \<lparr>ram = R, lfree = first_free 0 (as @ cs)\<rparr> (as @ cs)"
proof -
  have "blocks_at R 0 0 as" by (rule blocks_at_same_but [OF assms(2)]) (use assms(1,3) in \<open>simp_all add: heap_ok_def tail_at_append\<close>)
  then show ?thesis using assms(4,5) by (simp add: heap_ok_def tail_at_append)
qed

lemma lfree_split:
  assumes "heap_ok h (as @ (n, False) # cs)"
  shows "lfree h = (if \<forall>b \<in> set as. snd b then after 0 as else first_free 0 as)"
    and "lfree h = after 0 as \<longleftrightarrow> (\<forall>b \<in> set as. snd b)"
proof -
  show *: "lfree h = (if \<forall>b \<in> set as. snd b then after 0 as else first_free 0 as)"
    using assms unfolding heap_ok_def first_free_append by simp
  show "lfree h = after 0 as \<longleftrightarrow> (\<forall>b \<in> set as. snd b)" unfolding * using first_free_less [of as 0] by force
qed

lemma ucast_u16: "n < 65536 \<Longrightarrow> ucast (word_of_nat n :: u16) = (word_of_nat n :: u32)"
  by (subst of_nat_unat [symmetric]) (simp add: unat_u16)

lemma u32_le: "m < 65536 \<Longrightarrow> n < 65536 \<Longrightarrow> (word_of_nat m :: u32) \<le> word_of_nat n \<longleftrightarrow> m \<le> n"
  by (simp add: word_le_nat_alt unat_of_nat)

lemma size_word:
  assumes "p + 8 + n \<le> 15360"
  shows "(ucast (word_of_nat (p + 8 + n) :: u16) - (ucast (word_of_nat p :: u16) + word_of_nat SIZEOF_STRUCT_MEM) :: u32) = word_of_nat n"
  using assms by (simp add: ucast_u16 del: of_nat_add) simp

definition taken :: "nat \<Rightarrow> nat \<Rightarrow> blk list" where
  "taken s n = (if s + 20 \<le> n then [(s, True), (n - s - 8, False)] else [(n, True)])"

lemma take_block_ok:
  assumes ok: "heap_ok h (as @ (n, False) # cs)" and s: "s \<le> n" "12 \<le> s" "4 dvd s"
    and m: "mem_at (ram h) (after 0 as) = Ok m"
  shows "\<exists>R. take_block h (word_of_nat (after 0 as)) m (word_of_nat s) =
      Ok (Some (after 0 as + 8), \<lparr>ram = R, lfree = first_free 0 (as @ taken s n @ cs)\<rparr>) \<and>
    heap_ok \<lparr>ram = R, lfree = first_free 0 (as @ taken s n @ cs)\<rparr> (as @ taken s n @ cs) \<and>
    same_but {after 0 as, after 0 as + 8 + s, after 0 as + 8 + n} (ram h) R"
proof -
  let ?p = "after 0 as" and ?l = "first_free 0 (as @ taken s n @ cs)"
  note h = heap_split [OF ok]
  have mm: "m = \<lparr>mem_next = word_of_nat (?p + 8 + n), mem_prev = word_of_nat (before 0 0 as), mem_used = 0\<rparr>" using m h(4) by simp
  have u: "unat (word_of_nat ?p :: u16) = ?p" using h(3) by (simp add: unat_u16)
  have split: "(ucast (mem_next m) - (ucast (word_of_nat ?p :: u16) + word_of_nat SIZEOF_STRUCT_MEM) :: u32)
      \<ge> ucast (word_of_nat s :: u16) + word_of_nat SIZEOF_STRUCT_MEM + word_of_nat MIN_SIZE_ALIGNED \<longleftrightarrow> s + 20 \<le> n"
    unfolding mm struct_mem.simps size_word [OF h(3)] using h(3) s u32_le [of "s + 20" n]
    by (simp add: ucast_u16 add.commute)
  obtain R1 pr where R1: "(if s + 20 \<le> n then link_free (ram h) (word_of_nat ?p) (word_of_nat (?p + 8 + s)) (word_of_nat (?p + 8 + n))
        else Ok (ram h)) = Ok R1" "same_but {?p, ?p + 8 + s, ?p + 8 + n} (ram h) R1"
      "mem_at R1 ?p = Ok (m\<lparr>mem_next := word_of_nat (?p + 8 + fst (hd (taken s n)))\<rparr>)"
      "tail_at R1 ?p (?p + 8 + fst (hd (taken s n))) (tl (taken s n) @ cs)"
  proof (cases "s + 20 \<le> n")
    case True
    then have e: "?p + 8 + s + 8 + (n - s - 8) = ?p + 8 + n" by simp
    have t: "tail_at (ram h) ?p (?p + 8 + s + 8 + (n - s - 8)) cs" unfolding e by (rule h(5))
    have "12 \<le> n - s - 8" "4 dvd n - s - 8" using True h(7) s by (simp_all add: dvd_diff_nat)
    note link_free_tail [OF m t this s(2), unfolded e]
    then show ?thesis using True that unfolding e by (auto simp: taken_def)
  next
    case False
    then show ?thesis using that [of "ram h"] h(5) m mm by (simp add: taken_def same_but_refl)
  qed
  let ?s = "fst (hd (taken s n))" and ?m = "m\<lparr>mem_next := word_of_nat (?p + 8 + fst (hd (taken s n))), mem_used := 1\<rparr>"
  have tk: "taken s n = (?s, True) # tl (taken s n)" "12 \<le> ?s" "4 dvd ?s" using h(6,7) s by (simp_all add: taken_def)
  let ?R = "put_mem R1 ?p ?m"
  have same: "same_but {?p} R1 ?R" by (simp add: same_but_put)
  have "tail_at ?R ?p (?p + 8 + ?s) (tl (taken s n) @ cs)" by (rule tail_at_same_but [OF same _ R1(4)]) simp
  then have t: "tail_at ?R (before 0 0 as) ?p (taken s n @ cs)"
    by (subst tk(1)) (use tk(2,3) mm mem_at_put_same [OF mem_at_fits [OF R1(3)]] in \<open>simp add: tail_at_Cons\<close>)
  have l: "(if ?p = lfree h then loop_result (lowest_free ?R ?p) else Ok (lfree h)) = Ok ?l"
  proof (cases "\<forall>b \<in> set as. snd b")
    case True
    then have "?p = lfree h" "?l = first_free ?p (taken s n @ cs)"
      using lfree_split(2) [OF ok] first_free_append [of 0 as "taken s n @ cs"] by simp_all
    then show ?thesis using lowest_free_tail [OF t] by (simp add: loop_result_def)
  next
    case False
    then have "lfree h = first_free 0 as" "?l = first_free 0 as"
      unfolding lfree_split(1) [OF ok] first_free_append by (simp_all only: if_False)
    moreover have "?p \<noteq> lfree h" using False lfree_split(2) [OF ok] by metis
    ultimately show ?thesis by simp
  qed
  have "tidy (as @ taken s n @ cs)"
    using ok by (auto simp: heap_ok_def tidy_def taken_def successively_append_iff successively_Cons)
  then have "heap_ok \<lparr>ram = ?R, lfree = ?l\<rparr> (as @ taken s n @ cs)"
    by (intro heap_rebuild [OF ok same_but_trans [OF R1(2) same] _ t]) auto
  moreover have "same_but {?p, ?p + 8 + s, ?p + 8 + n} (ram h) ?R"
    by (rule same_but_mono [OF same_but_trans [OF R1(2) same]]) auto
  moreover have "word_of_nat ?p + word_of_nat SIZEOF_STRUCT_MEM + word_of_nat s = (word_of_nat (?p + 8 + s) :: u16)" by simp
  ultimately show ?thesis unfolding take_block_def split u using R1(1) l
    by (auto simp: mm set_mem_Ok [OF R1(3)] cong: if_cong simp del: of_nat_add)
qed

text \<open>The loop passes over blocks that are in use or too small.\<close>

lemma malloc_pass:
  assumes ok: "heap_ok h (as @ (n, u) # cs)" and b: "u \<or> n < s" and s: "s < 65536" and p: "after 0 as < 15360 - s"
  shows "malloc_loop h (word_of_nat s) (word_of_nat (after 0 as)) = malloc_loop h (word_of_nat s) (word_of_nat (after 0 as + 8 + n))"
proof -
  note h = heap_split [OF ok]
  have u: "unat (word_of_nat (after 0 as) :: u16) = after 0 as" "unat (word_of_nat s :: u16) = s" using h(3) s by (simp_all add: unat_u16)
  have fit: "(ucast (word_of_nat (after 0 as + 8 + n) :: u16) - (ucast (word_of_nat (after 0 as) :: u16) + word_of_nat SIZEOF_STRUCT_MEM) :: u32)
      \<ge> ucast (word_of_nat s :: u16) \<longleftrightarrow> s \<le> n"
    unfolding size_word [OF h(3)] using h(3) s by (simp add: ucast_u16 u32_le)
  show ?thesis
    by (subst malloc_loop.simps) (use p b fit in \<open>auto simp: u h(4) simp del: of_nat_add\<close>)
qed

lemma malloc_none:
  assumes "heap_ok h (as @ ds)" and "\<forall>b \<in> set ds. snd b \<or> fst b < s" and "s < 65536"
  shows "malloc_loop h (word_of_nat s) (word_of_nat (after 0 as)) = Some (Ok (None, h))"
  using assms
proof (induction ds arbitrary: as)
  case Nil
  then have "after 0 as = 15360" by (simp add: heap_ok_def tail_at_def)
  then have "\<not> unat (word_of_nat (after 0 as) :: u16) < MEM_SIZE_ALIGNED - unat (word_of_nat s :: u16)" by (simp add: unat_u16)
  then show ?case by (subst malloc_loop.simps) (simp only: if_False)
next
  case (Cons d ds)
  obtain n u where d: "d = (n, u)" by fastforce
  note ok = Cons.prems(1) [unfolded d]
  have v: "unat (word_of_nat (after 0 as) :: u16) = after 0 as" "unat (word_of_nat s :: u16) = s"
    using heap_split(3) [OF ok] assms(3) by (simp_all add: unat_u16)
  show ?case
  proof (cases "after 0 as < 15360 - s")
    case True
    have "malloc_loop h (word_of_nat s) (word_of_nat (after 0 (as @ [d]))) = Some (Ok (None, h))"
      by (rule Cons.IH) (use Cons.prems in simp_all)
    then show ?thesis using malloc_pass [OF ok _ assms(3) True] Cons.prems(2) by (simp add: d)
  next
    case False
    then show ?thesis by (subst malloc_loop.simps) (simp add: v)
  qed
qed

lemma malloc_reaches:
  assumes "heap_ok h (as @ ds @ es)" and "\<forall>b \<in> set ds. snd b \<or> fst b < s" and "s < 65536" and "after 0 (as @ ds) < 15360 - s"
  shows "malloc_loop h (word_of_nat s) (word_of_nat (after 0 as)) = malloc_loop h (word_of_nat s) (word_of_nat (after 0 (as @ ds)))"
  using assms
proof (induction ds arbitrary: as)
  case (Cons d ds)
  obtain n u where d: "d = (n, u)" by fastforce
  have "after 0 as < 15360 - s" using Cons.prems(4) after_ge [of "after 0 as" "d # ds"] by simp
  then have "malloc_loop h (word_of_nat s) (word_of_nat (after 0 as)) = malloc_loop h (word_of_nat s) (word_of_nat (after 0 (as @ [d])))"
    using malloc_pass [of h as n u "ds @ es" s] Cons.prems by (simp add: d)
  also have "\<dots> = malloc_loop h (word_of_nat s) (word_of_nat (after 0 ((as @ [d]) @ ds)))"
    by (rule Cons.IH) (use Cons.prems in simp_all)
  finally show ?case by simp
qed simp

lemma malloc_first_fit:
  assumes ok: "heap_ok h (as @ ds @ (n, False) # cs)" and "\<forall>b \<in> set ds. snd b \<or> fst b < s" and s: "s \<le> n" "12 \<le> s" "4 dvd s"
  shows "\<exists>h'. malloc_loop h (word_of_nat s) (word_of_nat (after 0 as)) = Some (Ok (Some (after 0 (as @ ds) + 8), h')) \<and>
    heap_ok h' ((as @ ds) @ taken s n @ cs) \<and> same_but {after 0 (as @ ds), after 0 (as @ ds) + 8 + s, after 0 (as @ ds) + 8 + n} (ram h) (ram h')"
proof -
  let ?p = "after 0 (as @ ds)"
  have ok': "heap_ok h ((as @ ds) @ (n, False) # cs)" using ok by simp
  note h = heap_split [OF ok']
  have p: "?p < 15360 - s" "s < 65536" using h(3) s(1) by simp_all
  have u: "unat (word_of_nat ?p :: u16) = ?p" "unat (word_of_nat s :: u16) = s" using h(3) p(2) by (simp_all add: unat_u16 del: after_append)
  have fit: "(ucast (word_of_nat (?p + 8 + n) :: u16) - (ucast (word_of_nat ?p :: u16) + word_of_nat SIZEOF_STRUCT_MEM) :: u32)
      \<ge> ucast (word_of_nat s :: u16)"
    unfolding size_word [OF h(3)] using h(3) s p by (simp add: ucast_u16 u32_le)
  have "malloc_loop h (word_of_nat s) (word_of_nat ?p) = Some (take_block h (word_of_nat ?p)
     \<lparr>mem_next = word_of_nat (?p + 8 + n), mem_prev = word_of_nat (before 0 0 (as @ ds)), mem_used = 0\<rparr> (word_of_nat s))"
    by (subst malloc_loop.simps) (use p fit in \<open>simp add: u h(4) del: of_nat_add after_append\<close>)
  then show ?thesis
    using malloc_reaches [OF ok assms(2) p(2,1)] take_block_ok [OF ok' s h(4)] by (auto simp del: of_nat_add after_append append_assoc)
qed

end
