(* ===== verification/LwipHeapOps.thy ===== *)
theory LwipHeapOps
  imports LwipBlocks
begin

text \<open>
  What \<open>mem_malloc\<close>, \<open>mem_free\<close>, \<open>mem_trim\<close> and \<open>mem_init\<close> make of the list of blocks, and that no
  byte of a block in use changes.
\<close>

section \<open>Allocation\<close>

definition rounded :: "nat \<Rightarrow> nat" where
  "rounded n = max 12 (LWIP_MEM_ALIGN_SIZE n)"

lemma rounded_facts: "12 \<le> rounded n" "4 dvd rounded n" "n \<le> rounded n" "n \<le> 65532 \<Longrightarrow> rounded n \<le> 65532"
  by (auto simp: rounded_def LWIP_MEM_ALIGN_SIZE_def max_def)

lemma block_size_rounded: "unat n \<le> 65532 \<Longrightarrow> block_size n = word_of_nat (rounded (unat n))"
  using rounded_facts(4) [of "unat n"]
  by (auto simp: block_size_def rounded_def LWIP_MEM_ALIGN_SIZE_def Let_def unat_u16 max_def simp del: of_nat_mult)

lemma lfree_start:
  assumes "heap_ok h bs" shows "lfree h = after 0 (takeWhile snd bs)"
proof -
  have *: "first_free p bs = after p (takeWhile snd bs)" for p by (induction p bs rule: first_free.induct) auto
  then show ?thesis using assms by (simp add: heap_ok_def)
qed

lemma heap_ok_small: "heap_ok h bs \<Longrightarrow> (n, u) \<in> set bs \<Longrightarrow> n \<le> 15352"
  by (auto dest!: split_list dest: heap_split(3))

lemma mem_malloc_none:
  assumes ok: "heap_ok h bs" and n: "unat n \<le> 65532" and none: "\<forall>b \<in> set bs. snd b \<or> fst b < rounded (unat n)"
  shows "mem_malloc h n = Ok (None, h)"
proof -
  have "heap_ok h (takeWhile snd bs @ dropWhile snd bs)" "\<forall>b \<in> set (dropWhile snd bs). snd b \<or> fst b < rounded (unat n)"
    using ok none by (auto dest: set_dropWhileD)
  from malloc_none [OF this] show ?thesis
    using rounded_facts(4) [OF n] by (simp add: mem_malloc_def block_size_rounded [OF n] lfree_start [OF ok] loop_result_def)
qed

lemma mem_malloc_some:
  assumes ok: "heap_ok h bs" and n: "unat n \<le> 65532" "n \<noteq> 0" and some: "\<not> (\<forall>b \<in> set bs. snd b \<or> fst b < rounded (unat n))"
  shows "\<exists>as m cs h'. bs = as @ (m, False) # cs \<and> (\<forall>b \<in> set as. snd b \<or> fst b < rounded (unat n)) \<and> rounded (unat n) \<le> m \<and> mem_malloc h n = Ok (Some (after 0 as + 8), h') \<and>
    heap_ok h' (as @ taken (rounded (unat n)) m @ cs) \<and>
    same_but {after 0 as, after 0 as + 8 + rounded (unat n), after 0 as + 8 + m} (ram h) (ram h')"
proof -
  let ?s = "rounded (unat n)" and ?xs = "takeWhile snd bs"
  have "\<exists>b \<in> set (dropWhile snd bs). \<not> (snd b \<or> fst b < ?s)"
    using some by (metis UnE set_append set_takeWhileD takeWhile_dropWhile_id)
  then obtain ds b cs where ds: "dropWhile snd bs = ds @ b # cs" "\<forall>b \<in> set ds. snd b \<or> fst b < ?s" "\<not> (snd b \<or> fst b < ?s)"
    using split_list_first_prop [of "dropWhile snd bs" "\<lambda>b. \<not> (snd b \<or> fst b < ?s)"] by blast
  then obtain m where b: "b = (m, False)" "?s \<le> m" by (cases b) auto
  have bs: "bs = ?xs @ ds @ (m, False) # cs" using ds(1) b(1) by (metis takeWhile_dropWhile_id)
  have "heap_ok h (?xs @ ds @ (m, False) # cs)" using ok bs by metis
  from malloc_first_fit [OF this ds(2) b(2) rounded_facts(1,2)] obtain h' where
    h': "malloc_loop h (word_of_nat ?s) (word_of_nat (after 0 ?xs)) = Some (Ok (Some (after 0 (?xs @ ds) + 8), h'))"
      "heap_ok h' ((?xs @ ds) @ taken ?s m @ cs)" "same_but {after 0 (?xs @ ds), after 0 (?xs @ ds) + 8 + ?s, after 0 (?xs @ ds) + 8 + m} (ram h) (ram h')"
    by blast
  have "(m, False) \<in> set bs" by (subst bs) simp
  then have "?s \<le> 15352" using heap_ok_small [OF ok, of m False] b(2) by simp
  then have "unat (block_size n) \<le> 15360" using rounded_facts(4) [OF n(1)] by (simp add: block_size_rounded [OF n(1)] unat_u16)
  then have "mem_malloc h n = Ok (Some (after 0 (?xs @ ds) + 8), h')"
    using h'(1) n(2) by (simp add: mem_malloc_def block_size_rounded [OF n(1)] lfree_start [OF ok] loop_result_def)
  moreover have "bs = (?xs @ ds) @ (m, False) # cs" using bs by simp
  moreover have "\<forall>b \<in> set (?xs @ ds). snd b \<or> fst b < ?s" using ds(2) by (auto dest: set_takeWhileD)
  ultimately show ?thesis using h'(2,3) b(2) by blast
qed

section \<open>Giving back\<close>

lemma plug_forward_merge:
  assumes t: "tail_at R pr p ((n, False) # (k, False) # cs)" and l: "l \<noteq> p + 8 + n"
  shows "\<exists>R'. plug_forward \<lparr>ram = R, lfree = l\<rparr> p = Ok \<lparr>ram = R', lfree = l\<rparr> \<and> tail_at R' pr p ((n + 8 + k, False) # cs) \<and>
    same_but {p, p + 8 + n + 8 + k} R R'"
proof -
  define e where "e = p + 8 + n + 8 + k"
  let ?q = "p + 8 + n"
  note t' = t [unfolded tail_at_Cons, folded e_def]
  have le: "e \<le> 15360" "?q < e" using tail_at_le [of R ?q e cs] t' by (simp_all add: e_def)
  then have u: "unat (word_of_nat ?q :: u16) = ?q" "unat (word_of_nat e :: u16) = e" by (simp_all add: unat_u16 del: of_nat_add)
  let ?m = "\<lparr>mem_next = word_of_nat e, mem_prev = word_of_nat pr, mem_used = 0\<rparr> :: struct_mem"
  let ?R1 = "put_mem R p ?m"
  have s1: "same_but {p} R ?R1" by (simp add: same_but_put)
  have "tail_at ?R1 ?q e cs" by (rule tail_at_same_but [OF s1]) (use t' le in simp_all)
  from relink_tail [OF this, of p] obtain R2 where
    R2: "set_mem ?R1 e (\<lambda>x. x\<lparr>mem_prev := word_of_nat p\<rparr>) = Ok R2" "tail_at R2 p e cs" "same_but {e} ?R1 R2" by blast
  have "mem_at ?R1 p = Ok ?m" using t' mem_at_fits [of R p] by (simp add: mem_at_put_same)
  then have "mem_at R2 p = Ok ?m" using mem_at_same_but [OF R2(3), of p] le by simp
  moreover have e: "p + 8 + (n + 8 + k) = e" "4 dvd n + 8 + k" using t' by (simp_all add: e_def dvd_add)
  ultimately have "tail_at R2 pr p ((n + 8 + k, False) # cs)" unfolding tail_at_Cons e(1) using R2(2) t' e(2) by simp
  moreover have "same_but {p, e} R R2" using same_but_trans [OF s1 R2(3)] by (simp add: insert_commute)
  moreover have "plug_forward \<lparr>ram = R, lfree = l\<rparr> p = Ok \<lparr>ram = R2, lfree = l\<rparr>"
    using t' le l R2(1) by (simp add: plug_forward_def Let_def u set_mem_def del: of_nat_add)
  ultimately show ?thesis unfolding e_def by blast
qed

lemma plug_forward_keep:
  assumes t: "tail_at R pr p ((n, u) # cs)" and cs: "cs = [] \<or> snd (hd cs)"
  shows "plug_forward \<lparr>ram = R, lfree = l\<rparr> p = Ok \<lparr>ram = R, lfree = l\<rparr>"
proof -
  note t' = t [unfolded tail_at_Cons]
  have v: "unat (word_of_nat (p + 8 + n) :: u16) = p + 8 + n"
    using tail_at_le [of R p "p + 8 + n" cs] t' by (simp add: unat_u16 del: of_nat_add)
  have "\<exists>m. mem_at R (p + 8 + n) = Ok m \<and> mem_used m = 1"
  proof (cases cs)
    case Nil
    then have e: "p + 8 + n = 15360" using t' by (simp add: tail_at_def)
    show ?thesis unfolding e using t' by (auto simp: tail_at_def)
  next
    case (Cons b bs)
    then show ?thesis using t' cs by (cases b) (auto simp: tail_at_def)
  qed
  then show ?thesis using t' by (auto simp: plug_forward_def Let_def v simp del: of_nat_add)
qed

lemma plug_backward_merge:
  assumes b: "blocks_at R 0 0 (as @ [(k, False)])" and t: "tail_at R (after 0 as) p ((n, False) # cs)"
    and p: "p = after 0 as + 8 + k" and l: "l \<noteq> p"
  shows "\<exists>R'. plug_backward \<lparr>ram = R, lfree = l\<rparr> p = Ok \<lparr>ram = R', lfree = l\<rparr> \<and> blocks_at R' 0 0 as \<and>
    tail_at R' (before 0 0 as) (after 0 as) ((k + 8 + n, False) # cs) \<and> same_but {after 0 as, p + 8 + n} R R'"
proof -
  let ?q = "after 0 as" and ?e = "p + 8 + n"
  note t' = t [unfolded tail_at_Cons] and b' = b [unfolded blocks_at_append]
  have le: "?e \<le> 15360" using tail_at_le [of R p ?e cs] t' by simp
  then have u: "unat (word_of_nat ?q :: u16) = ?q" "unat (word_of_nat ?e :: u16) = ?e" by (simp_all add: unat_u16 p del: of_nat_add)
  let ?m = "\<lparr>mem_next = word_of_nat ?e, mem_prev = word_of_nat (before 0 0 as), mem_used = 0\<rparr> :: struct_mem"
  let ?R1 = "put_mem R ?q ?m"
  have s1: "same_but {?q} R ?R1" by (simp add: same_but_put)
  have "tail_at ?R1 p ?e cs" by (rule tail_at_same_but [OF s1]) (use t' p in simp_all)
  from relink_tail [OF this, of ?q] obtain R2 where
    R2: "set_mem ?R1 ?e (\<lambda>x. x\<lparr>mem_prev := word_of_nat ?q\<rparr>) = Ok R2" "tail_at R2 ?q ?e cs" "same_but {?e} ?R1 R2" by blast
  have s2: "same_but {?q, ?e} R R2" using same_but_trans [OF s1 R2(3)] by (simp add: insert_commute)
  have "mem_at ?R1 ?q = Ok ?m" using b' mem_at_fits [of R ?q] by (simp add: mem_at_put_same)
  then have "mem_at R2 ?q = Ok ?m" using mem_at_same_but [OF R2(3), of ?q] p by simp
  moreover have e: "?q + 8 + (k + 8 + n) = ?e" "4 dvd k + 8 + n" using t' b' p by (simp_all add: dvd_add)
  ultimately have "tail_at R2 (before 0 0 as) ?q ((k + 8 + n, False) # cs)" unfolding tail_at_Cons e(1) using R2(2) t' e(2) by simp
  moreover have "blocks_at R2 0 0 as" by (rule blocks_at_same_but [OF s2]) (use b' p in simp_all)
  moreover have "plug_backward \<lparr>ram = R, lfree = l\<rparr> p = Ok \<lparr>ram = R2, lfree = l\<rparr>"
  proof -
    have "mem_at R ?q = Ok \<lparr>mem_next = word_of_nat p, mem_prev = word_of_nat (before 0 0 as), mem_used = 0\<rparr>" "?q \<noteq> p" using b' p by simp_all
    then show ?thesis using t' l R2(1) by (simp add: plug_backward_def Let_def u set_mem_def del: of_nat_add)
  qed
  ultimately show ?thesis using s2 by blast
qed

lemma plug_backward_keep:
  assumes b: "blocks_at R 0 0 as" and t: "tail_at R (before 0 0 as) (after 0 as) ((n, u) # cs)" and as: "as = [] \<or> snd (last as)"
  shows "plug_backward \<lparr>ram = R, lfree = l\<rparr> (after 0 as) = Ok \<lparr>ram = R, lfree = l\<rparr>"
proof (cases as rule: rev_cases)
  case Nil
  then show ?thesis using t by (simp add: plug_backward_def tail_at_Cons)
next
  case (snoc xs x)
  obtain k v where x: "x = (k, v)" by fastforce
  have bf: "before pr p (xs @ [(k, v)]) = after p xs" for pr p by (induction xs arbitrary: pr p) auto
  have "after 0 xs \<le> 15360" using tail_at_le [OF t] by (simp add: snoc x)
  then have "unat (word_of_nat (after 0 xs) :: u16) = after 0 xs" by (simp add: unat_u16)
  then show ?thesis using b t as by (simp add: snoc x bf plug_backward_def tail_at_Cons blocks_at_append Let_def del: of_nat_add)
qed

lemma tidy_simps:
  "tidy []" "tidy [b]" "tidy (a # b # bs) \<longleftrightarrow> (snd a \<or> snd b) \<and> tidy (b # bs)"
  "tidy (as @ bs) \<longleftrightarrow> tidy as \<and> tidy bs \<and> (as = [] \<or> bs = [] \<or> snd (last as) \<or> snd (hd bs))"
  by (auto simp: tidy_def successively_append_iff)

lemma tidy_Cons: "tidy (b # bs) \<longleftrightarrow> (bs = [] \<or> snd b \<or> snd (hd bs)) \<and> tidy bs"
  by (cases bs) (auto simp: tidy_simps)

lemma plug_forward_ok:
  assumes t: "tail_at R pr p ((n, False) # cs)" and l: "l \<le> p" and tidy: "tidy cs"
  shows "\<exists>R' n' cs'. plug_forward \<lparr>ram = R, lfree = l\<rparr> p = Ok \<lparr>ram = R', lfree = l\<rparr> \<and> tail_at R' pr p ((n', False) # cs') \<and>
    same_but {p..p + 8 + n'} R R' \<and> n \<le> n' \<and> areas (p + 8 + n') cs' = areas (p + 8 + n) cs \<and> tidy ((n', False) # cs')"
proof (cases "cs = [] \<or> snd (hd cs)")
  case True
  then have "tidy ((n, False) # cs)" using tidy by (auto simp: tidy_Cons)
  then show ?thesis using plug_forward_keep [OF t True, of l] t same_but_refl by blast
next
  case False
  then obtain k cs0 where cs: "cs = (k, False) # cs0" by (cases cs) auto
  have "l \<noteq> p + 8 + n" using l by simp
  from plug_forward_merge [OF t [unfolded cs] this] obtain R' where
    R': "plug_forward \<lparr>ram = R, lfree = l\<rparr> p = Ok \<lparr>ram = R', lfree = l\<rparr>" "tail_at R' pr p ((n + 8 + k, False) # cs0)"
      "same_but {p, p + 8 + n + 8 + k} R R'" by blast
  have "same_but {p..p + 8 + (n + 8 + k)} R R'" by (rule same_but_mono [OF R'(3)]) auto
  moreover have "areas (p + 8 + (n + 8 + k)) cs0 = areas (p + 8 + n) cs" by (simp add: cs algebra_simps)
  moreover have "tidy ((n + 8 + k, False) # cs0)" using tidy by (simp add: cs tidy_Cons)
  moreover have "n \<le> n + 8 + k" by simp
  ultimately show ?thesis using R'(1,2) by blast
qed

lemma plug_backward_ok:
  assumes b: "blocks_at R 0 0 as" and t: "tail_at R (before 0 0 as) (after 0 as) ((n, False) # cs)"
    and tidy: "tidy as" "tidy ((n, False) # cs)" and l: "l = first_free 0 (as @ [(n, False)])"
  shows "\<exists>R' xs N. plug_backward \<lparr>ram = R, lfree = l\<rparr> (after 0 as) = Ok \<lparr>ram = R', lfree = l\<rparr> \<and>
    heap_ok \<lparr>ram = R', lfree = l\<rparr> (xs @ (N, False) # cs) \<and> after 0 xs \<le> after 0 as \<and> after 0 xs + 8 + N = after 0 as + 8 + n \<and>
    areas 0 xs = areas 0 as \<and> same_but {after 0 xs..after 0 as + 8 + n} R R'"
proof (cases "as = [] \<or> snd (last as)")
  case True
  then have "tidy (as @ (n, False) # cs)" using tidy by (auto simp: tidy_simps)
  then have "heap_ok \<lparr>ram = R, lfree = l\<rparr> (as @ (n, False) # cs)"
    using b t by (simp add: heap_ok_def tail_at_append l first_free_append)
  then show ?thesis using plug_backward_keep [OF b t True] same_but_refl by blast
next
  case False
  then obtain xs k where as: "as = xs @ [(k, False)]" by (cases as rule: rev_cases) auto
  have bf: "before pr p (xs @ [(k, v)]) = after p xs" for pr p v by (induction xs arbitrary: pr p) auto
  have af: "after 0 as = after 0 xs + 8 + k" by (simp add: as)
  have ff: "l = first_free 0 (xs @ [(k, False)])" unfolding l as first_free_append [of 0 "xs @ [(k, False)]"] by simp
  then have "l \<noteq> after 0 as" using first_free_less [of as 0] by (auto simp: as)
  from plug_backward_merge [OF b [unfolded as] t [unfolded as bf, folded as] af this] obtain R' where
    R': "plug_backward \<lparr>ram = R, lfree = l\<rparr> (after 0 as) = Ok \<lparr>ram = R', lfree = l\<rparr>" "blocks_at R' 0 0 xs"
      "tail_at R' (before 0 0 xs) (after 0 xs) ((k + 8 + n, False) # cs)" "same_but {after 0 xs, after 0 as + 8 + n} R R'" by blast
  have "tidy (xs @ (k + 8 + n, False) # cs)" using tidy by (auto simp: as tidy_simps tidy_Cons)
  then have "heap_ok \<lparr>ram = R', lfree = l\<rparr> (xs @ (k + 8 + n, False) # cs)"
    using R'(2,3) ff by (simp add: heap_ok_def tail_at_append first_free_append)
  moreover have "same_but {after 0 xs..after 0 as + 8 + n} R R'" by (rule same_but_mono [OF R'(4)]) (auto simp: af)
  moreover have "after 0 xs + 8 + (k + 8 + n) = after 0 as + 8 + n" "areas 0 xs = areas 0 as"
    by (simp_all add: as areas_append)
  moreover have "after 0 xs \<le> after 0 as" by (simp add: af)
  ultimately show ?thesis using R'(1) by blast
qed

text \<open>The lowest free block after a block has become free, before it is merged with its neighbours.\<close>

lemma lfree_freed:
  assumes "heap_ok h (as @ (n, True) # cs)"
  shows "(if after 0 as < lfree h then after 0 as else lfree h) = first_free 0 (as @ [(n, False)])"
    and "first_free 0 (as @ [(n, False)]) \<le> after 0 as"
proof -
  have l: "lfree h = (if \<forall>b \<in> set as. snd b then first_free (after 0 as + 8 + n) cs else first_free 0 as)"
    using assms unfolding heap_ok_def first_free_append by simp
  have f: "first_free 0 (as @ [(n, False)]) = (if \<forall>b \<in> set as. snd b then after 0 as else first_free 0 as)"
    unfolding first_free_append by simp
  show "(if after 0 as < lfree h then after 0 as else lfree h) = first_free 0 (as @ [(n, False)])"
    and "first_free 0 (as @ [(n, False)]) \<le> after 0 as"
    using first_free_ge [of "after 0 as + 8 + n" cs] first_free_less [of as 0] unfolding l f by (simp_all, linarith+)
qed

lemma mem_free_ok:
  assumes ok: "heap_ok h (as @ (n, True) # cs)"
  shows "\<exists>h' xs N ys. mem_free h (Some (int (after 0 as + 8))) = Ok h' \<and> heap_ok h' (xs @ (N, False) # ys) \<and>
    after 0 xs \<le> after 0 as \<and> areas 0 xs = areas 0 as \<and> areas (after 0 xs + 8 + N) ys = areas (after 0 as + 8 + n) cs \<and>
    same_but {after 0 xs..after 0 xs + 8 + N} (ram h) (ram h')"
proof -
  let ?p = "after 0 as" and ?l = "first_free 0 (as @ [(n, False)])"
  let ?m = "\<lparr>mem_next = word_of_nat (?p + 8 + n), mem_prev = word_of_nat (before 0 0 as), mem_used = 0\<rparr> :: struct_mem"
  let ?R = "put_mem (ram h) ?p ?m"
  note hs = heap_split [OF ok]
  have same: "same_but {?p} (ram h) ?R" by (simp add: same_but_put)
  have "tail_at ?R ?p (?p + 8 + n) cs" by (rule tail_at_same_but [OF same _ hs(5)]) simp
  then have t: "tail_at ?R (before 0 0 as) ?p ((n, False) # cs)"
    using mem_at_put_same [OF mem_at_fits [OF hs(4)]] hs(6,7) by (simp add: tail_at_Cons)
  have b: "blocks_at ?R 0 0 as" by (rule blocks_at_same_but [OF same _ hs(1)]) simp
  have tidy: "tidy as" "tidy cs" using ok by (simp_all add: heap_ok_def tidy_simps tidy_Cons)
  have l: "(if ?p < lfree h then ?p else lfree h) = ?l" "?l \<le> ?p" using lfree_freed [OF ok] by simp_all
  have "mem_free h (Some (int (?p + 8))) = plug_holes \<lparr>ram = ?R, lfree = ?l\<rparr> ?p"
    using hs(3,4,6) l(1) by (simp add: mem_free_def nat_add_distrib set_mem_def Let_def del: of_nat_add)
  moreover obtain R1 n1 cs1 where
    f: "plug_forward \<lparr>ram = ?R, lfree = ?l\<rparr> ?p = Ok \<lparr>ram = R1, lfree = ?l\<rparr>" "tail_at R1 (before 0 0 as) ?p ((n1, False) # cs1)"
      "same_but {?p..?p + 8 + n1} ?R R1" "n \<le> n1" "areas (?p + 8 + n1) cs1 = areas (?p + 8 + n) cs" "tidy ((n1, False) # cs1)"
    using plug_forward_ok [OF t l(2) tidy(2)] by blast
  have l1: "?l = first_free 0 (as @ [(n1, False)])" by (simp add: first_free_append)
  have b1: "blocks_at R1 0 0 as" by (rule blocks_at_same_but [OF f(3) _ b]) simp
  obtain R2 xs N where
    g: "plug_backward \<lparr>ram = R1, lfree = ?l\<rparr> ?p = Ok \<lparr>ram = R2, lfree = ?l\<rparr>" "heap_ok \<lparr>ram = R2, lfree = ?l\<rparr> (xs @ (N, False) # cs1)"
      "after 0 xs \<le> ?p" "after 0 xs + 8 + N = ?p + 8 + n1" "areas 0 xs = areas 0 as" "same_but {after 0 xs..?p + 8 + n1} R1 R2"
    using plug_backward_ok [OF b1 f(2) tidy(1) f(6) l1] by blast
  have "same_but {after 0 xs..after 0 xs + 8 + N} (ram h) R2"
    by (rule same_but_mono [OF same_but_trans [OF same same_but_trans [OF f(3) g(6)]]]) (use g(3,4) in auto)
  moreover have "areas (after 0 xs + 8 + N) cs1 = areas (?p + 8 + n) cs" unfolding g(4) by (rule f(5))
  ultimately show ?thesis using f(1) g(1,2,3,5) by (auto simp: plug_holes_def)
qed

section \<open>Shrinking\<close>

lemma shrink_ok:
  assumes ok: "heap_ok h (as @ (n, True) # cs)" and t: "tail_at (ram h) q (after 0 as + 8 + s + 8 + k) ds"
    and s: "12 \<le> s" "4 dvd s" and k: "12 \<le> k" "4 dvd k" and tidy: "tidy (as @ (s, True) # (k, False) # ds)"
  shows "\<exists>R. link_free (ram h) (word_of_nat (after 0 as)) (word_of_nat (after 0 as + 8 + s)) (word_of_nat (after 0 as + 8 + s + 8 + k)) = Ok R \<and>
    heap_ok \<lparr>ram = R, lfree = first_free 0 (as @ (s, True) # (k, False) # ds)\<rparr> (as @ (s, True) # (k, False) # ds) \<and>
    same_but {after 0 as, after 0 as + 8 + s, after 0 as + 8 + s + 8 + k} (ram h) R"
proof -
  let ?p = "after 0 as"
  note h = heap_split [OF ok]
  from link_free_tail [OF h(4) t k s(1)] obtain R where
    R: "link_free (ram h) (word_of_nat ?p) (word_of_nat (?p + 8 + s)) (word_of_nat (?p + 8 + s + 8 + k)) = Ok R"
      "mem_at R ?p = Ok \<lparr>mem_next = word_of_nat (?p + 8 + s), mem_prev = word_of_nat (before 0 0 as), mem_used = 1\<rparr>"
      "tail_at R ?p (?p + 8 + s) ((k, False) # ds)" "same_but {?p, ?p + 8 + s, ?p + 8 + s + 8 + k} (ram h) R"
    by (auto simp del: of_nat_add)
  have "tail_at R (before 0 0 as) ?p ((s, True) # (k, False) # ds)"
    unfolding tail_at_Cons [of R "before 0 0 as"] using R(2,3) s by simp
  from heap_rebuild [OF ok R(4) _ this tidy] R(1,4) show ?thesis by auto
qed

text \<open>The block list after shrinking a block of size \<open>n\<close> in front of \<open>cs\<close> to \<open>s\<close>.\<close>

fun trimmed :: "nat \<Rightarrow> nat \<Rightarrow> blk list \<Rightarrow> blk list" where
  "trimmed s n ((k, False) # cs) = (s, True) # (n - s + k, False) # cs"
| "trimmed s n cs = (if s + 20 \<le> n then (s, True) # (n - s - 8, False) # cs else (n, True) # cs)"

lemma u16_less: "m < 65536 \<Longrightarrow> n < 65536 \<Longrightarrow> (word_of_nat m :: u16) < word_of_nat n \<longleftrightarrow> m < n"
  and u16_eq: "m < 65536 \<Longrightarrow> n < 65536 \<Longrightarrow> (word_of_nat m :: u16) = word_of_nat n \<longleftrightarrow> m = n"
  by (auto simp: word_less_nat_alt unat_of_nat dest: arg_cong [where f = unat])

lemma mem_trim_refused:
  assumes ok: "heap_ok h (as @ (n, u) # cs)" and w: "unat w \<le> 65532" and big: "n < rounded (unat w)"
  shows "mem_trim h (int (after 0 as + 8)) w = Ok (None, h)"
proof -
  note h = heap_split [OF ok]
  have v: "unat (word_of_nat (after 0 as) :: u16) = after 0 as" "unat (word_of_nat (rounded (unat w)) :: u16) = rounded (unat w)"
    using h(3) rounded_facts(4) [OF w] by (simp_all add: unat_u16)
  have old: "word_of_nat (after 0 as + 8 + n) - word_of_nat (after 0 as) - word_of_nat SIZEOF_STRUCT_MEM = (word_of_nat n :: u16)" by simp
  show ?thesis unfolding mem_trim_def block_size_rounded [OF w] Let_def v
    using h(3,6) big u16_less [of n "rounded (unat w)"] rounded_facts(4) [OF w] old
    by (simp add: h(4) v nat_add_distrib del: of_nat_add)
qed

text \<open>The bytes of the blocks in \<open>A\<close> are the same.\<close>

definition bytes_kept :: "(nat \<times> nat) set \<Rightarrow> u8 list \<Rightarrow> u8 list \<Rightarrow> bool" where
  "bytes_kept A R R' \<longleftrightarrow> (\<forall>(a, k) \<in> A. \<forall>i < k. R' ! (a + i) = R ! (a + i))"

lemma bytes_kept_same_but:
  assumes "same_but ps R R'" and "\<And>a k q. (a, k) \<in> A \<Longrightarrow> q \<in> ps \<Longrightarrow> a + k \<le> q \<or> q + 5 \<le> a"
  shows "bytes_kept A R R'"
proof -
  have "R' ! (a + i) = R ! (a + i)" if "(a, k) \<in> A" "i < k" for a k i
  proof -
    have "\<forall>q \<in> ps. a + i < q \<or> q + 5 \<le> a + i" using assms(2) [OF that(1)] that(2) by fastforce
    then show ?thesis using assms(1) by (simp add: same_but_def)
  qed
  then show ?thesis by (auto simp: bytes_kept_def)
qed

lemma bytes_kept_around:
  assumes "same_but ps R R'" and "ps \<subseteq> {after 0 as..e}" and "e \<le> e'"
  shows "bytes_kept (areas 0 as \<union> areas e' cs) R R'"
proof (rule bytes_kept_same_but [OF assms(1)])
  fix a k q assume "(a, k) \<in> areas 0 as \<union> areas e' cs" "q \<in> ps"
  then show "a + k \<le> q \<or> q + 5 \<le> a" using areas_range [of a k 0 as] areas_range [of a k e' cs] assms(2,3) by fastforce
qed

lemma trimmed_areas:
  assumes "s \<le> n"
  shows "\<exists>m. s \<le> m \<and> m \<le> n \<and> areas p (trimmed s n cs) = insert (p + 8, m) (areas (p + 8 + n) cs)"
  using assms by (induction s n cs rule: trimmed.induct) (auto simp: algebra_simps)

lemma mem_trim_run:
  assumes ok: "heap_ok h (as @ (n, True) # cs)" and w: "unat w \<le> 65532" and small: "rounded (unat w) \<le> n"
    and m2: "mem_at (ram h) (after 0 as + 8 + n) = Ok m2"
  defines "p \<equiv> after 0 as" and "s \<equiv> rounded (unat w)"
  shows "mem_trim h (int (p + 8)) w =
    (if s = n then Ok (Some (int (p + 8)), h)
     else if mem_used m2 = 0 then
       bind_outcome (link_free (ram h) (word_of_nat p) (word_of_nat (p + 8 + s)) (mem_next m2)) (\<lambda>R.
         Ok (Some (int (p + 8)), \<lparr>ram = R, lfree = (if lfree h = p + 8 + n then p + 8 + s else lfree h)\<rparr>))
     else if s + 20 \<le> n then
       bind_outcome (link_free (ram h) (word_of_nat p) (word_of_nat (p + 8 + s)) (word_of_nat (p + 8 + n))) (\<lambda>R.
         Ok (Some (int (p + 8)), \<lparr>ram = R, lfree = (if p + 8 + s < lfree h then p + 8 + s else lfree h)\<rparr>))
     else Ok (Some (int (p + 8)), h))"
proof -
  note h = heap_split [OF ok, folded p_def]
  have sn: "s \<le> n" "n < 65536" "s < 65536" using small h(3) by (simp_all add: s_def)
  have v: "unat (word_of_nat p :: u16) = p" "unat (word_of_nat s :: u16) = s" "unat (word_of_nat n :: u16) = n"
    "unat (word_of_nat (p + 8 + n) :: u16) = p + 8 + n" "unat (word_of_nat (p + 8 + s) :: u16) = p + 8 + s"
    using h(3) sn by (simp_all add: unat_u16 del: of_nat_add)
  have old: "word_of_nat (p + 8 + n) - word_of_nat p - word_of_nat SIZEOF_STRUCT_MEM = (word_of_nat n :: u16)"
    and p2: "word_of_nat p + word_of_nat SIZEOF_STRUCT_MEM + word_of_nat s = (word_of_nat (p + 8 + s) :: u16)" by simp_all
  have r: "nat (int (p + 8)) - SIZEOF_STRUCT_MEM = p" "\<not> (int (p + 8) < 0 \<or> int MEM_SIZE_ALIGNED \<le> int (p + 8))"
    "\<not> int (p + 8) < int SIZEOF_STRUCT_MEM" "\<not> MEM_SIZE_ALIGNED < s" using h(3,6) sn(1) by simp_all
  show ?thesis
    unfolding mem_trim_def block_size_rounded [OF w, folded s_def] Let_def r(1) v if_not_P [OF r(2)] if_not_P [OF r(3)] if_not_P [OF r(4)] h(4)
      bind_outcome.simps struct_mem.simps old p2 m2 [folded p_def] u16_eq [OF sn(3,2)] u16_less [OF sn(2,3)]
    using sn(1) by (simp del: of_nat_add cong: if_cong)
qed

lemma next_header:
  assumes "heap_ok h (as @ (n, u) # cs)"
  shows "\<exists>m. mem_at (ram h) (after 0 as + 8 + n) = Ok m \<and> (mem_used m = 0 \<longleftrightarrow> cs \<noteq> [] \<and> \<not> snd (hd cs)) \<and>
    (cs \<noteq> [] \<longrightarrow> mem_next m = word_of_nat (after 0 as + 8 + n + 8 + fst (hd cs)))"
proof (cases cs)
  case Nil
  then have e: "after 0 as + 8 + n = 15360" using heap_split(5) [OF assms] by (simp add: tail_at_def)
  show ?thesis unfolding e using heap_split(5) [OF assms] Nil by (auto simp: tail_at_def)
next
  case (Cons b bs)
  then show ?thesis using heap_split(5) [OF assms] by (cases b) (auto simp: tail_at_Cons)
qed

lemma mem_trim_join:
  assumes ok: "heap_ok h (as @ (n, True) # (k, False) # cs)" and w: "unat w \<le> 65532" and small: "rounded (unat w) < n"
  defines "p \<equiv> after 0 as" and "s \<equiv> rounded (unat w)"
  shows "\<exists>h'. mem_trim h (int (p + 8)) w = Ok (Some (int (p + 8)), h') \<and> heap_ok h' (as @ (s, True) # (n - s + k, False) # cs) \<and>
    same_but {p, p + 8 + s, p + 8 + n + 8 + k} (ram h) (ram h')"
proof -
  note h = heap_split [OF ok, folded p_def] and r = rounded_facts(1,2) [of "unat w", folded s_def]
  obtain m2 where m2: "mem_at (ram h) (after 0 as + 8 + n) = Ok m2" "mem_used m2 = 0" "mem_next m2 = word_of_nat (p + 8 + n + 8 + k)"
    using next_header [OF ok] by (auto simp: p_def)
  have e: "p + 8 + s + 8 + (n - s + k) = p + 8 + n + 8 + k" using small by (simp add: s_def)
  have t: "tail_at (ram h) (p + 8 + n) (p + 8 + s + 8 + (n - s + k)) cs" "12 \<le> n - s + k" "4 dvd n - s + k"
    unfolding e using h(5) [unfolded tail_at_Cons] h(7) r by (simp_all add: dvd_diff_nat)
  have tidy: "tidy (as @ (s, True) # (n - s + k, False) # cs)" using ok by (auto simp: heap_ok_def tidy_simps tidy_Cons)
  from shrink_ok [OF ok t(1) [unfolded p_def] r t(2,3) tidy, folded p_def, unfolded e] obtain R where
    R: "link_free (ram h) (word_of_nat p) (word_of_nat (p + 8 + s)) (word_of_nat (p + 8 + n + 8 + k)) = Ok R"
      "heap_ok \<lparr>ram = R, lfree = first_free 0 (as @ (s, True) # (n - s + k, False) # cs)\<rparr> (as @ (s, True) # (n - s + k, False) # cs)"
      "same_but {p, p + 8 + s, p + 8 + n + 8 + k} (ram h) R" by blast
  have l: "lfree h = (if \<forall>b \<in> set as. snd b then p + 8 + n else first_free 0 as)"
    using ok unfolding heap_ok_def first_free_append by (simp add: p_def)
  have "(if lfree h = p + 8 + n then p + 8 + s else lfree h) = first_free 0 (as @ (s, True) # (n - s + k, False) # cs)"
    unfolding first_free_append l using first_free_le [of 0 as] by (auto simp: p_def)
  then have "mem_trim h (int (p + 8)) w = Ok (Some (int (p + 8)), \<lparr>ram = R, lfree = first_free 0 (as @ (s, True) # (n - s + k, False) # cs)\<rparr>)"
    using mem_trim_run [OF ok w _ m2(1), folded p_def s_def] small m2(2,3) R(1) by (simp add: s_def del: of_nat_add)
  then show ?thesis using R(2,3) by auto
qed

lemma mem_trim_split:
  assumes ok: "heap_ok h (as @ (n, True) # cs)" and cs: "cs = [] \<or> snd (hd cs)" and w: "unat w \<le> 65532" and small: "rounded (unat w) + 20 \<le> n"
  defines "p \<equiv> after 0 as" and "s \<equiv> rounded (unat w)"
  shows "\<exists>h'. mem_trim h (int (p + 8)) w = Ok (Some (int (p + 8)), h') \<and> heap_ok h' (as @ (s, True) # (n - s - 8, False) # cs) \<and>
    same_but {p, p + 8 + s, p + 8 + n} (ram h) (ram h')"
proof -
  note h = heap_split [OF ok, folded p_def] and r = rounded_facts(1,2) [of "unat w", folded s_def]
  obtain m2 where m2: "mem_at (ram h) (after 0 as + 8 + n) = Ok m2" "mem_used m2 \<noteq> 0"
    using next_header [OF ok] cs by (auto simp: p_def)
  have e: "p + 8 + s + 8 + (n - s - 8) = p + 8 + n" using small by (simp add: s_def)
  have t: "tail_at (ram h) p (p + 8 + s + 8 + (n - s - 8)) cs" "12 \<le> n - s - 8" "4 dvd n - s - 8"
    unfolding e using h(5,7) r small by (simp_all add: dvd_diff_nat s_def)
  have tidy: "tidy (as @ (s, True) # (n - s - 8, False) # cs)" using ok cs by (auto simp: heap_ok_def tidy_simps tidy_Cons)
  from shrink_ok [OF ok t(1) [unfolded p_def] r t(2,3) tidy, folded p_def, unfolded e] obtain R where
    R: "link_free (ram h) (word_of_nat p) (word_of_nat (p + 8 + s)) (word_of_nat (p + 8 + n)) = Ok R"
      "heap_ok \<lparr>ram = R, lfree = first_free 0 (as @ (s, True) # (n - s - 8, False) # cs)\<rparr> (as @ (s, True) # (n - s - 8, False) # cs)"
      "same_but {p, p + 8 + s, p + 8 + n} (ram h) R" by blast
  have l: "lfree h = (if \<forall>b \<in> set as. snd b then first_free (p + 8 + n) cs else first_free 0 as)"
    using ok unfolding heap_ok_def first_free_append by (simp add: p_def)
  have "(if p + 8 + s < lfree h then p + 8 + s else lfree h) = first_free 0 (as @ (s, True) # (n - s - 8, False) # cs)"
    unfolding first_free_append l using first_free_le [of 0 as] first_free_ge [of "p + 8 + n" cs] small by (auto simp: p_def s_def)
  then have "mem_trim h (int (p + 8)) w = Ok (Some (int (p + 8)), \<lparr>ram = R, lfree = first_free 0 (as @ (s, True) # (n - s - 8, False) # cs)\<rparr>)"
    using mem_trim_run [OF ok w _ m2(1), folded p_def s_def] small m2(2) R(1) by (simp add: s_def del: of_nat_add)
  then show ?thesis using R(2,3) by auto
qed

lemma mem_trim_ok:
  assumes ok: "heap_ok h (as @ (n, True) # cs)" and w: "unat w \<le> 65532" and small: "rounded (unat w) \<le> n"
  defines "p \<equiv> after 0 as" and "s \<equiv> rounded (unat w)"
  shows "\<exists>h' bs. mem_trim h (int (p + 8)) w = Ok (Some (int (p + 8)), h') \<and>
    bs \<in> {(n, True) # cs, trimmed s n cs} \<and> heap_ok h' (as @ bs) \<and>
    bytes_kept (areas 0 as \<union> {(p + 8, s)} \<union> areas (p + 8 + n) cs) (ram h) (ram h')"
proof -
  have keep: "bytes_kept A R R" for A R by (simp add: bytes_kept_def)
  have around: "bytes_kept (areas 0 as \<union> {(p + 8, s)} \<union> areas e ds) R R'" if "same_but {p, p + 8 + s, e} R R'" "p + 8 + s \<le> e" for R R' e ds
  proof (rule bytes_kept_same_but [OF that(1)])
    fix a k q assume "(a, k) \<in> areas 0 as \<union> {(p + 8, s)} \<union> areas e ds" "q \<in> {p, p + 8 + s, e}"
    then show "a + k \<le> q \<or> q + 5 \<le> a" using areas_range [of a k 0 as] areas_range [of a k e ds] that(2) by (auto simp: p_def)
  qed
  consider "s = n \<or> (cs = [] \<or> snd (hd cs)) \<and> \<not> s + 20 \<le> n" | k ds where "cs = (k, False) # ds" "s < n" | "cs = [] \<or> snd (hd cs)" "s + 20 \<le> n"
    using small by (cases cs) (force simp: s_def)+
  then show ?thesis
  proof cases
    case 1
    obtain m2 where m2: "mem_at (ram h) (after 0 as + 8 + n) = Ok m2" "mem_used m2 = 0 \<longleftrightarrow> cs \<noteq> [] \<and> \<not> snd (hd cs)"
      using next_header [OF ok] by blast
    have "mem_trim h (int (p + 8)) w = Ok (Some (int (p + 8)), h)"
      using mem_trim_run [OF ok w small m2(1), folded p_def s_def] m2(2) 1 by auto
    then show ?thesis using ok keep by blast
  next
    case 2
    from mem_trim_join [OF ok [unfolded 2(1)] w, folded p_def s_def] 2(2) obtain h' where
      h': "mem_trim h (int (p + 8)) w = Ok (Some (int (p + 8)), h')" "heap_ok h' (as @ trimmed s n cs)"
        "same_but {p, p + 8 + s, p + 8 + n + 8 + k} (ram h) (ram h')" by (auto simp: 2(1))
    have "areas (p + 8 + n) cs = areas (p + 8 + n + 8 + k) ds" by (simp add: 2(1))
    then show ?thesis using around [OF h'(3), of ds] h'(1,2) 2(2) by auto
  next
    case 3
    from mem_trim_split [OF ok 3(1) w, folded p_def s_def, OF 3(2)] obtain h' where
      h': "mem_trim h (int (p + 8)) w = Ok (Some (int (p + 8)), h')" "heap_ok h' (as @ (s, True) # (n - s - 8, False) # cs)"
        "same_but {p, p + 8 + s, p + 8 + n} (ram h) (ram h')" by blast
    have "trimmed s n cs = (s, True) # (n - s - 8, False) # cs" using 3 by (cases "(s, n, cs)" rule: trimmed.cases) auto
    then show ?thesis using around [OF h'(3), of cs] h'(1,2) 3(2) by auto
  qed
qed

section \<open>Start\<close>

lemma mem_init_ok:
  assumes "15368 \<le> length R"
  shows "\<exists>h. mem_init R = Ok h \<and> heap_ok h [(15352, False)] \<and> length (ram h) = length R"
proof -
  let ?a = "\<lparr>mem_next = 15360, mem_prev = 0, mem_used = 0\<rparr> :: struct_mem" and ?b = "\<lparr>mem_next = 15360, mem_prev = 15360, mem_used = 1\<rparr> :: struct_mem"
  let ?R1 = "put_mem R 0 ?a" and ?R2 = "put_mem (put_mem R 0 ?a) 15360 ?b"
  have "mem_at ?R1 0 = Ok ?a" "mem_at ?R2 15360 = Ok ?b" using assms by (simp_all add: mem_at_put_same)
  moreover from this(1) have "mem_at ?R2 0 = Ok ?a" using mem_at_same_but [OF same_but_put [of 15360 "{15360}" ?R1 ?b], of 0] by simp
  ultimately have "heap_ok \<lparr>ram = ?R2, lfree = 0\<rparr> [(15352, False)]" by (simp add: heap_ok_def tail_at_def tidy_simps)
  moreover have "\<exists>m. mem_at R 0 = Ok m" "\<exists>m. mem_at ?R1 15360 = Ok m" using assms by (simp_all add: mem_at_def)
  then have "mem_init R = Ok \<lparr>ram = ?R2, lfree = 0\<rparr>" by (auto simp: mem_init_def set_mem_def)
  ultimately show ?thesis by simp
qed

end
