(* ===== verification/LwipHeapClients.thy ===== *)
theory LwipHeapClients
  imports LwipHeapOps
begin

text \<open>
  The heap of lwIP as its clients see it. The locale \<open>allocator\<close> is the contract of an allocator over
  bytes: what \<open>malloc\<close>, \<open>free\<close>, \<open>trim\<close> and a write by an owner do to the set of areas in use and to
  their bytes. From it follows that the memory serves its clients as if each block were an array of
  its own. The heap of \<open>mem.c\<close> keeps the contract.
\<close>

section \<open>The contract\<close>

text \<open>
  \<open>V\<close> maps the pointers that clients hold to the bytes they have stored there: each lies in an area
  of the heap that is at least as long and holds these bytes, and no area is without an owner.
\<close>

definition client_bytes :: "u8 list \<Rightarrow> (nat \<times> nat) set \<Rightarrow> (nat \<rightharpoonup> u8 list) \<Rightarrow> bool" where
  "client_bytes R A V \<longleftrightarrow>
     (\<forall>p xs. V p = Some xs \<longrightarrow> (\<exists>m. (p, m) \<in> A \<and> length xs \<le> m \<and> (\<forall>i < length xs. R ! (p + i) = xs ! i)))"

lemma client_bytesE:
  assumes "client_bytes R A V" and "V p = Some xs"
  obtains m where "(p, m) \<in> A" and "length xs \<le> m" and "\<forall>i < length xs. R ! (p + i) = xs ! i"
  using assms unfolding client_bytes_def by blast

definition serves ::
  "('h \<Rightarrow> (nat \<times> nat) set \<Rightarrow> bool) \<Rightarrow> ('h \<Rightarrow> u8 list) \<Rightarrow> 'h \<Rightarrow> (nat \<rightharpoonup> u8 list) \<Rightarrow> bool" where
  "serves in_use_areas bytes h V \<longleftrightarrow>
     (\<exists>A. in_use_areas h A \<and> fst ` A = dom V \<and> client_bytes (bytes h) A V)"

locale allocator =
  fixes in_use_areas :: "'h \<Rightarrow> (nat \<times> nat) set \<Rightarrow> bool"
    and bytes :: "'h \<Rightarrow> u8 list"
    and malloc :: "'h \<Rightarrow> u16 \<Rightarrow> (nat option \<times> 'h) outcome"
    and free :: "'h \<Rightarrow> int option \<Rightarrow> 'h outcome"
    and trim :: "'h \<Rightarrow> int \<Rightarrow> u16 \<Rightarrow> (int option \<times> 'h) outcome"
    and poke :: "'h \<Rightarrow> nat \<Rightarrow> u8 \<Rightarrow> 'h"
  assumes apart: "in_use_areas h A \<Longrightarrow> (a, k) \<in> A \<Longrightarrow> (b, l) \<in> A \<Longrightarrow> (a, k) \<noteq> (b, l) \<Longrightarrow> a + k \<le> b \<or> b + l \<le> a"
    and inside: "in_use_areas h A \<Longrightarrow> (a, k) \<in> A \<Longrightarrow> 0 < k \<and> a + k \<le> length (bytes h)"
    and malloc_law: "in_use_areas h A \<Longrightarrow> unat n \<le> 65532 \<Longrightarrow>
      malloc h n = Ok (None, h) \<or>
      (\<exists>p m h'. malloc h n = Ok (Some p, h') \<and> in_use_areas h' (insert (p, m) A) \<and> p \<notin> fst ` A \<and> unat n \<le> m \<and>
         bytes_kept A (bytes h) (bytes h'))"
    and free_law: "in_use_areas h A \<Longrightarrow> (p, m) \<in> A \<Longrightarrow>
      \<exists>h'. free h (Some (int p)) = Ok h' \<and> in_use_areas h' (A - {(p, m)}) \<and> bytes_kept (A - {(p, m)}) (bytes h) (bytes h')"
    and trim_law: "in_use_areas h A \<Longrightarrow> (p, m) \<in> A \<Longrightarrow> unat w \<le> m \<Longrightarrow>
      \<exists>h' m'. trim h (int p) w = Ok (Some (int p), h') \<and> unat w \<le> m' \<and> in_use_areas h' (insert (p, m') (A - {(p, m)})) \<and>
        bytes_kept (insert (p, unat w) (A - {(p, m)})) (bytes h) (bytes h')"
    and poke_law: "in_use_areas h A \<Longrightarrow> (p, m) \<in> A \<Longrightarrow> i < m \<Longrightarrow>
      in_use_areas (poke h (p + i) x) A \<and> bytes (poke h (p + i) x) = (bytes h)[p + i := x]"
begin

lemma one_area: "in_use_areas h A \<Longrightarrow> (p, m) \<in> A \<Longrightarrow> (p, m') \<in> A \<Longrightarrow> m' = m"
  using apart [of h A p m p m'] inside [of h A p m] inside [of h A p m'] by fastforce

lemma other_areas:
  assumes "in_use_areas h A" and "(p, m) \<in> A"
  shows "fst ` (A - {(p, m)}) = fst ` A - {p}"
proof -
  have "A - {(p, m)} = {x \<in> A. fst x \<noteq> p}"
  proof (intro set_eqI iffI)
    fix x assume "x \<in> A - {(p, m)}"
    then show "x \<in> {x \<in> A. fst x \<noteq> p}" using one_area [OF assms, of "snd x"] by (cases x) auto
  qed (use assms(2) in auto)
  then show ?thesis by auto
qed

lemma bytes_keptD: "bytes_kept A R R' \<Longrightarrow> (a, k) \<in> A \<Longrightarrow> i < k \<Longrightarrow> R' ! (a + i) = R ! (a + i)"
  by (auto simp: bytes_kept_def)

text \<open>Two clients never share a byte.\<close>

lemma serves_apart:
  assumes "serves in_use_areas bytes h V" and "V p = Some xs" and "V q = Some ys" and "p \<noteq> q"
  shows "p + length xs \<le> q \<or> q + length ys \<le> p"
proof -
  obtain A where A: "in_use_areas h A" "client_bytes (bytes h) A V" using assms(1) unfolding serves_def by blast
  from A(2) assms(2) obtain k where k: "(p, k) \<in> A" "length xs \<le> k" by (rule client_bytesE)
  from A(2) assms(3) obtain l where l: "(q, l) \<in> A" "length ys \<le> l" by (rule client_bytesE)
  show ?thesis using apart [OF A(1) k(1) l(1)] k(2) l(2) assms(4) by auto
qed

lemma serves_malloc:
  assumes "serves in_use_areas bytes h V" and "unat n \<le> 65532"
  shows "malloc h n = Ok (None, h) \<or>
    (\<exists>p h'. malloc h n = Ok (Some p, h') \<and> V p = None \<and> p + unat n \<le> length (bytes h') \<and>
       serves in_use_areas bytes h' (V(p \<mapsto> map (\<lambda>i. bytes h' ! (p + i)) [0..<unat n])))"
proof -
  obtain A where A: "in_use_areas h A" "fst ` A = dom V"
    "client_bytes (bytes h) A V"
    using assms(1) unfolding serves_def by blast
  consider "malloc h n = Ok (None, h)" | p m h' where "malloc h n = Ok (Some p, h')" "in_use_areas h' (insert (p, m) A)" "p \<notin> fst ` A"
    "unat n \<le> m" "bytes_kept A (bytes h) (bytes h')" using malloc_law [OF A(1) assms(2)] by blast
  then show ?thesis
  proof cases
    case 2
    have "serves in_use_areas bytes h' (V(p \<mapsto> map (\<lambda>i. bytes h' ! (p + i)) [0..<unat n]))"
      unfolding serves_def client_bytes_def
    proof (intro exI [of _ "insert (p, m) A"] conjI allI impI)
      show "fst ` insert (p, m) A = dom (V(p \<mapsto> map (\<lambda>i. bytes h' ! (p + i)) [0..<unat n]))" using A(2) by simp
      fix q xs assume "(V(p \<mapsto> map (\<lambda>i. bytes h' ! (p + i)) [0..<unat n])) q = Some xs"
      then show "\<exists>m'. (q, m') \<in> insert (p, m) A \<and> length xs \<le> m' \<and> (\<forall>i < length xs. bytes h' ! (q + i) = xs ! i)"
        using A(3) 2(4) bytes_keptD [OF 2(5)] by (cases "q = p") (force elim!: client_bytesE)+
    qed (rule 2(2))
    moreover have "p + unat n \<le> length (bytes h')" using inside [OF 2(2), of p m] 2(4) by simp
    ultimately show ?thesis using 2(1,3) A(2) by (auto simp: dom_def)
  qed simp
qed

lemma serves_free:
  assumes "serves in_use_areas bytes h V" and "V p = Some xs"
  shows "\<exists>h'. free h (Some (int p)) = Ok h' \<and> serves in_use_areas bytes h' (V(p := None))"
proof -
  obtain A where A: "in_use_areas h A" "fst ` A = dom V" "client_bytes (bytes h) A V" using assms(1) unfolding serves_def by blast
  from A(3) assms(2) obtain m where m: "(p, m) \<in> A" by (rule client_bytesE)
  from free_law [OF A(1) m] obtain h' where
    h': "free h (Some (int p)) = Ok h'" "in_use_areas h' (A - {(p, m)})" "bytes_kept (A - {(p, m)}) (bytes h) (bytes h')" by blast
  have "fst ` (A - {(p, m)}) = dom (V(p := None))" using other_areas [OF A(1) m] A(2) by auto
  moreover have "\<exists>k. (q, k) \<in> A - {(p, m)} \<and> length ys \<le> k \<and> (\<forall>i < length ys. bytes h' ! (q + i) = ys ! i)"
    if "(V(p := None)) q = Some ys" for q ys
  proof -
    have q: "q \<noteq> p" "V q = Some ys" using that by (auto split: if_splits)
    from A(3) q(2) obtain k where k: "(q, k) \<in> A" "length ys \<le> k" "\<forall>i < length ys. bytes h ! (q + i) = ys ! i" by (rule client_bytesE)
    then have "(q, k) \<in> A - {(p, m)}" using q(1) by simp
    then show ?thesis using k bytes_keptD [OF h'(3)] by (metis less_le_trans)
  qed
  ultimately have "serves in_use_areas bytes h' (V(p := None))" using h'(2) unfolding serves_def client_bytes_def by blast
  then show ?thesis using h'(1) by blast
qed

text \<open>A view after a change that keeps every other block.\<close>

lemma serves_change:
  assumes "serves in_use_areas bytes h V" and "in_use_areas h A" and "fst ` A = dom V"
    and V: "client_bytes (bytes h) A V"
    and p: "(p, m) \<in> A" and A': "in_use_areas h' (insert (p, m') (A - {(p, m)}))" and keeps: "bytes_kept (A - {(p, m)}) (bytes h) (bytes h')"
    and ys: "length ys \<le> m'" "\<forall>i < length ys. bytes h' ! (p + i) = ys ! i"
  shows "serves in_use_areas bytes h' (V(p \<mapsto> ys))"
proof -
  have "fst ` insert (p, m') (A - {(p, m)}) = dom (V(p \<mapsto> ys))"
    using other_areas [OF assms(2) p] assms(3) by auto
  moreover have "\<exists>k. (q, k) \<in> insert (p, m') (A - {(p, m)}) \<and> length zs \<le> k \<and> (\<forall>i < length zs. bytes h' ! (q + i) = zs ! i)"
    if "(V(p \<mapsto> ys)) q = Some zs" for q zs
  proof (cases "q = p")
    case True
    then show ?thesis using that ys by auto
  next
    case False
    then have "V q = Some zs" using that by simp
    with V obtain k where k: "(q, k) \<in> A" "length zs \<le> k" "\<forall>i < length zs. bytes h ! (q + i) = zs ! i" by (rule client_bytesE)
    then have "(q, k) \<in> A - {(p, m)}" using False by simp
    then show ?thesis using k bytes_keptD [OF keeps] by (metis insertCI less_le_trans)
  qed
  ultimately show ?thesis using A' unfolding serves_def client_bytes_def by blast
qed

lemma serves_trim:
  assumes "serves in_use_areas bytes h V" and "V p = Some xs" and "unat w \<le> length xs"
  shows "\<exists>h'. trim h (int p) w = Ok (Some (int p), h') \<and> serves in_use_areas bytes h' (V(p \<mapsto> take (unat w) xs))"
proof -
  obtain A where A: "in_use_areas h A" "fst ` A = dom V" "client_bytes (bytes h) A V" using assms(1) unfolding serves_def by blast
  from A(3) assms(2) obtain m where m: "(p, m) \<in> A" "length xs \<le> m" "\<forall>i < length xs. bytes h ! (p + i) = xs ! i" by (rule client_bytesE)
  from trim_law [OF A(1) m(1), of w] assms(3) m(2) obtain h' m' where
    h': "trim h (int p) w = Ok (Some (int p), h')" "unat w \<le> m'" "in_use_areas h' (insert (p, m') (A - {(p, m)}))"
      "bytes_kept (insert (p, unat w) (A - {(p, m)})) (bytes h) (bytes h')" by force
  have k: "bytes_kept (A - {(p, m)}) (bytes h) (bytes h')" using h'(4) by (auto simp: bytes_kept_def)
  have "bytes h' ! (p + i) = take (unat w) xs ! i" if "i < length (take (unat w) xs)" for i
    using bytes_keptD [OF h'(4), of p "unat w" i] m(3) that by simp
  then have "serves in_use_areas bytes h' (V(p \<mapsto> take (unat w) xs))"
    by (intro serves_change [OF assms(1) A m(1) h'(3) k]) (use h'(2) in simp_all)
  then show ?thesis using h'(1) by blast
qed

lemma serves_poke:
  assumes "serves in_use_areas bytes h V" and "V p = Some xs" and "i < length xs"
  shows "serves in_use_areas bytes (poke h (p + i) x) (V(p \<mapsto> xs[i := x]))"
proof -
  obtain A where A: "in_use_areas h A" "fst ` A = dom V" "client_bytes (bytes h) A V" using assms(1) unfolding serves_def by blast
  from A(3) assms(2) obtain m where m: "(p, m) \<in> A" "length xs \<le> m" "\<forall>i < length xs. bytes h ! (p + i) = xs ! i" by (rule client_bytesE)
  let ?h = "poke h (p + i) x"
  have im: "i < m" using assms(3) m(2) by simp
  have h': "in_use_areas ?h (insert (p, m) (A - {(p, m)}))" "bytes ?h = (bytes h)[p + i := x]"
    using poke_law [OF A(1) m(1) im] m(1) by (simp_all add: insert_absorb)
  have "bytes_kept (A - {(p, m)}) (bytes h) (bytes ?h)"
  proof -
    have "(bytes h)[p + i := x] ! (a + j) = bytes h ! (a + j)" if "(a, k) \<in> A - {(p, m)}" "j < k" for a k j
    proof -
      have "a + k \<le> p \<or> p + m \<le> a" using apart [OF A(1) _ m(1)] that(1) by auto
      then have "p + i \<noteq> a + j" using im that(2) by linarith
      then show ?thesis by simp
    qed
    then show ?thesis unfolding bytes_kept_def h'(2) by blast
  qed
  moreover have "\<forall>j < length (xs[i := x]). bytes ?h ! (p + j) = xs[i := x] ! j"
    using m(3) inside [OF A(1) m(1)] im by (auto simp: h'(2) nth_list_update)
  ultimately show ?thesis by (intro serves_change [OF assms(1) A m(1) h'(1)]) (use m(2) in simp_all)
qed

end

section \<open>The heap keeps the contract\<close>

definition heap_areas :: "mem_heap \<Rightarrow> (nat \<times> nat) set \<Rightarrow> bool" where
  "heap_areas h A \<longleftrightarrow> (\<exists>bs. heap_ok h bs \<and> A = areas 0 bs)"

text \<open>A client writes a byte.\<close>

definition poke :: "mem_heap \<Rightarrow> nat \<Rightarrow> u8 \<Rightarrow> mem_heap" where
  "poke h i x = h\<lparr>ram := (ram h)[i := x]\<rparr>"

lemma areas_apart: "(a, k) \<in> areas p bs \<Longrightarrow> (b, l) \<in> areas p bs \<Longrightarrow> (a, k) \<noteq> (b, l) \<Longrightarrow> a + k + 8 \<le> b \<or> b + l + 8 \<le> a"
proof (induction p bs rule: areas.induct)
  case (2 p n u bs)
  then show ?case using areas_range [of a k "p + 8 + n" bs] areas_range [of b l "p + 8 + n" bs] by (auto split: if_splits)
qed simp

lemma areas_split: "(a, k) \<in> areas p bs \<Longrightarrow> \<exists>as cs. bs = as @ (k, True) # cs \<and> a = after p as + 8"
proof (induction p bs rule: areas.induct)
  case (2 p n u bs)
  show ?case
  proof (cases "u \<and> (a, k) = (p + 8, n)")
    case True
    then show ?thesis by (intro exI [of _ "[]"] exI [of _ bs]) simp
  next
    case False
    then have "(a, k) \<in> areas (p + 8 + n) bs" using 2(2) by (auto split: if_splits)
    then obtain as cs where "bs = as @ (k, True) # cs" "a = after (p + 8 + n) as + 8" using 2(1) by blast
    then show ?thesis by (intro exI [of _ "(n, u) # as"] exI [of _ cs]) simp
  qed
qed simp

lemma areas_wf:
  assumes "heap_ok h bs" and "(a, k) \<in> areas 0 bs"
  shows "12 \<le> k" and "4 dvd k" and "8 \<le> a" and "a + k \<le> 15360" and "15368 \<le> length (ram h)" and "4 dvd a"
proof -
  obtain as cs where s: "bs = as @ (k, True) # cs" "a = after 0 as + 8" using areas_split [OF assms(2)] by blast
  note h = heap_split [OF assms(1) [unfolded s(1)]]
  show "12 \<le> k" "4 dvd k" "8 \<le> a" "a + k \<le> 15360" "15368 \<le> length (ram h)" using h s(2) tail_at_le [OF h(5)] by simp_all
  have "4 dvd after p as" if "blocks_at R pr p as" "4 dvd p" for R pr p
    using that by (induction R pr p as rule: blocks_at.induct) (simp_all add: dvd_add)
  then show "4 dvd a" using h(1) s(2) by (simp add: dvd_add)
qed

lemma poke_ok:
  assumes ok: "heap_ok h bs" and a: "(a, k) \<in> areas 0 bs" and i: "i < k"
  shows "heap_ok (poke h (a + i) x) bs"
proof -
  obtain as cs where s: "bs = as @ (k, True) # cs" "a = after 0 as + 8" using areas_split [OF a] by blast
  note h = heap_split [OF ok [unfolded s(1)]] and ok' = ok [unfolded s(1)]
  let ?R = "(ram h)[a + i := x]" and ?q = "min (a + i) (a + k - 5)"
  have q: "after 0 as + 8 \<le> ?q" "?q + 5 \<le> after 0 as + 8 + k" using i h(6) by (auto simp: s(2))
  have same: "same_but {?q} (ram h) ?R" unfolding same_but_def using i h(6) by (auto simp: nth_list_update)
  have "tail_at ?R (after 0 as) (after 0 as + 8 + k) cs" by (rule tail_at_same_but [OF same _ h(5)]) (use q(2) in simp)
  moreover have "mem_at ?R (after 0 as) = mem_at (ram h) (after 0 as)" by (rule mem_at_same_but [OF same]) (use q(1) in simp)
  ultimately have "tail_at ?R (before 0 0 as) (after 0 as) ((k, True) # cs)" using h(2) by (simp add: tail_at_Cons)
  moreover have "blocks_at ?R 0 0 as" by (rule blocks_at_same_but [OF same _ h(1)]) (use q(1) in simp)
  ultimately show ?thesis using ok by (simp add: heap_ok_def tail_at_append s(1) poke_def)
qed

lemma malloc_areas:
  assumes "heap_ok h bs" and "n \<noteq> 0" and "unat n \<le> 65532" and "\<not> (\<forall>b \<in> set bs. snd b \<or> fst b < rounded (unat n))"
  shows "\<exists>as m cs h' bs'. bs = as @ (m, False) # cs \<and> (\<forall>b \<in> set as. snd b \<or> fst b < rounded (unat n)) \<and> rounded (unat n) \<le> m \<and>
    mem_malloc h n = Ok (Some (after 0 as + 8), h') \<and> heap_ok h' bs' \<and> bytes_kept (areas 0 bs) (ram h) (ram h') \<and>
    (\<exists>k. areas 0 bs' = insert (after 0 as + 8, k) (areas 0 bs) \<and> unat n \<le> k \<and> (\<forall>(b, l) \<in> areas 0 bs. b + l \<le> after 0 as + 8 \<or> after 0 as + 8 + k \<le> b))"
proof -
  let ?s = "rounded (unat n)"
  obtain as m cs h' where h': "bs = as @ (m, False) # cs" "\<forall>b \<in> set as. snd b \<or> fst b < ?s" "?s \<le> m"
    "mem_malloc h n = Ok (Some (after 0 as + 8), h')" "heap_ok h' (as @ taken ?s m @ cs)"
    "same_but {after 0 as, after 0 as + 8 + ?s, after 0 as + 8 + m} (ram h) (ram h')"
    using mem_malloc_some [OF assms(1,3,2,4)] by blast
  let ?p = "after 0 as"
  have ar: "areas 0 bs = areas 0 as \<union> areas (?p + 8 + m) cs" by (simp add: h'(1) areas_append)
  have "bytes_kept (areas 0 bs) (ram h) (ram h')"
    unfolding ar by (rule bytes_kept_around [OF h'(6), of _ "?p + 8 + m"]) (use h'(3) in auto)
  moreover define k where "k = (if ?s + 20 \<le> m then ?s else m)"
  have "areas 0 (as @ taken ?s m @ cs) = insert (?p + 8, k) (areas 0 bs)"
    unfolding ar by (simp add: areas_append taken_def k_def Un_commute ac_simps)
  moreover have "unat n \<le> k" "k \<le> m" using rounded_facts(3) [of "unat n"] h'(3) by (auto simp: k_def)
  moreover have "b + l \<le> ?p + 8 \<or> ?p + 8 + k \<le> b" if "(b, l) \<in> areas 0 bs" for b l
    using that areas_range [of b l 0 as] areas_range [of b l "?p + 8 + m" cs] \<open>k \<le> m\<close> unfolding ar by auto
  ultimately show ?thesis using h'(1-5) by blast
qed

lemma free_areas:
  assumes ok: "heap_ok h bs" and a: "(a, k) \<in> areas 0 bs"
  shows "\<exists>h' bs'. mem_free h (Some (int a)) = Ok h' \<and> heap_ok h' bs' \<and> areas 0 bs' = areas 0 bs - {(a, k)} \<and>
    bytes_kept (areas 0 bs - {(a, k)}) (ram h) (ram h')"
proof -
  obtain as cs where s: "bs = as @ (k, True) # cs" "a = after 0 as + 8" using areas_split [OF a] by blast
  from mem_free_ok [OF ok [unfolded s(1)]] obtain h' xs N ys where
    h': "mem_free h (Some (int a)) = Ok h'" "heap_ok h' (xs @ (N, False) # ys)" "areas 0 xs = areas 0 as"
      "areas (after 0 xs + 8 + N) ys = areas (after 0 as + 8 + k) cs" "same_but {after 0 xs..after 0 xs + 8 + N} (ram h) (ram h')"
    unfolding s(2) by blast
  have "(a, k) \<notin> areas 0 as" "(a, k) \<notin> areas (after 0 as + 8 + k) cs"
    using areas_range [of a k 0 as] areas_range [of a k "after 0 as + 8 + k" cs] s(2) heap_split(6) [OF ok [unfolded s(1)]] by auto
  then have ar: "areas 0 bs - {(a, k)} = areas 0 xs \<union> areas (after 0 xs + 8 + N) ys"
    unfolding h'(3,4) s by (auto simp: areas_append)
  moreover have "areas 0 (xs @ (N, False) # ys) = areas 0 xs \<union> areas (after 0 xs + 8 + N) ys" by (simp add: areas_append)
  moreover have "bytes_kept (areas 0 xs \<union> areas (after 0 xs + 8 + N) ys) (ram h) (ram h')"
    by (rule bytes_kept_around [OF h'(5)]) auto
  ultimately show ?thesis using h'(1,2) by metis
qed

lemma trim_areas:
  assumes ok: "heap_ok h bs" and a: "(a, k) \<in> areas 0 bs" and w: "unat w \<le> k"
  shows "\<exists>h' bs' m. mem_trim h (int a) w = Ok (Some (int a), h') \<and> heap_ok h' bs' \<and> unat w \<le> m \<and> m \<le> k \<and>
    areas 0 bs' = insert (a, m) (areas 0 bs - {(a, k)}) \<and> bytes_kept (insert (a, unat w) (areas 0 bs - {(a, k)})) (ram h) (ram h')"
proof -
  obtain as cs where s: "bs = as @ (k, True) # cs" "a = after 0 as + 8" using areas_split [OF a] by blast
  note ok' = ok [unfolded s(1)] and wf = areas_wf [OF ok a]
  have r: "unat w \<le> 65532" "rounded (unat w) \<le> k"
    using w wf(1,2,4) by (auto simp: rounded_def LWIP_MEM_ALIGN_SIZE_def elim!: dvdE)
  from mem_trim_ok [OF ok' r] obtain h' ds where
    h': "mem_trim h (int a) w = Ok (Some (int a), h')" "ds \<in> {(k, True) # cs, trimmed (rounded (unat w)) k cs}" "heap_ok h' (as @ ds)"
      "bytes_kept (areas 0 as \<union> {(a, rounded (unat w))} \<union> areas (after 0 as + 8 + k) cs) (ram h) (ram h')" unfolding s(2) by blast
  have "(a, k) \<notin> areas 0 as" "(a, k) \<notin> areas (after 0 as + 8 + k) cs"
    using areas_range [of a k 0 as] areas_range [of a k "after 0 as + 8 + k" cs] s(2) wf(1) by auto
  then have ar: "areas 0 bs - {(a, k)} = areas 0 as \<union> areas (after 0 as + 8 + k) cs" unfolding s by (auto simp: areas_append)
  obtain m where m: "rounded (unat w) \<le> m" "m \<le> k" "areas (after 0 as) ds = insert (a, m) (areas (after 0 as + 8 + k) cs)"
  proof (cases "ds = (k, True) # cs")
    case True
    then show ?thesis using that [of k] r(2) by (simp add: s(2))
  next
    case False
    then show ?thesis using that h'(2) trimmed_areas [OF r(2), of "after 0 as" cs] by (auto simp: s(2))
  qed
  have "areas 0 (as @ ds) = insert (a, m) (areas 0 bs - {(a, k)})" unfolding ar by (auto simp: areas_append m(3))
  moreover have "bytes_kept (insert (a, unat w) (areas 0 bs - {(a, k)})) (ram h) (ram h')"
    using h'(4) rounded_facts(3) [of "unat w"] unfolding ar bytes_kept_def by fastforce
  ultimately show ?thesis using h'(1,3) m(1,2) rounded_facts(3) [of "unat w"] le_trans by blast
qed

interpretation lwip_heap: allocator heap_areas ram mem_malloc mem_free mem_trim poke
proof
  fix h A a k b l assume "heap_areas h A" "(a, k) \<in> A" "(b, l) \<in> A" "(a, k) \<noteq> (b, l)"
  then have "a + k + 8 \<le> b \<or> b + l + 8 \<le> a" unfolding heap_areas_def using areas_apart [of a k 0 _ b l] by blast
  then show "a + k \<le> b \<or> b + l \<le> a" by linarith
next
  fix h A a k assume "heap_areas h A" "(a, k) \<in> A"
  then obtain bs where "heap_ok h bs" "(a, k) \<in> areas 0 bs" by (auto simp: heap_areas_def)
  from areas_wf(1,4,5) [OF this] show "0 < k \<and> a + k \<le> length (ram h)" by simp
next
  fix h A and n :: u16 assume "heap_areas h A" and n: "unat n \<le> 65532"
  then obtain bs where bs: "heap_ok h bs" "A = areas 0 bs" by (auto simp: heap_areas_def)
  show "mem_malloc h n = Ok (None, h) \<or> (\<exists>p m h'. mem_malloc h n = Ok (Some p, h') \<and> heap_areas h' (insert (p, m) A) \<and>
    p \<notin> fst ` A \<and> unat n \<le> m \<and> bytes_kept A (ram h) (ram h'))"
  proof (cases "n = 0 \<or> (\<forall>b \<in> set bs. snd b \<or> fst b < rounded (unat n))")
    case True
    then show ?thesis using mem_malloc_none [OF bs(1) n] by (auto simp: mem_malloc_def)
  next
    case False
    then obtain p k h' bs' where h': "mem_malloc h n = Ok (Some p, h')" "heap_ok h' bs'" "bytes_kept A (ram h) (ram h')"
      "areas 0 bs' = insert (p, k) A" "unat n \<le> k" "\<forall>(b, l) \<in> A. b + l \<le> p \<or> p + k \<le> b"
      using malloc_areas [OF bs(1) _ n] unfolding bs(2) by blast
    have "p \<notin> fst ` A" using h'(6) areas_wf(1) [OF bs(1)] areas_wf(1) [OF h'(2), of p k] h'(4) bs(2) by fastforce
    then show ?thesis using h' unfolding heap_areas_def by metis
  qed
next
  fix h A p m assume "heap_areas h A" "(p, m) \<in> A"
  then show "\<exists>h'. mem_free h (Some (int p)) = Ok h' \<and> heap_areas h' (A - {(p, m)}) \<and> bytes_kept (A - {(p, m)}) (ram h) (ram h')"
    unfolding heap_areas_def using free_areas by metis
next
  fix h A p m and w :: u16 assume "heap_areas h A" "(p, m) \<in> A" "unat w \<le> m"
  then show "\<exists>h' m'. mem_trim h (int p) w = Ok (Some (int p), h') \<and> unat w \<le> m' \<and> heap_areas h' (insert (p, m') (A - {(p, m)})) \<and>
      bytes_kept (insert (p, unat w) (A - {(p, m)})) (ram h) (ram h')"
    unfolding heap_areas_def using trim_areas by metis
next
  fix h A p m i x assume "heap_areas h A" "(p, m) \<in> A" "i < m"
  then show "heap_areas (poke h (p + i) x) A \<and> ram (poke h (p + i) x) = (ram h)[p + i := x]"
    unfolding heap_areas_def using poke_ok [of h _ p m i x] by (auto simp: poke_def)
qed

section \<open>The heap in use\<close>

text \<open>
  A run of the heap: the start, allocations of any size that 16 bits can round up, giving back and
  shrinking by the owner of a block, and writes by an owner into its block. \<open>V\<close> is what the clients
  have stored.
\<close>

inductive heap_run :: "mem_heap \<Rightarrow> (nat \<rightharpoonup> u8 list) \<Rightarrow> bool" where
  start: "mem_init R = Ok h \<Longrightarrow> 15368 \<le> length R \<Longrightarrow> heap_run h Map.empty"
| alloc: "heap_run h V \<Longrightarrow> unat n \<le> 65532 \<Longrightarrow> mem_malloc h n = Ok (Some p, h') \<Longrightarrow>
    heap_run h' (V(p \<mapsto> map (\<lambda>i. ram h' ! (p + i)) [0..<unat n]))"
| no_room: "heap_run h V \<Longrightarrow> unat n \<le> 65532 \<Longrightarrow> mem_malloc h n = Ok (None, h') \<Longrightarrow> heap_run h' V"
| give_back: "heap_run h V \<Longrightarrow> V p = Some xs \<Longrightarrow> mem_free h (Some (int p)) = Ok h' \<Longrightarrow> heap_run h' (V(p := None))"
| shrink: "heap_run h V \<Longrightarrow> V p = Some xs \<Longrightarrow> unat w \<le> length xs \<Longrightarrow> mem_trim h (int p) w = Ok (r, h') \<Longrightarrow>
    heap_run h' (V(p \<mapsto> take (unat w) xs))"
| store: "heap_run h V \<Longrightarrow> V p = Some xs \<Longrightarrow> i < length xs \<Longrightarrow> heap_run (poke h (p + i) x) (V(p \<mapsto> xs[i := x]))"

lemma heap_run_serves: "heap_run h V \<Longrightarrow> serves heap_areas ram h V"
proof (induction rule: heap_run.induct)
  case (start R h)
  then have "heap_areas h {}" using mem_init_ok [of R] by (auto simp: heap_areas_def intro!: exI [of _ "[(15352, False)]"])
  then show ?case by (auto simp: serves_def client_bytes_def intro!: exI [of _ "{}"])
next
  case (alloc h V n p h')
  then show ?case using lwip_heap.serves_malloc [OF alloc.IH alloc.hyps(2)] by (auto simp del: fun_upd_apply)
next
  case (no_room h V n h')
  then show ?case using lwip_heap.serves_malloc [OF no_room.IH no_room.hyps(2)] by auto
next
  case (give_back h V p xs h')
  then show ?case using lwip_heap.serves_free [OF give_back.IH give_back.hyps(2)] by (auto simp del: fun_upd_apply)
next
  case (shrink h V p xs w r h')
  then show ?case using lwip_heap.serves_trim [OF shrink.IH shrink.hyps(2,3)] by (auto simp del: fun_upd_apply)
next
  case (store h V p xs i x)
  then show ?case using lwip_heap.serves_poke by blast
qed

lemma tidy_unused:
  assumes "heap_ok h bs" and "areas 0 bs = {}" shows "bs = [(15352, False)]"
proof -
  have unused: "\<forall>b \<in> set bs. \<not> snd b" if "areas p bs = {}" for p
    using that by (induction p bs rule: areas.induct) (auto split: if_splits)
  have t: "tail_at (ram h) 0 0 bs" "tidy bs" using assms(1) by (simp_all add: heap_ok_def)
  show ?thesis
  proof (cases bs)
    case Nil
    then show ?thesis using t(1) by (simp add: tail_at_def)
  next
    case (Cons b cs)
    then have "cs = []" using t(2) unused [OF assms(2)] by (cases cs) (auto simp: tidy_simps)
    then show ?thesis using t(1) unused [OF assms(2)] by (cases b) (auto simp: Cons tail_at_def)
  qed
qed

end
