(* ===== verification/LwipHeapProps.thy ===== *)
theory LwipHeapProps
  imports LwipHeapClients
begin

text \<open>What the heap of lwIP promises to those who take memory from it, and where it does not.\<close>

section \<open>First fit\<close>

text \<open>The data of the lowest free block of size \<open>s\<close> or more.\<close>

fun first_fit :: "nat \<Rightarrow> nat \<Rightarrow> blk list \<Rightarrow> nat option" where
  "first_fit s p [] = None"
| "first_fit s p ((n, u) # bs) = (if \<not> u \<and> s \<le> n then Some (p + 8) else first_fit s (p + 8 + n) bs)"

lemma first_fit_None: "first_fit s p bs = None \<longleftrightarrow> (\<forall>b \<in> set bs. snd b \<or> fst b < s)"
  by (induction s p bs rule: first_fit.induct) auto

lemma first_fit_Some:
  "\<forall>b \<in> set as. snd b \<or> fst b < s \<Longrightarrow> s \<le> m \<Longrightarrow> first_fit s p (as @ (m, False) # cs) = Some (after p as + 8)"
  by (induction s p as rule: first_fit.induct) auto

text \<open>The heap right after the start, and after a first block of 100 bytes was taken.\<close>

lemma fresh_heap: "\<exists>h. mem_init (replicate 15376 0) = Ok h \<and> heap_ok h [(15352, False)] \<and> length (ram h) = 15376"
  using mem_init_ok [of "replicate 15376 0"] by simp

section \<open>Properties\<close>

text \<open>
  C32: The heap serves its clients. After any sequence of allocations, of giving back and shrinking
  blocks by their owners, and of writes by owners into their blocks: every block that a client holds
  is aligned, inside the heap and holds exactly the bytes that its owner has stored there; the blocks
  of two clients do not overlap; and every further allocation of up to 65532 bytes, and every giving
  back or shrinking by an owner, returns.
\<close>

theorem heap_serves_clients:
  assumes "heap_run h V"
  shows "(V p = Some xs \<longrightarrow> 4 dvd p \<and> p + length xs \<le> 15360 \<and> take (length xs) (drop p (ram h)) = xs \<and>
      (\<exists>h'. mem_free h (Some (int p)) = Ok h') \<and> (unat w \<le> length xs \<longrightarrow> (\<exists>h'. mem_trim h (int p) w = Ok (Some (int p), h')))) \<and>
    (V p = Some xs \<and> V q = Some ys \<and> p \<noteq> q \<longrightarrow> p + length xs \<le> q \<or> q + length ys \<le> p) \<and>
    (unat n \<le> 65532 \<longrightarrow> (\<exists>r. mem_malloc h n = Ok r))"
proof (intro conjI impI)
  note s = heap_run_serves [OF assms]
  {
    assume p: "V p = Some xs"
    obtain bs where bs: "heap_ok h bs" "client_bytes (ram h) (areas 0 bs) V" using s unfolding serves_def heap_areas_def by blast
    from bs(2) p obtain m where m: "(p, m) \<in> areas 0 bs" "length xs \<le> m" "\<forall>i < length xs. ram h ! (p + i) = xs ! i" by (rule client_bytesE)
    note wf = areas_wf [OF bs(1) m(1)]
    show "4 dvd p" "p + length xs \<le> 15360" using wf m(2) by simp_all
    show "take (length xs) (drop p (ram h)) = xs" using wf m(2,3) by (intro nth_equalityI) simp_all
    show "\<exists>h'. mem_free h (Some (int p)) = Ok h'" using lwip_heap.serves_free [OF s p] by blast
    show "unat w \<le> length xs \<Longrightarrow> \<exists>h'. mem_trim h (int p) w = Ok (Some (int p), h')" using lwip_heap.serves_trim [OF s p] by blast
  }
  show "V p = Some xs \<and> V q = Some ys \<and> p \<noteq> q \<Longrightarrow> p + length xs \<le> q \<or> q + length ys \<le> p"
    using lwip_heap.serves_apart [OF s] by blast
  show "unat n \<le> 65532 \<Longrightarrow> \<exists>r. mem_malloc h n = Ok r" using lwip_heap.serves_malloc [OF s] by blast
qed

theorem heap_serves_clients_witness:
  "\<exists>h xs. heap_run h [8 \<mapsto> xs] \<and> length xs = 100 \<and> xs ! 99 = 7 \<and> take 100 (drop 8 (ram h)) = xs"
proof -
  obtain h where h: "mem_init (replicate 15376 0) = Ok h" "heap_ok h [(15352, False)]" using fresh_heap by blast
  have "\<not> (\<forall>b \<in> set [(15352, False)]. snd b \<or> fst b < rounded (unat (100 :: u16)))" by (simp add: rounded_def LWIP_MEM_ALIGN_SIZE_def)
  from mem_malloc_some [OF h(2) _ _ this] obtain h1 where h1: "mem_malloc h 100 = Ok (Some 8, h1)"
    by (auto simp: Cons_eq_append_conv)
  let ?xs = "map (\<lambda>i. ram h1 ! (8 + i)) [0..<100]"
  have "heap_run h1 [8 \<mapsto> ?xs]" using heap_run.alloc [OF heap_run.start [OF h(1)] _ h1] by simp
  from heap_run.store [OF this, of 8 ?xs 99 7] have run: "heap_run (poke h1 (8 + 99) 7) [8 \<mapsto> ?xs[99 := 7]]" by simp
  have "length (?xs[99 := 7]) = 100" "?xs[99 := 7] ! 99 = 7" by simp_all
  then show ?thesis using run heap_serves_clients [OF run, of 8 "?xs[99 := 7]"] by (metis fun_upd_same)
qed

text \<open>
  C33: \<open>mem_malloc\<close> is first fit. It takes the lowest free block that holds the size rounded up, or
  returns NULL and changes nothing if there is none. The new area is aligned, inside the heap, at
  least as long as was asked for and apart from every area in use; these stay in use and keep their
  bytes, and the heap stays well formed.
\<close>

theorem mem_malloc_first_fit:
  assumes ok: "heap_ok h bs" and n: "n \<noteq> 0" "unat n \<le> 65532"
  shows "case first_fit (rounded (unat n)) 0 bs of
      None \<Rightarrow> mem_malloc h n = Ok (None, h)
    | Some p \<Rightarrow> \<exists>h' bs' k. mem_malloc h n = Ok (Some p, h') \<and> heap_ok h' bs' \<and> areas 0 bs' = insert (p, k) (areas 0 bs) \<and>
        unat n \<le> k \<and> 4 dvd p \<and> p + k \<le> 15360 \<and> (\<forall>(b, l) \<in> areas 0 bs. b + l \<le> p \<or> p + k \<le> b) \<and> bytes_kept (areas 0 bs) (ram h) (ram h')"
proof (cases "first_fit (rounded (unat n)) 0 bs = None")
  case True
  then show ?thesis using mem_malloc_none [OF ok n(2) True [unfolded first_fit_None]] by simp
next
  case False
  from malloc_areas [OF ok n False [unfolded first_fit_None]] obtain as m cs h' bs' k where
    h': "bs = as @ (m, False) # cs" "\<forall>b \<in> set as. snd b \<or> fst b < rounded (unat n)" "rounded (unat n) \<le> m"
      "mem_malloc h n = Ok (Some (after 0 as + 8), h')" "heap_ok h' bs'" "bytes_kept (areas 0 bs) (ram h) (ram h')"
      "areas 0 bs' = insert (after 0 as + 8, k) (areas 0 bs)" "unat n \<le> k"
      "\<forall>(b, l) \<in> areas 0 bs. b + l \<le> after 0 as + 8 \<or> after 0 as + 8 + k \<le> b" by blast
  have "(after 0 as + 8, k) \<in> areas 0 bs'" unfolding h'(7) by simp
  from areas_wf(4,6) [OF h'(5) this] have "4 dvd after 0 as + 8" "after 0 as + 8 + k \<le> 15360" by simp_all
  moreover have "first_fit (rounded (unat n)) 0 bs = Some (after 0 as + 8)" unfolding h'(1) by (rule first_fit_Some [OF h'(2,3)])
  ultimately show ?thesis using h'(4-9) by auto
qed

theorem mem_malloc_first_fit_witness:
  "\<exists>h h' k. mem_init (replicate 15376 0) = Ok h \<and> mem_malloc h 100 = Ok (Some 8, h') \<and> heap_areas h' {(8, k)} \<and> 100 \<le> k"
proof -
  obtain h where h: "mem_init (replicate 15376 0) = Ok h" "heap_ok h [(15352, False)]" using fresh_heap by blast
  have "first_fit (rounded (unat (100 :: u16))) 0 [(15352, False)] = Some 8" by (simp add: rounded_def LWIP_MEM_ALIGN_SIZE_def)
  then show ?thesis using mem_malloc_first_fit [OF h(2), of 100] h(1) by (auto simp: heap_areas_def)
qed

text \<open>
  C34: \<open>mem_free\<close> on a block in use gives back exactly that block and merges it with free neighbours:
  the heap stays well formed, without two free blocks in a row, and the other blocks in use keep
  their place and their bytes. When the last block in use is given back the heap is one free block
  of all its memory again. NULL and pointers outside the heap are ignored.
\<close>

theorem mem_free_restores:
  assumes ok: "heap_ok h bs" and a: "(a, k) \<in> areas 0 bs" and r: "r < 0 \<or> 15360 \<le> r"
  shows "(\<exists>h' bs'. mem_free h (Some (int a)) = Ok h' \<and> heap_ok h' bs' \<and> areas 0 bs' = areas 0 bs - {(a, k)} \<and>
      bytes_kept (areas 0 bs - {(a, k)}) (ram h) (ram h') \<and> (areas 0 bs = {(a, k)} \<longrightarrow> bs' = [(15352, False)])) \<and>
    mem_free h None = Ok h \<and> mem_free h (Some r) = Ok h"
proof -
  obtain h' bs' where h': "mem_free h (Some (int a)) = Ok h'" "heap_ok h' bs'" "areas 0 bs' = areas 0 bs - {(a, k)}"
    "bytes_kept (areas 0 bs - {(a, k)}) (ram h) (ram h')" using free_areas [OF ok a] by blast
  then show ?thesis using tidy_unused [OF h'(2)] r by (auto simp: mem_free_def)
qed

theorem mem_free_restores_witness:
  "\<exists>h1 h2. mem_free h1 (Some 8) = Ok h2 \<and> heap_areas h1 {(8, 100)} \<and> heap_ok h2 [(15352, False)]"
proof -
  obtain h where h: "heap_ok h [(15352, False)]" using fresh_heap by blast
  have "\<not> (\<forall>b \<in> set [(15352, False)]. snd b \<or> fst b < rounded (unat (100 :: u16)))" by (simp add: rounded_def LWIP_MEM_ALIGN_SIZE_def)
  from mem_malloc_some [OF h _ _ this] obtain h1 where h1: "heap_ok h1 [(100, True), (15244, False)]"
    by (auto simp: taken_def rounded_def LWIP_MEM_ALIGN_SIZE_def Cons_eq_append_conv)
  then have "heap_areas h1 {(8, 100)}" by (auto simp: heap_areas_def intro!: exI [of _ "[(100, True), (15244, False)]"])
  then show ?thesis using mem_free_restores [OF h1, of 8 100 "- 1"] by auto
qed

text \<open>
  C35: Sizes wrap. A request of 65533 bytes or more is rounded up to 0 in 16 bits and then raised to
  the minimum: \<open>mem_malloc\<close> and \<open>mem_trim\<close> treat it as one of 12 bytes, so the caller gets a block
  far too small, or loses most of the block it has. And \<open>mem_calloc\<close> computes its product in 16 bits for
  the allocation and in full for clearing: a product of 65536 or more is cleared far behind the block
  and the heap.
\<close>

theorem mem_size_wraps:
  assumes "65532 < unat n"
    and "mem_malloc h (count * each) = Ok (Some q, h')" and "length (ram h') < 65536" and "65536 \<le> unat count * unat each"
  shows "mem_malloc h n = mem_malloc h 12 \<and> mem_trim h r n = mem_trim h r 12 \<and> mem_calloc h count each = Halt Overrun"
proof -
  have n: "unat n \<in> {65533, 65534, 65535}" using assms(1) unsigned_less [where 'a = nat, of n] by auto
  then have "LWIP_MEM_ALIGN_SIZE (unat n) = 65536" by (auto simp: LWIP_MEM_ALIGN_SIZE_def)
  then have "block_size n = 12" by (simp add: block_size_def)
  moreover have "block_size 12 = 12" by (simp add: block_size_def LWIP_MEM_ALIGN_SIZE_def)
  moreover have "n \<noteq> 0" using assms(1) by auto
  moreover have "mem_calloc h count each = Halt Overrun" using assms(2-4) by (simp add: mem_calloc_def memcpy_def Let_def)
  ultimately show ?thesis by (simp add: mem_malloc_def mem_trim_def)
qed

theorem mem_size_wraps_witness:
  "\<exists>h h'. mem_init (replicate 15376 0) = Ok h \<and> mem_malloc h 65535 = Ok (Some 8, h') \<and> heap_areas h' {(8, 12)} \<and>
    mem_calloc h 256 257 = Halt Overrun"
proof -
  obtain h where h: "mem_init (replicate 15376 0) = Ok h" "heap_ok h [(15352, False)]" "length (ram h) = 15376" using fresh_heap by blast
  have some: "\<not> (\<forall>b \<in> set [(15352, False)]. snd b \<or> fst b < rounded (unat (k :: u16)))" if "k \<in> {12, 256}" for k
    using that by (auto simp: rounded_def LWIP_MEM_ALIGN_SIZE_def)
  from mem_malloc_some [OF h(2) _ _ some [of 12]] obtain h1 where
    h1: "mem_malloc h 12 = Ok (Some 8, h1)" "heap_ok h1 [(12, True), (15332, False)]"
    by (auto simp: taken_def rounded_def LWIP_MEM_ALIGN_SIZE_def Cons_eq_append_conv)
  from mem_malloc_some [OF h(2) _ _ some [of 256]] obtain h2 where
    h2: "mem_malloc h 256 = Ok (Some 8, h2)" "length (ram h2) = length (ram h)"
    by (auto simp: same_but_def Cons_eq_append_conv)
  have e: "(256 :: u16) * 257 = 256" by simp
  have "heap_areas h1 {(8, 12)}" using h1(2) by (auto simp: heap_areas_def intro!: exI [of _ "[(12, True), (15332, False)]"])
  then show ?thesis using mem_size_wraps [of 65535 h 256 257 8 h2 0, unfolded e] h h1(1) h2 by auto
qed

end
