(* ===== verification/LwipCyclic.thy ===== *)
theory LwipCyclic
  imports LwipTimeouts "HOL-Library.Multiset"
begin

text \<open>
  The timers of lwIP itself in \<open>src/lwip-2.0.3/src/core/timeouts.c\<close>: the table of cyclic timers, the TCP
  timer, which runs only while there are connections, the start of the module, and the wait of the
  thread of lwIP for messages, in which the timeouts are worked off. What the timers do to the stack,
  the clock and the mailbox are parameters. The configuration has TCP, reassembly of IP fragments and
  ARP.
\<close>

section \<open>The program\<close>

datatype lwip_cyclic_timer_handler = Tcp_tmr | Ip_reass_tmr | Etharp_tmr

record lwip_cyclic_timer =
  interval_ms :: u32
  cyclic_handler :: lwip_cyclic_timer_handler

definition TCP_TMR_INTERVAL :: u32 where
  "TCP_TMR_INTERVAL = 250"

definition IP_TMR_INTERVAL :: u32 where
  "IP_TMR_INTERVAL = 1000"

definition ARP_TMR_INTERVAL :: u32 where
  "ARP_TMR_INTERVAL = 5000"

definition lwip_cyclic_timers :: "lwip_cyclic_timer list" where
  "lwip_cyclic_timers =
     [\<lparr>interval_ms = TCP_TMR_INTERVAL, cyclic_handler = Tcp_tmr\<rparr>,
      \<lparr>interval_ms = IP_TMR_INTERVAL, cyclic_handler = Ip_reass_tmr\<rparr>,
      \<lparr>interval_ms = ARP_TMR_INTERVAL, cyclic_handler = Etharp_tmr\<rparr>]"

text \<open>
  The handlers of timeouts: the two of the module, and those of applications. The argument of
  \<open>cyclic_timer\<close> points into the table and is the index here.
\<close>

datatype 'x timeout_handler = Tcpip_tcp_timer | Cyclic_timer | Other 'x

record 's core =
  tcpip_tcp_timer_active :: bool
  net_stack :: 's

type_synonym ('x, 's) core_state = "'s core \<times> 'x timeout_handler timeouts"

record ('x, 's) core_env =
  run_tmr :: "lwip_cyclic_timer_handler \<Rightarrow> ('x, 's) core_state \<Rightarrow> ('x, 's) core_state"
  run_other :: "'x \<Rightarrow> u32 \<Rightarrow> ('x, 's) core_state \<Rightarrow> ('x, 's) core_state"
  has_pcbs :: "'s \<Rightarrow> bool"
  clock :: "'s \<Rightarrow> u32"

definition arm :: "('x, 's) core_env \<Rightarrow> u32 \<Rightarrow> 'x timeout_handler \<Rightarrow> u32 \<Rightarrow> ('x, 's) core_state \<Rightarrow> ('x, 's) core_state" where
  "arm E msecs handler a w = (fst w, sys_timeout (clock E (net_stack (fst w))) msecs handler a (snd w))"

definition tcpip_tcp_timer :: "('x, 's) core_env \<Rightarrow> ('x, 's) core_state \<Rightarrow> ('x, 's) core_state" where
  "tcpip_tcp_timer E w =
     (let w = run_tmr E Tcp_tmr w in
      if has_pcbs E (net_stack (fst w)) then arm E TCP_TMR_INTERVAL Tcpip_tcp_timer 0 w
      else ((fst w)\<lparr>tcpip_tcp_timer_active := False\<rparr>, snd w))"

definition tcp_timer_needed :: "('x, 's) core_env \<Rightarrow> ('x, 's) core_state \<Rightarrow> ('x, 's) core_state" where
  "tcp_timer_needed E w =
     (if \<not> tcpip_tcp_timer_active (fst w) \<and> has_pcbs E (net_stack (fst w)) then
        arm E TCP_TMR_INTERVAL Tcpip_tcp_timer 0 ((fst w)\<lparr>tcpip_tcp_timer_active := True\<rparr>, snd w)
      else w)"

definition cyclic_timer :: "('x, 's) core_env \<Rightarrow> u32 \<Rightarrow> ('x, 's) core_state \<Rightarrow> ('x, 's) core_state" where
  "cyclic_timer E a w =
     (let cyclic = lwip_cyclic_timers ! unat a in
      arm E (interval_ms cyclic) Cyclic_timer a (run_tmr E (cyclic_handler cyclic) w))"

text \<open>The TCP timer, at index 0, is started on demand.\<close>

definition sys_timeouts_init :: "('x, 's) core_env \<Rightarrow> ('x, 's) core_state \<Rightarrow> ('x, 's) core_state" where
  "sys_timeouts_init E w =
     (let w = fold (\<lambda>i. arm E (interval_ms (lwip_cyclic_timers ! i)) Cyclic_timer (word_of_nat i))
                [1..<length lwip_cyclic_timers] w in
      (fst w, sys_restart_timeouts (clock E (net_stack (fst w))) (snd w)))"

primrec call_timeout ::
  "('x, 's) core_env \<Rightarrow> 'x timeout_handler \<Rightarrow> u32 \<Rightarrow> ('x, 's) core_state \<Rightarrow> ('x, 's) core_state outcome" where
  "call_timeout E Tcpip_tcp_timer a w = Ok (tcpip_tcp_timer E w)"
| "call_timeout E Cyclic_timer a w = (if unat a < length lwip_cyclic_timers then Ok (cyclic_timer E a w) else Halt Overrun)"
| "call_timeout E (Other x) a w = Ok (run_other E x a w)"

text \<open>
  \<open>fetch\<close> waits for a message for as many milliseconds, 0 meaning without a limit; \<open>None\<close> is
  \<open>SYS_ARCH_TIMEOUT\<close>.
\<close>

partial_function (option) sys_timeouts_mbox_fetch ::
  "('x, 's) core_env \<Rightarrow> (u32 \<Rightarrow> 's core \<Rightarrow> 'm option \<times> 's core) \<Rightarrow> 's core \<Rightarrow> 'x timeout_handler timeouts \<Rightarrow>
   ('m option \<times> ('x, 's) core_state) outcome option" where
  "sys_timeouts_mbox_fetch E fetch s T =
     (if next_timeout T = [] then (case fetch 0 s of (m, s) \<Rightarrow> Some (Ok (m, s, T)))
      else
        let sleeptime = sys_timeouts_sleeptime (clock E (net_stack s)) T in
        case (if sleeptime = 0 then (None, s) else fetch sleeptime s) of
          (Some m, s) \<Rightarrow> Some (Ok (Some m, s, T))
        | (None, s) \<Rightarrow>
            (case sys_check_timeouts (call_timeout E) (clock E (net_stack s)) s T of
               None \<Rightarrow> None
             | Some (Halt x) \<Rightarrow> Some (Halt x)
             | Some (Ok w) \<Rightarrow> sys_timeouts_mbox_fetch E fetch (fst w) (snd w)))"

section \<open>The handlers that are armed\<close>

definition handlers :: "'h timeouts \<Rightarrow> ('h \<times> u32) multiset" where
  "handlers T = mset (map (\<lambda>t. (h t, t_arg t)) (next_timeout T))"

lemma handlers_insert:
  "ts \<noteq> [] \<Longrightarrow> mset (map (\<lambda>t. (h t, t_arg t)) (timeout_insert msecs first new ts)) =
     add_mset (h new, t_arg new) (mset (map (\<lambda>t. (h t, t_arg t)) ts))"
  by (induction msecs first new ts rule: timeout_insert.induct) (auto simp: Let_def)

lemma handlers_sys_timeout:
  "size (handlers T) < 8 \<Longrightarrow> handlers (sys_timeout now msecs handler a T) = add_mset (handler, a) (handlers T)"
  by (auto simp: handlers_def sys_timeout_def MEMP_NUM_SYS_TIMEOUT_def Let_def handlers_insert [unfolded mset_map] split: list.split)

text \<open>
  The timers of the module, and the invariant: each cyclic timer is armed exactly once, the TCP timer
  exactly if the flag says so, and the applications leave the pool enough entries.
\<close>

definition own :: "'x timeout_handler \<times> u32 \<Rightarrow> bool" where
  "own x \<longleftrightarrow> fst x = Tcpip_tcp_timer \<or> fst x = Cyclic_timer"

definition own_timers :: "bool \<Rightarrow> ('x timeout_handler \<times> u32) multiset" where
  "own_timers active = {#(Cyclic_timer, 1), (Cyclic_timer, 2)#} + (if active then {#(Tcpip_tcp_timer, 0)#} else {#})"

definition core_inv :: "('x, 's) core_state \<Rightarrow> bool" where
  "core_inv w \<longleftrightarrow> filter_mset own (handlers (snd w)) = own_timers (tcpip_tcp_timer_active (fst w)) \<and>
     size (filter_mset (\<lambda>x. \<not> own x) (handlers (snd w))) \<le> 5"

text \<open>
  What the module relies on: a timer of the stack and a handler of an application leave the timers of
  the module alone and do not take more than five entries of the pool for applications.
\<close>

definition env_law :: "('x, 's) core_env \<Rightarrow> bool" where
  "env_law E \<longleftrightarrow>
     (\<forall>w v. (\<exists>c. v = run_tmr E c w) \<or> (\<exists>x a. v = run_other E x a w) \<longrightarrow>
        tcpip_tcp_timer_active (fst v) = tcpip_tcp_timer_active (fst w) \<and>
        filter_mset own (handlers (snd v)) = filter_mset own (handlers (snd w)) \<and>
        (size (filter_mset (\<lambda>x. \<not> own x) (handlers (snd w))) \<le> 5 \<longrightarrow> size (filter_mset (\<lambda>x. \<not> own x) (handlers (snd v))) \<le> 5))"

lemma size_own: "size M = size (filter_mset own M) + size (filter_mset (\<lambda>x. \<not> own x) M)"
  by (metis multiset_partition size_union)

lemma arm_own:
  assumes "own (handler, a)" and "size (filter_mset own (handlers (snd w))) \<le> 2" and "size (filter_mset (\<lambda>x. \<not> own x) (handlers (snd w))) \<le> 5"
  shows "handlers (snd (arm E msecs handler a w)) = add_mset (handler, a) (handlers (snd w))" "fst (arm E msecs handler a w) = fst w"
  using assms(2,3) size_own [of "handlers (snd w)"] by (simp_all add: arm_def handlers_sys_timeout)

text \<open>Events: the timeout at the head expires, a connection is registered, the stack changes.\<close>

inductive core_run :: "('x, 's) core_env \<Rightarrow> ('x, 's) core_state \<Rightarrow> bool" for E where
  start: "core_run E (sys_timeouts_init E (\<lparr>tcpip_tcp_timer_active = False, net_stack = s\<rparr>, \<lparr>next_timeout = [], timeouts_last_time = k\<rparr>))"
| register: "core_run E w \<Longrightarrow> core_run E (tcp_timer_needed E w)"
| expire: "core_run E (s, T) \<Longrightarrow> next_timeout T = t # ts \<Longrightarrow>
    call_timeout E (h t) (t_arg t) (s, T\<lparr>timeouts_last_time := k, next_timeout := ts\<rparr>) = Ok w \<Longrightarrow> core_run E w"
| network: "core_run E (s, T) \<Longrightarrow> core_run E (s\<lparr>net_stack := n\<rparr>, T\<lparr>timeouts_last_time := k\<rparr>)"

section \<open>No timer is lost or doubled\<close>

lemma own_simps [simp]: "own (Tcpip_tcp_timer, a)" "own (Cyclic_timer, a)" "\<not> own (Other x, a)"
  by (simp_all add: own_def)

lemma handlers_restart [simp]: "handlers (sys_restart_timeouts k T) = handlers T"
  by (simp add: handlers_def sys_restart_timeouts_def)

lemma env_lawD:
  assumes "env_law E" and "v = run_tmr E c w \<or> v = run_other E x a w"
  shows "tcpip_tcp_timer_active (fst v) = tcpip_tcp_timer_active (fst w)" and "filter_mset own (handlers (snd v)) = filter_mset own (handlers (snd w))"
    and "size (filter_mset (\<lambda>x. \<not> own x) (handlers (snd w))) \<le> 5 \<Longrightarrow> size (filter_mset (\<lambda>x. \<not> own x) (handlers (snd v))) \<le> 5"
  using assms unfolding env_law_def by blast+

lemma handlers_empty: "handlers \<lparr>next_timeout = [], timeouts_last_time = k\<rparr> = {#}"
  by (simp add: handlers_def)

lemma start_inv:
  "core_inv (sys_timeouts_init E (\<lparr>tcpip_tcp_timer_active = False, net_stack = s\<rparr>, \<lparr>next_timeout = [], timeouts_last_time = k\<rparr>))"
proof -
  let ?w = "(\<lparr>tcpip_tcp_timer_active = False, net_stack = s\<rparr>, \<lparr>next_timeout = [], timeouts_last_time = k\<rparr>)"
  have "handlers (snd (arm E 5000 Cyclic_timer 2 (arm E 1000 Cyclic_timer 1 ?w))) = {#(Cyclic_timer, 2), (Cyclic_timer, 1)#}"
    by (simp add: arm_def handlers_sys_timeout handlers_empty)
  then show ?thesis
    by (simp add: sys_timeouts_init_def lwip_cyclic_timers_def upt_rec IP_TMR_INTERVAL_def ARP_TMR_INTERVAL_def core_inv_def own_timers_def)
      (simp add: arm_def add_mset_commute)
qed

lemma register_inv: "core_inv w \<Longrightarrow> core_inv (tcp_timer_needed E w)"
  using arm_own [of Tcpip_tcp_timer 0 "((fst w)\<lparr>tcpip_tcp_timer_active := True\<rparr>, snd w)" E TCP_TMR_INTERVAL]
  by (auto simp: core_inv_def tcp_timer_needed_def own_timers_def)

text \<open>A timer of the module that was taken from the list and arms itself again.\<close>

lemma rearm_inv:
  assumes "own (handler, a)" and "add_mset (handler, a) (filter_mset own (handlers (snd w))) = own_timers (tcpip_tcp_timer_active (fst w))"
    and "size (filter_mset (\<lambda>x. \<not> own x) (handlers (snd w))) \<le> 5"
  shows "core_inv (arm E msecs handler a w)"
proof -
  have "size (add_mset (handler, a) (filter_mset own (handlers (snd w)))) \<le> 3" unfolding assms(2) by (simp add: own_timers_def)
  then have "size (filter_mset own (handlers (snd w))) \<le> 2" by simp
  then show ?thesis using arm_own [OF assms(1) _ assms(3), of E msecs] assms by (simp add: core_inv_def)
qed

lemma expire_inv:
  assumes law: "env_law E" and inv: "core_inv (s, T)" and T: "next_timeout T = t # ts"
  shows "\<exists>w. call_timeout E (h t) (t_arg t) (s, T\<lparr>timeouts_last_time := k, next_timeout := ts\<rparr>) = Ok w \<and> core_inv w"
proof -
  let ?v = "(s, T\<lparr>timeouts_last_time := k, next_timeout := ts\<rparr>)"
  have hs: "handlers T = add_mset (h t, t_arg t) (handlers (snd ?v))" by (simp add: handlers_def T)
  have i: "filter_mset own (add_mset (h t, t_arg t) (handlers (snd ?v))) = own_timers (tcpip_tcp_timer_active s)"
    "size (filter_mset (\<lambda>x. \<not> own x) (add_mset (h t, t_arg t) (handlers (snd ?v)))) \<le> 5"
    using inv unfolding core_inv_def hs [symmetric] by simp_all
  have other: "size (filter_mset (\<lambda>x. \<not> own x) (handlers (snd ?v))) \<le> 5" using i(2) by (simp split: if_splits)
  have tmr: "tcpip_tcp_timer_active (fst (run_tmr E c ?v)) = tcpip_tcp_timer_active s"
    "filter_mset own (handlers (snd (run_tmr E c ?v))) = filter_mset own (handlers (snd ?v))"
    "size (filter_mset (\<lambda>x. \<not> own x) (handlers (snd (run_tmr E c ?v)))) \<le> 5" for c
    using env_lawD [OF law disjI1 [OF refl [of "run_tmr E c ?v"]]] other by simp_all
  show ?thesis
  proof (cases "h t")
    case (Other x)
    have "filter_mset own (handlers (snd ?v)) = own_timers (tcpip_tcp_timer_active s)" using i(1) by (simp add: Other)
    then have "core_inv (run_other E x (t_arg t) ?v)"
      using env_lawD [OF law disjI2 [OF refl [of "run_other E x (t_arg t) ?v"]]] other by (simp add: core_inv_def)
    then show ?thesis by (simp add: Other)
  next
    case Tcpip_tcp_timer
    have e: "add_mset (Tcpip_tcp_timer, t_arg t) (filter_mset own (handlers (snd ?v))) = own_timers (tcpip_tcp_timer_active s)"
      using i(1) by (simp add: Tcpip_tcp_timer)
    have "(h t, t_arg t) \<in># own_timers (tcpip_tcp_timer_active s)" unfolding i(1) [symmetric] by (simp add: Tcpip_tcp_timer)
    then have a: "t_arg t = 0" "tcpip_tcp_timer_active s" by (auto simp: Tcpip_tcp_timer own_timers_def split: if_splits)
    let ?w = "run_tmr E Tcp_tmr ?v"
    have "core_inv (arm E TCP_TMR_INTERVAL Tcpip_tcp_timer 0 ?w)" by (rule rearm_inv) (use e a tmr [of Tcp_tmr] in simp_all)
    moreover have "core_inv ((fst ?w)\<lparr>tcpip_tcp_timer_active := False\<rparr>, snd ?w)"
      using e a tmr [of Tcp_tmr] by (simp add: core_inv_def own_timers_def)
    ultimately show ?thesis by (simp add: Tcpip_tcp_timer tcpip_tcp_timer_def Let_def)
  next
    case Cyclic_timer
    have e: "add_mset (Cyclic_timer, t_arg t) (filter_mset own (handlers (snd ?v))) = own_timers (tcpip_tcp_timer_active s)"
      using i(1) by (simp add: Cyclic_timer)
    have "(h t, t_arg t) \<in># own_timers (tcpip_tcp_timer_active s)" unfolding i(1) [symmetric] by (simp add: Cyclic_timer)
    then have a: "t_arg t = 1 \<or> t_arg t = 2" by (auto simp: Cyclic_timer own_timers_def split: if_splits)
    have "core_inv (cyclic_timer E (t_arg t) ?v)"
      unfolding cyclic_timer_def Let_def by (rule rearm_inv) (use e tmr in simp_all)
    moreover have "unat (t_arg t) < length lwip_cyclic_timers" using a by (auto simp: lwip_cyclic_timers_def)
    ultimately show ?thesis by (simp add: Cyclic_timer)
  qed
qed

lemma core_run_inv: "core_run E w \<Longrightarrow> env_law E \<Longrightarrow> core_inv w"
proof (induction rule: core_run.induct)
  case (expire s T t ts k w)
  then show ?case using expire_inv [of E s T t ts k] by auto
next
  case (network s T n k)
  then show ?case by (simp add: core_inv_def handlers_def)
qed (simp_all add: start_inv register_inv)

text \<open>
  C31: The timers of lwIP are neither lost nor doubled. After the start, and after any sequence of
  expired timeouts, new connections and other activity of the stack: each cyclic timer is armed
  exactly once, the TCP timer exactly once if its flag is set and not at all otherwise, so that it
  runs after a connection was registered; and the handler of whatever timeout is next can be called.
  The handlers of the stack and of applications are assumed to leave these timers alone and to use
  at most five entries of the pool.
\<close>

theorem lwip_timers_kept:
  assumes "env_law E" and "core_run E (s, T)"
  shows "count (handlers T) (Cyclic_timer, 1) = 1 \<and> count (handlers T) (Cyclic_timer, 2) = 1 \<and>
    count (handlers T) (Tcpip_tcp_timer, 0) = (if tcpip_tcp_timer_active s then 1 else 0) \<and>
    (has_pcbs E (net_stack s) \<longrightarrow> tcpip_tcp_timer_active (fst (tcp_timer_needed E (s, T)))) \<and>
    (next_timeout T = t # ts \<longrightarrow>
       (\<exists>w. call_timeout E (h t) (t_arg t) (s, T\<lparr>timeouts_last_time := k, next_timeout := ts\<rparr>) = Ok w))"
proof -
  have inv: "core_inv (s, T)" by (rule core_run_inv [OF assms(2,1)])
  then have "count (handlers T) x = count (own_timers (tcpip_tcp_timer_active s)) x" if "own x" for x
    using that by (metis core_inv_def count_filter_mset fst_conv snd_conv)
  moreover have "has_pcbs E (net_stack s) \<longrightarrow> tcpip_tcp_timer_active (fst (tcp_timer_needed E (s, T)))"
    by (simp add: tcp_timer_needed_def arm_def)
  moreover have "next_timeout T = t # ts \<longrightarrow>
      (\<exists>w. call_timeout E (h t) (t_arg t) (s, T\<lparr>timeouts_last_time := k, next_timeout := ts\<rparr>) = Ok w)"
    using expire_inv [OF assms(1) inv] by blast
  ultimately show ?thesis by (simp add: own_timers_def)
qed

text \<open>A stack with a connection, whose timers do nothing.\<close>

definition idle_env :: "(unit, nat) core_env" where
  "idle_env = \<lparr>run_tmr = \<lambda>c w. w, run_other = \<lambda>x a w. w, has_pcbs = \<lambda>n. 0 < n, clock = \<lambda>n. 7\<rparr>"

theorem lwip_timers_kept_witness:
  "\<exists>s T. core_run idle_env (s, T) \<and> tcpip_tcp_timer_active s \<and> count (handlers T) (Tcpip_tcp_timer, 0) = 1"
proof -
  have law: "env_law idle_env" by (simp add: env_law_def idle_env_def)
  let ?w = "tcp_timer_needed idle_env (sys_timeouts_init idle_env (\<lparr>tcpip_tcp_timer_active = False, net_stack = 1\<rparr>, \<lparr>next_timeout = [], timeouts_last_time = 0\<rparr>))"
  have "core_run idle_env ?w" by (rule core_run.register [OF core_run.start])
  then have run: "core_run idle_env (fst ?w, snd ?w)" by simp
  have "tcpip_tcp_timer_active (fst ?w)"
    by (simp add: tcp_timer_needed_def sys_timeouts_init_def lwip_cyclic_timers_def upt_rec arm_def idle_env_def)
  moreover from lwip_timers_kept [OF law run] this have "count (handlers (snd ?w)) (Tcpip_tcp_timer, 0) = 1" by presburger
  ultimately show ?thesis using run by blast
qed

end
