(* ===== verification/MyBuff.thy ===== *)
theory MyBuff
  imports ByteFifo
begin

text \<open>
  The receive byte buffer of \<open>src/user/BUFF/MY_BUFF.c\<close>: a circular array of 512 bytes with
  a read index, a write index and the flag \<open>ring\<close> that tells full from empty when the
  indices are equal. \<open>buff_bytes\<close> lifts it to the list of bytes it holds; the lemmas show
  that \<open>WriteBUFF\<close> appends to that list, \<open>ReadBUFF\<close> takes from its front, every error
  return leaves the buffer as it was, and no access leaves the array.
\<close>

section \<open>State and operations\<close>

definition MAX_BUFF_SIZE :: int where "MAX_BUFF_SIZE = 512"
definition INITBUFFED :: u8 where "INITBUFFED = 1"

definition ERROR_NONE :: int where "ERROR_NONE = 0"
definition ERROR_OVER_FLOW_WRITE :: int where "ERROR_OVER_FLOW_WRITE = -1"
definition ERROR_OVER_FLOW_READ :: int where "ERROR_OVER_FLOW_READ = -2"
definition ERROR_NOT_INIT_BUFF :: int where "ERROR_NOT_INIT_BUFF = -3"
definition ERROR_DATA_ILLEGAL_OPERAT :: int where "ERROR_DATA_ILLEGAL_OPERAT = -4"

record loop_buff_t =
  r_ptr :: u16
  w_ptr :: u16
  ring :: u8
  buffInited :: u8
  buff :: "u8 list"

text \<open>The two macros; their operands are promoted to \<open>int\<close>.\<close>

definition GetBuff_Valid_DataLenth :: "int \<Rightarrow> int \<Rightarrow> u8 \<Rightarrow> int" where
  "GetBuff_Valid_DataLenth w r rg =
     (if rg \<noteq> 0 then MAX_BUFF_SIZE
      else if w = r then 0
      else if w > r then w - r
      else MAX_BUFF_SIZE - r + w)"

definition GetBuff_Free_DataLenth :: "int \<Rightarrow> int \<Rightarrow> u8 \<Rightarrow> int" where
  "GetBuff_Free_DataLenth w r rg = MAX_BUFF_SIZE - GetBuff_Valid_DataLenth w r rg"

definition BuffInit :: "loop_buff_t \<Rightarrow> loop_buff_t" where
  "BuffInit b = \<lparr> r_ptr = 0, w_ptr = 0, ring = 0, buffInited = INITBUFFED,
                  buff = replicate 512 0 \<rparr>"

definition BuffSpaceget :: "loop_buff_t \<Rightarrow> u16" where
  "BuffSpaceget b = word_of_int (GetBuff_Free_DataLenth (uint (w_ptr b)) (uint (r_ptr b)) (ring b))"

text \<open>
  \<open>data\<close> is \<open>None\<close> for a null pointer, otherwise the object it points to. The result is
  the return code and the buffer.
\<close>

definition WriteBUFF :: "loop_buff_t \<Rightarrow> u8 list option \<Rightarrow> u16 \<Rightarrow> (int \<times> loop_buff_t) outcome" where
  "WriteBUFF b data lenth =
     (if buffInited b \<noteq> INITBUFFED then Ok (ERROR_NOT_INIT_BUFF, b)
      else if lenth \<le> 0 \<or> data = None then Ok (ERROR_DATA_ILLEGAL_OPERAT, b)
      else
        let space_avail = (word_of_int
              (GetBuff_Free_DataLenth (uint (w_ptr b)) (uint (r_ptr b)) (ring b)) :: u16)
        in if lenth > space_avail then Ok (ERROR_OVER_FLOW_WRITE, b)
        else if w_ptr b \<ge> r_ptr b then
          if MAX_BUFF_SIZE - uint (w_ptr b) \<ge> uint lenth then
            bind_outcome (memcpy (buff b) (unat (w_ptr b)) (the data) 0 (unat lenth)) (\<lambda>a.
              let b1 = b\<lparr> buff := a, w_ptr := w_ptr b + lenth \<rparr>
              in Ok (ERROR_NONE,
                     if uint (w_ptr b1) = MAX_BUFF_SIZE
                     then (let b2 = b1\<lparr> w_ptr := 0 \<rparr>
                           in if w_ptr b2 = r_ptr b2 then b2\<lparr> ring := 1 \<rparr> else b2)
                     else b1))
          else
            let lastptr = (word_of_int (MAX_BUFF_SIZE - uint (w_ptr b)) :: u16) in
            bind_outcome (memcpy (buff b) (unat (w_ptr b)) (the data) 0 (unat lastptr)) (\<lambda>a.
            bind_outcome (memcpy a 0 (the data) (unat lastptr) (unat (lenth - lastptr))) (\<lambda>a'.
              let b1 = b\<lparr> buff := a', w_ptr := lenth - lastptr \<rparr>
              in Ok (ERROR_NONE, if w_ptr b1 = r_ptr b1 then b1\<lparr> ring := 1 \<rparr> else b1)))
        else
          bind_outcome (memcpy (buff b) (unat (w_ptr b)) (the data) 0 (unat lenth)) (\<lambda>a.
            let b1 = b\<lparr> buff := a, w_ptr := w_ptr b + lenth \<rparr>
            in Ok (ERROR_NONE, if w_ptr b1 = r_ptr b1 then b1\<lparr> ring := 1 \<rparr> else b1)))"

text \<open>
  \<open>data\<close> is the array the bytes are copied to; the result is the return code, the array
  and the buffer.
\<close>

definition ReadBUFF ::
  "loop_buff_t \<Rightarrow> u8 list option \<Rightarrow> u16 \<Rightarrow> (int \<times> u8 list option \<times> loop_buff_t) outcome" where
  "ReadBUFF b data lenth =
     (if buffInited b \<noteq> INITBUFFED then Ok (ERROR_NOT_INIT_BUFF, data, b)
      else if lenth \<le> 0 \<or> data = None then Ok (ERROR_DATA_ILLEGAL_OPERAT, data, b)
      else
        let avail_data_lenth = (word_of_int
              (GetBuff_Valid_DataLenth (uint (w_ptr b)) (uint (r_ptr b)) (ring b)) :: u16)
        in if avail_data_lenth < lenth then Ok (ERROR_OVER_FLOW_READ, data, b)
        else
          let b0 = (if ring b = 1 then b\<lparr> ring := 0 \<rparr> else b)
          in if w_ptr b0 > r_ptr b0 then
            bind_outcome (memcpy (the data) 0 (buff b0) (unat (r_ptr b0)) (unat lenth)) (\<lambda>d.
              Ok (ERROR_NONE, Some d, b0\<lparr> r_ptr := r_ptr b0 + lenth \<rparr>))
          else if MAX_BUFF_SIZE - uint (r_ptr b0) \<ge> uint lenth then
            bind_outcome (memcpy (the data) 0 (buff b0) (unat (r_ptr b0)) (unat lenth)) (\<lambda>d.
              let b1 = b0\<lparr> r_ptr := r_ptr b0 + lenth \<rparr>
              in Ok (ERROR_NONE, Some d,
                     if uint (r_ptr b1) = MAX_BUFF_SIZE then b1\<lparr> r_ptr := 0 \<rparr> else b1))
          else
            let lastptr = (word_of_int (MAX_BUFF_SIZE - uint (r_ptr b0)) :: u16) in
            bind_outcome (memcpy (the data) 0 (buff b0) (unat (r_ptr b0)) (unat lastptr)) (\<lambda>d.
            bind_outcome (memcpy d (unat lastptr) (buff b0) 0 (unat (lenth - lastptr))) (\<lambda>d'.
              Ok (ERROR_NONE, Some d', b0\<lparr> r_ptr := lenth - lastptr \<rparr>))))"

section \<open>Abstraction and invariant\<close>

text \<open>How many bytes the buffer holds, and the bytes themselves, oldest first.\<close>

definition buff_count :: "loop_buff_t \<Rightarrow> nat" where
  "buff_count b =
     (if ring b \<noteq> 0 then 512
      else if w_ptr b \<ge> r_ptr b then unat (w_ptr b) - unat (r_ptr b)
      else 512 - unat (r_ptr b) + unat (w_ptr b))"

definition buff_bytes :: "loop_buff_t \<Rightarrow> u8 list" where
  "buff_bytes b = ring_slice (buff b) (unat (r_ptr b)) (buff_count b)"

definition buff_inv :: "loop_buff_t \<Rightarrow> bool" where
  "buff_inv b \<longleftrightarrow>
     buffInited b = INITBUFFED \<and> length (buff b) = 512 \<and>
     unat (r_ptr b) < 512 \<and> unat (w_ptr b) < 512 \<and>
     ring b \<in> {0, 1} \<and> (ring b \<noteq> 0 \<longrightarrow> w_ptr b = r_ptr b)"

lemma length_buff_bytes [simp]: "length (buff_bytes b) = buff_count b"
  by (simp add: buff_bytes_def)

lemmas buff_unfold = MAX_BUFF_SIZE_def INITBUFFED_def ERROR_NONE_def
  GetBuff_Valid_DataLenth_def GetBuff_Free_DataLenth_def

lemma buff_count_le: "buff_inv b \<Longrightarrow> buff_count b \<le> 512"
  by (auto simp: buff_inv_def buff_count_def word_le_nat_alt)

lemma count_arith:
  "R < 512 \<Longrightarrow>
   (if c then 512 else if int W = int R then 0 else if int W > int R then int W - int R
    else 512 - int R + int W) =
   int (if c then 512 else if R \<le> W then W - R else 512 - R + W)" for R W :: nat
  by auto

lemma GetBuff_Valid_count:
  "buff_inv b \<Longrightarrow>
   GetBuff_Valid_DataLenth (uint (w_ptr b)) (uint (r_ptr b)) (ring b) = int (buff_count b)"
  unfolding GetBuff_Valid_DataLenth_def buff_count_def MAX_BUFF_SIZE_def word_le_nat_alt uint_nat
  by (rule count_arith) (simp add: buff_inv_def)

lemma GetBuff_Free_count:
  "buff_inv b \<Longrightarrow>
   GetBuff_Free_DataLenth (uint (w_ptr b)) (uint (r_ptr b)) (ring b) = 512 - int (buff_count b)"
  by (simp add: GetBuff_Free_DataLenth_def GetBuff_Valid_count MAX_BUFF_SIZE_def)

lemma unat_BuffSpaceget:
  assumes "buff_inv b"
  shows "unat (BuffSpaceget b) = 512 - buff_count b"
proof -
  have "unat (BuffSpaceget b) = nat (512 - int (buff_count b))"
    unfolding BuffSpaceget_def GetBuff_Free_count [OF assms]
    using buff_count_le [OF assms] by (intro unat_word_of_int_small) auto
  then show ?thesis by simp
qed

section \<open>Writing\<close>

lemma buff_w_index:
  "buff_inv b \<Longrightarrow> buff_count b < 512 \<Longrightarrow> unat (w_ptr b) = (unat (r_ptr b) + buff_count b) mod 512"
  by (auto simp: buff_inv_def buff_count_def word_le_nat_alt mod_once split: if_splits)

text \<open>
  The common end of the three branches of \<open>WriteBUFF\<close>: the data stored circularly at the
  write index, the write index advanced modulo the size, and \<open>ring\<close> set exactly when the
  indices meet.
\<close>

lemma buff_written:
  assumes inv: "buff_inv b"
    and st: "ring_stored (buff b) (unat (w_ptr b)) ys a"
    and ne: "ys \<noteq> []" and fits: "buff_count b + length ys \<le> 512"
    and w': "unat w' = (unat (w_ptr b) + length ys) mod 512"
    and rg: "rg = (if w' = r_ptr b then 1 else 0)"
  shows "buff_inv (b\<lparr> buff := a, w_ptr := w', ring := rg \<rparr>)" (is "buff_inv ?b")
    and "buff_bytes (b\<lparr> buff := a, w_ptr := w', ring := rg \<rparr>) = buff_bytes b @ ys"
proof -
  have cnt: "buff_count b < 512" using fits ne by (cases ys) auto
  from inv have len: "length (buff b) = 512" "length a = 512" "unat (r_ptr b) < 512"
    "unat (w_ptr b) < 512"
    using st by (auto simp: buff_inv_def ring_stored_def)
  show "buff_inv ?b" using inv len w' by (auto simp: buff_inv_def rg)
  have w_eq: "unat w' = (unat (r_ptr b) + (buff_count b + length ys)) mod 512"
    unfolding w' buff_w_index [OF inv cnt] by (simp add: mod_add_left_eq add.assoc)
  define m where "m = buff_count b + length ys"
  have "0 < m" "m \<le> 512" "unat w' = (unat (r_ptr b) + m) mod 512"
    using ne fits w_eq by (simp_all add: m_def)
  then have "buff_count ?b = m"
    using len(3)
    by (auto simp: buff_count_def rg word_le_nat_alt mod_once word_unat_eq_iff split: if_splits)
  then have "buff_count ?b = buff_count b + length ys" by (simp add: m_def)
  then show "buff_bytes ?b = buff_bytes b @ ys"
    using ring_stored_extend [OF st, of "unat (r_ptr b)" "buff_count b"] fits len
      buff_w_index [OF inv cnt]
    by (simp add: buff_bytes_def)
qed

text \<open>
  The branches in terms of \<open>nat\<close> indices: one copy when the data ends before the array
  does, two copies when it passes the end.
\<close>

definition buff_store :: "loop_buff_t \<Rightarrow> u8 list \<Rightarrow> nat \<Rightarrow> u8 list" where
  "buff_store b data l =
     (let w = unat (w_ptr b) in
      if w + l \<le> 512 then blit (buff b) w data 0 l
      else blit (blit (buff b) w data 0 (512 - w)) 0 data (512 - w) (l - (512 - w)))"

definition buff_next :: "u16 \<Rightarrow> u16 \<Rightarrow> u16" where
  "buff_next p l = (if unat p + unat l < 512 then p + l else p + l - 512)"

lemma unat_buff_next:
  assumes "unat p < 512" and "unat l \<le> 512"
  shows "unat (buff_next p l) = (unat p + unat l) mod 512"
proof -
  have "unat (p + l) = unat p + unat l" using assms by (intro unat_add_small) simp
  with assms show ?thesis
    by (simp add: buff_next_def mod_once unat_sub_if_size word_size)
qed

lemma buff_store_stored:
  assumes "length (buff b) = 512" and "unat (w_ptr b) < 512" and "l \<le> 512" and "l \<le> length data"
  shows "ring_stored (buff b) (unat (w_ptr b)) (take l data) (buff_store b data l)"
proof (cases "unat (w_ptr b) + l \<le> 512")
  case True
  with assms ring_stored_blit [of "unat (w_ptr b)" l "buff b" 0 data] show ?thesis
    by (simp add: buff_store_def Let_def)
next
  case False
  let ?w = "unat (w_ptr b)" and ?k = "512 - unat (w_ptr b)"
  let ?a = "blit (buff b) ?w data 0 ?k"
  have "ring_stored (buff b) ?w (take ?k data) ?a"
    using ring_stored_blit [of ?w ?k "buff b" 0 data] False assms by simp
  moreover have "ring_stored ?a 0 (take (l - ?k) (drop ?k data)) (buff_store b data l)"
    using ring_stored_blit [of 0 "l - ?k" ?a ?k data] False assms
    by (simp add: buff_store_def Let_def)
  moreover have "take ?k data @ take (l - ?k) (drop ?k data) = take l data"
    using False assms by (simp add: take_add [symmetric])
  ultimately show ?thesis
    using ring_stored_append [of "buff b" ?w "take ?k data" ?a "take (l - ?k) (drop ?k data)"
        "buff_store b data l"] False assms by simp
qed

lemma WriteBUFF_run:
  assumes inv: "buff_inv b" and pos: "0 < unat lenth" and fits: "buff_count b + unat lenth \<le> 512"
    and src: "unat lenth \<le> length data"
  shows "WriteBUFF b (Some data) lenth =
     Ok (ERROR_NONE, b\<lparr> buff := buff_store b data (unat lenth), w_ptr := buff_next (w_ptr b) lenth,
                       ring := (if buff_next (w_ptr b) lenth = r_ptr b then 1 else 0) \<rparr>)"
proof -
  let ?W = "unat (w_ptr b)" and ?R = "unat (r_ptr b)" and ?L = "unat lenth"
  from inv have len: "length (buff b) = 512" "?R < 512" "?W < 512" "buffInited b = INITBUFFED"
    by (auto simp: buff_inv_def)
  have ring0: "ring b = 0" using pos fits by (auto simp: buff_count_def split: if_splits)
  have nz: "lenth \<noteq> 0" using pos by auto
  have ge: "w_ptr b \<ge> r_ptr b \<longleftrightarrow> ?R \<le> ?W" by (simp add: word_le_nat_alt)
  have sp: "\<not> (word_of_int (GetBuff_Free_DataLenth (uint (w_ptr b)) (uint (r_ptr b)) (ring b)) :: u16) < lenth"
    using unat_BuffSpaceget [OF inv] fits by (simp add: BuffSpaceget_def word_less_nat_alt)
  have small: "?L \<le> 512" using fits by simp
  have lin: "(512 - uint (w_ptr b) \<ge> uint lenth) = (?W + ?L \<le> 512)"
    unfolding uint_nat by linarith
  have sum: "unat (w_ptr b + lenth) = ?W + ?L" using small len by (intro unat_add_small) simp
  have usum: "uint (w_ptr b + lenth) = 512 \<longleftrightarrow> ?W + ?L = 512"
    unfolding uint_nat [of "w_ptr b + lenth"] sum by linarith
  have last_eq: "unat (word_of_int (512 - uint (w_ptr b)) :: u16) = 512 - ?W"
    using unat_int_diff [of "w_ptr b" 512] len by simp
  have same: "b\<lparr> buff := a, w_ptr := w, ring := 0 \<rparr> = b\<lparr> buff := a, w_ptr := w \<rparr>" for a w
    using ring0 by (cases b) simp
  have nxt: "unat (buff_next (w_ptr b) lenth) = (?W + ?L) mod 512"
    using len small by (simp add: unat_buff_next)
  note guards = WriteBUFF_def Let_def len(4) nz sp lin ge MAX_BUFF_SIZE_def
  consider (lin_lt) "?R \<le> ?W" "?W + ?L < 512" | (lin_eq) "?R \<le> ?W" "?W + ?L = 512"
    | (wrap) "?R \<le> ?W" "512 < ?W + ?L" | (below) "?W < ?R"
    by linarith
  then show ?thesis
  proof cases
    case lin_lt
    then have "buff_next (w_ptr b) lenth = w_ptr b + lenth" "w_ptr b + lenth \<noteq> r_ptr b"
      using sum pos by (auto simp: buff_next_def word_unat_eq_iff)
    with lin_lt src len usum show ?thesis
      by (simp add: guards memcpy_Ok buff_store_def same)
  next
    case lin_eq
    then have "buff_next (w_ptr b) lenth = 0" using nxt by (simp add: word_unat_eq_iff)
    with lin_eq src len usum show ?thesis
      by (simp add: guards memcpy_Ok buff_store_def same)
  next
    case wrap
    then have "buff_next (w_ptr b) lenth = lenth - word_of_int (512 - uint (w_ptr b))"
      and last: "unat (word_of_int (512 - uint (w_ptr b)) :: u16) = 512 - ?W"
      using last_eq by (simp_all add: buff_next_def algebra_simps)
    moreover have "unat (lenth - word_of_int (512 - uint (w_ptr b))) = ?L - (512 - ?W)"
      using wrap last by (simp add: unat_sub_if_size word_size)
    ultimately show ?thesis using wrap src len small
      by (simp add: guards memcpy_Ok buff_store_def same)
  next
    case below
    then have "?W + ?L \<le> ?R" using fits ring0 by (auto simp: buff_count_def word_le_nat_alt)
    then have "buff_next (w_ptr b) lenth = w_ptr b + lenth" using len by (simp add: buff_next_def)
    with below \<open>?W + ?L \<le> ?R\<close> src len show ?thesis
      by (simp add: guards memcpy_Ok buff_store_def same)
  qed
qed

lemma WriteBUFF_writes:
  assumes inv: "buff_inv b" and pos: "0 < unat lenth" and fits: "buff_count b + unat lenth \<le> 512"
    and src: "unat lenth \<le> length data"
  shows "\<exists>b'. WriteBUFF b (Some data) lenth = Ok (ERROR_NONE, b') \<and> buff_inv b' \<and>
              buff_bytes b' = buff_bytes b @ take (unat lenth) data"
proof -
  from inv have len: "length (buff b) = 512" "unat (w_ptr b) < 512" by (auto simp: buff_inv_def)
  have st: "ring_stored (buff b) (unat (w_ptr b)) (take (unat lenth) data)
              (buff_store b data (unat lenth))"
    using len fits src by (intro buff_store_stored) simp_all
  have ne: "take (unat lenth) data \<noteq> []" "buff_count b + length (take (unat lenth) data) \<le> 512"
    "unat (buff_next (w_ptr b) lenth) = (unat (w_ptr b) + length (take (unat lenth) data)) mod 512"
    using pos src fits len by (auto simp: unat_buff_next)
  show ?thesis
    unfolding WriteBUFF_run [OF assms] using buff_written [OF inv st ne refl] by simp
qed

section \<open>Reading\<close>

lemma buff_read_state:
  assumes inv: "buff_inv b" and pos: "0 < unat l" and le: "unat l \<le> buff_count b"
  shows "buff_inv (b\<lparr> ring := 0, r_ptr := buff_next (r_ptr b) l \<rparr>)" (is "buff_inv ?b")
    and "buff_bytes (b\<lparr> ring := 0, r_ptr := buff_next (r_ptr b) l \<rparr>) = drop (unat l) (buff_bytes b)"
proof -
  from inv have len: "length (buff b) = 512" "unat (r_ptr b) < 512" "unat (w_ptr b) < 512"
    by (auto simp: buff_inv_def)
  have small: "unat l \<le> 512" using le buff_count_le [OF inv] by simp
  note nxt = unat_buff_next [OF len(2) small]
  show "buff_inv ?b" using inv nxt by (auto simp: buff_inv_def)
  have "buff_count ?b = buff_count b - unat l"
    using inv pos le len nxt
    by (auto simp: buff_inv_def buff_count_def word_le_nat_alt mod_once split: if_splits)
  then show "buff_bytes ?b = drop (unat l) (buff_bytes b)"
    using drop_ring_slice [OF le, of "buff b" "unat (r_ptr b)"] len nxt
    by (simp add: buff_bytes_def)
qed

lemma blit_ring_slice:
  assumes "length xs = N" and "r < N" and "l \<le> N" and "l \<le> length d"
  shows "(if r + l \<le> N then blit d 0 xs r l
          else blit (blit d 0 xs r (N - r)) (N - r) xs 0 (l - (N - r))) =
         ring_slice xs r l @ drop l d"
proof (cases "r + l \<le> N")
  case True
  with assms show ?thesis by (simp add: blit_def ring_slice_linear)
next
  case False
  with assms show ?thesis by (simp add: blit_def ring_slice_wrap)
qed

lemma ReadBUFF_run:
  assumes inv: "buff_inv b" and pos: "0 < unat lenth" and le: "unat lenth \<le> buff_count b"
    and dst: "unat lenth \<le> length d"
  shows "ReadBUFF b (Some d) lenth =
     Ok (ERROR_NONE, Some (take (unat lenth) (buff_bytes b) @ drop (unat lenth) d),
         b\<lparr> ring := 0, r_ptr := buff_next (r_ptr b) lenth \<rparr>)"
proof -
  let ?W = "unat (w_ptr b)" and ?R = "unat (r_ptr b)" and ?L = "unat lenth"
  from inv have len: "length (buff b) = 512" "?R < 512" "?W < 512" "buffInited b = INITBUFFED"
    by (auto simp: buff_inv_def)
  have nz: "lenth \<noteq> 0" using pos by auto
  have small: "?L \<le> 512" using le buff_count_le [OF inv] by simp
  have gt: "w_ptr b > r_ptr b \<longleftrightarrow> ?R < ?W" by (simp add: word_less_nat_alt)
  have "unat (word_of_int (int (buff_count b)) :: u16) = nat (int (buff_count b))"
    using buff_count_le [OF inv] by (intro unat_word_of_int_small) auto
  then have av: "\<not> (word_of_int (GetBuff_Valid_DataLenth (uint (w_ptr b)) (uint (r_ptr b)) (ring b)) :: u16) < lenth"
    unfolding GetBuff_Valid_count [OF inv] word_less_nat_alt using le by simp
  have b0: "(if ring b = 1 then b\<lparr> ring := 0 \<rparr> else b) = b\<lparr> ring := 0 \<rparr>"
    using inv by (cases b) (auto simp: buff_inv_def)
  have lin: "(512 - uint (r_ptr b) \<ge> uint lenth) = (?R + ?L \<le> 512)"
    unfolding uint_nat by linarith
  have sum: "unat (r_ptr b + lenth) = ?R + ?L" using small len by (intro unat_add_small) simp
  have usum: "uint (r_ptr b + lenth) = 512 \<longleftrightarrow> ?R + ?L = 512"
    unfolding uint_nat [of "r_ptr b + lenth"] sum by linarith
  have last_eq: "unat (word_of_int (512 - uint (r_ptr b)) :: u16) = 512 - ?R"
    using unat_int_diff [of "r_ptr b" 512] len by simp
  have nxt: "unat (buff_next (r_ptr b) lenth) = (?R + ?L) mod 512"
    using len small by (simp add: unat_buff_next)
  have out: "take ?L (buff_bytes b) = ring_slice (buff b) ?R ?L"
    by (simp add: buff_bytes_def take_ring_slice le)
  note copied = blit_ring_slice [OF len(1,2) small dst]
  note guards = ReadBUFF_def Let_def len(4) nz av b0 lin gt MAX_BUFF_SIZE_def out usum
  have inside: "?R < ?W \<Longrightarrow> ?R + ?L < 512"
    using inv le len by (auto simp: buff_inv_def buff_count_def word_le_nat_alt split: if_splits)
  consider (lt) "?R + ?L < 512" | (eq) "?R + ?L = 512" | (wrap) "512 < ?R + ?L" by linarith
  then show ?thesis
  proof cases
    case lt
    then have "buff_next (r_ptr b) lenth = r_ptr b + lenth" by (simp add: buff_next_def)
    with lt dst len copied show ?thesis by (simp add: guards memcpy_Ok)
  next
    case eq
    then have "buff_next (r_ptr b) lenth = 0" using nxt by (simp add: word_unat_eq_iff)
    with eq dst len copied inside show ?thesis by (auto simp: guards memcpy_Ok)
  next
    case wrap
    then have "buff_next (r_ptr b) lenth = lenth - word_of_int (512 - uint (r_ptr b))"
      and last: "unat (word_of_int (512 - uint (r_ptr b)) :: u16) = 512 - ?R"
      using last_eq by (simp_all add: buff_next_def algebra_simps)
    moreover have "unat (lenth - word_of_int (512 - uint (r_ptr b))) = ?L - (512 - ?R)"
      using wrap last by (simp add: unat_sub_if_size word_size)
    ultimately show ?thesis using wrap dst len small copied inside
      by (auto simp: guards memcpy_Ok)
  qed
qed

section \<open>Errors\<close>

lemma WriteBUFF_errors:
  "buffInited b \<noteq> INITBUFFED \<Longrightarrow> WriteBUFF b data l = Ok (ERROR_NOT_INIT_BUFF, b)"
  "buff_inv b \<Longrightarrow> l = 0 \<or> data = None \<Longrightarrow> WriteBUFF b data l = Ok (ERROR_DATA_ILLEGAL_OPERAT, b)"
  "buff_inv b \<Longrightarrow> l \<noteq> 0 \<Longrightarrow> 512 - buff_count b < unat l \<Longrightarrow>
     WriteBUFF b (Some d) l = Ok (ERROR_OVER_FLOW_WRITE, b)"
  using unat_BuffSpaceget [of b]
  by (auto simp: WriteBUFF_def buff_inv_def Let_def BuffSpaceget_def word_less_nat_alt)

lemma ReadBUFF_errors:
  "buffInited b \<noteq> INITBUFFED \<Longrightarrow> ReadBUFF b data l = Ok (ERROR_NOT_INIT_BUFF, data, b)"
  "buff_inv b \<Longrightarrow> l = 0 \<or> data = None \<Longrightarrow> ReadBUFF b data l = Ok (ERROR_DATA_ILLEGAL_OPERAT, data, b)"
  "buff_inv b \<Longrightarrow> l \<noteq> 0 \<Longrightarrow> buff_count b < unat l \<Longrightarrow>
     ReadBUFF b (Some d) l = Ok (ERROR_OVER_FLOW_READ, Some d, b)"
proof -
  show "ReadBUFF b (Some d) l = Ok (ERROR_OVER_FLOW_READ, Some d, b)"
    if "buff_inv b" "l \<noteq> 0" "buff_count b < unat l"
  proof -
    have "unat (word_of_int (int (buff_count b)) :: u16) = nat (int (buff_count b))"
      using buff_count_le that(1) by (intro unat_word_of_int_small) fastforce+
    with that show ?thesis
      by (simp add: ReadBUFF_def buff_inv_def Let_def GetBuff_Valid_count word_less_nat_alt)
  qed
qed (auto simp: ReadBUFF_def buff_inv_def)

lemma BuffInit_empty: "buff_inv (BuffInit b)" "buff_bytes (BuffInit b) = []"
  by (simp_all add: BuffInit_def buff_inv_def buff_bytes_def buff_count_def)

section \<open>The buffer as a byte queue\<close>

definition buff_put :: "loop_buff_t \<Rightarrow> u8 list \<Rightarrow> loop_buff_t option" where
  "buff_put b xs =
     (if length xs < 65536 then
        (case WriteBUFF b (Some xs) (word_of_nat (length xs)) of
           Ok (e, b') \<Rightarrow> if e = ERROR_NONE then Some b' else None
         | Halt _ \<Rightarrow> None)
      else None)"

definition buff_get :: "loop_buff_t \<Rightarrow> nat \<Rightarrow> (u8 list \<times> loop_buff_t) option" where
  "buff_get b n =
     (case ReadBUFF b (Some (replicate n 0)) (word_of_nat n) of
        Ok (e, Some d, b') \<Rightarrow> if e = ERROR_NONE then Some (d, b') else None
      | _ \<Rightarrow> None)"

lemma unat_word_of_nat_small: "n < 65536 \<Longrightarrow> unat (word_of_nat n :: u16) = n"
  by (simp add: unat_of_nat)

interpretation my_buff: byte_fifo buff_inv buff_bytes 512 buff_put buff_get
proof unfold_locales
  fix q and xs :: "u8 list"
  assume "buff_inv q" and "xs \<noteq> []" and fits: "length (buff_bytes q) + length xs \<le> 512"
  then have "\<exists>b'. WriteBUFF q (Some xs) (word_of_nat (length xs)) = Ok (ERROR_NONE, b') \<and>
      buff_inv b' \<and> buff_bytes b' = buff_bytes q @ xs"
    using WriteBUFF_writes [of q "word_of_nat (length xs)" xs] by (simp add: unat_word_of_nat_small)
  with fits show "\<exists>q'. buff_put q xs = Some q' \<and> buff_inv q' \<and> buff_bytes q' = buff_bytes q @ xs"
    by (auto simp: buff_put_def)
next
  fix q and xs :: "u8 list"
  assume inv: "buff_inv q" and over: "512 < length (buff_bytes q) + length xs"
  show "buff_put q xs = None"
  proof (cases "length xs < 65536")
    case True
    then have "word_of_nat (length xs) \<noteq> (0 :: u16)"
      using over buff_count_le [OF inv] unat_word_of_nat_small by fastforce
    with inv over True show ?thesis
      using buff_count_le [OF inv]
      by (simp add: buff_put_def WriteBUFF_errors(3) unat_word_of_nat_small
          ERROR_NONE_def ERROR_OVER_FLOW_WRITE_def)
  qed (simp add: buff_put_def)
next
  fix q and n :: nat
  assume inv: "buff_inv q" and n: "0 < n" "n \<le> length (buff_bytes q)"
  then have "unat (word_of_nat n :: u16) = n"
    using buff_count_le [OF inv] by (intro unat_word_of_nat_small) simp
  with n ReadBUFF_run [OF inv, of "word_of_nat n" "replicate n 0"]
    buff_read_state [OF inv, of "word_of_nat n"]
  show "\<exists>q'. buff_get q n = Some (take n (buff_bytes q), q') \<and> buff_inv q' \<and>
      buff_bytes q' = drop n (buff_bytes q)"
    by (simp add: buff_get_def)
qed

end
