(* ===== verification/ImportFifo.thy ===== *)
theory ImportFifo
  imports MyBuff
begin

text \<open>
  The queue of frame lengths in the client control block (\<open>Import_buff_t\<close> and the functions
  \<open>WriteClientImportindex\<close>, \<open>ReadClientImportindex\<close> of
  \<open>src/user/MQTT_SN_Client/MQTTSNClient.c\<close>): ten bytes in a circular array, one entry for
  each received frame whose handler has not run yet. The free space is computed with the
  512-byte macro of \<open>MY_BUFF.h\<close>, so the queue is a queue only while it is not full: the
  last section shows what a write to a full queue does.
\<close>

section \<open>State and operations\<close>

definition MQTT_SN_IMPORT_MAX :: int where "MQTT_SN_IMPORT_MAX = 10"

record Import_buff_t =
  i_r_ptr :: u8
  i_w_ptr :: u8
  i_ring :: u8
  i_buff :: "u8 list"

definition GetAvalidofpktinput :: "int \<Rightarrow> int \<Rightarrow> u8 \<Rightarrow> int" where
  "GetAvalidofpktinput w r rg =
     (if rg \<noteq> 0 then MQTT_SN_IMPORT_MAX
      else if w = r then 0
      else if w > r then w - r
      else MQTT_SN_IMPORT_MAX - r + w)"

definition GetSpaceofpktinput :: "int \<Rightarrow> int \<Rightarrow> u8 \<Rightarrow> int" where
  "GetSpaceofpktinput w r rg = MQTT_SN_IMPORT_MAX - GetBuff_Valid_DataLenth w r rg"

definition getSpaceofpktinput :: "Import_buff_t \<Rightarrow> u8" where
  "getSpaceofpktinput q =
     word_of_int (GetSpaceofpktinput (uint (i_w_ptr q)) (uint (i_r_ptr q)) (i_ring q))"

definition WriteClientImportindex :: "Import_buff_t \<Rightarrow> u8 \<Rightarrow> (u8 \<times> Import_buff_t) outcome" where
  "WriteClientImportindex q data =
     (if data = 0 then Ok (1, q)
      else
        let space_avail = (word_of_int
              (GetSpaceofpktinput (uint (i_w_ptr q)) (uint (i_r_ptr q)) (i_ring q)) :: u16)
        in if 1 > space_avail then Ok (1, q)
        else if unat (i_w_ptr q) \<ge> length (i_buff q) then Halt Overrun
        else
          let q1 = q\<lparr> i_buff := (i_buff q)[unat (i_w_ptr q) := data], i_w_ptr := i_w_ptr q + 1 \<rparr>;
              q2 = (if uint (i_w_ptr q1) = MQTT_SN_IMPORT_MAX then q1\<lparr> i_w_ptr := 0 \<rparr> else q1)
          in Ok (0, if i_w_ptr q2 = i_r_ptr q2 then q2\<lparr> i_ring := 1 \<rparr> else q2))"

definition ReadClientImportindex :: "Import_buff_t \<Rightarrow> (u8 \<times> Import_buff_t) outcome" where
  "ReadClientImportindex q =
     (let data_avail = (word_of_int
            (GetAvalidofpktinput (uint (i_w_ptr q)) (uint (i_r_ptr q)) (i_ring q)) :: u16)
      in if 1 > data_avail then Ok (0, q)
      else if unat (i_r_ptr q) \<ge> length (i_buff q) then Halt Overrun
      else
        let data = i_buff q ! unat (i_r_ptr q);
            q1 = q\<lparr> i_r_ptr := i_r_ptr q + 1 \<rparr>;
            q2 = (if uint (i_r_ptr q1) = MQTT_SN_IMPORT_MAX then q1\<lparr> i_r_ptr := 0 \<rparr> else q1)
        in Ok (data, if i_ring q2 \<noteq> 0 then q2\<lparr> i_ring := 0 \<rparr> else q2))"

section \<open>Abstraction and invariant\<close>

definition fifo_count :: "Import_buff_t \<Rightarrow> nat" where
  "fifo_count q =
     (if i_ring q \<noteq> 0 then 10
      else if unat (i_w_ptr q) \<ge> unat (i_r_ptr q) then unat (i_w_ptr q) - unat (i_r_ptr q)
      else 10 - unat (i_r_ptr q) + unat (i_w_ptr q))"

definition fifo_lens :: "Import_buff_t \<Rightarrow> u8 list" where
  "fifo_lens q = ring_slice (i_buff q) (unat (i_r_ptr q)) (fifo_count q)"

text \<open>The indices stay inside the array, whatever is written.\<close>

definition fifo_wf :: "Import_buff_t \<Rightarrow> bool" where
  "fifo_wf q \<longleftrightarrow> length (i_buff q) = 10 \<and> unat (i_r_ptr q) < 10 \<and> unat (i_w_ptr q) < 10"

definition fifo_inv :: "Import_buff_t \<Rightarrow> bool" where
  "fifo_inv q \<longleftrightarrow> fifo_wf q \<and> i_ring q \<in> {0, 1} \<and> (i_ring q \<noteq> 0 \<longrightarrow> i_w_ptr q = i_r_ptr q)"

lemma length_fifo_lens [simp]: "length (fifo_lens q) = fifo_count q"
  by (simp add: fifo_lens_def)

definition fifo_next :: "u8 \<Rightarrow> u8" where
  "fifo_next p = (if unat p = 9 then 0 else p + 1)"

lemma unat_fifo_next: "unat p < 10 \<Longrightarrow> unat (fifo_next p) = (unat p + 1) mod 10"
  by (auto simp: fifo_next_def unat_word_ariths)

lemma uint_eq_10: "uint (p + 1) = 10 \<longleftrightarrow> unat p = 9" if "unat p < 10" for p :: u8
proof -
  have "unat (p + 1) = unat p + 1" using that by (simp add: unat_word_ariths)
  then show ?thesis unfolding uint_nat by linarith
qed

lemma fifo_step_ptr:
  assumes "unat p < 10"
  shows "(if uint (p + 1) = MQTT_SN_IMPORT_MAX then 0 else p + 1) = fifo_next p"
  using uint_eq_10 [OF assms] by (simp add: fifo_next_def MQTT_SN_IMPORT_MAX_def)

lemma space_bounds:
  fixes w r :: int
  assumes "0 \<le> w" "w < 10" "0 \<le> r" "r < 10"
  shows "-512 < GetSpaceofpktinput w r rg" "GetSpaceofpktinput w r rg \<le> 10"
    "GetSpaceofpktinput w r rg \<noteq> 0" "GetAvalidofpktinput w r rg \<le> 10"
    "rg \<noteq> 0 \<or> w \<noteq> r \<Longrightarrow> 0 < GetAvalidofpktinput w r rg"
  using assms
  by (auto simp: GetSpaceofpktinput_def GetBuff_Valid_DataLenth_def MAX_BUFF_SIZE_def
      MQTT_SN_IMPORT_MAX_def GetAvalidofpktinput_def)

lemma space_never_zero:
  assumes "unat (w :: u8) < 10" and "unat (r :: u8) < 10"
  shows "(word_of_int (GetSpaceofpktinput (uint w) (uint r) rg) :: u16) \<noteq> 0"
proof
  let ?k = "GetSpaceofpktinput (uint w) (uint r) rg"
  assume "(word_of_int ?k :: u16) = 0"
  then have "65536 dvd ?k" using word_of_int_eq_0_iff [where 'a = 16] by simp
  moreover have "uint w < 10" "uint r < 10" using assms by (simp_all add: uint_less_numeral)
  then have "-512 < ?k" "?k \<le> 10" "?k \<noteq> 0" by (simp_all add: space_bounds)
  ultimately show False by (auto dest: zdvd_imp_le simp: dvd_def)
qed

text \<open>
  On well-formed indices the write is always accepted: it never sees a space of zero, not
  even when the queue is full.
\<close>

lemma WriteClientImportindex_run:
  assumes wf: "fifo_wf q" and nz: "d \<noteq> 0"
  shows "WriteClientImportindex q d =
     Ok (0, q\<lparr> i_buff := (i_buff q)[unat (i_w_ptr q) := d], i_w_ptr := fifo_next (i_w_ptr q),
              i_ring := (if fifo_next (i_w_ptr q) = i_r_ptr q then 1 else i_ring q) \<rparr>)"
proof -
  from wf have len: "length (i_buff q) = 10" "unat (i_r_ptr q) < 10" "unat (i_w_ptr q) < 10"
    by (auto simp: fifo_wf_def)
  have r10: "uint (i_r_ptr q) < 10" using len(2) by (simp add: uint_less_numeral)
  have "\<not> 1 > (word_of_int (GetSpaceofpktinput (uint (i_w_ptr q)) (uint (i_r_ptr q)) (i_ring q)) :: u16)"
    using space_never_zero [OF len(3,2)] by (simp add: word_less_1 del: word_of_int_eq_0_iff)
  moreover have "uint (i_w_ptr q + 1) = MQTT_SN_IMPORT_MAX \<longleftrightarrow> unat (i_w_ptr q) = 9"
    "uint (i_r_ptr q) \<noteq> MQTT_SN_IMPORT_MAX"
    using uint_eq_10 [OF len(3)] r10 by (simp_all add: MQTT_SN_IMPORT_MAX_def)
  ultimately show ?thesis using nz len
    by (cases "unat (i_w_ptr q) = 9"; cases q) (simp_all add: WriteClientImportindex_def Let_def fifo_next_def)
qed

lemma ReadClientImportindex_run:
  assumes wf: "fifo_wf q" and av: "i_ring q \<noteq> 0 \<or> i_w_ptr q \<noteq> i_r_ptr q"
  shows "ReadClientImportindex q =
     Ok (i_buff q ! unat (i_r_ptr q), q\<lparr> i_r_ptr := fifo_next (i_r_ptr q), i_ring := 0 \<rparr>)"
proof -
  let ?k = "GetAvalidofpktinput (uint (i_w_ptr q)) (uint (i_r_ptr q)) (i_ring q)"
  from wf have len: "length (i_buff q) = 10" "unat (i_r_ptr q) < 10" "unat (i_w_ptr q) < 10"
    by (auto simp: fifo_wf_def)
  then have b: "uint (i_w_ptr q) < 10" "uint (i_r_ptr q) < 10" by (simp_all add: uint_less_numeral)
  have "0 < ?k" "?k \<le> 10" using b av by (auto simp: space_bounds word_uint_eq_iff)
  then have "unat (word_of_int ?k :: u16) = nat ?k" by (intro unat_word_of_int_small) auto
  with \<open>0 < ?k\<close> have "\<not> 1 > (word_of_int ?k :: u16)" by (simp add: word_less_nat_alt)
  moreover have "uint (i_r_ptr q + 1) = MQTT_SN_IMPORT_MAX \<longleftrightarrow> unat (i_r_ptr q) = 9"
    using uint_eq_10 [OF len(2)] by (simp add: MQTT_SN_IMPORT_MAX_def)
  ultimately show ?thesis using len
    by (cases "unat (i_r_ptr q) = 9"; cases q) (simp_all add: ReadClientImportindex_def Let_def fifo_next_def)
qed

lemma ReadClientImportindex_empty:
  "i_ring q = 0 \<Longrightarrow> i_w_ptr q = i_r_ptr q \<Longrightarrow> ReadClientImportindex q = Ok (0, q)"
  by (simp add: ReadClientImportindex_def GetAvalidofpktinput_def)

section \<open>The queue while it is not full\<close>

lemma fifo_write:
  assumes inv: "fifo_inv q" and room: "fifo_count q < 10" and nz: "d \<noteq> 0"
  shows "\<exists>q'. WriteClientImportindex q d = Ok (0, q') \<and> fifo_inv q' \<and> fifo_lens q' = fifo_lens q @ [d]"
proof -
  from inv have wf: "fifo_wf q" by (simp add: fifo_inv_def)
  then have len: "length (i_buff q) = 10" "unat (i_r_ptr q) < 10" "unat (i_w_ptr q) < 10"
    by (auto simp: fifo_wf_def)
  have r0: "i_ring q = 0" using room by (auto simp: fifo_count_def split: if_splits)
  let ?w = "fifo_next (i_w_ptr q)"
  let ?q = "q\<lparr> i_buff := (i_buff q)[unat (i_w_ptr q) := d], i_w_ptr := ?w,
              i_ring := (if ?w = i_r_ptr q then 1 else i_ring q) \<rparr>"
  note nxt = unat_fifo_next [OF len(3)]
  have "fifo_inv ?q" using inv len nxt r0 by (auto simp: fifo_inv_def fifo_wf_def)
  moreover have "fifo_count ?q = fifo_count q + 1"
    using len nxt r0 room
    by (auto simp: fifo_count_def word_unat_eq_iff mod_once split: if_splits)
  moreover have "unat (i_w_ptr q) = (unat (i_r_ptr q) + fifo_count q) mod 10"
    using len r0 by (auto simp: fifo_count_def mod_once)
  ultimately show ?thesis
    using WriteClientImportindex_run [OF wf nz] len room
      ring_stored_extend [OF ring_stored_update, of "unat (i_w_ptr q)" "i_buff q" "unat (i_r_ptr q)" "fifo_count q" d]
    by (auto simp: fifo_lens_def)
qed

lemma fifo_read:
  assumes inv: "fifo_inv q" and ne: "fifo_lens q \<noteq> []"
  shows "\<exists>q'. ReadClientImportindex q = Ok (hd (fifo_lens q), q') \<and> fifo_inv q' \<and>
              fifo_lens q' = tl (fifo_lens q)"
proof -
  from inv have wf: "fifo_wf q" by (simp add: fifo_inv_def)
  then have len: "length (i_buff q) = 10" "unat (i_r_ptr q) < 10" "unat (i_w_ptr q) < 10"
    by (auto simp: fifo_wf_def)
  have pos: "0 < fifo_count q" using ne by (metis length_fifo_lens length_greater_0_conv)
  then have av: "i_ring q \<noteq> 0 \<or> i_w_ptr q \<noteq> i_r_ptr q" by (auto simp: fifo_count_def)
  let ?q = "q\<lparr> i_r_ptr := fifo_next (i_r_ptr q), i_ring := 0 \<rparr>"
  note nxt = unat_fifo_next [OF len(2)]
  have "fifo_inv ?q" using inv nxt by (auto simp: fifo_inv_def fifo_wf_def)
  moreover have "fifo_count ?q = fifo_count q - 1"
    using len nxt inv av
    by (auto simp: fifo_inv_def fifo_count_def word_unat_eq_iff mod_once split: if_splits)
  moreover have "hd (fifo_lens q) = i_buff q ! unat (i_r_ptr q)"
    using pos len by (simp add: hd_conv_nth [OF ne]) (simp add: fifo_lens_def)
  ultimately show ?thesis
    using ReadClientImportindex_run [OF wf av] pos len nxt
      drop_ring_slice [of "Suc 0" "fifo_count q" "i_buff q" "unat (i_r_ptr q)"]
    by (simp add: fifo_lens_def drop_Suc)
qed

lemma fifo_wf_write:
  assumes "fifo_wf q"
  shows "\<exists>e q'. WriteClientImportindex q d = Ok (e, q') \<and> fifo_wf q'"
proof (cases "d = 0")
  case True
  with assms show ?thesis by (simp add: WriteClientImportindex_def)
next
  case False
  have "unat (fifo_next (i_w_ptr q)) < 10"
    using assms unat_fifo_next [of "i_w_ptr q"] by (simp add: fifo_wf_def)
  with WriteClientImportindex_run [OF assms False] assms show ?thesis by (simp add: fifo_wf_def)
qed

lemma fifo_wf_read:
  assumes "fifo_wf q"
  shows "\<exists>d q'. ReadClientImportindex q = Ok (d, q') \<and> fifo_wf q'"
proof (cases "i_ring q \<noteq> 0 \<or> i_w_ptr q \<noteq> i_r_ptr q")
  case True
  have "unat (fifo_next (i_r_ptr q)) < 10"
    using assms unat_fifo_next [of "i_r_ptr q"] by (simp add: fifo_wf_def)
  with ReadClientImportindex_run [OF assms True] assms show ?thesis by (simp add: fifo_wf_def)
next
  case False
  with assms show ?thesis by (simp add: ReadClientImportindex_empty)
qed

section \<open>A write to a full queue\<close>

text \<open>
  The write is accepted, overwrites the oldest entry and moves the write index past the read
  index; the next read returns the new entry and leaves the queue empty: the nine others
  are lost.
\<close>

lemma fifo_write_full:
  assumes inv: "fifo_inv q" and full: "i_ring q \<noteq> 0" and nz: "d \<noteq> 0"
  shows "\<exists>q' q''. WriteClientImportindex q d = Ok (0, q') \<and> ReadClientImportindex q' = Ok (d, q'') \<and>
           fifo_lens q'' = []"
proof -
  from inv full have wf: "fifo_wf q" and eq: "i_w_ptr q = i_r_ptr q" by (auto simp: fifo_inv_def)
  then have len: "length (i_buff q) = 10" "unat (i_r_ptr q) < 10" by (auto simp: fifo_wf_def)
  note nxt = unat_fifo_next [OF len(2)]
  let ?q = "q\<lparr> i_buff := (i_buff q)[unat (i_w_ptr q) := d], i_w_ptr := fifo_next (i_w_ptr q),
              i_ring := (if fifo_next (i_w_ptr q) = i_r_ptr q then 1 else i_ring q) \<rparr>"
  have "fifo_wf ?q" using len eq nxt by (simp add: fifo_wf_def)
  then have "ReadClientImportindex ?q = Ok (d, ?q\<lparr> i_r_ptr := fifo_next (i_r_ptr q), i_ring := 0 \<rparr>)"
    using ReadClientImportindex_run [of ?q] full eq len by simp
  with WriteClientImportindex_run [OF wf nz] eq show ?thesis
    by (auto simp: fifo_lens_def fifo_count_def)
qed

end
