(* ===== verification/Timers.thy ===== *)
theory Timers
  imports Prelude
begin

text \<open>
  The software timers of \<open>src/user/MQTT_SN_Client/MQTTSNTimes.c\<close>: a pool of ten slots, an
  array that marks the unused slots and a count of them. The callback and its argument are
  type parameters here; the client instantiates them. \<open>timers_inv\<close> ties the count to the
  marks and forbids a running timer in an unused slot; every operation keeps it.
\<close>

section \<open>State and operations\<close>

definition MAX_TIMER_NUM :: nat where "MAX_TIMER_NUM = 10"
definition TIMER_STATUS_RUNING :: u8 where "TIMER_STATUS_RUNING = 1"
definition TIMER_STATUS_STOP :: u8 where "TIMER_STATUS_STOP = 0"
definition TIMER_MODE_LOOP :: u8 where "TIMER_MODE_LOOP = 1"
definition TIMER_MODE_SINGLE :: u8 where "TIMER_MODE_SINGLE = 0"

definition ERROR_TIMER_NONE :: int where "ERROR_TIMER_NONE = 0"
definition ERROR_TIMER_ADD_EMPTY :: int where "ERROR_TIMER_ADD_EMPTY = -1"
definition ERROR_TIMER_DEL_EMPTY :: int where "ERROR_TIMER_DEL_EMPTY = -2"
definition ERROR_TIMER_DEL_RUNING :: int where "ERROR_TIMER_DEL_RUNING = -3"
definition ERROR_TIMER_UNUSED :: int where "ERROR_TIMER_UNUSED = -4"
definition ERROR_TIMER_INDEX :: int where "ERROR_TIMER_INDEX = -5"

definition TIMER_ID_OF_PINGREQ :: u8 where "TIMER_ID_OF_PINGREQ = 1"
definition TIMER_ID_OF_CONNCET :: u8 where "TIMER_ID_OF_CONNCET = 2"
definition TIMER_ID_OF_REGISTER :: u8 where "TIMER_ID_OF_REGISTER = 3"
definition TIMER_ID_OF_PUBLISH :: u8 where "TIMER_ID_OF_PUBLISH = 4"
definition TIMER_ID_OF_DISCONNCET :: u8 where "TIMER_ID_OF_DISCONNCET = 5"
definition TIMER_ID_OF_SUBSCRIBE :: u8 where "TIMER_ID_OF_SUBSCRIBE = 6"

record ('c, 'a) SW_TIMER_T =
  loop :: u8
  Runing :: u8
  PrevTick :: u32
  TimeOut :: u32
  TimerID :: u8
  arg :: "'a option"
  timer_callback :: "'c option"

record ('c, 'a) TIMER =
  Free :: u8
  Unused :: "u8 list"
  TIMER_T :: "('c, 'a) SW_TIMER_T list"

definition zero_timer :: "('c, 'a) SW_TIMER_T" where
  "zero_timer = \<lparr> loop = 0, Runing = 0, PrevTick = 0, TimeOut = 0, TimerID = 0, arg = None,
                  timer_callback = None \<rparr>"

definition TIME_SUB_ABS :: "u32 \<Rightarrow> u32 \<Rightarrow> u32" where
  "TIME_SUB_ABS prev now = (if now \<ge> prev then now - prev else 0xFFFFFFFF - prev + now)"

definition IS_TIME_OUT :: "u32 \<Rightarrow> u32 \<Rightarrow> u32 \<Rightarrow> bool" where
  "IS_TIME_OUT prev now timeout \<longleftrightarrow> TIME_SUB_ABS prev now > timeout"

definition TimerInit :: "('c, 'a) TIMER" where
  "TimerInit = \<lparr> Free = word_of_nat MAX_TIMER_NUM, Unused = replicate MAX_TIMER_NUM 1,
                 TIMER_T = replicate MAX_TIMER_NUM zero_timer \<rparr>"

text \<open>
  \<open>tick\<close> is what \<open>xTaskGetTickCount\<close> returns. The result is the return value, \<open>None\<close>
  where control reaches the end of the function without a \<open>return\<close>, and the pool.
\<close>

definition TimerAdd ::
  "u8 \<Rightarrow> u32 \<Rightarrow> 'c \<Rightarrow> 'a option \<Rightarrow> u8 \<Rightarrow> u32 \<Rightarrow> ('c, 'a) TIMER \<Rightarrow> int option \<times> ('c, 'a) TIMER" where
  "TimerAdd mode timeout cb a tid tick T =
     (if Free T \<le> 0 then (Some ERROR_TIMER_ADD_EMPTY, T)
      else case find (\<lambda>num. Unused T ! num \<noteq> 0) [0..<MAX_TIMER_NUM] of
        None \<Rightarrow> (None, T)
      | Some num \<Rightarrow>
          (Some (int num),
           T\<lparr> TIMER_T := (TIMER_T T)[num := \<lparr> loop = mode, Runing = TIMER_STATUS_RUNING,
                PrevTick = tick, TimeOut = timeout, TimerID = tid, arg = a,
                timer_callback = Some cb \<rparr>],
              Unused := (Unused T)[num := 0], Free := Free T - 1 \<rparr>))"

definition FindTimerIndexbyID :: "u8 \<Rightarrow> ('c, 'a) TIMER \<Rightarrow> int" where
  "FindTimerIndexbyID tid T =
     (case find (\<lambda>num. TimerID (TIMER_T T ! num) = tid) [0..<MAX_TIMER_NUM] of
        None \<Rightarrow> 0xFF | Some num \<Rightarrow> int num)"

definition TimerDel :: "u8 \<Rightarrow> ('c, 'a) TIMER \<Rightarrow> int \<times> ('c, 'a) TIMER" where
  "TimerDel idx T =
     (if unat idx \<ge> MAX_TIMER_NUM then (ERROR_TIMER_INDEX, T)
      else if unat (Free T) \<ge> MAX_TIMER_NUM then (ERROR_TIMER_DEL_EMPTY, T)
      else if Unused T ! unat idx \<noteq> 0 then (ERROR_TIMER_DEL_EMPTY, T)
      else if Runing (TIMER_T T ! unat idx) = TIMER_STATUS_RUNING then (ERROR_TIMER_DEL_RUNING, T)
      else (ERROR_TIMER_NONE, T\<lparr> Unused := (Unused T)[unat idx := 1], Free := Free T + 1 \<rparr>))"

definition TimerReload :: "u8 \<Rightarrow> u32 \<Rightarrow> ('c, 'a) TIMER \<Rightarrow> int \<times> ('c, 'a) TIMER" where
  "TimerReload idx tick T =
     (if unat idx \<ge> MAX_TIMER_NUM then (ERROR_TIMER_INDEX, T)
      else if Runing (TIMER_T T ! unat idx) \<noteq> TIMER_STATUS_RUNING then (ERROR_TIMER_UNUSED, T)
      else if Unused T ! unat idx \<noteq> 0 then (ERROR_TIMER_UNUSED, T)
      else (ERROR_TIMER_NONE,
            T\<lparr> TIMER_T := (TIMER_T T)[unat idx := (TIMER_T T ! unat idx)\<lparr> PrevTick := tick \<rparr>] \<rparr>))"

definition TimerStop :: "u8 \<Rightarrow> ('c, 'a) TIMER \<Rightarrow> int \<times> ('c, 'a) TIMER" where
  "TimerStop idx T =
     (if unat idx \<ge> MAX_TIMER_NUM then (ERROR_TIMER_INDEX, T)
      else if Runing (TIMER_T T ! unat idx) = TIMER_STATUS_STOP then (ERROR_TIMER_NONE, T)
      else if Unused T ! unat idx \<noteq> 0 then (ERROR_TIMER_UNUSED, T)
      else (ERROR_TIMER_NONE,
            T\<lparr> TIMER_T := (TIMER_T T)[unat idx :=
                 (TIMER_T T ! unat idx)\<lparr> Runing := TIMER_STATUS_STOP \<rparr>] \<rparr>))"

text \<open>
  The sequence the handlers use to cancel the timer of an acknowledged request: look its
  identifier up, stop the slot found and delete it.
\<close>

definition timer_cancel :: "u8 \<Rightarrow> ('c, 'a) TIMER \<Rightarrow> ('c, 'a) TIMER" where
  "timer_cancel tid T =
     (let deltimeIndex = (word_of_int (FindTimerIndexbyID tid T) :: u8)
      in if deltimeIndex \<noteq> 0xFF then snd (TimerDel deltimeIndex (snd (TimerStop deltimeIndex T)))
         else T)"

section \<open>Invariant\<close>

definition unused_slots :: "('c, 'a) TIMER \<Rightarrow> nat set" where
  "unused_slots T = {i. i < 10 \<and> Unused T ! i \<noteq> 0}"

definition timers_inv :: "('c, 'a) TIMER \<Rightarrow> bool" where
  "timers_inv T \<longleftrightarrow>
     length (Unused T) = 10 \<and> length (TIMER_T T) = 10 \<and>
     unat (Free T) = card (unused_slots T) \<and>
     (\<forall>i < 10. Runing (TIMER_T T ! i) \<in> {0, 1}) \<and>
     (\<forall>i < 10. Unused T ! i \<noteq> 0 \<longrightarrow> Runing (TIMER_T T ! i) = 0) \<and>
     (\<forall>i < 10. Runing (TIMER_T T ! i) = 1 \<longrightarrow> timer_callback (TIMER_T T ! i) \<noteq> None)"

lemmas timer_consts = MAX_TIMER_NUM_def TIMER_STATUS_RUNING_def TIMER_STATUS_STOP_def
  TIMER_MODE_LOOP_def TIMER_MODE_SINGLE_def

text \<open>The identifiers of the timers that will still fire.\<close>

definition running_ids :: "('c, 'a) TIMER \<Rightarrow> u8 set" where
  "running_ids T = {TimerID (TIMER_T T ! i) | i. i < 10 \<and> Runing (TIMER_T T ! i) = 1}"

lemma finite_unused_slots [simp]: "finite (unused_slots T)"
  by (simp add: unused_slots_def)

lemma card_unused_slots_le: "card (unused_slots T) \<le> 10"
  using card_mono [of "{..<10}" "unused_slots T"] by (auto simp: unused_slots_def)

lemma TimerInit_inv: "timers_inv TimerInit"
proof -
  have "unused_slots (TimerInit :: ('a, 'b) TIMER) = {..<10}"
    by (auto simp: unused_slots_def TimerInit_def timer_consts)
  then show ?thesis
    by (simp add: timers_inv_def TimerInit_def zero_timer_def timer_consts)
qed

lemma find_upt_Some:
  "find P [0..<n] = Some k \<longleftrightarrow> k < n \<and> P k \<and> (\<forall>j < k. \<not> P j)"
  by (auto simp: find_Some_iff)

lemma find_upt_None: "find P [0..<n] = None \<longleftrightarrow> (\<forall>k < n. \<not> P k)"
  by (auto simp: find_None_iff)

lemma TimerAdd_cases [consumes 1, case_names full added]:
  assumes "timers_inv T"
  obtains (full) "Free T = 0" "TimerAdd mode timeout cb a tid tick T = (Some ERROR_TIMER_ADD_EMPTY, T)"
  | (added) num where "num \<in> unused_slots T" "\<forall>j < num. j \<notin> unused_slots T"
      "TimerAdd mode timeout cb a tid tick T = (Some (int num),
         T\<lparr> TIMER_T := (TIMER_T T)[num := \<lparr> loop = mode, Runing = TIMER_STATUS_RUNING,
              PrevTick = tick, TimeOut = timeout, TimerID = tid, arg = a,
              timer_callback = Some cb \<rparr>],
            Unused := (Unused T)[num := 0], Free := Free T - 1 \<rparr>)"
proof (cases "Free T = 0")
  case True
  then show ?thesis using full by (simp add: TimerAdd_def)
next
  case False
  then have "card (unused_slots T) \<noteq> 0" using assms by (auto simp: timers_inv_def word_unat_eq_iff)
  then have "find (\<lambda>num. Unused T ! num \<noteq> 0) [0..<MAX_TIMER_NUM] \<noteq> None"
    by (auto simp: find_upt_None unused_slots_def timer_consts)
  then obtain num where num: "find (\<lambda>num. Unused T ! num \<noteq> 0) [0..<MAX_TIMER_NUM] = Some num" by auto
  then have "num \<in> unused_slots T" "\<forall>j < num. j \<notin> unused_slots T"
    by (auto simp: find_upt_Some unused_slots_def timer_consts)
  moreover from False have "\<not> Free T \<le> 0" by (simp add: word_le_nat_alt word_unat_eq_iff)
  ultimately show ?thesis using added num by (simp add: TimerAdd_def)
qed

lemma unused_slots_set:
  "length (Unused T) = 10 \<Longrightarrow> i < 10 \<Longrightarrow>
   unused_slots (T\<lparr> Unused := (Unused T)[i := v] \<rparr>) =
     (if v = 0 then unused_slots T - {i} else insert i (unused_slots T))"
  by (auto simp: unused_slots_def nth_list_update)

section \<open>Every operation keeps the invariant\<close>

lemma unused_slots_T [simp]:
  "unused_slots (T\<lparr> TIMER_T := x \<rparr>) = unused_slots T"
  "unused_slots (T\<lparr> Free := f \<rparr>) = unused_slots T"
  by (simp_all add: unused_slots_def)

lemma TimerAdd_inv:
  assumes inv: "timers_inv T"
  shows "timers_inv (snd (TimerAdd mode timeout cb a tid tick T))"
  using inv
proof (cases rule: TimerAdd_cases [where mode = mode and timeout = timeout and cb = cb and
      a = a and tid = tid and tick = tick])
  case full
  with inv show ?thesis by simp
next
  case (added num)
  from added(1) have num: "num < 10" by (simp add: unused_slots_def)
  from inv have len: "length (Unused T) = 10" "length (TIMER_T T) = 10" by (auto simp: timers_inv_def)
  have "Free T \<noteq> 0" using inv added(1) by (auto simp: timers_inv_def)
  then have "unat (Free T - 1) = unat (Free T) - 1" by (simp add: unat_minus_one)
  then have "unat (Free T - 1) = card (unused_slots T - {num})"
    using inv added(1) by (simp add: timers_inv_def)
  moreover have "unused_slots (snd (TimerAdd mode timeout cb a tid tick T)) = unused_slots T - {num}"
    using len num by (auto simp: added(3) unused_slots_def nth_list_update)
  ultimately show ?thesis using inv len num
    by (auto simp: added(3) timers_inv_def nth_list_update timer_consts)
qed

lemma TimerStop_inv: "timers_inv T \<Longrightarrow> timers_inv (snd (TimerStop i T))"
  by (auto simp: TimerStop_def timers_inv_def nth_list_update timer_consts)

lemma TimerReload_inv: "timers_inv T \<Longrightarrow> timers_inv (snd (TimerReload i tick T))"
  by (auto simp: TimerReload_def timers_inv_def nth_list_update timer_consts)

lemma TimerDel_inv:
  assumes inv: "timers_inv T"
  shows "timers_inv (snd (TimerDel i T))"
proof (cases "unat i \<ge> 10 \<or> unat (Free T) \<ge> 10 \<or> Unused T ! unat i \<noteq> 0 \<or>
    Runing (TIMER_T T ! unat i) = 1")
  case True
  with inv show ?thesis by (auto simp: TimerDel_def timer_consts)
next
  case False
  then have del: "snd (TimerDel i T) = T\<lparr> Unused := (Unused T)[unat i := 1], Free := Free T + 1 \<rparr>"
    by (simp add: TimerDel_def timer_consts)
  from False inv have i: "unat i < 10" "unat i \<notin> unused_slots T" "length (Unused T) = 10"
    by (auto simp: unused_slots_def timers_inv_def)
  then have "unused_slots (snd (TimerDel i T)) = insert (unat i) (unused_slots T)"
    by (auto simp: del unused_slots_def nth_list_update)
  moreover have "unat (Free T + 1) = unat (Free T) + 1"
    using False by (simp add: unat_word_ariths)
  ultimately show ?thesis using inv i False
    by (auto simp: del timers_inv_def nth_list_update)
qed

lemma timer_cancel_inv: "timers_inv T \<Longrightarrow> timers_inv (timer_cancel tid T)"
  by (simp add: timer_cancel_def Let_def TimerDel_inv TimerStop_inv)

lemmas timers_inv_intros = TimerAdd_inv TimerStop_inv TimerReload_inv TimerDel_inv timer_cancel_inv

section \<open>Adding and cancelling\<close>

lemma TimerAdd_running:
  assumes inv: "timers_inv T" and room: "Free T \<noteq> 0"
  shows "running_ids (snd (TimerAdd mode timeout cb a tid tick T)) = insert tid (running_ids T)"
  using inv
proof (cases rule: TimerAdd_cases [where mode = mode and timeout = timeout and cb = cb and
      a = a and tid = tid and tick = tick])
  case full
  with room show ?thesis by simp
next
  case (added num)
  then have "num < 10" "Runing (TIMER_T T ! num) = 0" "length (TIMER_T T) = 10"
    using inv by (auto simp: unused_slots_def timers_inv_def)
  then show ?thesis
    by (auto simp: added(3) running_ids_def nth_list_update timer_consts split: if_splits)
       (metis zero_neq_one)
qed

lemma FindTimerIndexbyID_cases [case_names none some]:
  obtains (none) "FindTimerIndexbyID tid T = 255" "\<forall>k < 10. TimerID (TIMER_T T ! k) \<noteq> tid"
  | (some) k where "k < 10" "FindTimerIndexbyID tid T = int k" "TimerID (TIMER_T T ! k) = tid"
      "\<forall>j < k. TimerID (TIMER_T T ! j) \<noteq> tid"
proof (cases "find (\<lambda>num. TimerID (TIMER_T T ! num) = tid) [0..<MAX_TIMER_NUM]")
  case None
  then show ?thesis
    using none by (simp add: FindTimerIndexbyID_def) (simp add: find_upt_None timer_consts)
next
  case (Some k)
  then show ?thesis
    using some [of k] by (simp add: FindTimerIndexbyID_def) (simp add: find_upt_Some timer_consts)
qed

lemma unat_index: "k < 10 \<Longrightarrow> unat (word_of_nat k :: u8) = k" "k < 10 \<Longrightarrow> word_of_nat k \<noteq> (255 :: u8)"
  by (auto simp: unat_of_nat word_unat_eq_iff)

lemma TIMER_T_TimerDel [simp]: "TIMER_T (snd (TimerDel i T)) = TIMER_T T"
  by (simp add: TimerDel_def)

lemma timer_cancel_unique:
  assumes inv: "timers_inv T"
    and uniq: "\<And>i j. i < 10 \<Longrightarrow> j < 10 \<Longrightarrow> TimerID (TIMER_T T ! i) = tid \<Longrightarrow>
      TimerID (TIMER_T T ! j) = tid \<Longrightarrow> i = j"
  shows "running_ids (timer_cancel tid T) = running_ids T - {tid}"
proof (cases rule: FindTimerIndexbyID_cases [where tid = tid and T = T])
  case none
  then show ?thesis by (auto simp: timer_cancel_def running_ids_def)
next
  case (some k)
  have len: "length (TIMER_T T) = 10" "Runing (TIMER_T T ! k) \<in> {0, 1}"
    "Unused T ! k \<noteq> 0 \<Longrightarrow> Runing (TIMER_T T ! k) = 0"
    using inv some(1) by (auto simp: timers_inv_def)
  have same: "Runing (TIMER_T T ! k) = 0 \<Longrightarrow> (TIMER_T T ! k)\<lparr> Runing := 0 \<rparr> = TIMER_T T ! k"
    by (cases "TIMER_T T ! k") simp
  have *: "TIMER_T (timer_cancel tid T) = (TIMER_T T)[k := (TIMER_T T ! k)\<lparr> Runing := 0 \<rparr>]"
    using some(1,2) len
    by (cases "Runing (TIMER_T T ! k) = 0")
      (auto simp: timer_cancel_def Let_def unat_index TimerStop_def timer_consts same)
  have only: "j = k" if "j < 10" "TimerID (TIMER_T T ! j) = tid" for j
    using uniq [OF that(1) some(1) that(2) some(3)] .
  have old: "TIMER_T (timer_cancel tid T) ! j = TIMER_T T ! j" if "j \<noteq> k" for j
    using that by (simp add: *)
  have new: "Runing (TIMER_T (timer_cancel tid T) ! k) = 0" using some(1) len by (simp add: *)
  show ?thesis
  proof (intro equalityI subsetI)
    fix x assume "x \<in> running_ids (timer_cancel tid T)"
    then obtain i where i: "i < 10" "x = TimerID (TIMER_T (timer_cancel tid T) ! i)"
      "Runing (TIMER_T (timer_cancel tid T) ! i) = 1" by (auto simp: running_ids_def)
    with new have "i \<noteq> k" by auto
    with i old only show "x \<in> running_ids T - {tid}" unfolding running_ids_def by force
  next
    fix x assume "x \<in> running_ids T - {tid}"
    then obtain i where i: "i < 10" "x = TimerID (TIMER_T T ! i)" "Runing (TIMER_T T ! i) = 1"
      "x \<noteq> tid" by (auto simp: running_ids_def)
    with some(3) have "i \<noteq> k" by auto
    with i old show "x \<in> running_ids (timer_cancel tid T)" unfolding running_ids_def by force
  qed
qed

lemma timer_cancel_other:
  assumes inv: "timers_inv T" and x: "x \<in> running_ids T" "x \<noteq> tid"
  shows "x \<in> running_ids (timer_cancel tid T)"
proof -
  obtain i where i: "i < 10" "x = TimerID (TIMER_T T ! i)" "Runing (TIMER_T T ! i) = 1"
    using x(1) by (auto simp: running_ids_def)
  have len: "length (TIMER_T T) = 10" using inv by (simp add: timers_inv_def)
  have "TIMER_T (timer_cancel tid T) ! i = TIMER_T T ! i"
  proof (cases rule: FindTimerIndexbyID_cases [where tid = tid and T = T])
    case none
    then show ?thesis by (simp add: timer_cancel_def)
  next
    case (some k)
    then have "k \<noteq> i" using i x(2) by auto
    then show ?thesis using some(1,2)
      by (simp add: timer_cancel_def Let_def unat_index TimerStop_def)
  qed
  with i show ?thesis unfolding running_ids_def by force
qed

text \<open>
  The lookup does not ask whether the slot it finds is in use. A slot that was freed keeps
  its identifier; if it comes before the slot of the running timer, the cancel stops and
  deletes nothing and the running timer stays.
\<close>

lemma timer_cancel_stale:
  assumes inv: "timers_inv T" and k: "k < 10" "TimerID (TIMER_T T ! k) = tid" "Unused T ! k \<noteq> 0"
    and first: "\<forall>j < k. TimerID (TIMER_T T ! j) \<noteq> tid"
  shows "timer_cancel tid T = T"
proof (cases rule: FindTimerIndexbyID_cases [where tid = tid and T = T])
  case none
  with k show ?thesis by simp
next
  case (some k')
  with k first have "k' = k" by (metis linorder_neqE_nat)
  moreover have "Runing (TIMER_T T ! k) = 0" using inv k by (simp add: timers_inv_def)
  ultimately show ?thesis using some(2) k
    by (simp add: timer_cancel_def Let_def unat_index TimerStop_def TimerDel_def timer_consts)
qed

section \<open>Elapsed time\<close>

lemma TIME_SUB_ABS_le: "prev \<le> now \<Longrightarrow> TIME_SUB_ABS prev now = now - prev"
  by (simp add: TIME_SUB_ABS_def)

text \<open>Across a wrap of the tick counter the macro is one short of the elapsed time.\<close>

lemma TIME_SUB_ABS_wrap: "now < prev \<Longrightarrow> TIME_SUB_ABS prev now = now - prev - 1"
  by (simp add: TIME_SUB_ABS_def)

lemma TIME_SUB_ABS_bound: "TIME_SUB_ABS prev now \<le> now - prev"
proof (cases "prev \<le> now")
  case True
  then show ?thesis by (simp add: TIME_SUB_ABS_le)
next
  case False
  then have "now - prev \<noteq> 0" by auto
  then have "now - prev - 1 \<le> now - prev" by (simp add: word_le_nat_alt unat_minus_one)
  with False show ?thesis by (simp add: TIME_SUB_ABS_wrap)
qed

end
