(* ===== verification/TopicMap.thy ===== *)
theory TopicMap
  imports Prelude
begin

text \<open>
  The topic registry of \<open>src/user/MQTT_SN_Client/MQTTSNClientTopicMap.c\<close>: for each of the
  two topic names of the firmware, the identifier the gateway assigned and where its
  registration stands. A C string is the list of its bytes before the terminating zero.
\<close>

section \<open>State and operations\<close>

definition MQTT_SN_CLIENT_LIST_MAX :: nat where "MQTT_SN_CLIENT_LIST_MAX = 2"
definition MQTT_SN_MAX_TOPIC_LENGTH :: nat where "MQTT_SN_MAX_TOPIC_LENGTH = 249"

datatype TOPIC_STATUS = unregister | registering | registered

record topic_map_item_t =
  topic_id :: u16
  topic_id_lenth :: u8
  topic_name :: "u8 list"
  status :: TOPIC_STATUS

record topic_map_t =
  registerednum :: u8
  toppiclist :: "topic_map_item_t list"

definition bytes_of :: "string \<Rightarrow> u8 list" where
  "bytes_of s = map of_char s"

definition c_string :: "u8 list \<Rightarrow> u8 list" where
  "c_string a = takeWhile (\<lambda>c. c \<noteq> 0) a"

definition topiclist :: "u8 list list" where
  "topiclist = [bytes_of ''FMSH_POWER_TEMP_702'', bytes_of ''FMSH_POWER_HUMI_702'']"

definition init_item :: "topic_map_item_t \<Rightarrow> u8 list \<Rightarrow> topic_map_item_t outcome" where
  "init_item it name =
     bind_outcome (memcpy (topic_name it) 0 name 0 (length name)) (\<lambda>a.
       Ok (it\<lparr> status := unregister, topic_id_lenth := word_of_nat (length name), topic_name := a \<rparr>))"

fun TopicInitConfig_loop :: "nat \<Rightarrow> nat \<Rightarrow> topic_map_t \<Rightarrow> topic_map_t outcome" where
  "TopicInitConfig_loop 0 i m = Ok m"
| "TopicInitConfig_loop (Suc n) i m =
     bind_outcome (init_item (toppiclist m ! i) (topiclist ! i)) (\<lambda>it.
       TopicInitConfig_loop n (Suc i) (m\<lparr> toppiclist := (toppiclist m)[i := it] \<rparr>))"

definition TopicInitConfig :: "topic_map_t \<Rightarrow> topic_map_t outcome" where
  "TopicInitConfig m = TopicInitConfig_loop MQTT_SN_CLIENT_LIST_MAX 0 (m\<lparr> registerednum := 0 \<rparr>)"

definition TopicidRegistering :: "u8 list \<Rightarrow> topic_map_t \<Rightarrow> u8 \<times> topic_map_t" where
  "TopicidRegistering topic m =
     (case find (\<lambda>i. topic = c_string (topic_name (toppiclist m ! i))) [0..<MQTT_SN_CLIENT_LIST_MAX] of
        None \<Rightarrow> (1, m)
      | Some i \<Rightarrow> (0, m\<lparr> toppiclist := (toppiclist m)[i := (toppiclist m ! i)\<lparr> status := registering \<rparr>] \<rparr>))"

definition TopicidUnregister :: "u16 \<Rightarrow> topic_map_t \<Rightarrow> u8 \<times> topic_map_t" where
  "TopicidUnregister topicid m =
     (case find (\<lambda>i. topic_id (toppiclist m ! i) = topicid) [0..<MQTT_SN_CLIENT_LIST_MAX] of
        None \<Rightarrow> (1, m)
      | Some i \<Rightarrow> (0, m\<lparr> toppiclist := (toppiclist m)[i := (toppiclist m ! i)\<lparr> status := unregister \<rparr>] \<rparr>))"

definition TopicidRegistered :: "u16 \<Rightarrow> topic_map_t \<Rightarrow> u8 \<times> topic_map_t" where
  "TopicidRegistered topicid m =
     (case find (\<lambda>i. status (toppiclist m ! i) = registering) [0..<MQTT_SN_CLIENT_LIST_MAX] of
        None \<Rightarrow> (1, m)
      | Some i \<Rightarrow> (0, m\<lparr> toppiclist := (toppiclist m)[i := (toppiclist m ! i)\<lparr> status := registered,
                                                               topic_id := topicid \<rparr>] \<rparr>))"

text \<open>The result is an \<open>int16_t\<close>: the identifier is read as two's complement.\<close>

definition GetTopicID :: "u8 list \<Rightarrow> topic_map_t \<Rightarrow> int" where
  "GetTopicID topicid m =
     (case find (\<lambda>i. topicid = c_string (topic_name (toppiclist m ! i)) \<and>
                      status (toppiclist m ! i) = registered) [0..<MQTT_SN_CLIENT_LIST_MAX] of
        None \<Rightarrow> -1
      | Some i \<Rightarrow> sint (topic_id (toppiclist m ! i)))"

definition zero_topic_map :: topic_map_t where
  "zero_topic_map =
     \<lparr> registerednum = 0,
       toppiclist = replicate 2 \<lparr> topic_id = 0, topic_id_lenth = 0,
         topic_name = replicate MQTT_SN_MAX_TOPIC_LENGTH 0, status = unregister \<rparr> \<rparr>"

section \<open>Invariant\<close>

text \<open>The registry always names the topics of \<open>topiclist\<close>, in that order.\<close>

definition topics_inv :: "topic_map_t \<Rightarrow> bool" where
  "topics_inv m \<longleftrightarrow>
     length (toppiclist m) = 2 \<and>
     (\<forall>i < 2. c_string (topic_name (toppiclist m ! i)) = topiclist ! i)"

lemma find_two:
  "find P [0..<MQTT_SN_CLIENT_LIST_MAX] = (if P 0 then Some 0 else if P 1 then Some 1 else None)"
  by (simp add: MQTT_SN_CLIENT_LIST_MAX_def upt_rec)

lemma less_2_cases_iff': "(\<forall>i < 2. P i) \<longleftrightarrow> P 0 \<and> P (1 :: nat)"
  by (auto simp: less_2_cases_iff)

lemma topiclist_nth:
  "topiclist ! 0 = bytes_of ''FMSH_POWER_TEMP_702''" "topiclist ! 1 = bytes_of ''FMSH_POWER_HUMI_702''"
  "topiclist ! 0 \<noteq> topiclist ! 1"
  by (simp_all add: topiclist_def bytes_of_def)

lemma two_items: "length xs = 2 \<Longrightarrow> xs = [xs ! 0, xs ! 1]"
  by (auto simp: numeral_2_eq_2 length_Suc_conv)

lemma takeWhile_zero_pad: "0 \<notin> set s \<Longrightarrow> c_string (s @ replicate n 0) = s"
  by (induction s) (auto simp: c_string_def takeWhile_eq_Nil_iff)

lemma topiclist_no_zero: "i < 2 \<Longrightarrow> 0 \<notin> set (topiclist ! i)" "i < 2 \<Longrightarrow> length (topiclist ! i) = 19"
  by (auto simp: less_2_cases_iff topiclist_def bytes_of_def)

lemma init_item_ok:
  assumes "i < 2" and "topic_name it = replicate MQTT_SN_MAX_TOPIC_LENGTH 0"
  shows "\<exists>it'. init_item it (topiclist ! i) = Ok it' \<and>
           c_string (topic_name it') = topiclist ! i \<and> status it' = unregister"
  using assms topiclist_no_zero [OF assms(1)] takeWhile_zero_pad [of "topiclist ! i" 230]
  by (simp add: init_item_def memcpy_Ok blit_0 MQTT_SN_MAX_TOPIC_LENGTH_def)

lemma TopicInitConfig_inv:
  "\<exists>m. TopicInitConfig zero_topic_map = Ok m \<and> topics_inv m \<and> (\<forall>i < 2. status (toppiclist m ! i) = unregister)"
proof -
  let ?it = "\<lparr> topic_id = 0, topic_id_lenth = 0,
         topic_name = replicate MQTT_SN_MAX_TOPIC_LENGTH 0, status = unregister \<rparr>"
  obtain a where a: "init_item ?it (topiclist ! 0) = Ok a" "c_string (topic_name a) = topiclist ! 0"
    "status a = unregister" using init_item_ok [of 0 ?it] by auto
  obtain b where b: "init_item ?it (topiclist ! 1) = Ok b" "c_string (topic_name b) = topiclist ! 1"
    "status b = unregister" using init_item_ok [of 1 ?it] by auto
  show ?thesis
    using a b by (simp add: TopicInitConfig_def zero_topic_map_def topics_inv_def All_less_Suc
        MQTT_SN_CLIENT_LIST_MAX_def numeral_2_eq_2)
qed

lemma TopicidRegistering_inv: "topics_inv m \<Longrightarrow> topics_inv (snd (TopicidRegistering t m))"
  and TopicidUnregister_inv: "topics_inv m \<Longrightarrow> topics_inv (snd (TopicidUnregister k m))"
  and TopicidRegistered_inv: "topics_inv m \<Longrightarrow> topics_inv (snd (TopicidRegistered k m))"
  by (auto simp: topics_inv_def TopicidRegistering_def TopicidUnregister_def TopicidRegistered_def
      find_two less_2_cases_iff')

lemmas topics_inv_intros = TopicidRegistering_inv TopicidUnregister_inv TopicidRegistered_inv

section \<open>Registration round trip\<close>

lemma TopicidRegistering_status:
  assumes "topics_inv m" and "i < 2"
  shows "TopicidRegistering (topiclist ! i) m =
     (0, m\<lparr> toppiclist := (toppiclist m)[i := (toppiclist m ! i)\<lparr> status := registering \<rparr>] \<rparr>)"
  using assms topiclist_nth(3)
  by (auto simp: topics_inv_def TopicidRegistering_def find_two less_2_cases_iff)

lemma registration_roundtrip:
  assumes inv: "topics_inv m" and i: "i < 2" and none: "\<forall>j < 2. status (toppiclist m ! j) \<noteq> registering"
  shows "word_of_int (GetTopicID (topiclist ! i)
           (snd (TopicidRegistered k (snd (TopicidRegistering (topiclist ! i) m))))) = k"
proof -
  have st: "status (toppiclist m ! 0) \<noteq> registering" "status (toppiclist m ! 1) \<noteq> registering"
    and len: "length (toppiclist m) = 2"
    and nm: "c_string (topic_name (toppiclist m ! 0)) = topiclist ! 0"
      "c_string (topic_name (toppiclist m ! 1)) = topiclist ! 1"
    using none inv by (auto simp: topics_inv_def)
  consider "i = 0" | "i = 1" using i by linarith
  then show ?thesis
  proof cases
    case 1
    then show ?thesis unfolding TopicidRegistering_status [OF inv i]
      using st len nm by (simp add: TopicidRegistered_def GetTopicID_def find_two)
  next
    case 2
    then show ?thesis unfolding TopicidRegistering_status [OF inv i]
      using st len nm topiclist_nth(3) by (simp add: TopicidRegistered_def GetTopicID_def find_two)
  qed
qed

lemma registered_lookup:
  assumes inv: "topics_inv m" and i: "i < 2" and st: "status (toppiclist m ! i) = registering"
    and only: "\<forall>j < 2. j \<noteq> i \<longrightarrow> status (toppiclist m ! j) \<noteq> registering"
  shows "word_of_int (GetTopicID (topiclist ! i) (snd (TopicidRegistered k m))) = k"
    and "status (toppiclist (snd (TopicidRegistered k m)) ! i) = registered"
proof -
  have len: "length (toppiclist m) = 2" and nm: "c_string (topic_name (toppiclist m ! 0)) = topiclist ! 0"
      "c_string (topic_name (toppiclist m ! 1)) = topiclist ! 1"
    using inv by (auto simp: topics_inv_def)
  consider "i = 0" | "i = 1" "status (toppiclist m ! 0) \<noteq> registering" using i only by fastforce
  then have "word_of_int (GetTopicID (topiclist ! i) (snd (TopicidRegistered k m))) = k \<and>
      status (toppiclist (snd (TopicidRegistered k m)) ! i) = registered"
    using st len nm topiclist_nth(3) by cases (simp_all add: TopicidRegistered_def GetTopicID_def find_two)
  then show "word_of_int (GetTopicID (topiclist ! i) (snd (TopicidRegistered k m))) = k"
    "status (toppiclist (snd (TopicidRegistered k m)) ! i) = registered" by simp_all
qed

lemma GetTopicID_unregistered:
  assumes "topics_inv m" and "i < 2" and "status (toppiclist m ! i) \<noteq> registered"
  shows "GetTopicID (topiclist ! i) m = -1"
  using assms topiclist_nth(3)
  by (auto simp: topics_inv_def GetTopicID_def find_two less_2_cases_iff)

end
