(* ===== verification/GwList.thy ===== *)
theory GwList
  imports Prelude
begin

text \<open>
  The list of known gateways (\<open>gwListappend\<close>, \<open>gwListdel\<close>, \<open>gwListupdata\<close>, \<open>GetgwList\<close> of
  \<open>src/user/MQTT_SN_Client/MQTTSNClient.c\<close>): three slots, each marked used or not, and a
  count. \<open>gw_inv\<close> says that the count is the number of used slots; it is kept by every
  operation except the refresh of a known gateway, which always stores into slot 0.
\<close>

section \<open>State and operations\<close>

definition MQTT_GW_LISTNUM_MAX :: nat where "MQTT_GW_LISTNUM_MAX = 3"
definition MQTT_SN_CILENT_NADV :: u8 where "MQTT_SN_CILENT_NADV = 3"

record MQTT_SN_GwItem_t =
  gw_ID :: u8
  gw_Nadv :: u8
  gw_port :: u16
  gw_keepalive :: u16
  gw_addr :: u32
  gw_usedflag :: u8
  gw_lasttime :: u32

record MQTT_SN_GwList_t =
  gwList :: "MQTT_SN_GwItem_t list"
  gwListAvalidNum :: u8

definition gw_used :: "MQTT_SN_GwList_t \<Rightarrow> nat \<Rightarrow> bool" where
  "gw_used G i \<longleftrightarrow> gw_usedflag (gwList G ! i) \<noteq> 0"

text \<open>
  \<open>tick\<close> is \<open>mqtt_sn_client.cyclic_tick\<close>. When no slot is free the source stores at the
  uninitialised index \<open>gwIndex\<close>.
\<close>

definition gwListappend ::
  "MQTT_SN_GwList_t \<Rightarrow> u32 \<Rightarrow> u16 \<Rightarrow> u8 \<Rightarrow> u16 \<Rightarrow> u32 \<Rightarrow> (u8 \<times> MQTT_SN_GwList_t) outcome" where
  "gwListappend G addr port gwid gwkeepalive tick =
     (let gwlist = \<lparr> gw_ID = gwid, gw_Nadv = 0, gw_port = port, gw_keepalive = gwkeepalive,
                     gw_addr = addr, gw_usedflag = 1, gw_lasttime = tick \<rparr>
      in if gwListAvalidNum G = 0 then
           Ok (0, G\<lparr> gwList := (gwList G)[0 := gwlist], gwListAvalidNum := gwListAvalidNum G + 1 \<rparr>)
         else if unat (gwListAvalidNum G) = MQTT_GW_LISTNUM_MAX then Ok (1, G)
         else if find (\<lambda>i. gwid = gw_ID (gwList G ! i) \<and> gw_used G i) [0..<MQTT_GW_LISTNUM_MAX] \<noteq> None then
           Ok (0, G\<lparr> gwList := (gwList G)[0 := gwlist] \<rparr>)
         else case find (\<lambda>i. \<not> gw_used G i) [0..<MQTT_GW_LISTNUM_MAX] of
           None \<Rightarrow> Halt Overrun
         | Some gwIndex \<Rightarrow>
             Ok (0, G\<lparr> gwList := (gwList G)[gwIndex := gwlist],
                       gwListAvalidNum := gwListAvalidNum G + 1 \<rparr>))"

definition gwListdel :: "MQTT_SN_GwList_t \<Rightarrow> u8 \<Rightarrow> (u8 \<times> MQTT_SN_GwList_t) outcome" where
  "gwListdel G index =
     (if unat index > MQTT_GW_LISTNUM_MAX then Ok (1, G)
      else if gwListAvalidNum G = 0 then Ok (2, G)
      else if unat index \<ge> length (gwList G) then Halt Overrun
      else if gw_used G (unat index) then
        Ok (0, G\<lparr> gwList := (gwList G)[unat index := (gwList G ! unat index)\<lparr> gw_usedflag := 0 \<rparr>],
                  gwListAvalidNum := gwListAvalidNum G - 1 \<rparr>)
      else Ok (1, G))"

text \<open>One iteration of the loop of \<open>gwListupdata\<close>, for slot \<open>i\<close>.\<close>

definition gwListupdata_slot :: "u32 \<Rightarrow> MQTT_SN_GwList_t \<Rightarrow> nat \<Rightarrow> MQTT_SN_GwList_t outcome" where
  "gwListupdata_slot tick G i =
     (let it = gwList G ! i in
      if tick > gw_lasttime it + ucast (gw_keepalive it) \<and> gw_used G i then
        let it1 = it\<lparr> gw_Nadv := gw_Nadv it + 1 \<rparr>;
            G1 = G\<lparr> gwList := (gwList G)[i := it1] \<rparr>
        in if gw_Nadv it1 > MQTT_SN_CILENT_NADV then
             bind_outcome (gwListdel G1 (word_of_nat i)) (\<lambda>(_, G2). Ok G2)
           else Ok (G1\<lparr> gwList := (gwList G1)[i := it1\<lparr> gw_lasttime := tick \<rparr>] \<rparr>)
      else Ok G)"

fun gwListupdata_loop :: "u32 \<Rightarrow> nat list \<Rightarrow> MQTT_SN_GwList_t \<Rightarrow> MQTT_SN_GwList_t outcome" where
  "gwListupdata_loop tick [] G = Ok G"
| "gwListupdata_loop tick (i # is) G =
     bind_outcome (gwListupdata_slot tick G i) (gwListupdata_loop tick is)"

definition gwListupdata :: "u32 \<Rightarrow> MQTT_SN_GwList_t \<Rightarrow> MQTT_SN_GwList_t outcome" where
  "gwListupdata tick G =
     (if gwListAvalidNum G = 0 then Ok G
      else gwListupdata_loop tick [0..<MQTT_GW_LISTNUM_MAX] G)"

text \<open>The function returns a null pointer on every path; what it does is free the first used slot.\<close>

definition GetgwList :: "MQTT_SN_GwList_t \<Rightarrow> MQTT_SN_GwList_t" where
  "GetgwList G =
     (case find (gw_used G) [0..<MQTT_GW_LISTNUM_MAX] of
        None \<Rightarrow> G
      | Some i \<Rightarrow> G\<lparr> gwList := (gwList G)[i := (gwList G ! i)\<lparr> gw_usedflag := 0 \<rparr>],
                     gwListAvalidNum := gwListAvalidNum G - 1 \<rparr>)"

definition zero_gwitem :: MQTT_SN_GwItem_t where
  "zero_gwitem = \<lparr> gw_ID = 0, gw_Nadv = 0, gw_port = 0, gw_keepalive = 0, gw_addr = 0,
                   gw_usedflag = 0, gw_lasttime = 0 \<rparr>"

definition zero_gwlist :: MQTT_SN_GwList_t where
  "zero_gwlist = \<lparr> gwList = replicate MQTT_GW_LISTNUM_MAX zero_gwitem, gwListAvalidNum = 0 \<rparr>"

section \<open>Invariant\<close>

definition gw_count :: "MQTT_SN_GwList_t \<Rightarrow> nat" where
  "gw_count G = card {i. i < 3 \<and> gw_used G i}"

definition gw_wf :: "MQTT_SN_GwList_t \<Rightarrow> bool" where
  "gw_wf G \<longleftrightarrow> length (gwList G) = 3"

definition gw_inv :: "MQTT_SN_GwList_t \<Rightarrow> bool" where
  "gw_inv G \<longleftrightarrow> gw_wf G \<and> unat (gwListAvalidNum G) = gw_count G"

lemma find_three:
  "find P [0..<MQTT_GW_LISTNUM_MAX] =
     (if P 0 then Some 0 else if P 1 then Some 1 else if P 2 then Some 2 else None)"
  by (simp add: MQTT_GW_LISTNUM_MAX_def upt_rec numeral_3_eq_3 numeral_2_eq_2)

lemma less_3: "i < 3 \<longleftrightarrow> i = 0 \<or> i = 1 \<or> i = (2::nat)"
  by auto

lemma gw_count_sum:
  "gw_count G = (if gw_used G 0 then 1 else 0) + (if gw_used G 1 then 1 else 0) +
                (if gw_used G 2 then 1 else 0)"
proof -
  have "{i. i < 3 \<and> gw_used G i} = (if gw_used G 0 then {0} else {}) \<union>
      (if gw_used G 1 then {1} else {}) \<union> (if gw_used G 2 then {2} else {})"
    unfolding less_3 by (auto intro: gr0I)
  then show ?thesis by (simp add: gw_count_def)
qed

lemma gw_used_update [simp]:
  "gw_used (G\<lparr> gwList := xs, gwListAvalidNum := n \<rparr>) j = (gw_usedflag (xs ! j) \<noteq> 0)"
  "gw_used (G\<lparr> gwList := xs \<rparr>) j = (gw_usedflag (xs ! j) \<noteq> 0)"
  by (simp_all add: gw_used_def)

lemma zero_gwlist_inv: "gw_inv zero_gwlist"
  by (simp add: gw_inv_def gw_wf_def zero_gwlist_def gw_count_sum gw_used_def zero_gwitem_def
      MQTT_GW_LISTNUM_MAX_def)

lemma unat_inc_small: "unat n < 255 \<Longrightarrow> unat (n + 1) = unat n + 1" for n :: u8
  by (simp add: unat_word_ariths)

lemma unat_dec: "n \<noteq> 0 \<Longrightarrow> unat (n - 1) = unat n - 1" for n :: u8
  by (rule unat_minus_one)

text \<open>Adding a gateway that is not in the list: the free slot with the least index takes it.\<close>

lemma gwListappend_new:
  assumes inv: "gw_inv G" and new: "\<forall>i < 3. gw_used G i \<longrightarrow> gw_ID (gwList G ! i) \<noteq> gwid"
    and room: "gw_count G < 3"
  shows "\<exists>G' k. gwListappend G addr port gwid ka tick = Ok (0, G') \<and> gw_inv G' \<and> k < 3 \<and>
           \<not> gw_used G k \<and> gw_used G' k \<and> gw_ID (gwList G' ! k) = gwid \<and>
           gw_addr (gwList G' ! k) = addr \<and> gw_port (gwList G' ! k) = port \<and>
           gw_keepalive (gwList G' ! k) = ka \<and> gw_lasttime (gwList G' ! k) = tick \<and>
           (\<forall>j < 3. j \<noteq> k \<longrightarrow> gwList G' ! j = gwList G ! j)"
proof -
  have len: "length (gwList G) = 3" and num: "unat (gwListAvalidNum G) = gw_count G"
    using inv by (auto simp: gw_inv_def gw_wf_def)
  let ?it = "\<lparr> gw_ID = gwid, gw_Nadv = 0, gw_port = port, gw_keepalive = ka,
               gw_addr = addr, gw_usedflag = 1, gw_lasttime = tick \<rparr>"
  obtain k where k: "k < 3" "\<not> gw_used G k" "\<forall>j < k. gw_used G j"
    "find (\<lambda>i. \<not> gw_used G i) [0..<MQTT_GW_LISTNUM_MAX] = Some k"
    using room by (auto simp: gw_count_sum find_three less_3 less_2_cases_iff split: if_splits)
  let ?G = "G\<lparr> gwList := (gwList G)[k := ?it], gwListAvalidNum := gwListAvalidNum G + 1 \<rparr>"
  have "gwListAvalidNum G = 0 \<Longrightarrow> k = 0"
    using num k(3) by (cases k) (auto simp: gw_count_sum)
  moreover have "find (\<lambda>i. gwid = gw_ID (gwList G ! i) \<and> gw_used G i) [0..<MQTT_GW_LISTNUM_MAX] = None"
    using new by (auto simp: find_None_iff MQTT_GW_LISTNUM_MAX_def)
  ultimately have "gwListappend G addr port gwid ka tick = Ok (0, ?G)"
    using k num room by (auto simp: gwListappend_def Let_def MQTT_GW_LISTNUM_MAX_def)
  moreover have "gw_inv ?G"
    using k len num room by (auto simp: gw_inv_def gw_wf_def gw_count_sum unat_inc_small less_3 gw_used_def)
  ultimately show ?thesis using k len by (intro exI [of _ ?G] exI [of _ k]) auto
qed

lemma gwListappend_full:
  "gwListAvalidNum G = 3 \<Longrightarrow> gwListappend G addr port gwid ka tick = Ok (1, G)"
  by (simp add: gwListappend_def MQTT_GW_LISTNUM_MAX_def)

lemma gwListdel_inv:
  assumes inv: "gw_inv G" and i: "i < 3"
  shows "\<exists>e G'. gwListdel G (word_of_nat i) = Ok (e, G') \<and> gw_inv G' \<and> \<not> gw_used G' i \<and>
           (\<forall>j < 3. j \<noteq> i \<longrightarrow> gwList G' ! j = gwList G ! j)"
proof -
  have len: "length (gwList G) = 3" and num: "unat (gwListAvalidNum G) = gw_count G"
    using inv by (auto simp: gw_inv_def gw_wf_def)
  have ix: "unat (word_of_nat i :: u8) = i" using i by (simp add: unat_of_nat)
  show ?thesis
  proof (cases "gw_used G i")
    case True
    then have nz: "gwListAvalidNum G \<noteq> 0" using num i by (auto simp: gw_count_sum less_3 split: if_splits)
    then have "gwListdel G (word_of_nat i) =
        Ok (0, G\<lparr> gwList := (gwList G)[i := (gwList G ! i)\<lparr> gw_usedflag := 0 \<rparr>],
                  gwListAvalidNum := gwListAvalidNum G - 1 \<rparr>)"
      using True i len ix by (simp add: gwListdel_def MQTT_GW_LISTNUM_MAX_def)
    then show ?thesis
      using True i len num nz
      by (auto simp: gw_inv_def gw_wf_def gw_count_sum unat_dec less_3 gw_used_def)
  next
    case False
    then show ?thesis using inv i len ix
      by (simp add: gwListdel_def MQTT_GW_LISTNUM_MAX_def)
  qed
qed

section \<open>Expiry\<close>

lemma gwListupdata_slot_inv:
  assumes inv: "gw_inv G" and i: "i < 3"
  shows "\<exists>G'. gwListupdata_slot tick G i = Ok G' \<and> gw_inv G' \<and>
           (\<forall>j < 3. j \<noteq> i \<longrightarrow> gwList G' ! j = gwList G ! j)"
proof -
  have len: "length (gwList G) = 3" using inv by (auto simp: gw_inv_def gw_wf_def)
  let ?it = "(gwList G ! i)\<lparr> gw_Nadv := gw_Nadv (gwList G ! i) + 1 \<rparr>"
  have "gw_inv (G\<lparr> gwList := (gwList G)[i := ?it] \<rparr>)"
    "gw_inv (G\<lparr> gwList := (gwList G)[i := ?it\<lparr> gw_lasttime := tick \<rparr>] \<rparr>)"
    using inv i len by (auto simp: gw_inv_def gw_wf_def gw_count_sum gw_used_def less_3)
  moreover from gwListdel_inv [OF this(1) i] obtain e G' where
    "gwListdel (G\<lparr> gwList := (gwList G)[i := ?it] \<rparr>) (word_of_nat i) = Ok (e, G')" "gw_inv G'"
    "\<forall>j < 3. j \<noteq> i \<longrightarrow> gwList G' ! j = (gwList G)[i := ?it] ! j" by auto
  ultimately show ?thesis using inv i len
    by (auto simp: gwListupdata_slot_def Let_def)
qed

lemma gwListupdata_loop_inv:
  "gw_inv G \<Longrightarrow> (\<forall>i \<in> set is. i < 3) \<Longrightarrow> \<exists>G'. gwListupdata_loop tick is G = Ok G' \<and> gw_inv G'"
proof (induction "is" arbitrary: G)
  case Nil
  then show ?case by simp
next
  case (Cons i ks)
  then show ?case using gwListupdata_slot_inv [of G i tick] by fastforce
qed

lemma gwListupdata_inv: "gw_inv G \<Longrightarrow> \<exists>G'. gwListupdata tick G = Ok G' \<and> gw_inv G'"
  by (simp add: gwListupdata_def gwListupdata_loop_inv MQTT_GW_LISTNUM_MAX_def)

text \<open>What one pass does to a slot that has expired, and to one that has not.\<close>

lemma gwListupdata_slot_expired:
  assumes inv: "gw_inv G" and i: "i < 3" and u: "gw_used G i"
    and late: "tick > gw_lasttime (gwList G ! i) + ucast (gw_keepalive (gwList G ! i))"
  shows "gw_Nadv (gwList G ! i) < 3 \<Longrightarrow> \<exists>G'. gwListupdata_slot tick G i = Ok G' \<and> gw_used G' i \<and>
           gw_Nadv (gwList G' ! i) = gw_Nadv (gwList G ! i) + 1 \<and> gw_lasttime (gwList G' ! i) = tick"
    and "gw_Nadv (gwList G ! i) = 3 \<Longrightarrow> \<exists>G'. gwListupdata_slot tick G i = Ok G' \<and> \<not> gw_used G' i"
proof -
  have len: "length (gwList G) = 3" using inv by (auto simp: gw_inv_def gw_wf_def)
  let ?it = "(gwList G ! i)\<lparr> gw_Nadv := gw_Nadv (gwList G ! i) + 1 \<rparr>"
  have inv1: "gw_inv (G\<lparr> gwList := (gwList G)[i := ?it] \<rparr>)"
    using inv i len by (auto simp: gw_inv_def gw_wf_def gw_count_sum gw_used_def less_3)
  have small: "\<not> gw_Nadv (gwList G ! i) + 1 > 3" if "gw_Nadv (gwList G ! i) < 3"
    using that by (simp add: word_less_nat_alt unat_word_ariths)
  show "\<exists>G'. gwListupdata_slot tick G i = Ok G' \<and> gw_used G' i \<and>
      gw_Nadv (gwList G' ! i) = gw_Nadv (gwList G ! i) + 1 \<and> gw_lasttime (gwList G' ! i) = tick"
    if "gw_Nadv (gwList G ! i) < 3"
    using u late i len small [OF that]
    by (auto simp: gwListupdata_slot_def Let_def MQTT_SN_CILENT_NADV_def gw_used_def)
  show "\<exists>G'. gwListupdata_slot tick G i = Ok G' \<and> \<not> gw_used G' i"
    if "gw_Nadv (gwList G ! i) = 3"
    using u late i len that gwListdel_inv [OF inv1 i]
    by (auto simp: gwListupdata_slot_def Let_def MQTT_SN_CILENT_NADV_def)
qed

section \<open>The refresh of a known gateway\<close>

text \<open>
  A gateway that is in the list is stored into slot 0, whichever slot holds it, and the
  count stays: the entry of slot 0 is lost, the old entry of the gateway remains.
\<close>

lemma gwListappend_known:
  assumes "gwListAvalidNum G \<noteq> 0" and "gwListAvalidNum G \<noteq> 3"
    and "k < 3" and "gw_used G k" and "gw_ID (gwList G ! k) = gwid"
  shows "gwListappend G addr port gwid ka tick =
     Ok (0, G\<lparr> gwList := (gwList G)[0 := \<lparr> gw_ID = gwid, gw_Nadv = 0, gw_port = port,
                  gw_keepalive = ka, gw_addr = addr, gw_usedflag = 1, gw_lasttime = tick \<rparr>] \<rparr>)"
proof -
  have "unat (gwListAvalidNum G) \<noteq> 3" using assms(2) by (auto simp: word_unat_eq_iff)
  moreover have "find (\<lambda>i. gwid = gw_ID (gwList G ! i) \<and> gw_used G i) [0..<MQTT_GW_LISTNUM_MAX] \<noteq> None"
    using assms(3-5) by (auto simp: find_None_iff MQTT_GW_LISTNUM_MAX_def)
  ultimately show ?thesis
    using assms(1) by (simp add: gwListappend_def Let_def MQTT_GW_LISTNUM_MAX_def)
qed

end
