(* ===== verification/ClientState.thy ===== *)
theory ClientState
  imports ImportFifo Timers TopicMap GwList
begin

text \<open>
  The global state of the MQTT-SN client (\<open>src/user/MQTT_SN_Client/MQTTSNClient.h\<close> and the
  globals of \<open>MQTTSNClient.c\<close>), the layout of the packets it sends and receives, and the
  operations of the other components lifted to that state. Packet structures are packed
  (\<open>#pragma pack(1)\<close>) and the target is little-endian, so a structure is the list of its
  bytes with 16-bit members low byte first.
\<close>

unbundle bit_operations_syntax

section \<open>Constants\<close>

definition MQTT_SN_MAX_PACKET_LENGTH :: nat where "MQTT_SN_MAX_PACKET_LENGTH = 255"
definition MQTT_SN_MAX_PAYLOAD_LENGTH :: nat where "MQTT_SN_MAX_PAYLOAD_LENGTH = 248"
definition MQTT_SN_MAX_CLIENT_ID_LENGTH :: nat where "MQTT_SN_MAX_CLIENT_ID_LENGTH = 23"
definition MQTT_SN_DEFAULT_PORT :: u16 where "MQTT_SN_DEFAULT_PORT = 1883"

definition MQTT_SN_TYPE_ADVERTISE :: u8 where "MQTT_SN_TYPE_ADVERTISE = 0x00"
definition MQTT_SN_TYPE_SEARCHGW :: u8 where "MQTT_SN_TYPE_SEARCHGW = 0x01"
definition MQTT_SN_TYPE_GWINFO :: u8 where "MQTT_SN_TYPE_GWINFO = 0x02"
definition MQTT_SN_TYPE_CONNECT :: u8 where "MQTT_SN_TYPE_CONNECT = 0x04"
definition MQTT_SN_TYPE_CONNACK :: u8 where "MQTT_SN_TYPE_CONNACK = 0x05"
definition MQTT_SN_TYPE_WILLTOPICREQ :: u8 where "MQTT_SN_TYPE_WILLTOPICREQ = 0x06"
definition MQTT_SN_TYPE_WILLTOPIC :: u8 where "MQTT_SN_TYPE_WILLTOPIC = 0x07"
definition MQTT_SN_TYPE_WILLMSGREQ :: u8 where "MQTT_SN_TYPE_WILLMSGREQ = 0x08"
definition MQTT_SN_TYPE_WILLMSG :: u8 where "MQTT_SN_TYPE_WILLMSG = 0x09"
definition MQTT_SN_TYPE_REGISTER :: u8 where "MQTT_SN_TYPE_REGISTER = 0x0A"
definition MQTT_SN_TYPE_REGACK :: u8 where "MQTT_SN_TYPE_REGACK = 0x0B"
definition MQTT_SN_TYPE_PUBLISH :: u8 where "MQTT_SN_TYPE_PUBLISH = 0x0C"
definition MQTT_SN_TYPE_PUBACK :: u8 where "MQTT_SN_TYPE_PUBACK = 0x0D"
definition MQTT_SN_TYPE_PUBCOMP :: u8 where "MQTT_SN_TYPE_PUBCOMP = 0x0E"
definition MQTT_SN_TYPE_PUBREC :: u8 where "MQTT_SN_TYPE_PUBREC = 0x0F"
definition MQTT_SN_TYPE_PUBREL :: u8 where "MQTT_SN_TYPE_PUBREL = 0x10"
definition MQTT_SN_TYPE_SUBSCRIBE :: u8 where "MQTT_SN_TYPE_SUBSCRIBE = 0x12"
definition MQTT_SN_TYPE_SUBACK :: u8 where "MQTT_SN_TYPE_SUBACK = 0x13"
definition MQTT_SN_TYPE_UNSUBSCRIBE :: u8 where "MQTT_SN_TYPE_UNSUBSCRIBE = 0x14"
definition MQTT_SN_TYPE_UNSUBACK :: u8 where "MQTT_SN_TYPE_UNSUBACK = 0x15"
definition MQTT_SN_TYPE_PINGREQ :: u8 where "MQTT_SN_TYPE_PINGREQ = 0x16"
definition MQTT_SN_TYPE_PINGRESP :: u8 where "MQTT_SN_TYPE_PINGRESP = 0x17"
definition MQTT_SN_TYPE_DISCONNECT :: u8 where "MQTT_SN_TYPE_DISCONNECT = 0x18"

definition MQTT_SN_ACCEPTED :: u8 where "MQTT_SN_ACCEPTED = 0x00"
definition MQTT_SN_REJECTED_CONGESTION :: u8 where "MQTT_SN_REJECTED_CONGESTION = 0x01"
definition MQTT_SN_REJECTED_INVALID :: u8 where "MQTT_SN_REJECTED_INVALID = 0x02"

definition MQTT_SN_TOPIC_TYPE_NORMAL :: u8 where "MQTT_SN_TOPIC_TYPE_NORMAL = 0x00"
definition MQTT_SN_TOPIC_TYPE_PREDEFINED :: u8 where "MQTT_SN_TOPIC_TYPE_PREDEFINED = 0x01"

definition MQTT_SN_FLAG_DUP :: u8 where "MQTT_SN_FLAG_DUP = 0x80"
definition MQTT_SN_FLAG_QOS_0 :: u8 where "MQTT_SN_FLAG_QOS_0 = 0x00"
definition MQTT_SN_FLAG_QOS_1 :: u8 where "MQTT_SN_FLAG_QOS_1 = 0x20"
definition MQTT_SN_FLAG_QOS_2 :: u8 where "MQTT_SN_FLAG_QOS_2 = 0x40"
definition MQTT_SN_FLAG_QOS_N1 :: u8 where "MQTT_SN_FLAG_QOS_N1 = 0x60"
definition MQTT_SN_FLAG_RETAIN :: u8 where "MQTT_SN_FLAG_RETAIN = 0x10"
definition MQTT_SN_FLAG_CLEAN :: u8 where "MQTT_SN_FLAG_CLEAN = 0x04"
definition MQTT_SN_PROTOCOL_ID :: u8 where "MQTT_SN_PROTOCOL_ID = 0x01"
definition MQTT_SN_CONNET_FIXLENTH :: nat where "MQTT_SN_CONNET_FIXLENTH = 6"
definition MQTT_SN_REGISTER_FIXLENTH :: nat where "MQTT_SN_REGISTER_FIXLENTH = 6"
definition WEAKUP :: u8 where "WEAKUP = 1"

section \<open>State\<close>

datatype MQTTSNSTATUS_T =
  MQTT_SN_NOTCONNECT | MQTT_SN_CONNECTING | MQTT_SN_CONNECTED | MQTT_SN_DISCONNECTING | MQTT_SN_DISCONNECTED

datatype PACK_PENDING_LIST = REGGISTER | PUBLISH | SUBSCARIBE | UNSUBSCARIBE

text \<open>The functions a timer calls, and the objects their argument points to.\<close>

datatype timer_cb =
    Api_advertise | Api_gwinfo | Api_connack | Api_willtopicreq | Api_willmsgreq | Api_regack
  | Api_puback | Api_pubcomp | Api_pubrec | Api_pubrel | Api_suback | Api_unsuback
  | Api_disconnet | Api_pingres | Api_pingreq | Api_publish
  | Send_connect_cb | Send_register_cb | Pingreq_timeout_cb | Publish_timeout_cb
  | Subscribe_timeout_cb | Subscribe_timeout_id_cb | Cyclic_cb

datatype timer_arg = Arg_client | Arg_gw | Arg_publishinfor | Arg_subscribeInfor

record MQTT_SN_Client_t =
  cyclic_tick :: u32
  keep_alive :: u16
  server_watchdog :: u16
  ping_req_res_lost_num :: u8
  clientID :: "u8 list"
  pkt_id :: u16
  inpub_pkt_id :: "PACK_PENDING_LIST \<Rightarrow> u16"
  MqttSN_Status :: MQTTSNSTATUS_T
  rx_buffer :: Import_buff_t

record MQTT_SN_GWInfor_t =
  gwi_addr :: u32
  gwi_port :: u16

text \<open>\<open>pub_data\<close> is the object \<open>data\<close> points to; \<open>qos\<close> is the value of the \<open>int8_t\<close>.\<close>

record MQTT_SN_pub_infor_t =
  pub_data :: "u8 list"
  pub_data_lenth :: u16
  pub_topic_id :: u16
  pub_topic_type :: u8
  pub_qos :: int
  pub_dup :: int
  pub_retain :: u8

text \<open>\<open>sub_subscri\<close> holds the bytes of the union of a topic name and a topic identifier.\<close>

record MQTT_SN_sub_infor_t =
  sub_subscri :: "u8 list"
  sub_qos :: int
  sub_dup :: int

record dgram =
  dg_ip :: u32
  dg_port :: u16
  dg_data :: "u8 list"

text \<open>
  The fields of \<open>struct udp_pcb\<close> the client uses. \<open>net_out\<close> are the datagrams handed to
  lwIP so far, oldest first; \<open>console\<close> the payloads of received PUBLISH messages printed so
  far. \<open>pbuf_ok\<close> tells whether \<open>pbuf_alloc\<close> finds memory; \<open>uninit\<close> is what an
  uninitialised local array of 255 bytes holds; \<open>xTickCount\<close> is the tick counter of the
  kernel.
\<close>

record udp_pcb =
  remote_ip :: u32
  remote_port :: u16
  local_port :: u16

record sys =
  xTickCount :: u32
  Systime :: "(timer_cb, timer_arg) TIMER"
  BuffBody :: loop_buff_t
  mqtt_sn_client :: MQTT_SN_Client_t
  Sock :: "udp_pcb option"
  GWlist :: MQTT_SN_GwList_t
  gw :: MQTT_SN_GWInfor_t
  publishinfor :: MQTT_SN_pub_infor_t
  subscribeInfor :: MQTT_SN_sub_infor_t
  MY_TopicIDMap :: topic_map_t
  net_out :: "dgram list"
  console :: "u8 list list"
  pbuf_ok :: bool
  uninit :: "u8 list"

section \<open>Bytes and 16-bit members\<close>

definition le16 :: "u8 \<Rightarrow> u8 \<Rightarrow> u16" where
  "le16 lo hi = ucast lo OR push_bit 8 (ucast hi)"

definition le16_bytes :: "u16 \<Rightarrow> u8 list" where
  "le16_bytes x = [ucast x, ucast (drop_bit 8 x)]"

lemma le16_bytes_roundtrip: "le16 (le16_bytes x ! 0) (le16_bytes x ! 1) = x"
  by (rule bit_word_eqI) (auto simp: le16_def le16_bytes_def bit_simps)

lemma length_le16_bytes [simp]: "length (le16_bytes x) = 2"
  by (simp add: le16_bytes_def)

section \<open>Lifting\<close>

abbreviation client_upd :: "(MQTT_SN_Client_t \<Rightarrow> MQTT_SN_Client_t) \<Rightarrow> sys \<Rightarrow> sys" where
  "client_upd f w \<equiv> w\<lparr> mqtt_sn_client := f (mqtt_sn_client w) \<rparr>"

abbreviation Status :: "sys \<Rightarrow> MQTTSNSTATUS_T" where
  "Status w \<equiv> MqttSN_Status (mqtt_sn_client w)"

definition timer_add :: "u8 \<Rightarrow> u32 \<Rightarrow> timer_cb \<Rightarrow> timer_arg option \<Rightarrow> u8 \<Rightarrow> sys \<Rightarrow> sys" where
  "timer_add mode timeout cb a tid w =
     w\<lparr> Systime := snd (TimerAdd mode timeout cb a tid (xTickCount w) (Systime w)) \<rparr>"

definition cancel_timer :: "u8 \<Rightarrow> sys \<Rightarrow> sys" where
  "cancel_timer tid w = w\<lparr> Systime := timer_cancel tid (Systime w) \<rparr>"

definition reload_timer :: "u8 \<Rightarrow> sys \<Rightarrow> sys" where
  "reload_timer tid w =
     (let reloadtimeIndex = (word_of_int (FindTimerIndexbyID tid (Systime w)) :: u8)
      in if reloadtimeIndex \<noteq> 0xFF
         then w\<lparr> Systime := snd (TimerReload reloadtimeIndex (xTickCount w) (Systime w)) \<rparr>
         else w)"

text \<open>\<open>ReadClientImportindex(&mqtt_sn_client)\<close> and \<open>ReadBUFF(inputdata, n)\<close>.\<close>

definition rx_length :: "sys \<Rightarrow> (u8 \<times> sys) outcome" where
  "rx_length w =
     bind_outcome (ReadClientImportindex (rx_buffer (mqtt_sn_client w))) (\<lambda>(n, q).
       Ok (n, client_upd (\<lambda>c. c\<lparr> rx_buffer := q \<rparr>) w))"

definition rx_bytes :: "u8 \<Rightarrow> sys \<Rightarrow> (int \<times> u8 list \<times> sys) outcome" where
  "rx_bytes n w =
     bind_outcome (ReadBUFF (BuffBody w) (Some (uninit w)) (ucast n)) (\<lambda>(e, d, b).
       Ok (e, the d, w\<lparr> BuffBody := b \<rparr>))"

text \<open>
  \<open>SockSendDataStream\<close> and \<open>MQTTSNClientSendData\<close>: a \<open>pbuf\<close> is allocated, pointed at the
  caller's \<open>lenth\<close> bytes, handed to \<open>udp_sendto\<close> or \<open>udp_send\<close> and freed. \<open>udp_send\<close> uses
  the remote address and port stored in the control block. A null \<open>pbuf\<close> is written to.
\<close>

definition SockSendDataStream :: "u32 \<Rightarrow> u16 \<Rightarrow> u8 list \<Rightarrow> nat \<Rightarrow> sys \<Rightarrow> sys outcome" where
  "SockSendDataStream addr port datatosend lenth w =
     (if \<not> pbuf_ok w \<or> Sock w = None then Halt NullDeref
      else if length datatosend < lenth then Halt Overrun
      else Ok (w\<lparr> net_out := net_out w @
             [\<lparr> dg_ip = addr, dg_port = port, dg_data = take lenth datatosend \<rparr>] \<rparr>))"

definition MQTTSNClientSendData :: "u8 list \<Rightarrow> nat \<Rightarrow> sys \<Rightarrow> sys outcome" where
  "MQTTSNClientSendData datatosend lenth w =
     (if \<not> pbuf_ok w then Halt NullDeref
      else case Sock w of
        None \<Rightarrow> Halt NullDeref
      | Some pcb \<Rightarrow>
          if length datatosend < lenth then Halt Overrun
          else Ok (w\<lparr> net_out := net_out w @
                 [\<lparr> dg_ip = remote_ip pcb, dg_port = remote_port pcb,
                    dg_data = take lenth datatosend \<rparr>] \<rparr>))"

text \<open>\<open>htonl\<close> on the little-endian target, and the address built from it.\<close>

definition htonl :: "u32 \<Rightarrow> u32" where
  "htonl n = push_bit 24 (n AND 0xFF) OR push_bit 8 (n AND 0xFF00) OR
             drop_bit 8 (n AND 0xFF0000) OR drop_bit 24 (n AND 0xFF000000)"

definition My_IP4_ADDR :: "u8 \<Rightarrow> u8 \<Rightarrow> u8 \<Rightarrow> u8 \<Rightarrow> u32" where
  "My_IP4_ADDR a b c d =
     htonl (push_bit 24 (ucast a AND 0xFF) OR push_bit 16 (ucast b AND 0xFF) OR
            push_bit 8 (ucast c AND 0xFF) OR (ucast d AND 0xFF))"

end
