(* ===== verification/ClientSend.thy ===== *)
theory ClientSend
  imports ClientState
begin

text \<open>
  The packets the client sends (\<open>mqtt_sn_send_*\<close> of
  \<open>src/user/MQTT_SN_Client/MQTTSNClient.c\<close>) and the retransmission callbacks that send them
  again. Each function builds the packed structure in a local object, hands its first
  \<open>length\<close> bytes to the socket and arms a timer where the source does. A string argument
  is the list of its bytes without the terminating zero.
\<close>

unbundle bit_operations_syntax

section \<open>Packet layouts\<close>

definition connect_packet :: "u8 \<Rightarrow> u8 \<Rightarrow> u8 \<Rightarrow> u8 \<Rightarrow> u16 \<Rightarrow> u8 list \<Rightarrow> u8 list" where
  "connect_packet len ty flags protocol_id duration client_id =
     [len, ty, flags, protocol_id] @ le16_bytes duration @ client_id"

definition register_packet :: "u8 \<Rightarrow> u8 \<Rightarrow> u16 \<Rightarrow> u16 \<Rightarrow> u8 list \<Rightarrow> u8 list" where
  "register_packet len ty tid mid name = [len, ty] @ le16_bytes tid @ le16_bytes mid @ name"

definition publish_packet :: "u8 \<Rightarrow> u8 \<Rightarrow> u8 \<Rightarrow> u16 \<Rightarrow> u16 \<Rightarrow> u8 list \<Rightarrow> u8 list" where
  "publish_packet len ty flags tid mid payload =
     [len, ty, flags] @ le16_bytes tid @ le16_bytes mid @ payload"

definition puback_packet :: "u8 \<Rightarrow> u8 \<Rightarrow> u16 \<Rightarrow> u16 \<Rightarrow> u8 \<Rightarrow> u8 list" where
  "puback_packet len ty tid mid rc = [len, ty] @ le16_bytes tid @ le16_bytes mid @ [rc]"

definition subscribe_packet :: "u8 \<Rightarrow> u8 \<Rightarrow> u8 \<Rightarrow> u16 \<Rightarrow> u8 list \<Rightarrow> u8 list" where
  "subscribe_packet len ty flags mid topic_id_name =
     [len, ty, flags] @ le16_bytes mid @ topic_id_name"

definition disconnect_packet :: "u8 \<Rightarrow> u8 \<Rightarrow> u16 \<Rightarrow> u8 list" where
  "disconnect_packet len ty duration = [len, ty] @ le16_bytes duration"

text \<open>The chain of tests that turns a quality of service into flag bits.\<close>

definition qos_flags :: "int \<Rightarrow> u8" where
  "qos_flags qos =
     (if qos = 0 then MQTT_SN_FLAG_QOS_0
      else if qos = 1 then MQTT_SN_FLAG_QOS_1
      else if qos = 2 then MQTT_SN_FLAG_QOS_2
      else MQTT_SN_FLAG_QOS_N1)"

section \<open>Connection\<close>

definition mqtt_sn_getgateway_info :: "u16 \<Rightarrow> sys \<Rightarrow> sys outcome" where
  "mqtt_sn_getgateway_info port w =
     SockSendDataStream (My_IP4_ADDR 255 255 255 255) port [0x02, 0x01, 0x00] 3 w"

definition mqtt_sn_send_connect :: "u8 list \<Rightarrow> u16 \<Rightarrow> u8 \<Rightarrow> sys \<Rightarrow> sys outcome" where
  "mqtt_sn_send_connect client_id keepalive flags w =
     (let w1 = client_upd (\<lambda>c. c\<lparr> keep_alive := keepalive, server_watchdog := keepalive \<rparr>) w in
      bind_outcome (memcpy (clientID (mqtt_sn_client w1)) 0 (client_id @ [0]) 0 (length client_id + 1)) (\<lambda>cid.
      let w2 = client_upd (\<lambda>c. c\<lparr> clientID := cid \<rparr>) w1 in
      bind_outcome (memcpy (replicate MQTT_SN_MAX_CLIENT_ID_LENGTH 0) 0 client_id 0 (length client_id)) (\<lambda>a.
      let len = word_of_nat (length client_id + MQTT_SN_CONNET_FIXLENTH) :: u8;
          ConnetMssage = connect_packet len MQTT_SN_TYPE_CONNECT (0 OR flags) MQTT_SN_PROTOCOL_ID keepalive a;
          testaddr = My_IP4_ADDR 192 168 45 119
      in if uint (gwListAvalidNum (GWlist w2)) \<ge> 0 then
           bind_outcome (SockSendDataStream testaddr 10000 ConnetMssage (unat len) w2) (\<lambda>w3.
             Ok (timer_add TIMER_MODE_SINGLE 4000 Send_connect_cb (Some Arg_client) TIMER_ID_OF_CONNCET
                  (client_upd (\<lambda>c. c\<lparr> MqttSN_Status := MQTT_SN_CONNECTING \<rparr>) w3)))
         else mqtt_sn_getgateway_info 10000 w2)))"

text \<open>\<open>flag\<close> is read before it is written: its other bits are whatever the stack held.\<close>

definition mqtt_sn_send_connect_cb :: "timer_arg option \<Rightarrow> sys \<Rightarrow> sys outcome" where
  "mqtt_sn_send_connect_cb a w =
     (if a \<noteq> Some Arg_client then Halt Confused
      else let flag = uninit w ! 0 OR MQTT_SN_FLAG_CLEAN in
        if Status w = MQTT_SN_CONNECTED then Ok w
        else mqtt_sn_send_connect (bytes_of ''lwip_test'') 60 flag w)"

definition mqtt_sn_send_disconnect :: "u16 \<Rightarrow> sys \<Rightarrow> sys outcome" where
  "mqtt_sn_send_disconnect duration w =
     bind_outcome (MQTTSNClientSendData (disconnect_packet 4 MQTT_SN_TYPE_DISCONNECT duration) 4 w) (\<lambda>w1.
       Ok (client_upd (\<lambda>c. c\<lparr> MqttSN_Status := MQTT_SN_DISCONNECTING \<rparr>) w1))"

definition mqtt_sn_send_disconnect_topic_id :: "u16 \<Rightarrow> sys \<Rightarrow> sys outcome" where
  "mqtt_sn_send_disconnect_topic_id duration w =
     (let len = (if duration \<noteq> 0 then 4 else 2) :: u8
      in MQTTSNClientSendData (disconnect_packet len MQTT_SN_TYPE_DISCONNECT duration) (unat len) w)"

section \<open>Keep-alive\<close>

definition mqtt_sn_send_pingreq :: "u8 \<Rightarrow> sys \<Rightarrow> sys outcome" where
  "mqtt_sn_send_pingreq mode w =
     (let pingreq = 0x00 # MQTT_SN_TYPE_PINGREQ # replicate 38 0;
          cid = clientID (mqtt_sn_client w)
      in bind_outcome
           (if mode = WEAKUP then
              if 0 \<notin> set cid then Halt Overrun
              else bind_outcome (memcpy pingreq 2 cid 0 (length (c_string cid))) (\<lambda>p.
                Ok (p[0 := 2 + word_of_nat (length (c_string cid))]))
            else Ok (pingreq[0 := 2])) (\<lambda>p.
         bind_outcome (MQTTSNClientSendData p (unat (p ! 0)) w) (\<lambda>w1.
           Ok (timer_add TIMER_MODE_SINGLE 10000 Pingreq_timeout_cb (Some Arg_client) TIMER_ID_OF_PINGREQ w1))))"

definition mqtt_sn_client_pingreq_timeout_cb :: "timer_arg option \<Rightarrow> sys \<Rightarrow> sys outcome" where
  "mqtt_sn_client_pingreq_timeout_cb a w =
     (if a \<noteq> Some Arg_client then Halt Confused
      else
        let w1 = client_upd (\<lambda>c. c\<lparr> ping_req_res_lost_num := ping_req_res_lost_num c + 1 \<rparr>) w
        in if ping_req_res_lost_num (mqtt_sn_client w1) \<le> MQTT_SN_CILENT_NADV
           then mqtt_sn_send_pingreq WEAKUP w1
           else mqtt_sn_send_disconnect 0 w1)"

section \<open>Will\<close>

definition mqtt_sn_send_willtopic :: "u8 list \<Rightarrow> sys \<Rightarrow> sys outcome" where
  "mqtt_sn_send_willtopic name w =
     (let willtopic = (0x00 # MQTT_SN_TYPE_WILLTOPIC # replicate 28 0)[0 := 3 + word_of_nat (length name)]
      in bind_outcome (memcpy willtopic 3 name 0 (length name)) (\<lambda>p.
           MQTTSNClientSendData p (unat (p ! 0)) w))"

definition mqtt_sn_send_willMSG :: "u8 list \<Rightarrow> sys \<Rightarrow> sys outcome" where
  "mqtt_sn_send_willMSG name w =
     (let willtopic = (0x00 # MQTT_SN_TYPE_WILLMSG # replicate 28 0)[0 := 2 + word_of_nat (length name)]
      in bind_outcome (memcpy willtopic 2 name 0 (length name)) (\<lambda>p.
           MQTTSNClientSendData p (unat (p ! 0)) w))"

section \<open>Message identifiers\<close>

text \<open>\<open>message_id = pkt_id++\<close> and its copy into the table of pending requests.\<close>

definition next_pkt_id :: "PACK_PENDING_LIST \<Rightarrow> sys \<Rightarrow> u16 \<times> sys" where
  "next_pkt_id k w =
     (let mid = pkt_id (mqtt_sn_client w)
      in (mid, client_upd (\<lambda>c. c\<lparr> pkt_id := pkt_id c + 1, inpub_pkt_id := (inpub_pkt_id c)(k := mid) \<rparr>) w))"

section \<open>Registration\<close>

definition mqtt_sn_send_register :: "u8 list \<Rightarrow> sys \<Rightarrow> sys outcome" where
  "mqtt_sn_send_register name w =
     (let len = word_of_nat (length name + MQTT_SN_REGISTER_FIXLENTH) :: u8;
          (mid, w1) = next_pkt_id REGGISTER w
      in bind_outcome (memcpy (replicate MQTT_SN_MAX_TOPIC_LENGTH 0) 0 name 0 (length name)) (\<lambda>a.
         bind_outcome (MQTTSNClientSendData (register_packet len MQTT_SN_TYPE_REGISTER 0 mid a) (unat len) w1) (\<lambda>w2.
           Ok (timer_add TIMER_MODE_SINGLE 10000 Send_register_cb (Some Arg_client) TIMER_ID_OF_REGISTER w2))))"

fun send_register_loop :: "nat list \<Rightarrow> sys \<Rightarrow> sys outcome" where
  "send_register_loop [] w = Ok w"
| "send_register_loop (i # is) w =
     bind_outcome (if status (toppiclist (MY_TopicIDMap w) ! i) = registering
                   then mqtt_sn_send_register (topiclist ! i) w else Ok w)
       (send_register_loop is)"

definition mqtt_sn_send_register_cb :: "timer_arg option \<Rightarrow> sys \<Rightarrow> sys outcome" where
  "mqtt_sn_send_register_cb a w =
     (if a \<noteq> Some Arg_client then Halt Confused
      else send_register_loop [0..<MQTT_SN_CLIENT_LIST_MAX] w)"

section \<open>Publication\<close>

definition mqtt_sn_send_publishack :: "u16 \<Rightarrow> u16 \<Rightarrow> u8 \<Rightarrow> sys \<Rightarrow> sys outcome" where
  "mqtt_sn_send_publishack message_id tid return_code w =
     MQTTSNClientSendData (puback_packet 7 MQTT_SN_TYPE_SUBACK tid message_id return_code) 7 w"

definition mqtt_sn_send_publish ::
  "u16 \<Rightarrow> u8 \<Rightarrow> u8 list \<Rightarrow> u16 \<Rightarrow> int \<Rightarrow> u8 \<Rightarrow> u8 \<Rightarrow> sys \<Rightarrow> sys outcome" where
  "mqtt_sn_send_publish tid topic_type data data_len qos retain DUP w =
     bind_outcome (memcpy (replicate MQTT_SN_MAX_PAYLOAD_LENGTH 0) 0 data 0 (unat data_len)) (\<lambda>a.
     let len = word_of_nat (unat data_len + 7) :: u8;
         (mid, w1) = next_pkt_id PUBLISH w;
         flags = ((qos_flags qos OR (if retain \<noteq> 0 then MQTT_SN_FLAG_RETAIN else 0))
                  OR (if DUP \<noteq> 0 then MQTT_SN_FLAG_DUP else 0)) OR topic_type
     in bind_outcome (MQTTSNClientSendData
            (publish_packet len MQTT_SN_TYPE_PUBLISH flags tid mid a) (unat len) w1) (\<lambda>w2.
          if qos = 1 then
            Ok (timer_add TIMER_MODE_SINGLE 10000 Publish_timeout_cb (Some Arg_publishinfor) TIMER_ID_OF_PUBLISH
                 (w2\<lparr> publishinfor := (publishinfor w2)\<lparr> pub_data := data, pub_data_lenth := data_len,
                       pub_qos := qos, pub_dup := 1, pub_retain := retain, pub_topic_id := tid \<rparr> \<rparr>))
          else Ok w2))"

definition mqtt_sn_client_publish_timeout_cb :: "timer_arg option \<Rightarrow> sys \<Rightarrow> sys outcome" where
  "mqtt_sn_client_publish_timeout_cb a w =
     (if a \<noteq> Some Arg_publishinfor then Halt Confused
      else let p = publishinfor w in
        mqtt_sn_send_publish (pub_topic_id p) (pub_topic_type p) (pub_data p) (pub_data_lenth p)
          (pub_qos p) (pub_retain p) (word_of_int (pub_dup p)) w)"

section \<open>Subscription\<close>

definition mqtt_sn_send_subscribe_topic_name :: "u8 list \<Rightarrow> int \<Rightarrow> u8 \<Rightarrow> sys \<Rightarrow> sys outcome" where
  "mqtt_sn_send_subscribe_topic_name name qos dup w =
     bind_outcome (memcpy (replicate MQTT_SN_MAX_TOPIC_LENGTH 0) 0 name 0 (length name)) (\<lambda>a.
     let (mid, w1) = next_pkt_id SUBSCARIBE w;
         len = word_of_nat (length name + 5) :: u8;
         flags = (MQTT_SN_TOPIC_TYPE_NORMAL OR qos_flags qos) OR (if dup \<noteq> 0 then MQTT_SN_FLAG_DUP else 0)
     in bind_outcome (MQTTSNClientSendData
            (subscribe_packet len MQTT_SN_TYPE_SUBSCRIBE flags mid a) (unat len) w1) (\<lambda>w2.
          if qos = 1 then
            bind_outcome (memcpy (sub_subscri (subscribeInfor w2)) 0 (name @ [0]) 0 (length name + 1)) (\<lambda>u.
              Ok (timer_add TIMER_MODE_SINGLE 10000 Subscribe_timeout_cb (Some Arg_subscribeInfor) TIMER_ID_OF_PUBLISH
                   (w2\<lparr> subscribeInfor := \<lparr> sub_subscri = u, sub_qos = qos, sub_dup = 1 \<rparr> \<rparr>)))
          else Ok w2))"

definition mqtt_sn_client_subscribe_timeout_cb :: "timer_arg option \<Rightarrow> sys \<Rightarrow> sys outcome" where
  "mqtt_sn_client_subscribe_timeout_cb a w =
     (if a \<noteq> Some Arg_subscribeInfor then Halt Confused
      else let s = subscribeInfor w in
        if 0 \<notin> set (sub_subscri s) then Halt Overrun
        else mqtt_sn_send_subscribe_topic_name (c_string (sub_subscri s)) (sub_qos s) (word_of_int (sub_dup s)) w)"

definition mqtt_sn_send_subscribe_topic_id :: "u16 \<Rightarrow> int \<Rightarrow> u8 \<Rightarrow> sys \<Rightarrow> sys outcome" where
  "mqtt_sn_send_subscribe_topic_id tid qos dup w =
     (let (mid, w1) = next_pkt_id SUBSCARIBE w;
          flags = (MQTT_SN_TOPIC_TYPE_PREDEFINED OR qos_flags qos) OR (if dup \<noteq> 0 then MQTT_SN_FLAG_DUP else 0)
      in bind_outcome (MQTTSNClientSendData
            (subscribe_packet 7 MQTT_SN_TYPE_SUBSCRIBE flags mid
              (le16_bytes tid @ replicate (MQTT_SN_MAX_TOPIC_LENGTH - 2) 0)) 7 w1) (\<lambda>w2.
          if qos = 1 then
            bind_outcome (memcpy (sub_subscri (subscribeInfor w2)) 0 (le16_bytes tid) 0 2) (\<lambda>u.
              Ok (timer_add TIMER_MODE_SINGLE 10000 Subscribe_timeout_id_cb (Some Arg_subscribeInfor) TIMER_ID_OF_PUBLISH
                   (w2\<lparr> subscribeInfor := \<lparr> sub_subscri = u, sub_qos = qos, sub_dup = 1 \<rparr> \<rparr>)))
          else Ok w2))"

definition mqtt_sn_client_subscribe_timeout_id_cb :: "timer_arg option \<Rightarrow> sys \<Rightarrow> sys outcome" where
  "mqtt_sn_client_subscribe_timeout_id_cb a w =
     (if a \<noteq> Some Arg_subscribeInfor then Halt Confused
      else let s = subscribeInfor w in
        if length (sub_subscri s) < 2 then Halt Overrun
        else mqtt_sn_send_subscribe_topic_id (le16 (sub_subscri s ! 0) (sub_subscri s ! 1))
               (sub_qos s) (word_of_int (sub_dup s)) w)"

definition mqtt_sn_send_unsubscribe_topic_name :: "u8 list \<Rightarrow> sys \<Rightarrow> sys outcome" where
  "mqtt_sn_send_unsubscribe_topic_name name w =
     bind_outcome (memcpy (replicate MQTT_SN_MAX_TOPIC_LENGTH 0) 0 name 0 (length name)) (\<lambda>a.
     let (mid, w1) = next_pkt_id UNSUBSCARIBE w;
         len = word_of_nat (length name + 5) :: u8
     in MQTTSNClientSendData
          (subscribe_packet len MQTT_SN_TYPE_UNSUBSCRIBE MQTT_SN_TOPIC_TYPE_NORMAL mid a) (unat len) w1)"

definition mqtt_sn_send_unsubscribe_topic_id :: "u16 \<Rightarrow> sys \<Rightarrow> sys outcome" where
  "mqtt_sn_send_unsubscribe_topic_id tid w =
     (let (mid, w1) = next_pkt_id UNSUBSCARIBE w
      in MQTTSNClientSendData
           (subscribe_packet 7 MQTT_SN_TYPE_UNSUBSCRIBE MQTT_SN_TOPIC_TYPE_PREDEFINED mid
             (le16_bytes tid @ replicate (MQTT_SN_MAX_TOPIC_LENGTH - 2) 0)) 7 w1)"

end
