(* ===== verification/ClientHandlers.thy ===== *)
theory ClientHandlers
  imports ClientSend
begin

text \<open>
  The handlers of received messages (\<open>api_*_press\<close> of
  \<open>src/user/MQTT_SN_Client/MQTTSNClient.c\<close>). A handler runs from a timer 100 ms after its
  frame arrived: it takes the next length from the length queue and that many bytes from the
  byte buffer. \<open>DEBUG_CELIENT\<close> is defined in the source, so a frame whose first byte is not
  its length makes the handler spin.
\<close>

unbundle bit_operations_syntax

text \<open>
  The frame every handler starts from. \<open>pre\<close> is what a handler does between reading the
  length and reading the bytes (cancelling or reloading the connect timer); \<open>also_if\<close> is the
  further condition of \<open>api_connack_press\<close> on the length; \<open>body\<close> works on the 255-byte array
  \<open>inputdata\<close>.
\<close>

definition with_frame ::
  "(sys \<Rightarrow> sys) \<Rightarrow> (u8 \<Rightarrow> bool) \<Rightarrow> (u8 list \<Rightarrow> sys \<Rightarrow> sys outcome) \<Rightarrow> sys \<Rightarrow> sys outcome" where
  "with_frame pre also_if body w =
     bind_outcome (rx_length w) (\<lambda>(freamlenth, w1).
     let w2 = pre w1 in
     if unat freamlenth \<le> MQTT_SN_MAX_PACKET_LENGTH then
       bind_outcome (rx_bytes freamlenth w2) (\<lambda>(e, inputdata, w3).
         if e = ERROR_NONE \<and> also_if freamlenth then
           if inputdata ! 0 = freamlenth then body inputdata w3
           else Halt Spin
         else Ok w3)
     else Ok w2)"

abbreviation on_frame :: "(u8 list \<Rightarrow> sys \<Rightarrow> sys outcome) \<Rightarrow> sys \<Rightarrow> sys outcome" where
  "on_frame \<equiv> with_frame (\<lambda>w. w) (\<lambda>_. True)"

text \<open>\<open>gwListappend(&GWlist, ...)\<close> with the address and port \<open>arg\<close> points to.\<close>

definition append_gateway :: "timer_arg option \<Rightarrow> u8 \<Rightarrow> u16 \<Rightarrow> sys \<Rightarrow> sys outcome" where
  "append_gateway a gwid keepalive w =
     (if a \<noteq> Some Arg_gw then Halt Confused
      else bind_outcome (gwListappend (GWlist w) (gwi_addr (gw w)) (gwi_port (gw w)) gwid keepalive
                          (cyclic_tick (mqtt_sn_client w))) (\<lambda>(_, G).
        Ok (w\<lparr> GWlist := G \<rparr>)))"

definition api_gwinfo_press :: "timer_arg option \<Rightarrow> sys \<Rightarrow> sys outcome" where
  "api_gwinfo_press a = on_frame (\<lambda>inputdata w.
     if inputdata ! 1 = MQTT_SN_TYPE_SEARCHGW then append_gateway a (inputdata ! 2) 900 w
     else Ok w)"

definition api_advertise_press :: "timer_arg option \<Rightarrow> sys \<Rightarrow> sys outcome" where
  "api_advertise_press a = on_frame (\<lambda>inputdata w.
     if inputdata ! 1 = MQTT_SN_TYPE_ADVERTISE then
       let keepalive = (ucast (inputdata ! 3) :: u16);
           keepalive = drop_bit 8 keepalive;
           keepalive = keepalive OR ucast (inputdata ! 4)
       in append_gateway a (inputdata ! 2) keepalive w
     else Ok w)"

definition api_connack_press :: "sys \<Rightarrow> sys outcome" where
  "api_connack_press = with_frame (cancel_timer TIMER_ID_OF_CONNCET) (\<lambda>n. n = 3) (\<lambda>inputdata w.
     if inputdata ! 1 = MQTT_SN_TYPE_CONNACK \<and> inputdata ! 2 = 0x00 \<and> Status w = MQTT_SN_CONNECTING then
       mqtt_sn_getgateway_info 10000 (client_upd (\<lambda>c. c\<lparr> MqttSN_Status := MQTT_SN_CONNECTED \<rparr>) w)
     else Ok w)"

definition api_willtopicreq_press :: "sys \<Rightarrow> sys outcome" where
  "api_willtopicreq_press = with_frame (reload_timer TIMER_ID_OF_CONNCET) (\<lambda>_. True) (\<lambda>inputdata w.
     if inputdata ! 1 = MQTT_SN_TYPE_WILLTOPICREQ \<and> Status w = MQTT_SN_CONNECTING then
       mqtt_sn_send_willtopic (bytes_of ''lwip_test'') w
     else Ok w)"

definition api_willmsgreq :: "sys \<Rightarrow> sys outcome" where
  "api_willmsgreq = with_frame (reload_timer TIMER_ID_OF_CONNCET) (\<lambda>_. True) (\<lambda>inputdata w.
     if inputdata ! 1 = MQTT_SN_TYPE_WILLMSGREQ \<and> Status w = MQTT_SN_CONNECTING then
       mqtt_sn_send_willMSG (bytes_of ''lwip_test'') w
     else Ok w)"

definition api_pingres_press :: "sys \<Rightarrow> sys outcome" where
  "api_pingres_press = on_frame (\<lambda>inputdata w.
     if inputdata ! 1 = MQTT_SN_TYPE_PINGRESP \<and> Status w = MQTT_SN_CONNECTED then
       Ok (cancel_timer TIMER_ID_OF_PINGREQ
            (client_upd (\<lambda>c. c\<lparr> server_watchdog := keep_alive c, ping_req_res_lost_num := 0 \<rparr>) w))
     else Ok w)"

definition api_pingreq_press :: "sys \<Rightarrow> sys outcome" where
  "api_pingreq_press = on_frame (\<lambda>inputdata w.
     if inputdata ! 1 = MQTT_SN_TYPE_PINGREQ \<and> Status w = MQTT_SN_CONNECTED then
       MQTTSNClientSendData [2, MQTT_SN_TYPE_PINGRESP] 2 w
     else Ok w)"

definition api_regack_press :: "sys \<Rightarrow> sys outcome" where
  "api_regack_press = on_frame (\<lambda>inputdata w.
     if inputdata ! 1 = MQTT_SN_TYPE_REGACK \<and> Status w = MQTT_SN_CONNECTED \<and>
        le16 (inputdata ! 4) (inputdata ! 5) = inpub_pkt_id (mqtt_sn_client w) REGGISTER then
       let w1 = cancel_timer TIMER_ID_OF_REGISTER w;
           return_code = inputdata ! 6
       in if return_code = MQTT_SN_ACCEPTED then
            Ok (w1\<lparr> MY_TopicIDMap := snd (TopicidRegistered (le16 (inputdata ! 2) (inputdata ! 3)) (MY_TopicIDMap w1)) \<rparr>)
          else if return_code = MQTT_SN_REJECTED_CONGESTION then
            Ok (timer_add TIMER_MODE_SINGLE (5*60*1000) Send_register_cb (Some Arg_client) TIMER_ID_OF_REGISTER w1)
          else
            Ok (timer_add TIMER_MODE_SINGLE (60*1000) Send_register_cb (Some Arg_client) TIMER_ID_OF_REGISTER w1)
     else Ok w)"

definition api_puback_press :: "sys \<Rightarrow> sys outcome" where
  "api_puback_press = on_frame (\<lambda>inputdata w.
     if inputdata ! 1 = MQTT_SN_TYPE_PUBACK \<and> Status w = MQTT_SN_CONNECTED \<and>
        le16 (inputdata ! 4) (inputdata ! 5) = inpub_pkt_id (mqtt_sn_client w) PUBLISH then
       let w1 = client_upd (\<lambda>c. c\<lparr> inpub_pkt_id := (inpub_pkt_id c)(PUBLISH := 0) \<rparr>) w;
           w2 = cancel_timer TIMER_ID_OF_PUBLISH w1;
           return_code = inputdata ! 6
       in if return_code = MQTT_SN_ACCEPTED then Ok w2
          else if return_code = MQTT_SN_REJECTED_CONGESTION then
            Ok (timer_add TIMER_MODE_SINGLE (5*60*1000) Publish_timeout_cb (Some Arg_client) TIMER_ID_OF_PUBLISH w2)
          else if return_code = MQTT_SN_REJECTED_INVALID then
            Ok (w2\<lparr> MY_TopicIDMap := snd (TopicidUnregister (le16 (inputdata ! 2) (inputdata ! 3)) (MY_TopicIDMap w2)) \<rparr>)
          else Ok w2
     else Ok w)"

text \<open>The loop that prints the payload runs for \<open>length - 7\<close> bytes, none if that is negative.\<close>

definition api_publish_press :: "sys \<Rightarrow> sys outcome" where
  "api_publish_press = on_frame (\<lambda>inputdata w.
     if inputdata ! 1 = MQTT_SN_TYPE_PUBLISH then
       bind_outcome
         (if inputdata ! 2 AND MQTT_SN_FLAG_QOS_1 \<noteq> 0 then
            mqtt_sn_send_publishack (le16 (inputdata ! 5) (inputdata ! 6)) (le16 (inputdata ! 3) (inputdata ! 4)) 0 w
          else Ok w) (\<lambda>w1.
         Ok (w1\<lparr> console := console w1 @ [take (unat (inputdata ! 0) - 7) (drop 7 inputdata)] \<rparr>))
     else Ok w)"

definition api_pubcomp_press :: "sys \<Rightarrow> sys outcome" where "api_pubcomp_press w = Ok w"
definition api_pubrec_press :: "sys \<Rightarrow> sys outcome" where "api_pubrec_press w = Ok w"
definition api_pubrel_press :: "sys \<Rightarrow> sys outcome" where "api_pubrel_press w = Ok w"

definition api_suback_press :: "sys \<Rightarrow> sys outcome" where
  "api_suback_press = on_frame (\<lambda>inputdata w.
     if inputdata ! 1 = MQTT_SN_TYPE_SUBACK \<and>
        le16 (inputdata ! 5) (inputdata ! 6) = inpub_pkt_id (mqtt_sn_client w) SUBSCARIBE then
       Ok (cancel_timer TIMER_ID_OF_SUBSCRIBE w)
     else Ok w)"

text \<open>An accepted UNSUBACK is only printed: nothing changes whether or not it matches.\<close>

definition api_unsuback_press :: "sys \<Rightarrow> sys outcome" where
  "api_unsuback_press = on_frame (\<lambda>inputdata w. Ok w)"

definition api_disconnet_press :: "sys \<Rightarrow> sys outcome" where
  "api_disconnet_press = on_frame (\<lambda>inputdata w.
     if inputdata ! 1 = MQTT_SN_TYPE_DISCONNECT then
       Ok (client_upd (\<lambda>c. c\<lparr> MqttSN_Status := MQTT_SN_NOTCONNECT \<rparr>) (cancel_timer TIMER_ID_OF_DISCONNCET w))
     else Ok w)"

section \<open>Reception\<close>

definition g_api_table :: "(u8 \<times> timer_cb) list" where
  "g_api_table =
    [(MQTT_SN_TYPE_ADVERTISE,    Api_advertise),
     (MQTT_SN_TYPE_GWINFO,       Api_gwinfo),
     (MQTT_SN_TYPE_CONNACK,      Api_connack),
     (MQTT_SN_TYPE_WILLTOPICREQ, Api_willtopicreq),
     (MQTT_SN_TYPE_WILLMSGREQ,   Api_willmsgreq),
     (MQTT_SN_TYPE_REGACK,       Api_regack),
     (MQTT_SN_TYPE_PUBACK,       Api_puback),
     (MQTT_SN_TYPE_PUBCOMP,      Api_pubcomp),
     (MQTT_SN_TYPE_PUBREC,       Api_pubrec),
     (MQTT_SN_TYPE_PUBREL,       Api_pubrel),
     (MQTT_SN_TYPE_SUBACK,       Api_suback),
     (MQTT_SN_TYPE_UNSUBACK,     Api_unsuback),
     (MQTT_SN_TYPE_DISCONNECT,   Api_disconnet),
     (MQTT_SN_TYPE_PINGRESP,     Api_pingres),
     (MQTT_SN_TYPE_PINGREQ,      Api_pingreq),
     (MQTT_SN_TYPE_PUBLISH,      Api_publish)]"

definition getAPIFUN :: "u8 \<Rightarrow> timer_cb option" where
  "getAPIFUN cmd = map_option snd (find (\<lambda>(c, f). c = cmd) g_api_table)"

definition mqtt_sn_socket_incomm_cb :: "u32 \<Rightarrow> u16 \<Rightarrow> u8 \<Rightarrow> sys \<Rightarrow> sys outcome" where
  "mqtt_sn_socket_incomm_cb addr port cmd w =
     (let w1 = w\<lparr> gw := \<lparr> gwi_addr = addr, gwi_port = port \<rparr> \<rparr> in
      case getAPIFUN cmd of
        Some cb \<Rightarrow> Ok (timer_add TIMER_MODE_SINGLE 100 cb (Some Arg_gw) 0 w1)
      | None \<Rightarrow>
          bind_outcome (rx_length w1) (\<lambda>(n, w2).
          bind_outcome (rx_bytes n w2) (\<lambda>(_, _, w3). Ok w3)))"

definition CmdConfirm :: "u8 \<Rightarrow> u8" where
  "CmdConfirm cmd =
     (if 0x00 \<le> cmd \<and> cmd \<le> 0x1D then
        if cmd \<noteq> 0x03 \<and> cmd \<noteq> 0x11 \<and> cmd \<noteq> 0x19 then 0 else 1
      else 1)"

text \<open>
  \<open>p\<close> is the datagram's payload, in one \<open>pbuf\<close>: \<open>tot_len\<close> is its length. The length
  passed to \<open>WriteClientImportindex\<close> is converted to \<open>uint8_t\<close>.
\<close>

definition UdpServer_recv_cb :: "u8 list \<Rightarrow> u32 \<Rightarrow> u16 \<Rightarrow> sys \<Rightarrow> sys outcome" where
  "UdpServer_recv_cb p addr port w =
     (case Sock w of
        None \<Rightarrow> Halt NullDeref
      | Some pcb \<Rightarrow>
          let w1 = w\<lparr> Sock := Some (pcb\<lparr> remote_port := port, remote_ip := addr \<rparr>) \<rparr>;
              tot_len = (word_of_nat (length p) :: u16)
          in if p = [] then Halt Overrun
          else let k = (if p ! 0 = 0x01 then 3 else 1) in
            if length p \<le> k then Halt Overrun
            else let cmd = p ! k in
              if CmdConfirm cmd \<noteq> 0 then Ok w1
              else
                let q = rx_buffer (mqtt_sn_client w1) in
                if GetSpaceofpktinput (uint (i_w_ptr q)) (uint (i_r_ptr q)) (i_ring q) \<noteq> 0 \<and>
                   BuffSpaceget (BuffBody w1) > tot_len then
                  bind_outcome (WriteClientImportindex q (ucast tot_len)) (\<lambda>(e, q').
                    let w2 = client_upd (\<lambda>c. c\<lparr> rx_buffer := q' \<rparr>) w1 in
                    if e = 0 then
                      bind_outcome (WriteBUFF (BuffBody w2) (Some p) tot_len) (\<lambda>(e', b).
                        let w3 = w2\<lparr> BuffBody := b \<rparr>
                        in if e' = 0 then mqtt_sn_socket_incomm_cb addr port cmd w3 else Ok w3)
                    else Ok w2)
                else Ok w1)"

end
