(* ===== verification/TimerCheck.thy ===== *)
theory TimerCheck
  imports Timers
begin

text \<open>
  The polling loop \<open>TimerCheck\<close> of \<open>src/user/MQTT_SN_Client/MQTTSNTimes.c\<close>. A callback
  reached through a function pointer works on the whole program state, so the loop is
  defined over a state of any type, with the access to \<open>Systime\<close>, to the kernel's tick
  counter and the call of a callback as arguments. The locale \<open>timer_host\<close> is the contract
  between the loop and its host program: the host's callbacks keep an invariant of the host
  that includes \<open>timers_inv\<close>. The loop's lemmas are proved once inside it.
\<close>

text \<open>One iteration, for slot \<open>num\<close>.\<close>

definition TimerCheck_slot ::
  "('w \<Rightarrow> ('c, 'a) TIMER) \<Rightarrow> (('c, 'a) TIMER \<Rightarrow> 'w \<Rightarrow> 'w) \<Rightarrow> ('w \<Rightarrow> u32) \<Rightarrow>
   ('c \<Rightarrow> 'a option \<Rightarrow> 'w \<Rightarrow> 'w outcome) \<Rightarrow> u32 \<Rightarrow> nat \<Rightarrow> 'w \<Rightarrow> 'w outcome" where
  "TimerCheck_slot get put tick run nowtimetick num w =
     (let t = TIMER_T (get w) ! num in
      if Runing t = TIMER_STATUS_RUNING \<and> IS_TIME_OUT (PrevTick t) nowtimetick (TimeOut t) then
        (case timer_callback t of
           None \<Rightarrow> Halt NullDeref
         | Some cb \<Rightarrow>
             bind_outcome (run cb (arg t) w) (\<lambda>w1.
               if loop (TIMER_T (get w1) ! num) = 1 then
                 Ok (put (snd (TimerReload (word_of_nat num) (tick w1) (get w1))) w1)
               else
                 Ok (put (snd (TimerDel (word_of_nat num)
                           (snd (TimerStop (word_of_nat num) (get w1))))) w1)))
      else Ok w)"

fun TimerCheck_loop ::
  "('w \<Rightarrow> ('c, 'a) TIMER) \<Rightarrow> (('c, 'a) TIMER \<Rightarrow> 'w \<Rightarrow> 'w) \<Rightarrow> ('w \<Rightarrow> u32) \<Rightarrow>
   ('c \<Rightarrow> 'a option \<Rightarrow> 'w \<Rightarrow> 'w outcome) \<Rightarrow> u32 \<Rightarrow> nat list \<Rightarrow> 'w \<Rightarrow> 'w outcome" where
  "TimerCheck_loop get put tick run now [] w = Ok w"
| "TimerCheck_loop get put tick run now (n # ns) w =
     bind_outcome (TimerCheck_slot get put tick run now n w) (TimerCheck_loop get put tick run now ns)"

definition TimerCheck ::
  "('w \<Rightarrow> ('c, 'a) TIMER) \<Rightarrow> (('c, 'a) TIMER \<Rightarrow> 'w \<Rightarrow> 'w) \<Rightarrow> ('w \<Rightarrow> u32) \<Rightarrow>
   ('c \<Rightarrow> 'a option \<Rightarrow> 'w \<Rightarrow> 'w outcome) \<Rightarrow> u32 \<Rightarrow> 'w \<Rightarrow> 'w outcome" where
  "TimerCheck get put tick run nowtimetick w =
     TimerCheck_loop get put tick run nowtimetick [0..<MAX_TIMER_NUM] w"

text \<open>
  Laws of the host. \<open>inv\<close> is its invariant; \<open>fault\<close> are the ways a callback may fail from a
  state that satisfies it.
\<close>

locale timer_host =
  fixes get :: "'w \<Rightarrow> ('c, 'a) TIMER"
    and put :: "('c, 'a) TIMER \<Rightarrow> 'w \<Rightarrow> 'w"
    and tick :: "'w \<Rightarrow> u32"
    and run :: "'c \<Rightarrow> 'a option \<Rightarrow> 'w \<Rightarrow> 'w outcome"
    and inv :: "'w \<Rightarrow> bool"
    and fault :: "halt \<Rightarrow> bool"
  assumes inv_timers: "inv w \<Longrightarrow> timers_inv (get w)"
    and inv_stop: "inv w \<Longrightarrow> inv (put (snd (TimerStop i (get w))) w)"
    and inv_del: "inv w \<Longrightarrow> inv (put (snd (TimerDel i (get w))) w)"
    and inv_reload: "inv w \<Longrightarrow> inv (put (snd (TimerReload i (tick w) (get w))) w)"
    and get_put: "get (put T w) = T"
    and put_put: "put T' (put T w) = put T' w"
    and run_law: "inv w \<Longrightarrow> n < 10 \<Longrightarrow> Runing (TIMER_T (get w) ! n) = 1 \<Longrightarrow>
        timer_callback (TIMER_T (get w) ! n) = Some c \<Longrightarrow> arg (TIMER_T (get w) ! n) = a \<Longrightarrow>
        (\<exists>w'. run c a w = Ok w' \<and> inv w') \<or> (\<exists>h. run c a w = Halt h \<and> fault h)"
begin

lemma inv_stop_del: "inv w \<Longrightarrow> inv (put (snd (TimerDel i (snd (TimerStop j (get w))))) w)"
  using inv_del [of "put (snd (TimerStop j (get w))) w" i] inv_stop [of w j]
  by (simp add: get_put put_put)

lemma TimerCheck_slot_cases:
  assumes "inv w" and "n < 10"
  shows "(\<exists>w'. TimerCheck_slot get put tick run now n w = Ok w' \<and> inv w') \<or>
         (\<exists>h. TimerCheck_slot get put tick run now n w = Halt h \<and> fault h)"
proof (cases "Runing (TIMER_T (get w) ! n) = 1 \<and>
    IS_TIME_OUT (PrevTick (TIMER_T (get w) ! n)) now (TimeOut (TIMER_T (get w) ! n))")
  case True
  then obtain c where c: "timer_callback (TIMER_T (get w) ! n) = Some c"
    using inv_timers [OF assms(1)] assms(2) by (auto simp: timers_inv_def)
  from run_law [OF assms _ c refl] True show ?thesis
    by (auto simp: TimerCheck_slot_def Let_def c timer_consts inv_reload inv_stop_del)
next
  case False
  with assms show ?thesis by (auto simp: TimerCheck_slot_def Let_def timer_consts)
qed

lemma TimerCheck_loop_cases:
  "inv w \<Longrightarrow> (\<forall>n \<in> set ns. n < 10) \<Longrightarrow>
   (\<exists>w'. TimerCheck_loop get put tick run now ns w = Ok w' \<and> inv w') \<or>
   (\<exists>h. TimerCheck_loop get put tick run now ns w = Halt h \<and> fault h)"
proof (induction ns arbitrary: w)
  case Nil
  then show ?case by simp
next
  case (Cons n ns)
  then show ?case using TimerCheck_slot_cases [of w n now] by fastforce
qed

lemma TimerCheck_cases:
  "inv w \<Longrightarrow>
   (\<exists>w'. TimerCheck get put tick run now w = Ok w' \<and> inv w') \<or>
   (\<exists>h. TimerCheck get put tick run now w = Halt h \<and> fault h)"
  unfolding TimerCheck_def by (rule TimerCheck_loop_cases) (auto simp: MAX_TIMER_NUM_def)

end

end
