(* ===== verification/ClientCyclic.thy ===== *)
theory ClientCyclic
  imports ClientHandlers TimerCheck
begin

text \<open>
  The periodic work of the client and the program around it: \<open>mqtt_sn_client_cyclic\<close>, the
  registration of the topics, \<open>MQTTClientInit\<close> and the loop of the task
  \<open>TASK_TIMER_Test\<close> in \<open>src/user/main.c\<close>.
\<close>

unbundle bit_operations_syntax

section \<open>Topics\<close>

definition registertopicfinsh :: "sys \<Rightarrow> u8" where
  "registertopicfinsh w =
     (if \<exists>i \<in> set [0..<MQTT_SN_CLIENT_LIST_MAX]. status (toppiclist (MY_TopicIDMap w) ! i) = unregister
      then 0 else 1)"

definition registeralltopic :: "sys \<Rightarrow> sys outcome" where
  "registeralltopic w =
     (if \<exists>i \<in> set [0..<MQTT_SN_CLIENT_LIST_MAX]. status (toppiclist (MY_TopicIDMap w) ! i) = registering
      then Ok w
      else case find (\<lambda>i. status (toppiclist (MY_TopicIDMap w) ! i) = unregister)
                     [0..<MQTT_SN_CLIENT_LIST_MAX] of
        None \<Rightarrow> Ok w
      | Some i \<Rightarrow>
          bind_outcome (mqtt_sn_send_register (topiclist ! i) w) (\<lambda>w1.
            Ok (w1\<lparr> MY_TopicIDMap := snd (TopicidRegistering (topiclist ! i) (MY_TopicIDMap w1)) \<rparr>)))"

section \<open>The cycle\<close>

definition mqtt_sn_client_cyclic :: "sys \<Rightarrow> sys outcome" where
  "mqtt_sn_client_cyclic w =
     (let w1 = client_upd (\<lambda>c. c\<lparr> cyclic_tick := cyclic_tick c + 1 \<rparr>) w in
      bind_outcome (gwListupdata (cyclic_tick (mqtt_sn_client w1)) (GWlist w1)) (\<lambda>G.
      let w2 = w1\<lparr> GWlist := G \<rparr> in
      if Status w2 = MQTT_SN_CONNECTED then
        bind_outcome (registeralltopic w2) (\<lambda>w3.
          let w4 = client_upd (\<lambda>c. c\<lparr> server_watchdog := server_watchdog c - 1 \<rparr>) w3
          in if server_watchdog (mqtt_sn_client w4) = 0 then mqtt_sn_send_pingreq WEAKUP w4 else Ok w4)
      else Ok w2))"

definition mqtt_sn_client_cyclic_cb :: "sys \<Rightarrow> sys outcome" where
  "mqtt_sn_client_cyclic_cb w = mqtt_sn_client_cyclic w"

text \<open>The call through the function pointer of a timer.\<close>

fun run_callback :: "timer_cb \<Rightarrow> timer_arg option \<Rightarrow> sys \<Rightarrow> sys outcome" where
  "run_callback Api_advertise a = api_advertise_press a"
| "run_callback Api_gwinfo a = api_gwinfo_press a"
| "run_callback Api_connack a = api_connack_press"
| "run_callback Api_willtopicreq a = api_willtopicreq_press"
| "run_callback Api_willmsgreq a = api_willmsgreq"
| "run_callback Api_regack a = api_regack_press"
| "run_callback Api_puback a = api_puback_press"
| "run_callback Api_pubcomp a = api_pubcomp_press"
| "run_callback Api_pubrec a = api_pubrec_press"
| "run_callback Api_pubrel a = api_pubrel_press"
| "run_callback Api_suback a = api_suback_press"
| "run_callback Api_unsuback a = api_unsuback_press"
| "run_callback Api_disconnet a = api_disconnet_press"
| "run_callback Api_pingres a = api_pingres_press"
| "run_callback Api_pingreq a = api_pingreq_press"
| "run_callback Api_publish a = api_publish_press"
| "run_callback Send_connect_cb a = mqtt_sn_send_connect_cb a"
| "run_callback Send_register_cb a = mqtt_sn_send_register_cb a"
| "run_callback Pingreq_timeout_cb a = mqtt_sn_client_pingreq_timeout_cb a"
| "run_callback Publish_timeout_cb a = mqtt_sn_client_publish_timeout_cb a"
| "run_callback Subscribe_timeout_cb a = mqtt_sn_client_subscribe_timeout_cb a"
| "run_callback Subscribe_timeout_id_cb a = mqtt_sn_client_subscribe_timeout_id_cb a"
| "run_callback Cyclic_cb a = mqtt_sn_client_cyclic_cb"

abbreviation set_Systime :: "(timer_cb, timer_arg) TIMER \<Rightarrow> sys \<Rightarrow> sys" where
  "set_Systime T w \<equiv> w\<lparr> Systime := T \<rparr>"

definition client_TimerCheck :: "u32 \<Rightarrow> sys \<Rightarrow> sys outcome" where
  "client_TimerCheck = TimerCheck Systime set_Systime xTickCount run_callback"

section \<open>Initialisation\<close>

definition zero_client :: MQTT_SN_Client_t where
  "zero_client =
     \<lparr> cyclic_tick = 0, keep_alive = 0, server_watchdog = 0, ping_req_res_lost_num = 0,
       clientID = replicate MQTT_SN_MAX_CLIENT_ID_LENGTH 0, pkt_id = 0, inpub_pkt_id = (\<lambda>_. 0),
       MqttSN_Status = MQTT_SN_NOTCONNECT,
       rx_buffer = \<lparr> i_r_ptr = 0, i_w_ptr = 0, i_ring = 0, i_buff = replicate 10 0 \<rparr> \<rparr>"

text \<open>\<open>pcb\<close> is what \<open>udp_new\<close> returns, \<open>None\<close> for a null pointer, which \<open>udp_recv\<close> follows.\<close>

definition mqtt_sn_create_socket :: "udp_pcb option \<Rightarrow> sys \<Rightarrow> sys outcome" where
  "mqtt_sn_create_socket pcb w =
     (case pcb of
        None \<Rightarrow> Halt NullDeref
      | Some p \<Rightarrow> Ok (w\<lparr> Sock := Some (p\<lparr> local_port := MQTT_SN_DEFAULT_PORT \<rparr>),
                         BuffBody := BuffInit (BuffBody w) \<rparr>))"

definition MQTTClientInit :: "udp_pcb option \<Rightarrow> sys \<Rightarrow> sys outcome" where
  "MQTTClientInit pcb w =
     (let w1 = w\<lparr> mqtt_sn_client := zero_client\<lparr> pkt_id := 1 \<rparr> \<rparr> in
      bind_outcome (mqtt_sn_create_socket pcb w1) (\<lambda>w2.
      bind_outcome (mqtt_sn_send_connect (bytes_of ''lwip_test'') 60 (0 OR MQTT_SN_FLAG_CLEAN) w2) (\<lambda>w3.
        Ok (timer_add TIMER_MODE_LOOP 1000 Cyclic_cb None 0 w3))))"

text \<open>
  The globals as the C runtime leaves them, all zero, with the environment's part of the
  state: what the stack holds, whether \<open>pbuf_alloc\<close> succeeds, and the tick counter.
\<close>

definition zero_sys :: "u8 list \<Rightarrow> bool \<Rightarrow> u32 \<Rightarrow> sys" where
  "zero_sys u pb t =
     \<lparr> xTickCount = t,
       Systime = \<lparr> Free = 0, Unused = replicate MAX_TIMER_NUM 0, TIMER_T = replicate MAX_TIMER_NUM zero_timer \<rparr>,
       BuffBody = \<lparr> r_ptr = 0, w_ptr = 0, ring = 0, buffInited = 0, buff = replicate 512 0 \<rparr>,
       mqtt_sn_client = zero_client, Sock = None, GWlist = zero_gwlist,
       gw = \<lparr> gwi_addr = 0, gwi_port = 0 \<rparr>,
       publishinfor = \<lparr> pub_data = [], pub_data_lenth = 0, pub_topic_id = 0, pub_topic_type = 0,
                        pub_qos = 0, pub_dup = 0, pub_retain = 0 \<rparr>,
       subscribeInfor = \<lparr> sub_subscri = replicate MQTT_SN_MAX_TOPIC_LENGTH 0, sub_qos = 0, sub_dup = 0 \<rparr>,
       MY_TopicIDMap = zero_topic_map, net_out = [], console = [], pbuf_ok = pb, uninit = u \<rparr>"

text \<open>\<open>main\<close> up to the scheduler, then \<open>TASK_TIMER_Test\<close> up to its loop.\<close>

definition boot :: "udp_pcb option \<Rightarrow> sys \<Rightarrow> sys outcome" where
  "boot pcb w =
     (let w1 = w\<lparr> Systime := TimerInit \<rparr> in
      bind_outcome (TopicInitConfig (MY_TopicIDMap w1)) (\<lambda>m.
        MQTTClientInit pcb (w1\<lparr> MY_TopicIDMap := m \<rparr>)))"

section \<open>The task\<close>

definition demo_msg :: "u8 list" where
  "demo_msg = bytes_of ''Hello FMSH Power everyone''"

text \<open>
  What the loop of \<open>TASK_TIMER_Test\<close> does after \<open>TimerCheck\<close>, every ten seconds: it
  subscribes once, publishes while \<open>flag\<close> is below 15, unsubscribes when it reaches ten, and
  then disconnects.
\<close>

definition task_actions :: "u32 \<Rightarrow> u32 \<Rightarrow> sys \<Rightarrow> (u32 \<times> sys) outcome" where
  "task_actions systick flag w =
     (if systick mod 10000 = 0 \<and> registertopicfinsh w \<noteq> 0 then
        bind_outcome
          (if flag = 0 then
             bind_outcome (mqtt_sn_send_subscribe_topic_name (topiclist ! 1) 0 0 w) (\<lambda>w1. Ok (1, w1))
           else Ok (flag, w)) (\<lambda>(flag1, w1).
        if flag1 < 15 then
          bind_outcome (mqtt_sn_send_publish
              (word_of_int (GetTopicID (topiclist ! 0) (MY_TopicIDMap w1))) MQTT_SN_TOPIC_TYPE_NORMAL
              demo_msg (word_of_nat (length demo_msg)) 1 1 0 w1) (\<lambda>w2.
          let flag2 = flag1 + 1 in
          if flag2 = 10 then
            bind_outcome (mqtt_sn_send_unsubscribe_topic_name (topiclist ! 1) w2) (\<lambda>w3. Ok (flag2, w3))
          else Ok (flag2, w2))
        else if flag1 = 15 then
          bind_outcome (mqtt_sn_send_disconnect_topic_id 0 w1) (\<lambda>w2. Ok (flag1 + 1, w2))
        else Ok (flag1, w1))
      else Ok (flag, w))"

definition task_iteration :: "u32 \<times> sys \<Rightarrow> (u32 \<times> sys) outcome" where
  "task_iteration fw =
     (let (flag, w) = fw; systick = xTickCount w in
      bind_outcome (client_TimerCheck systick w) (task_actions systick flag))"

end
