(* ===== verification/ClientInv.thy ===== *)
theory ClientInv
  imports ClientCyclic
begin

text \<open>
  The invariant of the whole client and its safety. \<open>sys_inv\<close> joins the invariants of the
  components with what the client needs of its own objects: the strings it keeps are
  terminated inside their arrays, and a running timer has the argument its callback expects.
  The one exception is the timer that \<open>api_puback_press\<close> arms on a congestion reply.
  \<open>runs F ok m\<close> says that the computation \<open>m\<close> either ends in a state that satisfies the
  invariant or halts in a way listed in \<open>F\<close>, or follows the null pointer of a failed
  \<open>pbuf_alloc\<close>; every sender, handler and callback is shown to run, with its own \<open>F\<close>, and
  \<open>TimerCheck\<close> inherits that through the locale \<open>timer_host\<close>.
\<close>

unbundle bit_operations_syntax

section \<open>The invariant\<close>

fun well_typed :: "timer_cb \<Rightarrow> timer_arg option \<Rightarrow> bool" where
  "well_typed Api_advertise a = (a = Some Arg_gw)"
| "well_typed Api_gwinfo a = (a = Some Arg_gw)"
| "well_typed Send_connect_cb a = (a = Some Arg_client)"
| "well_typed Send_register_cb a = (a = Some Arg_client)"
| "well_typed Pingreq_timeout_cb a = (a = Some Arg_client)"
| "well_typed Publish_timeout_cb a = (a = Some Arg_publishinfor)"
| "well_typed Subscribe_timeout_cb a = (a = Some Arg_subscribeInfor)"
| "well_typed Subscribe_timeout_id_cb a = (a = Some Arg_subscribeInfor)"
| "well_typed _ a = True"

text \<open>What the timers of the client call: \<open>well_typed\<close>, or the timer of the congestion reply.\<close>

definition armed :: "timer_cb \<Rightarrow> timer_arg option \<Rightarrow> bool" where
  "armed cb a \<longleftrightarrow> well_typed cb a \<or> (cb = Publish_timeout_cb \<and> a = Some Arg_client)"

definition timers_armed :: "(timer_cb, timer_arg) TIMER \<Rightarrow> bool" where
  "timers_armed T \<longleftrightarrow> timers_inv T \<and>
     (\<forall>i < 10. Runing (TIMER_T T ! i) = 1 \<longrightarrow>
        armed (the (timer_callback (TIMER_T T ! i))) (arg (TIMER_T T ! i)))"

definition client_ok :: "MQTT_SN_Client_t \<Rightarrow> bool" where
  "client_ok c \<longleftrightarrow> fifo_wf (rx_buffer c) \<and> length (clientID c) = 23 \<and> clientID c ! 22 = 0"

definition pub_ok :: "MQTT_SN_pub_infor_t \<Rightarrow> bool" where
  "pub_ok p \<longleftrightarrow> unat (pub_data_lenth p) \<le> length (pub_data p) \<and> unat (pub_data_lenth p) \<le> 248"

definition sub_ok :: "MQTT_SN_sub_infor_t \<Rightarrow> bool" where
  "sub_ok s \<longleftrightarrow> length (sub_subscri s) = 249 \<and> sub_subscri s ! 248 = 0"

definition sys_inv :: "sys \<Rightarrow> bool" where
  "sys_inv w \<longleftrightarrow>
     timers_armed (Systime w) \<and> buff_inv (BuffBody w) \<and> client_ok (mqtt_sn_client w) \<and>
     Sock w \<noteq> None \<and> gw_wf (GWlist w) \<and> pub_ok (publishinfor w) \<and> sub_ok (subscribeInfor w) \<and>
     topics_inv (MY_TopicIDMap w) \<and> length (uninit w) = 255"

definition runs :: "halt set \<Rightarrow> bool \<Rightarrow> sys outcome \<Rightarrow> bool" where
  "runs F ok m \<longleftrightarrow>
     (case m of Ok w \<Rightarrow> sys_inv w \<and> pbuf_ok w = ok | Halt h \<Rightarrow> h \<in> F \<or> (h = NullDeref \<and> \<not> ok))"

named_theorems runs_rules

lemma runs_simps [simp]:
  "runs F ok (Ok w) \<longleftrightarrow> sys_inv w \<and> pbuf_ok w = ok"
  "runs F ok (Halt h) \<longleftrightarrow> h \<in> F \<or> (h = NullDeref \<and> \<not> ok)"
  by (simp_all add: runs_def)

lemma runs_bind:
  assumes "runs F ok m" and "\<And>w. sys_inv w \<Longrightarrow> pbuf_ok w = ok \<Longrightarrow> runs F ok (f w)"
  shows "runs F ok (bind_outcome m f)"
  using assms by (cases m) auto

lemma runs_mono: "runs F ok m \<Longrightarrow> F \<subseteq> F' \<Longrightarrow> runs F' ok m"
  by (cases m) auto

lemma runs_cases:
  assumes "runs F ok m"
  shows "(\<exists>w. m = Ok w \<and> sys_inv w \<and> pbuf_ok w = ok) \<or> (\<exists>h. m = Halt h \<and> (h \<in> F \<or> (h = NullDeref \<and> \<not> ok)))"
  using assms by (cases m) auto

section \<open>Timers\<close>

lemma timers_armed_add:
  assumes inv: "timers_armed T" and wt: "armed cb a"
  shows "timers_armed (snd (TimerAdd mode timeout cb a tid tick T))"
proof -
  have ti: "timers_inv T" using inv by (simp add: timers_armed_def)
  have keep: "timers_inv (snd (TimerAdd mode timeout cb a tid tick T))" using ti by (rule TimerAdd_inv)
  show ?thesis using ti
  proof (cases rule: TimerAdd_cases [where mode = mode and timeout = timeout and cb = cb and
        a = a and tid = tid and tick = tick])
    case full
    with inv show ?thesis by simp
  next
    case (added num)
    have "num < 10" "length (TIMER_T T) = 10" using added(1) ti by (auto simp: unused_slots_def timers_inv_def)
    with added(3) inv wt keep show ?thesis by (simp add: timers_armed_def nth_list_update)
  qed
qed

lemma timers_armed_stop: "timers_armed T \<Longrightarrow> timers_armed (snd (TimerStop i T))"
  by (auto simp: timers_armed_def TimerStop_inv)
    (auto simp: TimerStop_def nth_list_update timer_consts timers_inv_def split: if_splits)

lemma timers_armed_reload: "timers_armed T \<Longrightarrow> timers_armed (snd (TimerReload i tick T))"
  by (auto simp: timers_armed_def TimerReload_inv)
    (auto simp: TimerReload_def nth_list_update timer_consts timers_inv_def split: if_splits)

lemma timers_armed_del: "timers_armed T \<Longrightarrow> timers_armed (snd (TimerDel i T))"
  by (auto simp: timers_armed_def TimerDel_inv)

lemma timers_armed_cancel: "timers_armed T \<Longrightarrow> timers_armed (timer_cancel tid T)"
  by (simp add: timer_cancel_def Let_def timers_armed_del timers_armed_stop)

lemmas timers_armed_intros = timers_armed_add timers_armed_stop timers_armed_reload
  timers_armed_del timers_armed_cancel

text \<open>The timer operations on the whole state, and what they leave alone.\<close>

lemma timer_ops_inv [simp]:
  "sys_inv w \<Longrightarrow> armed cb a \<Longrightarrow> sys_inv (timer_add mode timeout cb a tid w)"
  "sys_inv w \<Longrightarrow> sys_inv (cancel_timer tid w)"
  "sys_inv w \<Longrightarrow> sys_inv (reload_timer tid w)"
  by (simp_all add: sys_inv_def timer_add_def cancel_timer_def reload_timer_def Let_def
      timers_armed_intros)

lemma timer_ops_frame [simp]:
  "pbuf_ok (timer_add mode timeout cb a tid w) = pbuf_ok w"
  "pbuf_ok (cancel_timer tid w) = pbuf_ok w"
  "pbuf_ok (reload_timer tid w) = pbuf_ok w"
  "mqtt_sn_client (timer_add mode timeout cb a tid w) = mqtt_sn_client w"
  "mqtt_sn_client (cancel_timer tid w) = mqtt_sn_client w"
  "mqtt_sn_client (reload_timer tid w) = mqtt_sn_client w"
  "BuffBody (timer_add mode timeout cb a tid w) = BuffBody w"
  "BuffBody (cancel_timer tid w) = BuffBody w"
  "BuffBody (reload_timer tid w) = BuffBody w"
  "uninit (cancel_timer tid w) = uninit w"
  "uninit (reload_timer tid w) = uninit w"
  "net_out (timer_add mode timeout cb a tid w) = net_out w"
  "MY_TopicIDMap (cancel_timer tid w) = MY_TopicIDMap w"
  by (simp_all add: timer_add_def cancel_timer_def reload_timer_def Let_def)

lemma armed_simps [simp]: "well_typed cb a \<Longrightarrow> armed cb a" "armed Publish_timeout_cb (Some Arg_client)"
  by (simp_all add: armed_def)

section \<open>Changes of the client and of the other globals\<close>

lemma sys_inv_client [simp]: "sys_inv w \<Longrightarrow> client_ok c \<Longrightarrow> sys_inv (w\<lparr> mqtt_sn_client := c \<rparr>)"
  by (simp add: sys_inv_def)

lemma sys_inv_client_ok [simp]: "sys_inv w \<Longrightarrow> client_ok (mqtt_sn_client w)"
  by (simp add: sys_inv_def)

lemma sys_inv_parts:
  "sys_inv w \<Longrightarrow> topics_inv (MY_TopicIDMap w)" "sys_inv w \<Longrightarrow> gw_wf (GWlist w)"
  "sys_inv w \<Longrightarrow> buff_inv (BuffBody w)" "sys_inv w \<Longrightarrow> timers_armed (Systime w)"
  "sys_inv w \<Longrightarrow> timers_inv (Systime w)"
  by (simp_all add: sys_inv_def timers_armed_def)

text \<open>Members of the client that the invariant does not mention.\<close>

lemma client_ok_plain [simp]:
  "client_ok (c\<lparr> MqttSN_Status := x1 \<rparr>) = client_ok c"
  "client_ok (c\<lparr> keep_alive := x2 \<rparr>) = client_ok c"
  "client_ok (c\<lparr> server_watchdog := x3 \<rparr>) = client_ok c"
  "client_ok (c\<lparr> ping_req_res_lost_num := x4 \<rparr>) = client_ok c"
  "client_ok (c\<lparr> cyclic_tick := x5 \<rparr>) = client_ok c"
  "client_ok (c\<lparr> inpub_pkt_id := x6 \<rparr>) = client_ok c"
  "client_ok (c\<lparr> pkt_id := x7 \<rparr>) = client_ok c"
  by (simp_all add: client_ok_def)

lemma sys_inv_plain [simp]:
  "sys_inv w \<Longrightarrow> sys_inv (w\<lparr> net_out := x \<rparr>)"
  "sys_inv w \<Longrightarrow> sys_inv (w\<lparr> console := y \<rparr>)"
  "sys_inv w \<Longrightarrow> sys_inv (w\<lparr> gw := z \<rparr>)"
  "sys_inv w \<Longrightarrow> topics_inv m \<Longrightarrow> sys_inv (w\<lparr> MY_TopicIDMap := m \<rparr>)"
  "sys_inv w \<Longrightarrow> gw_wf G \<Longrightarrow> sys_inv (w\<lparr> GWlist := G \<rparr>)"
  "sys_inv w \<Longrightarrow> pub_ok p \<Longrightarrow> sys_inv (w\<lparr> publishinfor := p \<rparr>)"
  "sys_inv w \<Longrightarrow> sub_ok s \<Longrightarrow> sys_inv (w\<lparr> subscribeInfor := s \<rparr>)"
  "sys_inv w \<Longrightarrow> buff_inv b \<Longrightarrow> sys_inv (w\<lparr> BuffBody := b \<rparr>)"
  "sys_inv w \<Longrightarrow> sys_inv (w\<lparr> Sock := Some pcb \<rparr>)"
  "sys_inv w \<Longrightarrow> sys_inv (w\<lparr> xTickCount := t \<rparr>)"
  "sys_inv w \<Longrightarrow> timers_armed T \<Longrightarrow> sys_inv (w\<lparr> Systime := T \<rparr>)"
  by (simp_all add: sys_inv_def)

lemma next_pkt_id_inv [simp]:
  "sys_inv w \<Longrightarrow> sys_inv (snd (next_pkt_id k w))" "pbuf_ok (snd (next_pkt_id k w)) = pbuf_ok w"
  by (simp_all add: next_pkt_id_def Let_def)

lemma next_pkt_id_frame [simp]:
  "subscribeInfor (snd (next_pkt_id k w)) = subscribeInfor w"
  "fst (next_pkt_id k w) = pkt_id (mqtt_sn_client w)"
  by (simp_all add: next_pkt_id_def Let_def)

end
