(* ===== verification/ClientSafety.thy ===== *)
theory ClientSafety
  imports ClientInv
begin

text \<open>
  Every sender, handler and callback of the client runs in the sense of \<open>runs\<close>: from a
  state that satisfies \<open>sys_inv\<close> it ends in such a state, or halts in one of the ways its
  lemma lists. Senders halt only for want of a \<open>pbuf\<close>; handlers also on a frame whose first
  byte is not its length; the two gateway handlers also when the gateway list has no free
  slot.
\<close>

unbundle bit_operations_syntax

section \<open>Senders\<close>

lemma runs_SockSendDataStream [runs_rules]:
  "sys_inv w \<Longrightarrow> n \<le> length d \<Longrightarrow> pbuf_ok w = ok \<Longrightarrow> runs F ok (SockSendDataStream addr port d n w)"
  by (auto simp: SockSendDataStream_def) (simp add: sys_inv_def)

lemma runs_MQTTSNClientSendData [runs_rules]:
  "sys_inv w \<Longrightarrow> n \<le> length d \<Longrightarrow> pbuf_ok w = ok \<Longrightarrow> runs F ok (MQTTSNClientSendData d n w)"
  by (auto simp: MQTTSNClientSendData_def sys_inv_def split: option.split)

lemma length_packets [simp]:
  "length (connect_packet l t f p d c) = 6 + length c"
  "length (register_packet l t i m nm) = 6 + length nm"
  "length (publish_packet l t f i m pl) = 7 + length pl"
  "length (puback_packet l t i m r) = 7"
  "length (subscribe_packet l t f m nm) = 5 + length nm"
  "length (disconnect_packet l t d) = 4"
  by (simp_all add: connect_packet_def register_packet_def publish_packet_def puback_packet_def
      subscribe_packet_def disconnect_packet_def)

lemma unat_u8_of_nat: "n < 256 \<Longrightarrow> unat (word_of_nat n :: u8) = n"
  by (simp add: unat_of_nat)

lemma unat_u8_of_nat_le: "unat (word_of_nat n :: u8) \<le> n"
  by (simp add: unat_of_nat)

lemma length_lwip_test [simp]: "length (bytes_of ''lwip_test'') = 9"
  by (simp add: bytes_of_def)

lemma runs_getgateway [runs_rules]:
  "sys_inv w \<Longrightarrow> pbuf_ok w = ok \<Longrightarrow> runs F ok (mqtt_sn_getgateway_info port w)"
  by (simp add: mqtt_sn_getgateway_info_def runs_rules)

lemma blit_terminated:
  assumes "length a = Suc n" and "a ! n = 0" and "length s \<le> n"
  shows "blit a 0 (s @ [0]) 0 (length s + 1) ! n = (0 :: u8)"
  using assms by (simp add: nth_blit nth_append)

lemma runs_send_connect [runs_rules]:
  assumes inv: "sys_inv w" and cid: "length cid \<le> 22" and ok: "pbuf_ok w = ok"
  shows "runs F ok (mqtt_sn_send_connect cid ka flags w)"
proof -
  let ?c = "mqtt_sn_client w"
  let ?a = "blit (clientID ?c) 0 (cid @ [0]) 0 (length cid + 1)"
  let ?w1 = "w\<lparr> mqtt_sn_client := ?c\<lparr> keep_alive := ka, server_watchdog := ka \<rparr> \<rparr>"
  let ?w2 = "?w1\<lparr> mqtt_sn_client := (mqtt_sn_client ?w1)\<lparr> clientID := ?a \<rparr> \<rparr>"
  have c: "length (clientID ?c) = 23" "clientID ?c ! 22 = 0"
    using inv by (simp_all add: sys_inv_def client_ok_def)
  have "client_ok ((mqtt_sn_client ?w1)\<lparr> clientID := ?a \<rparr>)"
    using inv c cid blit_terminated [of "clientID ?c" 22 cid]
    by (simp add: client_ok_def sys_inv_def)
  with inv have inv2: "sys_inv ?w2" by simp
  moreover have "length (blit (replicate 23 0) 0 cid 0 (length cid)) = 23" using cid by simp
  moreover have "unat (word_of_nat (length cid + 6) :: u8) \<le> 29" using cid unat_u8_of_nat_le [of "length cid + 6"] by simp
  ultimately show ?thesis
    using cid ok c
    by (auto simp: mqtt_sn_send_connect_def Let_def memcpy_Ok MQTT_SN_MAX_CLIENT_ID_LENGTH_def
        MQTT_SN_CONNET_FIXLENTH_def intro!: runs_bind runs_rules)
qed

lemma runs_connect_cb [runs_rules]:
  "sys_inv w \<Longrightarrow> pbuf_ok w = ok \<Longrightarrow> runs F ok (mqtt_sn_send_connect_cb (Some Arg_client) w)"
  by (auto simp: mqtt_sn_send_connect_cb_def Let_def intro!: runs_rules)

lemma runs_disconnect [runs_rules]:
  "sys_inv w \<Longrightarrow> pbuf_ok w = ok \<Longrightarrow> runs F ok (mqtt_sn_send_disconnect d w)"
  "sys_inv w \<Longrightarrow> pbuf_ok w = ok \<Longrightarrow> runs F ok (mqtt_sn_send_disconnect_topic_id d w)"
  by (auto simp: mqtt_sn_send_disconnect_def mqtt_sn_send_disconnect_topic_id_def Let_def
      intro!: runs_bind runs_rules)

lemma c_string_length: "0 \<in> set a \<Longrightarrow> length (c_string a) < length a"
  by (induction a) (auto simp: c_string_def)

lemma terminated_mem: "n < length a \<Longrightarrow> a ! n = 0 \<Longrightarrow> 0 \<in> set (a :: u8 list)"
  by (metis nth_mem)

lemma runs_pingreq [runs_rules]:
  assumes inv: "sys_inv w" and ok: "pbuf_ok w = ok"
  shows "runs F ok (mqtt_sn_send_pingreq mode w)"
proof -
  let ?a = "clientID (mqtt_sn_client w)" and ?p = "0 # MQTT_SN_TYPE_PINGREQ # replicate 38 0"
  have a: "length ?a = 23" "0 \<in> set ?a"
    using inv terminated_mem [of 22 ?a] by (simp_all add: sys_inv_def client_ok_def)
  then have n: "length (c_string ?a) < 23" using c_string_length by force
  let ?q = "(blit ?p 2 ?a 0 (length (c_string ?a)))[0 := 2 + word_of_nat (length (c_string ?a))]"
  have q: "length ?q = 40" using n a by simp
  then have "unat (?q ! 0) = 2 + length (c_string ?a)"
    using n by (subst nth_list_update_eq) (simp_all add: unat_word_ariths unat_of_nat)
  with q n have "unat (?q ! 0) \<le> length ?q" by linarith
  then have "runs F ok (MQTTSNClientSendData ?q (unat (?q ! 0)) w)"
    "runs F ok (MQTTSNClientSendData (?p[0 := 2]) 2 w)"
    using inv ok by (auto intro!: runs_rules)
  then show ?thesis using a n
    by (auto simp: mqtt_sn_send_pingreq_def Let_def memcpy_Ok intro!: runs_bind)
qed

lemma runs_pingreq_timeout_cb [runs_rules]:
  "sys_inv w \<Longrightarrow> pbuf_ok w = ok \<Longrightarrow> runs F ok (mqtt_sn_client_pingreq_timeout_cb (Some Arg_client) w)"
  by (auto simp: mqtt_sn_client_pingreq_timeout_cb_def Let_def intro!: runs_rules)

lemma runs_will [runs_rules]:
  "sys_inv w \<Longrightarrow> pbuf_ok w = ok \<Longrightarrow> runs F ok (mqtt_sn_send_willtopic (bytes_of ''lwip_test'') w)"
  "sys_inv w \<Longrightarrow> pbuf_ok w = ok \<Longrightarrow> runs F ok (mqtt_sn_send_willMSG (bytes_of ''lwip_test'') w)"
  by (auto simp: mqtt_sn_send_willtopic_def mqtt_sn_send_willMSG_def Let_def memcpy_Ok nth_blit
      intro!: runs_bind runs_rules)

lemma runs_register [runs_rules]:
  assumes "sys_inv w" and "length nm \<le> 249" and "pbuf_ok w = ok"
  shows "runs F ok (mqtt_sn_send_register nm w)"
  using assms unat_u8_of_nat_le [of "length nm + 6"]
  by (auto simp: mqtt_sn_send_register_def Let_def memcpy_Ok MQTT_SN_MAX_TOPIC_LENGTH_def
      MQTT_SN_REGISTER_FIXLENTH_def split_beta intro!: runs_bind runs_rules)

lemma runs_register_loop:
  "sys_inv w \<Longrightarrow> pbuf_ok w = ok \<Longrightarrow> (\<forall>i \<in> set ks. i < 2) \<Longrightarrow> runs F ok (send_register_loop ks w)"
proof (induction ks arbitrary: w)
  case Nil
  then show ?case by simp
next
  case (Cons i ks)
  then have "length (topiclist ! i) \<le> 249" by (simp add: topiclist_no_zero)
  with Cons show ?case by (auto intro!: runs_bind runs_rules)
qed

lemma runs_register_cb [runs_rules]:
  "sys_inv w \<Longrightarrow> pbuf_ok w = ok \<Longrightarrow> runs F ok (mqtt_sn_send_register_cb (Some Arg_client) w)"
  by (simp add: mqtt_sn_send_register_cb_def runs_register_loop MQTT_SN_CLIENT_LIST_MAX_def)

lemma runs_publishack [runs_rules]:
  "sys_inv w \<Longrightarrow> pbuf_ok w = ok \<Longrightarrow> runs F ok (mqtt_sn_send_publishack m t r w)"
  by (auto simp: mqtt_sn_send_publishack_def intro!: runs_rules)

lemma runs_publish [runs_rules]:
  assumes "sys_inv w" and "unat n \<le> 248" and "unat n \<le> length d" and "pbuf_ok w = ok"
  shows "runs F ok (mqtt_sn_send_publish tid ty d n qos retain dup w)"
  using assms unat_u8_of_nat_le [of "unat n + 7"]
  by (auto simp: mqtt_sn_send_publish_def Let_def memcpy_Ok MQTT_SN_MAX_PAYLOAD_LENGTH_def pub_ok_def
      split_beta intro!: runs_bind runs_rules)

lemma runs_publish_timeout_cb [runs_rules]:
  "sys_inv w \<Longrightarrow> pbuf_ok w = ok \<Longrightarrow> runs F ok (mqtt_sn_client_publish_timeout_cb (Some Arg_publishinfor) w)"
  by (auto simp: mqtt_sn_client_publish_timeout_cb_def Let_def sys_inv_def pub_ok_def intro!: runs_publish)

lemma sub_ok_copy:
  assumes s: "sub_ok s" and n: "length nm \<le> 248"
  shows "sub_ok \<lparr> sub_subscri = blit (sub_subscri s) 0 (nm @ [0]) 0 (length nm + 1), sub_qos = q, sub_dup = d \<rparr>"
  using assms blit_terminated [of "sub_subscri s" 248 nm] by (simp add: sub_ok_def)

lemma sub_ok_id:
  assumes s: "sub_ok s"
  shows "sub_ok \<lparr> sub_subscri = blit (sub_subscri s) 0 (le16_bytes tid) 0 2, sub_qos = q, sub_dup = d \<rparr>"
  using assms nth_blit [of 0 2 "sub_subscri s" 0 "le16_bytes tid" 248] by (simp add: sub_ok_def)

lemma runs_subscribe_topic_name [runs_rules]:
  assumes inv: "sys_inv w" and n: "length nm \<le> 248" and ok: "pbuf_ok w = ok"
  shows "runs F ok (mqtt_sn_send_subscribe_topic_name nm qos dup w)"
proof -
  have copy: "memcpy (sub_subscri (subscribeInfor v)) 0 (nm @ [0]) 0 (length nm + 1) =
        Ok (blit (sub_subscri (subscribeInfor v)) 0 (nm @ [0]) 0 (length nm + 1))"
      "sub_ok \<lparr> sub_subscri = blit (sub_subscri (subscribeInfor v)) 0 (nm @ [0]) 0 (length nm + 1),
                sub_qos = q, sub_dup = d \<rparr>" if "sys_inv v" for v q d
    using that n sub_ok_copy [of "subscribeInfor v" nm q d]
    by (simp_all add: sys_inv_def sub_ok_def memcpy_Ok)
  show ?thesis
    using inv n ok unat_u8_of_nat_le [of "length nm + 5"]
    by (auto simp: mqtt_sn_send_subscribe_topic_name_def Let_def memcpy_Ok [of 0 "length nm"]
        MQTT_SN_MAX_TOPIC_LENGTH_def copy [simplified] split_beta intro!: runs_bind runs_rules)
qed

lemma runs_subscribe_timeout_cb [runs_rules]:
  assumes inv: "sys_inv w" and ok: "pbuf_ok w = ok"
  shows "runs F ok (mqtt_sn_client_subscribe_timeout_cb (Some Arg_subscribeInfor) w)"
proof -
  let ?a = "sub_subscri (subscribeInfor w)"
  have a: "length ?a = 249" "0 \<in> set ?a"
    using inv terminated_mem [of 248 ?a] by (simp_all add: sys_inv_def sub_ok_def)
  then have "length (c_string ?a) \<le> 248" using c_string_length by force
  with a inv ok show ?thesis
    by (auto simp: mqtt_sn_client_subscribe_timeout_cb_def Let_def intro!: runs_rules)
qed

lemma runs_subscribe_topic_id [runs_rules]:
  assumes inv: "sys_inv w" and ok: "pbuf_ok w = ok"
  shows "runs F ok (mqtt_sn_send_subscribe_topic_id tid qos dup w)"
proof -
  have copy: "memcpy (sub_subscri (subscribeInfor v)) 0 (le16_bytes tid) 0 2 =
        Ok (blit (sub_subscri (subscribeInfor v)) 0 (le16_bytes tid) 0 2)"
      "sub_ok \<lparr> sub_subscri = blit (sub_subscri (subscribeInfor v)) 0 (le16_bytes tid) 0 2,
                sub_qos = q, sub_dup = d \<rparr>" if "sys_inv v" for v q d
    using that sub_ok_id [of "subscribeInfor v" tid q d] by (simp_all add: sys_inv_def sub_ok_def memcpy_Ok)
  show ?thesis using inv ok
    by (auto simp: mqtt_sn_send_subscribe_topic_id_def Let_def copy split_beta intro!: runs_bind runs_rules)
qed

lemma runs_subscribe_timeout_id_cb [runs_rules]:
  "sys_inv w \<Longrightarrow> pbuf_ok w = ok \<Longrightarrow>
   runs F ok (mqtt_sn_client_subscribe_timeout_id_cb (Some Arg_subscribeInfor) w)"
  by (auto simp: mqtt_sn_client_subscribe_timeout_id_cb_def Let_def intro!: runs_rules)
    (auto simp: sys_inv_def sub_ok_def)

lemma runs_unsubscribe [runs_rules]:
  "sys_inv w \<Longrightarrow> length nm \<le> 249 \<Longrightarrow> pbuf_ok w = ok \<Longrightarrow> runs F ok (mqtt_sn_send_unsubscribe_topic_name nm w)"
  "sys_inv w \<Longrightarrow> pbuf_ok w = ok \<Longrightarrow> runs F ok (mqtt_sn_send_unsubscribe_topic_id tid w)"
  using unat_u8_of_nat_le [of "length nm + 5"]
  by (auto simp: mqtt_sn_send_unsubscribe_topic_name_def mqtt_sn_send_unsubscribe_topic_id_def
      Let_def memcpy_Ok MQTT_SN_MAX_TOPIC_LENGTH_def split_beta intro!: runs_bind runs_rules)

section \<open>Reception of a frame\<close>

lemma rx_length_inv:
  assumes "sys_inv w"
  obtains n q where "rx_length w = Ok (n, client_upd (\<lambda>c. c\<lparr> rx_buffer := q \<rparr>) w)"
    "sys_inv (client_upd (\<lambda>c. c\<lparr> rx_buffer := q \<rparr>) w)"
    "ReadClientImportindex (rx_buffer (mqtt_sn_client w)) = Ok (n, q)"
proof -
  have "fifo_wf (rx_buffer (mqtt_sn_client w))" using assms by (simp add: sys_inv_def client_ok_def)
  from fifo_wf_read [OF this] obtain d q where
    "ReadClientImportindex (rx_buffer (mqtt_sn_client w)) = Ok (d, q)" "fifo_wf q" by auto
  moreover from this(2) assms have "sys_inv (client_upd (\<lambda>c. c\<lparr> rx_buffer := q \<rparr>) w)"
    by (simp add: sys_inv_def client_ok_def)
  ultimately show thesis using that by (auto simp: rx_length_def)
qed

text \<open>The bytes read: the next \<open>n\<close> of the buffer, or nothing and an error.\<close>

lemma rx_bytes_inv:
  assumes inv: "sys_inv w"
  obtains (read) b where "n \<noteq> 0" "unat n \<le> buff_count (BuffBody w)"
      "rx_bytes n w = Ok (0, take (unat n) (buff_bytes (BuffBody w)) @ drop (unat n) (uninit w),
                          w\<lparr> BuffBody := b \<rparr>)"
      "buff_inv b" "buff_bytes b = drop (unat n) (buff_bytes (BuffBody w))"
  | (err) e where "e \<noteq> 0" "rx_bytes n w = Ok (e, uninit w, w)"
proof -
  have b: "buff_inv (BuffBody w)" and u: "length (uninit w) = 255" using inv by (simp_all add: sys_inv_def)
  have un: "unat (ucast n :: u16) = unat n" by simp
  have w0: "w\<lparr> BuffBody := BuffBody w \<rparr> = w" by (cases w) simp
  show thesis
  proof (cases "n = 0 \<or> buff_count (BuffBody w) < unat n")
    case True
    have nz: "(ucast n :: u16) = 0 \<longleftrightarrow> n = 0" using un by (simp add: word_unat_eq_iff)
    from True show thesis
    proof (cases "n = 0")
      case True
      then show thesis
        using err [of ERROR_DATA_ILLEGAL_OPERAT] ReadBUFF_errors(2) [OF b, of 0 "Some (uninit w)"] w0
        by (simp add: rx_bytes_def ERROR_DATA_ILLEGAL_OPERAT_def)
    next
      case False
      with \<open>n = 0 \<or> buff_count (BuffBody w) < unat n\<close> show thesis
        using err [of ERROR_OVER_FLOW_READ] ReadBUFF_errors(3) [OF b, of "ucast n" "uninit w"] w0 un nz
        by (simp add: rx_bytes_def ERROR_OVER_FLOW_READ_def)
    qed
  next
    case False
    then have pos: "0 < unat (ucast n :: u16)" and le: "unat (ucast n :: u16) \<le> buff_count (BuffBody w)"
      using un by (auto simp: word_unat_eq_iff)
    have dst: "unat (ucast n :: u16) \<le> length (uninit w)" using un u by simp
    from ReadBUFF_run [OF b pos le dst] buff_read_state [OF b pos le]
    show thesis using read False un by (simp add: rx_bytes_def ERROR_NONE_def)
  qed
qed

section \<open>Handlers\<close>

lemma runs_with_frame:
  assumes inv: "sys_inv w" and ok: "pbuf_ok w = ok"
    and pre: "\<And>v. sys_inv v \<Longrightarrow> sys_inv (pre v) \<and> pbuf_ok (pre v) = pbuf_ok v"
    and body: "\<And>d v. sys_inv v \<Longrightarrow> pbuf_ok v = ok \<Longrightarrow> length d = 255 \<Longrightarrow> runs F ok (body d v)"
    and spin: "Spin \<in> F"
  shows "runs F ok (with_frame pre also_if body w)"
  using inv
proof (cases rule: rx_length_inv)
  case (1 n q)
  let ?w2 = "pre (client_upd (\<lambda>c. c\<lparr> rx_buffer := q \<rparr>) w)"
  have w2: "sys_inv ?w2" "pbuf_ok ?w2 = ok" using pre [OF 1(2)] ok by simp_all
  then have u: "length (uninit ?w2) = 255" by (simp add: sys_inv_def)
  have "runs F ok (bind_outcome (rx_bytes n ?w2) (\<lambda>(e, inputdata, w3).
         if e = ERROR_NONE \<and> also_if n then
           if inputdata ! 0 = n then body inputdata w3 else Halt Spin
         else Ok w3))"
    using w2(1)
  proof (cases rule: rx_bytes_inv [where n = n])
    case (read b)
    have "length (buff_bytes (BuffBody ?w2)) = buff_count (BuffBody ?w2)" by (simp add: buff_bytes_def)
    moreover have "unat n \<le> 255" by simp
    ultimately have "length (take (unat n) (buff_bytes (BuffBody ?w2)) @ drop (unat n) (uninit ?w2)) = 255"
      using read(2) u by simp
    then have "runs F ok (body (take (unat n) (buff_bytes (BuffBody ?w2)) @ drop (unat n) (uninit ?w2))
         (?w2\<lparr> BuffBody := b \<rparr>))"
      using w2 read(4) by (intro body) simp_all
    with read w2 spin show ?thesis by (simp add: ERROR_NONE_def)
  next
    case (err e)
    with w2 show ?thesis by (simp add: ERROR_NONE_def)
  qed
  with w2 1(1) show ?thesis by (simp add: with_frame_def Let_def)
qed

text \<open>The handlers that touch no gateway: the only way to fail is a frame with a wrong length byte.\<close>

lemma runs_handlers [runs_rules]:
  assumes "sys_inv w" and "pbuf_ok w = ok"
  shows "runs {Spin} ok (api_connack_press w)" "runs {Spin} ok (api_willtopicreq_press w)"
    "runs {Spin} ok (api_willmsgreq w)" "runs {Spin} ok (api_pingres_press w)"
    "runs {Spin} ok (api_pingreq_press w)" "runs {Spin} ok (api_regack_press w)"
    "runs {Spin} ok (api_publish_press w)" "runs {Spin} ok (api_suback_press w)"
    "runs {Spin} ok (api_unsuback_press w)" "runs {Spin} ok (api_disconnet_press w)"
    "runs {Spin} ok (api_puback_press w)"
  using assms unfolding api_connack_press_def api_willtopicreq_press_def api_willmsgreq_def
    api_pingres_press_def api_pingreq_press_def api_regack_press_def api_publish_press_def
    api_suback_press_def api_unsuback_press_def api_disconnet_press_def api_puback_press_def
  by (auto simp: Let_def intro!: runs_with_frame runs_bind runs_rules topics_inv_intros sys_inv_plain sys_inv_parts)

lemma gwListappend_wf:
  assumes "gw_wf G"
  shows "(\<exists>e G'. gwListappend G addr port gwid ka tick = Ok (e, G') \<and> gw_wf G') \<or>
         gwListappend G addr port gwid ka tick = Halt Overrun"
  using assms by (auto simp: gwListappend_def Let_def gw_wf_def split: option.split)

lemma gwListupdata_wf:
  assumes "gw_wf G"
  shows "\<exists>G'. gwListupdata tick G = Ok G' \<and> gw_wf G'"
proof -
  have slot: "\<exists>G'. gwListupdata_slot tick G i = Ok G' \<and> gw_wf G'" if "gw_wf G" "i < 3" for G i
    using that by (auto simp: gwListupdata_slot_def gwListdel_def gw_wf_def Let_def unat_of_nat
        MQTT_GW_LISTNUM_MAX_def)
  have "\<exists>G'. gwListupdata_loop tick ks G = Ok G' \<and> gw_wf G'" if "gw_wf G" "\<forall>i \<in> set ks. i < 3" for ks
    using that
  proof (induction ks arbitrary: G)
    case (Cons i ks)
    then show ?case using slot [of G i] by fastforce
  qed simp
  from this [OF assms, of "[0..<3]"] assms show ?thesis
    by (simp add: gwListupdata_def MQTT_GW_LISTNUM_MAX_def)
qed

lemma runs_append_gateway [runs_rules]:
  assumes "sys_inv w" and "pbuf_ok w = ok" and "Overrun \<in> F"
  shows "runs F ok (append_gateway (Some Arg_gw) gwid ka w)"
  using assms gwListappend_wf [OF sys_inv_parts(2) [OF assms(1)], of "gwi_addr (gw w)" "gwi_port (gw w)"
      gwid ka "cyclic_tick (mqtt_sn_client w)"]
  by (auto simp: append_gateway_def)

lemma runs_gateway_handlers [runs_rules]:
  assumes "sys_inv w" and "pbuf_ok w = ok"
  shows "runs {Spin, Overrun} ok (api_advertise_press (Some Arg_gw) w)"
    and "runs {Spin, Overrun} ok (api_gwinfo_press (Some Arg_gw) w)"
  using assms unfolding api_advertise_press_def api_gwinfo_press_def
  by (auto simp: Let_def intro!: runs_with_frame runs_rules)

lemma runs_ignored [runs_rules]:
  assumes "sys_inv w" and "pbuf_ok w = ok"
  shows "runs F ok (api_pubcomp_press w)" "runs F ok (api_pubrec_press w)" "runs F ok (api_pubrel_press w)"
  using assms by (simp_all add: api_pubcomp_press_def api_pubrec_press_def api_pubrel_press_def)

section \<open>The cycle\<close>

lemma runs_registeralltopic [runs_rules]:
  assumes "sys_inv w" and "pbuf_ok w = ok"
  shows "runs F ok (registeralltopic w)"
  using assms topiclist_no_zero(2)
  by (auto simp: registeralltopic_def find_two split: if_splits
      intro!: runs_bind runs_rules topics_inv_intros sys_inv_plain sys_inv_parts)

lemma runs_cyclic [runs_rules]:
  assumes inv: "sys_inv w" and ok: "pbuf_ok w = ok"
  shows "runs F ok (mqtt_sn_client_cyclic w)"
proof -
  obtain G where "gwListupdata (cyclic_tick (mqtt_sn_client w) + 1) (GWlist w) = Ok G" "gw_wf G"
    using gwListupdata_wf [OF sys_inv_parts(2) [OF inv]] by blast
  with inv ok show ?thesis
    by (auto simp: mqtt_sn_client_cyclic_def Let_def intro!: runs_bind runs_rules sys_inv_plain)
qed

lemma runs_publish_confused [runs_rules]:
  "Confused \<in> F \<Longrightarrow> runs F ok (mqtt_sn_client_publish_timeout_cb (Some Arg_client) w)"
  by (simp add: mqtt_sn_client_publish_timeout_cb_def)

section \<open>Callbacks\<close>

text \<open>The ways a callback may halt.\<close>

fun cb_faults :: "timer_cb \<Rightarrow> halt set" where
  "cb_faults Api_advertise = {Spin, Overrun}"
| "cb_faults Api_gwinfo = {Spin, Overrun}"
| "cb_faults Publish_timeout_cb = {Confused}"
| "cb_faults cb =
     (if cb \<in> {Api_connack, Api_willtopicreq, Api_willmsgreq, Api_regack, Api_puback, Api_suback,
               Api_unsuback, Api_disconnet, Api_pingres, Api_pingreq, Api_publish}
      then {Spin} else {})"

lemma runs_callback:
  assumes "sys_inv w" and "pbuf_ok w = ok" and "armed cb a"
  shows "runs (cb_faults cb) ok (run_callback cb a w)"
  using assms
  by (cases cb) (auto simp: armed_def mqtt_sn_client_cyclic_cb_def
      intro: runs_rules runs_mono split del: if_split)

text \<open>A callback with the argument it expects cannot take one object for another.\<close>

lemma well_typed_not_confused:
  assumes "sys_inv w" and "well_typed cb a"
  shows "run_callback cb a w \<noteq> Halt Confused"
proof -
  have "runs (cb_faults cb - {Confused}) (pbuf_ok w) (run_callback cb a w)"
    using runs_callback [OF assms(1) refl, of cb a] assms
    by (cases cb) (auto simp: intro: runs_rules)
  then show ?thesis by auto
qed

text \<open>The host of \<open>TimerCheck\<close>: the client, with its callbacks.\<close>

interpretation client_timers: timer_host Systime set_Systime xTickCount run_callback
  "\<lambda>w. sys_inv w \<and> pbuf_ok w = ok" "\<lambda>h. h \<in> {Spin, Overrun, Confused} \<or> (h = NullDeref \<and> \<not> ok)"
  for ok
proof unfold_locales
  fix w n c a
  assume "sys_inv w \<and> pbuf_ok w = ok" "n < (10 :: nat)" "Runing (TIMER_T (Systime w) ! n) = 1"
    "timer_callback (TIMER_T (Systime w) ! n) = Some c" "arg (TIMER_T (Systime w) ! n) = a"
  then have "runs (cb_faults c) ok (run_callback c a w)"
    by (intro runs_callback) (auto simp: sys_inv_def timers_armed_def)
  moreover have "cb_faults c \<subseteq> {Spin, Overrun, Confused}" by (cases c) auto
  ultimately show "(\<exists>w'. run_callback c a w = Ok w' \<and> sys_inv w' \<and> pbuf_ok w' = ok) \<or>
      (\<exists>h. run_callback c a w = Halt h \<and> (h \<in> {Spin, Overrun, Confused} \<or> h = NullDeref \<and> \<not> ok))"
    by (auto dest!: runs_cases)
qed (auto intro!: sys_inv_plain timers_armed_intros dest: sys_inv_parts)

lemma runs_client_TimerCheck [runs_rules]:
  assumes "sys_inv w" and "pbuf_ok w = ok"
  shows "runs {Spin, Overrun, Confused} ok (client_TimerCheck now w)"
  using client_timers.TimerCheck_cases [of w ok now] assms by (auto simp: client_TimerCheck_def)

section \<open>Reception of a datagram\<close>

lemma runs_incomm_cb [runs_rules]:
  assumes "sys_inv w" and "pbuf_ok w = ok"
  shows "runs F ok (mqtt_sn_socket_incomm_cb addr port cmd w)"
proof (cases "getAPIFUN cmd")
  case (Some cb)
  then have "armed cb (Some Arg_gw)"
    by (auto simp: getAPIFUN_def g_api_table_def armed_def split: if_splits)
  with Some assms show ?thesis by (simp add: mqtt_sn_socket_incomm_cb_def Let_def)
next
  case None
  let ?w = "w\<lparr> gw := \<lparr> gwi_addr = addr, gwi_port = port \<rparr> \<rparr>"
  have "sys_inv ?w" using assms by simp
  then show ?thesis
  proof (cases rule: rx_length_inv)
    case (1 n q)
    from 1(2) show ?thesis
      by (cases rule: rx_bytes_inv [where n = n])
        (use 1 None assms in \<open>simp_all add: mqtt_sn_socket_incomm_cb_def Let_def\<close>)
  qed
qed

text \<open>The datagrams whose command byte is inside them.\<close>

definition has_command :: "u8 list \<Rightarrow> bool" where
  "has_command p \<longleftrightarrow> 2 \<le> length p \<and> (p ! 0 = 0x01 \<longrightarrow> 4 \<le> length p) \<and> length p < 65536"

lemma runs_UdpServer_recv_cb:
  assumes inv: "sys_inv w" and ok: "pbuf_ok w = ok" and p: "has_command p"
  shows "runs F ok (UdpServer_recv_cb p addr port w)"
proof -
  obtain pcb where sock: "Sock w = Some pcb" using inv by (auto simp: sys_inv_def)
  let ?w1 = "w\<lparr> Sock := Some (pcb\<lparr> remote_port := port, remote_ip := addr \<rparr>) \<rparr>"
  let ?q = "rx_buffer (mqtt_sn_client w)" and ?l = "word_of_nat (length p) :: u16"
  have l: "unat ?l = length p" using p by (simp add: has_command_def unat_of_nat)
  have "fifo_wf ?q" using inv by (simp add: sys_inv_def client_ok_def)
  from fifo_wf_write [OF this] obtain e q' where
    wr: "WriteClientImportindex ?q (ucast ?l) = Ok (e, q')" "fifo_wf q'" by metis
  let ?w2 = "?w1\<lparr> mqtt_sn_client := (mqtt_sn_client w)\<lparr> rx_buffer := q' \<rparr> \<rparr>"
  have w2: "sys_inv ?w2" using inv wr(2) by (simp add: sys_inv_def client_ok_def)
  have "runs F ok (bind_outcome (WriteBUFF (BuffBody w) (Some p) ?l) (\<lambda>(e', b).
          let w3 = ?w2\<lparr> BuffBody := b \<rparr>
          in if e' = 0 then mqtt_sn_socket_incomm_cb addr port cmd w3 else Ok w3))"
    if room: "BuffSpaceget (BuffBody w) > ?l" for cmd
  proof -
    have b: "buff_inv (BuffBody w)" using inv by (rule sys_inv_parts)
    have "0 < unat ?l" "buff_count (BuffBody w) + unat ?l \<le> 512" "unat ?l \<le> length p"
      using l p room unat_BuffSpaceget [OF b] by (auto simp: has_command_def word_less_nat_alt)
    from WriteBUFF_writes [OF b this] obtain b' where
      "WriteBUFF (BuffBody w) (Some p) ?l = Ok (ERROR_NONE, b')" "buff_inv b'" by auto
    with w2 ok show ?thesis by (auto simp: Let_def ERROR_NONE_def intro!: runs_rules sys_inv_plain)
  qed
  moreover have "sys_inv ?w1" using inv by simp
  ultimately show ?thesis
    using sock p wr w2 ok
    by (auto simp: UdpServer_recv_cb_def Let_def has_command_def)
qed

end
