(* ===== verification/ClientRun.thy ===== *)
theory ClientRun
  imports ClientSafety
begin

text \<open>
  The running program: the states the firmware can reach from reset. A step is a tick of the
  kernel, a datagram handed to \<open>UdpServer_recv_cb\<close>, one pass of the loop of
  \<open>TASK_TIMER_Test\<close>, or a change of what the stack below the task holds; each is atomic
  with respect to the others. The program's state is the local \<open>flag\<close> of the task and the
  globals.
\<close>

section \<open>Start\<close>

lemma runs_create_socket:
  assumes "sys_inv (w\<lparr> Sock := Some p, BuffBody := BuffInit (BuffBody w) \<rparr>)" and "pbuf_ok w = ok"
  shows "runs F ok (mqtt_sn_create_socket (Some p) w)"
  using assms by (simp add: mqtt_sn_create_socket_def sys_inv_def)

lemma boot_socket_inv:
  fixes ok :: bool and t :: u32
  assumes u: "length u = 255" and m: "TopicInitConfig zero_topic_map = Ok m"
  defines "v \<equiv> (zero_sys u ok t)\<lparr> Systime := TimerInit, MY_TopicIDMap := m,
              mqtt_sn_client := zero_client\<lparr> pkt_id := 1 \<rparr> \<rparr>"
  shows "sys_inv (v\<lparr> Sock := Some pcb, BuffBody := BuffInit (BuffBody v) \<rparr>)"
proof -
  have "timers_armed TimerInit"
    using TimerInit_inv by (simp add: timers_armed_def) (simp add: TimerInit_def zero_timer_def timer_consts)
  moreover have "topics_inv m" using TopicInitConfig_inv m by auto
  ultimately show ?thesis
    using u zero_gwlist_inv
    by (simp add: v_def sys_inv_def zero_sys_def BuffInit_empty client_ok_def zero_client_def fifo_wf_def
        gw_inv_def pub_ok_def sub_ok_def MQTT_SN_MAX_TOPIC_LENGTH_def MQTT_SN_MAX_CLIENT_ID_LENGTH_def)
qed

lemma boot_runs:
  assumes u: "length u = 255"
  shows "runs F ok (boot (Some pcb) (zero_sys u ok t))"
proof -
  obtain m where m: "TopicInitConfig zero_topic_map = Ok m" using TopicInitConfig_inv by blast
  have "runs F ok (mqtt_sn_create_socket (Some pcb) ((zero_sys u ok t)\<lparr> Systime := TimerInit, MY_TopicIDMap := m,
              mqtt_sn_client := zero_client\<lparr> pkt_id := 1 \<rparr> \<rparr>))"
    using boot_socket_inv [OF u m] by (intro runs_create_socket) (simp_all add: zero_sys_def)
  then show ?thesis
    using m by (auto simp: boot_def MQTTClientInit_def Let_def zero_sys_def intro!: runs_bind runs_rules)
qed

section \<open>The task\<close>

lemma map_bind_outcome: "map_outcome g (bind_outcome m f) = bind_outcome m (\<lambda>x. map_outcome g (f x))"
  by (cases m) auto

lemma length_demo_msg [simp]: "length demo_msg = 25"
  by (simp add: demo_msg_def bytes_of_def)

lemma runs_task_actions:
  assumes inv: "sys_inv w" and ok: "pbuf_ok w = ok"
  shows "runs F ok (map_outcome snd (task_actions systick flag w))"
proof -
  have "length (topiclist ! 1) = 19" using topiclist_no_zero(2) [of 1] by simp
  with assms show ?thesis
    by (auto simp: task_actions_def map_bind_outcome bind_outcome_assoc Let_def intro!: runs_bind runs_rules)
qed

lemma runs_task_iteration:
  assumes inv: "sys_inv w" and ok: "pbuf_ok w = ok"
  shows "runs {Spin, Overrun, Confused} ok (map_outcome snd (task_iteration (flag, w)))"
  using assms by (auto simp: task_iteration_def map_bind_outcome Let_def intro!: runs_bind runs_rules runs_task_actions)

section \<open>Steps\<close>

inductive client_step :: "u32 \<times> sys \<Rightarrow> u32 \<times> sys \<Rightarrow> bool" where
  tick: "client_step (flag, w) (flag, w\<lparr> xTickCount := xTickCount w + 1 \<rparr>)"
| recv: "length p < 65536 \<Longrightarrow> UdpServer_recv_cb p addr port w = Ok w' \<Longrightarrow> client_step (flag, w) (flag, w')"
| task: "task_iteration (flag, w) = Ok s' \<Longrightarrow> client_step (flag, w) s'"
| stack: "length u = 255 \<Longrightarrow> client_step (flag, w) (flag, w\<lparr> uninit := u \<rparr>)"

inductive_cases client_step_cases: "client_step s s'"

inductive reachable :: "sys \<Rightarrow> u32 \<times> sys \<Rightarrow> bool" for w0 :: sys where
  start: "reachable w0 (0, w0)"
| step: "reachable w0 s \<Longrightarrow> client_step s s' \<Longrightarrow> reachable w0 s'"

text \<open>A datagram too short to hold its command byte is read past its end.\<close>

lemma recv_short: "Sock w \<noteq> None \<Longrightarrow> \<not> has_command p \<Longrightarrow> length p < 65536 \<Longrightarrow>
   UdpServer_recv_cb p addr port w = Halt Overrun"
  by (auto simp: UdpServer_recv_cb_def has_command_def Let_def Suc_le_eq)

lemma client_step_inv:
  assumes "client_step s s'" and inv: "sys_inv (snd s)"
  shows "sys_inv (snd s') \<and> pbuf_ok (snd s') = pbuf_ok (snd s)"
  using assms(1)
proof cases
  case (tick flag w)
  with inv show ?thesis by simp
next
  case (recv p addr port w w' flag)
  with inv have w: "sys_inv w" by simp
  then have "Sock w \<noteq> None" by (simp add: sys_inv_def)
  with recv have "has_command p" using recv_short [of w p addr port] by auto
  from runs_UdpServer_recv_cb [OF w refl this, of "{}" addr port] recv show ?thesis by simp
next
  case (task flag w)
  with inv runs_task_iteration [of w "pbuf_ok w" flag] show ?thesis by simp
next
  case (stack u flag w)
  with inv show ?thesis by (simp add: sys_inv_def)
qed

lemma reachable_inv:
  "reachable w0 s \<Longrightarrow> sys_inv w0 \<Longrightarrow> sys_inv (snd s) \<and> pbuf_ok (snd s) = pbuf_ok w0"
  by (induction rule: reachable.induct) (auto dest: client_step_inv)

end
