(* ===== verification/ClientFrames.thy ===== *)
theory ClientFrames
  imports ClientRun
begin

text \<open>
  The receive path as a queue of frames. The length queue in the control block and the byte
  buffer together hold a list of frames: \<open>frames_in fs w\<close>. While fewer than ten frames wait,
  \<open>UdpServer_recv_cb\<close> appends a frame and every handler takes the oldest one.
\<close>

unbundle bit_operations_syntax

section \<open>Frames\<close>

definition good_frame :: "u8 list \<Rightarrow> bool" where
  "good_frame f \<longleftrightarrow> 2 \<le> length f \<and> length f \<le> 255 \<and> f ! 0 = word_of_nat (length f)"

abbreviation rxq :: "sys \<Rightarrow> Import_buff_t" where
  "rxq w \<equiv> rx_buffer (mqtt_sn_client w)"

definition frames_in :: "u8 list list \<Rightarrow> sys \<Rightarrow> bool" where
  "frames_in fs w \<longleftrightarrow>
     fifo_inv (rxq w) \<and> fifo_lens (rxq w) = map (\<lambda>f. word_of_nat (length f)) fs \<and>
     buff_bytes (BuffBody w) = concat fs \<and> (\<forall>f \<in> set fs. good_frame f)"

lemma good_frame_len:
  assumes "good_frame f"
  shows "unat (word_of_nat (length f) :: u8) = length f" "(word_of_nat (length f) :: u8) \<noteq> 0"
    "has_command f" "f ! 0 \<noteq> 1" "f \<noteq> []"
proof -
  from assms have l: "2 \<le> length f" "length f \<le> 255" "f ! 0 = word_of_nat (length f)"
    by (auto simp: good_frame_def)
  show un: "unat (word_of_nat (length f) :: u8) = length f" using l by (simp add: unat_of_nat)
  then show "(word_of_nat (length f) :: u8) \<noteq> 0" using l by auto
  show ne: "f ! 0 \<noteq> 1" using un l by auto
  with l show "has_command f" by (auto simp: has_command_def)
  show "f \<noteq> []" using l by auto
qed

section \<open>A datagram arrives\<close>

lemma recv_datagram:
  assumes inv: "sys_inv w" and fi: "fifo_inv (rxq w)" and few: "fifo_count (rxq w) < 10"
    and p: "2 \<le> length p" "length p \<le> 255" "p ! 0 \<noteq> 1"
    and room: "buff_count (BuffBody w) + length p < 512"
    and cmd: "CmdConfirm (p ! 1) = 0" and pcb: "Sock w = Some pcb"
  shows "\<exists>q b. UdpServer_recv_cb p addr port w =
           mqtt_sn_socket_incomm_cb addr port (p ! 1)
             (w\<lparr> Sock := Some (pcb\<lparr> remote_port := port, remote_ip := addr \<rparr>),
                mqtt_sn_client := (mqtt_sn_client w)\<lparr> rx_buffer := q \<rparr>, BuffBody := b \<rparr>) \<and>
         fifo_inv q \<and> fifo_lens q = fifo_lens (rxq w) @ [word_of_nat (length p)] \<and>
         buff_inv b \<and> buff_bytes b = buff_bytes (BuffBody w) @ p"
proof -
  let ?l = "word_of_nat (length p) :: u16"
  have l: "unat ?l = length p" using p by (simp add: unat_of_nat)
  have l8: "(ucast ?l :: u8) = word_of_nat (length p)"
    using p by (simp add: unsigned_of_nat take_bit_nat_eq_self)
  have bi: "buff_inv (BuffBody w)" using inv by (rule sys_inv_parts)
  have "unat (word_of_nat (length p) :: u8) = length p" using p by (simp add: unat_of_nat)
  then have nz8: "(word_of_nat (length p) :: u8) \<noteq> 0" using p by auto
  from fifo_write [OF fi few this] obtain q where
    q: "WriteClientImportindex (rxq w) (word_of_nat (length p)) = Ok (0, q)" "fifo_inv q"
      "fifo_lens q = fifo_lens (rxq w) @ [word_of_nat (length p)]" by auto
  have fits: "0 < unat ?l" "buff_count (BuffBody w) + unat ?l \<le> 512" "unat ?l \<le> length p"
    using l room p by auto
  from WriteBUFF_writes [OF bi fits] l obtain b where
    b: "WriteBUFF (BuffBody w) (Some p) ?l = Ok (ERROR_NONE, b)" "buff_inv b"
      "buff_bytes b = buff_bytes (BuffBody w) @ p" by auto
  have sp: "BuffSpaceget (BuffBody w) > ?l"
    using unat_BuffSpaceget [OF bi] room l by (simp add: word_less_nat_alt)
  have "unat (i_w_ptr (rxq w)) < 10" "unat (i_r_ptr (rxq w)) < 10"
    using fi by (auto simp: fifo_inv_def fifo_wf_def)
  then have nz: "GetSpaceofpktinput (uint (i_w_ptr (rxq w))) (uint (i_r_ptr (rxq w))) (i_ring (rxq w)) \<noteq> 0"
    by (intro space_bounds) (simp_all add: uint_less_numeral)
  have "p \<noteq> []" using p by auto
  with l p pcb cmd sp nz q(1) b(1) have "UdpServer_recv_cb p addr port w =
      mqtt_sn_socket_incomm_cb addr port (p ! 1) (w\<lparr> Sock := Some (pcb\<lparr> remote_port := port, remote_ip := addr \<rparr>),
                    mqtt_sn_client := (mqtt_sn_client w)\<lparr> rx_buffer := q \<rparr>, BuffBody := b \<rparr>)"
    by (simp add: UdpServer_recv_cb_def Let_def l8 ERROR_NONE_def)
  with q b show ?thesis by blast
qed

lemma frames_in_counts:
  assumes "frames_in fs w"
  shows "fifo_count (rxq w) = length fs" "buff_count (BuffBody w) = length (concat fs)"
proof -
  show "fifo_count (rxq w) = length fs"
    using assms length_fifo_lens [of "rxq w"] by (simp add: frames_in_def)
  show "buff_count (BuffBody w) = length (concat fs)"
    using assms by (metis buff_bytes_def frames_in_def length_ring_slice)
qed

lemma recv_frame:
  assumes inv: "sys_inv w" and fs: "frames_in fs w" and few: "length fs < 10" and p: "good_frame p"
    and room: "length (concat fs) + length p < 512"
    and cmd: "CmdConfirm (p ! 1) = 0" and cb: "getAPIFUN (p ! 1) = Some cb" and pcb: "Sock w = Some pcb"
  shows "\<exists>q b. UdpServer_recv_cb p addr port w =
           Ok (timer_add TIMER_MODE_SINGLE 100 cb (Some Arg_gw) 0
                 (w\<lparr> Sock := Some (pcb\<lparr> remote_port := port, remote_ip := addr \<rparr>),
                    mqtt_sn_client := (mqtt_sn_client w)\<lparr> rx_buffer := q \<rparr>, BuffBody := b,
                    gw := \<lparr> gwi_addr = addr, gwi_port = port \<rparr> \<rparr>)) \<and>
         fifo_inv q \<and> fifo_lens q = fifo_lens (rxq w) @ [word_of_nat (length p)] \<and>
         buff_inv b \<and> buff_bytes b = concat (fs @ [p])"
proof -
  have f: "fifo_inv (rxq w)" "buff_bytes (BuffBody w) = concat fs" using fs by (simp_all add: frames_in_def)
  have "2 \<le> length p" "length p \<le> 255" "p ! 0 \<noteq> 1" using p good_frame_len(4) [OF p] by (simp_all add: good_frame_def)
  from recv_datagram [OF inv f(1) _ this _ cmd pcb, of addr port] few room frames_in_counts [OF fs] cb f(2)
  show ?thesis by (auto simp: mqtt_sn_socket_incomm_cb_def Let_def)
qed

section \<open>A handler runs\<close>

text \<open>The 255-byte local array \<open>inputdata\<close> after the frame was copied into it.\<close>

definition frame_array :: "u8 list \<Rightarrow> sys \<Rightarrow> u8 list" where
  "frame_array f w = f @ drop (length f) (uninit w)"

definition consume :: "Import_buff_t \<Rightarrow> loop_buff_t \<Rightarrow> sys \<Rightarrow> sys" where
  "consume q b w = w\<lparr> mqtt_sn_client := (mqtt_sn_client w)\<lparr> rx_buffer := q \<rparr>, BuffBody := b \<rparr>"

text \<open>What a handler does between the length and the bytes: nothing, or something to the timers.\<close>

definition quiet :: "(sys \<Rightarrow> sys) \<Rightarrow> bool" where
  "quiet pre \<longleftrightarrow>
     (\<forall>q b v. pre (v\<lparr> mqtt_sn_client := (mqtt_sn_client v)\<lparr> rx_buffer := q \<rparr> \<rparr>)
                \<lparr> BuffBody := b \<rparr> = consume q b (pre v)) \<and>
     (\<forall>v. BuffBody (pre v) = BuffBody v \<and> uninit (pre v) = uninit v \<and>
           mqtt_sn_client (pre v) = mqtt_sn_client v \<and> pbuf_ok (pre v) = pbuf_ok v) \<and>
     (\<forall>v. sys_inv v \<longrightarrow> sys_inv (pre v))"

lemma quiet_pres [simp]: "quiet (\<lambda>w. w)" "quiet (cancel_timer tid)" "quiet (reload_timer tid)"
  by (auto simp: quiet_def consume_def cancel_timer_def reload_timer_def Let_def)
    (auto simp: sys_inv_def timers_armed_intros)

text \<open>
  The head of the length queue says how many bytes \<open>f\<close> are taken. If the first of them is
  that number the body runs, otherwise the handler spins.
\<close>

lemma with_frame_run:
  assumes inv: "sys_inv w" and fi: "fifo_inv (rxq w)"
    and ln: "fifo_lens (rxq w) = word_of_nat (length f) # ls"
    and l: "1 \<le> length f" "length f \<le> 255" and bb: "buff_bytes (BuffBody w) = f @ rest"
    and pre: "quiet pre"
  shows "\<exists>q b. (\<forall>also_if body. with_frame pre also_if body w =
           (if also_if (word_of_nat (length f)) then
              if f ! 0 = word_of_nat (length f) then body (frame_array f w) (consume q b (pre w)) else Halt Spin
            else Ok (consume q b (pre w)))) \<and>
         fifo_inv q \<and> fifo_lens q = ls \<and> buff_bytes b = rest \<and> sys_inv (consume q b (pre w))"
proof -
  let ?n = "word_of_nat (length f) :: u8"
  have un: "unat ?n = length f" using l by (simp add: unat_of_nat)
  from fifo_read [OF fi] ln obtain q where
    q: "ReadClientImportindex (rxq w) = Ok (?n, q)" "fifo_inv q" "fifo_lens q = ls" by auto
  let ?w1 = "w\<lparr> mqtt_sn_client := (mqtt_sn_client w)\<lparr> rx_buffer := q \<rparr> \<rparr>"
  have w1: "sys_inv ?w1" using inv q(2) by (simp add: sys_inv_def client_ok_def fifo_inv_def)
  have pre1: "BuffBody (pre v) = BuffBody v" "uninit (pre v) = uninit v" for v
    using pre by (auto simp: quiet_def)
  have "sys_inv (pre ?w1)" using w1 pre by (simp add: quiet_def)
  then show ?thesis
  proof (cases rule: rx_bytes_inv [where n = ?n])
    case (read b)
    have inp: "take (length f) (buff_bytes (BuffBody w)) @ drop (length f) (uninit w) = frame_array f w"
      using bb by (simp add: frame_array_def)
    have hd: "frame_array f w ! 0 = f ! 0" using l by (cases f) (simp_all add: frame_array_def)
    have eq: "pre ?w1\<lparr> BuffBody := b \<rparr> = consume q b (pre w)" using pre by (simp add: quiet_def)
    have inv': "sys_inv (consume q b (pre w))"
      using sys_inv_plain(8) [OF \<open>sys_inv (pre ?w1)\<close> read(4)] unfolding eq .
    have "with_frame pre also_if body w =
        (if also_if ?n then
           if f ! 0 = ?n then body (frame_array f w) (consume q b (pre w)) else Halt Spin
         else Ok (consume q b (pre w)))" for also_if body
      using q(1) read(3) hd un eq inp
      by (simp add: with_frame_def rx_length_def Let_def ERROR_NONE_def pre1 MQTT_SN_MAX_PACKET_LENGTH_def)
    then show ?thesis using inv' q read(5) bb un by (auto simp: pre1)
  next
    case (err e)
    have "0 < unat (ucast ?n :: u16)" "length f \<le> length (uninit w)"
      using un l inv by (auto simp: sys_inv_def)
    moreover have "length f \<le> buff_count (BuffBody w)"
      using bb by (metis buff_bytes_def length_append length_ring_slice le_add1)
    ultimately have "\<exists>d v. rx_bytes ?n (pre ?w1) = Ok (ERROR_NONE, d, v)"
      using ReadBUFF_run [OF sys_inv_parts(3) [OF inv], of "ucast ?n" "uninit w"] un
      by (simp add: rx_bytes_def pre1)
    with err show ?thesis by (auto simp: ERROR_NONE_def)
  qed
qed

section \<open>What sending leaves alone\<close>

lemma SockSendDataStream_Ok_iff [outcome_simps]:
  "SockSendDataStream addr port d n w = Ok w' \<longleftrightarrow>
     pbuf_ok w \<and> Sock w \<noteq> None \<and> n \<le> length d \<and>
     w' = w\<lparr> net_out := net_out w @ [\<lparr> dg_ip = addr, dg_port = port, dg_data = take n d \<rparr>] \<rparr>"
  by (auto simp: SockSendDataStream_def)

lemma MQTTSNClientSendData_Ok_iff [outcome_simps]:
  "MQTTSNClientSendData d n w = Ok w' \<longleftrightarrow>
     (\<exists>pcb. pbuf_ok w \<and> Sock w = Some pcb \<and> n \<le> length d \<and>
       w' = w\<lparr> net_out := net_out w @ [\<lparr> dg_ip = remote_ip pcb, dg_port = remote_port pcb, dg_data = take n d \<rparr>] \<rparr>)"
  by (auto simp: MQTTSNClientSendData_def split: option.split)

text \<open>The receive queues, and the connection status.\<close>

definition rx_same :: "sys \<Rightarrow> sys \<Rightarrow> bool" where
  "rx_same w w' \<longleftrightarrow> BuffBody w' = BuffBody w \<and> rxq w' = rxq w"

definition st_same :: "sys \<Rightarrow> sys \<Rightarrow> bool" where
  "st_same w w' \<longleftrightarrow> rx_same w w' \<and> Status w' = Status w"

lemma same_refl [simp]: "rx_same w w" "st_same w w"
  by (simp_all add: rx_same_def st_same_def)

lemma same_trans: "rx_same w w' \<Longrightarrow> rx_same w' w'' \<Longrightarrow> rx_same w w''"
  "st_same w w' \<Longrightarrow> st_same w' w'' \<Longrightarrow> st_same w w''"
  by (simp_all add: rx_same_def st_same_def)

lemma frames_in_same: "rx_same w w' \<Longrightarrow> frames_in fs w' = frames_in fs w"
  by (simp add: rx_same_def frames_in_def)

lemma next_pkt_id_same [simp]:
  "BuffBody (snd (next_pkt_id k w)) = BuffBody w" "rxq (snd (next_pkt_id k w)) = rxq w"
  "Status (snd (next_pkt_id k w)) = Status w" "net_out (snd (next_pkt_id k w)) = net_out w"
  "Sock (snd (next_pkt_id k w)) = Sock w"
  "Systime (snd (next_pkt_id k w)) = Systime w" "MY_TopicIDMap (snd (next_pkt_id k w)) = MY_TopicIDMap w"
  by (simp_all add: next_pkt_id_def Let_def)

text \<open>Facts about the state a computation ends in, if it ends.\<close>

definition post :: "('a \<Rightarrow> bool) \<Rightarrow> 'a outcome \<Rightarrow> bool" where
  "post R m \<longleftrightarrow> (\<forall>x. m = Ok x \<longrightarrow> R x)"

lemma post_simps [simp]: "post R (Ok x) = R x" "post R (Halt h)"
  by (simp_all add: post_def)

lemma post_bind: "post Q m \<Longrightarrow> (\<And>x. Q x \<Longrightarrow> post R (f x)) \<Longrightarrow> post R (bind_outcome m f)"
  by (cases m) auto

lemma post_bind_bytes: "(\<And>x. post R (f x)) \<Longrightarrow> post R (bind_outcome m f)" for m :: "u8 list outcome"
  by (cases m) auto

lemma post_send:
  "st_same w v \<Longrightarrow> post (st_same w) (MQTTSNClientSendData d n v)"
  "st_same w v \<Longrightarrow> post (st_same w) (SockSendDataStream addr port d n v)"
  by (auto simp: post_def outcome_simps st_same_def rx_same_def)

lemma st_same_upd [simp]:
  "st_same w (timer_add mode t cb a tid v) = st_same w v"
  "st_same w (v\<lparr> publishinfor := p \<rparr>) = st_same w v"
  "st_same w (v\<lparr> subscribeInfor := u \<rparr>) = st_same w v"
  "st_same w (v\<lparr> MY_TopicIDMap := m \<rparr>) = st_same w v"
  "st_same w (v\<lparr> GWlist := G \<rparr>) = st_same w v"
  "st_same w (v\<lparr> console := c \<rparr>) = st_same w v"
  "st_same w (cancel_timer tid v) = st_same w v"
  "st_same w (snd (next_pkt_id k v)) = st_same w v"
  by (simp_all add: st_same_def rx_same_def)

lemma post_pingreq: "st_same w v \<Longrightarrow> post (st_same w) (mqtt_sn_send_pingreq mode v)"
  by (auto simp: mqtt_sn_send_pingreq_def Let_def split_beta intro!: post_bind_bytes post_bind [OF post_send(1)])

lemma post_senders:
  assumes "st_same w v"
  shows "post (st_same w) (mqtt_sn_getgateway_info port v)"
    "post (st_same w) (mqtt_sn_send_disconnect_topic_id dur v)"
    "post (st_same w) (mqtt_sn_send_willtopic nm v)"
    "post (st_same w) (mqtt_sn_send_willMSG nm v)"
    "post (st_same w) (mqtt_sn_send_register nm v)"
    "post (st_same w) (mqtt_sn_send_publishack mid tid r v)"
    "post (st_same w) (mqtt_sn_send_publish tid ty dat dl q rt dp v)"
    "post (st_same w) (mqtt_sn_send_subscribe_topic_name nm q dp v)"
    "post (st_same w) (mqtt_sn_send_subscribe_topic_id tid q dp v)"
    "post (st_same w) (mqtt_sn_send_unsubscribe_topic_name nm v)"
    "post (st_same w) (mqtt_sn_send_unsubscribe_topic_id tid v)"
  using assms
  by (auto simp: mqtt_sn_getgateway_info_def
      mqtt_sn_send_disconnect_topic_id_def
      mqtt_sn_send_willtopic_def
      mqtt_sn_send_willMSG_def
      mqtt_sn_send_register_def
      mqtt_sn_send_publishack_def
      mqtt_sn_send_publish_def
      mqtt_sn_send_subscribe_topic_name_def
      mqtt_sn_send_subscribe_topic_id_def
      mqtt_sn_send_unsubscribe_topic_name_def
      mqtt_sn_send_unsubscribe_topic_id_def
      Let_def split_beta intro!: post_send post_bind_bytes post_bind [OF post_send(1)])

section \<open>Handlers take one frame\<close>

lemma handle_frame_quiet:
  assumes "sys_inv w" and "frames_in (f # fs) w" and "quiet pre"
  obtains q b where "\<forall>also_if body. with_frame pre also_if body w =
      (if also_if (word_of_nat (length f)) then body (frame_array f w) (consume q b (pre w))
       else Ok (consume q b (pre w)))"
    "frames_in fs (consume q b (pre w))" "sys_inv (consume q b (pre w))"
    "pbuf_ok (consume q b (pre w)) = pbuf_ok w" "Status (consume q b (pre w)) = Status w"
proof -
  have g: "good_frame f" "fifo_inv (rxq w)" "buff_bytes (BuffBody w) = f @ concat fs"
    "fifo_lens (rxq w) = word_of_nat (length f) # map (\<lambda>f. word_of_nat (length f)) fs"
    using assms(2) by (simp_all add: frames_in_def)
  then have l: "1 \<le> length f" "length f \<le> 255" "f ! 0 = word_of_nat (length f)" by (simp_all add: good_frame_def)
  from with_frame_run [OF assms(1) g(2,4) l(1,2) g(3) assms(3)] l(3) obtain q b where
    *: "\<forall>also_if body. with_frame pre also_if body w =
      (if also_if (word_of_nat (length f)) then body (frame_array f w) (consume q b (pre w))
       else Ok (consume q b (pre w)))"
    "fifo_inv q" "fifo_lens q = map (\<lambda>f. word_of_nat (length f)) fs" "buff_bytes b = concat fs"
    "sys_inv (consume q b (pre w))" by (auto cong: if_cong)
  have "frames_in fs (consume q b (pre w))"
    using *(2-4) assms(2) by (simp add: frames_in_def consume_def)
  moreover have "pbuf_ok (consume q b (pre w)) = pbuf_ok w" "Status (consume q b (pre w)) = Status w"
    using assms(3) by (simp_all add: consume_def quiet_def)
  ultimately show thesis using that * by blast
qed

lemma length_frame_array [simp]:
  "sys_inv w \<Longrightarrow> good_frame f \<Longrightarrow> length (frame_array f w) = 255"
  by (auto simp: frame_array_def sys_inv_def good_frame_def)

lemma on_good_frame:
  assumes inv: "sys_inv w" and fs: "frames_in (f # fs) w" and q: "quiet pre"
    and run: "\<And>d v. sys_inv v \<Longrightarrow> pbuf_ok v = pbuf_ok w \<Longrightarrow> length d = 255 \<Longrightarrow> runs F (pbuf_ok w) (body d v)"
    and same: "\<And>d v. post (rx_same v) (body d v)"
  shows "runs F (pbuf_ok w) (with_frame pre also_if body w)" "post (frames_in fs) (with_frame pre also_if body w)"
proof -
  from inv fs q obtain r b where *: "\<forall>also_if body. with_frame pre also_if body w =
      (if also_if (word_of_nat (length f)) then body (frame_array f w) (consume r b (pre w))
       else Ok (consume r b (pre w)))"
    and k: "frames_in fs (consume r b (pre w))" "sys_inv (consume r b (pre w))"
      "pbuf_ok (consume r b (pre w)) = pbuf_ok w" "Status (consume r b (pre w)) = Status w"
    by (rule handle_frame_quiet)
  have d: "length (frame_array f w) = 255" using inv fs by (simp add: frames_in_def)
  show "runs F (pbuf_ok w) (with_frame pre also_if body w)" using k run [OF k(2,3) d] by (simp add: *)
  show "post (frames_in fs) (with_frame pre also_if body w)"
    using k(1) same [of "consume r b (pre w)" "frame_array f w"]
    by (auto simp: post_def frames_in_same *)
qed

fun takes_frame :: "timer_cb \<Rightarrow> bool" where
  "takes_frame Api_pubcomp = False"
| "takes_frame Api_pubrec = False"
| "takes_frame Api_pubrel = False"
| "takes_frame cb \<longleftrightarrow> cb \<in> snd ` set g_api_table"

lemma post_rx: "post (st_same v) m \<Longrightarrow> rx_same w v \<Longrightarrow> post (rx_same w) m"
  by (auto simp: post_def st_same_def rx_same_def)

lemma rx_same_upd [simp]:
  "rx_same w (timer_add mode t cb a tid v) = rx_same w v"
  "rx_same w (cancel_timer tid v) = rx_same w v"
  "rx_same w (v\<lparr> mqtt_sn_client := (mqtt_sn_client v)\<lparr> MqttSN_Status := x1 \<rparr> \<rparr>) = rx_same w v"
  "rx_same w (v\<lparr> mqtt_sn_client := (mqtt_sn_client v)\<lparr> inpub_pkt_id := x2 \<rparr> \<rparr>) = rx_same w v"
  "rx_same w (v\<lparr> mqtt_sn_client := (mqtt_sn_client v)\<lparr> server_watchdog := x3, ping_req_res_lost_num := x4 \<rparr> \<rparr>)
     = rx_same w v"
  "rx_same w (v\<lparr> MY_TopicIDMap := m \<rparr>) = rx_same w v"
  "rx_same w (v\<lparr> GWlist := G \<rparr>) = rx_same w v"
  "rx_same w (v\<lparr> console := c \<rparr>) = rx_same w v"
  by (simp_all add: rx_same_def)

lemma post_append_gateway: "post (st_same w) (append_gateway a gwid ka w)"
  by (cases "gwListappend (GWlist w) (gwi_addr (gw w)) (gwi_port (gw w)) gwid ka (cyclic_tick (mqtt_sn_client w))")
    (auto simp: append_gateway_def)

lemmas post_intros = post_senders [OF same_refl(2), THEN post_rx] post_send(1) [OF same_refl(2), THEN post_rx]
  post_append_gateway [THEN post_rx]
  post_bind [OF post_senders(6) [OF same_refl(2), THEN post_rx [OF _ same_refl(1)]]]

lemmas handler_defs = api_connack_press_def api_willtopicreq_press_def api_willmsgreq_def
  api_pingres_press_def api_pingreq_press_def api_regack_press_def api_publish_press_def
  api_suback_press_def api_unsuback_press_def api_disconnet_press_def api_puback_press_def
  api_advertise_press_def api_gwinfo_press_def

lemma handlers_take:
  assumes inv: "sys_inv w" and fs: "frames_in (f # fs) w"
  shows "runs {} (pbuf_ok w) (api_connack_press w) \<and> post (frames_in fs) (api_connack_press w)"
    "runs {} (pbuf_ok w) (api_willtopicreq_press w) \<and> post (frames_in fs) (api_willtopicreq_press w)"
    "runs {} (pbuf_ok w) (api_willmsgreq w) \<and> post (frames_in fs) (api_willmsgreq w)"
    "runs {} (pbuf_ok w) (api_pingres_press w) \<and> post (frames_in fs) (api_pingres_press w)"
    "runs {} (pbuf_ok w) (api_pingreq_press w) \<and> post (frames_in fs) (api_pingreq_press w)"
    "runs {} (pbuf_ok w) (api_regack_press w) \<and> post (frames_in fs) (api_regack_press w)"
    "runs {} (pbuf_ok w) (api_publish_press w) \<and> post (frames_in fs) (api_publish_press w)"
    "runs {} (pbuf_ok w) (api_suback_press w) \<and> post (frames_in fs) (api_suback_press w)"
    "runs {} (pbuf_ok w) (api_unsuback_press w) \<and> post (frames_in fs) (api_unsuback_press w)"
    "runs {} (pbuf_ok w) (api_disconnet_press w) \<and> post (frames_in fs) (api_disconnet_press w)"
    "runs {} (pbuf_ok w) (api_puback_press w) \<and> post (frames_in fs) (api_puback_press w)"
    "runs {Overrun} (pbuf_ok w) (api_advertise_press (Some Arg_gw) w) \<and>
       post (frames_in fs) (api_advertise_press (Some Arg_gw) w)"
    "runs {Overrun} (pbuf_ok w) (api_gwinfo_press (Some Arg_gw) w) \<and>
       post (frames_in fs) (api_gwinfo_press (Some Arg_gw) w)"
  unfolding handler_defs
  by (intro conjI on_good_frame [OF inv fs]; auto simp: Let_def rx_same_def intro!: runs_bind runs_rules
      topics_inv_intros sys_inv_plain sys_inv_parts post_intros)+

section \<open>A concrete state\<close>

text \<open>
  The client after its start, with status \<open>st\<close> and one received frame \<open>f\<close> whose handler has
  not run yet; \<open>ready_topics\<close> is the registry \<open>TopicInitConfig\<close> builds.
\<close>

definition ready_topics :: topic_map_t where
  "ready_topics =
     \<lparr> registerednum = 0,
       toppiclist = map (\<lambda>nm. \<lparr> topic_id = 0, topic_id_lenth = 19, topic_name = nm @ replicate 230 0,
                               status = unregister \<rparr>) topiclist \<rparr>"

definition ready :: "MQTTSNSTATUS_T \<Rightarrow> sys" where
  "ready st = (zero_sys (replicate 255 0) True 0)
     \<lparr> Systime := TimerInit, MY_TopicIDMap := ready_topics,
       Sock := Some \<lparr> remote_ip = 0, remote_port = 0, local_port = 1883 \<rparr>,
       BuffBody := \<lparr> r_ptr = 0, w_ptr = 0, ring = 0, buffInited = 1, buff = replicate 512 0 \<rparr>,
       mqtt_sn_client := zero_client\<lparr> MqttSN_Status := st, pkt_id := 1 \<rparr> \<rparr>"

definition ready_with :: "u8 list \<Rightarrow> MQTTSNSTATUS_T \<Rightarrow> sys" where
  "ready_with f st = (ready st)
     \<lparr> BuffBody := \<lparr> r_ptr = 0, w_ptr = word_of_nat (length f), ring = 0, buffInited = 1,
                    buff = f @ replicate (512 - length f) 0 \<rparr>,
       mqtt_sn_client := zero_client\<lparr> MqttSN_Status := st, pkt_id := 1,
         rx_buffer := \<lparr> i_r_ptr = 0, i_w_ptr = 1, i_ring = 0,
                       i_buff = word_of_nat (length f) # replicate 9 0 \<rparr> \<rparr> \<rparr>"

lemma ready_topics_inv: "topics_inv ready_topics"
  using takeWhile_zero_pad [of "topiclist ! 0" 230] takeWhile_zero_pad [of "topiclist ! 1" 230]
    topiclist_no_zero(1) [of 0] topiclist_no_zero(1) [of 1]
  by (simp add: topics_inv_def ready_topics_def less_2_cases_iff' nth_map) (simp add: topiclist_def)

lemma ready_inv: "sys_inv (ready st)" "frames_in [] (ready st)"
proof -
  have "timers_armed TimerInit"
    using TimerInit_inv by (simp add: timers_armed_def) (simp add: TimerInit_def zero_timer_def timer_consts)
  then show "sys_inv (ready st)"
    using ready_topics_inv zero_gwlist_inv
    by (simp add: sys_inv_def ready_def zero_sys_def client_ok_def zero_client_def fifo_wf_def
        gw_inv_def pub_ok_def sub_ok_def buff_inv_def INITBUFFED_def
        MQTT_SN_MAX_TOPIC_LENGTH_def MQTT_SN_MAX_CLIENT_ID_LENGTH_def)
  show "frames_in [] (ready st)"
    by (simp add: frames_in_def ready_def zero_client_def fifo_inv_def fifo_wf_def fifo_lens_def
        fifo_count_def buff_bytes_def buff_count_def)
qed

lemma ready_with_inv:
  assumes f: "good_frame f"
  shows "sys_inv (ready_with f st)" "frames_in [f] (ready_with f st)"
proof -
  let ?q = "\<lparr> i_r_ptr = 0, i_w_ptr = 1, i_ring = 0, i_buff = word_of_nat (length f) # replicate 9 0 \<rparr>"
  let ?b = "\<lparr> r_ptr = 0, w_ptr = word_of_nat (length f), ring = 0, buffInited = 1,
                    buff = f @ replicate (512 - length f) 0 \<rparr>"
  have l: "unat (word_of_nat (length f) :: u16) = length f" "2 \<le> length f" "length f \<le> 255"
    using f by (auto simp: good_frame_def unat_of_nat)
  have b: "buff_inv ?b" "buff_bytes ?b = f"
    using l by (simp_all add: buff_inv_def INITBUFFED_def buff_bytes_def buff_count_def ring_slice_linear)
  have q: "fifo_inv ?q" "fifo_lens ?q = [word_of_nat (length f)]"
    by (simp_all add: fifo_inv_def fifo_wf_def fifo_lens_def fifo_count_def ring_slice_def)
  have c: "client_ok (zero_client\<lparr> MqttSN_Status := st, pkt_id := 1, rx_buffer := ?q \<rparr>)"
    by (simp add: client_ok_def zero_client_def fifo_wf_def MQTT_SN_MAX_CLIENT_ID_LENGTH_def)
  show "sys_inv (ready_with f st)"
    unfolding ready_with_def by (intro sys_inv_client sys_inv_plain ready_inv b(1) c)
  show "frames_in [f] (ready_with f st)"
    using f b q by (simp add: frames_in_def ready_with_def)
qed

lemma ready_fields [simp]:
  "pbuf_ok (ready st)" "pbuf_ok (ready_with f st)" "Status (ready st) = st" "Status (ready_with f st) = st"
  "Sock (ready st) = Some \<lparr> remote_ip = 0, remote_port = 0, local_port = 1883 \<rparr>"
  "Sock (ready_with f st) = Some \<lparr> remote_ip = 0, remote_port = 0, local_port = 1883 \<rparr>"
  "MY_TopicIDMap (ready st) = ready_topics" "MY_TopicIDMap (ready_with f st) = ready_topics"
  "inpub_pkt_id (mqtt_sn_client (ready_with f st)) = (\<lambda>_. 0)"
  "Systime (ready_with f st) = TimerInit" "Systime (ready st) = TimerInit"
  by (simp_all add: ready_def ready_with_def zero_sys_def zero_client_def)

end
