(* ===== verification/ComponentProps.thy ===== *)
theory ComponentProps
  imports ClientFrames
begin

text \<open>
  The properties of the components below the protocol: the byte buffer, the length queue, the
  timers, the topic registry and the gateway list, each with a concrete instance.
\<close>

unbundle bit_operations_syntax

section \<open>The byte buffer\<close>

text \<open>
  C23: \<open>WriteBUFF\<close> on an initialised buffer is the enqueue of a bounded byte queue, on every
  branch: it appends the \<open>l\<close> bytes if they fit into the 512, keeps the invariant and returns
  \<open>ERROR_NONE\<close>; it reports an overflow and changes nothing if they do not fit; it rejects
  a length of zero.
\<close>

theorem WriteBUFF_refines:
  assumes "buff_inv b" and "unat l \<le> length d"
  shows "(l = 0 \<longrightarrow> WriteBUFF b (Some d) l = Ok (ERROR_DATA_ILLEGAL_OPERAT, b)) \<and>
     (l \<noteq> 0 \<and> 512 < length (buff_bytes b) + unat l \<longrightarrow> WriteBUFF b (Some d) l = Ok (ERROR_OVER_FLOW_WRITE, b)) \<and>
     (l \<noteq> 0 \<and> length (buff_bytes b) + unat l \<le> 512 \<longrightarrow>
        (\<exists>b'. WriteBUFF b (Some d) l = Ok (ERROR_NONE, b') \<and> buff_inv b' \<and>
              buff_bytes b' = buff_bytes b @ take (unat l) d))"
proof -
  have len: "length (buff_bytes b) = buff_count b" by (simp add: buff_bytes_def)
  have "0 < unat l" if "l \<noteq> 0" using that by (simp add: unat_gt_0)
  with WriteBUFF_writes [OF assms(1) _ _ assms(2)] WriteBUFF_errors(2,3) [OF assms(1)] buff_count_le [OF assms(1)]
  show ?thesis unfolding len by auto
qed

definition no_buff :: loop_buff_t where
  "no_buff = \<lparr> r_ptr = 0, w_ptr = 0, ring = 0, buffInited = 0, buff = [] \<rparr>"

theorem WriteBUFF_refines_witness:
  "\<exists>b'. WriteBUFF (BuffInit no_buff) (Some [1, 2, 3]) 3 = Ok (ERROR_NONE, b') \<and> buff_bytes b' = [1, 2, 3]"
  using WriteBUFF_refines [OF BuffInit_empty(1), of 3 "[1, 2, 3]" no_buff] by (auto simp: BuffInit_empty(2))

text \<open>
  C24: \<open>ReadBUFF\<close> on an initialised buffer is the dequeue of that queue: it returns the
  oldest \<open>l\<close> bytes in the caller's array, leaves the rest of the array and of the queue, and
  reports an underflow without any change when fewer than \<open>l\<close> bytes are stored.
\<close>

theorem ReadBUFF_refines:
  assumes "buff_inv b" and "unat l \<le> length d"
  shows "(l = 0 \<longrightarrow> ReadBUFF b (Some d) l = Ok (ERROR_DATA_ILLEGAL_OPERAT, Some d, b)) \<and>
     (length (buff_bytes b) < unat l \<longrightarrow> ReadBUFF b (Some d) l = Ok (ERROR_OVER_FLOW_READ, Some d, b)) \<and>
     (l \<noteq> 0 \<and> unat l \<le> length (buff_bytes b) \<longrightarrow>
        (\<exists>b'. ReadBUFF b (Some d) l =
                Ok (ERROR_NONE, Some (take (unat l) (buff_bytes b) @ drop (unat l) d), b') \<and>
              buff_inv b' \<and> buff_bytes b' = drop (unat l) (buff_bytes b)))"
proof -
  have len: "length (buff_bytes b) = buff_count b" by (simp add: buff_bytes_def)
  have "0 < unat l" if "l \<noteq> 0" using that by (simp add: unat_gt_0)
  then show ?thesis
    using ReadBUFF_run [OF assms(1) _ _ assms(2)] ReadBUFF_errors(2,3) [OF assms(1)] buff_read_state [OF assms(1), of l]
    unfolding len by (auto simp: unat_gt_0 [symmetric])
qed

theorem ReadBUFF_refines_witness:
  "\<exists>b b'. WriteBUFF (BuffInit no_buff) (Some [1, 2, 3]) 3 = Ok (ERROR_NONE, b) \<and>
     ReadBUFF b (Some [9, 9, 9]) 2 = Ok (ERROR_NONE, Some [1, 2, 9], b') \<and> buff_bytes b' = [3]"
proof -
  have "buff_count (BuffInit no_buff) = 0" by (simp add: BuffInit_def buff_count_def)
  with WriteBUFF_writes [OF BuffInit_empty(1), of 3 no_buff "[1, 2, 3]"] obtain b where
    b: "WriteBUFF (BuffInit no_buff) (Some [1, 2, 3]) 3 = Ok (ERROR_NONE, b)" "buff_inv b" "buff_bytes b = [1, 2, 3]"
    by (auto simp: BuffInit_empty(2))
  from ReadBUFF_refines [OF b(2), of 2 "[9, 9, 9]"] b(1,3) show ?thesis by auto
qed

text \<open>
  C25: Frames written one after the other into an empty buffer and read back with their
  lengths come back as they were, in order, whatever position in the array they wrap around,
  as long as their total length is at most 512; the buffer is then empty again.
\<close>

theorem buffer_roundtrip:
  assumes "buff_inv b" and "buff_bytes b = []" and "\<forall>x \<in> set xs. x \<noteq> []" and "length (concat xs) \<le> 512"
  shows "\<exists>b' b''. put_frames buff_put b xs = Some b' \<and> get_frames buff_get b' (map length xs) = Some (xs, b'') \<and>
     buff_inv b'' \<and> buff_bytes b'' = []"
  by (rule my_buff.frames_roundtrip [OF assms])

theorem buffer_roundtrip_witness:
  "\<exists>b' b''. put_frames buff_put (BuffInit no_buff) [[1, 2], [3]] = Some b' \<and>
     get_frames buff_get b' [2, 1] = Some ([[1, 2], [3]], b'')"
  using buffer_roundtrip [OF BuffInit_empty, of "[[1, 2], [3]]" no_buff] by (auto simp: numeral_2_eq_2)

section \<open>The length queue\<close>

text \<open>
  While it is not full, the length queue of the control block is a queue of at most ten
  non-zero lengths: \<open>WriteClientImportindex\<close> appends, and \<open>ReadClientImportindex\<close> then
  returns the oldest length and removes it.
\<close>

theorem length_queue_refines:
  assumes "fifo_inv q" and "fifo_count q < 10" and "d \<noteq> 0"
  shows "\<exists>q' q''. WriteClientImportindex q d = Ok (0, q') \<and> fifo_inv q' \<and> fifo_lens q' = fifo_lens q @ [d] \<and>
     ReadClientImportindex q' = Ok (hd (fifo_lens q @ [d]), q'') \<and> fifo_inv q'' \<and>
     fifo_lens q'' = tl (fifo_lens q @ [d])"
proof -
  from fifo_write [OF assms] obtain q' where
    q': "WriteClientImportindex q d = Ok (0, q')" "fifo_inv q'" "fifo_lens q' = fifo_lens q @ [d]" by auto
  with fifo_read [OF q'(2)] show ?thesis by auto
qed

definition no_lens :: Import_buff_t where
  "no_lens = \<lparr> i_r_ptr = 0, i_w_ptr = 0, i_ring = 0, i_buff = replicate 10 0 \<rparr>"

lemma no_lens_inv: "fifo_inv no_lens" "fifo_lens no_lens = []" "fifo_count no_lens = 0"
  by (simp_all add: no_lens_def fifo_inv_def fifo_wf_def fifo_lens_def fifo_count_def)

theorem length_queue_refines_witness:
  "\<exists>q' q''. WriteClientImportindex no_lens 7 = Ok (0, q') \<and> ReadClientImportindex q' = Ok (7, q'') \<and>
     fifo_lens q'' = []"
  using length_queue_refines [OF no_lens_inv(1), of 7] by (auto simp: no_lens_inv)

text \<open>
  The eleventh length is not refused. The free space is computed with the capacity of
  the byte buffer, 512, so a full queue never looks full: the write overwrites the oldest
  length, and the next read returns the new length and leaves the queue empty, although ten
  frames are still in the byte buffer.
\<close>

theorem length_queue_overflows:
  assumes "fifo_inv q" and "fifo_count q = 10" and "d \<noteq> 0"
  shows "\<exists>q' q''. WriteClientImportindex q d = Ok (0, q') \<and> ReadClientImportindex q' = Ok (d, q'') \<and>
     fifo_lens q'' = []"
proof -
  have "i_ring q \<noteq> 0"
  proof
    assume "i_ring q = 0"
    moreover have "unat (i_r_ptr q) < 10" "unat (i_w_ptr q) < 10" using assms(1) by (simp_all add: fifo_inv_def fifo_wf_def)
    ultimately show False using assms(2) by (auto simp: fifo_count_def split: if_splits)
  qed
  from fifo_write_full [OF assms(1) this assms(3)] show ?thesis .
qed

theorem length_queue_overflows_witness:
  "\<exists>q' q''. WriteClientImportindex \<lparr> i_r_ptr = 3, i_w_ptr = 3, i_ring = 1, i_buff = replicate 10 5 \<rparr> 9 = Ok (0, q') \<and>
     ReadClientImportindex q' = Ok (9, q'') \<and> fifo_lens q'' = []"
  by (rule length_queue_overflows) (simp_all add: fifo_inv_def fifo_wf_def fifo_count_def)

section \<open>Timers\<close>

text \<open>
  Every operation on the timer pool keeps its invariant: ten slots, the free counter is
  the number of slots marked unused, an unused slot does not run, and a running slot has a
  callback.
\<close>

theorem timer_pool_invariant:
  assumes "timers_inv T"
  shows "timers_inv (snd (TimerAdd mode timeout cb a tid tick T)) \<and> timers_inv (snd (TimerStop i T)) \<and>
     timers_inv (snd (TimerReload i tick T)) \<and> timers_inv (snd (TimerDel i T)) \<and> timers_inv (timer_cancel tid T)"
  using assms by (simp add: timers_inv_intros)

theorem timer_pool_invariant_witness:
  "timers_inv (snd (TimerAdd 0 100 Cyclic_cb None 0 5 (TimerInit :: (timer_cb, timer_arg) TIMER)))"
  using timer_pool_invariant [OF TimerInit_inv, of 0 100 Cyclic_cb "None :: timer_arg option" 0 5 0] by simp

text \<open>
  \<open>TimerAdd\<close> arms a timer exactly when a slot is free: then its identifier is added to
  those that will fire, and none that was running is lost; otherwise it returns the error
  and the pool is unchanged.
\<close>

theorem TimerAdd_arms:
  assumes "timers_inv T"
  shows "(Free T \<noteq> 0 \<longrightarrow> running_ids (snd (TimerAdd mode timeout cb a tid tick T)) = insert tid (running_ids T)) \<and>
     (Free T = 0 \<longrightarrow> TimerAdd mode timeout cb a tid tick T = (Some ERROR_TIMER_ADD_EMPTY, T))"
  using TimerAdd_running [OF assms] by (simp add: TimerAdd_def)

theorem TimerAdd_arms_witness:
  "running_ids (snd (TimerAdd 0 100 Cyclic_cb None 4 5 (TimerInit :: (timer_cb, timer_arg) TIMER))) = {4}"
proof -
  have "Free (TimerInit :: (timer_cb, timer_arg) TIMER) \<noteq> 0" "running_ids (TimerInit :: (timer_cb, timer_arg) TIMER) = {}"
    by (auto simp: TimerInit_def timer_consts running_ids_def zero_timer_def)
  with TimerAdd_arms [OF TimerInit_inv, of 0 100 Cyclic_cb "None :: timer_arg option" 4 5] show ?thesis by simp
qed

text \<open>
  Cancelling by identifier (look up, stop, delete) works when the identifier occurs in
  one slot only: afterwards no timer with that identifier runs and the others run on.
\<close>

theorem cancel_unique_id:
  assumes "timers_inv T"
    and "\<forall>i j. i < 10 \<longrightarrow> j < 10 \<longrightarrow> TimerID (TIMER_T T ! i) = tid \<longrightarrow> TimerID (TIMER_T T ! j) = tid \<longrightarrow> i = j"
  shows "running_ids (timer_cancel tid T) = running_ids T - {tid}"
  using assms by (intro timer_cancel_unique) blast+

text \<open>The pool after one \<open>TimerAdd\<close>: slot 0 runs.\<close>

definition one_timer :: "u8 \<Rightarrow> (timer_cb, timer_arg) TIMER" where
  "one_timer tid = snd (TimerAdd 0 100 Cyclic_cb None tid 5 TimerInit)"

lemma one_timer_eq:
  "one_timer tid = \<lparr> Free = 9, Unused = (replicate 10 1)[0 := 0],
     TIMER_T = (replicate 10 zero_timer)[0 := \<lparr> loop = 0, Runing = 1, PrevTick = 5, TimeOut = 100,
        TimerID = tid, arg = None, timer_callback = Some Cyclic_cb \<rparr>] \<rparr>"
proof -
  have "find (\<lambda>num. Unused (TimerInit :: (timer_cb, timer_arg) TIMER) ! num \<noteq> 0) [0..<MAX_TIMER_NUM] = Some 0"
    by (simp add: find_upt_Some TimerInit_def timer_consts)
  then show ?thesis by (simp add: one_timer_def TimerAdd_def) (simp add: TimerInit_def timer_consts)
qed

lemma one_timer_nth:
  "i < 10 \<Longrightarrow> TIMER_T (one_timer tid) ! i = (if i = 0 then \<lparr> loop = 0, Runing = 1, PrevTick = 5, TimeOut = 100,
        TimerID = tid, arg = None, timer_callback = Some Cyclic_cb \<rparr> else zero_timer)"
  by (simp add: one_timer_eq nth_list_update del: list_update.simps)

lemma one_timer_inv: "timers_inv (one_timer tid)" "running_ids (one_timer tid) = {tid}"
proof -
  show "timers_inv (one_timer tid)" unfolding one_timer_def by (rule TimerAdd_inv [OF TimerInit_inv])
  show "running_ids (one_timer tid) = {tid}"
    by (auto simp: running_ids_def one_timer_nth zero_timer_def intro: exI [of _ 0] split: if_splits)
qed

theorem cancel_unique_id_witness: "running_ids (timer_cancel 4 (one_timer 4)) = {}"
proof -
  have "\<forall>i j. i < 10 \<longrightarrow> j < 10 \<longrightarrow> TimerID (TIMER_T (one_timer 4) ! i) = 4 \<longrightarrow>
      TimerID (TIMER_T (one_timer 4) ! j) = 4 \<longrightarrow> i = j"
    by (simp add: one_timer_nth zero_timer_def)
  from cancel_unique_id [OF one_timer_inv(1) this] show ?thesis by (simp add: one_timer_inv)
qed

text \<open>
  A slot that was freed keeps its identifier, and the lookup takes it for the timer: if
  an unused slot with the identifier comes first, cancelling changes nothing, and a running
  timer of that identifier in a later slot fires although it was cancelled.
\<close>

theorem cancel_misses_running:
  assumes "timers_inv T" and "k < 10" and "TimerID (TIMER_T T ! k) = tid" and "Unused T ! k \<noteq> 0"
    and "\<forall>j < k. TimerID (TIMER_T T ! j) \<noteq> tid" and "tid \<in> running_ids T"
  shows "timer_cancel tid T = T \<and> tid \<in> running_ids (timer_cancel tid T)"
  using timer_cancel_stale [OF assms(1-5)] assms(6) by simp

text \<open>A freed slot 0 and a running slot 1 with the same identifier.\<close>

definition stale_pool :: "(timer_cb, timer_arg) TIMER" where
  "stale_pool = \<lparr> Free = 9, Unused = (replicate 10 1)[1 := 0],
     TIMER_T = (replicate 10 zero_timer)[0 := zero_timer\<lparr> TimerID := 4 \<rparr>,
       1 := zero_timer\<lparr> Runing := 1, TimerID := 4, timer_callback := Some Publish_timeout_cb \<rparr>] \<rparr>"

lemma stale_pool_nth:
  "i < 10 \<Longrightarrow> Unused stale_pool ! i = (if i = 1 then 0 else 1)"
  "i < 10 \<Longrightarrow> TIMER_T stale_pool ! i =
     (if i = 1 then zero_timer\<lparr> Runing := 1, TimerID := 4, timer_callback := Some Publish_timeout_cb \<rparr>
      else if i = 0 then zero_timer\<lparr> TimerID := 4 \<rparr> else zero_timer)"
  by (simp_all add: stale_pool_def nth_list_update del: list_update.simps)

lemma stale_pool_inv: "timers_inv stale_pool"
proof -
  have "unused_slots stale_pool = {..<10} - {1}"
    by (auto simp: unused_slots_def stale_pool_nth)
  then have "card (unused_slots stale_pool) = 9" by simp
  then show ?thesis
    by (simp add: timers_inv_def stale_pool_nth zero_timer_def) (simp add: stale_pool_def)
qed

theorem cancel_misses_running_witness:
  "timer_cancel 4 stale_pool = stale_pool \<and> 4 \<in> running_ids (timer_cancel 4 stale_pool)"
proof (rule cancel_misses_running [OF stale_pool_inv, of 0])
  show "4 \<in> running_ids stale_pool"
    unfolding running_ids_def by (rule CollectI, rule exI [of _ 1]) (simp add: stale_pool_nth)
qed (simp_all add: stale_pool_nth)

text \<open>
  A timeout is never reported early: when \<open>IS_TIME_OUT\<close> holds, more than \<open>timeout\<close>
  ticks, counted modulo the width of the tick counter, have passed since \<open>prev\<close>. It is
  reported at the first tick after \<open>timeout\<close>, or one tick later when the counter wrapped in
  between.
\<close>

theorem timeout_not_early:
  "(IS_TIME_OUT prev now timeout \<longrightarrow> now - prev > timeout) \<and>
   (now - prev > timeout \<and> \<not> IS_TIME_OUT prev now timeout \<longrightarrow> now < prev \<and> now - prev = timeout + 1)"
proof (intro conjI impI)
  assume "IS_TIME_OUT prev now timeout"
  then show "now - prev > timeout"
    using TIME_SUB_ABS_bound [of prev now] by (simp add: IS_TIME_OUT_def)
next
  assume h: "now - prev > timeout \<and> \<not> IS_TIME_OUT prev now timeout"
  then show "now < prev" using TIME_SUB_ABS_le [of prev now] by (cases "prev \<le> now") (auto simp: IS_TIME_OUT_def not_le)
next
  assume h: "now - prev > timeout \<and> \<not> IS_TIME_OUT prev now timeout"
  then have w: "now < prev" using TIME_SUB_ABS_le [of prev now] by (cases "prev \<le> now") (auto simp: IS_TIME_OUT_def not_le)
  then have "now - prev \<noteq> 0" by auto
  moreover from h w have "\<not> now - prev - 1 > timeout" by (simp add: IS_TIME_OUT_def TIME_SUB_ABS_wrap)
  ultimately have "unat (now - prev) = Suc (unat timeout)"
    using h by (auto simp: word_less_nat_alt unat_minus_one)
  moreover have "unat (now - prev) < 4294967296" using unsigned_less [where 'a = nat, of "now - prev"] by simp
  ultimately show "now - prev = timeout + 1" by (simp add: word_unat_eq_iff unat_word_ariths)
qed

theorem timeout_not_early_witness: "105 - 5 > (99 :: u32) \<and> IS_TIME_OUT 5 105 99"
  using timeout_not_early [of 5 105 99] by (simp add: IS_TIME_OUT_def TIME_SUB_ABS_def)

text \<open>
  A timer armed after the tick was sampled fires at once. \<open>TimerCheck\<close> compares every
  slot with a tick read before the callbacks run; a callback that runs after the counter
  moved on arms its timer with a later tick, and the elapsed time of a timer armed one tick
  after \<open>now\<close> is taken to be the whole range of the counter.
\<close>

theorem later_armed_fires_at_once:
  assumes "now \<noteq> 0xFFFFFFFF" and "timeout < 0xFFFFFFFE"
  shows "IS_TIME_OUT (now + 1) now timeout"
proof -
  have "now < now + 1" using assms(1) by (simp add: word_less_nat_alt unat_word_ariths word_unat_eq_iff)
    (use unsigned_less [where 'a = nat, of now] in simp)
  then have "\<not> now + 1 \<le> now" by simp
  with assms(2) show ?thesis by (simp add: IS_TIME_OUT_def TIME_SUB_ABS_def)
qed

theorem later_armed_fires_at_once_witness: "IS_TIME_OUT 1001 1000 10000"
  using later_armed_fires_at_once [of 1000 10000] by simp

section \<open>Topics\<close>

text \<open>
  Registration round trip: marking a topic as being registered and then completing it
  with the identifier the gateway assigned makes \<open>GetTopicID\<close> return that identifier for
  the topic's name, provided no other topic was being registered.
\<close>

theorem registration_returns_id:
  assumes "topics_inv m" and "i < 2" and "\<forall>j < 2. status (toppiclist m ! j) \<noteq> registering"
  shows "word_of_int (GetTopicID (topiclist ! i)
           (snd (TopicidRegistered k (snd (TopicidRegistering (topiclist ! i) m))))) = k"
  by (rule registration_roundtrip [OF assms])

lemma ready_topics_status: "j < 2 \<Longrightarrow> status (toppiclist ready_topics ! j) = unregister"
  by (auto simp: ready_topics_def topiclist_def less_2_cases_iff)

theorem registration_returns_id_witness:
  "word_of_int (GetTopicID (topiclist ! 1)
     (snd (TopicidRegistered 0x8001 (snd (TopicidRegistering (topiclist ! 1) ready_topics))))) = (0x8001 :: u16)"
  by (rule registration_returns_id [OF ready_topics_inv]) (simp_all add: ready_topics_status)

text \<open>
  A topic that is only being registered counts as registered for the demo task:
  \<open>registertopicfinsh\<close> looks for unregistered topics only. When the first topic is being
  registered and the second is not unregistered, the task's guard holds and the topic
  identifier it publishes to is 0xFFFF, the conversion of the error value -1.
\<close>

theorem publishes_to_unregistered:
  assumes "sys_inv w" and "status (toppiclist (MY_TopicIDMap w) ! 0) = registering"
    and "status (toppiclist (MY_TopicIDMap w) ! 1) \<noteq> unregister"
  shows "registertopicfinsh w = 1 \<and>
     (word_of_int (GetTopicID (topiclist ! 0) (MY_TopicIDMap w)) :: u16) = 0xFFFF"
  using assms GetTopicID_unregistered [OF sys_inv_parts(1) [OF assms(1)], of 0]
  by (auto simp: registertopicfinsh_def MQTT_SN_CLIENT_LIST_MAX_def less_2_cases_iff)

theorem publishes_to_unregistered_witness:
  "\<exists>w. sys_inv w \<and> registertopicfinsh w = 1 \<and>
     (word_of_int (GetTopicID (topiclist ! 0) (MY_TopicIDMap w)) :: u16) = 0xFFFF"
proof -
  let ?m = "snd (TopicidRegistering (topiclist ! 0) (snd (TopicidRegistering (topiclist ! 1) ready_topics)))"
  let ?w = "(ready MQTT_SN_CONNECTED)\<lparr> MY_TopicIDMap := ?m \<rparr>"
  have t: "topics_inv (snd (TopicidRegistering (topiclist ! 1) ready_topics))"
    by (rule TopicidRegistering_inv [OF ready_topics_inv])
  have inv: "sys_inv ?w" using ready_inv(1) TopicidRegistering_inv [OF t] by simp
  have len: "length (toppiclist ready_topics) = 2" by (simp add: ready_topics_def topiclist_def)
  have st: "status (toppiclist ?m ! 0) = registering" "status (toppiclist ?m ! 1) = registering"
    using TopicidRegistering_status [OF ready_topics_inv, of 1] TopicidRegistering_status [OF t, of 0] len by simp_all
  have "registertopicfinsh ?w = 1 \<and> (word_of_int (GetTopicID (topiclist ! 0) (MY_TopicIDMap ?w)) :: u16) = 0xFFFF"
    using st by (intro publishes_to_unregistered [OF inv]) simp_all
  with inv show ?thesis by (intro exI [of _ ?w] conjI) simp_all
qed

section \<open>Gateways\<close>

text \<open>
  A gateway that is not in a consistent list with room is entered into a free slot, the
  count stays the number of used slots, and no other entry changes.
\<close>

theorem gateway_appended:
  assumes "gw_inv G" and "\<forall>i < 3. gw_used G i \<longrightarrow> gw_ID (gwList G ! i) \<noteq> gwid" and "gw_count G < 3"
  shows "\<exists>G' k. gwListappend G addr port gwid ka tick = Ok (0, G') \<and> gw_inv G' \<and> k < 3 \<and>
     \<not> gw_used G k \<and> gw_used G' k \<and> gw_ID (gwList G' ! k) = gwid \<and> gw_addr (gwList G' ! k) = addr \<and>
     gw_port (gwList G' ! k) = port \<and> gw_keepalive (gwList G' ! k) = ka \<and> gw_lasttime (gwList G' ! k) = tick \<and>
     (\<forall>j < 3. j \<noteq> k \<longrightarrow> gwList G' ! j = gwList G ! j)"
  by (rule gwListappend_new [OF assms])

theorem gateway_appended_witness:
  "\<exists>G' k. gwListappend zero_gwlist 1 2 3 4 5 = Ok (0, G') \<and> gw_used G' k \<and> gw_ID (gwList G' ! k) = 3"
  using gateway_appended [OF zero_gwlist_inv, of 3 1 2 4 5]
  by (auto simp: gw_count_sum gw_used_def zero_gwlist_def zero_gwitem_def MQTT_GW_LISTNUM_MAX_def)

text \<open>
  A gateway that stops advertising is dropped: each pass over the list that finds its
  keep-alive interval over counts a miss and restarts the interval, and the fourth miss frees
  the slot.
\<close>

theorem gateway_expires:
  assumes "gw_inv G" and "i < 3" and "gw_used G i"
    and "tick > gw_lasttime (gwList G ! i) + ucast (gw_keepalive (gwList G ! i))"
  shows "(gw_Nadv (gwList G ! i) < 3 \<longrightarrow> (\<exists>G'. gwListupdata_slot tick G i = Ok G' \<and> gw_used G' i \<and>
            gw_Nadv (gwList G' ! i) = gw_Nadv (gwList G ! i) + 1 \<and> gw_lasttime (gwList G' ! i) = tick)) \<and>
         (gw_Nadv (gwList G ! i) = 3 \<longrightarrow> (\<exists>G'. gwListupdata_slot tick G i = Ok G' \<and> \<not> gw_used G' i \<and> gw_inv G'))"
  using gwListupdata_slot_expired [OF assms] gwListupdata_slot_inv [OF assms(1,2), of tick] by fastforce

theorem gateway_expires_witness:
  "\<exists>G G'. gw_used G 0 \<and> gwListupdata_slot 100 G 0 = Ok G' \<and> gw_used G' 0 \<and> gw_Nadv (gwList G' ! 0) = 1"
proof -
  let ?it = "\<lparr> gw_ID = 3, gw_Nadv = 0, gw_port = 2, gw_keepalive = 4, gw_addr = 1, gw_usedflag = 1, gw_lasttime = 5 \<rparr>"
  let ?G = "\<lparr> gwList = [?it, zero_gwitem, zero_gwitem], gwListAvalidNum = 1 \<rparr>"
  have inv: "gw_inv ?G" "gw_used ?G 0"
    by (simp_all add: gw_inv_def gw_wf_def gw_count_sum gw_used_def zero_gwitem_def)
  have "\<exists>G'. gwListupdata_slot 100 ?G 0 = Ok G' \<and> gw_used G' 0 \<and> gw_Nadv (gwList G' ! 0) = 1"
    using gateway_expires [OF inv(1) _ inv(2), of 100] by auto
  with inv(2) show ?thesis by blast
qed

text \<open>
  The refresh of a known gateway breaks the list. Three gateways enter, the first is
  deleted, and the second advertises again: it is stored into slot 0 as well, so all three
  slots are used while the count says two. A further gateway then finds no free slot and is
  stored at an uninitialised index.
\<close>

theorem gateway_refresh_overruns:
  "bind_outcome (gwListappend zero_gwlist a1 p1 1 k1 t1) (\<lambda>(_, G1).
   bind_outcome (gwListappend G1 a2 p2 2 k2 t2) (\<lambda>(_, G2).
   bind_outcome (gwListappend G2 a3 p3 3 k3 t3) (\<lambda>(_, G3).
   bind_outcome (gwListdel G3 0) (\<lambda>(_, G4).
   bind_outcome (gwListappend G4 a2 p2 2 k2 t4) (\<lambda>(_, G5).
   gwListappend G5 a4 p4 4 k4 t5))))) = Halt Overrun"
  by (simp add: gwListappend_def gwListdel_def zero_gwlist_def zero_gwitem_def MQTT_GW_LISTNUM_MAX_def
      find_three [unfolded MQTT_GW_LISTNUM_MAX_def] gw_used_def Let_def numeral_3_eq_3)

end
