(* ===== verification/ClientProps.thy ===== *)
theory ClientProps
  imports ClientFrames
begin

text \<open>
  The properties of the client's receive path and of its handlers, and of the packets it
  sends, each with a concrete instance.
\<close>

unbundle bit_operations_syntax

section \<open>Reception\<close>

lemmas command_defs = CmdConfirm_def getAPIFUN_def g_api_table_def MQTT_SN_TYPE_ADVERTISE_def
  MQTT_SN_TYPE_GWINFO_def MQTT_SN_TYPE_CONNACK_def MQTT_SN_TYPE_WILLTOPICREQ_def
  MQTT_SN_TYPE_WILLMSGREQ_def MQTT_SN_TYPE_REGACK_def MQTT_SN_TYPE_PUBACK_def MQTT_SN_TYPE_PUBCOMP_def
  MQTT_SN_TYPE_PUBREC_def MQTT_SN_TYPE_PUBREL_def MQTT_SN_TYPE_SUBACK_def MQTT_SN_TYPE_UNSUBACK_def
  MQTT_SN_TYPE_DISCONNECT_def MQTT_SN_TYPE_PINGRESP_def MQTT_SN_TYPE_PINGREQ_def MQTT_SN_TYPE_PUBLISH_def

lemma recv_frame_state:
  assumes inv: "sys_inv w" and fs: "frames_in fs w" and few: "length fs < 10" and p: "good_frame p"
    and room: "length (concat fs) + length p < 512"
    and cmd: "CmdConfirm (p ! 1) = 0" and cb: "getAPIFUN (p ! 1) = Some cb"
  shows "\<exists>w'. UdpServer_recv_cb p addr port w = Ok w' \<and> sys_inv w' \<and> frames_in (fs @ [p]) w' \<and>
           gw w' = \<lparr> gwi_addr = addr, gwi_port = port \<rparr> \<and> Status w' = Status w \<and>
           Systime w' = snd (TimerAdd TIMER_MODE_SINGLE 100 cb (Some Arg_gw) 0 (xTickCount w) (Systime w))"
proof -
  obtain pcb where pcb: "Sock w = Some pcb" using inv by (auto simp: sys_inv_def)
  from recv_frame [OF assms pcb] obtain q b where
    run: "UdpServer_recv_cb p addr port w =
       Ok (timer_add TIMER_MODE_SINGLE 100 cb (Some Arg_gw) 0
             (w\<lparr> Sock := Some (pcb\<lparr> remote_port := port, remote_ip := addr \<rparr>),
                mqtt_sn_client := (mqtt_sn_client w)\<lparr> rx_buffer := q \<rparr>, BuffBody := b,
                gw := \<lparr> gwi_addr = addr, gwi_port = port \<rparr> \<rparr>))" (is "_ = Ok ?w'")
    and q: "fifo_inv q" "fifo_lens q = fifo_lens (rxq w) @ [word_of_nat (length p)]"
    and b: "buff_inv b" "buff_bytes b = concat (fs @ [p])" by blast
  have "sys_inv ?w'" using runs_UdpServer_recv_cb [OF inv refl good_frame_len(3) [OF p], of "{}" addr port] run by simp
  moreover have "frames_in (fs @ [p]) ?w'"
    using q b fs p by (simp add: frames_in_def timer_add_def)
  ultimately show ?thesis using run by (simp add: timer_add_def)
qed








section \<open>Handlers\<close>

text \<open>Sending while \<open>pbuf_alloc\<close> succeeds, and the bytes of a frame in the handler's array.\<close>

lemma send_data_run:
  assumes "pbuf_ok w" and "Sock w = Some pcb" and "n \<le> length d"
  shows "MQTTSNClientSendData d n w =
     Ok (w\<lparr> net_out := net_out w @ [\<lparr> dg_ip = remote_ip pcb, dg_port = remote_port pcb, dg_data = take n d \<rparr>] \<rparr>)"
  using assms by (simp add: MQTTSNClientSendData_Ok_iff)

lemma frame_array_nth: "i < length f \<Longrightarrow> frame_array f w ! i = f ! i"
  by (simp add: frame_array_def nth_append)

lemma le16_bytes_le16: "le16_bytes (le16 lo hi) = [lo, hi]"
  unfolding le16_bytes_def le16_def
  by (simp, intro conjI; rule bit_word_eqI; auto simp: bit_simps dest: bit_imp_le_length)

lemma frames_good: "frames_in (f # fs) w \<Longrightarrow> good_frame f"
  by (simp add: frames_in_def)

text \<open>
  C29: A received PUBLISH frame is delivered: its payload, all bytes from the seventh on, is
  printed. If its quality-of-service-1 bit is set the client answers with seven bytes that
  carry the topic identifier and the message identifier of the frame and the return code
  0. The answer has message type 0x13, SUBACK, where the protocol's answer to a PUBLISH is
  PUBACK, 0x0D.
\<close>

theorem publish_delivered:
  assumes "sys_inv w" and "frames_in (f # fs) w" and "pbuf_ok w" and "Sock w = Some pcb"
    and "f ! 1 = MQTT_SN_TYPE_PUBLISH" and "7 \<le> length f"
  shows "\<exists>w'. api_publish_press w = Ok w' \<and> frames_in fs w' \<and> console w' = console w @ [drop 7 f] \<and>
     net_out w' = net_out w @
       (if f ! 2 AND 0x20 \<noteq> 0
        then [\<lparr> dg_ip = remote_ip pcb, dg_port = remote_port pcb,
                dg_data = [7, 0x13, f ! 3, f ! 4, f ! 5, f ! 6, 0] \<rparr>]
        else [])"
proof -
  from assms(1,2) quiet_pres(1) obtain q b where
    run: "\<forall>also_if body. with_frame (\<lambda>w. w) also_if body w =
      (if also_if (word_of_nat (length f)) then body (frame_array f w) (consume q b w) else Ok (consume q b w))"
    and fs: "frames_in fs (consume q b w)" and "sys_inv (consume q b w)"
      "pbuf_ok (consume q b w) = pbuf_ok w" "Status (consume q b w) = Status w" by (rule handle_frame_quiet)
  let ?v = "consume q b w"
  have g: "unat (f ! 0) = length f"
    using frames_good [OF assms(2)] good_frame_len(1) by (simp add: good_frame_def)
  then have nth: "frame_array f w ! i = f ! i" if "i < 7" for i using that assms(6) by (simp add: frame_array_nth)
  have pay: "take (length f - 7) (drop 7 (frame_array f w)) = drop 7 f"
    using assms(6) by (simp add: frame_array_def)
  have v: "net_out ?v = net_out w" "console ?v = console w" "pbuf_ok ?v" "Sock ?v = Some pcb"
    using assms(3,4) by (simp_all add: consume_def)
  have st: "frames_in fs (?v\<lparr> net_out := x, console := y \<rparr>)" "frames_in fs (?v\<lparr> console := y \<rparr>)" for x y
    using fs by (simp_all add: frames_in_def)
  show ?thesis
    using assms(5) v st pay g
    by (simp add: api_publish_press_def run nth mqtt_sn_send_publishack_def send_data_run MQTT_SN_FLAG_QOS_1_def puback_packet_def
        le16_bytes_le16 MQTT_SN_TYPE_SUBACK_def)
qed

theorem publish_delivered_witness:
  "\<exists>w'. api_publish_press (ready_with [9, 0x0C, 0x20, 1, 0, 2, 0, 65, 66] MQTT_SN_CONNECTED) = Ok w' \<and>
     console w' = [[65, 66]] \<and> map dg_data (net_out w') = [[7, 0x13, 1, 0, 2, 0, 0]]"
proof -
  have "good_frame [9, 0x0C, 0x20, 1, 0, 2, 0, 65, 66]" by (simp add: good_frame_def)
  from publish_delivered [OF ready_with_inv [OF this], of MQTT_SN_CONNECTED]
  show ?thesis
    by (auto simp: MQTT_SN_TYPE_PUBLISH_def) (simp_all add: ready_with_def ready_def zero_sys_def)
qed

text \<open>
  PUBCOMP, PUBREC and PUBREL frames are queued like any other but their handlers have
  empty bodies and leave them there. The next handler takes that frame instead of its own:
  after a PUBREC and then a PUBLISH, the handler of the PUBLISH takes the PUBREC frame and
  delivers nothing, and the PUBLISH frame stays in the queue.
\<close>

theorem pubrec_desynchronises:
  assumes "sys_inv w" and "frames_in (f # g # fs) w" and "pbuf_ok w"
    and "f ! 1 \<noteq> MQTT_SN_TYPE_PUBLISH"
    and "cb \<in> {Api_pubcomp, Api_pubrec, Api_pubrel}"
  shows "\<exists>w'. bind_outcome (run_callback cb a w) (run_callback Api_publish a) = Ok w' \<and>
     frames_in (g # fs) w' \<and> console w' = console w"
proof -
  have "run_callback cb a w = Ok w"
    using assms(5) by (auto simp: api_pubcomp_press_def api_pubrec_press_def api_pubrel_press_def)
  moreover have "frame_array f w ! 1 = f ! 1"
    using frames_good [OF assms(2)] by (intro frame_array_nth) (simp add: good_frame_def)
  then have "frame_array f w ! 1 \<noteq> MQTT_SN_TYPE_PUBLISH" using assms(4) by simp
  moreover from assms(1,2) quiet_pres(1) obtain q b where
    "\<forall>also_if body. with_frame (\<lambda>w. w) also_if body w =
      (if also_if (word_of_nat (length f)) then body (frame_array f w) (consume q b w) else Ok (consume q b w))"
    "frames_in (g # fs) (consume q b w)" "sys_inv (consume q b w)"
    "pbuf_ok (consume q b w) = pbuf_ok w" "Status (consume q b w) = Status w" by (rule handle_frame_quiet)
  ultimately show ?thesis by (simp add: api_publish_press_def) (simp add: consume_def)
qed

theorem pubrec_desynchronises_witness:
  "\<exists>w w'. frames_in [[4, 0x0F, 1, 0], [8, 0x0C, 0, 1, 0, 0, 0, 65]] w \<and>
     bind_outcome (run_callback Api_pubrec (Some Arg_gw) w) (run_callback Api_publish (Some Arg_gw)) = Ok w' \<and>
     frames_in [[8, 0x0C, 0, 1, 0, 0, 0, 65]] w' \<and> console w' = console w"
proof -
  let ?f = "[4, 0x0F, 1, 0] :: u8 list" and ?g = "[8, 0x0C, 0, 1, 0, 0, 0, 65] :: u8 list"
  let ?w0 = "ready_with ?f MQTT_SN_CONNECTED"
  have fg: "good_frame ?f" "good_frame ?g" by (simp_all add: good_frame_def)
  from recv_frame_state [OF ready_with_inv [OF fg(1), of MQTT_SN_CONNECTED], of ?g Api_publish 1 10000] fg
  obtain w where w: "UdpServer_recv_cb ?g 1 10000 ?w0 = Ok w" "sys_inv w" "frames_in [?f, ?g] w"
    by (auto simp: command_defs)
  have "pbuf_ok w"
    using runs_UdpServer_recv_cb [OF ready_with_inv(1) [OF fg(1)] refl good_frame_len(3) [OF fg(2)],
        of "{}" MQTT_SN_CONNECTED 1 10000] w(1) by simp
  with pubrec_desynchronises [OF w(2,3), of Api_pubrec "Some Arg_gw"] w(3) show ?thesis
    by (auto simp: MQTT_SN_TYPE_PUBLISH_def)
qed

section \<open>Connection status\<close>

lemma post_with_frame:
  assumes "\<And>d v. Status v = Status w \<Longrightarrow> post R (body d v)" and "\<And>v. Status v = Status w \<Longrightarrow> R v"
    and "quiet pre"
  shows "post R (with_frame pre also_if body w)"
proof -
  have pre: "Status (pre v) = Status v" for v using assms(3) by (simp add: quiet_def)
  show ?thesis
    unfolding with_frame_def rx_length_def rx_bytes_def bind_outcome_assoc Let_def
    using assms(1,2) pre
    by (cases "ReadClientImportindex (rxq w)")
      (auto simp: split_beta split: outcome.split intro!: post_bind [where Q = "\<lambda>_. True"], simp_all add: post_def)
qed

lemma post_mono: "post Q m \<Longrightarrow> (\<And>x. Q x \<Longrightarrow> R x) \<Longrightarrow> post R m"
  by (simp add: post_def)

lemma post_True: "post (\<lambda>_. True) m"
  by (simp add: post_def)

lemma post_register_loop: "st_same w v \<Longrightarrow> post (st_same w) (send_register_loop ks v)"
proof (induction ks arbitrary: v)
  case (Cons i ks)
  then show ?case by (auto intro!: post_bind [where Q = "st_same w"] post_senders)
qed simp

lemma post_cyclic: "post (\<lambda>v. Status v = Status w) (mqtt_sn_client_cyclic w)"
proof -
  have reg: "post (st_same v) (registeralltopic v)" for v
    by (auto simp: registeralltopic_def find_two intro!: post_bind [OF post_senders(5)] split: if_splits)
  have "post (\<lambda>v. Status v = Status w) (bind_outcome (registeralltopic v) (\<lambda>w3.
          let w4 = client_upd (\<lambda>c. c\<lparr> server_watchdog := server_watchdog c - 1 \<rparr>) w3
          in if server_watchdog (mqtt_sn_client w4) = 0 then mqtt_sn_send_pingreq WEAKUP w4 else Ok w4))"
    if "Status v = Status w" for v
    using that
    by (intro post_bind [OF reg])
      (auto simp: st_same_def Let_def intro!: post_mono [OF post_pingreq [OF same_refl(2)]])
  then show ?thesis
    unfolding mqtt_sn_client_cyclic_def Let_def
    by (cases "Status w = MQTT_SN_CONNECTED"; intro post_bind [OF post_True]) simp_all
qed

lemma post_status_handlers:
  "post (\<lambda>v. Status v = Status w) (api_willtopicreq_press w)"
  "post (\<lambda>v. Status v = Status w) (api_willmsgreq w)"
  "post (\<lambda>v. Status v = Status w) (api_pingres_press w)"
  "post (\<lambda>v. Status v = Status w) (api_pingreq_press w)"
  "post (\<lambda>v. Status v = Status w) (api_regack_press w)"
  "post (\<lambda>v. Status v = Status w) (api_publish_press w)"
  "post (\<lambda>v. Status v = Status w) (api_suback_press w)"
  "post (\<lambda>v. Status v = Status w) (api_unsuback_press w)"
  "post (\<lambda>v. Status v = Status w) (api_puback_press w)"
  "post (\<lambda>v. Status v = Status w) (api_advertise_press a w)"
  "post (\<lambda>v. Status v = Status w) (api_gwinfo_press a w)"
  unfolding handler_defs
  by (rule post_with_frame; auto simp: Let_def st_same_def
      intro!: post_senders [OF same_refl(2), THEN post_mono] post_send(1) [OF same_refl(2), THEN post_mono]
        post_append_gateway [THEN post_mono] post_bind [OF post_senders(6) [OF same_refl(2)]])+

lemma post_connack:
  "post (\<lambda>v. Status v = Status w \<or> Status w = MQTT_SN_CONNECTING \<and> Status v = MQTT_SN_CONNECTED) (api_connack_press w)"
  unfolding api_connack_press_def
  by (rule post_with_frame) (auto simp: st_same_def intro!: post_senders(1) [OF same_refl(2), THEN post_mono])

lemma post_disconnet:
  "post (\<lambda>v. Status v = Status w \<or> Status v = MQTT_SN_NOTCONNECT) (api_disconnet_press w)"
  unfolding api_disconnet_press_def by (rule post_with_frame) auto

lemma post_send_connect:
  "post (\<lambda>v. Status v = MQTT_SN_CONNECTING) (mqtt_sn_send_connect cid ka fl w)"
  unfolding mqtt_sn_send_connect_def Let_def
  by (auto intro!: post_bind [OF post_True])

lemma post_pingreq_timeout:
  "post (\<lambda>v. Status v = Status w \<or> Status v = MQTT_SN_DISCONNECTING) (mqtt_sn_client_pingreq_timeout_cb a w)"
  unfolding mqtt_sn_client_pingreq_timeout_cb_def Let_def mqtt_sn_send_disconnect_def
  by (auto simp: st_same_def intro!: post_pingreq [OF same_refl(2), THEN post_mono] post_bind [OF post_True])

text \<open>
  C17: The connection status changes only along these edges, whichever callback runs: the
  CONNACK handler moves CONNECTING to CONNECTED; the connect retry moves a client that is not
  connected to CONNECTING; the DISCONNECT handler ends in NOTCONNECT; the ping timeout ends
  in DISCONNECTING. Every other callback, the publish handler and the cycle among them, keeps
  the status.
\<close>

theorem status_edges:
  assumes "run_callback cb a w = Ok w'" and "Status w' \<noteq> Status w"
  shows "(cb = Api_connack \<and> Status w = MQTT_SN_CONNECTING \<and> Status w' = MQTT_SN_CONNECTED) \<or>
         (cb = Send_connect_cb \<and> Status w \<noteq> MQTT_SN_CONNECTED \<and> Status w' = MQTT_SN_CONNECTING) \<or>
         (cb = Api_disconnet \<and> Status w' = MQTT_SN_NOTCONNECT) \<or>
         (cb = Pingreq_timeout_cb \<and> Status w' = MQTT_SN_DISCONNECTING)"
proof -
  have keep: False if "post (\<lambda>v. Status v = Status w) (run_callback cb a w)"
    using that assms by (simp add: post_def)
  have send: "post (\<lambda>v. Status v = Status w) m" if "post (st_same w) m" for m
    using that by (simp add: post_def st_same_def)
  have cbs: "post (st_same w) (mqtt_sn_send_register_cb a w)" "post (st_same w) (mqtt_sn_client_publish_timeout_cb a w)"
    "post (st_same w) (mqtt_sn_client_subscribe_timeout_cb a w)"
    "post (st_same w) (mqtt_sn_client_subscribe_timeout_id_cb a w)"
    by (auto simp: mqtt_sn_send_register_cb_def mqtt_sn_client_publish_timeout_cb_def Let_def
        mqtt_sn_client_subscribe_timeout_cb_def mqtt_sn_client_subscribe_timeout_id_cb_def
        intro!: post_register_loop post_senders)
  have conn: "post (\<lambda>v. Status v = Status w \<or> Status w \<noteq> MQTT_SN_CONNECTED \<and> Status v = MQTT_SN_CONNECTING)
      (mqtt_sn_send_connect_cb a w)"
    by (auto simp: mqtt_sn_send_connect_cb_def Let_def intro!: post_send_connect [THEN post_mono])
  show ?thesis
    using assms keep send cbs conn post_status_handlers [of w] post_connack [of w] post_disconnet [of w]
      post_pingreq_timeout [of w a] post_cyclic [of w]
    by (cases cb) (auto simp: mqtt_sn_client_cyclic_cb_def api_pubcomp_press_def api_pubrec_press_def
        api_pubrel_press_def post_def)
qed

lemma connack_run:
  assumes "sys_inv w" and "frames_in (f # fs) w" and "pbuf_ok w"
    and "f = [3, MQTT_SN_TYPE_CONNACK, 0]" and "Status w = MQTT_SN_CONNECTING"
  shows "\<exists>w'. api_connack_press w = Ok w' \<and> frames_in fs w' \<and> Status w' = MQTT_SN_CONNECTED \<and>
     Systime w' = timer_cancel TIMER_ID_OF_CONNCET (Systime w) \<and>
     net_out w' = net_out w @ [\<lparr> dg_ip = 0xFFFFFFFF, dg_port = 10000, dg_data = [2, 1, 0] \<rparr>]"
proof -
  from assms(1,2) quiet_pres(2) obtain q b where
    run: "\<forall>also_if body. with_frame (cancel_timer TIMER_ID_OF_CONNCET) also_if body w =
      (if also_if (word_of_nat (length f)) then body (frame_array f w) (consume q b (cancel_timer TIMER_ID_OF_CONNCET w))
       else Ok (consume q b (cancel_timer TIMER_ID_OF_CONNCET w)))"
    and v: "frames_in fs (consume q b (cancel_timer TIMER_ID_OF_CONNCET w))"
      "sys_inv (consume q b (cancel_timer TIMER_ID_OF_CONNCET w))"
      "pbuf_ok (consume q b (cancel_timer TIMER_ID_OF_CONNCET w)) = pbuf_ok w"
      "Status (consume q b (cancel_timer TIMER_ID_OF_CONNCET w)) = Status w" by (rule handle_frame_quiet)
  let ?v = "consume q b (cancel_timer TIMER_ID_OF_CONNCET w)"
  let ?o = "[\<lparr> dg_ip = 0xFFFFFFFF, dg_port = 10000, dg_data = [2, 1, 0] \<rparr>]"
  let ?w' = "(client_upd (\<lambda>c. c\<lparr> MqttSN_Status := MQTT_SN_CONNECTED \<rparr>) ?v)\<lparr> net_out := net_out ?v @ ?o \<rparr>"
  have ip: "My_IP4_ADDR 255 255 255 255 = 0xFFFFFFFF" by (simp add: My_IP4_ADDR_def htonl_def)
  have "Sock ?v \<noteq> None" using v(2) by (simp add: sys_inv_def)
  then have gg: "mqtt_sn_getgateway_info 10000 (client_upd (\<lambda>c. c\<lparr> MqttSN_Status := MQTT_SN_CONNECTED \<rparr>) ?v) = Ok ?w'"
    using v(3) assms(3) by (simp add: mqtt_sn_getgateway_info_def SockSendDataStream_def ip)
  have arr: "frame_array f w ! 1 = MQTT_SN_TYPE_CONNACK" "frame_array f w ! 2 = 0" "length f = 3"
    by (simp_all add: assms(4) frame_array_nth)
  have "Status ?v = MQTT_SN_CONNECTING" using v(4) assms(5) by simp
  then have "api_connack_press w = Ok ?w'"
    unfolding api_connack_press_def run [rule_format] arr by (simp add: gg)
  moreover have "frames_in fs ?w'" using v(1) by (simp add: frames_in_def)
  moreover have "Systime ?w' = timer_cancel TIMER_ID_OF_CONNCET (Systime w)" "net_out ?w' = net_out w @ ?o"
    "Status ?w' = MQTT_SN_CONNECTED"
    by (simp_all add: consume_def cancel_timer_def)
  ultimately show ?thesis by blast
qed

lemma connack_witness_run:
  "\<exists>w'. api_connack_press (ready_with [3, 0x05, 0] MQTT_SN_CONNECTING) = Ok w' \<and> Status w' = MQTT_SN_CONNECTED"
proof -
  have g: "good_frame [3, 0x05, 0]" by (simp add: good_frame_def)
  have f: "[3, 0x05, 0] = [3, MQTT_SN_TYPE_CONNACK, 0 :: u8]" by (simp add: MQTT_SN_TYPE_CONNACK_def)
  from connack_run [OF ready_with_inv [OF g] ready_fields(2) f ready_fields(4)] show ?thesis by blast
qed

theorem status_edges_witness:
  "\<exists>w'. run_callback Api_connack (Some Arg_gw) (ready_with [3, 0x05, 0] MQTT_SN_CONNECTING) = Ok w' \<and>
     Status w' \<noteq> MQTT_SN_CONNECTING \<and> Status w' = MQTT_SN_CONNECTED"
proof -
  obtain w' where w': "api_connack_press (ready_with [3, 0x05, 0] MQTT_SN_CONNECTING) = Ok w'"
    "Status w' = MQTT_SN_CONNECTED" using connack_witness_run by blast
  have "run_callback Api_connack (Some Arg_gw) (ready_with [3, 0x05, 0] MQTT_SN_CONNECTING) = Ok w'"
    using w'(1) by simp
  from this status_edges [OF this] w'(2) show ?thesis by auto
qed

text \<open>
  An accepted CONNACK connects a connecting client: the handler takes the frame, cancels
  the connect timer, sets the status to CONNECTED and broadcasts a SEARCHGW of three bytes.
\<close>

theorem connack_connects:
  assumes "sys_inv w" and "frames_in ([3, MQTT_SN_TYPE_CONNACK, 0] # fs) w" and "pbuf_ok w"
    and "Status w = MQTT_SN_CONNECTING"
  shows "\<exists>w'. api_connack_press w = Ok w' \<and> frames_in fs w' \<and> Status w' = MQTT_SN_CONNECTED \<and>
     Systime w' = timer_cancel TIMER_ID_OF_CONNCET (Systime w) \<and>
     net_out w' = net_out w @ [\<lparr> dg_ip = 0xFFFFFFFF, dg_port = 10000, dg_data = [2, 1, 0] \<rparr>]"
  using connack_run [OF assms(1-3) refl assms(4)] .

theorem connack_connects_witness:
  "\<exists>w'. api_connack_press (ready_with [3, 0x05, 0] MQTT_SN_CONNECTING) = Ok w' \<and> frames_in [] w' \<and>
     Status w' = MQTT_SN_CONNECTED"
proof -
  have "good_frame [3, MQTT_SN_TYPE_CONNACK, 0]" by (simp add: good_frame_def)
  from connack_connects [OF ready_with_inv [OF this] ready_fields(2) ready_fields(4)] show ?thesis
    unfolding MQTT_SN_TYPE_CONNACK_def by blast
qed

text \<open>
  A datagram whose command passes \<open>CmdConfirm\<close> but has no handler (SEARCHGW, CONNECT,
  WILLTOPIC, WILLMSG, REGISTER, SUBSCRIBE, UNSUBSCRIBE and 0x1A to 0x1D) is queued, and then
  the oldest frame is taken from the queue, not the new one: a frame that waits for its
  handler is lost and the unhandled one takes its place.
\<close>

theorem unhandled_drops_oldest:
  assumes "sys_inv w" and "frames_in (g # gs) w" and "length (g # gs) < 10" and "good_frame p"
    and "length (concat (g # gs)) + length p < 512"
    and "CmdConfirm (p ! 1) = 0" and "getAPIFUN (p ! 1) = None"
  shows "\<exists>w'. UdpServer_recv_cb p addr port w = Ok w' \<and> sys_inv w' \<and> frames_in (gs @ [p]) w' \<and>
     Systime w' = Systime w"
proof -
  obtain pcb where pcb: "Sock w = Some pcb" using assms(1) by (auto simp: sys_inv_def)
  have c: "fifo_inv (rxq w)" "fifo_lens (rxq w) = word_of_nat (length g) # map (\<lambda>f. word_of_nat (length f)) gs"
    "buff_bytes (BuffBody w) = g @ concat gs" using assms(2) by (simp_all add: frames_in_def)
  have p: "2 \<le> length p" "length p \<le> 255" "p ! 0 \<noteq> 1"
    using assms(4) good_frame_len(4) [OF assms(4)] by (simp_all add: good_frame_def)
  have cnt: "fifo_count (rxq w) < 10" "buff_count (BuffBody w) + length p < 512"
    using frames_in_counts [OF assms(2)] assms(3,5) by simp_all
  let ?w1 = "\<lambda>q b. w\<lparr> Sock := Some (pcb\<lparr> remote_port := port, remote_ip := addr \<rparr>),
                mqtt_sn_client := (mqtt_sn_client w)\<lparr> rx_buffer := q \<rparr>, BuffBody := b \<rparr>"
  from recv_datagram [OF assms(1) c(1) cnt(1) p cnt(2) assms(6) pcb, of addr port] obtain q b where
    qb: "UdpServer_recv_cb p addr port w = mqtt_sn_socket_incomm_cb addr port (p ! 1) (?w1 q b)"
    "fifo_inv q" "fifo_lens q = fifo_lens (rxq w) @ [word_of_nat (length p)]"
    "buff_inv b" "buff_bytes b = buff_bytes (BuffBody w) @ p" by auto
  let ?v = "(?w1 q b)\<lparr> gw := \<lparr> gwi_addr = addr, gwi_port = port \<rparr> \<rparr>"
  have inv: "sys_inv ?v" using assms(1) qb(2,4) by (simp add: sys_inv_def client_ok_def fifo_inv_def)
  have gg: "1 \<le> length g" "length g \<le> 255" "g ! 0 = word_of_nat (length g)"
    using frames_good [OF assms(2)] by (simp_all add: good_frame_def)
  have "fifo_inv (rxq ?v)" "buff_bytes (BuffBody ?v) = g @ concat (gs @ [p])"
    "fifo_lens (rxq ?v) = word_of_nat (length g) # map (\<lambda>f. word_of_nat (length f)) (gs @ [p])"
    using qb c by simp_all
  from with_frame_run [OF inv this(1,3) gg(1,2) this(2) quiet_pres(1)] gg(3) obtain q' b' where
    run: "\<forall>also_if body. with_frame (\<lambda>w. w) also_if body ?v =
       (if also_if (word_of_nat (length g)) then body (frame_array g ?v) (consume q' b' ?v) else Ok (consume q' b' ?v))"
    and st: "fifo_inv q'" "fifo_lens q' = map (\<lambda>f. word_of_nat (length f)) (gs @ [p])"
      "buff_bytes b' = concat (gs @ [p])" "sys_inv (consume q' b' ?v)" by (auto cong: if_cong)
  have "mqtt_sn_socket_incomm_cb addr port (p ! 1) (?w1 q b) = with_frame (\<lambda>w. w) (\<lambda>_. False) (\<lambda>_. Ok) ?v"
    using assms(7)
    by (auto simp: mqtt_sn_socket_incomm_cb_def with_frame_def Let_def MQTT_SN_MAX_PACKET_LENGTH_def split_beta)
  then have "UdpServer_recv_cb p addr port w = Ok (consume q' b' ?v)" using qb(1) run by simp
  moreover have "frames_in (gs @ [p]) (consume q' b' ?v)"
    using st assms(2,4) by (auto simp: frames_in_def consume_def)
  moreover have "Systime (consume q' b' ?v) = Systime w" by (simp add: consume_def)
  ultimately show ?thesis using st(4) by blast
qed

theorem unhandled_drops_oldest_witness:
  "\<exists>w'. UdpServer_recv_cb [3, 0x01, 0] 1 10000 (ready_with [3, 0x05, 0] MQTT_SN_CONNECTING) = Ok w' \<and>
     sys_inv w' \<and> frames_in [[3, 0x01, 0]] w'"
proof -
  have g: "good_frame [3, 0x05, 0]" "good_frame [3, 0x01, 0]" by (simp_all add: good_frame_def)
  from unhandled_drops_oldest [OF ready_with_inv [OF g(1), of MQTT_SN_CONNECTING], of "[3, 0x01, 0]" 1 10000] g(2)
  show ?thesis by (auto simp: command_defs)
qed

end
