(* ===== verification/ClientProtocol.thy ===== *)
theory ClientProtocol
  imports ClientProps
begin

text \<open>
  What the client does with the protocol's messages: gateways, registration of topics,
  acknowledgements, and the packets it sends.
\<close>

unbundle bit_operations_syntax

lemma on_frame_taken:
  assumes "sys_inv w" and "frames_in (f # fs) w"
  obtains v where "\<forall>body. on_frame body w = body (frame_array f w) v" "frames_in fs v" "sys_inv v"
    "pbuf_ok v = pbuf_ok w" "mqtt_sn_client v = (mqtt_sn_client w)\<lparr> rx_buffer := rxq v \<rparr>"
    "Systime v = Systime w" "MY_TopicIDMap v = MY_TopicIDMap w" "net_out v = net_out w"
    "Sock v = Sock w" "GWlist v = GWlist w" "gw v = gw w" "xTickCount v = xTickCount w"
proof -
  from assms quiet_pres(1) obtain q b where
    "\<forall>also_if body. with_frame (\<lambda>w. w) also_if body w =
      (if also_if (word_of_nat (length f)) then body (frame_array f w) (consume q b w) else Ok (consume q b w))"
    "frames_in fs (consume q b w)" "sys_inv (consume q b w)"
    "pbuf_ok (consume q b w) = pbuf_ok w" "Status (consume q b w) = Status w" by (rule handle_frame_quiet)
  then show thesis by (intro that [of "consume q b w"]) (simp_all add: consume_def)
qed

lemma frames_in_upd [simp]:
  "frames_in fs (w\<lparr> GWlist := G \<rparr>) = frames_in fs w"
  "frames_in fs (w\<lparr> MY_TopicIDMap := m \<rparr>) = frames_in fs w"
  "frames_in fs (w\<lparr> Systime := T \<rparr>) = frames_in fs w"
  "frames_in fs (cancel_timer tid w) = frames_in fs w"
  "frames_in fs (timer_add mode t cb a tid w) = frames_in fs w"
  "frames_in fs (w\<lparr> mqtt_sn_client := (mqtt_sn_client w)\<lparr> inpub_pkt_id := x \<rparr> \<rparr>) = frames_in fs w"
  by (simp_all add: frames_in_def)

section \<open>Gateways\<close>

text \<open>
  A GWINFO frame never reaches the gateway list: its handler tests the message type of
  the frame against SEARCHGW, so the frame is taken from the queue and nothing else changes.
\<close>

theorem gwinfo_ignored:
  assumes "sys_inv w" and "frames_in (f # fs) w" and "f ! 1 = MQTT_SN_TYPE_GWINFO"
  shows "\<exists>w'. api_gwinfo_press a w = Ok w' \<and> frames_in fs w' \<and> GWlist w' = GWlist w"
proof -
  from assms(1,2) obtain v where v: "\<forall>body. on_frame body w = body (frame_array f w) v" "frames_in fs v"
    "GWlist v = GWlist w" by (rule on_frame_taken) blast
  have "frame_array f w ! 1 = f ! 1"
    using frames_good [OF assms(2)] by (intro frame_array_nth) (simp add: good_frame_def)
  with v assms(3) show ?thesis
    by (simp add: api_gwinfo_press_def MQTT_SN_TYPE_GWINFO_def MQTT_SN_TYPE_SEARCHGW_def)
qed

theorem gwinfo_ignored_witness:
  "\<exists>w'. api_gwinfo_press (Some Arg_gw) (ready_with [3, 0x02, 7] MQTT_SN_CONNECTED) = Ok w' \<and>
     frames_in [] w' \<and> GWlist w' = GWlist (ready_with [3, 0x02, 7] MQTT_SN_CONNECTED)"
proof -
  have g: "good_frame [3, 0x02, 7]" by (simp add: good_frame_def)
  show ?thesis by (rule gwinfo_ignored [OF ready_with_inv [OF g]]) (simp add: MQTT_SN_TYPE_GWINFO_def)
qed

text \<open>
  An ADVERTISE frame from a gateway that is not in a consistent list with a free slot is
  entered there with the address and port of the last received datagram and the identifier
  of the frame. The duration stored is the low byte of the frame's duration field: the high
  byte is shifted right by eight and lost.
\<close>

theorem advertise_adds_gateway:
  assumes "sys_inv w" and "frames_in ([5, MQTT_SN_TYPE_ADVERTISE, gwid, hi, lo] # fs) w"
    and "gw_inv (GWlist w)" and "gw_count (GWlist w) < 3"
    and "\<forall>i < 3. gw_used (GWlist w) i \<longrightarrow> gw_ID (gwList (GWlist w) ! i) \<noteq> gwid"
  shows "\<exists>w' k. api_advertise_press (Some Arg_gw) w = Ok w' \<and> frames_in fs w' \<and> gw_inv (GWlist w') \<and>
     k < 3 \<and> \<not> gw_used (GWlist w) k \<and> gw_used (GWlist w') k \<and>
     gw_ID (gwList (GWlist w') ! k) = gwid \<and> gw_addr (gwList (GWlist w') ! k) = gwi_addr (gw w) \<and>
     gw_port (gwList (GWlist w') ! k) = gwi_port (gw w) \<and> gw_keepalive (gwList (GWlist w') ! k) = ucast lo"
proof -
  let ?f = "[5, MQTT_SN_TYPE_ADVERTISE, gwid, hi, lo]"
  from assms(1,2) obtain v where v: "\<forall>body. on_frame body w = body (frame_array ?f w) v" "frames_in fs v"
    "GWlist v = GWlist w" "gw v = gw w" by (rule on_frame_taken) blast
  have ka: "drop_bit 8 (ucast hi :: u16) OR ucast lo = ucast lo"
    by (rule bit_word_eqI) (auto simp: bit_simps dest: bit_imp_le_length)
  have arr: "frame_array ?f w ! 1 = MQTT_SN_TYPE_ADVERTISE" "frame_array ?f w ! 2 = gwid"
    "frame_array ?f w ! 3 = hi" "frame_array ?f w ! 4 = lo" by (simp_all add: frame_array_nth)
  have run: "api_advertise_press (Some Arg_gw) w = append_gateway (Some Arg_gw) gwid (ucast lo) v"
    unfolding api_advertise_press_def v(1) [rule_format] arr Let_def by (simp add: ka)
  from gwListappend_new [OF assms(3,5,4), of "gwi_addr (gw w)" "gwi_port (gw w)" "ucast lo"
      "cyclic_tick (mqtt_sn_client v)"] obtain G k where
    G: "gwListappend (GWlist w) (gwi_addr (gw w)) (gwi_port (gw w)) gwid (ucast lo)
          (cyclic_tick (mqtt_sn_client v)) = Ok (0, G)"
      "gw_inv G" "k < 3" "\<not> gw_used (GWlist w) k" "gw_used G k" "gw_ID (gwList G ! k) = gwid"
      "gw_addr (gwList G ! k) = gwi_addr (gw w)" "gw_port (gwList G ! k) = gwi_port (gw w)"
      "gw_keepalive (gwList G ! k) = ucast lo" by blast
  have "append_gateway (Some Arg_gw) gwid (ucast lo) v = Ok (v\<lparr> GWlist := G \<rparr>)"
    using G(1) v(3,4) by (simp add: append_gateway_def)
  with run G v(2) show ?thesis by (intro exI [of _ "v\<lparr> GWlist := G \<rparr>"] exI [of _ k]) simp
qed

theorem advertise_adds_gateway_witness:
  "\<exists>w' k. api_advertise_press (Some Arg_gw) (ready_with [5, 0x00, 7, 3, 132] MQTT_SN_CONNECTED) = Ok w' \<and>
     gw_used (GWlist w') k \<and> gw_ID (gwList (GWlist w') ! k) = 7 \<and> gw_keepalive (gwList (GWlist w') ! k) = 132"
proof -
  let ?w = "ready_with [5, MQTT_SN_TYPE_ADVERTISE, 7, 3, 132] MQTT_SN_CONNECTED"
  have g: "good_frame [5, MQTT_SN_TYPE_ADVERTISE, 7, 3, 132]" by (simp add: good_frame_def)
  have G: "GWlist ?w = zero_gwlist" by (simp add: ready_with_def ready_def zero_sys_def)
  have "gw_inv (GWlist ?w)" "gw_count (GWlist ?w) < 3" "\<forall>i < 3. gw_used (GWlist ?w) i \<longrightarrow> gw_ID (gwList (GWlist ?w) ! i) \<noteq> 7"
    unfolding G using zero_gwlist_inv
    by (simp_all add: gw_count_sum gw_used_def zero_gwlist_def zero_gwitem_def MQTT_GW_LISTNUM_MAX_def)
  from advertise_adds_gateway [OF ready_with_inv [OF g] this] show ?thesis
    unfolding MQTT_SN_TYPE_ADVERTISE_def by auto
qed

section \<open>Registration of topics\<close>

lemma register_run:
  assumes "pbuf_ok w" and "Sock w = Some pcb" and "length nm \<le> 249"
  shows "mqtt_sn_send_register nm w =
     Ok (timer_add TIMER_MODE_SINGLE 10000 Send_register_cb (Some Arg_client) TIMER_ID_OF_REGISTER
          ((snd (next_pkt_id REGGISTER w))\<lparr> net_out := net_out w @
            [\<lparr> dg_ip = remote_ip pcb, dg_port = remote_port pcb,
               dg_data = [word_of_nat (length nm + 6), 0x0A, 0, 0] @ le16_bytes (pkt_id (mqtt_sn_client w)) @ nm \<rparr>] \<rparr>))"
proof -
  have un: "unat (word_of_nat (length nm + 6) :: u8) = length nm + 6"
    using assms(3) by (intro unat_u8_of_nat) simp
  have "take (length nm + 6) (register_packet (word_of_nat (length nm + 6)) MQTT_SN_TYPE_REGISTER 0
        (pkt_id (mqtt_sn_client w)) (nm @ replicate (249 - length nm) 0)) =
      [word_of_nat (length nm + 6), 0x0A, 0, 0] @ le16_bytes (pkt_id (mqtt_sn_client w)) @ nm"
    by (simp add: register_packet_def le16_bytes_def MQTT_SN_TYPE_REGISTER_def take_Cons')
  moreover have "blit (replicate 249 0) 0 nm 0 (length nm) = nm @ replicate (249 - length nm) 0"
    using assms(3) by (simp add: blit_0)
  ultimately show ?thesis
    using assms un send_data_run [of "snd (next_pkt_id REGGISTER w)" pcb "length nm + 6"
      "register_packet (word_of_nat (length nm + 6)) MQTT_SN_TYPE_REGISTER 0
        (pkt_id (mqtt_sn_client w)) (nm @ replicate (249 - length nm) 0)"]
    unfolding mqtt_sn_send_register_def Let_def split_beta MQTT_SN_REGISTER_FIXLENTH_def MQTT_SN_MAX_TOPIC_LENGTH_def
    by (simp add: memcpy_Ok)
qed

text \<open>
  The cycle of a connected client registers its topics one at a time: when none is being
  registered, \<open>registeralltopic\<close> sends one REGISTER packet for the first unregistered topic
  (its length, type, a zero topic identifier, the message identifier, the name), records the
  message identifier it waits for and marks that topic as being registered.
\<close>

theorem registers_next_topic:
  assumes "sys_inv w" and "pbuf_ok w" and "Sock w = Some pcb" and "i < 2"
    and "\<forall>j < 2. status (toppiclist (MY_TopicIDMap w) ! j) \<noteq> registering"
    and "status (toppiclist (MY_TopicIDMap w) ! i) = unregister"
    and "\<forall>j < i. status (toppiclist (MY_TopicIDMap w) ! j) = registered"
  shows "\<exists>w'. registeralltopic w = Ok w' \<and>
     net_out w' = net_out w @ [\<lparr> dg_ip = remote_ip pcb, dg_port = remote_port pcb,
       dg_data = [25, 0x0A, 0, 0] @ le16_bytes (pkt_id (mqtt_sn_client w)) @ topiclist ! i \<rparr>] \<and>
     inpub_pkt_id (mqtt_sn_client w') REGGISTER = pkt_id (mqtt_sn_client w) \<and>
     status (toppiclist (MY_TopicIDMap w') ! i) = registering \<and>
     (\<forall>j < 2. j \<noteq> i \<longrightarrow> toppiclist (MY_TopicIDMap w') ! j = toppiclist (MY_TopicIDMap w) ! j)"
proof -
  have t: "topics_inv (MY_TopicIDMap w)" "length (toppiclist (MY_TopicIDMap w)) = 2"
    using sys_inv_parts(1) [OF assms(1)] by (simp_all add: topics_inv_def)
  have nm: "length (topiclist ! i) = 19" using assms(4) by (rule topiclist_no_zero)
  have "find (\<lambda>i. status (toppiclist (MY_TopicIDMap w) ! i) = unregister) [0..<MQTT_SN_CLIENT_LIST_MAX] = Some i"
    using assms(4,6,7) by (auto simp: find_two less_2_cases_iff)
  moreover have "\<not> (\<exists>i \<in> set [0..<MQTT_SN_CLIENT_LIST_MAX]. status (toppiclist (MY_TopicIDMap w) ! i) = registering)"
    using assms(5) by (simp add: MQTT_SN_CLIENT_LIST_MAX_def)
  ultimately show ?thesis
    using nm assms(4) t TopicidRegistering_status [OF t(1) assms(4)]
    unfolding registeralltopic_def by (simp add: register_run [OF assms(2,3)] timer_add_def)
      (simp add: next_pkt_id_def Let_def)
qed

theorem registers_next_topic_witness:
  "\<exists>w'. registeralltopic (ready MQTT_SN_CONNECTED) = Ok w' \<and>
     map dg_data (net_out w') = [[25, 0x0A, 0, 0, 1, 0] @ bytes_of ''FMSH_POWER_TEMP_702''] \<and>
     status (toppiclist (MY_TopicIDMap w') ! 0) = registering"
proof -
  have "\<forall>j < 2. status (toppiclist (MY_TopicIDMap (ready MQTT_SN_CONNECTED)) ! j) = unregister"
    by (simp add: ready_topics_def topiclist_def less_2_cases_iff')
  then have "\<forall>j < 2. status (toppiclist (MY_TopicIDMap (ready MQTT_SN_CONNECTED)) ! j) \<noteq> registering"
    "status (toppiclist (MY_TopicIDMap (ready MQTT_SN_CONNECTED)) ! 0) = unregister" by simp_all
  moreover have "net_out (ready MQTT_SN_CONNECTED) = []" "pkt_id (mqtt_sn_client (ready MQTT_SN_CONNECTED)) = 1"
    by (simp_all add: ready_def zero_sys_def)
  ultimately show ?thesis
    using registers_next_topic [OF ready_inv(1) ready_fields(1) ready_fields(5), of 0 MQTT_SN_CONNECTED]
    by (auto simp: topiclist_nth le16_bytes_def)
qed

text \<open>
  C28: An accepted REGACK with the awaited message identifier completes the registration: the
  topic being registered gets the identifier of the frame, which \<open>GetTopicID\<close> then returns
  for its name, and the register timer is cancelled.
\<close>

theorem regack_registers:
  assumes "sys_inv w" and "frames_in ([7, MQTT_SN_TYPE_REGACK, t0, t1, m0, m1, 0] # fs) w"
    and "Status w = MQTT_SN_CONNECTED" and "le16 m0 m1 = inpub_pkt_id (mqtt_sn_client w) REGGISTER"
    and "i < 2" and "status (toppiclist (MY_TopicIDMap w) ! i) = registering"
    and "\<forall>j < 2. j \<noteq> i \<longrightarrow> status (toppiclist (MY_TopicIDMap w) ! j) \<noteq> registering"
  shows "\<exists>w'. api_regack_press w = Ok w' \<and> frames_in fs w' \<and>
     word_of_int (GetTopicID (topiclist ! i) (MY_TopicIDMap w')) = le16 t0 t1 \<and>
     status (toppiclist (MY_TopicIDMap w') ! i) = registered \<and>
     Systime w' = timer_cancel TIMER_ID_OF_REGISTER (Systime w)"
proof -
  let ?f = "[7, MQTT_SN_TYPE_REGACK, t0, t1, m0, m1, 0]"
  from assms(1,2) obtain v where v: "\<forall>body. on_frame body w = body (frame_array ?f w) v" "frames_in fs v"
    "mqtt_sn_client v = (mqtt_sn_client w)\<lparr> rx_buffer := rxq v \<rparr>" "Systime v = Systime w"
    "MY_TopicIDMap v = MY_TopicIDMap w" by (rule on_frame_taken) blast
  have arr: "frame_array ?f w ! 1 = MQTT_SN_TYPE_REGACK" "frame_array ?f w ! 2 = t0" "frame_array ?f w ! 3 = t1"
    "frame_array ?f w ! 4 = m0" "frame_array ?f w ! 5 = m1" "frame_array ?f w ! 6 = 0" by (simp_all add: frame_array_nth)
  have st: "Status v = MQTT_SN_CONNECTED" "inpub_pkt_id (mqtt_sn_client v) = inpub_pkt_id (mqtt_sn_client w)"
    using v(3) assms(3) by (metis MQTT_SN_Client_t.select_convs(7,8) MQTT_SN_Client_t.surjective MQTT_SN_Client_t.update_convs(9))+
  let ?w' = "(cancel_timer TIMER_ID_OF_REGISTER v)\<lparr> MY_TopicIDMap := snd (TopicidRegistered (le16 t0 t1) (MY_TopicIDMap w)) \<rparr>"
  have "api_regack_press w = Ok ?w'"
    unfolding api_regack_press_def v(1) [rule_format] arr Let_def
    using st assms(4) v(5) by (simp add: MQTT_SN_ACCEPTED_def)
  moreover have "Systime ?w' = timer_cancel TIMER_ID_OF_REGISTER (Systime w)" using v(4) by (simp add: cancel_timer_def)
  moreover note registered_lookup [OF sys_inv_parts(1) [OF assms(1)] assms(5-7), of "le16 t0 t1"]
  ultimately show ?thesis using v(2) by (intro exI [of _ ?w']) simp
qed


theorem regack_registers_witness:
  "\<exists>w w'. status (toppiclist (MY_TopicIDMap w) ! 0) = registering \<and> api_regack_press w = Ok w' \<and>
     word_of_int (GetTopicID (topiclist ! 0) (MY_TopicIDMap w')) = (0x0102 :: u16)"
proof -
  let ?f = "[7, MQTT_SN_TYPE_REGACK, 2, 1, 0, 0, 0]" and ?m = "snd (TopicidRegistering (topiclist ! 0) ready_topics)"
  let ?w = "(ready_with ?f MQTT_SN_CONNECTED)\<lparr> MY_TopicIDMap := ?m \<rparr>"
  have g: "good_frame ?f" by (simp add: good_frame_def)
  have inv: "sys_inv ?w" "frames_in [?f] ?w"
    using ready_with_inv [OF g] TopicidRegistering_inv [OF ready_topics_inv] by simp_all
  have m: "?m = ready_topics\<lparr> toppiclist := (toppiclist ready_topics)[0 := (toppiclist ready_topics ! 0)\<lparr> status := registering \<rparr>] \<rparr>"
    using TopicidRegistering_status [OF ready_topics_inv, of 0] by simp
  have st: "status (toppiclist ?m ! 0) = registering" "status (toppiclist ?m ! 1) = unregister"
    unfolding m by (simp_all add: ready_topics_def topiclist_def)
  have "\<exists>w'. api_regack_press ?w = Ok w' \<and> frames_in [] w' \<and>
     word_of_int (GetTopicID (topiclist ! 0) (MY_TopicIDMap w')) = le16 2 1 \<and>
     status (toppiclist (MY_TopicIDMap w') ! 0) = registered \<and>
     Systime w' = timer_cancel TIMER_ID_OF_REGISTER (Systime ?w)"
    using st by (intro regack_registers [OF inv, of 0]) (simp_all add: le16_def less_2_cases_iff)
  moreover have "le16 2 1 = 0x0102" by (simp add: le16_def)
  ultimately obtain w' where "api_regack_press ?w = Ok w'"
    "word_of_int (GetTopicID (topiclist ! 0) (MY_TopicIDMap w')) = (0x0102 :: u16)" by auto
  moreover have "status (toppiclist (MY_TopicIDMap ?w) ! 0) = registering" using st(1) by simp
  ultimately show ?thesis by (intro exI conjI)
qed

section \<open>Publication\<close>

definition publish_flags :: "int \<Rightarrow> u8 \<Rightarrow> u8 \<Rightarrow> u8 \<Rightarrow> u8" where
  "publish_flags qos retain DUP ty =
     ((qos_flags qos OR (if retain \<noteq> 0 then MQTT_SN_FLAG_RETAIN else 0))
       OR (if DUP \<noteq> 0 then MQTT_SN_FLAG_DUP else 0)) OR ty"

text \<open>The datagram of a PUBLISH: seven bytes and the payload.\<close>

definition publish_dgram :: "udp_pcb \<Rightarrow> u8 \<Rightarrow> u16 \<Rightarrow> u16 \<Rightarrow> u8 list \<Rightarrow> dgram" where
  "publish_dgram pcb flags tid mid payload =
     \<lparr> dg_ip = remote_ip pcb, dg_port = remote_port pcb,
       dg_data = [word_of_nat (length payload + 7), 0x0C, flags] @ le16_bytes tid @ le16_bytes mid @ payload \<rparr>"

lemma take_prefix: "xs = ys @ zs \<Longrightarrow> n = length ys \<Longrightarrow> take n xs = ys"
  by simp

lemma publish_run:
  assumes "pbuf_ok w" and "Sock w = Some pcb" and "unat n \<le> 248" and "unat n \<le> length d"
  shows "mqtt_sn_send_publish tid ty d n qos retain dup w =
     (let w2 = (snd (next_pkt_id PUBLISH w))\<lparr> net_out := net_out w @
            [publish_dgram pcb (publish_flags qos retain dup ty) tid (pkt_id (mqtt_sn_client w)) (take (unat n) d)] \<rparr>
      in if qos = 1 then
           Ok (timer_add TIMER_MODE_SINGLE 10000 Publish_timeout_cb (Some Arg_publishinfor) TIMER_ID_OF_PUBLISH
                 (w2\<lparr> publishinfor := (publishinfor w)\<lparr> pub_data := d, pub_data_lenth := n,
                       pub_qos := qos, pub_dup := 1, pub_retain := retain, pub_topic_id := tid \<rparr> \<rparr>))
         else Ok w2)"
proof -
  let ?h = "[word_of_nat (unat n + 7), 0x0C, publish_flags qos retain dup ty] @ le16_bytes tid @
      le16_bytes (pkt_id (mqtt_sn_client w))"
  let ?a = "take (unat n) d @ replicate (248 - unat n) 0"
  let ?p = "publish_packet (word_of_nat (unat n + 7)) MQTT_SN_TYPE_PUBLISH (publish_flags qos retain dup ty) tid
        (pkt_id (mqtt_sn_client w)) ?a"
  have un: "unat (word_of_nat (unat n + 7) :: u8) = unat n + 7"
    using assms(3) by (intro unat_u8_of_nat) simp
  have b: "blit (replicate 248 0) 0 d 0 (unat n) = ?a" using assms(3,4) by (simp add: blit_0)
  have pk: "take (unat n + 7) ?p = ?h @ take (unat n) d"
    using assms(4) by (intro take_prefix) (simp_all add: publish_packet_def MQTT_SN_TYPE_PUBLISH_def)
  have pi: "publishinfor (snd (next_pkt_id PUBLISH w)) = publishinfor w" by (simp add: next_pkt_id_def Let_def)
  have sd: "MQTTSNClientSendData ?p (unat n + 7) (snd (next_pkt_id PUBLISH w)) =
      Ok ((snd (next_pkt_id PUBLISH w))\<lparr> net_out := net_out w @
            [publish_dgram pcb (publish_flags qos retain dup ty) tid (pkt_id (mqtt_sn_client w)) (take (unat n) d)] \<rparr>)"
    using send_data_run [of "snd (next_pkt_id PUBLISH w)" pcb "unat n + 7" ?p] assms pk
    by (simp add: publish_dgram_def)
  show ?thesis
    using assms(3,4)
    unfolding mqtt_sn_send_publish_def Let_def split_beta MQTT_SN_MAX_PAYLOAD_LENGTH_def
    unfolding publish_flags_def [symmetric] next_pkt_id_frame
    by (simp add: memcpy_Ok b un [simplified] sd [simplified] pi)
qed

text \<open>
  C26: \<open>mqtt_sn_send_publish\<close> sends one datagram: the length byte (the payload's length and
  seven), type 0x0C, the flags, topic identifier and a fresh message identifier in
  little-endian order, and exactly the first \<open>data_len\<close> bytes of the data. The message
  identifier counter moves on and the identifier is recorded as awaiting its PUBACK.
\<close>

theorem publish_sends:
  assumes "pbuf_ok w" and "Sock w = Some pcb" and "unat n \<le> 248" and "unat n \<le> length d"
  shows "\<exists>w'. mqtt_sn_send_publish tid ty d n qos retain dup w = Ok w' \<and>
     net_out w' = net_out w @ [\<lparr> dg_ip = remote_ip pcb, dg_port = remote_port pcb,
       dg_data = [word_of_nat (unat n + 7), 0x0C, publish_flags qos retain dup ty] @ le16_bytes tid @
                 le16_bytes (pkt_id (mqtt_sn_client w)) @ take (unat n) d \<rparr>] \<and>
     pkt_id (mqtt_sn_client w') = pkt_id (mqtt_sn_client w) + 1 \<and>
     inpub_pkt_id (mqtt_sn_client w') PUBLISH = pkt_id (mqtt_sn_client w)"
  using assms
  by (simp add: publish_run Let_def publish_dgram_def min_absorb2) (simp add: next_pkt_id_def Let_def)

theorem publish_sends_witness:
  "\<exists>w'. mqtt_sn_send_publish 5 0 [65, 66, 67] 2 1 1 0 (ready MQTT_SN_CONNECTED) = Ok w' \<and>
     map dg_data (net_out w') = [[9, 0x0C, 0x30, 5, 0, 1, 0, 65, 66]]"
proof -
  have "net_out (ready MQTT_SN_CONNECTED) = []" "pkt_id (mqtt_sn_client (ready MQTT_SN_CONNECTED)) = 1"
    by (simp_all add: ready_def zero_sys_def)
  then show ?thesis
    using publish_sends [OF ready_fields(1) [of MQTT_SN_CONNECTED] ready_fields(5), of 2 "[65, 66, 67]" 5 0 1 1 0]
    by (auto simp: publish_flags_def qos_flags_def MQTT_SN_FLAG_QOS_1_def MQTT_SN_FLAG_RETAIN_def le16_bytes_def)
qed



section \<open>Acknowledgements\<close>

lemma client_taken:
  assumes "c = c'\<lparr> rx_buffer := q \<rparr>"
  shows "MqttSN_Status c = MqttSN_Status c'" "inpub_pkt_id c = inpub_pkt_id c'" "pkt_id c = pkt_id c'"
    "keep_alive c = keep_alive c'"
  by (simp_all add: assms)

lemma puback_taken:
  assumes "sys_inv w" and "frames_in ([7, MQTT_SN_TYPE_PUBACK, t0, t1, m0, m1, rc] # fs) w"
    and "Status w = MQTT_SN_CONNECTED" and "le16 m0 m1 = inpub_pkt_id (mqtt_sn_client w) PUBLISH"
  obtains v where "frames_in fs v" "Systime v = timer_cancel TIMER_ID_OF_PUBLISH (Systime w)"
    "inpub_pkt_id (mqtt_sn_client v) = (inpub_pkt_id (mqtt_sn_client w))(PUBLISH := 0)" "sys_inv v"
    "api_puback_press w =
      (if rc = MQTT_SN_ACCEPTED then Ok v
       else if rc = MQTT_SN_REJECTED_CONGESTION then
         Ok (timer_add TIMER_MODE_SINGLE (5*60*1000) Publish_timeout_cb (Some Arg_client) TIMER_ID_OF_PUBLISH v)
       else if rc = MQTT_SN_REJECTED_INVALID then
         Ok (v\<lparr> MY_TopicIDMap := snd (TopicidUnregister (le16 t0 t1) (MY_TopicIDMap v)) \<rparr>)
       else Ok v)"
proof -
  let ?f = "[7, MQTT_SN_TYPE_PUBACK, t0, t1, m0, m1, rc]"
  from assms(1,2) obtain v where v: "\<forall>body. on_frame body w = body (frame_array ?f w) v" "frames_in fs v"
    "mqtt_sn_client v = (mqtt_sn_client w)\<lparr> rx_buffer := rxq v \<rparr>" "Systime v = Systime w" "sys_inv v"
    by (rule on_frame_taken) blast
  note c = client_taken [OF v(3)]
  have arr: "frame_array ?f w ! 1 = MQTT_SN_TYPE_PUBACK" "frame_array ?f w ! 2 = t0" "frame_array ?f w ! 3 = t1"
    "frame_array ?f w ! 4 = m0" "frame_array ?f w ! 5 = m1" "frame_array ?f w ! 6 = rc" by (simp_all add: frame_array_nth)
  let ?v = "cancel_timer TIMER_ID_OF_PUBLISH
     (client_upd (\<lambda>c. c\<lparr> inpub_pkt_id := (inpub_pkt_id c)(PUBLISH := 0) \<rparr>) v)"
  have "api_puback_press w =
      (if rc = MQTT_SN_ACCEPTED then Ok ?v
       else if rc = MQTT_SN_REJECTED_CONGESTION then
         Ok (timer_add TIMER_MODE_SINGLE (5*60*1000) Publish_timeout_cb (Some Arg_client) TIMER_ID_OF_PUBLISH ?v)
       else if rc = MQTT_SN_REJECTED_INVALID then
         Ok (?v\<lparr> MY_TopicIDMap := snd (TopicidUnregister (le16 t0 t1) (MY_TopicIDMap ?v)) \<rparr>)
       else Ok ?v)"
    unfolding api_puback_press_def v(1) [rule_format] arr Let_def using c assms(3,4) by simp
  moreover have "sys_inv ?v" "frames_in fs ?v" using v(2,5) by simp_all
  moreover have "Systime ?v = timer_cancel TIMER_ID_OF_PUBLISH (Systime w)"
    "inpub_pkt_id (mqtt_sn_client ?v) = (inpub_pkt_id (mqtt_sn_client w))(PUBLISH := 0)"
    using v(4) c by (simp_all add: cancel_timer_def)
  ultimately show thesis by (intro that [of ?v])
qed

text \<open>
  An accepted PUBACK with the awaited message identifier ends the exchange: the
  retransmission timer is cancelled with \<open>timer_cancel\<close> and no identifier is awaited. If no
  other slot of the pool carries the publish identifier, no publish timer is left running.
\<close>

theorem puback_stops_retransmission:
  assumes "sys_inv w" and "frames_in ([7, MQTT_SN_TYPE_PUBACK, t0, t1, m0, m1, 0] # fs) w"
    and "Status w = MQTT_SN_CONNECTED" and "le16 m0 m1 = inpub_pkt_id (mqtt_sn_client w) PUBLISH"
    and "\<forall>i j. i < 10 \<longrightarrow> j < 10 \<longrightarrow> TimerID (TIMER_T (Systime w) ! i) = TIMER_ID_OF_PUBLISH \<longrightarrow>
      TimerID (TIMER_T (Systime w) ! j) = TIMER_ID_OF_PUBLISH \<longrightarrow> i = j"
  shows "\<exists>w'. api_puback_press w = Ok w' \<and> frames_in fs w' \<and>
     inpub_pkt_id (mqtt_sn_client w') PUBLISH = 0 \<and>
     running_ids (Systime w') = running_ids (Systime w) - {TIMER_ID_OF_PUBLISH}"
proof -
  from assms(1-4) obtain v where v: "frames_in fs v" "Systime v = timer_cancel TIMER_ID_OF_PUBLISH (Systime w)"
    "inpub_pkt_id (mqtt_sn_client v) = (inpub_pkt_id (mqtt_sn_client w))(PUBLISH := 0)" "api_puback_press w = Ok v"
    by (rule puback_taken) (simp add: MQTT_SN_ACCEPTED_def)
  moreover have "running_ids (timer_cancel TIMER_ID_OF_PUBLISH (Systime w)) =
      running_ids (Systime w) - {TIMER_ID_OF_PUBLISH}"
    using assms(5) by (intro timer_cancel_unique sys_inv_parts(5) [OF assms(1)]) blast
  ultimately show ?thesis by simp
qed

theorem puback_stops_retransmission_witness:
  "\<exists>w'. api_puback_press (ready_with [7, 0x0D, 1, 0, 0, 0, 0] MQTT_SN_CONNECTED) = Ok w' \<and> frames_in [] w' \<and>
     inpub_pkt_id (mqtt_sn_client w') PUBLISH = 0"
proof -
  let ?f = "[7, MQTT_SN_TYPE_PUBACK, 1, 0, 0, 0, 0]"
  have g: "good_frame ?f" by (simp add: good_frame_def)
  have "\<exists>w'. api_puback_press (ready_with ?f MQTT_SN_CONNECTED) = Ok w' \<and> frames_in [] w' \<and>
     inpub_pkt_id (mqtt_sn_client w') PUBLISH = 0 \<and>
     running_ids (Systime w') = running_ids (Systime (ready_with ?f MQTT_SN_CONNECTED)) - {TIMER_ID_OF_PUBLISH}"
    by (rule puback_stops_retransmission [OF ready_with_inv [OF g]])
      (simp_all add: le16_def TimerInit_def zero_timer_def timer_consts TIMER_ID_OF_PUBLISH_def)
  then show ?thesis by (auto simp: MQTT_SN_TYPE_PUBACK_def)
qed

text \<open>
  A PUBACK that reports congestion arms, while a timer slot is free, a timer that calls
  \<open>mqtt_sn_client_publish_timeout_cb\<close> with the address of the client control block where the
  callback expects the stored publication: when it fires, five minutes later, the callback
  reads the wrong object.
\<close>

theorem puback_congestion_confuses:
  assumes "sys_inv w" and "frames_in ([7, MQTT_SN_TYPE_PUBACK, t0, t1, m0, m1, 1] # fs) w"
    and "Status w = MQTT_SN_CONNECTED" and "le16 m0 m1 = inpub_pkt_id (mqtt_sn_client w) PUBLISH"
    and "Free (timer_cancel TIMER_ID_OF_PUBLISH (Systime w)) \<noteq> 0"
  shows "\<exists>w' i. api_puback_press w = Ok w' \<and> i < 10 \<and> Runing (TIMER_T (Systime w') ! i) = 1 \<and>
     timer_callback (TIMER_T (Systime w') ! i) = Some Publish_timeout_cb \<and>
     TimeOut (TIMER_T (Systime w') ! i) = 300000 \<and>
     run_callback Publish_timeout_cb (arg (TIMER_T (Systime w') ! i)) w' = Halt Confused"
proof -
  from assms(1-4) obtain v where v: "Systime v = timer_cancel TIMER_ID_OF_PUBLISH (Systime w)" "sys_inv v"
    "api_puback_press w =
       Ok (timer_add TIMER_MODE_SINGLE (5*60*1000) Publish_timeout_cb (Some Arg_client) TIMER_ID_OF_PUBLISH v)"
    by (rule puback_taken) (simp add: MQTT_SN_ACCEPTED_def MQTT_SN_REJECTED_CONGESTION_def)
  let ?w' = "timer_add TIMER_MODE_SINGLE (5*60*1000) Publish_timeout_cb (Some Arg_client) TIMER_ID_OF_PUBLISH v"
  have ti: "timers_inv (Systime v)" using v(2) by (rule sys_inv_parts)
  then show ?thesis
  proof (cases rule: TimerAdd_cases [where mode = TIMER_MODE_SINGLE and timeout = "5*60*1000" and
        cb = Publish_timeout_cb and a = "Some Arg_client" and tid = TIMER_ID_OF_PUBLISH and tick = "xTickCount v"])
    case full
    with assms(5) v(1) show ?thesis by simp
  next
    case (added num)
    then have "num < 10" "length (TIMER_T (Systime v)) = 10" using ti by (auto simp: unused_slots_def timers_inv_def)
    with added(3) v(3) show ?thesis
      by (intro exI [of _ ?w'] exI [of _ num])
        (simp add: timer_add_def timer_consts mqtt_sn_client_publish_timeout_cb_def)
  qed
qed

theorem puback_congestion_confuses_witness:
  "\<exists>w' i. api_puback_press (ready_with [7, 0x0D, 1, 0, 0, 0, 1] MQTT_SN_CONNECTED) = Ok w' \<and>
     run_callback Publish_timeout_cb (arg (TIMER_T (Systime w') ! i)) w' = Halt Confused"
proof -
  let ?f = "[7, MQTT_SN_TYPE_PUBACK, 1, 0, 0, 0, 1]"
  have g: "good_frame ?f" by (simp add: good_frame_def)
  have "find (\<lambda>num. TimerID (TIMER_T (TimerInit :: (timer_cb, timer_arg) TIMER) ! num) = TIMER_ID_OF_PUBLISH)
      [0..<MAX_TIMER_NUM] = None"
    by (simp add: find_upt_None TimerInit_def zero_timer_def timer_consts TIMER_ID_OF_PUBLISH_def)
  then have fr: "Free (timer_cancel TIMER_ID_OF_PUBLISH (TimerInit :: (timer_cb, timer_arg) TIMER)) \<noteq> 0"
    by (simp add: timer_cancel_def FindTimerIndexbyID_def) (simp add: TimerInit_def timer_consts)
  have "\<exists>w' i. api_puback_press (ready_with ?f MQTT_SN_CONNECTED) = Ok w' \<and> i < 10 \<and>
     Runing (TIMER_T (Systime w') ! i) = 1 \<and>
     timer_callback (TIMER_T (Systime w') ! i) = Some Publish_timeout_cb \<and>
     TimeOut (TIMER_T (Systime w') ! i) = 300000 \<and>
     run_callback Publish_timeout_cb (arg (TIMER_T (Systime w') ! i)) w' = Halt Confused"
    by (rule puback_congestion_confuses [OF ready_with_inv [OF g]]) (simp_all add: le16_def fr)
  then show ?thesis by (auto simp: MQTT_SN_TYPE_PUBACK_def)
qed

text \<open>
  A subscription of quality of service 1 arms its retransmission timer under the
  identifier of publications, but the SUBACK handler cancels the timers of the identifier
  of subscriptions: the timer keeps running after the acknowledgement.
\<close>

theorem suback_leaves_timer:
  assumes "sys_inv w" and "frames_in ([8, MQTT_SN_TYPE_SUBACK, fl, t0, t1, m0, m1, rc] # fs) w"
    and "le16 m0 m1 = inpub_pkt_id (mqtt_sn_client w) SUBSCARIBE"
    and "TIMER_ID_OF_PUBLISH \<in> running_ids (Systime w)"
  shows "\<exists>w'. api_suback_press w = Ok w' \<and> frames_in fs w' \<and> TIMER_ID_OF_PUBLISH \<in> running_ids (Systime w')"
proof -
  let ?f = "[8, MQTT_SN_TYPE_SUBACK, fl, t0, t1, m0, m1, rc]"
  from assms(1,2) obtain v where v: "\<forall>body. on_frame body w = body (frame_array ?f w) v" "frames_in fs v"
    "mqtt_sn_client v = (mqtt_sn_client w)\<lparr> rx_buffer := rxq v \<rparr>" "Systime v = Systime w"
    by (rule on_frame_taken) blast
  note c = client_taken [OF v(3)]
  have arr: "frame_array ?f w ! 1 = MQTT_SN_TYPE_SUBACK" "frame_array ?f w ! 5 = m0" "frame_array ?f w ! 6 = m1"
    by (simp_all add: frame_array_nth)
  have "api_suback_press w = Ok (cancel_timer TIMER_ID_OF_SUBSCRIBE v)"
    unfolding api_suback_press_def v(1) [rule_format] arr using c assms(3) by simp
  moreover have "TIMER_ID_OF_PUBLISH \<in> running_ids (Systime (cancel_timer TIMER_ID_OF_SUBSCRIBE v))"
    using timer_cancel_other [OF sys_inv_parts(5) [OF assms(1)] assms(4), of TIMER_ID_OF_SUBSCRIBE] v(4)
    by (simp add: cancel_timer_def TIMER_ID_OF_PUBLISH_def TIMER_ID_OF_SUBSCRIBE_def)
  ultimately show ?thesis using v(2) by simp
qed

theorem suback_leaves_timer_witness:
  "\<exists>w w'. api_suback_press w = Ok w' \<and> TIMER_ID_OF_PUBLISH \<in> running_ids (Systime w')"
proof -
  let ?f = "[8, MQTT_SN_TYPE_SUBACK, 0, 1, 0, 0, 0, 0]"
  let ?w0 = "ready_with ?f MQTT_SN_CONNECTED"
  let ?w = "timer_add TIMER_MODE_SINGLE 10000 Subscribe_timeout_cb (Some Arg_subscribeInfor) TIMER_ID_OF_PUBLISH ?w0"
  have g: "good_frame ?f" by (simp add: good_frame_def)
  have inv: "sys_inv ?w" "frames_in [?f] ?w" using ready_with_inv [OF g, of MQTT_SN_CONNECTED] by simp_all
  have "Free (TimerInit :: (timer_cb, timer_arg) TIMER) \<noteq> 0" by (simp add: TimerInit_def timer_consts)
  then have run: "TIMER_ID_OF_PUBLISH \<in> running_ids (Systime ?w)"
    by (simp add: timer_add_def TimerAdd_running TimerInit_inv)
  show ?thesis using suback_leaves_timer [OF inv _ run] by (auto simp: le16_def)
qed

section \<open>Keep-alive\<close>

lemma pingreq_run:
  assumes "sys_inv w" and "pbuf_ok w" and "Sock w = Some pcb"
  defines "cid \<equiv> c_string (clientID (mqtt_sn_client w))"
  shows "mqtt_sn_send_pingreq WEAKUP w =
     Ok (timer_add TIMER_MODE_SINGLE 10000 Pingreq_timeout_cb (Some Arg_client) TIMER_ID_OF_PINGREQ
          (w\<lparr> net_out := net_out w @ [\<lparr> dg_ip = remote_ip pcb, dg_port = remote_port pcb,
              dg_data = [2 + word_of_nat (length cid), 0x16] @ cid \<rparr>] \<rparr>))"
proof -
  let ?a = "clientID (mqtt_sn_client w)" and ?p = "0 # MQTT_SN_TYPE_PINGREQ # replicate 38 0"
  have a: "length ?a = 23" "0 \<in> set ?a"
    using assms(1) terminated_mem [of 22 ?a] by (simp_all add: sys_inv_def client_ok_def)
  then have n: "length cid < 23" using c_string_length unfolding cid_def by force
  have tk: "take (length cid) ?a = cid" by (simp add: cid_def c_string_def takeWhile_eq_take [symmetric])
  let ?q = "(blit ?p 2 ?a 0 (length cid))[0 := 2 + word_of_nat (length cid)]"
  have q: "?q = ([2 + word_of_nat (length cid), 0x16] @ cid) @ replicate (38 - length cid) 0"
    using n tk by (simp add: blit_def MQTT_SN_TYPE_PINGREQ_def numeral_2_eq_2)
  have un: "unat (2 + word_of_nat (length cid) :: u8) = 2 + length cid"
    using n by (simp add: unat_word_ariths unat_of_nat)
  have hd: "?q ! 0 = 2 + word_of_nat (length cid)" unfolding q by simp
  have "take (2 + length cid) ?q = [2 + word_of_nat (length cid), 0x16] @ cid"
    unfolding q by (rule take_prefix) simp_all
  moreover have "2 + length cid \<le> length ?q" unfolding q by simp
  ultimately have "MQTTSNClientSendData ?q (unat (?q ! 0)) w =
      Ok (w\<lparr> net_out := net_out w @ [\<lparr> dg_ip = remote_ip pcb, dg_port = remote_port pcb,
              dg_data = [2 + word_of_nat (length cid), 0x16] @ cid \<rparr>] \<rparr>)"
    unfolding hd un using send_data_run [OF assms(2,3)] by metis
  then show ?thesis
    using a n unfolding mqtt_sn_send_pingreq_def Let_def cid_def [symmetric] by (simp add: memcpy_Ok)
qed

text \<open>
  An unanswered PINGREQ is repeated, with the client identifier as payload, until three
  repetitions stay unanswered; the fourth timeout sends a DISCONNECT of four bytes and the
  client is disconnecting.
\<close>

theorem ping_gives_up:
  assumes "sys_inv w" and "pbuf_ok w" and "Sock w = Some pcb"
  shows "(ping_req_res_lost_num (mqtt_sn_client w) < 3 \<longrightarrow>
      (\<exists>w'. mqtt_sn_client_pingreq_timeout_cb (Some Arg_client) w = Ok w' \<and>
        ping_req_res_lost_num (mqtt_sn_client w') = ping_req_res_lost_num (mqtt_sn_client w) + 1 \<and>
        Status w' = Status w \<and>
        net_out w' = net_out w @ [\<lparr> dg_ip = remote_ip pcb, dg_port = remote_port pcb,
          dg_data = [2 + word_of_nat (length (c_string (clientID (mqtt_sn_client w)))), 0x16] @
                    c_string (clientID (mqtt_sn_client w)) \<rparr>])) \<and>
     (ping_req_res_lost_num (mqtt_sn_client w) = 3 \<longrightarrow>
      (\<exists>w'. mqtt_sn_client_pingreq_timeout_cb (Some Arg_client) w = Ok w' \<and>
        Status w' = MQTT_SN_DISCONNECTING \<and>
        net_out w' = net_out w @ [\<lparr> dg_ip = remote_ip pcb, dg_port = remote_port pcb,
          dg_data = [4, 0x18, 0, 0] \<rparr>]))"
proof (intro conjI impI)
  let ?w1 = "client_upd (\<lambda>c. c\<lparr> ping_req_res_lost_num := ping_req_res_lost_num c + 1 \<rparr>) w"
  assume "ping_req_res_lost_num (mqtt_sn_client w) < 3"
  then have "ping_req_res_lost_num (mqtt_sn_client w) + 1 \<le> 3"
    by (simp add: word_less_nat_alt word_le_nat_alt unat_word_ariths)
  moreover have "sys_inv ?w1" using assms(1) by simp
  ultimately show "\<exists>w'. mqtt_sn_client_pingreq_timeout_cb (Some Arg_client) w = Ok w' \<and>
        ping_req_res_lost_num (mqtt_sn_client w') = ping_req_res_lost_num (mqtt_sn_client w) + 1 \<and>
        Status w' = Status w \<and>
        net_out w' = net_out w @ [\<lparr> dg_ip = remote_ip pcb, dg_port = remote_port pcb,
          dg_data = [2 + word_of_nat (length (c_string (clientID (mqtt_sn_client w)))), 0x16] @
                    c_string (clientID (mqtt_sn_client w)) \<rparr>]"
    using pingreq_run [of ?w1 pcb] assms(2,3)
    by (simp add: mqtt_sn_client_pingreq_timeout_cb_def Let_def MQTT_SN_CILENT_NADV_def)
next
  assume "ping_req_res_lost_num (mqtt_sn_client w) = 3"
  then show "\<exists>w'. mqtt_sn_client_pingreq_timeout_cb (Some Arg_client) w = Ok w' \<and>
        Status w' = MQTT_SN_DISCONNECTING \<and>
        net_out w' = net_out w @ [\<lparr> dg_ip = remote_ip pcb, dg_port = remote_port pcb,
          dg_data = [4, 0x18, 0, 0] \<rparr>]"
    using assms(2,3)
    by (simp add: mqtt_sn_client_pingreq_timeout_cb_def Let_def MQTT_SN_CILENT_NADV_def
        mqtt_sn_send_disconnect_def send_data_run [where pcb = pcb] disconnect_packet_def MQTT_SN_TYPE_DISCONNECT_def
        le16_bytes_def)
qed

theorem ping_gives_up_witness:
  "\<exists>w'. mqtt_sn_client_pingreq_timeout_cb (Some Arg_client) (ready MQTT_SN_CONNECTED) = Ok w' \<and>
     map dg_data (net_out w') = [[2, 0x16]]"
proof -
  have z: "ping_req_res_lost_num (mqtt_sn_client (ready MQTT_SN_CONNECTED)) = 0"
    "net_out (ready MQTT_SN_CONNECTED) = []" "c_string (clientID (mqtt_sn_client (ready MQTT_SN_CONNECTED))) = []"
    by (simp_all add: ready_def zero_sys_def zero_client_def c_string_def MQTT_SN_MAX_CLIENT_ID_LENGTH_def
        takeWhile_eq_Nil_iff)
  then show ?thesis
    using ping_gives_up [OF ready_inv(1) [of MQTT_SN_CONNECTED] ready_fields(1) ready_fields(5)] by auto
qed

section \<open>Connecting\<close>

lemma connect_run:
  assumes "sys_inv w" and "pbuf_ok w" and "length cid \<le> 22"
  shows "\<exists>a. length a = 23 \<and> mqtt_sn_send_connect cid ka fl w =
     Ok (timer_add TIMER_MODE_SINGLE 4000 Send_connect_cb (Some Arg_client) TIMER_ID_OF_CONNCET
          (w\<lparr> net_out := net_out w @ [\<lparr> dg_ip = 0x772DA8C0, dg_port = 10000,
               dg_data = [word_of_nat (length cid + 6), 0x04, fl, 0x01] @ le16_bytes ka @ cid \<rparr>],
             mqtt_sn_client := (mqtt_sn_client w)\<lparr> keep_alive := ka, server_watchdog := ka, clientID := a,
                MqttSN_Status := MQTT_SN_CONNECTING \<rparr> \<rparr>))"
proof -
  let ?c = "mqtt_sn_client w"
  let ?a = "blit (clientID ?c) 0 (cid @ [0]) 0 (length cid + 1)"
  let ?l = "word_of_nat (length cid + 6) :: u8"
  let ?w2 = "w\<lparr> mqtt_sn_client := ?c\<lparr> keep_alive := ka, server_watchdog := ka, clientID := ?a \<rparr> \<rparr>"
  let ?d = "[?l, 0x04, fl, 0x01] @ le16_bytes ka @ cid"
  have c: "length (clientID ?c) = 23" "Sock w \<noteq> None" using assms(1) by (simp_all add: sys_inv_def client_ok_def)
  have la: "length ?a = 23" using c assms(3) by simp
  have ip: "My_IP4_ADDR 192 168 45 119 = 0x772DA8C0" by (simp add: My_IP4_ADDR_def htonl_def)
  have un: "unat ?l = length cid + 6" using assms(3) by (intro unat_u8_of_nat) simp
  let ?p = "connect_packet ?l MQTT_SN_TYPE_CONNECT (0 OR fl) MQTT_SN_PROTOCOL_ID ka
      (blit (replicate 23 0) 0 cid 0 (length cid))"
  have "?p = ?d @ replicate (23 - length cid) 0"
    using assms(3) by (simp add: connect_packet_def blit_0 MQTT_SN_TYPE_CONNECT_def MQTT_SN_PROTOCOL_ID_def)
  then have pk: "take (length cid + 6) ?p = ?d" by (rule take_prefix) simp
  have lp: "length cid + 6 \<le> length ?p" using assms(3) by simp
  have sd: "SockSendDataStream 0x772DA8C0 10000 ?p (length cid + 6) ?w2 =
      Ok (?w2\<lparr> net_out := net_out w @ [\<lparr> dg_ip = 0x772DA8C0, dg_port = 10000, dg_data = ?d \<rparr>] \<rparr>)"
    unfolding SockSendDataStream_Ok_iff pk using c(2) assms(2) lp by simp
  have m1: "memcpy (clientID (mqtt_sn_client (client_upd (\<lambda>c. c\<lparr> keep_alive := ka, server_watchdog := ka \<rparr>) w))) 0
      (cid @ [0]) 0 (length cid + 1) = Ok ?a"
    using c(1) assms(3) by (simp add: memcpy_Ok)
  have m2: "memcpy (replicate 23 0) 0 cid 0 (length cid) = Ok (blit (replicate 23 0) 0 cid 0 (length cid))"
    using assms(3) by (simp add: memcpy_Ok)
  have "mqtt_sn_send_connect cid ka fl w =
     Ok (timer_add TIMER_MODE_SINGLE 4000 Send_connect_cb (Some Arg_client) TIMER_ID_OF_CONNCET
          (client_upd (\<lambda>c. c\<lparr> MqttSN_Status := MQTT_SN_CONNECTING \<rparr>)
            (?w2\<lparr> net_out := net_out w @ [\<lparr> dg_ip = 0x772DA8C0, dg_port = 10000, dg_data = ?d \<rparr>] \<rparr>)))"
    unfolding mqtt_sn_send_connect_def Let_def m1 MQTT_SN_MAX_CLIENT_ID_LENGTH_def MQTT_SN_CONNET_FIXLENTH_def m2 ip
      bind_outcome.simps un using sd by simp
  with la show ?thesis by (intro exI [of _ ?a]) simp
qed

text \<open>
  \<open>mqtt_sn_send_connect\<close> sends one CONNECT to the fixed address 192.168.45.119, port
  10000, whichever gateways are known: length, type, flags, protocol identifier 1, the
  duration in little-endian order and the client identifier. The client is then connecting,
  with the retry timer armed if a slot is free.
\<close>

theorem connect_sends:
  assumes "sys_inv w" and "pbuf_ok w" and "length cid \<le> 22"
  shows "\<exists>w'. mqtt_sn_send_connect cid ka fl w = Ok w' \<and> sys_inv w' \<and> Status w' = MQTT_SN_CONNECTING \<and>
     net_out w' = net_out w @ [\<lparr> dg_ip = 0x772DA8C0, dg_port = 10000,
       dg_data = [word_of_nat (length cid + 6), 0x04, fl, 0x01] @ le16_bytes ka @ cid \<rparr>] \<and>
     (Free (Systime w) \<noteq> 0 \<longrightarrow> running_ids (Systime w') = insert TIMER_ID_OF_CONNCET (running_ids (Systime w)))"
  using connect_run [OF assms, of ka fl] runs_send_connect [OF assms(1,3) refl, of "{}" ka fl]
    TimerAdd_running [OF sys_inv_parts(5) [OF assms(1)]]
  by (auto simp: timer_add_def)

theorem connect_sends_witness:
  "\<exists>w'. mqtt_sn_send_connect [65, 66] 60 4 (ready MQTT_SN_NOTCONNECT) = Ok w' \<and>
     map dg_data (net_out w') = [[8, 0x04, 4, 1, 60, 0, 65, 66]] \<and> Status w' = MQTT_SN_CONNECTING"
proof -
  have "net_out (ready MQTT_SN_NOTCONNECT) = []" by (simp add: ready_def zero_sys_def)
  with connect_sends [OF ready_inv(1) [of MQTT_SN_NOTCONNECT] ready_fields(1), of "[65, 66]" 60 4] show ?thesis
    by (auto simp: le16_bytes_def)
qed

end
