(* ===== verification/Spec2Isabelle.thy ===== *)
theory Spec2Isabelle
  imports LwipUdpProps MqttProps LwipProps LwipHeapProps LwipCyclic ComponentProps ClientProtocol
begin

text \<open>
  Verification of the firmware in \<open>src/\<close>: an MQTT-SN client over UDP and an MQTT client over TCP
  for an STM32 board with lwIP and FreeRTOS.

  \<^bold>\<open>The program and its parts.\<close> The firmware that \<open>src/user/main.c\<close> starts is the MQTT-SN client of
  \<open>src/user/MQTT_SN_Client\<close>. A datagram arrives in \<open>UdpServer_recv_cb\<close>, which puts its length into a
  queue of ten lengths and its bytes into a ring of 512 bytes (\<open>src/user/BUFF/MY_BUFF.c\<close>) and arms a
  software timer (\<open>MQTTSNTimes.c\<close>) for the handler of its message type. The task \<open>TASK_TIMER_Test\<close>
  polls the timers; a handler takes its frame from the two queues, updates the connection status, the
  registry of topics (\<open>MQTTSNClientTopicMap.c\<close>) and the list of gateways, and sends answers. The MQTT
  client (\<open>src/user/mqtt/mqtt.c\<close>, a copy of the application of lwIP with changes) runs in the thread of
  lwIP on callbacks of TCP and on a timeout of lwIP (\<open>timeouts.c\<close>); \<open>src/user/MQTTClient.c\<close> is the
  application on top of it, which subscribes, publishes and reconnects. Both get their data in packet
  buffers of lwIP (\<open>pbuf.c\<close>), as do three servers that the repository carries and \<open>main\<close> does not
  start: the TCP echo server \<open>tcpecho_raw.c\<close>, the TCP server \<open>tcp_server_demo.c\<close> and the UDP responder
  \<open>MQTT_SN_GateWay.c\<close>.

  \<^bold>\<open>Conventions.\<close> Machine integers are words of their width, C structures are records, function
  pointers are constructors of a datatype, \<open>None\<close> is NULL. A C function that may fail to return or
  leave an object returns an \<open>outcome\<close> (theory \<open>Prelude\<close>): \<open>Ok\<close> with the result, or \<open>Halt\<close> with one of
  \<open>Overrun\<close> (access outside an array), \<open>NullDeref\<close>, \<open>Spin\<close> (a loop that never ends), \<open>BadShift\<close> (a
  shift by the width of the word or more), \<open>Confused\<close> (a pointer to an object of another type) and
  \<open>Freed\<close> (use of an object that was given back).
  Bounds are checked in the model at every access through an index that the code computes. Loops are
  structural recursion, functions with a measure, or partial functions whose termination is a theorem;
  there is no fuel.

  \<^bold>\<open>The MQTT-SN client.\<close> \<open>MyBuff\<close> models \<open>MY_BUFF.c\<close>, \<open>ImportFifo\<close> the queue of lengths, \<open>Timers\<close> and
  \<open>TimerCheck\<close> \<open>MQTTSNTimes.c\<close>, \<open>TopicMap\<close> the registry, \<open>GwList\<close> the gateways, \<open>ClientState\<close> the
  globals and packet layouts of \<open>MQTTSNClient.h\<close>, \<open>ClientSend\<close> every \<open>mqtt_sn_send_*\<close> with its
  retransmission callback, \<open>ClientHandlers\<close> the receive callback and the sixteen handlers, and
  \<open>ClientCyclic\<close> the periodic work, the start and the loop of the task. \<open>ClientInv\<close> states the invariant
  of all of it, \<open>ClientSafety\<close> that every function keeps it, \<open>ClientRun\<close> the step relation of the
  running program, \<open>ClientFrames\<close> the view of the two queues as one queue of frames. The properties are
  in \<open>ComponentProps\<close> (buffer, length queue, timers, registry, gateways), \<open>ClientProps\<close> (reception and
  handlers), \<open>ClientProtocol\<close> (the messages of the protocol) and below (the running firmware).

  \<^bold>\<open>The MQTT client.\<close> \<open>MqttRing\<close> models the output ring, the functions that build messages and
  \<open>mqtt_output_send\<close>; \<open>MqttRequests\<close> the pending requests as a store of linked objects; \<open>LwipTimeouts\<close>
  the timeouts of lwIP; \<open>MqttClient\<close> the state, the public functions and the application; \<open>MqttEvents\<close>
  closing, the cyclic timer, the parser, the message handlers and the callbacks of TCP. TCP is a
  parameter: the record \<open>tcp_api\<close> of the raw functions over an unknown state. The theorems hold for
  every such record; those about the bytes that TCP was given assume \<open>tcp_stream_law\<close>, that a
  \<open>tcp_write\<close> queues all its bytes or none. \<open>MqttInv\<close>, \<open>MqttConnect\<close>, \<open>MqttSafety\<close>, \<open>MqttReceive\<close> and
  \<open>MqttParse\<close> show that every function returns and keeps the invariant, \<open>MqttHeader\<close> that the parser
  reads the headers that the client writes, \<open>MqttRun\<close> has the step relation, and \<open>MqttProps\<close> the
  properties.

  \<^bold>\<open>Packet buffers and servers.\<close> \<open>LwipApi\<close> has the error codes and the interface to TCP, \<open>LwipPbuf\<close>
  every function of \<open>pbuf.c\<close> in the configuration of \<open>lwipopts.h\<close>. The buffers are objects in a store that
  is indexed by their address; an address is never used again, so that every use of a buffer after it
  was given back shows as \<open>Freed\<close>. \<open>LwipPacket\<close> says which chains are packets and which bytes they
  hold, and what reading, writing and giving back make of the bytes; \<open>LwipChain\<close> does the same for
  joining, shrinking and hiding headers, \<open>LwipAlloc\<close> for allocation from the pool and the heap,
  \<open>LwipSearch\<close> for comparing, searching and copying. Where the clients are modelled on a list of
  received bytes, that list is the contents of the packet: \<open>pbuf_reads_bytes\<close> in \<open>LwipProps\<close> is what
  entitles them to it. \<open>EchoServer\<close> and \<open>DemoServers\<close> model the servers on buffers as they are, with
  the ownership of every chain; their properties are in \<open>LwipProps\<close>.

  \<^bold>\<open>The timers of lwIP.\<close> \<open>LwipCyclic\<close> models the rest of \<open>timeouts.c\<close>: the table of cyclic timers, the TCP
  timer, the start of the module and the wait of the thread of lwIP for messages. What a timer does to
  the stack is a parameter; that it leaves the other timers alone is the hypothesis \<open>env_law\<close>.

  \<^bold>\<open>The heap.\<close> \<open>LwipHeap\<close> models \<open>mem.c\<close>, the heap of lwIP from which \<open>pbuf_alloc\<close> and the servers take
  memory, on the bytes it consists of, the headers of its blocks included. \<open>LwipBlocks\<close> says which
  list of blocks the bytes stand for, \<open>LwipHeapOps\<close> what each function makes of the list,
  \<open>LwipHeapClients\<close> what the owners of blocks see, and \<open>LwipHeapProps\<close> has the properties. In the model
  of the packet buffers whether the heap has room is still a parameter: the theorems there hold
  whatever it answers.

  \<^bold>\<open>UDP and IPv4.\<close> \<open>LwipIp\<close> models the output side of \<open>ip4.c\<close> with the routing, \<open>LwipUdp\<close> all of
  \<open>udp.c\<close> and \<open>LwipIpInput\<close> the input side of \<open>ip4.c\<close>, on the packet buffers as they are. The control
  blocks are a store of linked objects like the buffers. The interfaces and what they do with a packet,
  fragmentation, reassembly, ICMP, TCP and the size of the pool of control blocks are the parameter
  \<open>net_env\<close>; the one law assumed of it, \<open>output_law\<close>, is that an interface that was given a packet
  returns and leaves the chains of the caller in place. The calls that leave the module are a trace.
  \<open>LwipUdpList\<close> says which list the links stand for and proves what searching, inserting, removing and
  moving to the front make of it, \<open>LwipUdpOps\<close> and \<open>LwipUdpRun\<close> what every function of UDP does and
  that their step relation keeps the invariant, \<open>LwipUdpPath\<close> follows the bytes of a datagram through
  both headers, and \<open>LwipUdpProps\<close> has the properties. The MQTT-SN client is modelled above this, on the
  datagrams it hands over and gets; its record of the control block (theory \<open>ClientState\<close>) has only
  the fields that the client itself reads and writes.

  \<^bold>\<open>Interfaces.\<close> \<open>byte_fifo\<close> (theory \<open>ByteFifo\<close>) is the contract of a bounded queue of bytes, from which
  follows that messages stored one after the other are read back in order; \<open>MyBuff\<close> and \<open>MqttRing\<close>
  interpret it. \<open>timer_host\<close> (theory \<open>TimerCheck\<close>) is the contract between the polling loop of the
  MQTT-SN client and the callbacks it runs, \<open>timeout_host\<close> (theory \<open>LwipTimeouts\<close>) that between the
  loop of lwIP's timeouts and their handlers; \<open>MqttTimeouts\<close> shows that the MQTT client keeps the
  latter, so that a check of the timeouts ends. \<open>allocator\<close> (theory \<open>LwipHeapClients\<close>) is the contract of
  an allocator, from which follows that blocks behave like arrays of their owners; the heap of lwIP
  keeps it.

  \<^bold>\<open>What is assumed.\<close> Steps are atomic: the receive callback of UDP, a pass of the task and a tick of the
  kernel do not interleave within a step, and the callbacks of the MQTT client run to completion in the
  thread of lwIP. The target is little-endian, packet structures are packed, \<open>int\<close> has 32 bits.
  \<open>LWIP_ASSERT\<close> prints and goes on, as in this port. Debug output is left out, other printing is a log.

  \<^bold>\<open>What is not modelled.\<close> The rest of lwIP (TCP, ICMP, ARP, fragments, the sequential interfaces and the
  link layers), FreeRTOS and the STM32 libraries, which are vendored code that the clients call through
  the few functions named above; the drivers and interrupt handlers of
  the board, which are register access; \<open>mqttsn.c\<close>, an older copy of the MQTT-SN client that defines the
  same functions against structures that the headers no longer have; \<open>tcpecho.c\<close>, a thread that only
  calls the sequential interface of lwIP; and the main loop of \<open>tcp_server_demo.c\<close>, which polls the
  hardware.
\<close>

section \<open>The firmware\<close>

text \<open>
  The firmware starts: from zeroed globals, with a UDP control block and memory for
  packet buffers, \<open>main\<close> and the head of \<open>TASK_TIMER_Test\<close> run through, the invariant of
  the client holds, one CONNECT for the client \<open>lwip_test\<close> was sent and the client is
  connecting.
\<close>

theorem firmware_boots:
  assumes "length u = 255"
  shows "\<exists>w0. boot (Some pcb) (zero_sys u True t) = Ok w0 \<and> sys_inv w0 \<and> Status w0 = MQTT_SN_CONNECTING \<and>
     map dg_data (net_out w0) = [[15, 0x04, 4, 1, 60, 0] @ bytes_of ''lwip_test'']"
proof -
  obtain m where m: "TopicInitConfig zero_topic_map = Ok m" using TopicInitConfig_inv by blast
  let ?v = "(zero_sys u True t)\<lparr> Systime := TimerInit, MY_TopicIDMap := m, mqtt_sn_client := zero_client\<lparr> pkt_id := 1 \<rparr> \<rparr>"
  let ?w = "?v\<lparr> Sock := Some (pcb\<lparr> local_port := MQTT_SN_DEFAULT_PORT \<rparr>), BuffBody := BuffInit (BuffBody ?v) \<rparr>"
  have b: "boot (Some pcb) (zero_sys u True t) =
      bind_outcome (mqtt_sn_send_connect (bytes_of ''lwip_test'') 60 (0 OR MQTT_SN_FLAG_CLEAN) ?w)
        (\<lambda>w3. Ok (timer_add TIMER_MODE_LOOP 1000 Cyclic_cb None 0 w3))"
    using m by (simp add: boot_def MQTTClientInit_def mqtt_sn_create_socket_def zero_sys_def)
  have "sys_inv ?w" "pbuf_ok ?w" "net_out ?w = []"
    using boot_socket_inv [OF assms m] by (simp_all add: zero_sys_def)
  from connect_run [OF this(1,2), of "bytes_of ''lwip_test''" 60 "0 OR MQTT_SN_FLAG_CLEAN"] this(3)
  obtain w3 where w3: "mqtt_sn_send_connect (bytes_of ''lwip_test'') 60 (0 OR MQTT_SN_FLAG_CLEAN) ?w = Ok w3"
    "Status w3 = MQTT_SN_CONNECTING" "map dg_data (net_out w3) = [[15, 0x04, 4, 1, 60, 0] @ bytes_of ''lwip_test'']"
    by (auto simp: timer_add_def le16_bytes_def MQTT_SN_FLAG_CLEAN_def)
  have "runs {} True (boot (Some pcb) (zero_sys u True t))" by (rule boot_runs [OF assms])
  with b w3 show ?thesis by (simp add: timer_add_def)
qed

theorem firmware_boots_witness:
  "\<exists>w0. boot (Some \<lparr> remote_ip = 0, remote_port = 0, local_port = 0 \<rparr>) (zero_sys (replicate 255 7) True 0) = Ok w0 \<and>
     Status w0 = MQTT_SN_CONNECTING"
  using firmware_boots [of "replicate 255 7" "\<lparr> remote_ip = 0, remote_port = 0, local_port = 0 \<rparr>" 0] by auto



text \<open>
  \<open>UdpServer_recv_cb\<close> never fails on a datagram that holds its command byte, whatever
  the content and the state of the queues: it returns and keeps the invariant. On any
  shorter datagram it reads past the end of the packet buffer.
\<close>

theorem recv_safe:
  assumes "sys_inv w" and "pbuf_ok w" and "length p < 65536"
  shows "(has_command p \<longrightarrow> (\<exists>w'. UdpServer_recv_cb p addr port w = Ok w' \<and> sys_inv w')) \<and>
     (\<not> has_command p \<longrightarrow> UdpServer_recv_cb p addr port w = Halt Overrun)"
proof (intro conjI impI)
  assume "has_command p"
  from runs_cases [OF runs_UdpServer_recv_cb [OF assms(1) refl this, of "{}" addr port]] assms(2)
  show "\<exists>w'. UdpServer_recv_cb p addr port w = Ok w' \<and> sys_inv w'" by auto
next
  assume "\<not> has_command p"
  with assms show "UdpServer_recv_cb p addr port w = Halt Overrun" by (intro recv_short) (auto simp: sys_inv_def)
qed

theorem recv_safe_witness:
  "(\<exists>w'. UdpServer_recv_cb [9, 9] 1 2 (ready MQTT_SN_CONNECTED) = Ok w' \<and> sys_inv w') \<and>
   UdpServer_recv_cb [1, 9] 1 2 (ready MQTT_SN_CONNECTED) = Halt Overrun"
  using recv_safe [OF ready_inv(1) [of MQTT_SN_CONNECTED] ready_fields(1), of "[9, 9]" 1 2]
    recv_safe [OF ready_inv(1) [of MQTT_SN_CONNECTED] ready_fields(1), of "[1, 9]" 1 2]
  by (simp add: has_command_def)

end
